(* ===== verification/Prelude.thy ===== *)
theory Prelude
  imports Main "HOL-Library.Word"
begin

unbundle bit_operations_syntax

section \<open>Prelude: machine words, byte buffers, exceptions\<close>

text \<open>
  What every component shares: the names of the C and C++ integer types, byte
  buffers read as bit strings (LSB first, the order in which JTAG shifts them), C++
  exceptions and undefined behaviour as values of a sum type, and the list and word
  lemmas the components use.  The collections \<open>cpp_defs\<close> and \<open>buf_simps\<close> gather the
  definitions and rewrite rules which the component proofs unfold.
\<close>

named_theorems cpp_defs \<open>definitions to unfold when an operation is executed symbolically\<close>
named_theorems buf_simps \<open>rewrite rules for the bits of byte buffers\<close>

type_synonym u8 = "8 word"
type_synonym u16 = "16 word"
type_synonym u32 = "32 word"
type_synonym bytes = "u8 list"

subsection \<open>Exceptions\<close>

text \<open>
  \<open>Runtime_error\<close> and \<open>Std_exception\<close> are the two exception classes the C++ code
  throws.  \<open>Null_deref\<close> and \<open>Out_of_bounds\<close> are undefined behaviour of the source, kept
  as distinct outcomes, as is \<open>Undefined\<close> for an arithmetic conversion without a defined
  result; \<open>Diverges\<close> is a loop that does not end.
\<close>

datatype exn =
    Std_exception
  | Runtime_error string
  | Null_deref
  | Out_of_bounds
  | Undefined
  | Diverges

type_synonym 'a res = "exn + 'a"

fun bindE :: "'a res \<Rightarrow> ('a \<Rightarrow> 'b res) \<Rightarrow> 'b res" where
  "bindE (Inl e) f = Inl e"
| "bindE (Inr x) f = f x"

lemma bindE_Inr_iff:
  "bindE m f = Inr y \<longleftrightarrow> (\<exists>x. m = Inr x \<and> f x = Inr y)"
  by (cases m) auto

lemma bindE_assoc: "bindE (bindE m f) g = bindE m (\<lambda>x. bindE (f x) g)"
  by (cases m) auto

lemma bindE_cong [fundef_cong]:
  "m = m' \<Longrightarrow> (\<And>x. m' = Inr x \<Longrightarrow> f x = f' x) \<Longrightarrow> bindE m f = bindE m' f'"
  by (cases m') auto

subsection \<open>Byte buffers as bit strings\<close>

definition nth_bit :: "bytes \<Rightarrow> nat \<Rightarrow> bool" where
  "nth_bit bs i = bit (bs ! (i div 8)) (i mod 8)"

definition bits_of :: "bytes \<Rightarrow> nat \<Rightarrow> bool list" where
  "bits_of bs n = map (nth_bit bs) [0..<n]"

lemma length_bits_of [simp]: "length (bits_of bs n) = n"
  by (simp add: bits_of_def)

lemma nth_bits_of [simp]: "i < n \<Longrightarrow> bits_of bs n ! i = nth_bit bs i"
  by (simp add: bits_of_def)

lemma bits_of_0 [simp]: "bits_of bs 0 = []"
  by (simp add: bits_of_def)

lemma bits_of_Suc: "bits_of bs (Suc n) = bits_of bs n @ [nth_bit bs n]"
  by (simp add: bits_of_def)

lemma bits_of_cong:
  "(\<And>i. i < n \<Longrightarrow> nth_bit bs i = nth_bit cs i) \<Longrightarrow> bits_of bs n = bits_of cs n"
  by (simp add: bits_of_def)

lemma bits_of_eq_Nil [simp]: "bits_of bs n = [] \<longleftrightarrow> n = 0"
  by (simp add: bits_of_def)

text \<open>\<open>buf[k >> 3] |= 1 << (k & 7)\<close>: set one bit of a buffer.\<close>

definition set_bit_at :: "bytes \<Rightarrow> nat \<Rightarrow> bytes" where
  "set_bit_at bs k = bs[k div 8 := (bs ! (k div 8)) OR push_bit (k mod 8) 1]"

text \<open>\<open>buf[k >> 3] &= ~(1 << (k & 7))\<close>: clear one bit of a buffer.\<close>

definition clear_bit_at :: "bytes \<Rightarrow> nat \<Rightarrow> bytes" where
  "clear_bit_at bs k = bs[k div 8 := (bs ! (k div 8)) AND NOT (push_bit (k mod 8) 1)]"

lemma length_set_bit_at [simp]: "length (set_bit_at bs k) = length bs"
  by (simp add: set_bit_at_def)

lemma length_clear_bit_at [simp]: "length (clear_bit_at bs k) = length bs"
  by (simp add: clear_bit_at_def)

lemma bit_two_power: "n < 8 \<Longrightarrow> bit (2 ^ m :: u8) n \<longleftrightarrow> n = m"
  by (auto simp: bit_exp_iff)

lemma div_mod_eq_iff: "i div 8 = j div 8 \<and> i mod 8 = j mod 8 \<longleftrightarrow> i = (j :: nat)"
  by (metis div_mod_decomp)

lemma nth_bit_set_bit_at [buf_simps]:
  assumes "k < 8 * length bs"
  shows "nth_bit (set_bit_at bs k) i = (nth_bit bs i \<or> i = k)"
proof (cases "i div 8 = k div 8")
  case True
  have "k div 8 < length bs" using assms by (simp add: less_mult_imp_div_less mult.commute)
  then show ?thesis
    using True div_mod_eq_iff [of i k]
    by (auto simp: nth_bit_def set_bit_at_def bit_or_iff bit_two_power)
next
  case False
  then show ?thesis by (auto simp: nth_bit_def set_bit_at_def)
qed

lemma nth_bit_clear_bit_at [buf_simps]:
  assumes "k < 8 * length bs"
  shows "nth_bit (clear_bit_at bs k) i = (nth_bit bs i \<and> i \<noteq> k)"
proof (cases "i div 8 = k div 8")
  case True
  have "k div 8 < length bs" using assms by (simp add: less_mult_imp_div_less mult.commute)
  then show ?thesis
    using True div_mod_eq_iff [of i k]
    by (auto simp: nth_bit_def clear_bit_at_def bit_and_iff bit_not_iff bit_two_power)
next
  case False
  then show ?thesis by (auto simp: nth_bit_def clear_bit_at_def)
qed

lemma nth_bit_replicate [buf_simps]:
  "i < 8 * n \<Longrightarrow> nth_bit (replicate n b) i = bit b (i mod 8)"
  by (simp add: nth_bit_def less_mult_imp_div_less mult.commute)

lemma bits_of_replicate_0: "n \<le> 8 * m \<Longrightarrow> bits_of (replicate m 0) n = replicate n False"
  by (rule nth_equalityI) (auto simp: buf_simps)

lemma bits_of_replicate_FF:
  "n \<le> 8 * m \<Longrightarrow> bits_of (replicate m 255) n = replicate n True"
proof (rule nth_equalityI)
  fix i assume "n \<le> 8 * m" "i < length (bits_of (replicate m 255) n)"
  moreover have "bit (255 :: u8) (i mod 8)"
  proof -
    have "bit (mask 8 :: u8) (i mod 8)" by (simp add: bit_mask_iff)
    then show ?thesis by (simp add: mask_eq_exp_minus_1)
  qed
  ultimately show "bits_of (replicate m 255) n ! i = replicate n True ! i"
    by (simp add: buf_simps)
qed simp

subsection \<open>Words and bytes\<close>

text \<open>\<open>(x >> (8 * k)) & 0xff\<close> as a byte.\<close>

definition byte_of :: "'a::len word \<Rightarrow> nat \<Rightarrow> u8" where
  "byte_of x k = ucast (drop_bit (8 * k) x)"

lemma bit_byte_of: "bit (byte_of x k) n \<longleftrightarrow> n < 8 \<and> bit x (8 * k + n)"
  by (simp add: byte_of_def bit_ucast_iff bit_drop_bit_eq)

lemma and_split: "(x AND m) OR (x AND NOT m) = (x :: 'a::len word)"
  by (simp flip: bit.conj_disj_distrib)

lemma xor_right_cancel [simp]: "a XOR c = b XOR c \<longleftrightarrow> a = (b :: 'a::len word)"
  by (metis xor.assoc xor.right_neutral xor_self_eq)

lemma xor_left_cancel [simp]: "c XOR a = c XOR b \<longleftrightarrow> a = (b :: 'a::len word)"
  by (simp add: xor.commute [of c])

text \<open>A bounded word is one of the listed values, so that a check of the list covers it.\<close>

lemma word_in_of_nats: "unat c < n \<Longrightarrow> c \<in> set (map of_nat [0..<n])"
  by (auto intro!: image_eqI [where x = "unat c"])

text \<open>A statement on all elements of a list, given for a prefix of it.\<close>

lemma all_drop_iff:
  assumes "\<forall>i < n. P i (xs ! i)" "n \<le> length xs"
  shows "(\<forall>i < length (drop n xs). P (n + i) (drop n xs ! i)) \<longleftrightarrow> (\<forall>i < length xs. P i (xs ! i))"
proof
  assume L: "\<forall>i < length (drop n xs). P (n + i) (drop n xs ! i)"
  show "\<forall>i < length xs. P i (xs ! i)"
  proof (intro allI impI)
    fix i assume "i < length xs"
    then show "P i (xs ! i)"
      using assms L [rule_format, of "i - n"] by (cases "i < n") auto
  qed
qed auto

text \<open>Widening loses nothing.\<close>

lemma ucast_up_inj:
  fixes p q :: "'a::len word"
  assumes "(ucast p :: 'b::len word) = ucast q" "LENGTH('a) \<le> LENGTH('b)"
  shows "p = q"
proof (rule bit_word_eqI)
  fix n assume "n < LENGTH('a)"
  then show "bit p n = bit q n"
    using arg_cong [OF assms(1), of "\<lambda>w. bit w n"] assms(2) by (simp add: bit_ucast_iff)
qed

end
