(* ===== verification/Jtag_Tap.thy ===== *)
theory Jtag_Tap
  imports Prelude
begin

section \<open>The TAP state machine of \<open>Jtag::set_state\<close>\<close>

text \<open>
  \<open>tapState_t\<close> of \<open>jtag.hpp\<close>, the transition table of the \<open>switch\<close> in
  \<open>Jtag::set_state\<close> (\<open>jtag.cpp\<close>), its \<open>while\<close> loop, and \<open>Jtag::getStateName\<close>.
  The reference is the TAP controller diagram of IEEE 1149.1 (\<open>tap_step\<close>): the state
  the devices of the chain are in after a rising edge of TCK with a given TMS.  The
  lemmas show that the table only ever takes transitions of that diagram, that the loop
  ends for every defined target state, and that it does not end for the target
  \<open>UNKNOWN\<close>.
\<close>

datatype tapState_t =
    TEST_LOGIC_RESET | RUN_TEST_IDLE | SELECT_DR_SCAN | CAPTURE_DR | SHIFT_DR
  | EXIT1_DR | PAUSE_DR | EXIT2_DR | UPDATE_DR | SELECT_IR_SCAN | CAPTURE_IR
  | SHIFT_IR | EXIT1_IR | PAUSE_IR | EXIT2_IR | UPDATE_IR | UNKNOWN

text \<open>
  One pass of the \<open>switch (_state)\<close>: the TMS value and the next value of \<open>_state\<close>, or
  the exception of the \<open>UNKNOWN\<close> case.
\<close>

definition set_state_switch :: "tapState_t \<Rightarrow> tapState_t \<Rightarrow> (bool \<times> tapState_t) res" where
  "set_state_switch newState st = (case st of
     TEST_LOGIC_RESET \<Rightarrow>
       Inr (if newState = TEST_LOGIC_RESET then (True, st) else (False, RUN_TEST_IDLE))
   | RUN_TEST_IDLE \<Rightarrow>
       Inr (if newState = RUN_TEST_IDLE then (False, st) else (True, SELECT_DR_SCAN))
   | SELECT_DR_SCAN \<Rightarrow>
       Inr (if newState \<in> {CAPTURE_DR, SHIFT_DR, EXIT1_DR, PAUSE_DR, EXIT2_DR, UPDATE_DR}
            then (False, CAPTURE_DR) else (True, SELECT_IR_SCAN))
   | SELECT_IR_SCAN \<Rightarrow>
       Inr (if newState \<in> {CAPTURE_IR, SHIFT_IR, EXIT1_IR, PAUSE_IR, EXIT2_IR, UPDATE_IR}
            then (False, CAPTURE_IR) else (True, TEST_LOGIC_RESET))
   | CAPTURE_DR \<Rightarrow>
       Inr (if newState = SHIFT_DR then (False, SHIFT_DR) else (True, EXIT1_DR))
   | SHIFT_DR \<Rightarrow>
       Inr (if newState = SHIFT_DR then (False, st) else (True, EXIT1_DR))
   | EXIT1_DR \<Rightarrow>
       Inr (if newState \<in> {PAUSE_DR, EXIT2_DR, SHIFT_DR, EXIT1_DR}
            then (False, PAUSE_DR) else (True, UPDATE_DR))
   | PAUSE_DR \<Rightarrow>
       Inr (if newState = PAUSE_DR then (False, st) else (True, EXIT2_DR))
   | EXIT2_DR \<Rightarrow>
       Inr (if newState \<in> {SHIFT_DR, EXIT1_DR, PAUSE_DR}
            then (False, SHIFT_DR) else (True, UPDATE_DR))
   | UPDATE_DR \<Rightarrow>
       Inr (if newState = RUN_TEST_IDLE then (False, RUN_TEST_IDLE) else (True, SELECT_DR_SCAN))
   | UPDATE_IR \<Rightarrow>
       Inr (if newState = RUN_TEST_IDLE then (False, RUN_TEST_IDLE) else (True, SELECT_DR_SCAN))
   | CAPTURE_IR \<Rightarrow>
       Inr (if newState = SHIFT_IR then (False, SHIFT_IR) else (True, EXIT1_IR))
   | SHIFT_IR \<Rightarrow>
       Inr (if newState = SHIFT_IR then (False, st) else (True, EXIT1_IR))
   | EXIT1_IR \<Rightarrow>
       Inr (if newState \<in> {PAUSE_IR, EXIT2_IR, SHIFT_IR, EXIT1_IR}
            then (False, PAUSE_IR) else (True, UPDATE_IR))
   | PAUSE_IR \<Rightarrow>
       Inr (if newState = PAUSE_IR then (False, st) else (True, EXIT2_IR))
   | EXIT2_IR \<Rightarrow>
       Inr (if newState \<in> {SHIFT_IR, EXIT1_IR, PAUSE_IR}
            then (False, SHIFT_IR) else (True, UPDATE_IR))
   | UNKNOWN \<Rightarrow> Inl Std_exception)"

text \<open>
  The \<open>while (newState != _state)\<close> loop as the list of TMS values it hands to
  \<open>setTMS\<close>, in order.  The fuel bounds the number of passes; \<open>set_state_fuel\<close> is proved
  to be enough for every target but \<open>UNKNOWN\<close>, for which no fuel is.
\<close>

fun tms_path :: "nat \<Rightarrow> tapState_t \<Rightarrow> tapState_t \<Rightarrow> bool list res" where
  "tms_path fuel newState st =
     (if newState = st then Inr []
      else case fuel of
        0 \<Rightarrow> Inl Diverges
      | Suc n \<Rightarrow> bindE (set_state_switch newState st)
          (\<lambda>(tms, st'). bindE (tms_path n newState st') (\<lambda>p. Inr (tms # p))))"

declare tms_path.simps [simp del]

definition set_state_fuel :: nat where
  "set_state_fuel = 16"

definition getStateName :: "tapState_t \<Rightarrow> string" where
  "getStateName s = (case s of
     TEST_LOGIC_RESET \<Rightarrow> ''TEST_LOGIC_RESET''
   | RUN_TEST_IDLE \<Rightarrow> ''RUN_TEST_IDLE''
   | SELECT_DR_SCAN \<Rightarrow> ''SELECT_DR_SCAN''
   | CAPTURE_DR \<Rightarrow> ''CAPTURE_DR''
   | SHIFT_DR \<Rightarrow> ''SHIFT_DR''
   | EXIT1_DR \<Rightarrow> ''EXIT1_DR''
   | PAUSE_DR \<Rightarrow> ''PAUSE_DR''
   | EXIT2_DR \<Rightarrow> ''EXIT2_DR''
   | UPDATE_DR \<Rightarrow> ''UPDATE_DR''
   | SELECT_IR_SCAN \<Rightarrow> ''SELECT_IR_SCAN''
   | CAPTURE_IR \<Rightarrow> ''CAPTURE_IR''
   | SHIFT_IR \<Rightarrow> ''SHIFT_IR''
   | EXIT1_IR \<Rightarrow> ''EXIT1_IR''
   | PAUSE_IR \<Rightarrow> ''PAUSE_IR''
   | EXIT2_IR \<Rightarrow> ''EXIT2_IR''
   | UPDATE_IR \<Rightarrow> ''UPDATE_IR''
   | UNKNOWN \<Rightarrow> ''Unknown'')"

subsection \<open>The reference: the IEEE 1149.1 controller\<close>

text \<open>The successor states for TMS low and TMS high.\<close>

fun tap_step :: "tapState_t \<Rightarrow> bool \<Rightarrow> tapState_t" where
  "tap_step TEST_LOGIC_RESET tms = (if tms then TEST_LOGIC_RESET else RUN_TEST_IDLE)"
| "tap_step RUN_TEST_IDLE tms = (if tms then SELECT_DR_SCAN else RUN_TEST_IDLE)"
| "tap_step SELECT_DR_SCAN tms = (if tms then SELECT_IR_SCAN else CAPTURE_DR)"
| "tap_step CAPTURE_DR tms = (if tms then EXIT1_DR else SHIFT_DR)"
| "tap_step SHIFT_DR tms = (if tms then EXIT1_DR else SHIFT_DR)"
| "tap_step EXIT1_DR tms = (if tms then UPDATE_DR else PAUSE_DR)"
| "tap_step PAUSE_DR tms = (if tms then EXIT2_DR else PAUSE_DR)"
| "tap_step EXIT2_DR tms = (if tms then UPDATE_DR else SHIFT_DR)"
| "tap_step UPDATE_DR tms = (if tms then SELECT_DR_SCAN else RUN_TEST_IDLE)"
| "tap_step SELECT_IR_SCAN tms = (if tms then TEST_LOGIC_RESET else CAPTURE_IR)"
| "tap_step CAPTURE_IR tms = (if tms then EXIT1_IR else SHIFT_IR)"
| "tap_step SHIFT_IR tms = (if tms then EXIT1_IR else SHIFT_IR)"
| "tap_step EXIT1_IR tms = (if tms then UPDATE_IR else PAUSE_IR)"
| "tap_step PAUSE_IR tms = (if tms then EXIT2_IR else PAUSE_IR)"
| "tap_step EXIT2_IR tms = (if tms then UPDATE_IR else SHIFT_IR)"
| "tap_step UPDATE_IR tms = (if tms then SELECT_DR_SCAN else RUN_TEST_IDLE)"
| "tap_step UNKNOWN tms = UNKNOWN"

definition tap_run :: "tapState_t \<Rightarrow> bool list \<Rightarrow> tapState_t" where
  "tap_run s tmss = foldl tap_step s tmss"

lemma tap_run_Nil [simp]: "tap_run s [] = s"
  by (simp add: tap_run_def)

lemma tap_run_Cons [simp]: "tap_run s (b # bs) = tap_run (tap_step s b) bs"
  by (simp add: tap_run_def)

lemma tap_run_append [simp]: "tap_run s (as @ bs) = tap_run (tap_run s as) bs"
  by (simp add: tap_run_def)

subsection \<open>The table follows the diagram\<close>

lemma set_state_switch_tap_step:
  "set_state_switch newState st = Inr (tms, st') \<Longrightarrow> st' = tap_step st tms"
  by (cases st) (auto simp: set_state_switch_def split: if_splits)

lemma set_state_switch_Inl_iff:
  "set_state_switch newState st = Inl e \<longleftrightarrow> st = UNKNOWN \<and> e = Std_exception"
  by (cases st) (auto simp: set_state_switch_def)

lemma set_state_switch_known:
  "set_state_switch newState st = Inr (tms, st') \<Longrightarrow> st' \<noteq> UNKNOWN"
  by (cases st) (auto simp: set_state_switch_def split: if_splits)

lemma tms_path_0_Inr: "tms_path 0 newState st = Inr p \<longleftrightarrow> newState = st \<and> p = []"
  by (subst tms_path.simps) auto

lemma tms_path_Suc_Inr:
  "tms_path (Suc n) newState st = Inr p \<longleftrightarrow>
     (newState = st \<and> p = []) \<or>
     (newState \<noteq> st \<and> (\<exists>tms st' q. set_state_switch newState st = Inr (tms, st') \<and>
        tms_path n newState st' = Inr q \<and> p = tms # q))"
  by (subst tms_path.simps) (auto simp: bindE_Inr_iff)

lemma tms_path_tap_run:
  "tms_path fuel newState st = Inr p \<Longrightarrow> tap_run st p = newState"
proof (induction fuel arbitrary: st p)
  case 0
  then show ?case by (simp add: tms_path_0_Inr)
next
  case (Suc fuel)
  then show ?case
    unfolding tms_path_Suc_Inr using set_state_switch_tap_step [of newState st] by auto
qed

lemma tms_path_mono:
  "tms_path fuel newState st = Inr p \<Longrightarrow> tms_path (fuel + k) newState st = Inr p"
proof (induction fuel arbitrary: st p)
  case 0
  then show ?case by (cases k) (auto simp: tms_path_0_Inr tms_path_Suc_Inr)
next
  case (Suc fuel)
  from Suc.prems show ?case
    unfolding add_Suc tms_path_Suc_Inr using Suc.IH by blast
qed

lemma tms_path_length: "tms_path fuel newState st = Inr p \<Longrightarrow> length p \<le> fuel"
proof (induction fuel arbitrary: st p)
  case 0
  then show ?case by (simp add: tms_path_0_Inr)
next
  case (Suc fuel)
  then show ?case unfolding tms_path_Suc_Inr by auto
qed

text \<open>Every defined target is reached from every defined state.\<close>

lemma tms_path_total:
  assumes "newState \<noteq> UNKNOWN" and "st \<noteq> UNKNOWN"
  shows "\<exists>p. tms_path set_state_fuel newState st = Inr p"
  using assms
  by (cases newState; cases st)
     (simp_all add: set_state_fuel_def tms_path.simps numeral_eq_Suc set_state_switch_def)

text \<open>
  \<open>set_state(UNKNOWN)\<close> never returns: the loop has no pass that sets \<open>_state\<close> to
  \<open>UNKNOWN\<close>.
\<close>

lemma tms_path_UNKNOWN:
  "st \<noteq> UNKNOWN \<Longrightarrow> tms_path fuel UNKNOWN st = Inl Diverges"
proof (induction fuel arbitrary: st)
  case 0
  then show ?case by (simp add: tms_path.simps)
next
  case (Suc fuel)
  obtain tms st' where sw: "set_state_switch UNKNOWN st = Inr (tms, st')"
    using Suc.prems set_state_switch_Inl_iff [of UNKNOWN st]
    by (cases "set_state_switch UNKNOWN st") auto
  then have "st' \<noteq> UNKNOWN" by (rule set_state_switch_known)
  with Suc sw show ?case by (subst tms_path.simps) simp
qed

lemma tms_path_from_UNKNOWN:
  "newState \<noteq> UNKNOWN \<Longrightarrow> tms_path (Suc fuel) newState UNKNOWN = Inl Std_exception"
  by (subst tms_path.simps) (simp add: set_state_switch_def)

text \<open>Entering a shift state always ends on TMS low, so the pin is low while shifting.\<close>

lemma tap_step_shift_low:
  "tap_step s tms \<in> {SHIFT_DR, SHIFT_IR} \<Longrightarrow> \<not> tms"
  by (cases s) (auto split: if_splits)

lemma tap_step_not_UNKNOWN: "tap_step s tms = UNKNOWN \<longleftrightarrow> s = UNKNOWN"
  by (cases s) auto

lemma tap_run_not_UNKNOWN [simp]: "tap_run s bs = UNKNOWN \<longleftrightarrow> s = UNKNOWN"
  by (induction bs arbitrary: s) (auto simp: tap_step_not_UNKNOWN)

lemma tap_run_shift_low:
  assumes "tap_run s bs \<in> {SHIFT_DR, SHIFT_IR}" and "bs \<noteq> []"
  shows "\<not> last bs"
proof -
  from \<open>bs \<noteq> []\<close> have "bs = butlast bs @ [last bs]" by simp
  then have "tap_run s bs = tap_step (tap_run s (butlast bs)) (last bs)"
    by (metis tap_run_Cons tap_run_Nil tap_run_append)
  with assms(1) show ?thesis using tap_step_shift_low by metis
qed

text \<open>Shifting with TMS low stays; five high TMS reset from anywhere.\<close>

lemma tap_run_shift_stay:
  "s \<in> {SHIFT_DR, SHIFT_IR} \<Longrightarrow> tap_run s (replicate n False) = s"
  by (induction n) auto

lemma tap_run_reset:
  "s \<noteq> UNKNOWN \<Longrightarrow> tap_run s (replicate 5 True) = TEST_LOGIC_RESET"
  by (cases s) (simp_all add: numeral_eq_Suc)

lemma tap_run_reset_more:
  "s \<noteq> UNKNOWN \<Longrightarrow> 5 \<le> n \<Longrightarrow> tap_run s (replicate n True) = TEST_LOGIC_RESET"
proof -
  assume s: "s \<noteq> UNKNOWN" and "5 \<le> n"
  then obtain k where n: "n = 5 + k" using le_Suc_ex by blast
  have "tap_run TEST_LOGIC_RESET (replicate k True) = TEST_LOGIC_RESET"
    by (induction k) auto
  with s show ?thesis
    by (simp only: n replicate_add tap_run_append tap_run_reset [OF s])
qed

subsection \<open>Properties\<close>

text \<open>
  C1: the moves of \<open>Jtag::set_state\<close> agree with the TAP diagram of IEEE 1149.1.  From every
  defined state to every defined state the loop ends within the 16 passes it is given here,
  and the TMS values it produces take a controller of the standard exactly there.
\<close>

theorem set_state_path_correct:
  assumes "newState \<noteq> UNKNOWN" and "st \<noteq> UNKNOWN"
  shows "\<exists>p. tms_path set_state_fuel newState st = Inr p \<and> tap_run st p = newState \<and>
    length p \<le> set_state_fuel"
  using tms_path_total [OF assms] tms_path_tap_run tms_path_length by blast

theorem set_state_path_correct_witness:
  "\<exists>p. tms_path set_state_fuel SHIFT_IR PAUSE_DR = Inr p \<and> tap_run PAUSE_DR p = SHIFT_IR \<and>
    length p \<le> set_state_fuel"
  by (rule set_state_path_correct) simp_all

text \<open>
  \<open>Jtag::set_state(UNKNOWN)\<close> never returns: however many passes the loop is given, it has
  not ended, since no pass sets \<open>_state\<close> to \<open>UNKNOWN\<close>.
\<close>

theorem set_state_unknown_diverges:
  assumes "st \<noteq> UNKNOWN"
  shows "tms_path fuel UNKNOWN st = Inl Diverges"
  by (rule tms_path_UNKNOWN [OF assms])

theorem set_state_unknown_diverges_witness: "tms_path 1000 UNKNOWN RUN_TEST_IDLE = Inl Diverges"
  by (rule set_state_unknown_diverges) simp

end
