(* ===== verification/Jtag.thy ===== *)
theory Jtag
  imports Jtag_Tap
begin

section \<open>The \<open>Jtag\<close> class: TMS buffering, scans, device selection\<close>

text \<open>
  \<open>jtag.cpp\<close> and \<open>jtag.hpp\<close>: the TMS buffer (\<open>setTMS\<close>, \<open>flushTMS\<close>), the moves in the
  TAP diagram (\<open>set_state\<close>, \<open>go_test_logic_reset\<close>), the scans (\<open>read_write\<close>, \<open>shiftDR\<close>,
  \<open>shiftIR\<close>, \<open>toggleClk\<close>) and \<open>device_select\<close>.  The cable below is the abstract class
  \<open>JtagInterface\<close> (\<open>jtagInterface.hpp\<close>), here a record of operations on a cable state.
  The locale \<open>jtag_cable\<close> states what \<open>Jtag\<close> relies on: which TCK edges, with which TMS
  and TDI, each call puts on the wire.  The lemmas in it show that the TAP controllers
  of the chain are always in the state the object believes, and which bits they shift.
\<close>

subsection \<open>\<open>JtagInterface\<close>\<close>

text \<open>
  A pointer that may be \<open>NULL\<close> is an option; a receive buffer is passed with its old
  content and returned with the new one.
\<close>

record 'c jtag_ops =
  writeTMS :: "bytes \<Rightarrow> nat \<Rightarrow> bool \<Rightarrow> u8 \<Rightarrow> 'c \<Rightarrow> (int \<times> 'c) res"
  writeTDI :: "bytes option \<Rightarrow> bytes option \<Rightarrow> nat \<Rightarrow> bool \<Rightarrow> 'c
                 \<Rightarrow> (int \<times> bytes option \<times> 'c) res"
  toggleClk_ll :: "u8 \<Rightarrow> u8 \<Rightarrow> nat \<Rightarrow> 'c \<Rightarrow> (int \<times> 'c) res"
  flush_ll :: "'c \<Rightarrow> (int \<times> 'c) res"

subsection \<open>The object\<close>

record 'c jtag =
  j_state :: tapState_t
  j_tms_buffer_size :: nat
  j_num_tms :: nat
  j_tms_buffer :: bytes
  j_device_index :: int
  j_dr_bits_before :: u32
  j_dr_bits_after :: u32
  j_dr_bits :: bytes
  j_ir_bits_before :: u32
  j_ir_bits_after :: u32
  j_ir_bits :: bytes
  j_devices_list :: "u32 list"
  j_irlength_list :: "u16 list"
  j_curr_tdi :: u8
  j_cable :: 'c

text \<open>The constructor, up to the call of \<open>detectChain\<close>; \<open>c\<close> is the opened cable.\<close>

definition jtag_init :: "'c \<Rightarrow> 'c jtag" where
  "jtag_init c = \<lparr>
     j_state = RUN_TEST_IDLE, j_tms_buffer_size = 128, j_num_tms = 0,
     j_tms_buffer = replicate 128 0, j_device_index = 0,
     j_dr_bits_before = 0, j_dr_bits_after = 0, j_dr_bits = [],
     j_ir_bits_before = 0, j_ir_bits_after = 0, j_ir_bits = [],
     j_devices_list = [], j_irlength_list = [], j_curr_tdi = 1, j_cable = c\<rparr>"

subsection \<open>TMS buffer\<close>

definition flushTMS :: "'c jtag_ops \<Rightarrow> bool \<Rightarrow> 'c jtag \<Rightarrow> (int \<times> 'c jtag) res" where
  "flushTMS ops flush_buffer j =
     (if j_num_tms j \<noteq> 0 then
        bindE (writeTMS ops (j_tms_buffer j) (j_num_tms j) flush_buffer (j_curr_tdi j) (j_cable j))
          (\<lambda>(ret, c). Inr (ret, j\<lparr>j_cable := c,
             j_tms_buffer := replicate (j_tms_buffer_size j) 0, j_num_tms := 0\<rparr>))
      else if flush_buffer then
        bindE (flush_ll ops (j_cable j)) (\<lambda>(_, c). Inr (0, j\<lparr>j_cable := c\<rparr>))
      else Inr (0, j))"

definition setTMS :: "'c jtag_ops \<Rightarrow> bool \<Rightarrow> 'c jtag \<Rightarrow> 'c jtag res" where
  "setTMS ops tms j =
     bindE (if j_num_tms j + 1 = j_tms_buffer_size j * 8 then flushTMS ops False j else Inr (0, j))
       (\<lambda>(_, j). Inr (j\<lparr>
          j_tms_buffer := (if tms then set_bit_at (j_tms_buffer j) (j_num_tms j) else j_tms_buffer j),
          j_num_tms := j_num_tms j + 1\<rparr>))"

fun setTMS_times :: "'c jtag_ops \<Rightarrow> nat \<Rightarrow> bool \<Rightarrow> 'c jtag \<Rightarrow> 'c jtag res" where
  "setTMS_times ops 0 tms j = Inr j"
| "setTMS_times ops (Suc n) tms j = bindE (setTMS ops tms j) (setTMS_times ops n tms)"

definition go_test_logic_reset :: "'c jtag_ops \<Rightarrow> 'c jtag \<Rightarrow> 'c jtag res" where
  "go_test_logic_reset ops j =
     bindE (setTMS_times ops 6 True j)
       (\<lambda>j. bindE (flushTMS ops False j) (\<lambda>(_, j). Inr (j\<lparr>j_state := TEST_LOGIC_RESET\<rparr>)))"

subsection \<open>Moves\<close>

fun set_state_loop :: "nat \<Rightarrow> 'c jtag_ops \<Rightarrow> tapState_t \<Rightarrow> 'c jtag \<Rightarrow> 'c jtag res" where
  "set_state_loop fuel ops newState j =
     (if newState = j_state j then Inr j
      else case fuel of
        0 \<Rightarrow> Inl Diverges
      | Suc n \<Rightarrow> bindE (set_state_switch newState (j_state j))
          (\<lambda>(tms, st). bindE (setTMS ops tms (j\<lparr>j_state := st\<rparr>))
             (\<lambda>j. set_state_loop n ops newState j)))"

declare set_state_loop.simps [simp del]

definition set_state :: "'c jtag_ops \<Rightarrow> tapState_t \<Rightarrow> u8 \<Rightarrow> 'c jtag \<Rightarrow> 'c jtag res" where
  "set_state ops newState tdi j =
     bindE (set_state_loop set_state_fuel ops newState (j\<lparr>j_curr_tdi := tdi\<rparr>))
       (\<lambda>j. bindE (flushTMS ops False j) (\<lambda>(_, j). Inr j))"

subsection \<open>Scans\<close>

definition read_write :: "'c jtag_ops \<Rightarrow> bytes option \<Rightarrow> bytes option \<Rightarrow> nat \<Rightarrow> bool
    \<Rightarrow> 'c jtag \<Rightarrow> (bytes option \<times> 'c jtag) res" where
  "read_write ops tdi tdo len last_bit j =
     bindE (flushTMS ops False j) (\<lambda>(_, j).
     bindE (writeTDI ops tdi tdo len last_bit (j_cable j)) (\<lambda>(_, tdo, c).
       let j = j\<lparr>j_cable := c\<rparr> in
       Inr (tdo, if last_bit
                 then j\<lparr>j_state := (if j_state j = SHIFT_DR then EXIT1_DR else EXIT1_IR)\<rparr>
                 else j)))"

definition toggleClk :: "'c jtag_ops \<Rightarrow> nat \<Rightarrow> u8 \<Rightarrow> 'c jtag \<Rightarrow> 'c jtag res" where
  "toggleClk ops nb tdi j =
     (let c = (if j_state j = TEST_LOGIC_RESET then 1 else 0) in
      bindE (flushTMS ops False j) (\<lambda>(_, j).
      bindE (toggleClk_ll ops c tdi nb (j_cable j)) (\<lambda>(ret, cb).
        if ret \<ge> 0 then Inr (j\<lparr>j_cable := cb\<rparr>) else Inl Std_exception)))"

definition shiftDR :: "'c jtag_ops \<Rightarrow> bytes option \<Rightarrow> bytes option \<Rightarrow> nat \<Rightarrow> tapState_t
    \<Rightarrow> 'c jtag \<Rightarrow> (bytes option \<times> 'c jtag) res" where
  "shiftDR ops tdi tdo drlen end_state j =
     bindE (if j_state j \<noteq> SHIFT_DR then
              bindE (set_state ops SHIFT_DR 1 j) (\<lambda>j.
              bindE (flushTMS ops False j) (\<lambda>(_, j).
                if j_dr_bits_before j \<noteq> 0 then
                  bindE (read_write ops (Some (j_dr_bits j)) None (unat (j_dr_bits_before j)) False j)
                    (\<lambda>(_, j). Inr j)
                else Inr j))
            else Inr j) (\<lambda>j.
     bindE (read_write ops tdi tdo drlen (j_dr_bits_after j = 0 \<and> end_state \<noteq> SHIFT_DR) j)
       (\<lambda>(tdo, j).
     if end_state \<noteq> SHIFT_DR then
       bindE (if j_dr_bits_after j \<noteq> 0 then
                bindE (read_write ops (Some (j_dr_bits j)) None (unat (j_dr_bits_after j)) True j)
                  (\<lambda>(_, j). Inr j)
              else Inr j) (\<lambda>j.
       bindE (set_state ops end_state 1 j) (\<lambda>j. Inr (tdo, j)))
     else Inr (tdo, j)))"

definition shiftIR :: "'c jtag_ops \<Rightarrow> bytes option \<Rightarrow> bytes option \<Rightarrow> nat \<Rightarrow> tapState_t
    \<Rightarrow> 'c jtag \<Rightarrow> (bytes option \<times> 'c jtag) res" where
  "shiftIR ops tdi tdo irlen end_state j =
     bindE (if j_state j \<noteq> SHIFT_IR then
              bindE (set_state ops SHIFT_IR 1 j) (\<lambda>j.
                if j_ir_bits_before j \<noteq> 0 then
                  bindE (read_write ops (Some (j_ir_bits j)) None (unat (j_ir_bits_before j)) False j)
                    (\<lambda>(_, j). Inr j)
                else Inr j)
            else Inr j) (\<lambda>j.
     bindE (read_write ops tdi tdo irlen (j_ir_bits_after j = 0 \<and> end_state \<noteq> SHIFT_IR) j)
       (\<lambda>(tdo, j).
     if end_state \<noteq> SHIFT_IR then
       bindE (if j_ir_bits_after j > 0 then
                bindE (read_write ops (Some (j_ir_bits j)) None (unat (j_ir_bits_after j)) True j)
                  (\<lambda>(_, j). Inr j)
              else Inr j) (\<lambda>j.
       bindE (set_state ops end_state 1 j) (\<lambda>j. Inr (tdo, j)))
     else Inr (tdo, j)))"

text \<open>The overload for one instruction byte returns -1 beyond 8 bits.\<close>

definition shiftIR_char :: "'c jtag_ops \<Rightarrow> u8 \<Rightarrow> nat \<Rightarrow> tapState_t \<Rightarrow> 'c jtag
    \<Rightarrow> (int \<times> 'c jtag) res" where
  "shiftIR_char ops tdi irlen end_state j =
     (if irlen > 8 then Inr (-1, j)
      else bindE (shiftIR ops (Some [tdi]) None irlen end_state j) (\<lambda>(_, j). Inr (0, j)))"

subsection \<open>Devices of the chain\<close>

definition insert_first :: "u32 \<Rightarrow> u16 \<Rightarrow> 'c jtag \<Rightarrow> 'c jtag" where
  "insert_first device_id irlength j =
     j\<lparr>j_devices_list := device_id # j_devices_list j,
       j_irlength_list := irlength # j_irlength_list j\<rparr>"

text \<open>
  \<open>device_select\<close> on \<open>unsigned\<close> 32-bit quantities; the \<open>int16_t\<close> instruction lengths are
  sign extended when they are added up.
\<close>

definition device_select :: "nat \<Rightarrow> 'c jtag \<Rightarrow> int \<times> 'c jtag" where
  "device_select index j =
     (let n = length (j_devices_list j) in
      if index > n then (-1, j)
      else
        let dr_before = of_nat n - of_nat index - 1;
            dr_after = of_nat index;
            ir_after = (\<Sum>l \<leftarrow> take index (j_irlength_list j). scast l);
            ir_before = (\<Sum>l \<leftarrow> drop (index + 1) (j_irlength_list j). scast l)
        in (int index,
            j\<lparr>j_device_index := int index,
              j_dr_bits_before := dr_before,
              j_dr_bits_after := dr_after,
              j_dr_bits := replicate (unat ((max dr_after dr_before + 7) div 8 :: u32)) 0,
              j_ir_bits_after := ir_after,
              j_ir_bits_before := ir_before,
              j_ir_bits := replicate (unat ((max ir_before ir_after + 7) div 8 :: u32)) 0xff\<rparr>))"

subsection \<open>Invariant of the TMS buffer\<close>

text \<open>
  The buffer has its declared size, always one free bit, and no bit set beyond those
  that are pending.
\<close>

definition jtag_wf :: "'c jtag \<Rightarrow> bool" where
  "jtag_wf j \<longleftrightarrow>
     0 < j_tms_buffer_size j \<and>
     length (j_tms_buffer j) = j_tms_buffer_size j \<and>
     j_num_tms j < 8 * j_tms_buffer_size j \<and>
     (\<forall>i < 8 * j_tms_buffer_size j. j_num_tms j \<le> i \<longrightarrow> \<not> nth_bit (j_tms_buffer j) i)"

abbreviation pending :: "'c jtag \<Rightarrow> bool list" where
  "pending j \<equiv> bits_of (j_tms_buffer j) (j_num_tms j)"

text \<open>The configuration of the chain, which no scan changes.\<close>

definition same_cfg :: "'c jtag \<Rightarrow> 'c jtag \<Rightarrow> bool" where
  "same_cfg j j' \<longleftrightarrow>
     j_tms_buffer_size j' = j_tms_buffer_size j \<and> j_device_index j' = j_device_index j \<and>
     j_dr_bits_before j' = j_dr_bits_before j \<and> j_dr_bits_after j' = j_dr_bits_after j \<and>
     j_dr_bits j' = j_dr_bits j \<and> j_ir_bits_before j' = j_ir_bits_before j \<and>
     j_ir_bits_after j' = j_ir_bits_after j \<and> j_ir_bits j' = j_ir_bits j \<and>
     j_devices_list j' = j_devices_list j \<and> j_irlength_list j' = j_irlength_list j"

lemma same_cfg_refl [simp]: "same_cfg j j"
  by (simp add: same_cfg_def)

lemma same_cfg_trans: "same_cfg a b \<Longrightarrow> same_cfg b c \<Longrightarrow> same_cfg a c"
  by (simp add: same_cfg_def)

lemma jtag_wf_init: "jtag_wf (jtag_init c)"
  by (auto simp: jtag_wf_def jtag_init_def buf_simps)

lemma nth_bit_zeros: "i < 8 * n \<Longrightarrow> \<not> nth_bit (replicate n 0) i"
  by (simp add: buf_simps)

lemma jtag_wf_flushed:
  "jtag_wf j \<Longrightarrow>
   jtag_wf (j\<lparr>j_cable := c, j_tms_buffer := replicate (j_tms_buffer_size j) 0, j_num_tms := 0\<rparr>)"
  by (auto simp: jtag_wf_def nth_bit_zeros)

lemma jtag_wf_push:
  assumes "jtag_wf j" and "j_num_tms j + 1 < 8 * j_tms_buffer_size j"
  shows "jtag_wf (j\<lparr>j_tms_buffer :=
      (if tms then set_bit_at (j_tms_buffer j) (j_num_tms j) else j_tms_buffer j),
      j_num_tms := j_num_tms j + 1\<rparr>)"
  using assms by (auto simp: jtag_wf_def nth_bit_set_bit_at)

lemma pending_push:
  assumes "jtag_wf j" and "j_num_tms j + 1 < 8 * j_tms_buffer_size j"
  shows "bits_of (if tms then set_bit_at (j_tms_buffer j) (j_num_tms j) else j_tms_buffer j)
           (j_num_tms j + 1) = pending j @ [tms]"
proof -
  let ?buf = "if tms then set_bit_at (j_tms_buffer j) (j_num_tms j) else j_tms_buffer j"
  have k: "j_num_tms j < 8 * length (j_tms_buffer j)" using assms by (simp add: jtag_wf_def)
  have "bits_of ?buf (j_num_tms j) = pending j"
    by (rule bits_of_cong) (auto simp: nth_bit_set_bit_at [OF k])
  moreover have "nth_bit ?buf (j_num_tms j) = tms"
    using assms k by (auto simp: nth_bit_set_bit_at jtag_wf_def)
  ultimately show ?thesis by (simp add: bits_of_Suc)
qed

subsection \<open>What the TAP controllers see\<close>

text \<open>An edge of TCK with the TMS and TDI levels it samples.\<close>

type_synonym edge = "bool \<times> bool"

text \<open>The TDI bits clocked while the controllers are in state \<open>S\<close>.\<close>

fun shifted_in :: "tapState_t \<Rightarrow> tapState_t \<Rightarrow> edge list \<Rightarrow> bool list" where
  "shifted_in S s [] = []"
| "shifted_in S s ((tms, tdi) # es) =
     (if s = S then [tdi] else []) @ shifted_in S (tap_step s tms) es"

text \<open>Some clock edge of a TMS sequence falls in state \<open>S\<close>.\<close>

fun passes :: "tapState_t \<Rightarrow> tapState_t \<Rightarrow> bool list \<Rightarrow> bool" where
  "passes S s [] = False"
| "passes S s (b # bs) = (s = S \<or> passes S (tap_step s b) bs)"

lemma shifted_in_append:
  "shifted_in S s (xs @ ys) = shifted_in S s xs @ shifted_in S (tap_run s (map fst xs)) ys"
  by (induction S s xs rule: shifted_in.induct) auto

lemma shifted_in_not_passes:
  "\<not> passes S s (map fst es) \<Longrightarrow> shifted_in S s es = []"
  by (induction S s es rule: shifted_in.induct) auto

lemma shifted_in_stay:
  assumes "S \<in> {SHIFT_DR, SHIFT_IR}" and "length tms = length tdi"
    and "\<forall>b \<in> set (butlast tms). \<not> b"
  shows "shifted_in S S (zip tms tdi) = tdi"
  using assms(2,3)
proof (induction tms tdi rule: list_induct2)
  case Nil
  then show ?case by simp
next
  case (Cons b tms d tdi)
  show ?case
  proof (cases "tms = []")
    case True
    with Cons.hyps show ?thesis by simp
  next
    case False
    with Cons.prems have "\<not> b" and "\<forall>b \<in> set (butlast tms). \<not> b" by auto
    moreover from \<open>\<not> b\<close> assms(1) have "tap_step S b = S" by auto
    ultimately show ?thesis using Cons.IH by simp
  qed
qed

lemma shifted_in_other:
  assumes "S \<in> {SHIFT_DR, SHIFT_IR}" and "S' \<noteq> S" and "length tms = length tdi"
    and "\<forall>b \<in> set (butlast tms). \<not> b"
  shows "shifted_in S' S (zip tms tdi) = []"
  using assms(3,4)
proof (induction tms tdi rule: list_induct2)
  case Nil
  then show ?case by simp
next
  case (Cons b tms d tdi)
  show ?case
  proof (cases "tms = []")
    case True
    with Cons.hyps assms(2) show ?thesis by simp
  next
    case False
    with Cons.prems have "\<not> b" and "\<forall>b \<in> set (butlast tms). \<not> b" by auto
    moreover from \<open>\<not> b\<close> assms(1) have "tap_step S b = S" by auto
    ultimately show ?thesis using Cons.IH assms(2) by simp
  qed
qed

text \<open>
  The way into a shift state makes no shift on the way, and neither does the way on
  from the exit state that follows it.
\<close>

lemma path_into_shift:
  assumes "tms_path set_state_fuel S st = Inr p" and "S \<in> {SHIFT_DR, SHIFT_IR}"
    and "st \<notin> {SHIFT_DR, SHIFT_IR}"
  shows "\<not> passes SHIFT_DR st p \<and> \<not> passes SHIFT_IR st p"
  using assms
  by (cases st)
     (auto simp: set_state_fuel_def tms_path.simps numeral_eq_Suc set_state_switch_def)

lemma path_from_exit:
  assumes "tms_path set_state_fuel n st = Inr p" and "st \<in> {EXIT1_DR, EXIT1_IR}"
    and "n \<notin> {SHIFT_DR, SHIFT_IR, UNKNOWN}"
  shows "\<not> passes SHIFT_DR st p \<and> \<not> passes SHIFT_IR st p"
  using assms
  by (cases n)
     (auto simp: set_state_fuel_def tms_path.simps numeral_eq_Suc set_state_switch_def)

text \<open>The edges of a shift with TMS low up to the last bit.\<close>

lemma tdi_edges:
  assumes "0 < len"
  shows "map (\<lambda>i. (e \<and> i = len - 1, nth_bit tx i)) [0..<len] =
    zip (replicate (len - 1) False @ [e]) (bits_of tx len)"
  using assms by (intro nth_equalityI) (auto simp: nth_append)

subsection \<open>The contract of a cable and what \<open>Jtag\<close> does over it\<close>

text \<open>
  \<open>edges c\<close> is the history of TCK edges the cable has produced or holds queued.  While
  bits are shifted the TMS pin keeps the level of the last edge, so a call of
  \<open>writeTDI\<close> is only specified when that level is low.
\<close>

locale jtag_cable =
  fixes ops :: "'c jtag_ops"
    and inv :: "'c \<Rightarrow> bool"
    and edges :: "'c \<Rightarrow> edge list"
  assumes writeTMS_edges:
    "inv c \<Longrightarrow> 0 < len \<Longrightarrow> len \<le> 8 * length tms \<Longrightarrow>
       \<exists>ret c' new. writeTMS ops tms len fl tdi c = Inr (ret, c') \<and> inv c' \<and>
         edges c' = edges c @ new \<and> map fst new = bits_of tms len"
    and writeTDI_edges:
    "inv c \<Longrightarrow> 0 < len \<Longrightarrow> len \<le> 8 * length tx \<Longrightarrow>
       (\<And>buf. rx = Some buf \<Longrightarrow> len \<le> 8 * length buf) \<Longrightarrow>
       edges c \<noteq> [] \<Longrightarrow> \<not> fst (last (edges c)) \<Longrightarrow>
       \<exists>ret rx' c'. writeTDI ops (Some tx) rx len last_bit c = Inr (ret, rx', c') \<and> inv c' \<and>
         edges c' = edges c @ zip (replicate (len - 1) False @ [last_bit]) (bits_of tx len)"
    and flush_edges:
    "inv c \<Longrightarrow> \<exists>ret c'. flush_ll ops c = Inr (ret, c') \<and> inv c' \<and> edges c' = edges c"

text \<open>
  The object agrees with the chain: nothing is pending and, from the state \<open>s0\<close> the
  controllers started in, the edges lead to the state the object records.
\<close>

definition synced :: "('c \<Rightarrow> edge list) \<Rightarrow> tapState_t \<Rightarrow> 'c jtag \<Rightarrow> bool" where
  "synced edges s0 j \<longleftrightarrow>
     jtag_wf j \<and> j_num_tms j = 0 \<and> tap_run s0 (map fst (edges (j_cable j))) = j_state j"

context jtag_cable
begin

lemma flushTMS_ok:
  assumes "inv (j_cable j)" and "jtag_wf j"
  shows "\<exists>r j' new. flushTMS ops fb j = Inr (r, j') \<and> inv (j_cable j') \<and> jtag_wf j' \<and>
    j_num_tms j' = 0 \<and> same_cfg j j' \<and> j_state j' = j_state j \<and>
    edges (j_cable j') = edges (j_cable j) @ new \<and> map fst new = pending j"
proof (cases "j_num_tms j = 0")
  case True
  then show ?thesis
    using assms flush_edges [OF assms(1)]
    by (auto simp: flushTMS_def same_cfg_def jtag_wf_def)
next
  case False
  have "j_num_tms j \<le> 8 * length (j_tms_buffer j)" using assms by (simp add: jtag_wf_def)
  from writeTMS_edges [OF assms(1) _ this, of fb "j_curr_tdi j"] False
  obtain ret c' new where w: "writeTMS ops (j_tms_buffer j) (j_num_tms j) fb (j_curr_tdi j)
      (j_cable j) = Inr (ret, c')" "inv c'" "edges c' = edges (j_cable j) @ new"
      "map fst new = pending j" by auto
  show ?thesis
    using False w jtag_wf_flushed [OF assms(2), of c']
    by (auto simp: flushTMS_def same_cfg_def)
qed

lemma flushTMS_idle:
  assumes "j_num_tms j = 0"
  shows "flushTMS ops False j = Inr (0, j)"
  using assms by (simp add: flushTMS_def)

lemma setTMS_ok:
  assumes "inv (j_cable j)" and "jtag_wf j"
  shows "\<exists>j' new. setTMS ops tms j = Inr j' \<and> inv (j_cable j') \<and> jtag_wf j' \<and>
    same_cfg j j' \<and> j_state j' = j_state j \<and>
    edges (j_cable j') = edges (j_cable j) @ new \<and> map fst new @ pending j' = pending j @ [tms]"
proof (cases "j_num_tms j + 1 = j_tms_buffer_size j * 8")
  case False
  with assms(2) have lt: "j_num_tms j + 1 < 8 * j_tms_buffer_size j"
    by (simp add: jtag_wf_def)
  show ?thesis
    using False assms jtag_wf_push [OF assms(2) lt] pending_push [OF assms(2) lt]
    by (auto simp: setTMS_def same_cfg_def)
next
  case True
  from flushTMS_ok [OF assms, of False] obtain r j1 new where
    f: "flushTMS ops False j = Inr (r, j1)" "inv (j_cable j1)" "jtag_wf j1" "j_num_tms j1 = 0"
      "same_cfg j j1" "j_state j1 = j_state j" "edges (j_cable j1) = edges (j_cable j) @ new"
      "map fst new = pending j" by blast
  have lt: "j_num_tms j1 + 1 < 8 * j_tms_buffer_size j1"
    using f(3,4) by (auto simp: jtag_wf_def)
  show ?thesis
    using True f jtag_wf_push [OF f(3) lt] pending_push [OF f(3) lt]
    by (auto simp: setTMS_def same_cfg_def)
qed

lemma setTMS_times_ok:
  "inv (j_cable j) \<Longrightarrow> jtag_wf j \<Longrightarrow>
   \<exists>j' new. setTMS_times ops n tms j = Inr j' \<and> inv (j_cable j') \<and> jtag_wf j' \<and>
     same_cfg j j' \<and> j_state j' = j_state j \<and> edges (j_cable j') = edges (j_cable j) @ new \<and>
     map fst new @ pending j' = pending j @ replicate n tms"
proof (induction n arbitrary: j)
  case 0
  then show ?case by auto
next
  case (Suc n)
  from setTMS_ok [OF Suc.prems, of tms] obtain j1 new1 where
    s: "setTMS ops tms j = Inr j1" "inv (j_cable j1)" "jtag_wf j1" "same_cfg j j1"
      "j_state j1 = j_state j" "edges (j_cable j1) = edges (j_cable j) @ new1"
      "map fst new1 @ pending j1 = pending j @ [tms]" by blast
  from Suc.IH [OF s(2,3)] obtain j2 new2 where
    t: "setTMS_times ops n tms j1 = Inr j2" "inv (j_cable j2)" "jtag_wf j2" "same_cfg j1 j2"
      "j_state j2 = j_state j1" "edges (j_cable j2) = edges (j_cable j1) @ new2"
      "map fst new2 @ pending j2 = pending j1 @ replicate n tms" by blast
  have "map fst (new1 @ new2) @ pending j2 = pending j @ replicate (Suc n) tms"
    using s(7) t(7) by (metis append.assoc append_Cons append_Nil map_append replicate_Suc)
  with s t same_cfg_trans [OF s(4) t(4)] show ?case
    by (intro exI [of _ j2] exI [of _ "new1 @ new2"]) simp
qed

lemma set_state_loop_ok:
  "inv (j_cable j) \<Longrightarrow> jtag_wf j \<Longrightarrow> tms_path fuel n (j_state j) = Inr p \<Longrightarrow>
   \<exists>j' new. set_state_loop fuel ops n j = Inr j' \<and> inv (j_cable j') \<and> jtag_wf j' \<and>
     same_cfg j j' \<and> j_state j' = n \<and> edges (j_cable j') = edges (j_cable j) @ new \<and>
     map fst new @ pending j' = pending j @ p"
proof (induction fuel arbitrary: j p)
  case 0
  then show ?case by (subst set_state_loop.simps) (auto simp: tms_path_0_Inr)
next
  case (Suc fuel)
  show ?case
  proof (cases "n = j_state j")
    case True
    with Suc.prems show ?thesis by (subst set_state_loop.simps) (auto simp: tms_path_Suc_Inr)
  next
    case False
    with Suc.prems(3) obtain tms st q where
      sw: "set_state_switch n (j_state j) = Inr (tms, st)"
      and q: "tms_path fuel n st = Inr q" and p: "p = tms # q"
      unfolding tms_path_Suc_Inr by auto
    let ?j = "j\<lparr>j_state := st\<rparr>"
    have "inv (j_cable ?j)" and "jtag_wf ?j" using Suc.prems by (simp_all add: jtag_wf_def)
    from setTMS_ok [OF this, of tms] obtain j1 new1 where
      s: "setTMS ops tms ?j = Inr j1" "inv (j_cable j1)" "jtag_wf j1" "same_cfg ?j j1"
        "j_state j1 = st" "edges (j_cable j1) = edges (j_cable j) @ new1"
        "map fst new1 @ pending j1 = pending j @ [tms]" by auto
    from Suc.IH [OF s(2,3), of q] q s(5) obtain j2 new2 where
      t: "set_state_loop fuel ops n j1 = Inr j2" "inv (j_cable j2)" "jtag_wf j2"
        "same_cfg j1 j2" "j_state j2 = n" "edges (j_cable j2) = edges (j_cable j1) @ new2"
        "map fst new2 @ pending j2 = pending j1 @ q" by auto
    have "map fst (new1 @ new2) @ pending j2 = pending j @ p"
      using s(7) t(7) p by (metis append.assoc append_Cons append_Nil map_append)
    moreover have "same_cfg j j2"
      using s(4) t(4) by (simp add: same_cfg_def)
    moreover have "set_state_loop (Suc fuel) ops n j = Inr j2"
      using False sw s(1) t(1) by (subst set_state_loop.simps) simp
    ultimately show ?thesis using s t
      by (intro exI [of _ j2] exI [of _ "new1 @ new2"]) simp
  qed
qed

lemma set_state_ok:
  assumes "inv (j_cable j)" and "jtag_wf j" and "n \<noteq> UNKNOWN" and "j_state j \<noteq> UNKNOWN"
  shows "\<exists>j' new p. set_state ops n tdi j = Inr j' \<and> inv (j_cable j') \<and> jtag_wf j' \<and>
    j_num_tms j' = 0 \<and> same_cfg j j' \<and> j_state j' = n \<and>
    tms_path set_state_fuel n (j_state j) = Inr p \<and>
    edges (j_cable j') = edges (j_cable j) @ new \<and> map fst new = pending j @ p"
proof -
  let ?j = "j\<lparr>j_curr_tdi := tdi\<rparr>"
  obtain p where p: "tms_path set_state_fuel n (j_state j) = Inr p"
    using tms_path_total [OF assms(3,4)] by blast
  have "inv (j_cable ?j)" "jtag_wf ?j" using assms(1,2) by (simp_all add: jtag_wf_def)
  from set_state_loop_ok [OF this, of set_state_fuel n p] p obtain j1 new1 where
    s: "set_state_loop set_state_fuel ops n ?j = Inr j1" "inv (j_cable j1)" "jtag_wf j1"
      "same_cfg ?j j1" "j_state j1 = n" "edges (j_cable j1) = edges (j_cable j) @ new1"
      "map fst new1 @ pending j1 = pending j @ p" by auto
  from flushTMS_ok [OF s(2,3), of False] obtain r j2 new2 where
    f: "flushTMS ops False j1 = Inr (r, j2)" "inv (j_cable j2)" "jtag_wf j2" "j_num_tms j2 = 0"
      "same_cfg j1 j2" "j_state j2 = j_state j1" "edges (j_cable j2) = edges (j_cable j1) @ new2"
      "map fst new2 = pending j1" by blast
  have "set_state ops n tdi j = Inr j2" using s(1) f(1) by (simp add: set_state_def)
  moreover have "same_cfg j j2" using s(4) f(5) by (simp add: same_cfg_def)
  ultimately show ?thesis using p s f
    by (intro exI [of _ j2] exI [of _ "new1 @ new2"] exI [of _ p]) simp
qed

lemma set_state_synced:
  assumes "inv (j_cable j)" and "synced edges s0 j" and "n \<noteq> UNKNOWN" and "s0 \<noteq> UNKNOWN"
  shows "\<exists>j' new p. set_state ops n tdi j = Inr j' \<and> inv (j_cable j') \<and> synced edges s0 j' \<and>
    same_cfg j j' \<and> j_state j' = n \<and> tms_path set_state_fuel n (j_state j) = Inr p \<and>
    edges (j_cable j') = edges (j_cable j) @ new \<and> map fst new = p"
proof -
  have st: "j_state j \<noteq> UNKNOWN" and wf: "jtag_wf j" and num: "j_num_tms j = 0"
    and run: "tap_run s0 (map fst (edges (j_cable j))) = j_state j"
    using assms(2,4) by (auto simp: synced_def dest: sym)
  from set_state_ok [OF assms(1) wf assms(3) st, of tdi] obtain j' new p where
    s: "set_state ops n tdi j = Inr j'" "inv (j_cable j')" "jtag_wf j'" "j_num_tms j' = 0"
      "same_cfg j j'" "j_state j' = n" "tms_path set_state_fuel n (j_state j) = Inr p"
      "edges (j_cable j') = edges (j_cable j) @ new" "map fst new = pending j @ p" by blast
  have "tap_run (j_state j) p = n" using tms_path_tap_run [OF s(7)] .
  then have "synced edges s0 j'" using s run num by (simp add: synced_def)
  with s num show ?thesis by auto
qed

text \<open>
  After the six high TMS every controller of the chain is in \<open>Test-Logic-Reset\<close>,
  whatever state it was in: this is what brings object and chain into agreement.
\<close>

lemma go_test_logic_reset_ok:
  assumes "inv (j_cable j)" and "jtag_wf j"
  shows "\<exists>j'. go_test_logic_reset ops j = Inr j' \<and> inv (j_cable j') \<and>
    same_cfg j j' \<and> j_state j' = TEST_LOGIC_RESET \<and>
    (\<forall>s0. s0 \<noteq> UNKNOWN \<longrightarrow> synced edges s0 j')"
proof -
  from setTMS_times_ok [OF assms, of 6 True] obtain j1 new1 where
    s: "setTMS_times ops 6 True j = Inr j1" "inv (j_cable j1)" "jtag_wf j1" "same_cfg j j1"
      "edges (j_cable j1) = edges (j_cable j) @ new1"
      "map fst new1 @ pending j1 = pending j @ replicate 6 True" by blast
  from flushTMS_ok [OF s(2,3), of False] obtain r j2 new2 where
    f: "flushTMS ops False j1 = Inr (r, j2)" "inv (j_cable j2)" "jtag_wf j2" "j_num_tms j2 = 0"
      "same_cfg j1 j2" "edges (j_cable j2) = edges (j_cable j1) @ new2"
      "map fst new2 = pending j1" by blast
  let ?j = "j2\<lparr>j_state := TEST_LOGIC_RESET\<rparr>"
  have "map fst (edges (j_cable j2)) =
      (map fst (edges (j_cable j)) @ pending j) @ replicate 6 True"
    using s(5,6) f(6,7) by (metis append.assoc map_append)
  then have "tap_run s0 (map fst (edges (j_cable j2))) = TEST_LOGIC_RESET"
    if "s0 \<noteq> UNKNOWN" for s0
    using that
      tap_run_reset_more [of "tap_run (tap_run s0 (map fst (edges (j_cable j)))) (pending j)" 6]
    by simp
  then have "synced edges s0 ?j" if "s0 \<noteq> UNKNOWN" for s0
    using that f by (simp add: synced_def jtag_wf_def)
  moreover have "go_test_logic_reset ops j = Inr ?j"
    using s(1) f(1) by (simp add: go_test_logic_reset_def)
  moreover have "same_cfg j ?j" using s(4) f(5) by (simp add: same_cfg_def)
  ultimately show ?thesis using f by auto
qed

text \<open>A burst of data bits in a shift state.\<close>

lemma read_write_scan:
  assumes "inv (j_cable j)" and "synced edges s0 j" and "s0 \<notin> {SHIFT_DR, SHIFT_IR, UNKNOWN}"
    and S: "j_state j = S" "S \<in> {SHIFT_DR, SHIFT_IR}"
    and "0 < len" and "len \<le> 8 * length tx" and "\<And>b. rx = Some b \<Longrightarrow> len \<le> 8 * length b"
  shows "\<exists>rx' j'. read_write ops (Some tx) rx len l j = Inr (rx', j') \<and> inv (j_cable j') \<and>
    synced edges s0 j' \<and> same_cfg j j' \<and>
    j_state j' = (if l then (if S = SHIFT_DR then EXIT1_DR else EXIT1_IR) else S) \<and>
    shifted_in S s0 (edges (j_cable j')) = shifted_in S s0 (edges (j_cable j)) @ bits_of tx len \<and>
    (\<forall>S' \<in> {SHIFT_DR, SHIFT_IR} - {S}.
       shifted_in S' s0 (edges (j_cable j')) = shifted_in S' s0 (edges (j_cable j)))"
proof -
  have wf: "jtag_wf j" and num: "j_num_tms j = 0"
    and run: "tap_run s0 (map fst (edges (j_cable j))) = S"
    using assms(2) S by (auto simp: synced_def)
  have ne: "edges (j_cable j) \<noteq> []" using run S assms(3) by auto
  have low: "\<not> fst (last (edges (j_cable j)))"
    using tap_run_shift_low [of s0 "map fst (edges (j_cable j))"] run S ne
    by (auto simp: last_map)
  let ?tms = "replicate (len - 1) False @ [l]"
  from writeTDI_edges [OF assms(1) assms(6,7,8) ne low, where last_bit = l] obtain ret rx' c' where
    w: "writeTDI ops (Some tx) rx len l (j_cable j) = Inr (ret, rx', c')" "inv c'"
      "edges c' = edges (j_cable j) @ zip ?tms (bits_of tx len)" by blast
  have len: "length ?tms = length (bits_of tx len)" using assms(6) by simp
  have low_tms: "\<forall>b \<in> set (butlast ?tms). \<not> b" by simp
  have "map fst (zip ?tms (bits_of tx len)) = ?tms" using len by simp
  moreover have "tap_run S ?tms = (if l then (if S = SHIFT_DR then EXIT1_DR else EXIT1_IR) else S)"
    using S by (auto simp: tap_run_shift_stay)
  ultimately have run': "tap_run s0 (map fst (edges c')) =
      (if l then (if S = SHIFT_DR then EXIT1_DR else EXIT1_IR) else S)"
    using run w(3) by simp
  show ?thesis
    using w wf num run run' S shifted_in_stay [OF S(2) len low_tms]
      shifted_in_other [OF S(2) _ len low_tms]
    by (auto simp: read_write_def flushTMS_idle synced_def same_cfg_def jtag_wf_def
        shifted_in_append Let_def)
qed

lemma enter_shift:
  assumes "inv (j_cable j)" and "synced edges s0 j" and "s0 \<noteq> UNKNOWN"
    and "S \<in> {SHIFT_DR, SHIFT_IR}" and "j_state j \<notin> {SHIFT_DR, SHIFT_IR}"
  shows "\<exists>j'. set_state ops S tdi j = Inr j' \<and> inv (j_cable j') \<and> synced edges s0 j' \<and>
    same_cfg j j' \<and> j_state j' = S \<and>
    (\<forall>X \<in> {SHIFT_DR, SHIFT_IR}.
       shifted_in X s0 (edges (j_cable j')) = shifted_in X s0 (edges (j_cable j)))"
proof -
  have "S \<noteq> UNKNOWN" using assms(4) by auto
  from set_state_synced [OF assms(1,2) this assms(3), of tdi] obtain j' new p where
    s: "set_state ops S tdi j = Inr j'" "inv (j_cable j')" "synced edges s0 j'" "same_cfg j j'"
      "j_state j' = S" "tms_path set_state_fuel S (j_state j) = Inr p"
      "edges (j_cable j') = edges (j_cable j) @ new" "map fst new = p" by blast
  have "\<not> passes X (j_state j) (map fst new)" if "X \<in> {SHIFT_DR, SHIFT_IR}" for X
    using path_into_shift [OF s(6) assms(4,5)] s(8) that by auto
  then show ?thesis
    using s assms(2) by (auto simp: shifted_in_append synced_def shifted_in_not_passes)
qed

lemma leave_shift:
  assumes "inv (j_cable j)" and "synced edges s0 j" and "s0 \<noteq> UNKNOWN"
    and "j_state j \<in> {EXIT1_DR, EXIT1_IR}" and "n \<notin> {SHIFT_DR, SHIFT_IR, UNKNOWN}"
  shows "\<exists>j'. set_state ops n tdi j = Inr j' \<and> inv (j_cable j') \<and> synced edges s0 j' \<and>
    same_cfg j j' \<and> j_state j' = n \<and>
    (\<forall>X \<in> {SHIFT_DR, SHIFT_IR}.
       shifted_in X s0 (edges (j_cable j')) = shifted_in X s0 (edges (j_cable j)))"
proof -
  have "n \<noteq> UNKNOWN" using assms(5) by auto
  from set_state_synced [OF assms(1,2) this assms(3), of tdi] obtain j' new p where
    s: "set_state ops n tdi j = Inr j'" "inv (j_cable j')" "synced edges s0 j'" "same_cfg j j'"
      "j_state j' = n" "tms_path set_state_fuel n (j_state j) = Inr p"
      "edges (j_cable j') = edges (j_cable j) @ new" "map fst new = p" by blast
  have "\<not> passes X (j_state j) (map fst new)" if "X \<in> {SHIFT_DR, SHIFT_IR}" for X
    using path_from_exit [OF s(6) assms(4,5)] s(8) that by auto
  then show ?thesis
    using s assms(2) by (auto simp: shifted_in_append synced_def shifted_in_not_passes)
qed

text \<open>The bypass bits before or after the selected device, if there are any.\<close>

lemma pad_scan:
  assumes "inv (j_cable j)" and "synced edges s0 j" and "s0 \<notin> {SHIFT_DR, SHIFT_IR, UNKNOWN}"
    and "S \<in> {SHIFT_DR, SHIFT_IR}"
    and "if 0 < len \<or> \<not> l then j_state j = S
         else j_state j = (if S = SHIFT_DR then EXIT1_DR else EXIT1_IR)"
    and "len \<le> 8 * length pad"
  shows "\<exists>j'. (if 0 < len then bindE (read_write ops (Some pad) None len l j) (\<lambda>(_, j). Inr j)
         else Inr j) = Inr j' \<and> inv (j_cable j') \<and> synced edges s0 j' \<and> same_cfg j j' \<and>
    j_state j' = (if l then (if S = SHIFT_DR then EXIT1_DR else EXIT1_IR) else S) \<and>
    shifted_in S s0 (edges (j_cable j')) = shifted_in S s0 (edges (j_cable j)) @ bits_of pad len \<and>
    (\<forall>S' \<in> {SHIFT_DR, SHIFT_IR} - {S}.
       shifted_in S' s0 (edges (j_cable j')) = shifted_in S' s0 (edges (j_cable j)))"
proof (cases "0 < len")
  case True
  then have S: "j_state j = S" using assms(5) by simp
  from read_write_scan [OF assms(1-3) S assms(4) True assms(6), of None l] True
  show ?thesis by auto
next
  case False
  then show ?thesis using assms by auto
qed

lemma shiftDR_ok:
  assumes "inv (j_cable j)" and "synced edges s0 j" and "s0 \<notin> {SHIFT_DR, SHIFT_IR, UNKNOWN}"
    and "j_state j \<notin> {SHIFT_DR, SHIFT_IR}" and "end_state \<notin> {SHIFT_DR, SHIFT_IR, UNKNOWN}"
    and "0 < len" and "len \<le> 8 * length tx" and "\<And>b. rx = Some b \<Longrightarrow> len \<le> 8 * length b"
    and "unat (j_dr_bits_before j) \<le> 8 * length (j_dr_bits j)"
    and "unat (j_dr_bits_after j) \<le> 8 * length (j_dr_bits j)"
  shows "\<exists>rx' j'. shiftDR ops (Some tx) rx len end_state j = Inr (rx', j') \<and> inv (j_cable j') \<and>
    synced edges s0 j' \<and> same_cfg j j' \<and> j_state j' = end_state \<and>
    shifted_in SHIFT_DR s0 (edges (j_cable j')) = shifted_in SHIFT_DR s0 (edges (j_cable j)) @
      bits_of (j_dr_bits j) (unat (j_dr_bits_before j)) @ bits_of tx len @
      bits_of (j_dr_bits j) (unat (j_dr_bits_after j)) \<and>
    shifted_in SHIFT_IR s0 (edges (j_cable j')) = shifted_in SHIFT_IR s0 (edges (j_cable j))"
proof -
  let ?S = "SHIFT_DR" and ?a = "j_dr_bits_after j" and ?b = "j_dr_bits_before j"
    and ?pad = "j_dr_bits j"
  let ?sh = "\<lambda>S j. shifted_in S s0 (edges (j_cable j))"
  have s0: "s0 \<noteq> UNKNOWN" and S: "?S \<in> {SHIFT_DR, SHIFT_IR}" using assms(3) by auto
  from enter_shift [OF assms(1,2) s0 S assms(4), of 1] obtain j1 where
    e: "set_state ops ?S 1 j = Inr j1" "inv (j_cable j1)" "synced edges s0 j1" "same_cfg j j1"
      "j_state j1 = ?S" "?sh ?S j1 = ?sh ?S j" "?sh SHIFT_IR j1 = ?sh SHIFT_IR j" by auto
  from pad_scan [OF e(2,3) assms(3) S, of "unat ?b" False ?pad] e(5) assms(9) obtain j2 where
    b: "(if 0 < unat ?b then bindE (read_write ops (Some ?pad) None (unat ?b) False j1)
          (\<lambda>(_, j). Inr j) else Inr j1) = Inr j2" "inv (j_cable j2)" "synced edges s0 j2"
      "same_cfg j1 j2" "j_state j2 = ?S" "?sh ?S j2 = ?sh ?S j1 @ bits_of ?pad (unat ?b)"
      "?sh SHIFT_IR j2 = ?sh SHIFT_IR j1" by auto
  from read_write_scan [where l = "?a = 0" and rx = rx, OF b(2,3) assms(3) b(5) S assms(6,7,8)] obtain rx' j3 where
    d: "read_write ops (Some tx) rx len (?a = 0) j2 = Inr (rx', j3)" "inv (j_cable j3)"
      "synced edges s0 j3" "same_cfg j2 j3" "j_state j3 = (if ?a = 0 then EXIT1_DR else ?S)"
      "?sh ?S j3 = ?sh ?S j2 @ bits_of tx len" "?sh SHIFT_IR j3 = ?sh SHIFT_IR j2" by auto
  have st3: "if 0 < unat ?a \<or> \<not> True then j_state j3 = ?S
      else j_state j3 = (if ?S = SHIFT_DR then EXIT1_DR else EXIT1_IR)"
    using d(5) by (simp add: unat_gt_0)
  from pad_scan [OF d(2,3) assms(3) S st3 assms(10)] obtain j4 where
    a: "(if 0 < unat ?a then bindE (read_write ops (Some ?pad) None (unat ?a) True j3)
          (\<lambda>(_, j). Inr j) else Inr j3) = Inr j4" "inv (j_cable j4)" "synced edges s0 j4"
      "same_cfg j3 j4" "j_state j4 = EXIT1_DR" "?sh ?S j4 = ?sh ?S j3 @ bits_of ?pad (unat ?a)"
      "?sh SHIFT_IR j4 = ?sh SHIFT_IR j3" by auto
  have "j_state j4 \<in> {EXIT1_DR, EXIT1_IR}" using a(5) by simp
  from leave_shift [OF a(2,3) s0 this assms(5), of 1] obtain j5 where
    l: "set_state ops end_state 1 j4 = Inr j5" "inv (j_cable j5)" "synced edges s0 j5"
      "same_cfg j4 j5" "j_state j5 = end_state" "?sh ?S j5 = ?sh ?S j4"
      "?sh SHIFT_IR j5 = ?sh SHIFT_IR j4" by auto
  have "shiftDR ops (Some tx) rx len end_state j = Inr (rx', j5)"
    using e b d a l assms(4,5)
    by (simp add: shiftDR_def same_cfg_def flushTMS_idle synced_def unat_gt_0 word_gt_0
        cong: if_cong split del: if_split)
  moreover have "same_cfg j j5"
    using e(4) b(4) d(4) a(4) l(4) by (blast intro: same_cfg_trans)
  ultimately show ?thesis using e b d a l by simp
qed

lemma shiftIR_ok:
  assumes "inv (j_cable j)" and "synced edges s0 j" and "s0 \<notin> {SHIFT_DR, SHIFT_IR, UNKNOWN}"
    and "j_state j \<notin> {SHIFT_DR, SHIFT_IR}" and "end_state \<notin> {SHIFT_DR, SHIFT_IR, UNKNOWN}"
    and "0 < len" and "len \<le> 8 * length tx" and "\<And>b. rx = Some b \<Longrightarrow> len \<le> 8 * length b"
    and "unat (j_ir_bits_before j) \<le> 8 * length (j_ir_bits j)"
    and "unat (j_ir_bits_after j) \<le> 8 * length (j_ir_bits j)"
  shows "\<exists>rx' j'. shiftIR ops (Some tx) rx len end_state j = Inr (rx', j') \<and> inv (j_cable j') \<and>
    synced edges s0 j' \<and> same_cfg j j' \<and> j_state j' = end_state \<and>
    shifted_in SHIFT_IR s0 (edges (j_cable j')) = shifted_in SHIFT_IR s0 (edges (j_cable j)) @
      bits_of (j_ir_bits j) (unat (j_ir_bits_before j)) @ bits_of tx len @
      bits_of (j_ir_bits j) (unat (j_ir_bits_after j)) \<and>
    shifted_in SHIFT_DR s0 (edges (j_cable j')) = shifted_in SHIFT_DR s0 (edges (j_cable j))"
proof -
  let ?S = "SHIFT_IR" and ?a = "j_ir_bits_after j" and ?b = "j_ir_bits_before j"
    and ?pad = "j_ir_bits j"
  let ?sh = "\<lambda>S j. shifted_in S s0 (edges (j_cable j))"
  have s0: "s0 \<noteq> UNKNOWN" and S: "?S \<in> {SHIFT_DR, SHIFT_IR}" using assms(3) by auto
  from enter_shift [OF assms(1,2) s0 S assms(4), of 1] obtain j1 where
    e: "set_state ops ?S 1 j = Inr j1" "inv (j_cable j1)" "synced edges s0 j1" "same_cfg j j1"
      "j_state j1 = ?S" "?sh ?S j1 = ?sh ?S j" "?sh SHIFT_DR j1 = ?sh SHIFT_DR j" by auto
  from pad_scan [OF e(2,3) assms(3) S, of "unat ?b" False ?pad] e(5) assms(9) obtain j2 where
    b: "(if 0 < unat ?b then bindE (read_write ops (Some ?pad) None (unat ?b) False j1)
          (\<lambda>(_, j). Inr j) else Inr j1) = Inr j2" "inv (j_cable j2)" "synced edges s0 j2"
      "same_cfg j1 j2" "j_state j2 = ?S" "?sh ?S j2 = ?sh ?S j1 @ bits_of ?pad (unat ?b)"
      "?sh SHIFT_DR j2 = ?sh SHIFT_DR j1" by auto
  from read_write_scan [where l = "?a = 0" and rx = rx, OF b(2,3) assms(3) b(5) S assms(6,7,8)] obtain rx' j3 where
    d: "read_write ops (Some tx) rx len (?a = 0) j2 = Inr (rx', j3)" "inv (j_cable j3)"
      "synced edges s0 j3" "same_cfg j2 j3" "j_state j3 = (if ?a = 0 then EXIT1_IR else ?S)"
      "?sh ?S j3 = ?sh ?S j2 @ bits_of tx len" "?sh SHIFT_DR j3 = ?sh SHIFT_DR j2" by auto
  have st3: "if 0 < unat ?a \<or> \<not> True then j_state j3 = ?S
      else j_state j3 = (if ?S = SHIFT_DR then EXIT1_DR else EXIT1_IR)"
    using d(5) by (simp add: unat_gt_0)
  from pad_scan [OF d(2,3) assms(3) S st3 assms(10)] obtain j4 where
    a: "(if 0 < unat ?a then bindE (read_write ops (Some ?pad) None (unat ?a) True j3)
          (\<lambda>(_, j). Inr j) else Inr j3) = Inr j4" "inv (j_cable j4)" "synced edges s0 j4"
      "same_cfg j3 j4" "j_state j4 = EXIT1_IR" "?sh ?S j4 = ?sh ?S j3 @ bits_of ?pad (unat ?a)"
      "?sh SHIFT_DR j4 = ?sh SHIFT_DR j3" by auto
  have "j_state j4 \<in> {EXIT1_DR, EXIT1_IR}" using a(5) by simp
  from leave_shift [OF a(2,3) s0 this assms(5), of 1] obtain j5 where
    l: "set_state ops end_state 1 j4 = Inr j5" "inv (j_cable j5)" "synced edges s0 j5"
      "same_cfg j4 j5" "j_state j5 = end_state" "?sh ?S j5 = ?sh ?S j4"
      "?sh SHIFT_DR j5 = ?sh SHIFT_DR j4" by auto
  have "shiftIR ops (Some tx) rx len end_state j = Inr (rx', j5)"
    using e b d a l assms(4,5)
    by (simp add: shiftIR_def same_cfg_def flushTMS_idle synced_def unat_gt_0 word_gt_0
        cong: if_cong split del: if_split)
  moreover have "same_cfg j j5"
    using e(4) b(4) d(4) a(4) l(4) by (blast intro: same_cfg_trans)
  ultimately show ?thesis using e b d a l by simp
qed

end

end
