(* ===== verification/Part_Db.thy ===== *)
theory Part_Db
  imports Prelude
begin

unbundle bit_operations_syntax

section \<open>The device tables of \<open>part.hpp\<close>\<close>

text \<open>
  \<open>fpga_list\<close>, \<open>misc_dev_list\<close> and \<open>list_manufacturer\<close> entry by entry, in the order of
  the initialisers.  A \<open>std::map\<close> built from an initialiser keeps the first entry of a
  key, as \<open>map_of\<close> does on the association list.  The lemmas state what the detection of
  the chain needs of the tables: lengths of instruction registers that are positive and
  fit \<open>int16_t\<close>, and which keys are listed twice.
\<close>

record fpga_model =
  fm_manufacturer :: string
  fm_family :: string
  fm_model :: string
  fm_irlength :: int

record misc_device =
  md_name :: string
  md_irlength :: int

abbreviation fpga :: "string \<Rightarrow> string \<Rightarrow> string \<Rightarrow> int \<Rightarrow> fpga_model" where
  "fpga man fam mdl ir \<equiv>
     \<lparr>fm_manufacturer = man, fm_family = fam, fm_model = mdl, fm_irlength = ir\<rparr>"

definition fpga_list_anlogic :: "(u32 \<times> fpga_model) list" where
  "fpga_list_anlogic = [
  (0x04014c35, fpga ''anlogic'' ''eagle d20'' ''EG4D20EG176'' 8),
  (0x0a014c35, fpga ''anlogic'' ''eagle s20'' ''EG4S20BG256'' 8),
  (0x00004c37, fpga ''anlogic'' ''elf2'' ''EF2M45'' 8)]"

definition fpga_list_xilinx_7 :: "(u32 \<times> fpga_model) list" where
  "fpga_list_xilinx_7 = [
  (0x05044093, fpga ''xilinx'' ''xcf'' ''xcf01s'' 8),
  (0x05045093, fpga ''xilinx'' ''xcf'' ''xcf02s'' 8),
  (0x05046093, fpga ''xilinx'' ''xcf'' ''xcf04s'' 8),
  (0x06e59093, fpga ''xilinx'' ''xc2c'' ''xc2c64a'' 8),
  (0x06e5d093, fpga ''xilinx'' ''xc2c'' ''xc2c64a'' 8),
  (0x06e5e093, fpga ''xilinx'' ''xc2c'' ''xc2c64a'' 8),
  (0x06e1c093, fpga ''xilinx'' ''xc2c'' ''xc2c32a'' 8),
  (0x09602093, fpga ''xilinx'' ''xc9500xl'' ''xc9536xl'' 8),
  (0x09604093, fpga ''xilinx'' ''xc9500xl'' ''xc9572xl'' 8),
  (0x09608093, fpga ''xilinx'' ''xc9500xl'' ''xc95144xl'' 8),
  (0x09616093, fpga ''xilinx'' ''xc9500xl'' ''xc95288xl'' 8),
  (0x01414093, fpga ''xilinx'' ''spartan3'' ''xc3s200'' 6),
  (0x11c1a093, fpga ''xilinx'' ''spartan3e'' ''xc3s250e'' 6),
  (0x01c22093, fpga ''xilinx'' ''spartan3e'' ''xc3s500e'' 6),
  (0x04001093, fpga ''xilinx'' ''spartan6'' ''xc6slx9'' 6),
  (0x04002093, fpga ''xilinx'' ''spartan6'' ''xc6slx16'' 6),
  (0x04004093, fpga ''xilinx'' ''spartan6'' ''xc6slx25'' 6),
  (0x24024093, fpga ''xilinx'' ''spartan6'' ''xc6slx25T'' 6),
  (0x04008093, fpga ''xilinx'' ''spartan6'' ''xc6slx45'' 6),
  (0x04028093, fpga ''xilinx'' ''spartan6'' ''xc6slx45T'' 6),
  (0x04011093, fpga ''xilinx'' ''spartan6'' ''xc6slx100'' 6),
  (0x4403d093, fpga ''xilinx'' ''spartan6'' ''xc6slx150T'' 6),
  (0x03622093, fpga ''xilinx'' ''spartan7'' ''xc7s6'' 6),
  (0x03620093, fpga ''xilinx'' ''spartan7'' ''xc7s15ftgb196-1'' 6),
  (0x037c4093, fpga ''xilinx'' ''spartan7'' ''xc7s25'' 6),
  (0x0362f093, fpga ''xilinx'' ''spartan7'' ''xc7s50'' 6),
  (0x037c8093, fpga ''xilinx'' ''spartan7'' ''xc7s75'' 6),
  (0x037c7093, fpga ''xilinx'' ''spartan7'' ''xc7s100'' 6),
  (0x8424a093, fpga ''xilinx'' ''virtex6'' ''xc6vlx130t'' 10),
  (0x037c3093, fpga ''xilinx'' ''artix a7 12t'' ''xc7a12t'' 6),
  (0x0362e093, fpga ''xilinx'' ''artix a7 15t'' ''xc7a15'' 6),
  (0x037c2093, fpga ''xilinx'' ''artix a7 25t'' ''xc7a25'' 6),
  (0x0362d093, fpga ''xilinx'' ''artix a7 35t'' ''xc7a35'' 6),
  (0x0362c093, fpga ''xilinx'' ''artix a7 50t'' ''xc7a50t'' 6),
  (0x03632093, fpga ''xilinx'' ''artix a7 75t'' ''xc7a75t'' 6),
  (0x03631093, fpga ''xilinx'' ''artix a7 100t'' ''xc7a100'' 6),
  (0x03636093, fpga ''xilinx'' ''artix a7 200t'' ''xc7a200'' 6),
  (0x03647093, fpga ''xilinx'' ''kintex7'' ''xc7k70t'' 6),
  (0x0364c093, fpga ''xilinx'' ''kintex7'' ''xc7k160t'' 6),
  (0x03651093, fpga ''xilinx'' ''kintex7'' ''xc7k325t'' 6),
  (0x03747093, fpga ''xilinx'' ''kintex7'' ''xc7k355t'' 6),
  (0x03656093, fpga ''xilinx'' ''kintex7'' ''xc7k410t'' 6),
  (0x23752093, fpga ''xilinx'' ''kintex7'' ''xc7k420t'' 6),
  (0x23751093, fpga ''xilinx'' ''kintex7'' ''xc7k480t'' 6),
  (0x03671093, fpga ''xilinx'' ''virtex7'' ''xc7v585t'' 6),
  (0x03667093, fpga ''xilinx'' ''virtex7'' ''xc7vx330t'' 6),
  (0x03682093, fpga ''xilinx'' ''virtex7'' ''xc7vx415t'' 6),
  (0x03687093, fpga ''xilinx'' ''virtex7'' ''xc7vx485t'' 6),
  (0x03692093, fpga ''xilinx'' ''virtex7'' ''xc7vx550t'' 6),
  (0x33691093, fpga ''xilinx'' ''virtex7'' ''xc7vx690t'' 6),
  (0x03696093, fpga ''xilinx'' ''virtex7'' ''xc7vx980t'' 6),
  (0x036d9093, fpga ''xilinx'' ''virtex7'' ''xc7vh580t'' 22),
  (0x036b3093, fpga ''xilinx'' ''virtex7'' ''xc7v2000t'' 24),
  (0x036d5093, fpga ''xilinx'' ''virtex7'' ''xc7vx1140t'' 24),
  (0x036db093, fpga ''xilinx'' ''virtex7'' ''xc7vh870t'' 38),
  (0x13723093, fpga ''xilinx'' ''zynq'' ''xc7z007s'' 6),
  (0x03722093, fpga ''xilinx'' ''zynq'' ''xc7z010'' 6),
  (0x03727093, fpga ''xilinx'' ''zynq'' ''xc7z020'' 6),
  (0x1372c093, fpga ''xilinx'' ''zynq'' ''xc7z030'' 6),
  (0x23731093, fpga ''xilinx'' ''zynq'' ''xc7z045'' 6),
  (0x03736093, fpga ''xilinx'' ''zynq'' ''xc7z100'' 6),
  (0x13823093, fpga ''xilinx'' ''kintexus'' ''xcku035'' 6),
  (0x13822093, fpga ''xilinx'' ''kintexus'' ''xcku040'' 6),
  (0x13919093, fpga ''xilinx'' ''kintexus'' ''xcku060'' 6),
  (0x23844093, fpga ''xilinx'' ''kintexus'' ''xcku095'' 6),
  (0x1390d093, fpga ''xilinx'' ''kintexus'' ''xcku115'' 6),
  (0x03842093, fpga ''xilinx'' ''virtexus'' ''xcvu095'' 6),
  (0x04ac4033, fpga ''xilinx'' ''artixusp'' ''xcau10p'' 6),
  (0x04ac4093, fpga ''xilinx'' ''artixusp'' ''xcau10p'' 6),
  (0x04ac2093, fpga ''xilinx'' ''artixusp'' ''xcau15p'' 6),
  (0x04a65093, fpga ''xilinx'' ''artixusp'' ''xcau20p'' 6),
  (0x04a64093, fpga ''xilinx'' ''artixusp'' ''xcau25p'' 6)]"

definition fpga_list_xilinx_usp :: "(u32 \<times> fpga_model) list" where
  "fpga_list_xilinx_usp = [
  (0x04a63093, fpga ''xilinx'' ''kintexusp'' ''xcku3p'' 6),
  (0x04a62093, fpga ''xilinx'' ''kintexusp'' ''xcku5p'' 6),
  (0x0484a093, fpga ''xilinx'' ''kintexusp'' ''xcku9p'' 6),
  (0x04a4e093, fpga ''xilinx'' ''kintexusp'' ''xcku11p'' 6),
  (0x04a51093, fpga ''xilinx'' ''kintexusp'' ''xcku11p'' 6),
  (0x04a52093, fpga ''xilinx'' ''kintexusp'' ''xcku13p'' 6),
  (0x04a56093, fpga ''xilinx'' ''kintexusp'' ''xcku15p'' 6),
  (0x04a59093, fpga ''xilinx'' ''kintexusp'' ''xcku15p'' 6),
  (0x04acf093, fpga ''xilinx'' ''kintexusp'' ''xcku19p'' 6),
  (0x04ad3093, fpga ''xilinx'' ''kintexusp'' ''xcku19p'' 6),
  (0x04aea093, fpga ''xilinx'' ''virtexusp'' ''xcvu2p'' 6),
  (0x04b39093, fpga ''xilinx'' ''virtexusp'' ''xcvu3p'' 6),
  (0x04b3d093, fpga ''xilinx'' ''virtexusp'' ''xcvu3p'' 6),
  (0x04b2b093, fpga ''xilinx'' ''virtexusp'' ''xcvu5p'' 12),
  (0x04b2f093, fpga ''xilinx'' ''virtexusp'' ''xcvu5p'' 12),
  (0x04b29093, fpga ''xilinx'' ''virtexusp'' ''xcvu7p'' 12),
  (0x04b2d093, fpga ''xilinx'' ''virtexusp'' ''xcvu7p'' 12),
  (0x04b31093, fpga ''xilinx'' ''virtexusp'' ''xcvu9p'' 18),
  (0x04b35093, fpga ''xilinx'' ''virtexusp'' ''xcvu9p'' 18),
  (0x14b79093, fpga ''xilinx'' ''virtexusp'' ''xcvu37p'' 18),
  (0x04b49093, fpga ''xilinx'' ''virtexusp'' ''xcvu11p'' 18),
  (0x04b4f093, fpga ''xilinx'' ''virtexusp'' ''xcvu11p'' 18),
  (0x04b51093, fpga ''xilinx'' ''virtexusp'' ''xcvu13p'' 24),
  (0x04b55093, fpga ''xilinx'' ''virtexusp'' ''xcvu13p'' 24),
  (0x04ba3093, fpga ''xilinx'' ''virtexusp'' ''xcvu15p'' 24),
  (0x04ba1093, fpga ''xilinx'' ''virtexusp'' ''xcvu19p'' 24),
  (0x04ba5093, fpga ''xilinx'' ''virtexusp'' ''xcvu19p'' 24),
  (0x04e81093, fpga ''xilinx'' ''spartanusp'' ''xcsu10p'' 6),
  (0x04e82093, fpga ''xilinx'' ''spartanusp'' ''xcsu25p'' 6),
  (0x04e80093, fpga ''xilinx'' ''spartanusp'' ''xcsu35p'' 6),
  (0x04eb1093, fpga ''xilinx'' ''spartanusp'' ''xcsu45p'' 6),
  (0x04e90093, fpga ''xilinx'' ''spartanusp'' ''xcsu55p'' 6),
  (0x04eb2093, fpga ''xilinx'' ''spartanusp'' ''xcsu60p'' 6),
  (0x04e99093, fpga ''xilinx'' ''spartanusp'' ''xcsu65p'' 6),
  (0x04e98093, fpga ''xilinx'' ''spartanusp'' ''xcsu100p'' 6),
  (0x04ea1093, fpga ''xilinx'' ''spartanusp'' ''xcsu150p'' 6),
  (0x04ea0093, fpga ''xilinx'' ''spartanusp'' ''xcsu200p'' 6),
  (0x08e22126, fpga ''xilinx'' ''zynqmp_cfgn'' ''xczu2cg/eg'' 4),
  (0x08e20126, fpga ''xilinx'' ''zynqmp_cfgn'' ''xczu3cg/eg'' 4),
  (0x08e42126, fpga ''xilinx'' ''zynqmp_cfgn'' ''xczu4cg/eg/ev'' 4),
  (0x08e40126, fpga ''xilinx'' ''zynqmp_cfgn'' ''xczu5cg/eg/ev'' 4),
  (0x08e72126, fpga ''xilinx'' ''zynqmp_cfgn'' ''xczu6cg/eg'' 4),
  (0x08e60126, fpga ''xilinx'' ''zynqmp_cfgn'' ''xczu7cg/eg/ev'' 4),
  (0x08e70126, fpga ''xilinx'' ''zynqmp_cfgn'' ''xczu9eg'' 4),
  (0x08e80126, fpga ''xilinx'' ''zynqmp_cfgn'' ''xczu11eg'' 4),
  (0x08ea0126, fpga ''xilinx'' ''zynqmp_cfgn'' ''xczu15eg'' 4),
  (0x08eb2126, fpga ''xilinx'' ''zynqmp_cfgn'' ''xczu17eg'' 4),
  (0x08eb0126, fpga ''xilinx'' ''zynqmp_cfgn'' ''xczu19eg'' 4),
  (0x08fc2126, fpga ''xilinx'' ''zynqmp_cfgn'' ''xczu21dr'' 4),
  (0x08fca126, fpga ''xilinx'' ''zynqmp_cfgn'' ''xczu25dr'' 4),
  (0x08fc8126, fpga ''xilinx'' ''zynqmp_cfgn'' ''xczu27dr'' 4),
  (0x08fc0126, fpga ''xilinx'' ''zynqmp_cfgn'' ''xczu28dr'' 4),
  (0x08fc4126, fpga ''xilinx'' ''zynqmp_cfgn'' ''xczu29dr'' 4),
  (0x08fcc126, fpga ''xilinx'' ''zynqmp_cfgn'' ''xczu39dr'' 4),
  (0x08ffa126, fpga ''xilinx'' ''zynqmp_cfgn'' ''xczu43dr'' 4),
  (0x08ff0126, fpga ''xilinx'' ''zynqmp_cfgn'' ''xczu46dr'' 4),
  (0x08ffe126, fpga ''xilinx'' ''zynqmp_cfgn'' ''xczu47dr'' 4),
  (0x08ff6126, fpga ''xilinx'' ''zynqmp_cfgn'' ''xczu48dr'' 4),
  (0x08ffc126, fpga ''xilinx'' ''zynqmp_cfgn'' ''xczu49dr'' 4),
  (0x04711093, fpga ''xilinx'' ''zynqmp'' ''xczu2cg/eg'' 6),
  (0x04710093, fpga ''xilinx'' ''zynqmp'' ''xczu3cg/eg'' 6),
  (0x04721093, fpga ''xilinx'' ''zynqmp'' ''xczu4cg/eg/ev'' 6),
  (0x04720093, fpga ''xilinx'' ''zynqmp'' ''xczu5cg/eg/ev'' 6),
  (0x04739093, fpga ''xilinx'' ''zynqmp'' ''xczu6cg/eg'' 6),
  (0x04730093, fpga ''xilinx'' ''zynqmp'' ''xczu7cg/eg/ev'' 6),
  (0x04738093, fpga ''xilinx'' ''zynqmp'' ''xczu9eg'' 6),
  (0x04740093, fpga ''xilinx'' ''zynqmp'' ''xczu11eg'' 6),
  (0x04750093, fpga ''xilinx'' ''zynqmp'' ''xczu15eg'' 6),
  (0x04759093, fpga ''xilinx'' ''zynqmp'' ''xczu17eg'' 6),
  (0x04758093, fpga ''xilinx'' ''zynqmp'' ''xczu19eg'' 6),
  (0x047e1093, fpga ''xilinx'' ''zynqmp'' ''xczu21dr'' 6),
  (0x047e5093, fpga ''xilinx'' ''zynqmp'' ''xczu25dr'' 6),
  (0x047e4093, fpga ''xilinx'' ''zynqmp'' ''xczu27dr'' 6),
  (0x047e0093, fpga ''xilinx'' ''zynqmp'' ''xczu28dr'' 6),
  (0x047e2093, fpga ''xilinx'' ''zynqmp'' ''xczu29dr'' 6),
  (0x047e6093, fpga ''xilinx'' ''zynqmp'' ''xczu39dr'' 6),
  (0x047fd093, fpga ''xilinx'' ''zynqmp'' ''xczu43dr'' 6),
  (0x047f8093, fpga ''xilinx'' ''zynqmp'' ''xczu46dr'' 6),
  (0x047ff093, fpga ''xilinx'' ''zynqmp'' ''xczu47dr'' 6),
  (0x047fb093, fpga ''xilinx'' ''zynqmp'' ''xczu48dr'' 6),
  (0x047fe093, fpga ''xilinx'' ''zynqmp'' ''xczu49dr'' 6)]"

definition fpga_list_altera :: "(u32 \<times> fpga_model) list" where
  "fpga_list_altera = [
  (0x020a10dd, fpga ''altera'' ''max II'' ''EPM240T100C5N'' 10),
  (0x020a40dd, fpga ''altera'' ''max II'' ''EPM2210'' 10),
  (0x020b10dd, fpga ''altera'' ''cyclone II'' ''EP2C5'' 10),
  (0x020f10dd, fpga ''altera'' ''cyclone III/IV/10 LP'' ''EP3C5/EP3C10/EP4CE6/EP4CE10'' 10),
  (0x020f20dd, fpga ''altera'' ''cyclone III/IV/10 LP'' ''EP3C16/EP4CE15/10CL016'' 10),
  (0x020f30dd, fpga ''altera'' ''cyclone III/IV/10 LP'' ''EP3C25/EP4CE22/10CL025'' 10),
  (0x020f40dd, fpga ''altera'' ''cyclone III/IV/10 LP'' ''EP3C40/EP4CE30/EP4C40/10CL025'' 10),
  (0x020f50dd, fpga ''altera'' ''cyclone III/IV/10 LP'' ''EP3C55/EP4CE55/10CL055'' 10),
  (0x020f60dd, fpga ''altera'' ''cyclone III/IV/10 LP'' ''EP3C80/EP4CE75/10CL080'' 10),
  (0x020f70dd, fpga ''altera'' ''cyclone III/IV/10 LP'' ''EP3C120/EP4CE115/10CL120'' 10),
  (0x028040dd, fpga ''altera'' ''cyclone IV GX'' ''EP4CGX150'' 10),
  (0x02b010dd, fpga ''altera'' ''cyclone V'' ''5CGX*3'' 10),
  (0x02b020dd, fpga ''altera'' ''cyclone V'' ''5CGT*5/5CGX*5'' 10),
  (0x02b030dd, fpga ''altera'' ''cyclone V'' ''5CGT*7/5CGX*7'' 10),
  (0x02b040dd, fpga ''altera'' ''cyclone V'' ''5CGT*9/5CGX*9'' 10),
  (0x02b050dd, fpga ''altera'' ''cyclone V'' ''5CE*A4'' 10),
  (0x02b120dd, fpga ''altera'' ''cyclone V'' ''5CGX*4'' 10),
  (0x02b130dd, fpga ''altera'' ''cyclone V'' ''5CE*A7'' 10),
  (0x02b140dd, fpga ''altera'' ''cyclone V'' ''5CE*A9'' 10),
  (0x02b150dd, fpga ''altera'' ''cyclone V'' ''5CE*A2'' 10),
  (0x02b220dd, fpga ''altera'' ''cyclone V'' ''5CE*A5'' 10),
  (0x02d010dd, fpga ''altera'' ''cyclone V Soc'' ''5CSE*A4/5CSX*4'' 10),
  (0x02d020dd, fpga ''altera'' ''cyclone V Soc'' ''5CSE*A6/5CSX*6'' 10),
  (0x02d110dd, fpga ''altera'' ''cyclone V Soc'' ''5CSE*A2/5CSX*2'' 10),
  (0x02d120dd, fpga ''altera'' ''cyclone V Soc'' ''5CSE*A5/5CST*5/5CSX*5'' 10),
  (0x031810dd, fpga ''altera'' ''MAX 10'' ''10M02S'' 10),
  (0x031820dd, fpga ''altera'' ''MAX 10'' ''10M08S'' 10),
  (0x031830dd, fpga ''altera'' ''MAX 10'' ''10M16S'' 10),
  (0x031840dd, fpga ''altera'' ''MAX 10'' ''10M25S'' 10),
  (0x0318d0dd, fpga ''altera'' ''MAX 10'' ''10M40S'' 10),
  (0x031850dd, fpga ''altera'' ''MAX 10'' ''10M50S'' 10),
  (0x031050dd, fpga ''altera'' ''MAX 10'' ''10M50D'' 10),
  (0x029070dd, fpga ''altera'' ''stratix V GS'' ''5SGSD5'' 10),
  (0x02ee20dd, fpga ''altera'' ''arria 10'' ''GX160'' 10),
  (0x02e220dd, fpga ''altera'' ''arria 10'' ''GX220'' 10),
  (0x02ee30dd, fpga ''altera'' ''arria 10'' ''GX270'' 10),
  (0x02e230dd, fpga ''altera'' ''arria 10'' ''GX320'' 10),
  (0x02e240dd, fpga ''altera'' ''arria 10'' ''GX480'' 10),
  (0x02ee50dd, fpga ''altera'' ''arria 10'' ''GX570'' 10),
  (0x02e250dd, fpga ''altera'' ''arria 10'' ''GX660'' 10),
  (0x02ee60dd, fpga ''altera'' ''arria 10'' ''GX900'' 10),
  (0x02e660dd, fpga ''altera'' ''arria 10'' ''GX1150'' 10),
  (0x02e260dd, fpga ''altera'' ''arria 10'' ''GT900'' 10),
  (0x02e060dd, fpga ''altera'' ''arria 10'' ''GT1150'' 10),
  (0x02e620dd, fpga ''altera'' ''arria 10'' ''SX160'' 10),
  (0x02e020dd, fpga ''altera'' ''arria 10'' ''SX220'' 10),
  (0x02e630dd, fpga ''altera'' ''arria 10'' ''SX270'' 10),
  (0x02e030dd, fpga ''altera'' ''arria 10'' ''SX320'' 10),
  (0x02e040dd, fpga ''altera'' ''arria 10'' ''SX480'' 10),
  (0x02e650dd, fpga ''altera'' ''arria 10'' ''SX570'' 10),
  (0x02e050dd, fpga ''altera'' ''arria 10'' ''SX660'' 10)]"

definition fpga_list_efinix :: "(u32 \<times> fpga_model) list" where
  "fpga_list_efinix = [
  (0x00000001, fpga ''efinix'' ''Trion'' ''T4/T8'' 4),
  (0x00210a79, fpga ''efinix'' ''Trion'' ''T8QFP144/T13/T20'' 4),
  (0x00220a79, fpga ''efinix'' ''Trion'' ''T55/T85/T120'' 4),
  (0x00240a79, fpga ''efinix'' ''Trion'' ''T20BGA324/T35'' 4),
  (0x00660a79, fpga ''efinix'' ''Titanium'' ''Ti60'' 5),
  (0x00360a79, fpga ''efinix'' ''Titanium'' ''Ti60ES'' 5),
  (0x00661a79, fpga ''efinix'' ''Titanium'' ''Ti35'' 5),
  (0x00690a79, fpga ''efinix'' ''Titanium'' ''Ti180'' 5)]"

definition fpga_list_lattice :: "(u32 \<times> fpga_model) list" where
  "fpga_list_lattice = [
  (0x0129a043, fpga ''lattice'' ''XP2'' ''LFXP2-8E'' 8),
  (0x012b0043, fpga ''lattice'' ''MachXO2'' ''LCMXO2-256ZE'' 8),
  (0x012b1043, fpga ''lattice'' ''MachXO2'' ''LCMXO2-640ZE'' 8),
  (0x012b2043, fpga ''lattice'' ''MachXO2'' ''LCMXO2-1200ZE'' 8),
  (0x012b3043, fpga ''lattice'' ''MachXO2'' ''LCMXO2-2000ZE'' 8),
  (0x012b4043, fpga ''lattice'' ''MachXO2'' ''LCMXO2-4000ZE'' 8),
  (0x012b5043, fpga ''lattice'' ''MachXO2'' ''LCMXO2-7000ZE'' 8),
  (0x012b8043, fpga ''lattice'' ''MachXO2'' ''LCMXO2-256HC'' 8),
  (0x012b9043, fpga ''lattice'' ''MachXO2'' ''LCMXO2-640HC'' 8),
  (0x012ba043, fpga ''lattice'' ''MachXO2'' ''LCMXO2-1200HC'' 8),
  (0x012ba043, fpga ''lattice'' ''MachXO2'' ''LCMXO2-640UHC'' 8),
  (0x012bb043, fpga ''lattice'' ''MachXO2'' ''LCMXO2-2000HC'' 8),
  (0x012bb043, fpga ''lattice'' ''MachXO2'' ''LCMXO2-1200UHC'' 8),
  (0x012bc043, fpga ''lattice'' ''MachXO2'' ''LCMXO2-4000HC'' 8),
  (0x012bc043, fpga ''lattice'' ''MachXO2'' ''LCMXO2-2000UHC'' 8),
  (0x012bd043, fpga ''lattice'' ''MachXO2'' ''LCMXO2-7000HC'' 8),
  (0x412b2043, fpga ''lattice'' ''MachXO3L'' ''LCMXO3L-1300E'' 8),
  (0x412b3043, fpga ''lattice'' ''MachXO3L'' ''LCMXO3L-2100E'' 8),
  (0x412b4043, fpga ''lattice'' ''MachXO3L'' ''LCMXO3L-4300E'' 8),
  (0x412b5043, fpga ''lattice'' ''MachXO3L'' ''LCMXO3L-6900E'' 8),
  (0x412b6043, fpga ''lattice'' ''MachXO3L'' ''LCMXO3L-9400E'' 8),
  (0x412bb043, fpga ''lattice'' ''MachXO3L'' ''LCMXO3L-2100C'' 8),
  (0x412bc043, fpga ''lattice'' ''MachXO3L'' ''LCMXO3L-4300C'' 8),
  (0x412bd043, fpga ''lattice'' ''MachXO3L'' ''LCMXO3L-6900C'' 8),
  (0x412be043, fpga ''lattice'' ''MachXO3L'' ''LCMXO3L-9400C'' 8),
  (0xc12b2043, fpga ''lattice'' ''MachXO3L'' ''LCMXO3L-640E'' 8),
  (0xc12b3043, fpga ''lattice'' ''MachXO3L'' ''LCMXO3L-1300E'' 8),
  (0xc12b4043, fpga ''lattice'' ''MachXO3L'' ''LCMXO3L-2100E'' 8),
  (0xc12bb043, fpga ''lattice'' ''MachXO3L'' ''LCMXO3L-1300C'' 8),
  (0xc12bc043, fpga ''lattice'' ''MachXO3L'' ''LCMXO3L-2100C'' 8),
  (0xc12bd043, fpga ''lattice'' ''MachXO3L'' ''LCMXO3L-4300C'' 8),
  (0x612b2043, fpga ''lattice'' ''MachXO3LF'' ''LCMXO3LF-1300E'' 8),
  (0x612b3043, fpga ''lattice'' ''MachXO3LF'' ''LCMXO3LF-2100E'' 8),
  (0x612b4043, fpga ''lattice'' ''MachXO3LF'' ''LCMXO3LF-4300E'' 8),
  (0x612b5043, fpga ''lattice'' ''MachXO3LF'' ''LCMXO3LF-6900E'' 8),
  (0x612b6043, fpga ''lattice'' ''MachXO3LF'' ''LCMXO3LF-9400E'' 8),
  (0x612bb043, fpga ''lattice'' ''MachXO3LF'' ''LCMXO3LF-2100C'' 8),
  (0x612bc043, fpga ''lattice'' ''MachXO3LF'' ''LCMXO3LF-4300C'' 8),
  (0x612bd043, fpga ''lattice'' ''MachXO3LF'' ''LCMXO3LF-6900C'' 8),
  (0x612be043, fpga ''lattice'' ''MachXO3LF'' ''LCMXO3LF-9400C'' 8),
  (0xe12b2043, fpga ''lattice'' ''MachXO3LF'' ''LCMXO3LF-640E'' 8),
  (0xe12b3043, fpga ''lattice'' ''MachXO3LF'' ''LCMXO3LF-1300E'' 8),
  (0xe12b4043, fpga ''lattice'' ''MachXO3LF'' ''LCMXO3LF-2100E'' 8),
  (0xe12bb043, fpga ''lattice'' ''MachXO3LF'' ''LCMXO3LF-1300C'' 8),
  (0xe12bc043, fpga ''lattice'' ''MachXO3LF'' ''LCMXO3LF-2100C'' 8),
  (0xe12bd043, fpga ''lattice'' ''MachXO3LF'' ''LCMXO3LF-4300C'' 8),
  (0x012e3043, fpga ''lattice'' ''MachXO3D'' ''LCMX03D-9400HC'' 8),
  (0x01014043, fpga ''lattice'' ''ECP3'' ''LFE3-70E'' 8),
  (0x01015043, fpga ''lattice'' ''ECP3'' ''LFE3-150EA'' 8),
  (0x21111043, fpga ''lattice'' ''ECP5'' ''LFE5U-12'' 8),
  (0x41111043, fpga ''lattice'' ''ECP5'' ''LFE5U-25'' 8),
  (0x41112043, fpga ''lattice'' ''ECP5'' ''LFE5U-45'' 8),
  (0x41113043, fpga ''lattice'' ''ECP5'' ''LFE5U-85'' 8),
  (0x01111043, fpga ''lattice'' ''ECP5'' ''LFE5UM-25'' 8),
  (0x01112043, fpga ''lattice'' ''ECP5'' ''LFE5UM-45'' 8),
  (0x01113043, fpga ''lattice'' ''ECP5'' ''LFE5UM-85'' 8),
  (0x81111043, fpga ''lattice'' ''ECP5'' ''LFE5UM5G-25'' 8),
  (0x81112043, fpga ''lattice'' ''ECP5'' ''LFE5UM5G-45'' 8),
  (0x81113043, fpga ''lattice'' ''ECP5'' ''LFE5UM5G-85'' 8),
  (0x010f0043, fpga ''lattice'' ''CrosslinkNX'' ''LIFCL-17'' 8),
  (0x010f1043, fpga ''lattice'' ''CrosslinkNX'' ''LIFCL-40'' 8),
  (0x310f0043, fpga ''lattice'' ''CertusNX'' ''LFD2NX-17'' 8),
  (0x310f1043, fpga ''lattice'' ''CertusNX'' ''LFD2NX-40'' 8),
  (0x010f4043, fpga ''lattice'' ''CertusProNX'' ''LFCPNX-100'' 8)]"

definition fpga_list_gowin :: "(u32 \<times> fpga_model) list" where
  "fpga_list_gowin = [
  (0x0100481b, fpga ''Gowin'' ''GW1N'' ''GW1N(R)-9C'' 8),
  (0x0100581b, fpga ''Gowin'' ''GW1N'' ''GW1NR-9'' 8),
  (0x0900281b, fpga ''Gowin'' ''GW1N'' ''GW1N-1'' 8),
  (0x0120681b, fpga ''Gowin'' ''GW1N'' ''GW1N-2'' 8),
  (0x0100381b, fpga ''Gowin'' ''GW1N'' ''GW1N-4'' 8),
  (0x0100681b, fpga ''Gowin'' ''GW1NZ'' ''GW1NZ-1'' 8),
  (0x0300181b, fpga ''Gowin'' ''GW1NS'' ''GW1NS-2C'' 8),
  (0x0100981b, fpga ''Gowin'' ''GW1NSR'' ''GW1NSR-4C'' 8),
  (0x0000081b, fpga ''Gowin'' ''GW2A'' ''GW2A(R)-18(C)'' 8),
  (0x0000281b, fpga ''Gowin'' ''GW2A'' ''GW2A-55'' 8),
  (0x0001081b, fpga ''Gowin'' ''GW5AST'' ''GW5AST-138'' 8),
  (0x0001681b, fpga ''Gowin'' ''GW5AT'' ''GW5AT-15'' 8),
  (0x0001481b, fpga ''Gowin'' ''GW5AT'' ''GW5AT-60'' 8),
  (0x0001181b, fpga ''Gowin'' ''GW5AT'' ''GW5AT-138'' 8),
  (0x0001281b, fpga ''Gowin'' ''GW5A'' ''GW5A-25'' 8)]"

definition fpga_list_colognechip :: "(u32 \<times> fpga_model) list" where
  "fpga_list_colognechip = [
  (0x20000001, fpga ''colognechip'' ''GateMate Series'' ''GM1Ax'' 6)]"

definition fpga_list :: "(u32 \<times> fpga_model) list" where
  "fpga_list = fpga_list_anlogic @ fpga_list_xilinx_7 @ fpga_list_xilinx_usp
     @ fpga_list_altera @ fpga_list_efinix @ fpga_list_lattice
     @ fpga_list_gowin @ fpga_list_colognechip"

definition misc_dev_list :: "(u32 \<times> misc_device) list" where
  "misc_dev_list = [
  (0x4ba00477, \<lparr>md_name = ''ARM cortex A9'', md_irlength = 4\<rparr>),
  (0x5ba00477, \<lparr>md_name = ''ARM cortex A53'', md_irlength = 4\<rparr>),
  (0xfffffffe, \<lparr>md_name = ''ZynqMP dummy device'', md_irlength = 12\<rparr>),
  (0x1000563d, \<lparr>md_name = ''GD32VF103'', md_irlength = 5\<rparr>),
  (0x790007a3, \<lparr>md_name = ''GD32VF103'', md_irlength = 5\<rparr>)]"

definition list_manufacturer :: "(u16 \<times> string) list" where
  "list_manufacturer = [
  (0x000, ''CologneChip or efinix trion T4/T8''),
  (0x021, ''lattice''),
  (0x049, ''Xilinx''),
  (0x06e, ''altera''),
  (0x093, ''Xilinx''),
  (0x40d, ''Gowin''),
  (0x53c, ''efinix''),
  (0x61a, ''anlogic''),
  (0x61b, ''anlogic'')]"

definition IDCODE2MANUFACTURERID :: "u32 \<Rightarrow> u32" where
  "IDCODE2MANUFACTURERID idcode = drop_bit 1 idcode AND 0x7ff"

definition IDCODE2PART :: "u32 \<Rightarrow> u32" where
  "IDCODE2PART idcode = drop_bit 21 idcode AND 0x07f"

definition IDCODE2VERS :: "u32 \<Rightarrow> u32" where
  "IDCODE2VERS idcode = drop_bit 28 idcode AND 0x00f"

subsection \<open>Facts of the tables\<close>

text \<open>Instruction registers of 4 to 38 bits, so that none is mistaken for \<open>-1\<close>.\<close>

lemmas fpga_list_defs = fpga_list_anlogic_def
  fpga_list_xilinx_7_def
  fpga_list_xilinx_usp_def
  fpga_list_altera_def
  fpga_list_efinix_def
  fpga_list_lattice_def
  fpga_list_gowin_def
  fpga_list_colognechip_def

lemma fpga_list_irlength:
  "(k, m) \<in> set fpga_list \<Longrightarrow> 4 \<le> fm_irlength m \<and> fm_irlength m \<le> 38"
proof -
  have "list_all (\<lambda>(k, m). 4 \<le> fm_irlength m \<and> fm_irlength m \<le> 38) fpga_list"
    by (simp add: fpga_list_def fpga_list_defs)
  then show "(k, m) \<in> set fpga_list \<Longrightarrow> ?thesis" by (auto simp: list_all_iff)
qed

lemma misc_dev_list_irlength:
  "(k, m) \<in> set misc_dev_list \<Longrightarrow> 4 \<le> md_irlength m \<and> md_irlength m \<le> 12"
proof -
  have "list_all (\<lambda>(k, m). 4 \<le> md_irlength m \<and> md_irlength m \<le> 12) misc_dev_list"
    by (simp add: misc_dev_list_def)
  then show "(k, m) \<in> set misc_dev_list \<Longrightarrow> ?thesis" by (auto simp: list_all_iff)
qed

end
