(* ===== verification/Jtag_Chain.thy ===== *)
theory Jtag_Chain
  imports Jtag Part_Db
begin

unbundle bit_operations_syntax

section \<open>Detection of the chain and selection of a device\<close>

text \<open>
  \<open>Jtag::detectChain\<close>, \<open>Jtag::search_and_insert_device_with_idcode\<close> and the lemmas on
  \<open>Jtag::device_select\<close>.  A successful detection leaves one instruction length per
  device, all of them taken from the tables, which is what \<open>device_select\<close> needs to
  compute how many bypass bits surround the selected device.
\<close>

text \<open>\<open>tmp |= rx_buff[ii] << (8 * ii)\<close> over four bytes.\<close>

definition le32 :: "bytes \<Rightarrow> u32" where
  "le32 bs = foldl (OR) 0 (map (\<lambda>i. push_bit (8 * i) (ucast (bs ! i))) [0..<4])"

text \<open>
  \<open>user\<close> stands for \<open>_user_misc_devs\<close>.  The \<open>int\<close> lengths of the tables are passed on as
  \<open>uint16_t\<close>.
\<close>

definition search_and_insert_device_with_idcode ::
    "(u32 \<Rightarrow> misc_device option) \<Rightarrow> u32 \<Rightarrow> 'c jtag \<Rightarrow> bool \<times> 'c jtag" where
  "search_and_insert_device_with_idcode user idcode j =
     (let irlength = (case map_of fpga_list idcode of
              Some dev \<Rightarrow> fm_irlength dev | None \<Rightarrow> -1);
          irlength = (if irlength = -1 then
              (case map_of misc_dev_list idcode of
                 Some misc \<Rightarrow> md_irlength misc | None \<Rightarrow> irlength) else irlength);
          irlength = (if irlength = -1 then
              (case user idcode of
                 Some misc \<Rightarrow> md_irlength misc | None \<Rightarrow> irlength) else irlength)
      in if irlength = -1 then (False, j)
         else (True, insert_first idcode (word_of_int irlength) j))"

text \<open>The body of the detection loop for one IDCODE that is neither 0 nor all ones.\<close>

definition insert_idcode ::
    "(u32 \<Rightarrow> misc_device option) \<Rightarrow> u32 \<Rightarrow> 'c jtag \<Rightarrow> bool \<times> 'c jtag" where
  "insert_idcode user tmp j =
     (let (found, j) = (if tmp = 0x20000001
            then search_and_insert_device_with_idcode user tmp j else (False, j));
          (found, j) = (if \<not> found
            then search_and_insert_device_with_idcode user tmp j else (found, j));
          (found, j) = (if \<not> found
            then search_and_insert_device_with_idcode user (tmp AND 0x0fffffff) j else (found, j))
      in (found, j))"

fun detect_loop :: "'c jtag_ops \<Rightarrow> (u32 \<Rightarrow> misc_device option) \<Rightarrow> nat \<Rightarrow> bytes \<Rightarrow> 'c jtag
    \<Rightarrow> 'c jtag res" where
  "detect_loop ops user 0 rx_buff j = Inr j"
| "detect_loop ops user (Suc n) rx_buff j =
     bindE (read_write ops (Some [0xff, 0xff, 0xff, 0xff]) (Some rx_buff) 32 False j)
       (\<lambda>(rx, j).
         let rx_buff = the rx; tmp = le32 rx_buff in
         if tmp = 0 then Inl (Runtime_error ''TDO is stuck at 0'')
         else if tmp = 0xffffffff then Inr j
         else let (found, j) = insert_idcode user tmp j in
           if \<not> found then Inl (Runtime_error ''Unknown device with IDCODE'')
           else detect_loop ops user n rx_buff j)"

text \<open>\<open>rx_buff\<close> is not initialised by the source: its first content is a parameter.\<close>

definition detectChain :: "'c jtag_ops \<Rightarrow> (u32 \<Rightarrow> misc_device option) \<Rightarrow> nat \<Rightarrow> bytes
    \<Rightarrow> 'c jtag \<Rightarrow> (int \<times> 'c jtag) res" where
  "detectChain ops user max_dev rx_buff j =
     (let j = j\<lparr>j_devices_list := [], j_irlength_list := [],
                j_ir_bits_before := 0, j_ir_bits_after := 0,
                j_dr_bits_before := 0, j_dr_bits_after := 0\<rparr> in
      bindE (go_test_logic_reset ops j) (\<lambda>j.
      bindE (set_state ops SHIFT_DR 1 j) (\<lambda>j.
      bindE (detect_loop ops user max_dev rx_buff j) (\<lambda>j.
      bindE (set_state ops TEST_LOGIC_RESET 1 j) (\<lambda>j.
      bindE (flushTMS ops True j) (\<lambda>(_, j).
        Inr (int (length (j_devices_list j)), j)))))))"

subsection \<open>No operation on the cable touches the device lists\<close>

lemma bindE_case_Inr:
  "bindE m (\<lambda>(x, y). f x y) = Inr z \<Longrightarrow> (\<exists>x y. m = Inr (x, y) \<and> f x y = Inr z)"
  by (auto simp: bindE_Inr_iff)

lemma flushTMS_cfg: "flushTMS ops fb j = Inr (r, j') \<Longrightarrow> same_cfg j j' \<and> j_state j' = j_state j"
  by (auto simp: flushTMS_def bindE_Inr_iff same_cfg_def split: if_splits)

lemma setTMS_cfg: "setTMS ops b j = Inr j' \<Longrightarrow> same_cfg j j' \<and> j_state j' = j_state j"
  by (auto simp: setTMS_def bindE_Inr_iff same_cfg_def split: if_splits dest!: flushTMS_cfg)

lemma setTMS_times_cfg: "setTMS_times ops n b j = Inr j' \<Longrightarrow> same_cfg j j'"
  by (induction n arbitrary: j)
     (auto simp: bindE_Inr_iff dest!: setTMS_cfg intro: same_cfg_trans)

lemma go_test_logic_reset_cfg: "go_test_logic_reset ops j = Inr j' \<Longrightarrow> same_cfg j j'"
  by (auto simp: go_test_logic_reset_def bindE_Inr_iff dest!: setTMS_times_cfg flushTMS_cfg)
     (simp add: same_cfg_def)

lemma set_state_loop_cfg: "set_state_loop n ops st j = Inr j' \<Longrightarrow> same_cfg j j'"
proof (induction n arbitrary: j)
  case 0
  then show ?case by (subst (asm) set_state_loop.simps) (auto split: if_splits)
next
  case (Suc n)
  show ?case
  proof (cases "st = j_state j")
    case True
    with Suc.prems show ?thesis by (subst (asm) set_state_loop.simps) simp
  next
    case False
    with Suc.prems obtain tms s j1 where "setTMS ops tms (j\<lparr>j_state := s\<rparr>) = Inr j1"
      and rest: "set_state_loop n ops st j1 = Inr j'"
      by (subst (asm) set_state_loop.simps) (auto simp: bindE_Inr_iff)
    then have "same_cfg j j1" using setTMS_cfg by (fastforce simp: same_cfg_def)
    with Suc.IH [OF rest] show ?thesis by (blast intro: same_cfg_trans)
  qed
qed

lemma set_state_cfg: "set_state ops st tdi j = Inr j' \<Longrightarrow> same_cfg j j'"
  by (auto simp: set_state_def bindE_Inr_iff dest!: set_state_loop_cfg flushTMS_cfg)
     (simp add: same_cfg_def)

lemma read_write_cfg: "read_write ops tdi tdo len l j = Inr (rx, j') \<Longrightarrow> same_cfg j j'"
  by (auto simp: read_write_def bindE_Inr_iff Let_def dest!: flushTMS_cfg)
     (auto simp: same_cfg_def)

subsection \<open>What a detection leaves\<close>

definition user_ok :: "(u32 \<Rightarrow> misc_device option) \<Rightarrow> bool" where
  "user_ok user \<longleftrightarrow> (\<forall>id m. user id = Some m \<longrightarrow> 0 < md_irlength m \<and> md_irlength m < 2 ^ 15)"

definition irlengths_ok :: "'c jtag \<Rightarrow> bool" where
  "irlengths_ok j \<longleftrightarrow> length (j_irlength_list j) = length (j_devices_list j) \<and>
     (\<forall>l \<in> set (j_irlength_list j). 0 < unat l \<and> unat l < 2 ^ 15)"

lemma unat_irlength: "0 < i \<Longrightarrow> i < 2 ^ 15 \<Longrightarrow> unat (word_of_int i :: u16) = nat i"
  by (simp add: unat_eq_nat_uint uint_word_of_int take_bit_int_eq_self)

lemma search_and_insert_ok:
  assumes "user_ok user" and "irlengths_ok j"
    and "search_and_insert_device_with_idcode user idc j = (found, j')"
  shows "irlengths_ok j' \<and>
    j_devices_list j' = (if found then idc # j_devices_list j else j_devices_list j)"
proof -
  have f: "4 \<le> fm_irlength m \<and> fm_irlength m \<le> 38" if "map_of fpga_list idc = Some m" for m
    using fpga_list_irlength map_of_SomeD [OF that] by blast
  have d: "4 \<le> md_irlength m \<and> md_irlength m \<le> 12" if "map_of misc_dev_list idc = Some m" for m
    using misc_dev_list_irlength map_of_SomeD [OF that] by blast
  have u: "0 < md_irlength m \<and> md_irlength m < 2 ^ 15" if "user idc = Some m" for m
    using that assms(1) by (auto simp: user_ok_def)
  have ins: "irlengths_ok (insert_first idc (word_of_int i) j)" if "0 < i" "i < 2 ^ 15" for i
    using that assms(2) by (auto simp: irlengths_ok_def insert_first_def unat_irlength)
  show ?thesis
    using assms(2,3) f d u ins
    by (auto simp: search_and_insert_device_with_idcode_def Let_def insert_first_def
        split: option.splits if_splits)
qed

lemma insert_idcode_ok:
  assumes "user_ok user" and "irlengths_ok j" and "insert_idcode user tmp j = (True, j')"
  shows "irlengths_ok j' \<and> (\<exists>id \<in> {tmp, tmp AND 0x0fffffff}.
    j_devices_list j' = id # j_devices_list j)"
proof -
  note step = search_and_insert_ok [OF assms(1)]
  obtain f1 j1 where s1: "search_and_insert_device_with_idcode user tmp j = (f1, j1)"
    by (cases "search_and_insert_device_with_idcode user tmp j") auto
  have i1: "irlengths_ok j1" using step [OF assms(2) s1] by simp
  have same: "j1 = j" if "\<not> f1"
    using s1 that
    by (auto simp: search_and_insert_device_with_idcode_def Let_def split: if_splits)
  obtain f2 j2 where s2: "search_and_insert_device_with_idcode user (tmp AND 0x0fffffff) j1 = (f2, j2)"
    by (cases "search_and_insert_device_with_idcode user (tmp AND 0x0fffffff) j1") auto
  show ?thesis
    using assms(3) s1 s2 step [OF assms(2) s1] step [OF i1 s2] same
    by (auto simp: insert_idcode_def Let_def split: if_splits)
qed

lemma detect_loop_ok:
  "user_ok user \<Longrightarrow> irlengths_ok j \<Longrightarrow> detect_loop ops user n rx j = Inr j' \<Longrightarrow>
   irlengths_ok j' \<and> length (j_devices_list j') \<le> length (j_devices_list j) + n"
proof (induction n arbitrary: j rx)
  case 0
  then show ?case by simp
next
  case (Suc n)
  from Suc.prems(3) obtain rx1 j1 where
    rw: "read_write ops (Some [0xff, 0xff, 0xff, 0xff]) (Some rx) 32 False j = Inr (rx1, j1)"
    by (auto dest!: bindE_case_Inr)
  have cfg: "irlengths_ok j1" "j_devices_list j1 = j_devices_list j"
    using read_write_cfg [OF rw] Suc.prems(2) by (auto simp: same_cfg_def irlengths_ok_def)
  obtain found j2 where ins: "insert_idcode user (le32 (the rx1)) j1 = (found, j2)"
    by (cases "insert_idcode user (le32 (the rx1)) j1") auto
  consider "j' = j1" | "found" "detect_loop ops user n (the rx1) j2 = Inr j'"
    using Suc.prems(3) rw ins by (auto simp: Let_def split: if_splits)
  then show ?case
  proof cases
    case 1
    with cfg show ?thesis by simp
  next
    case 2
    have "irlengths_ok j2" "length (j_devices_list j2) = Suc (length (j_devices_list j1))"
      using insert_idcode_ok [OF Suc.prems(1) cfg(1), of "le32 (the rx1)" j2] ins \<open>found\<close> by auto
    with Suc.IH [OF Suc.prems(1) _ 2(2)] cfg(2) show ?thesis by auto
  qed
qed

text \<open>
  C34: what a successful \<open>Jtag::detectChain\<close> leaves.  It returns the number of devices found, at
  most the number asked for; the list of instruction lengths is as long as the list of
  devices, and every length is positive and fits the signed 16 bits it is stored in.
\<close>

theorem detectChain_lists:
  assumes "user_ok user" and "detectChain ops user max_dev rx j = Inr (n, j')"
  shows "n = int (length (j_devices_list j')) \<and> irlengths_ok j' \<and>
    length (j_devices_list j') \<le> max_dev"
proof -
  let ?j = "j\<lparr>j_devices_list := [], j_irlength_list := [], j_ir_bits_before := 0,
    j_ir_bits_after := 0, j_dr_bits_before := 0, j_dr_bits_after := 0\<rparr>"
  from assms(2) obtain j1 j2 j3 j4 r where
    s: "go_test_logic_reset ops ?j = Inr j1" "set_state ops SHIFT_DR 1 j1 = Inr j2"
      "detect_loop ops user max_dev rx j2 = Inr j3" "set_state ops TEST_LOGIC_RESET 1 j3 = Inr j4"
      "flushTMS ops True j4 = Inr (r, j')" and n: "n = int (length (j_devices_list j'))"
    unfolding detectChain_def Let_def bindE_Inr_iff by auto
  have "same_cfg ?j j2"
    using go_test_logic_reset_cfg [OF s(1)] set_state_cfg [OF s(2)] by (rule same_cfg_trans)
  then have "irlengths_ok j2" "j_devices_list j2 = []"
    by (auto simp: same_cfg_def irlengths_ok_def)
  with detect_loop_ok [OF assms(1) _ s(3)]
  have "irlengths_ok j3" "length (j_devices_list j3) \<le> max_dev" by auto
  moreover have "same_cfg j3 j'"
    using set_state_cfg [OF s(4)] flushTMS_cfg [OF s(5)] by (blast intro: same_cfg_trans)
  ultimately show ?thesis using n by (auto simp: same_cfg_def irlengths_ok_def)
qed

subsection \<open>Bypass bits around the selected device\<close>

lemma unat_scast_small: "unat (l :: u16) < 2 ^ 15 \<Longrightarrow> unat (scast l :: u32) = unat l"
proof -
  assume a: "unat l < 2 ^ 15"
  have "\<not> bit l 15"
  proof
    assume "bit l 15"
    then have "bit (unat l) 15" by (simp add: bit_unsigned_iff)
    then have "odd (unat l div 2 ^ 15)" by (simp add: bit_iff_odd)
    with a show False by simp
  qed
  moreover have "n = 15" if "bit l n" "15 \<le> n" for n
    using bit_imp_le_length [OF that(1)] that(2) by simp
  ultimately have "(scast l :: u32) = ucast l"
    by (intro bit_word_eqI) (auto simp: bit_signed_iff bit_ucast_iff min_def)
  then show ?thesis using a by (simp add: unsigned_ucast_eq take_bit_nat_eq_self)
qed

lemma unat_sum_scast:
  assumes "\<forall>l \<in> set ls. unat (l :: u16) < 2 ^ 15" and "(\<Sum>l \<leftarrow> ls. unat l) < 2 ^ 32"
  shows "unat (\<Sum>l \<leftarrow> ls. scast l :: u32) = (\<Sum>l \<leftarrow> ls. unat l)"
  using assms
proof (induction ls)
  case Nil
  then show ?case by simp
next
  case (Cons l ls)
  then have "unat (\<Sum>l \<leftarrow> ls. scast l :: u32) = (\<Sum>l \<leftarrow> ls. unat l)" by simp
  with Cons.prems show ?case
    by (simp add: unat_word_ariths unat_scast_small)
qed

lemma bytes_for_bits: "unat (x :: u32) < 2 ^ 32 - 7 \<Longrightarrow> unat x \<le> 8 * unat ((x + 7) div 8)"
  by (simp add: unat_word_ariths unat_div)

text \<open>
  C35: \<open>Jtag::device_select\<close> of a device of the chain.  The data register bits before and after
  the device, together with its own, are the devices of the chain; the instruction register
  bits likewise add up to the lengths of all devices; both padding buffers are large
  enough, of zeros for the data and of ones (BYPASS) for the instruction registers.
\<close>

theorem device_select_valid:
  assumes "index < length (j_devices_list j)"
    and "irlengths_ok j"
    and "length (j_devices_list j) < 2 ^ 32 - 7"
    and "(\<Sum>l \<leftarrow> j_irlength_list j. unat l) < 2 ^ 32 - 7"
  shows "\<exists>j'. device_select index j = (int index, j') \<and> j_device_index j' = int index \<and>
     unat (j_dr_bits_before j') + 1 + unat (j_dr_bits_after j') = length (j_devices_list j) \<and>
     unat (j_dr_bits_after j') = index \<and>
     unat (j_ir_bits_before j') + unat (j_irlength_list j ! index) + unat (j_ir_bits_after j')
       = (\<Sum>l \<leftarrow> j_irlength_list j. unat l) \<and>
     unat (j_ir_bits_after j') = (\<Sum>l \<leftarrow> take index (j_irlength_list j). unat l) \<and>
     max (unat (j_dr_bits_before j')) (unat (j_dr_bits_after j')) \<le> 8 * length (j_dr_bits j') \<and>
     max (unat (j_ir_bits_before j')) (unat (j_ir_bits_after j')) \<le> 8 * length (j_ir_bits j') \<and>
     set (j_dr_bits j') \<subseteq> {0} \<and> set (j_ir_bits j') \<subseteq> {0xff} \<and>
     j_state j' = j_state j \<and> j_cable j' = j_cable j \<and> jtag_wf j' = jtag_wf j"
proof -
  have len: "length (j_irlength_list j) = length (j_devices_list j)"
    and small: "\<forall>l \<in> set (j_irlength_list j). unat l < 2 ^ 15"
    using assms(2) by (auto simp: irlengths_ok_def)
  let ?n = "length (j_devices_list j)" and ?ls = "j_irlength_list j"
  let ?db = "of_nat ?n - of_nat index - 1 :: u32" and ?da = "of_nat index :: u32"
  let ?ia = "\<Sum>l \<leftarrow> take index ?ls. scast l :: u32"
  let ?ib = "\<Sum>l \<leftarrow> drop (index + 1) ?ls. scast l :: u32"
  have sub: "?db = of_nat (?n - index - 1)"
    using assms(1) by (simp add: of_nat_diff)
  have db: "unat ?db = ?n - index - 1"
    using assms(1,3) by (intro of_nat_inverse [OF sub [symmetric]]) simp
  have da: "unat ?da = index"
    using assms(1,3) by (intro of_nat_inverse [OF refl]) simp
  have split: "(\<Sum>l \<leftarrow> ?ls. unat l) = (\<Sum>l \<leftarrow> take index ?ls. unat l) + unat (?ls ! index) +
      (\<Sum>l \<leftarrow> drop (index + 1) ?ls. unat l)"
    using assms(1) len by (subst id_take_nth_drop [of index ?ls]) simp_all
  have ia: "unat ?ia = (\<Sum>l \<leftarrow> take index ?ls. unat l)"
    using small assms(4) split by (intro unat_sum_scast) (auto dest: in_set_takeD)
  have ib: "unat ?ib = (\<Sum>l \<leftarrow> drop (index + 1) ?ls. unat l)"
    using small assms(4) split by (intro unat_sum_scast) (auto dest: in_set_dropD)
  have mx: "unat (max x y) = max (unat x) (unat y)" for x y :: u32
    by (simp add: max_def word_le_nat_alt)
  have d: "max (unat ?db) (unat ?da) \<le> 8 * unat ((max ?da ?db + 7) div 8)"
    using bytes_for_bits [of "max ?da ?db"] db da assms(1,3) by (simp add: mx max.commute)
  have i: "max (unat ?ib) (unat ?ia) \<le> 8 * unat ((max ?ib ?ia + 7) div 8)"
    using bytes_for_bits [of "max ?ib ?ia"] ia ib split assms(4) by (simp add: mx)
  show ?thesis
    using assms(1) db da ia ib split d i
    by (auto simp: device_select_def Let_def jtag_wf_def)
qed

text \<open>A cable that reports two devices of the same kind, for the witnesses.\<close>

definition null_ops :: "nat jtag_ops" where
  "null_ops = \<lparr>writeTMS = (\<lambda>tms len fl tdi c. Inr (int len, c)),
     writeTDI = (\<lambda>tx rx len e c. Inr (int len,
       Some (if c < 2 then [0x35, 0x4c, 0x01, 0x0a] else [0xff, 0xff, 0xff, 0xff]), c + 1)),
     toggleClk_ll = (\<lambda>tms tdi n c. Inr (int n, c)), flush_ll = (\<lambda>c. Inr (0, c))\<rparr>"

definition demo_chain :: "nat jtag" where
  "demo_chain = (jtag_init 0)\<lparr>j_devices_list := [0x0a014c35, 0x0a014c35], j_irlength_list := [8, 8]\<rparr>"

theorem device_select_valid_witness:
  "\<exists>j'. device_select 1 demo_chain = (int 1, j') \<and> j_device_index j' = int 1 \<and>
     unat (j_dr_bits_before j') + 1 + unat (j_dr_bits_after j') = length (j_devices_list demo_chain) \<and>
     unat (j_dr_bits_after j') = 1 \<and>
     unat (j_ir_bits_before j') + unat (j_irlength_list demo_chain ! 1) + unat (j_ir_bits_after j')
       = (\<Sum>l \<leftarrow> j_irlength_list demo_chain. unat l) \<and>
     unat (j_ir_bits_after j') = (\<Sum>l \<leftarrow> take 1 (j_irlength_list demo_chain). unat l) \<and>
     max (unat (j_dr_bits_before j')) (unat (j_dr_bits_after j')) \<le> 8 * length (j_dr_bits j') \<and>
     max (unat (j_ir_bits_before j')) (unat (j_ir_bits_after j')) \<le> 8 * length (j_ir_bits j') \<and>
     set (j_dr_bits j') \<subseteq> {0} \<and> set (j_ir_bits j') \<subseteq> {0xff} \<and>
     j_state j' = j_state demo_chain \<and> j_cable j' = j_cable demo_chain \<and> jtag_wf j' = jtag_wf demo_chain"
  by (rule device_select_valid) (simp_all add: demo_chain_def irlengths_ok_def)

text \<open>
  The bound check of \<open>Jtag::device_select\<close> is \<open>index > size\<close>, where the header promises -1
  for an index out of bounds: the first index after the last device is accepted, and the
  number of devices before it wraps around to \<open>0xffffffff\<close>.
\<close>

theorem device_select_past_end:
  assumes "index = length (j_devices_list j)"
  shows "\<exists>j'. device_select index j = (int index, j') \<and> j_dr_bits_before j' = 0xffffffff"
  using assms by (simp add: device_select_def Let_def)

theorem device_select_past_end_witness:
  "\<exists>j'. device_select 2 demo_chain = (int 2, j') \<and> j_dr_bits_before j' = 0xffffffff"
  by (rule device_select_past_end) (simp add: demo_chain_def)

theorem detectChain_lists_witness:
  "\<exists>n j'. detectChain null_ops (\<lambda>_. None) 5 [0, 0, 0, 0] (jtag_init 0) = Inr (n, j') \<and>
     n = int (length (j_devices_list j')) \<and> irlengths_ok j' \<and> length (j_devices_list j') \<le> 5"
proof -
  have "case detectChain null_ops (\<lambda>_. None) 5 [0, 0, 0, 0] (jtag_init 0) of
      Inl e \<Rightarrow> False | Inr x \<Rightarrow> fst x = 2"
    by code_simp
  then obtain n j' where d: "detectChain null_ops (\<lambda>_. None) 5 [0, 0, 0, 0] (jtag_init 0) = Inr (n, j')"
    by (auto split: sum.splits)
  have "user_ok (\<lambda>_. None)" by (simp add: user_ok_def)
  from detectChain_lists [OF this d] d show ?thesis by blast
qed

end
