(* ===== verification/Remote_Bitbang.thy ===== *)
theory Remote_Bitbang
  imports Jtag_Chain
begin

unbundle bit_operations_syntax

section \<open>The remote bitbang cable\<close>

text \<open>
  \<open>remoteBitbang_client.cpp\<close>: a \<open>JtagInterface\<close> that sends one character per level of
  the pins over a socket.  The peer (an OpenOCD \<open>remote_bitbang\<close> server) and the socket
  are not part of the source: \<open>rb_write_ok\<close> says which \<open>write(2)\<close> calls succeed and
  \<open>rb_srv\<close> what the server answers to a read request, both as functions of the bytes
  sent so far.  \<open>rbb_edges\<close> decodes the character stream with the rules of that protocol;
  the interpretation of \<open>jtag_cable\<close> shows that the client puts on the wire exactly the
  edges it is asked for.  \<open>toggleClk\<close> is the exception: see the last section.
\<close>

abbreviation TCK_BIT :: u8 where "TCK_BIT \<equiv> 4"
abbreviation TMS_BIT :: u8 where "TMS_BIT \<equiv> 2"
abbreviation TDI_BIT :: u8 where "TDI_BIT \<equiv> 1"

text \<open>
  \<open>rb_buf\<close> is the part of \<open>_xfer_buf\<close> below \<open>_num_bytes\<close>; \<open>rb_junk\<close> is the content of an
  uninitialised byte of the stack; \<open>rb_sent\<close> is everything written to the socket.
\<close>

record rbb =
  rb_buf :: bytes
  rb_last_tms :: u8
  rb_last_tdi :: u8
  rb_buffer_size :: nat
  rb_junk :: u8
  rb_sent :: bytes
  rb_write_ok :: "bytes \<Rightarrow> bytes \<Rightarrow> bool"
  rb_srv :: "bytes \<Rightarrow> u8 option"

definition rbb_open :: "u8 \<Rightarrow> (bytes \<Rightarrow> bytes \<Rightarrow> bool) \<Rightarrow> (bytes \<Rightarrow> u8 option) \<Rightarrow> rbb res" where
  "rbb_open junk wr srv =
     (if \<not> wr [] [98] then Inl (Runtime_error ''can't set led low'')
      else Inr \<lparr>rb_buf = [], rb_last_tms = TMS_BIT, rb_last_tdi = 0, rb_buffer_size = 2048,
        rb_junk = junk, rb_sent = [98], rb_write_ok = wr, rb_srv = srv\<rparr>)"

text \<open>\<open>xfer_pkt\<close> with a reply: -1 on a send or receive error, 1 otherwise.\<close>

definition xfer_pkt :: "u8 \<Rightarrow> rbb \<Rightarrow> int \<times> u8 \<times> rbb" where
  "xfer_pkt instr c =
     (if \<not> rb_write_ok c (rb_sent c) [instr] then (-1, rb_junk c, c)
      else let c = c\<lparr>rb_sent := rb_sent c @ [instr]\<rparr> in
        case rb_srv c (rb_sent c) of
          None \<Rightarrow> (-1, rb_junk c, c)
        | Some v \<Rightarrow> (1, v, c))"

definition ll_write :: "bool \<Rightarrow> rbb \<Rightarrow> bool \<times> u8 \<times> rbb" where
  "ll_write want_tdo c =
     (if rb_buf c = [] then (True, rb_junk c, c)
      else if \<not> rb_write_ok c (rb_sent c) (rb_buf c) then (False, rb_junk c, c)
      else let c = c\<lparr>rb_sent := rb_sent c @ rb_buf c, rb_buf := []\<rparr> in
        if want_tdo then
          (case xfer_pkt 82 c of (r, v, c) \<Rightarrow> (\<not> r < 0, v, c))
        else (True, rb_junk c, c))"

definition rbb_flush :: "rbb \<Rightarrow> (int \<times> rbb) res" where
  "rbb_flush c = (case ll_write False c of (ok, _, c) \<Rightarrow> Inr (of_bool ok, c))"

text \<open>\<open>_xfer_buf[_num_bytes++] = v\<close> on a heap block of \<open>_buffer_size\<close> bytes.\<close>

definition rbb_push :: "u8 \<Rightarrow> rbb \<Rightarrow> rbb res" where
  "rbb_push v c =
     (if length (rb_buf c) < rb_buffer_size c then Inr (c\<lparr>rb_buf := rb_buf c @ [v]\<rparr>)
      else Inl Out_of_bounds)"

definition rbb_room :: "rbb \<Rightarrow> rbb" where
  "rbb_room c = (if length (rb_buf c) = rb_buffer_size c then snd (snd (ll_write False c)) else c)"

fun rbb_tms_loop :: "bytes \<Rightarrow> u8 \<Rightarrow> nat \<Rightarrow> nat \<Rightarrow> rbb \<Rightarrow> rbb res" where
  "rbb_tms_loop tms base_v pos 0 c = Inr c"
| "rbb_tms_loop tms base_v pos (Suc n) c =
     (let c = rbb_room c;
          c = c\<lparr>rb_last_tms := (if nth_bit tms pos then TMS_BIT else 0)\<rparr> in
      bindE (rbb_push (base_v + rb_last_tms c) c) (\<lambda>c.
      bindE (rbb_push (base_v + rb_last_tms c + TCK_BIT) c) (\<lambda>c.
        rbb_tms_loop tms base_v (pos + 1) n c)))"

definition rbb_writeTMS :: "bytes \<Rightarrow> nat \<Rightarrow> bool \<Rightarrow> u8 \<Rightarrow> rbb \<Rightarrow> (int \<times> rbb) res" where
  "rbb_writeTMS tms len flush_buffer tdi c =
     (if len = 0 then (if flush_buffer then rbb_flush c else Inr (0, c))
      else
        bindE (rbb_tms_loop tms (48 + rb_last_tdi c) 0 len c) (\<lambda>c.
          if flush_buffer \<or> length (rb_buf c) = rb_buffer_size c * 8 then rbb_flush c
          else Inr (int len, c)))"

text \<open>One bit of \<open>writeTDI\<close>, then the loop over \<open>pos\<close>.\<close>

fun rbb_tdi_loop :: "bytes \<Rightarrow> bytes option \<Rightarrow> bool \<Rightarrow> nat \<Rightarrow> u8 \<Rightarrow> nat \<Rightarrow> nat \<Rightarrow> rbb
    \<Rightarrow> (bytes option \<times> rbb) res" where
  "rbb_tdi_loop tx rx end_bit len base_v pos 0 c = Inr (rx, c)"
| "rbb_tdi_loop tx rx end_bit len base_v pos (Suc n) c =
     (let c = rbb_room c;
          c = c\<lparr>rb_last_tdi := (if nth_bit tx pos then TDI_BIT else 0)\<rparr>;
          (base_v, c) = (if end_bit \<and> pos = len - 1
             then (48 + TMS_BIT, c\<lparr>rb_last_tms := TMS_BIT\<rparr>) else (base_v, c)) in
      bindE (rbb_push (base_v + rb_last_tdi c) c) (\<lambda>c.
      bindE (rbb_push (base_v + rb_last_tdi c + TCK_BIT) c) (\<lambda>c.
        case rx of
          None \<Rightarrow> rbb_tdi_loop tx rx end_bit len base_v (pos + 1) n c
        | Some buf \<Rightarrow>
            (case ll_write True c of (_, tdo, c) \<Rightarrow>
               rbb_tdi_loop tx
                 (Some (if tdo = 49 then set_bit_at buf pos else clear_bit_at buf pos))
                 end_bit len base_v (pos + 1) n c))))"

definition rbb_writeTDI :: "bytes option \<Rightarrow> bytes option \<Rightarrow> nat \<Rightarrow> bool \<Rightarrow> rbb
    \<Rightarrow> (int \<times> bytes option \<times> rbb) res" where
  "rbb_writeTDI tx rx len end_bit c =
     (if len = 0 then Inr (0, rx, c)
      else case tx of
        None \<Rightarrow> Inl Null_deref
      | Some t \<Rightarrow> bindE (rbb_tdi_loop t rx end_bit len (48 + rb_last_tms c) 0 len c)
          (\<lambda>(rx, c). Inr (int len, rx, c)))"

fun rbb_clk_loop :: "u8 \<Rightarrow> nat \<Rightarrow> nat \<Rightarrow> rbb \<Rightarrow> rbb res" where
  "rbb_clk_loop val len 0 c = Inr c"
| "rbb_clk_loop val len (Suc n) c =
     (let c = (if len = length (rb_buf c) then snd (snd (ll_write False c)) else c) in
      bindE (rbb_push (48 + val) c) (\<lambda>c.
      bindE (rbb_push (48 + (val OR TCK_BIT)) c) (\<lambda>c.
        rbb_clk_loop val (len + 1) n c)))"

definition rbb_toggleClk :: "u8 \<Rightarrow> u8 \<Rightarrow> nat \<Rightarrow> rbb \<Rightarrow> (int \<times> rbb) res" where
  "rbb_toggleClk tms tdi clk_len c =
     (if clk_len = 0 then Inr (0, c)
      else
        let c = (if rb_buf c \<noteq> [] then snd (snd (ll_write False c)) else c);
            c = c\<lparr>rb_last_tms := tms, rb_last_tdi := tdi\<rparr>;
            val = (rb_last_tms c OR rb_last_tdi c);
            c = (if rb_buf c \<noteq> [] then snd (snd (ll_write False c)) else c)
        in bindE (rbb_clk_loop val 0 clk_len c) (\<lambda>c.
             Inr (int clk_len, snd (snd (ll_write False c)))))"

definition rbb_ops :: "rbb jtag_ops" where
  "rbb_ops = \<lparr>writeTMS = rbb_writeTMS, writeTDI = rbb_writeTDI, toggleClk_ll = rbb_toggleClk,
     flush_ll = rbb_flush\<rparr>"

subsection \<open>The server's view of the characters\<close>

text \<open>
  A character \<open>'0' + v\<close> with \<open>v < 8\<close> sets TCK, TMS and TDI to bits 2, 1 and 0 of \<open>v\<close>; a
  controller samples TMS and TDI when TCK rises.  Other characters leave the pins.
\<close>

fun rbb_decode :: "bool \<Rightarrow> bytes \<Rightarrow> edge list" where
  "rbb_decode tck [] = []"
| "rbb_decode tck (ch # cs) =
     (if 48 \<le> ch \<and> ch \<le> 55 then
        let v = ch - 48 in
        (if bit v 2 \<and> \<not> tck then [(bit v 1, bit v 0)] else []) @ rbb_decode (bit v 2) cs
      else rbb_decode tck cs)"

fun rbb_tck :: "bool \<Rightarrow> bytes \<Rightarrow> bool" where
  "rbb_tck tck [] = tck"
| "rbb_tck tck (ch # cs) = rbb_tck (if 48 \<le> ch \<and> ch \<le> 55 then bit (ch - 48) 2 else tck) cs"

definition rbb_edges :: "rbb \<Rightarrow> edge list" where
  "rbb_edges c = rbb_decode False (rb_sent c @ rb_buf c)"

lemma rbb_decode_append:
  "rbb_decode tck (xs @ ys) = rbb_decode tck xs @ rbb_decode (rbb_tck tck xs) ys"
  by (induction tck xs rule: rbb_decode.induct) (auto simp: Let_def)

text \<open>The two characters of one clock period: TCK low, then high, with the same levels.\<close>

lemma rbb_decode_period:
  assumes "tms \<in> {0, TMS_BIT}" and "tdi \<in> {0, TDI_BIT}"
  shows "rbb_decode tck [48 + tdi + tms, 48 + tdi + tms + TCK_BIT] = [(tms \<noteq> 0, tdi \<noteq> 0)]"
  using assms by auto

subsection \<open>The contract of the cable\<close>

definition rbb_core :: "rbb \<Rightarrow> bool" where
  "rbb_core c \<longleftrightarrow> rb_buffer_size c = 2048 \<and> even (length (rb_buf c)) \<and>
     length (rb_buf c) \<le> 2048 \<and> (\<forall>h b. rb_write_ok c h b) \<and>
     rb_last_tdi c \<in> {0, TDI_BIT}"

definition rbb_inv :: "rbb \<Rightarrow> bool" where
  "rbb_inv c \<longleftrightarrow> rbb_core c \<and> rb_last_tms c \<in> {0, TMS_BIT} \<and>
     (rbb_edges c \<noteq> [] \<longrightarrow> fst (last (rbb_edges c)) = (rb_last_tms c \<noteq> 0))"

lemma ll_write_core:
  assumes "rbb_core c" and "ll_write w c = (ok, v, c')"
  shows "rbb_core c' \<and> rb_buf c' = [] \<and> rbb_edges c' = rbb_edges c \<and>
    rb_last_tms c' = rb_last_tms c \<and> rb_last_tdi c' = rb_last_tdi c"
proof -
  have "rbb_decode tck [82] = []" for tck by simp
  then have R: "rbb_decode False (xs @ [82]) = rbb_decode False xs" for xs
    by (simp add: rbb_decode_append)
  show ?thesis
    using assms R [of "rb_sent c @ rb_buf c"]
    by (auto simp: ll_write_def xfer_pkt_def rbb_core_def rbb_edges_def Let_def
        split: if_splits option.splits)
qed

lemma rbb_room_core:
  assumes "rbb_core c"
  shows "rbb_core (rbb_room c) \<and> length (rb_buf (rbb_room c)) \<le> 2046 \<and>
    rbb_edges (rbb_room c) = rbb_edges c \<and> rb_last_tms (rbb_room c) = rb_last_tms c \<and>
    rb_last_tdi (rbb_room c) = rb_last_tdi c"
proof (cases "length (rb_buf c) = 2048")
  case True
  obtain ok v c' where w: "ll_write False c = (ok, v, c')" by (cases "ll_write False c") auto
  show ?thesis
    using True assms ll_write_core [OF assms w] w by (simp add: rbb_room_def rbb_core_def)
next
  case False
  then have "length (rb_buf c) \<le> 2046"
    using assms by (auto simp: rbb_core_def elim!: evenE)
  with False assms show ?thesis by (simp add: rbb_room_def rbb_core_def)
qed

text \<open>One clock period appended to the buffer is one edge.\<close>

lemma push_period:
  assumes "rbb_core c" and "length (rb_buf c) \<le> 2046"
    and "tms \<in> {0, TMS_BIT}" and "tdi \<in> {0, TDI_BIT}" and "v = 48 + tdi + tms"
  shows "rbb_push v c = Inr (c\<lparr>rb_buf := rb_buf c @ [v]\<rparr>)"
    and "rbb_push (v + TCK_BIT) (c\<lparr>rb_buf := rb_buf c @ [v]\<rparr>) =
           Inr (c\<lparr>rb_buf := rb_buf c @ [v, v + TCK_BIT]\<rparr>)"
    and "rbb_core (c\<lparr>rb_buf := rb_buf c @ [v, v + TCK_BIT]\<rparr>)"
    and "rbb_edges (c\<lparr>rb_buf := rb_buf c @ [v, v + TCK_BIT]\<rparr>) =
           rbb_edges c @ [(tms \<noteq> 0, tdi \<noteq> 0)]"
proof -
  have "rbb_decode tck [v, v + TCK_BIT] = [(tms \<noteq> 0, tdi \<noteq> 0)]" for tck
    using rbb_decode_period [OF assms(3,4)] assms(5) by simp
  then have "rbb_decode False ((rb_sent c @ rb_buf c) @ [v, v + TCK_BIT]) =
      rbb_edges c @ [(tms \<noteq> 0, tdi \<noteq> 0)]"
    by (simp only: rbb_decode_append rbb_edges_def)
  then show "rbb_edges (c\<lparr>rb_buf := rb_buf c @ [v, v + TCK_BIT]\<rparr>) =
      rbb_edges c @ [(tms \<noteq> 0, tdi \<noteq> 0)]"
    by (simp add: rbb_edges_def)
qed (use assms in \<open>auto simp: rbb_push_def rbb_core_def\<close>)

lemma rbb_tms_loop_ok:
  "rbb_core c \<Longrightarrow>
   \<exists>c' new. rbb_tms_loop tms (48 + rb_last_tdi c) pos n c = Inr c' \<and> rbb_core c' \<and>
     rb_last_tdi c' = rb_last_tdi c \<and> rbb_edges c' = rbb_edges c @ new \<and>
     map fst new = map (nth_bit tms) [pos..<pos + n] \<and>
     rb_last_tms c' = (if n = 0 then rb_last_tms c
       else if nth_bit tms (pos + n - 1) then TMS_BIT else 0)"
proof (induction n arbitrary: c pos)
  case 0
  then show ?case by simp
next
  case (Suc n)
  let ?t = "if nth_bit tms pos then TMS_BIT else 0 :: u8"
  let ?c = "(rbb_room c)\<lparr>rb_last_tms := ?t\<rparr>"
  let ?v = "48 + rb_last_tdi c + ?t"
  have room: "rbb_core ?c" "length (rb_buf ?c) \<le> 2046" "rbb_edges ?c = rbb_edges c"
    "rb_last_tdi ?c = rb_last_tdi c"
    using rbb_room_core [OF Suc.prems] by (auto simp: rbb_core_def rbb_edges_def)
  have t: "?t \<in> {0, TMS_BIT}" by simp
  have d: "rb_last_tdi c \<in> {0, TDI_BIT}" using Suc.prems by (simp add: rbb_core_def)
  note push = push_period [OF room(1,2) t d refl]
  let ?c2 = "?c\<lparr>rb_buf := rb_buf ?c @ [?v, ?v + TCK_BIT]\<rparr>"
  from Suc.IH [OF push(3), of "pos + 1"] room(4) obtain c' new where
    r: "rbb_tms_loop tms (48 + rb_last_tdi c) (pos + 1) n ?c2 = Inr c'" "rbb_core c'"
      "rb_last_tdi c' = rb_last_tdi c" "rbb_edges c' = rbb_edges ?c2 @ new"
      "map fst new = map (nth_bit tms) [pos + 1..<pos + 1 + n]"
      "rb_last_tms c' = (if n = 0 then ?t
         else if nth_bit tms (pos + 1 + n - 1) then TMS_BIT else 0)" by auto
  have "rbb_tms_loop tms (48 + rb_last_tdi c) pos (Suc n) c = Inr c'"
    using push(1,2) r(1) by (simp add: Let_def)
  moreover have "rbb_edges c' = rbb_edges c @ (?t \<noteq> 0, rb_last_tdi c \<noteq> 0) # new"
    using r(4) push(4) room(3) by simp
  moreover have "map fst ((?t \<noteq> 0, rb_last_tdi c \<noteq> 0) # new) =
      map (nth_bit tms) [pos..<pos + Suc n]"
    using r(5) by (simp add: upt_rec [of pos])
  moreover have "rb_last_tms c' = (if nth_bit tms (pos + Suc n - 1) then TMS_BIT else 0)"
    using r(6) by (cases n) simp_all
  ultimately show ?case using r(2,3)
    by (intro exI [of _ c'] exI [of _ "(?t \<noteq> 0, rb_last_tdi c \<noteq> 0) # new"]) simp
qed

text \<open>
  The server answers a request with the level of TDO, which is a function of the edges it has seen.
\<close>

definition served :: "(edge list \<Rightarrow> bool) \<Rightarrow> rbb \<Rightarrow> bool" where
  "served lvl c \<longleftrightarrow> (\<forall>h. rb_srv c h = Some (if lvl (rbb_decode False h) then 49 else 48))"

lemma rbb_decode_R: "rbb_decode False (xs @ ys @ [82]) = rbb_decode False (xs @ ys)"
  by (simp add: rbb_decode_append)

lemma ll_write_srv:
  assumes "ll_write w c = (ok, v, c')"
  shows "rb_srv c' = rb_srv c"
    and "rbb_core c \<Longrightarrow> w \<Longrightarrow> rb_buf c \<noteq> [] \<Longrightarrow> served lvl c \<Longrightarrow> v = (if lvl (rbb_edges c) then 49 else 48)"
  using assms
  by (auto simp: ll_write_def xfer_pkt_def rbb_core_def served_def rbb_edges_def rbb_decode_R Let_def
      split: if_splits option.splits)

text \<open>One bit of \<open>writeTDI\<close>.\<close>

lemma rbb_tdi_pass:
  assumes "rbb_core c" "rb_last_tms c = 0" and t_def: "t = (if e \<and> pos = len - 1 then TMS_BIT else 0)"
  shows "\<exists>rx3 c3. rbb_tdi_loop tx rx e len 48 pos (Suc n) c = rbb_tdi_loop tx rx3 e len (48 + t) (pos + 1) n c3 \<and> rbb_core c3 \<and>
    rbb_edges c3 = rbb_edges c @ [(e \<and> pos = len - 1, nth_bit tx pos)] \<and> rb_last_tms c3 = t \<and> rb_srv c3 = rb_srv c \<and>
    (\<forall>buf lvl. rx = Some buf \<longrightarrow> served lvl c \<longrightarrow>
       rx3 = Some (if lvl (rbb_edges c3) then set_bit_at buf pos else clear_bit_at buf pos))"
proof -
  let ?d = "if nth_bit tx pos then TDI_BIT else 0 :: u8"
  let ?x = "(rbb_room c)\<lparr>rb_last_tdi := ?d\<rparr>"
  let ?c = "?x\<lparr>rb_last_tms := t\<rparr>"
  let ?v = "48 + t + ?d"
  obtain wk wv wc where room_w: "ll_write False c = (wk, wv, wc)" by (cases "ll_write False c") auto
  have room: "rbb_core ?c" "length (rb_buf ?c) \<le> 2046" "rbb_edges ?c = rbb_edges c" "rb_last_tms (rbb_room c) = 0" "rb_srv ?c = rb_srv c"
    using rbb_room_core [OF assms(1)] assms(2) ll_write_srv(1) [OF room_w] room_w
    by (auto simp: rbb_core_def rbb_edges_def rbb_room_def)
  have t: "t \<in> {0, TMS_BIT}" and d: "?d \<in> {0, TDI_BIT}" by (simp_all add: t_def)
  have v: "?v = 48 + ?d + t" by (simp add: ac_simps)
  note push = push_period [OF room(1,2) t d v]
  have "?x\<lparr>rb_last_tms := 0\<rparr> = ?x" using room(4) by (cases "rbb_room c") simp
  then have sel: "(if e \<and> pos = len - 1 then (48 + TMS_BIT, ?x\<lparr>rb_last_tms := TMS_BIT\<rparr>)
      else (48, ?x)) = (48 + t, ?c)" by (simp add: t_def)
  define c2 where "c2 = ?c\<lparr>rb_buf := rb_buf ?c @ [?v, ?v + TCK_BIT]\<rparr>"
  note push2 = push(2-4) [folded c2_def]
  have c2: "rb_last_tms c2 = t" "rb_srv c2 = rb_srv c" "rb_buf c2 \<noteq> []" using room(5) by (simp_all add: c2_def)
  have tdi: "rb_last_tdi ?c = ?d" "rb_last_tdi (?c\<lparr>rb_buf := b\<rparr>) = ?d" for b by simp_all
  define rc where "rc = (case rx of None \<Rightarrow> (rx, c2) | Some buf \<Rightarrow>
      (case ll_write True c2 of (_, tdo, c) \<Rightarrow>
        (Some (if tdo = 49 then set_bit_at buf pos else clear_bit_at buf pos), c)))"
  obtain rx3 c3 where rc3: "rc = (rx3, c3)" by (cases rc)
  obtain ok tdo cw where w: "ll_write True c2 = (ok, tdo, cw)" by (cases "ll_write True c2") auto
  have "c3 = c2 \<or> c3 = cw" using rc3 w by (cases rx) (simp_all add: rc_def)
  then have c3: "rbb_core c3" "rbb_edges c3 = rbb_edges c2" "rb_last_tms c3 = t" "rb_srv c3 = rb_srv c"
    using push2(2) ll_write_core [OF push2(2) w] ll_write_srv(1) [OF w] c2 by auto
  have "rbb_tdi_loop tx rx e len 48 pos (Suc n) c =
      (case rc of (rx, c) \<Rightarrow> rbb_tdi_loop tx rx e len (48 + t) (pos + 1) n c)"
    unfolding rbb_tdi_loop.simps Let_def rbb.select_convs rbb.update_convs sel prod.case rc_def
    by (cases rx) (simp_all only: tdi push(1) push2(1) bindE.simps option.case prod.case w)
  then have unfold: "rbb_tdi_loop tx rx e len 48 pos (Suc n) c = rbb_tdi_loop tx rx3 e len (48 + t) (pos + 1) n c3"
    by (simp only: rc3 prod.case)
  have e1: "rbb_edges c3 = rbb_edges c @ [(e \<and> pos = len - 1, nth_bit tx pos)]"
    using c3(2) push2(3) room(3) by (simp add: t_def)
  have "rx3 = Some (if lvl (rbb_edges c3) then set_bit_at buf pos else clear_bit_at buf pos)"
    if "rx = Some buf" "served lvl c" for buf lvl
  proof -
    have "served lvl c2" using that(2) c2(2) by (simp add: served_def)
    then have "tdo = (if lvl (rbb_edges c2) then 49 else 48)" using ll_write_srv(2) [OF w push2(2)] c2(3) by simp
    then show ?thesis using rc3 w that(1) c3(2) by (auto simp: rc_def)
  qed
  with unfold c3(1,3,4) e1 show ?thesis by blast
qed

lemma rbb_tdi_loop_ok:
  "rbb_core c \<Longrightarrow> pos + n = len \<Longrightarrow> rb_last_tms c = 0 \<Longrightarrow>
   \<exists>rx' c'. rbb_tdi_loop tx rx e len 48 pos n c = Inr (rx', c') \<and> rbb_core c' \<and>
     rbb_edges c' = rbb_edges c @ map (\<lambda>i. (e \<and> i = len - 1, nth_bit tx i)) [pos..<len] \<and>
     rb_last_tms c' = (if e \<and> 0 < n then TMS_BIT else 0) \<and> rb_srv c' = rb_srv c \<and>
     (\<forall>buf lvl. rx = Some buf \<longrightarrow> served lvl c \<longrightarrow> len \<le> 8 * length buf \<longrightarrow>
        (\<exists>buf'. rx' = Some buf' \<and> length buf' = length buf \<and> (\<forall>i < 8 * length buf. nth_bit buf' i =
           (if pos \<le> i \<and> i < len then lvl (rbb_edges c @ map (\<lambda>i. (e \<and> i = len - 1, nth_bit tx i)) [pos..<Suc i]) else nth_bit buf i))))"
proof (induction n arbitrary: c pos rx)
  case 0
  then show ?case by auto
next
  case (Suc n)
  let ?t = "if e \<and> pos = len - 1 then TMS_BIT else 0 :: u8" and ?edge = "\<lambda>i. (e \<and> i = len - 1, nth_bit tx i)"
  from rbb_tdi_pass [OF Suc.prems(1,3) refl, of tx rx e len pos n] obtain rx3 c3 where
    p: "rbb_tdi_loop tx rx e len 48 pos (Suc n) c = rbb_tdi_loop tx rx3 e len (48 + ?t) (pos + 1) n c3" "rbb_core c3"
      "rbb_edges c3 = rbb_edges c @ [?edge pos]" "rb_last_tms c3 = ?t" "rb_srv c3 = rb_srv c"
    and rx3: "\<And>buf lvl. rx = Some buf \<Longrightarrow> served lvl c \<Longrightarrow>
      rx3 = Some (if lvl (rbb_edges c3) then set_bit_at buf pos else clear_bit_at buf pos)" by blast
  show ?case
  proof (cases "n = 0")
    case True
    then have pos: "len = Suc pos" using Suc.prems(2) by simp
    have "rbb_tdi_loop tx rx e len 48 pos (Suc n) c = Inr (rx3, c3)"
      using p(1) by (simp only: True rbb_tdi_loop.simps(1))
    moreover have "\<exists>buf'. rx3 = Some buf' \<and> length buf' = length buf \<and> (\<forall>i < 8 * length buf. nth_bit buf' i =
        (if pos \<le> i \<and> i < len then lvl (rbb_edges c @ map ?edge [pos..<Suc i]) else nth_bit buf i))"
      if "rx = Some buf" "served lvl c" "len \<le> 8 * length buf" for buf lvl
      using rx3 [OF that(1,2)] that(3) p(3) pos by (auto simp: buf_simps less_Suc_eq)
    ultimately show ?thesis using p(2-5) pos True
      by (intro exI [of _ rx3] exI [of _ c3]) (simp del: rbb_tdi_loop.simps)
  next
    case False
    then have t0: "?t = 0" and lt: "pos < len" using Suc.prems(2) by auto
    from Suc.IH [OF p(2), of "pos + 1" rx3] Suc.prems(2) p(4) t0 obtain rx' c' where
      r: "rbb_tdi_loop tx rx3 e len 48 (pos + 1) n c3 = Inr (rx', c')" "rbb_core c'"
        "rbb_edges c' = rbb_edges c3 @ map ?edge [pos + 1..<len]"
        "rb_last_tms c' = (if e \<and> 0 < n then TMS_BIT else 0)" "rb_srv c' = rb_srv c3"
      and rx: "\<And>buf lvl. rx3 = Some buf \<Longrightarrow> served lvl c3 \<Longrightarrow> len \<le> 8 * length buf \<Longrightarrow>
        \<exists>buf'. rx' = Some buf' \<and> length buf' = length buf \<and> (\<forall>i < 8 * length buf. nth_bit buf' i =
           (if pos + 1 \<le> i \<and> i < len then lvl (rbb_edges c3 @ map ?edge [pos + 1..<Suc i]) else nth_bit buf i))" by auto
    have "\<exists>buf'. rx' = Some buf' \<and> length buf' = length buf \<and> (\<forall>i < 8 * length buf. nth_bit buf' i =
        (if pos \<le> i \<and> i < len then lvl (rbb_edges c @ map ?edge [pos..<Suc i]) else nth_bit buf i))"
      if b: "rx = Some buf" "served lvl c" "len \<le> 8 * length buf" for buf lvl
    proof -
      let ?b = "if lvl (rbb_edges c3) then set_bit_at buf pos else clear_bit_at buf pos"
      have srv: "served lvl c3" using b(2) p(5) by (simp add: served_def)
      have lb: "length ?b = length buf" by simp
      from rx [OF rx3 [OF b(1,2)] srv, unfolded lb, OF b(3)] obtain buf' where
        b': "rx' = Some buf'" "length buf' = length buf" "\<forall>i < 8 * length buf. nth_bit buf' i =
          (if pos + 1 \<le> i \<and> i < len then lvl (rbb_edges c3 @ map ?edge [pos + 1..<Suc i]) else nth_bit ?b i)" by blast
      have "nth_bit buf' i = (if pos \<le> i \<and> i < len then lvl (rbb_edges c @ map ?edge [pos..<Suc i]) else nth_bit buf i)"
        if i: "i < 8 * length buf" for i
      proof (cases "pos + 1 \<le> i \<and> i < len")
        case True
        then have "map ?edge [pos..<Suc i] = ?edge pos # map ?edge [pos + 1..<Suc i]" by (simp add: upt_conv_Cons del: upt_Suc)
        then show ?thesis using True b'(3) i p(3) by (simp del: upt_Suc)
      next
        case False
        then have "nth_bit buf' i = nth_bit ?b i" using b'(3) i by auto
        moreover have "pos < 8 * length buf" using lt b(3) by simp
        moreover have "pos \<le> i \<and> i < len \<longleftrightarrow> i = pos" using False lt by auto
        ultimately show ?thesis using lt p(3) by (auto simp: buf_simps)
      qed
      with b'(1,2) show ?thesis by blast
    qed
    moreover have "rbb_tdi_loop tx rx e len 48 pos (Suc n) c = Inr (rx', c')" using p(1) r(1) t0 by simp
    moreover have "rbb_edges c' = rbb_edges c @ map ?edge [pos..<len]"
      using r(3) p(3) lt by (simp add: upt_conv_Cons)
    ultimately show ?thesis using r(2,4,5) p(5) False
      by (intro exI [of _ rx'] exI [of _ c']) (simp del: rbb_tdi_loop.simps)
  qed
qed

lemma rbb_flush_ok:
  assumes "rbb_inv c"
  shows "\<exists>ret c'. rbb_flush c = Inr (ret, c') \<and> rbb_inv c' \<and> rbb_edges c' = rbb_edges c"
proof -
  obtain ok v c' where w: "ll_write False c = (ok, v, c')" by (cases "ll_write False c") auto
  have "rbb_core c" using assms by (simp add: rbb_inv_def)
  from ll_write_core [OF this w] assms w show ?thesis
    by (auto simp: rbb_flush_def rbb_inv_def)
qed

lemma rbb_inv_after:
  assumes "rbb_core c'" and "rb_last_tms c' = (if b then TMS_BIT else 0)"
    and "rbb_edges c' = es @ new" and "new \<noteq> []" and "last (map fst new) = b"
  shows "rbb_inv c'"
  using assms by (auto simp: rbb_inv_def last_map)

lemma rbb_writeTMS_ok:
  assumes "rbb_inv c" and "0 < len"
  shows "\<exists>ret c' new. rbb_writeTMS tms len fl tdi c = Inr (ret, c') \<and> rbb_inv c' \<and>
    rbb_edges c' = rbb_edges c @ new \<and> map fst new = bits_of tms len"
proof -
  have "rbb_core c" using assms by (simp add: rbb_inv_def)
  from rbb_tms_loop_ok [OF this, of tms 0 len] assms(2) obtain c1 new where
    r: "rbb_tms_loop tms (48 + rb_last_tdi c) 0 len c = Inr c1" "rbb_core c1"
      "rbb_edges c1 = rbb_edges c @ new" "map fst new = bits_of tms len"
      "rb_last_tms c1 = (if nth_bit tms (len - 1) then TMS_BIT else 0)"
    by (auto simp: bits_of_def)
  have "last (bits_of tms len) = nth_bit tms (len - 1)"
    using assms(2) by (simp add: last_conv_nth)
  then have inv: "rbb_inv c1"
    using r assms(2) by (intro rbb_inv_after [OF r(2,5,3)]) (metis assms(2) bits_of_eq_Nil list.map_disc_iff less_numeral_extra(3), simp)
  show ?thesis
    using r inv assms(2) rbb_flush_ok [OF inv] by (auto simp: rbb_writeTMS_def)
qed

lemma rbb_writeTDI_ok:
  assumes "rbb_inv c" and "0 < len" and "rbb_edges c \<noteq> []" and "\<not> fst (last (rbb_edges c))"
  shows "\<exists>ret rx' c'. rbb_writeTDI (Some tx) rx len e c = Inr (ret, rx', c') \<and> rbb_inv c' \<and>
    rbb_edges c' = rbb_edges c @ zip (replicate (len - 1) False @ [e]) (bits_of tx len)"
proof -
  have core: "rbb_core c" and low: "rb_last_tms c = 0" using assms by (auto simp: rbb_inv_def)
  from rbb_tdi_loop_ok [OF core _ low, of 0 len len tx rx e] assms(2) obtain rx' c' where
    r: "rbb_tdi_loop tx rx e len 48 0 len c = Inr (rx', c')" "rbb_core c'"
      "rbb_edges c' = rbb_edges c @ zip (replicate (len - 1) False @ [e]) (bits_of tx len)"
      "rb_last_tms c' = (if e then TMS_BIT else 0)"
    unfolding tdi_edges [OF assms(2)] by auto
  have "rbb_inv c'"
    using r assms(2) by (intro rbb_inv_after [OF r(2,4,3)]) (auto simp: zip_append1)
  with r low assms(2) show ?thesis by (auto simp: rbb_writeTDI_def)
qed

interpretation rbb: jtag_cable rbb_ops rbb_inv rbb_edges
  by unfold_locales
     (unfold rbb_ops_def jtag_ops.select_convs,
      blast intro: rbb_writeTMS_ok, blast intro: rbb_writeTDI_ok, blast intro: rbb_flush_ok)

subsection \<open>\<open>toggleClk\<close>\<close>

text \<open>
  The loop tests \<open>len == _num_bytes\<close>, which holds only in the first pass because two bytes
  are stored per clock.  So the buffer is never emptied inside the loop, and it is
  overrun from the 1025th clock on.
\<close>

lemma rbb_clk_loop_eq:
  "rb_buffer_size c = 2048 \<Longrightarrow> length (rb_buf c) = 2 * len \<Longrightarrow> 2 * len \<le> 2048 \<Longrightarrow>
   rbb_clk_loop val len n c =
     (if len + n \<le> 1024
      then Inr (c\<lparr>rb_buf := rb_buf c @ concat (replicate n [48 + val, 48 + (val OR TCK_BIT)])\<rparr>)
      else Inl Out_of_bounds)"
proof (induction n arbitrary: len c)
  case 0
  then show ?case by simp
next
  case (Suc n)
  have nf: "(if len = length (rb_buf c) then snd (snd (ll_write False c)) else c) = c"
    using Suc.prems(2) by (auto simp: ll_write_def)
  show ?case
  proof (cases "len = 1024")
    case True
    with Suc.prems nf show ?thesis by (simp add: rbb_push_def Let_def)
  next
    case False
    let ?c = "c\<lparr>rb_buf := rb_buf c @ [48 + val, 48 + (val OR TCK_BIT)]\<rparr>"
    have "rbb_clk_loop val len (Suc n) c = rbb_clk_loop val (len + 1) n ?c"
      using Suc.prems False nf by (simp add: rbb_push_def Let_def)
    also have "\<dots> = (if len + 1 + n \<le> 1024
        then Inr (?c\<lparr>rb_buf := rb_buf ?c @ concat (replicate n [48 + val, 48 + (val OR TCK_BIT)])\<rparr>)
        else Inl Out_of_bounds)"
      using Suc.prems False by (intro Suc.IH) auto
    finally show ?thesis by simp
  qed
qed

lemma rbb_toggleClk_buf:
  assumes "rbb_core c" and "0 < n"
  shows "\<exists>c'. rbb_core c' \<and> rb_buf c' = [] \<and> rbb_edges c' = rbb_edges c \<and>
    rbb_toggleClk tms tdi n c =
      (let c1 = c'\<lparr>rb_last_tms := tms, rb_last_tdi := tdi\<rparr> in
       if n \<le> 1024 then Inr (int n, c1\<lparr>rb_sent := rb_sent c1 @
           concat (replicate n [48 + (tms OR tdi), 48 + (tms OR tdi OR TCK_BIT)])\<rparr>)
       else Inl Out_of_bounds)"
proof -
  define c' where "c' = (if rb_buf c \<noteq> [] then snd (snd (ll_write False c)) else c)"
  obtain ok v cw where w: "ll_write False c = (ok, v, cw)" by (cases "ll_write False c") auto
  have c': "rbb_core c'" "rb_buf c' = []" "rbb_edges c' = rbb_edges c"
    using ll_write_core [OF assms(1) w] w assms(1) by (auto simp: c'_def)
  let ?c1 = "c'\<lparr>rb_last_tms := tms, rb_last_tdi := tdi\<rparr>"
  have sz: "rb_buffer_size ?c1 = 2048" "length (rb_buf ?c1) = 2 * 0"
    using c' by (simp_all add: rbb_core_def)
  let ?cs = "concat (replicate n [48 + (tms OR tdi), 48 + (tms OR tdi OR TCK_BIT)])"
  have ne: "?cs \<noteq> []" using assms(2) by (cases n) auto
  have "rbb_toggleClk tms tdi n c = bindE (rbb_clk_loop (tms OR tdi) 0 n ?c1)
      (\<lambda>c. Inr (int n, snd (snd (ll_write False c))))"
    using assms(2) c'(2) by (simp add: rbb_toggleClk_def Let_def flip: c'_def)
  also have "\<dots> = (if n \<le> 1024 then Inr (int n, ?c1\<lparr>rb_sent := rb_sent ?c1 @ ?cs\<rparr>)
      else Inl Out_of_bounds)"
    using c' ne by (simp add: rbb_clk_loop_eq [OF sz] ll_write_def rbb_core_def Let_def or.assoc)
  finally show ?thesis using c' by (intro exI [of _ c']) (simp add: Let_def)
qed

lemma rbb_decode_periods:
  assumes "val < 4"
  shows "rbb_decode tck (concat (replicate n [48 + val, 48 + (val OR TCK_BIT)])) =
    replicate n (bit val 1, bit val 0)"
proof (induction n arbitrary: tck)
  case 0
  then show ?case by simp
next
  case (Suc n)
  have "val \<in> {0, 1, 2, 3}"
  proof -
    have "unat val < 4" using assms by (simp add: word_less_nat_alt)
    then have "unat val \<in> {0, 1, 2, 3}" by auto
    then show ?thesis by (auto simp: word_unat_eq_iff)
  qed
  then show ?case using Suc by auto
qed

subsection \<open>Properties\<close>

text \<open>A freshly opened client, for the witnesses.\<close>

definition demo_rbb :: rbb where
  "demo_rbb = \<lparr>rb_buf = [], rb_last_tms = TMS_BIT, rb_last_tdi = 0, rb_buffer_size = 2048,
     rb_junk = 0, rb_sent = [98], rb_write_ok = (\<lambda>_ _. True), rb_srv = (\<lambda>_. Some 48)\<rparr>"

lemma demo_rbb_ok: "rbb_inv demo_rbb" "rbb_core demo_rbb" "rbb_edges demo_rbb = []"
  by (simp_all add: demo_rbb_def rbb_inv_def rbb_core_def rbb_edges_def)

lemma demo_jtag_wf: "jtag_wf (jtag_init demo_rbb)"
  by (simp add: jtag_wf_def jtag_init_def nth_bit_replicate)

lemma demo_synced: "synced rbb_edges RUN_TEST_IDLE (jtag_init demo_rbb)"
  "synced rbb_edges TEST_LOGIC_RESET ((jtag_init demo_rbb)\<lparr>j_state := TEST_LOGIC_RESET\<rparr>)"
  using demo_jtag_wf by (simp_all add: synced_def demo_rbb_ok jtag_init_def jtag_wf_def)

lemmas demo_jtag = demo_rbb_ok demo_jtag_wf demo_synced

text \<open>
  C2: \<open>Jtag::set_state\<close> over this cable always returns for a defined target; afterwards the
  object records the target, and the controllers of the chain, which sampled the edges
  put on the wire, are in it too.
\<close>

theorem set_state_moves_chain:
  assumes "rbb_inv (j_cable j)" and "synced rbb_edges s0 j" and "s0 \<noteq> UNKNOWN" and "n \<noteq> UNKNOWN"
  shows "\<exists>j'. set_state rbb_ops n tdi j = Inr j' \<and> rbb_inv (j_cable j') \<and> j_state j' = n \<and>
    tap_run s0 (map fst (rbb_edges (j_cable j'))) = n"
  using rbb.set_state_synced [OF assms(1,2,4,3), of tdi] by (auto simp: synced_def)

theorem set_state_moves_chain_witness:
  "\<exists>j'. set_state rbb_ops SHIFT_DR 1 (jtag_init demo_rbb) = Inr j' \<and> rbb_inv (j_cable j') \<and>
    j_state j' = SHIFT_DR \<and> tap_run RUN_TEST_IDLE (map fst (rbb_edges (j_cable j'))) = SHIFT_DR"
  by (rule set_state_moves_chain) (simp_all add: demo_jtag, simp add: jtag_init_def demo_jtag)

text \<open>
  C3: \<open>Jtag::shiftDR\<close> shifts into the data registers of the chain exactly the padding bits
  of the devices before the selected one, the caller's bits in order, and the padding
  bits of the devices after it; nothing is shifted into the instruction registers, and
  object and chain end in the requested state.
\<close>

theorem shiftDR_bits:
  assumes "rbb_inv (j_cable j)" and "synced rbb_edges s0 j"
    and "s0 \<notin> {SHIFT_DR, SHIFT_IR, UNKNOWN}" and "j_state j \<notin> {SHIFT_DR, SHIFT_IR}"
    and "end_state \<notin> {SHIFT_DR, SHIFT_IR, UNKNOWN}"
    and "0 < len" and "len \<le> 8 * length tx" and "\<And>b. rx = Some b \<Longrightarrow> len \<le> 8 * length b"
    and "max (unat (j_dr_bits_before j)) (unat (j_dr_bits_after j)) \<le> 8 * length (j_dr_bits j)"
  shows "\<exists>rx' j'. shiftDR rbb_ops (Some tx) rx len end_state j = Inr (rx', j') \<and>
    rbb_inv (j_cable j') \<and> synced rbb_edges s0 j' \<and> j_state j' = end_state \<and>
    shifted_in SHIFT_DR s0 (rbb_edges (j_cable j')) = shifted_in SHIFT_DR s0 (rbb_edges (j_cable j)) @
      bits_of (j_dr_bits j) (unat (j_dr_bits_before j)) @ bits_of tx len @
      bits_of (j_dr_bits j) (unat (j_dr_bits_after j)) \<and>
    shifted_in SHIFT_IR s0 (rbb_edges (j_cable j')) = shifted_in SHIFT_IR s0 (rbb_edges (j_cable j))"
  using rbb.shiftDR_ok [where rx = rx, OF assms(1-8)] assms(9) by auto

theorem shiftDR_bits_witness:
  "\<exists>rx' j'. shiftDR rbb_ops (Some [0x5a]) None 8 RUN_TEST_IDLE (jtag_init demo_rbb) = Inr (rx', j') \<and>
    rbb_inv (j_cable j') \<and> synced rbb_edges RUN_TEST_IDLE j' \<and> j_state j' = RUN_TEST_IDLE \<and>
    shifted_in SHIFT_DR RUN_TEST_IDLE (rbb_edges (j_cable j')) =
      shifted_in SHIFT_DR RUN_TEST_IDLE (rbb_edges (j_cable (jtag_init demo_rbb))) @
      bits_of (j_dr_bits (jtag_init demo_rbb)) (unat (j_dr_bits_before (jtag_init demo_rbb))) @ bits_of [0x5a] 8 @
      bits_of (j_dr_bits (jtag_init demo_rbb)) (unat (j_dr_bits_after (jtag_init demo_rbb))) \<and>
    shifted_in SHIFT_IR RUN_TEST_IDLE (rbb_edges (j_cable j')) =
      shifted_in SHIFT_IR RUN_TEST_IDLE (rbb_edges (j_cable (jtag_init demo_rbb)))"
  by (rule shiftDR_bits) (use demo_jtag in \<open>auto simp: jtag_init_def\<close>)

text \<open>
  C4: \<open>Jtag::shiftIR\<close> shifts into the instruction registers the bypass instructions of the
  devices before the selected one, the instruction, and the bypass instructions of the
  devices after it; the data registers see nothing.
\<close>

theorem shiftIR_bits:
  assumes "rbb_inv (j_cable j)" and "synced rbb_edges s0 j"
    and "s0 \<notin> {SHIFT_DR, SHIFT_IR, UNKNOWN}" and "j_state j \<notin> {SHIFT_DR, SHIFT_IR}"
    and "end_state \<notin> {SHIFT_DR, SHIFT_IR, UNKNOWN}"
    and "0 < len" and "len \<le> 8 * length tx" and "\<And>b. rx = Some b \<Longrightarrow> len \<le> 8 * length b"
    and "max (unat (j_ir_bits_before j)) (unat (j_ir_bits_after j)) \<le> 8 * length (j_ir_bits j)"
  shows "\<exists>rx' j'. shiftIR rbb_ops (Some tx) rx len end_state j = Inr (rx', j') \<and>
    rbb_inv (j_cable j') \<and> synced rbb_edges s0 j' \<and> j_state j' = end_state \<and>
    shifted_in SHIFT_IR s0 (rbb_edges (j_cable j')) = shifted_in SHIFT_IR s0 (rbb_edges (j_cable j)) @
      bits_of (j_ir_bits j) (unat (j_ir_bits_before j)) @ bits_of tx len @
      bits_of (j_ir_bits j) (unat (j_ir_bits_after j)) \<and>
    shifted_in SHIFT_DR s0 (rbb_edges (j_cable j')) = shifted_in SHIFT_DR s0 (rbb_edges (j_cable j))"
  using rbb.shiftIR_ok [where rx = rx, OF assms(1-8)] assms(9) by auto

theorem shiftIR_bits_witness:
  "\<exists>rx' j'. shiftIR rbb_ops (Some [0x09]) None 8 RUN_TEST_IDLE (jtag_init demo_rbb) = Inr (rx', j') \<and>
    rbb_inv (j_cable j') \<and> synced rbb_edges RUN_TEST_IDLE j' \<and> j_state j' = RUN_TEST_IDLE \<and>
    shifted_in SHIFT_IR RUN_TEST_IDLE (rbb_edges (j_cable j')) =
      shifted_in SHIFT_IR RUN_TEST_IDLE (rbb_edges (j_cable (jtag_init demo_rbb))) @
      bits_of (j_ir_bits (jtag_init demo_rbb)) (unat (j_ir_bits_before (jtag_init demo_rbb))) @ bits_of [0x09] 8 @
      bits_of (j_ir_bits (jtag_init demo_rbb)) (unat (j_ir_bits_after (jtag_init demo_rbb))) \<and>
    shifted_in SHIFT_DR RUN_TEST_IDLE (rbb_edges (j_cable j')) =
      shifted_in SHIFT_DR RUN_TEST_IDLE (rbb_edges (j_cable (jtag_init demo_rbb)))"
  by (rule shiftIR_bits) (use demo_jtag in \<open>auto simp: jtag_init_def\<close>)

text \<open>
  \<open>Jtag::go_test_logic_reset\<close> brings object and chain into agreement whatever state
  the controllers were in.
\<close>

theorem reset_synchronises:
  assumes "rbb_inv (j_cable j)" and "jtag_wf j"
  shows "\<exists>j'. go_test_logic_reset rbb_ops j = Inr j' \<and> rbb_inv (j_cable j') \<and>
    j_state j' = TEST_LOGIC_RESET \<and> (\<forall>s0. s0 \<noteq> UNKNOWN \<longrightarrow> synced rbb_edges s0 j')"
  using rbb.go_test_logic_reset_ok [OF assms] by blast

theorem reset_synchronises_witness:
  "\<exists>j'. go_test_logic_reset rbb_ops (jtag_init demo_rbb) = Inr j' \<and> rbb_inv (j_cable j') \<and>
    j_state j' = TEST_LOGIC_RESET \<and> synced rbb_edges PAUSE_IR j'"
proof -
  have "rbb_inv (j_cable (jtag_init demo_rbb))" by (simp add: jtag_init_def demo_jtag)
  from reset_synchronises [OF this demo_jtag_wf] show ?thesis by blast
qed

text \<open>
  More than 1024 clocks in one call of \<open>RemoteBitbang_client::toggleClk\<close> write past the
  end of the transfer buffer.
\<close>

theorem rbb_toggleClk_overrun:
  assumes "rbb_core c" and "1024 < n"
  shows "rbb_toggleClk tms tdi n c = Inl Out_of_bounds"
proof -
  have "0 < n" using assms(2) by simp
  from rbb_toggleClk_buf [OF assms(1) this, of tms tdi] assms(2) show ?thesis
    by (auto simp: Let_def)
qed

theorem rbb_toggleClk_overrun_witness: "rbb_toggleClk 0 0 1025 demo_rbb = Inl Out_of_bounds"
  by (rule rbb_toggleClk_overrun) (simp_all add: demo_jtag)

text \<open>
  \<open>RemoteBitbang_client::toggleClk\<close> takes TMS as 0 or 1 and does not shift it to the TMS
  bit of the protocol, so clocking in \<open>Test-Logic-Reset\<close> keeps TMS low: the chain leaves
  the state in which the object still believes it to be.
\<close>

theorem toggleClk_loses_reset:
  assumes "rbb_inv (j_cable j)" and "synced rbb_edges s0 j" and "j_state j = TEST_LOGIC_RESET"
    and "0 < n" and "n \<le> 1024"
  shows "\<exists>j'. toggleClk rbb_ops n 0 j = Inr j' \<and> j_state j' = TEST_LOGIC_RESET \<and>
    tap_run s0 (map fst (rbb_edges (j_cable j'))) = RUN_TEST_IDLE"
proof -
  have core: "rbb_core (j_cable j)" using assms(1) by (simp add: rbb_inv_def)
  from rbb_toggleClk_buf [OF core assms(4), of 1 0] assms(5) obtain c' where
    c': "rb_buf c' = []" "rbb_edges c' = rbb_edges (j_cable j)"
    and t: "rbb_toggleClk 1 0 n (j_cable j) = Inr (int n,
        c'\<lparr>rb_last_tms := 1, rb_last_tdi := 0, rb_sent := rb_sent c' @
          concat (replicate n [48 + 1, 48 + (1 OR TCK_BIT)])\<rparr>)"
    by (auto simp: Let_def)
  let ?c = "c'\<lparr>rb_last_tms := 1, rb_last_tdi := 0, rb_sent := rb_sent c' @
    concat (replicate n [48 + 1, 48 + (1 OR TCK_BIT)])\<rparr>"
  have "rbb_edges ?c = rbb_edges (j_cable j) @ replicate n (False, True)"
    using c' rbb_decode_periods [of 1 "rbb_tck False (rb_sent c')" n]
    by (simp add: rbb_edges_def rbb_decode_append)
  moreover have "tap_run TEST_LOGIC_RESET (replicate n False) = RUN_TEST_IDLE"
  proof -
    obtain m where n: "n = Suc m" using assms(4) by (cases n) auto
    have "tap_run RUN_TEST_IDLE (replicate m False) = RUN_TEST_IDLE" by (induction m) auto
    then show ?thesis by (simp add: n)
  qed
  ultimately show ?thesis
    using assms(2,3) t by (simp add: toggleClk_def flushTMS_def synced_def rbb_ops_def)
qed

theorem toggleClk_loses_reset_witness:
  "\<exists>j'. toggleClk rbb_ops 5 0 ((jtag_init demo_rbb)\<lparr>j_state := TEST_LOGIC_RESET\<rparr>) = Inr j' \<and>
    j_state j' = TEST_LOGIC_RESET \<and> tap_run TEST_LOGIC_RESET (map fst (rbb_edges (j_cable j'))) = RUN_TEST_IDLE"
  by (rule toggleClk_loses_reset) (use demo_jtag in \<open>auto simp: jtag_init_def\<close>)

end
