(* ===== verification/Usb_Blaster.thy ===== *)
theory Usb_Blaster
  imports Jtag_Chain
begin

unbundle bit_operations_syntax

section \<open>The USB-Blaster cable\<close>

text \<open>
  \<open>usbBlaster.cpp\<close>: a \<open>JtagInterface\<close> over the byte protocol of the Altera USB-Blaster, with
  bytes that set the pins and bytes that announce a burst to be shifted.  The low level
  drivers (\<open>UsbBlasterI\<close>, \<open>UsbBlasterII\<close>) stand over libftdi and the FX2 firmware, which are
  parameters.  \<open>ub_edges\<close> decodes the bytes by the rules of the protocol, and the interpretation
  of \<open>jtag_cable\<close> shows that the edges are the ones \<open>Jtag\<close> asks for.
\<close>

abbreviation ub_tck_pin :: u8 where "ub_tck_pin \<equiv> 0x01"
abbreviation ub_tms_pin :: u8 where "ub_tms_pin \<equiv> 0x02"
abbreviation ub_tdi_pin :: u8 where "ub_tdi_pin \<equiv> 0x10"
abbreviation DO_RDWR :: u8 where "DO_RDWR \<equiv> 0x40"
abbreviation DO_WRITE :: u8 where "DO_WRITE \<equiv> 0"
abbreviation DO_SHIFT :: u8 where "DO_SHIFT \<equiv> 0x80"
abbreviation DEFAULT_PINS :: u8 where "DEFAULT_PINS \<equiv> 0x2c"

text \<open>
  \<open>ub_buf\<close> is the part of \<open>_in_buf\<close> below \<open>_nb_bit\<close>, \<open>ub_sent\<close> what has been handed to the
  driver; \<open>ub_ll\<close> is the driver: its result and the bytes it has read, as a function of what
  was sent before, the bytes to send and the number to read.
\<close>

record ub =
  ub_buf :: bytes
  ub_curr_tms :: u8
  ub_sent :: bytes
  ub_ll :: "bytes \<Rightarrow> bytes \<Rightarrow> nat option \<Rightarrow> int \<times> bytes"

subsection \<open>Construction\<close>

text \<open>
  The constructor, in a build with both drivers.  For the original cable it clocks the adapter
  2048 times with TMS high.
\<close>

definition ub_open :: "u16 \<Rightarrow> (bytes \<Rightarrow> bytes \<Rightarrow> nat option \<Rightarrow> int \<times> bytes) \<Rightarrow> ub res" where
  "ub_open pid ll =
     (if pid \<notin> {0x6001, 0x6002, 0x6003, 0x6810, 0x6010} then Inl (Runtime_error ''usb-blaster: unknown VID/PID'')
      else
        let val = DEFAULT_PINS OR DO_WRITE OR ub_tms_pin;
            wake = (if pid = 0x6001 then concat (replicate 2048 [val, val OR ub_tck_pin]) else [])
        in Inr \<lparr>ub_buf = [], ub_curr_tms = 0, ub_sent = wake, ub_ll = ll\<rparr>)"

subsection \<open>The low level drivers\<close>

text \<open>
  \<open>UsbBlasterI::write\<close> and \<open>UsbBlasterII::write\<close>: \<open>written\<close> is the result of the transfer,
  \<open>reads\<close> what the successive reads return (nothing after the end of the list).  The counter
  of the bytes read has 8 bits.
\<close>

definition put_at :: "nat \<Rightarrow> bytes \<Rightarrow> bytes \<Rightarrow> bytes" where
  "put_at pos bs xs = take pos xs @ bs @ drop (pos + length bs) xs"

fun ll_read_loop :: "nat \<Rightarrow> nat \<Rightarrow> u8 \<Rightarrow> bytes \<Rightarrow> int \<Rightarrow> (int \<times> bytes) list \<Rightarrow> int \<times> bytes" where
  "ll_read_loop 0 rd_len byte_read buf ret reads = (0, buf)"
| "ll_read_loop (Suc timeout) rd_len byte_read buf ret reads =
     (if unat byte_read \<ge> rd_len then (ret, buf)
      else case reads of
        [] \<Rightarrow> ll_read_loop timeout rd_len byte_read buf 0 []
      | (r, bs) # reads \<Rightarrow>
          if r < 0 then (r, buf)
          else ll_read_loop timeout rd_len (byte_read + of_int r) (put_at (unat byte_read) bs buf) r reads)"

definition ll_write_I :: "int \<Rightarrow> nat \<Rightarrow> nat option \<Rightarrow> (int \<times> bytes) list \<Rightarrow> int \<times> bytes" where
  "ll_write_I written wr_len rd_len reads =
     (if written \<noteq> int wr_len then (written, [])
      else case rd_len of None \<Rightarrow> (written, []) | Some n \<Rightarrow> ll_read_loop 100 n 0 [] written reads)"

text \<open>The second driver asks for the data with one more byte, whose transfer gives \<open>asked\<close>.\<close>

definition ll_write_II :: "int \<Rightarrow> int \<Rightarrow> nat \<Rightarrow> nat option \<Rightarrow> (int \<times> bytes) list \<Rightarrow> int \<times> bytes" where
  "ll_write_II written asked wr_len rd_len reads =
     (if written \<noteq> int wr_len then (written, [])
      else case rd_len of
        None \<Rightarrow> (written, [])
      | Some n \<Rightarrow> if asked \<noteq> 1 then (asked, []) else ll_read_loop 100 n 0 [] asked reads)"

subsection \<open>The buffer\<close>

definition ub_push :: "u8 \<Rightarrow> ub \<Rightarrow> ub res" where
  "ub_push v c = (if length (ub_buf c) < 64 then Inr (c\<lparr>ub_buf := ub_buf c @ [v]\<rparr>) else Inl Out_of_bounds)"

fun ub_pushes :: "bytes \<Rightarrow> ub \<Rightarrow> ub res" where
  "ub_pushes [] c = Inr c"
| "ub_pushes (v # vs) c = bindE (ub_push v c) (ub_pushes vs)"

text \<open>
  \<open>UsbBlaster::write\<close>: the bytes read replace the beginning of the buffer, of which \<open>rd_len\<close>
  bytes are handed on.
\<close>

definition ub_write :: "bool \<Rightarrow> nat \<Rightarrow> ub \<Rightarrow> int \<times> bytes \<times> ub" where
  "ub_write rd rd_len c =
     (if ub_buf c = [] then (0, [], c)
      else case ub_ll c (ub_sent c) (ub_buf c) (if rd then Some rd_len else None) of
        (ret, got) \<Rightarrow> (ret, take rd_len (got @ drop (length got) (ub_buf c)),
           c\<lparr>ub_sent := ub_sent c @ ub_buf c, ub_buf := []\<rparr>))"

definition ub_flush :: "ub \<Rightarrow> int \<times> ub" where
  "ub_flush c = (case ub_write False 0 c of (ret, _, c) \<Rightarrow> (ret, c))"

text \<open>A receive buffer comes with the position of \<open>rx_ptr\<close> in it.\<close>

definition writeByte :: "(bytes \<times> nat) option \<Rightarrow> nat \<Rightarrow> ub \<Rightarrow> (int \<times> (bytes \<times> nat) option \<times> ub) res" where
  "writeByte tdo nb_byte c =
     (case ub_write (tdo \<noteq> None) nb_byte c of (ret, got, c) \<Rightarrow>
        (case tdo of
           None \<Rightarrow> Inr (ret, None, c)
         | Some (buf, pos) \<Rightarrow>
             if ret > 0 then
               if pos + nb_byte \<le> length buf then Inr (ret, Some (put_at pos got buf, pos), c) else Inl Out_of_bounds
             else Inr (ret, Some (buf, pos), c)))"

text \<open>\<open>tdo >> 1 | (in & 1 ? 0x80 : 0)\<close>, for at most 8 bits.\<close>

definition shift_in :: "u8 \<Rightarrow> u8 \<Rightarrow> u8" where
  "shift_in t b = (if bit b 0 then 0x80 else 0) OR drop_bit 1 t"

definition writeBit :: "(bytes \<times> nat) option \<Rightarrow> nat \<Rightarrow> ub \<Rightarrow> (int \<times> (bytes \<times> nat) option \<times> ub) res" where
  "writeBit tdo nb_bit c =
     (case ub_write (tdo \<noteq> None) nb_bit c of (ret, got, c) \<Rightarrow>
        (case tdo of
           None \<Rightarrow> Inr (ret, None, c)
         | Some (buf, pos) \<Rightarrow>
             if ret > 0 \<and> nb_bit \<noteq> 0 then
               if pos < length buf then Inr (ret, Some (buf[pos := foldl shift_in (buf ! pos) got], pos), c)
               else Inl Out_of_bounds
             else Inr (ret, Some (buf, pos), c)))"

subsection \<open>TMS\<close>

fun ub_tms_loop :: "bytes \<Rightarrow> nat \<Rightarrow> nat \<Rightarrow> ub \<Rightarrow> (int option \<times> ub) res" where
  "ub_tms_loop tms i 0 c = Inr (None, c)"
| "ub_tms_loop tms i (Suc n) c =
     (let c = c\<lparr>ub_curr_tms := (if nth_bit tms i then ub_tms_pin else 0)\<rparr>;
          val = DEFAULT_PINS OR DO_WRITE OR ub_tdi_pin OR ub_curr_tms c in
      bindE (ub_pushes [val, val OR ub_tck_pin] c) (\<lambda>c.
        if length (ub_buf c) + 2 > 64 then
          case ub_flush c of (ret, c) \<Rightarrow>
            if ret < 0 then Inr (Some ret, c) else ub_tms_loop tms (i + 1) n c
        else ub_tms_loop tms (i + 1) n c))"

definition ub_writeTMS :: "bytes \<Rightarrow> nat \<Rightarrow> bool \<Rightarrow> u8 \<Rightarrow> ub \<Rightarrow> (int \<times> ub) res" where
  "ub_writeTMS tms len flush_buffer tdi c =
     (if len = 0 then (if flush_buffer then Inr (ub_flush c) else Inr (0, c))
      else
        let (early, c) = (if length (ub_buf c) + 2 > 64 then
            case ub_flush c of (ret, c) \<Rightarrow> (if ret < 0 then Some ret else None, c) else (None, c)) in
        case early of
          Some ret \<Rightarrow> Inr (ret, c)
        | None \<Rightarrow>
            bindE (ub_tms_loop tms 0 len c) (\<lambda>(early, c).
              case early of
                Some ret \<Rightarrow> Inr (ret, c)
              | None \<Rightarrow>
                  bindE (ub_push (DEFAULT_PINS OR DO_WRITE OR ub_curr_tms c) c) (\<lambda>c.
                    if flush_buffer then
                      case ub_flush c of (ret, c) \<Rightarrow> Inr (if ret < 0 then ret else int len, c)
                    else Inr (int len, c))))"

subsection \<open>TDI\<close>

text \<open>
  The burst loop; \<open>tx\<close> is what is left behind \<open>tx_ptr\<close>.  A result \<open>False\<close> is the return with
  \<open>-EXIT_FAILURE\<close>.  \<open>fits\<close> is the test for room in front of a burst.
\<close>

definition burst :: "nat \<Rightarrow> nat" where
  "burst nb_byte = min nb_byte 63"

definition ub_send :: "(bytes \<times> nat) option \<Rightarrow> ub \<Rightarrow> (bool \<times> (bytes \<times> nat) option \<times> ub) res" where
  "ub_send rx c =
     (let num_read = length (ub_buf c) - 1 in
      bindE (writeByte rx num_read c) (\<lambda>(ret, rx, c).
        Inr (\<not> ret < 0, map_option (\<lambda>(b, p). (b, if ret < 0 then p else p + num_read)) rx, c)))"

function ub_byte_loop :: "u8 \<Rightarrow> bytes option \<Rightarrow> (bytes \<times> nat) option \<Rightarrow> nat \<Rightarrow> ub
    \<Rightarrow> (bool \<times> bytes option \<times> (bytes \<times> nat) option \<times> ub) res" where
  "ub_byte_loop mode tx rx nb_byte c =
     (if nb_byte = 0 then Inr (True, tx, rx, c)
      else
        let tx_len = burst nb_byte in
        bindE (if length (ub_buf c) + tx_len + 1 > 64 then ub_send rx c else Inr (True, rx, c)) (\<lambda>(ok, rx, c).
          if \<not> ok then Inr (False, tx, rx, c)
          else if (case tx of None \<Rightarrow> False | Some t \<Rightarrow> length t < tx_len) then Inl Out_of_bounds
          else
            bindE (ub_pushes ((DO_SHIFT OR mode OR (of_nat tx_len AND 0x3f)) #
                (case tx of None \<Rightarrow> replicate tx_len 0 | Some t \<Rightarrow> take tx_len t)) c) (\<lambda>c.
              ub_byte_loop mode (map_option (drop tx_len) tx) rx (nb_byte - tx_len) c)))"
  by pat_completeness auto
termination
  by (relation "measure (\<lambda>(mode, tx, rx, nb, c). nb)") (auto simp: burst_def)

declare ub_byte_loop.simps [simp del]

text \<open>The bytes for \<open>nb_bit\<close> single bits of \<open>*tx_ptr\<close>.\<close>

definition bit_bytes :: "u8 \<Rightarrow> u8 option \<Rightarrow> nat \<Rightarrow> bytes" where
  "bit_bytes mode t nb_bit = concat (map (\<lambda>i.
     let val = (case t of Some b \<Rightarrow> if bit b i then ub_tdi_pin else 0 | None \<Rightarrow> 0) in
     [DEFAULT_PINS OR val, DEFAULT_PINS OR mode OR val OR ub_tck_pin]) [0..<nb_bit])"

text \<open>\<open>*tx_ptr\<close>, read only where the source reads it.\<close>

definition tx_head :: "bytes option \<Rightarrow> u8 option res" where
  "tx_head tx = (case tx of None \<Rightarrow> Inr None | Some [] \<Rightarrow> Inl Out_of_bounds | Some (b # bs) \<Rightarrow> Inr (Some b))"

text \<open>\<open>*rx_ptr = f(*rx_ptr)\<close>\<close>

definition rx_update :: "(u8 \<Rightarrow> u8) \<Rightarrow> (bytes \<times> nat) option \<Rightarrow> (bytes \<times> nat) option res" where
  "rx_update f rx = (case rx of
     None \<Rightarrow> Inr None
   | Some (buf, pos) \<Rightarrow>
       if pos < length buf then Inr (Some (buf[pos := f (buf ! pos)], pos)) else Inl Out_of_bounds)"

text \<open>
  The single bits.  The buffer is empty here, since the bursts have been sent, so the flush in
  front of them in the source is never taken.
\<close>

definition ub_bits :: "u8 \<Rightarrow> bytes option \<Rightarrow> (bytes \<times> nat) option \<Rightarrow> nat \<Rightarrow> ub
    \<Rightarrow> (bool \<times> (bytes \<times> nat) option \<times> ub) res" where
  "ub_bits mode tx rx nb_bit c =
     (if nb_bit = 0 then Inr (True, rx, c)
      else
        bindE (tx_head tx) (\<lambda>t.
        bindE (ub_pushes (bit_bytes mode t nb_bit) c) (\<lambda>c.
        bindE (writeBit rx (length (ub_buf c) div 2) c) (\<lambda>(ret, rx, c).
          if ret < 0 then Inr (False, rx, c)
          else bindE (rx_update (drop_bit (8 - nb_bit)) rx) (\<lambda>rx. Inr (True, rx, c))))))"

text \<open>The last bit, with TMS high.\<close>

definition ub_last :: "u8 \<Rightarrow> bytes option \<Rightarrow> (bytes \<times> nat) option \<Rightarrow> nat \<Rightarrow> ub
    \<Rightarrow> (bool \<times> (bytes \<times> nat) option \<times> ub) res" where
  "ub_last mode tx rx nb_bit c =
     bindE (tx_head tx) (\<lambda>t.
     let c = c\<lparr>ub_curr_tms := ub_tms_pin\<rparr>;
         pins = DEFAULT_PINS OR ub_tms_pin OR (if t \<noteq> None \<and> bit (the t) nb_bit then ub_tdi_pin else 0) in
     bindE (ub_pushes [pins, pins OR mode OR ub_tck_pin] c) (\<lambda>c.
     bindE (writeBit (if rx = None then None else Some ([0], 0)) 1 c) (\<lambda>(ret, tmp, c).
       if ret < 0 then Inr (False, rx, c)
       else
         bindE (rx_update (\<lambda>b. b OR drop_bit (7 - nb_bit) (fst (the tmp) ! 0 AND 0x80)) rx) (\<lambda>rx.
         bindE (ub_push pins c) (\<lambda>c.
         bindE (writeBit None 0 c) (\<lambda>(ret, _, c). Inr (\<not> ret < 0, rx, c)))))))"

definition ub_writeTDI :: "bytes option \<Rightarrow> bytes option \<Rightarrow> nat \<Rightarrow> bool \<Rightarrow> ub
    \<Rightarrow> (int \<times> bytes option \<times> ub) res" where
  "ub_writeTDI tx rx len end_bit c =
     (if end_bit \<and> len = 0 then Inl Out_of_bounds
      else
        let real_len = (if end_bit then len - 1 else len);
            nb_byte = real_len div 8; nb_bit = real_len mod 8;
            mode = (if rx \<noteq> None then DO_RDWR else DO_WRITE);
            rx = map_option (\<lambda>b. (b, 0)) rx;
            fail = (\<lambda>rx c. Inr (-1, map_option fst rx, c)) in
        bindE (ub_push (DEFAULT_PINS OR DO_WRITE OR ub_curr_tms c) c) (\<lambda>c.
        let c = snd (ub_flush c) in
        bindE (if ub_curr_tms c = 0 \<and> nb_byte \<noteq> 0 then
                 bindE (ub_byte_loop mode tx rx nb_byte c) (\<lambda>(ok, tx, rx, c).
                   if ok \<and> ub_buf c \<noteq> [] then
                     bindE (ub_send rx c) (\<lambda>(ok, rx, c). Inr (ok, tx, rx, c))
                   else Inr (ok, tx, rx, c))
               else Inr (True, tx, rx, c)) (\<lambda>(ok, tx, rx, c).
          if \<not> ok then fail rx c
          else bindE (ub_bits mode tx rx nb_bit c) (\<lambda>(ok, rx, c).
            if \<not> ok then fail rx c
            else if end_bit then
              bindE (ub_last mode tx rx nb_bit c) (\<lambda>(ok, rx, c).
                if \<not> ok then fail rx c else Inr (int len, map_option fst rx, c))
            else Inr (int len, map_option fst rx, c)))))"

subsection \<open>Clocks\<close>

function ub_clk_bytes :: "u8 \<Rightarrow> nat \<Rightarrow> ub \<Rightarrow> (bool \<times> nat \<times> ub) res" where
  "ub_clk_bytes content xfer_len c =
     (if xfer_len < 8 then Inr (True, xfer_len, c)
      else
        let tx_len = burst (xfer_len div 8);
            (ret, c) = (if length (ub_buf c) + tx_len + 1 > 64 then ub_flush c else (0, c)) in
        if ret < 0 then Inr (False, xfer_len, c)
        else bindE (ub_pushes ((DO_SHIFT OR DO_WRITE OR of_nat tx_len) # replicate tx_len content) c) (\<lambda>c.
          ub_clk_bytes content (xfer_len - 8 * tx_len) c))"
  by pat_completeness auto
termination
  by (relation "measure (\<lambda>(content, n, c). n)") (auto simp: burst_def min_def)

declare ub_clk_bytes.simps [simp del]

fun ub_clk_bits :: "u8 \<Rightarrow> nat \<Rightarrow> ub \<Rightarrow> (bool \<times> ub) res" where
  "ub_clk_bits pins 0 c = Inr (True, c)"
| "ub_clk_bits pins (Suc n) c =
     (let (ret, c) = (if length (ub_buf c) + 2 > 64 then ub_flush c else (0, c)) in
      if ret < 0 then Inr (False, c)
      else bindE (ub_pushes [pins, pins OR ub_tck_pin] c) (ub_clk_bits pins n))"

definition ub_make_room :: "ub \<Rightarrow> ub" where
  "ub_make_room c = (if length (ub_buf c) = 64 then snd (ub_flush c) else c)"

definition ub_toggleClk :: "u8 \<Rightarrow> u8 \<Rightarrow> nat \<Rightarrow> ub \<Rightarrow> (int \<times> ub) res" where
  "ub_toggleClk tms tdi clk_len c =
     bindE (if tms = 0 \<and> clk_len \<ge> 8 then
              bindE (ub_push (DEFAULT_PINS OR DO_WRITE) (ub_make_room c)) (\<lambda>c.
                ub_clk_bytes (if tdi \<noteq> 0 then 0xff else 0) clk_len (snd (ub_flush c)))
            else Inr (True, clk_len, c)) (\<lambda>(ok, xfer_len, c).
       if \<not> ok then Inr (-1, c)
       else
         let pins = DEFAULT_PINS OR DO_WRITE OR (if tms \<noteq> 0 then ub_tms_pin else 0) OR
                    (if tdi \<noteq> 0 then ub_tdi_pin else 0) in
         bindE (ub_clk_bits pins xfer_len c) (\<lambda>(ok, c).
           if \<not> ok then Inr (-1, c)
           else bindE (ub_push pins (ub_make_room c)) (\<lambda>c. Inr (int clk_len, snd (ub_flush c)))))"

text \<open>The destructor sends a last byte that sets all pins low.\<close>

definition ub_close :: "ub \<Rightarrow> ub res" where
  "ub_close c = bindE (ub_push 0 c) (\<lambda>c. Inr (snd (ub_flush c)))"

definition ub_ops :: "ub jtag_ops" where
  "ub_ops = \<lparr>writeTMS = ub_writeTMS, writeTDI = ub_writeTDI, toggleClk_ll = ub_toggleClk,
     flush_ll = (\<lambda>c. Inr (ub_flush c))\<rparr>"

subsection \<open>The adapter's view of the bytes\<close>

text \<open>
  The levels of TCK and TMS and the number of bytes of a burst that are still to come.  A byte
  with bit 7 announces a burst, whose bits are clocked out with TMS as it is; another
  byte sets the pins, and a controller samples TMS and TDI when TCK rises.
\<close>

record ub_pins =
  p_tck :: bool
  p_tms :: bool
  p_left :: nat

definition pin_step :: "ub_pins \<Rightarrow> u8 \<Rightarrow> ub_pins" where
  "pin_step p b =
     (if p_left p > 0 then p\<lparr>p_left := p_left p - 1\<rparr>
      else if bit b 7 then p\<lparr>p_left := unat (b AND 0x3f)\<rparr>
      else \<lparr>p_tck = bit b 0, p_tms = bit b 1, p_left = 0\<rparr>)"

definition pin_edges :: "ub_pins \<Rightarrow> u8 \<Rightarrow> edge list" where
  "pin_edges p b =
     (if p_left p > 0 then map (\<lambda>i. (p_tms p, bit b i)) [0..<8]
      else if bit b 7 then []
      else if bit b 0 \<and> \<not> p_tck p then [(bit b 1, bit b 4)] else [])"

fun ub_decode :: "ub_pins \<Rightarrow> bytes \<Rightarrow> edge list" where
  "ub_decode p [] = []"
| "ub_decode p (b # bs) = pin_edges p b @ ub_decode (pin_step p b) bs"

definition pins0 :: ub_pins where
  "pins0 = \<lparr>p_tck = False, p_tms = False, p_left = 0\<rparr>"

definition ub_stream :: "ub \<Rightarrow> bytes" where
  "ub_stream c = ub_sent c @ ub_buf c"

definition ub_edges :: "ub \<Rightarrow> edge list" where
  "ub_edges c = ub_decode pins0 (ub_stream c)"

definition ub_pin_state :: "ub \<Rightarrow> ub_pins" where
  "ub_pin_state c = foldl pin_step pins0 (ub_stream c)"

lemma ub_decode_append: "ub_decode p (xs @ ys) = ub_decode p xs @ ub_decode (foldl pin_step p xs) ys"
  by (induction xs arbitrary: p) auto

text \<open>One clock period.\<close>

lemma decode_period:
  assumes "p_left p = 0" "\<not> bit v 7" "\<not> bit v 0" "\<not> bit w 7" "bit w 0" "bit w 1 = bit v 1" "bit w 4 = bit v 4"
  shows "ub_decode p [v, w] = [(bit v 1, bit v 4)]"
    and "foldl pin_step p [v, w] = \<lparr>p_tck = True, p_tms = bit v 1, p_left = 0\<rparr>"
  using assms by (auto simp: pin_edges_def pin_step_def)

lemma decode_burst_data:
  "p_left p = length bs \<Longrightarrow> ub_decode p bs = map (\<lambda>i. (p_tms p, nth_bit bs i)) [0..<8 * length bs]"
proof (induction bs arbitrary: p)
  case (Cons b bs)
  let ?p = "p\<lparr>p_left := length bs\<rparr>"
  let ?e = "\<lambda>i. (p_tms p, nth_bit (b # bs) i)"
  have h: "map ?e [0..<8] = map (\<lambda>i. (p_tms p, bit b i)) [0..<8]" by (simp add: nth_bit_def)
  have t: "map ?e [8..<8 * length (b # bs)] = map (\<lambda>i. (p_tms p, nth_bit bs i)) [0..<8 * length bs]"
  proof (intro nth_equalityI)
    fix i assume "i < length (map ?e [8..<8 * length (b # bs)])"
    moreover have "(8 + i) div 8 = Suc (i div 8)" by simp
    ultimately show "map ?e [8..<8 * length (b # bs)] ! i = map (\<lambda>i. (p_tms p, nth_bit bs i)) [0..<8 * length bs] ! i"
      by (simp add: nth_bit_def)
  qed simp
  have "map ?e [0..<8 * length (b # bs)] = map ?e [0..<8] @ map ?e [8..<8 * length (b # bs)]"
    using upt_add_eq_append [of 0 8 "8 * length bs"] by (simp flip: map_append)
  moreover have "pin_step p b = ?p" using Cons.prems by (simp add: pin_step_def)
  ultimately show ?case using Cons.prems Cons.IH [of ?p] h t by (simp add: pin_edges_def)
qed simp

lemma pins_burst_data: "p_left p = length bs \<Longrightarrow> foldl pin_step p bs = p\<lparr>p_left := 0\<rparr>"
  by (induction bs arbitrary: p) (simp_all add: pin_step_def)

lemma shift_header:
  assumes "0 < n" "n \<le> 63" "m \<in> {DO_RDWR, DO_WRITE}"
  shows "bit (DO_SHIFT OR m OR (of_nat n AND 0x3f)) 7" "unat ((DO_SHIFT OR m OR (of_nat n AND 0x3f)) AND 0x3f) = n"
proof -
  have 1: "(DO_SHIFT OR m OR (of_nat n AND 0x3f)) AND 0x3f = (of_nat n :: u8) AND 0x3f"
    using assms(3) by (auto simp: bit.conj_disj_distrib2 and.assoc)
  have "(of_nat n :: u8) AND 0x3f = take_bit 6 (of_nat n)" by (simp add: take_bit_eq_mask mask_eq_exp_minus_1)
  moreover have "unat (take_bit 6 (of_nat n :: u8)) = n"
    using assms(2) by (simp add: unsigned_take_bit_eq unat_of_nat take_bit_nat_eq_self)
  ultimately show "unat ((DO_SHIFT OR m OR (of_nat n AND 0x3f)) AND 0x3f) = n" using 1 by simp
  show "bit (DO_SHIFT OR m OR (of_nat n AND 0x3f)) 7" using assms(3) by (auto simp: bit_simps)
qed

lemma decode_burst:
  assumes "0 < length bs" "length bs \<le> 63" "m \<in> {DO_RDWR, DO_WRITE}" "p_left p = 0"
  shows "ub_decode p ((DO_SHIFT OR m OR (of_nat (length bs) AND 0x3f)) # bs) =
      map (\<lambda>i. (p_tms p, nth_bit bs i)) [0..<8 * length bs]"
    and "foldl pin_step p ((DO_SHIFT OR m OR (of_nat (length bs) AND 0x3f)) # bs) = p"
  using shift_header [OF assms(1-3)] assms(4) decode_burst_data [of "p\<lparr>p_left := length bs\<rparr>" bs]
    pins_burst_data [of "p\<lparr>p_left := length bs\<rparr>" bs]
  by (simp_all add: pin_edges_def pin_step_def)

subsection \<open>The contract of the cable\<close>

definition ub_idle :: "ub \<Rightarrow> bool" where
  "ub_idle c \<longleftrightarrow> (\<forall>h b r. fst (ub_ll c h b r) > 0) \<and> p_left (ub_pin_state c) = 0 \<and> ub_curr_tms c \<in> {0, ub_tms_pin}"

definition ub_inv :: "ub \<Rightarrow> bool" where
  "ub_inv c \<longleftrightarrow> ub_idle c \<and> length (ub_buf c) \<le> 63 \<and>
     (ub_edges c \<noteq> [] \<longrightarrow> fst (last (ub_edges c)) = (ub_curr_tms c \<noteq> 0))"

text \<open>The state after everything pending has been handed to the driver, and after more bytes.\<close>

definition flushed :: "ub \<Rightarrow> ub" where
  "flushed c = c\<lparr>ub_sent := ub_stream c, ub_buf := []\<rparr>"

definition queued :: "bytes \<Rightarrow> ub \<Rightarrow> ub" where
  "queued vs c = c\<lparr>ub_buf := ub_buf c @ vs\<rparr>"

lemma flushed_simps [simp]:
  "ub_buf (flushed c) = []" "ub_curr_tms (flushed c) = ub_curr_tms c" "ub_edges (flushed c) = ub_edges c"
  "ub_pin_state (flushed c) = ub_pin_state c" "ub_idle (flushed c) = ub_idle c" "ub_ll (flushed c) = ub_ll c"
  by (simp_all add: flushed_def ub_edges_def ub_pin_state_def ub_stream_def ub_idle_def)

lemma queued_simps [simp]:
  "ub_buf (queued vs c) = ub_buf c @ vs" "ub_curr_tms (queued vs c) = ub_curr_tms c" "ub_ll (queued vs c) = ub_ll c"
  "ub_edges (queued vs c) = ub_edges c @ ub_decode (ub_pin_state c) vs"
  "ub_pin_state (queued vs c) = foldl pin_step (ub_pin_state c) vs"
  by (simp_all add: queued_def ub_edges_def ub_pin_state_def ub_stream_def ub_decode_append flip: append_assoc)

lemma curr_tms_simps [simp]:
  "ub_edges (c\<lparr>ub_curr_tms := t\<rparr>) = ub_edges c" "ub_pin_state (c\<lparr>ub_curr_tms := t\<rparr>) = ub_pin_state c"
  by (simp_all add: ub_edges_def ub_pin_state_def ub_stream_def)

lemma ub_write_eq:
  assumes "ub_idle c" "ub_buf c \<noteq> []"
  shows "\<exists>ret got. ub_write rd n c = (ret, got, flushed c) \<and> ret > 0 \<and> (n \<le> length (ub_buf c) \<longrightarrow> length got = n)"
proof -
  obtain r g where rg: "ub_ll c (ub_sent c) (ub_buf c) (if rd then Some n else None) = (r, g)" by fastforce
  then have "r > 0" using assms(1) unfolding ub_idle_def by (metis fst_conv)
  then show ?thesis using rg assms(2) by (auto simp: ub_write_def flushed_def ub_stream_def)
qed

lemma ub_flush_eq:
  assumes "ub_idle c"
  shows "\<exists>ret. ub_flush c = (ret, flushed c) \<and> ret \<ge> 0"
proof (cases "ub_buf c = []")
  case True
  then have "flushed c = c" by (cases c) (simp add: flushed_def ub_stream_def)
  then show ?thesis using True by (simp add: ub_flush_def ub_write_def)
next
  case False
  then show ?thesis using ub_write_eq [OF assms False, of False 0] by (auto simp: ub_flush_def)
qed

lemma ub_push_eq: "length (ub_buf c) < 64 \<Longrightarrow> ub_push v c = Inr (queued [v] c)"
  by (simp add: ub_push_def queued_def)

lemma queued_queued: "queued ws (queued vs c) = queued (vs @ ws) c"
  by (simp add: queued_def)

lemma ub_pushes_eq: "length (ub_buf c) + length vs \<le> 64 \<Longrightarrow> ub_pushes vs c = Inr (queued vs c)"
proof (induction vs arbitrary: c)
  case Nil
  then show ?case by (cases c) (simp add: queued_def)
next
  case (Cons v vs)
  then show ?case by (simp add: ub_push_eq queued_queued)
qed

text \<open>The bytes of one clock period and a byte that only sets the pins.\<close>

lemma period_pins:
  assumes "t \<in> {0, ub_tms_pin}" "d \<in> {0, ub_tdi_pin}" "m \<in> {0, DO_RDWR}" "p_left p = 0"
  shows "ub_decode p [DEFAULT_PINS OR t OR d, DEFAULT_PINS OR m OR t OR d OR ub_tck_pin] = [(t \<noteq> 0, d \<noteq> 0)]"
    and "foldl pin_step p [DEFAULT_PINS OR t OR d, DEFAULT_PINS OR m OR t OR d OR ub_tck_pin] =
      \<lparr>p_tck = True, p_tms = (t \<noteq> 0), p_left = 0\<rparr>"
  using assms by (auto simp: pin_edges_def pin_step_def)

lemma rest_pins:
  assumes "t \<in> {0, ub_tms_pin}" "d \<in> {0, ub_tdi_pin}" "p_left p = 0"
  shows "ub_decode p [DEFAULT_PINS OR t OR d] = []"
    and "foldl pin_step p [DEFAULT_PINS OR t OR d] = \<lparr>p_tck = False, p_tms = (t \<noteq> 0), p_left = 0\<rparr>"
  using assms by (auto simp: pin_edges_def pin_step_def)

lemma ub_tms_loop_ok:
  assumes "ub_idle c" "length (ub_buf c) \<le> 62"
  shows "\<exists>c' new. ub_tms_loop tms i n c = Inr (None, c') \<and> ub_idle c' \<and> length (ub_buf c') \<le> 62 \<and>
     ub_edges c' = ub_edges c @ new \<and> map fst new = map (nth_bit tms) [i..<i + n] \<and>
     ub_curr_tms c' = (if n = 0 then ub_curr_tms c else if nth_bit tms (i + n - 1) then ub_tms_pin else 0)"
  using assms
proof (induction n arbitrary: c i)
  case (Suc n)
  let ?t = "if nth_bit tms i then ub_tms_pin else 0 :: u8"
  let ?c = "c\<lparr>ub_curr_tms := ?t\<rparr>"
  let ?v = "DEFAULT_PINS OR ?t OR ub_tdi_pin"
  let ?w = "DEFAULT_PINS OR 0 OR ?t OR ub_tdi_pin OR ub_tck_pin"
  let ?c1 = "queued [?v, ?w] ?c"
  have idle: "ub_idle ?c" using Suc.prems(1) by (simp add: ub_idle_def)
  have p: "p_left (ub_pin_state c) = 0" using Suc.prems(1) by (simp add: ub_idle_def)
  note per = period_pins [of ?t ub_tdi_pin 0 "ub_pin_state c", OF _ _ _ p]
  have c1: "ub_idle ?c1" using idle per(2) by (simp add: ub_idle_def)
  have e1: "ub_edges ?c1 = ub_edges c @ [(nth_bit tms i, True)]" using per(1) by simp
  have push: "ub_pushes [DEFAULT_PINS OR DO_WRITE OR ub_tdi_pin OR ub_curr_tms ?c,
      (DEFAULT_PINS OR DO_WRITE OR ub_tdi_pin OR ub_curr_tms ?c) OR ub_tck_pin] ?c = Inr ?c1"
    by (rule trans [OF _ ub_pushes_eq [of ?c "[?v, ?w]"]]) (use Suc.prems(2) in \<open>auto simp: or.left_commute or.commute\<close>)
  obtain ret where fl: "ub_flush ?c1 = (ret, flushed ?c1)" "ret \<ge> 0" using ub_flush_eq [OF c1] by blast
  define c2 where "c2 = (if length (ub_buf ?c1) + 2 > 64 then flushed ?c1 else ?c1)"
  have c2: "ub_idle c2" "length (ub_buf c2) \<le> 62" "ub_edges c2 = ub_edges ?c1" "ub_curr_tms c2 = ?t"
    using c1 by (auto simp: c2_def)
  have step: "ub_tms_loop tms i (Suc n) c = ub_tms_loop tms (i + 1) n c2"
    unfolding ub_tms_loop.simps Let_def push bindE.simps c2_def using fl by simp
  from Suc.IH [OF c2(1,2), of "i + 1"] obtain c' new where
    r: "ub_tms_loop tms (i + 1) n c2 = Inr (None, c')" "ub_idle c'" "length (ub_buf c') \<le> 62"
      "ub_edges c' = ub_edges c2 @ new" "map fst new = map (nth_bit tms) [i + 1..<i + 1 + n]"
      "ub_curr_tms c' = (if n = 0 then ub_curr_tms c2 else if nth_bit tms (i + 1 + n - 1) then ub_tms_pin else 0)" by blast
  have "ub_edges c' = ub_edges c @ (nth_bit tms i, True) # new" using r(4) c2(3) e1 by simp
  moreover have "map fst ((nth_bit tms i, True) # new) = map (nth_bit tms) [i..<i + Suc n]"
    using r(5) by (simp add: upt_rec [of i])
  moreover have "ub_curr_tms c' = (if nth_bit tms (i + Suc n - 1) then ub_tms_pin else 0)"
    using r(6) c2(4) by (cases n) simp_all
  ultimately show ?case using step r(1-3)
    by (intro exI [of _ c'] exI [of _ "(nth_bit tms i, True) # new"]) simp
qed simp

lemma ub_inv_after:
  assumes "ub_idle c'" "length (ub_buf c') \<le> 63" "ub_curr_tms c' = (if b then ub_tms_pin else 0)"
    and "ub_edges c' = es @ new" "new \<noteq> []" "fst (last new) = b"
  shows "ub_inv c'"
  using assms by (auto simp: ub_inv_def)

lemma ub_flush_ok:
  assumes "ub_inv c"
  shows "\<exists>ret c'. ub_flush c = (ret, c') \<and> ret \<ge> 0 \<and> ub_inv c' \<and> ub_edges c' = ub_edges c"
proof -
  have "ub_idle c" using assms by (simp add: ub_inv_def)
  from ub_flush_eq [OF this] show ?thesis using assms by (auto simp: ub_inv_def)
qed

lemma ub_writeTMS_ok:
  assumes "ub_inv c" "0 < len"
  shows "\<exists>ret c' new. ub_writeTMS tms len fl tdi c = Inr (ret, c') \<and> ub_inv c' \<and>
    ub_edges c' = ub_edges c @ new \<and> map fst new = bits_of tms len"
proof -
  have idle: "ub_idle c" using assms by (simp add: ub_inv_def)
  obtain r0 where f0: "ub_flush c = (r0, flushed c)" "r0 \<ge> 0" using ub_flush_eq [OF idle] by blast
  define c0 where "c0 = (if length (ub_buf c) + 2 > 64 then flushed c else c)"
  have c0: "ub_idle c0" "length (ub_buf c0) \<le> 62" "ub_edges c0 = ub_edges c" using idle by (auto simp: c0_def)
  have early: "(if length (ub_buf c) + 2 > 64 then case ub_flush c of (ret, c) \<Rightarrow> (if ret < 0 then Some ret else None, c)
      else (None, c)) = (None, c0)" using f0 by (simp add: c0_def)
  obtain c1 new where r: "ub_tms_loop tms 0 len c0 = Inr (None, c1)" "ub_idle c1" "length (ub_buf c1) \<le> 62"
      "ub_edges c1 = ub_edges c @ new" "map fst new = bits_of tms len"
      "ub_curr_tms c1 = (if nth_bit tms (len - 1) then ub_tms_pin else 0)"
    using ub_tms_loop_ok [OF c0(1,2), of tms 0 len] c0(3) assms(2) by (auto simp: bits_of_def)
  let ?v = "DEFAULT_PINS OR DO_WRITE OR ub_curr_tms c1"
  let ?c2 = "queued [?v] c1"
  have "ub_curr_tms c1 \<in> {0, ub_tms_pin}" "p_left (ub_pin_state c1) = 0" using r(2) by (auto simp: ub_idle_def)
  note rest = rest_pins [OF this(1) _ this(2), of 0]
  have c2: "ub_idle ?c2" "ub_edges ?c2 = ub_edges c @ new"
    using r(2,4) rest by (simp_all add: ub_idle_def)
  have ne: "new \<noteq> []" using r(5) assms(2) by (metis bits_of_eq_Nil list.map_disc_iff less_numeral_extra(3))
  have "fst (last new) = last (bits_of tms len)" using r(5) ne by (metis last_map)
  also have "\<dots> = nth_bit tms (len - 1)" using assms(2) by (simp add: last_conv_nth)
  finally have inv: "ub_inv ?c2" using r(3,6) by (intro ub_inv_after [OF c2(1) _ _ c2(2) ne]) simp_all
  have push: "ub_push ?v c1 = Inr ?c2" using r(3) by (intro ub_push_eq) simp
  obtain r2 c3 where f2: "ub_flush ?c2 = (r2, c3)" "ub_inv c3" "ub_edges c3 = ub_edges ?c2"
    using ub_flush_ok [OF inv] by blast
  have "ub_writeTMS tms len fl tdi c =
      (if fl then Inr (if r2 < 0 then r2 else int len, c3) else Inr (int len, ?c2))"
    unfolding ub_writeTMS_def early Let_def prod.case option.case r(1) bindE.simps push f2(1)
    using assms(2) by (auto split: if_splits)
  then show ?thesis using f2 inv c2(2) r(5) by auto
qed

subsection \<open>Bursts\<close>

text \<open>Room in the receive buffer for what is pending and \<open>k\<close> more bytes.\<close>

definition rx_room :: "(bytes \<times> nat) option \<Rightarrow> nat \<Rightarrow> nat \<Rightarrow> bool" where
  "rx_room rx pend k \<longleftrightarrow> (case rx of None \<Rightarrow> True | Some (buf, pos) \<Rightarrow> pos + (pend - 1) + k \<le> length buf)"

lemma length_put_at [simp]: "pos + length bs \<le> length xs \<Longrightarrow> length (put_at pos bs xs) = length xs"
  by (simp add: put_at_def)

lemma ub_send_ok:
  assumes "ub_idle c" "ub_buf c \<noteq> []" "rx_room rx (length (ub_buf c)) k"
  shows "\<exists>rx'. ub_send rx c = Inr (True, rx', flushed c) \<and> rx_room rx' 0 k \<and> (rx' = None) = (rx = None)"
proof -
  let ?n = "length (ub_buf c) - 1"
  obtain ret got where w: "ub_write (rx \<noteq> None) ?n c = (ret, got, flushed c)" "ret > 0" "length got = ?n"
    using ub_write_eq [OF assms(1,2), of "rx \<noteq> None" ?n] by auto
  show ?thesis
  proof (cases rx)
    case None
    then show ?thesis using w by (simp add: ub_send_def writeByte_def rx_room_def)
  next
    case (Some r)
    obtain buf pos where r: "r = (buf, pos)" by (cases r)
    then show ?thesis
      using w assms(3) Some by (simp add: ub_send_def writeByte_def rx_room_def Let_def)
  qed
qed

lemma nth_bit_take_drop:
  assumes "n \<le> length t" "n \<le> k"
  shows "map (\<lambda>i. (f :: bool, nth_bit (take n t) i)) [0..<8 * n] @ map (\<lambda>i. (f, nth_bit (drop n t) i)) [0..<8 * (k - n)] =
    map (\<lambda>i. (f, nth_bit t i)) [0..<8 * k]"
proof -
  have "[0..<8 * k] = [0..<8 * n] @ [8 * n..<8 * n + 8 * (k - n)]"
    using assms(2) by (metis upt_add_eq_append add_mult_distrib2 le_add_diff_inverse zero_le)
  moreover have "map (\<lambda>i. (f, nth_bit t i)) [0..<8 * n] = map (\<lambda>i. (f, nth_bit (take n t) i)) [0..<8 * n]"
    by (simp add: nth_bit_def less_mult_imp_div_less mult.commute)
  moreover have "map (\<lambda>i. (f, nth_bit t i)) [8 * n..<8 * n + 8 * (k - n)] = map (\<lambda>i. (f, nth_bit (drop n t) i)) [0..<8 * (k - n)]"
    using assms(1) by (intro nth_equalityI) (simp_all add: nth_bit_def)
  ultimately show ?thesis by (metis map_append)
qed

lemma ub_byte_loop_ok:
  assumes "ub_idle c" "\<not> p_tms (ub_pin_state c)" "nb \<le> length t" "m \<in> {DO_RDWR, DO_WRITE}"
    and "ub_buf c = [] \<or> length (ub_buf c) = 64 \<or> nb = 0" "rx_room rx (length (ub_buf c)) (nb + k)"
  shows "\<exists>rx' c'. ub_byte_loop m (Some t) rx nb c = Inr (True, Some (drop nb t), rx', c') \<and> ub_idle c' \<and>
     \<not> p_tms (ub_pin_state c') \<and> ub_curr_tms c' = ub_curr_tms c \<and> rx_room rx' (length (ub_buf c')) k \<and>
     ub_edges c' = ub_edges c @ map (\<lambda>i. (False, nth_bit t i)) [0..<8 * nb] \<and> (rx' = None) = (rx = None)"
  using assms
proof (induction nb arbitrary: c t rx rule: less_induct)
  case (less nb)
  show ?case
  proof (cases "nb = 0")
    case True
    then show ?thesis using less.prems by (subst ub_byte_loop.simps) simp
  next
    case False
    let ?n = "burst nb"
    have n: "0 < ?n" "?n \<le> 63" "?n \<le> nb" using False by (auto simp: burst_def)
    define c1 where "c1 = (if length (ub_buf c) + ?n + 1 > 64 then flushed c else c)"
    have c1: "ub_idle c1" "ub_buf c1 = []" "ub_edges c1 = ub_edges c" "ub_pin_state c1 = ub_pin_state c"
        "ub_curr_tms c1 = ub_curr_tms c"
      using less.prems(1,5) n False by (auto simp: c1_def)
    obtain rx1 where rx1: "(if length (ub_buf c) + ?n + 1 > 64 then ub_send rx c else Inr (True, rx, c)) = Inr (True, rx1, c1)"
        "rx_room rx1 0 (nb + k)" "(rx1 = None) = (rx = None)"
    proof (cases "length (ub_buf c) + ?n + 1 > 64")
      case True
      then have "ub_buf c \<noteq> []" using n(2) by auto
      from ub_send_ok [OF less.prems(1) this less.prems(6)] True that show ?thesis by (auto simp: c1_def)
    next
      case no: False
      then have "ub_buf c = []" using less.prems(5) n(1) False by auto
      then show ?thesis using no less.prems(6) that [of rx] by (simp add: c1_def)
    qed
    let ?bs = "take ?n t"
    let ?h = "DO_SHIFT OR m OR (of_nat ?n AND 0x3f)"
    have lb: "length ?bs = ?n" using n(3) less.prems(3) by simp
    let ?c2 = "queued (?h # ?bs) c1"
    have push: "ub_pushes (?h # ?bs) c1 = Inr ?c2" using c1(2) lb n(2) by (intro ub_pushes_eq) simp
    have "p_left (ub_pin_state c1) = 0" using c1(1) by (simp add: ub_idle_def)
    note dec = decode_burst [of ?bs m, unfolded lb, OF n(1,2) less.prems(4) this]
    have c2: "ub_idle ?c2" "\<not> p_tms (ub_pin_state ?c2)" "ub_curr_tms ?c2 = ub_curr_tms c"
        "ub_edges ?c2 = ub_edges c @ map (\<lambda>i. (False, nth_bit ?bs i)) [0..<8 * ?n]"
      using c1 dec less.prems(1,2) by (simp_all add: ub_idle_def)
    have buf2: "length (ub_buf ?c2) = Suc ?n" using c1(2) lb by simp
    have full: "ub_buf ?c2 = [] \<or> length (ub_buf ?c2) = 64 \<or> nb - ?n = 0"
      unfolding buf2 by (auto simp: burst_def)
    have room: "rx_room rx1 (length (ub_buf ?c2)) (nb - ?n + k)"
      unfolding buf2 using rx1(2) n(3) by (auto simp: rx_room_def split: option.splits)
    have "nb - ?n < nb" "nb - ?n \<le> length (drop ?n t)" using n less.prems(3) by auto
    from less.IH [OF this(1) c2(1,2) this(2) less.prems(4) full room] obtain rx' c' where
      r: "ub_byte_loop m (Some (drop ?n t)) rx1 (nb - ?n) ?c2 = Inr (True, Some (drop (nb - ?n) (drop ?n t)), rx', c')"
        "ub_idle c'" "\<not> p_tms (ub_pin_state c')" "ub_curr_tms c' = ub_curr_tms ?c2"
        "rx_room rx' (length (ub_buf c')) k" "(rx' = None) = (rx1 = None)"
        "ub_edges c' = ub_edges ?c2 @ map (\<lambda>i. (False, nth_bit (drop ?n t) i)) [0..<8 * (nb - ?n)]" by blast
    have enough: "(length t < ?n) = False" using n(3) less.prems(3) by simp
    have step: "ub_byte_loop m (Some t) rx nb c = ub_byte_loop m (Some (drop ?n t)) rx1 (nb - ?n) ?c2"
      by (subst ub_byte_loop.simps)
        (simp only: False Let_def rx1(1) bindE.simps prod.case enough option.case option.map if_False not_True_eq_False push)
    have "ub_edges c' = ub_edges c @ map (\<lambda>i. (False, nth_bit t i)) [0..<8 * nb]"
      unfolding r(7) c2(4) append_assoc
      using nth_bit_take_drop [of ?n t nb False] n(3) less.prems(3) by (metis le_trans)
    then show ?thesis using step r c2(3) rx1(3) n(3) by simp
  qed
qed

subsection \<open>Single bits\<close>

lemma bit_bytes_Suc:
  "bit_bytes m (Some b) (Suc n) = bit_bytes m (Some b) n @
     [DEFAULT_PINS OR 0 OR (if bit b n then ub_tdi_pin else 0), DEFAULT_PINS OR m OR 0 OR (if bit b n then ub_tdi_pin else 0) OR ub_tck_pin]"
  by (simp add: bit_bytes_def Let_def)

lemma bit_bytes_pins:
  assumes "m \<in> {0, DO_RDWR}" "p_left p = 0"
  shows "p_left (foldl pin_step p (bit_bytes m (Some b) n)) = 0 \<and>
     ub_decode p (bit_bytes m (Some b) n) = map (\<lambda>i. (False, bit b i)) [0..<n]"
proof (induction n)
  case 0
  then show ?case using assms by (simp add: bit_bytes_def)
next
  case (Suc n)
  let ?p = "foldl pin_step p (bit_bytes m (Some b) n)"
  let ?d = "if bit b n then ub_tdi_pin else 0 :: u8"
  have "?d \<in> {0, ub_tdi_pin}" "p_left ?p = 0" using Suc by auto
  note per = period_pins [of 0 ?d m ?p, OF _ this(1) assms(1) this(2)]
  show ?case using Suc per unfolding bit_bytes_Suc ub_decode_append foldl_append by simp
qed

lemma length_bit_bytes: "length (bit_bytes m t n) = 2 * n"
  by (induction n) (simp_all add: bit_bytes_def Let_def)

lemma rx_update_ok:
  assumes "rx_room rx 0 1"
  shows "\<exists>rx'. rx_update f rx = Inr rx' \<and> rx_room rx' 0 1 \<and> (rx' = None) = (rx = None)"
  using assms by (auto simp: rx_update_def rx_room_def split: option.splits)

lemma writeBit_ok:
  assumes "ub_idle c" "ub_buf c \<noteq> []" "rx_room rx 0 1"
  shows "\<exists>ret rx'. writeBit rx n c = Inr (ret, rx', flushed c) \<and> ret > 0 \<and> rx_room rx' 0 1 \<and> (rx' = None) = (rx = None)"
proof -
  obtain ret got where w: "ub_write (rx \<noteq> None) n c = (ret, got, flushed c)" "ret > 0"
    using ub_write_eq [OF assms(1,2), of "rx \<noteq> None" n] by auto
  show ?thesis
  proof (cases rx)
    case None
    then show ?thesis using w by (simp add: writeBit_def rx_room_def)
  next
    case (Some r)
    then show ?thesis using w assms(3) by (cases r) (simp add: writeBit_def rx_room_def)
  qed
qed

lemma ub_bits_ok:
  assumes "ub_idle c" "ub_buf c = []" "n < 8" "n \<noteq> 0 \<longrightarrow> t \<noteq> [] \<and> rx_room rx 0 1" "m \<in> {0, DO_RDWR}"
  shows "\<exists>rx' c'. ub_bits m (Some t) rx n c = Inr (True, rx', c') \<and> ub_idle c' \<and> ub_buf c' = [] \<and>
     ub_curr_tms c' = ub_curr_tms c \<and> ub_edges c' = ub_edges c @ map (\<lambda>i. (False, bit (hd t) i)) [0..<n] \<and>
     (rx_room rx 0 1 \<longrightarrow> rx_room rx' 0 1) \<and> (rx' = None) = (rx = None)"
proof (cases "n = 0")
  case True
  then show ?thesis using assms(1,2) by (simp add: ub_bits_def)
next
  case False
  then obtain b bs where t: "t = b # bs" and room: "rx_room rx 0 1" using assms(4) by (cases t) auto
  let ?v = "bit_bytes m (Some b) n"
  let ?c1 = "queued ?v c"
  have p: "p_left (ub_pin_state c) = 0" using assms(1) by (simp add: ub_idle_def)
  note pins = bit_bytes_pins [OF assms(5) p, of b n]
  have c1: "ub_idle ?c1" "ub_edges ?c1 = ub_edges c @ map (\<lambda>i. (False, bit b i)) [0..<n]"
    using pins assms(1) by (simp_all add: ub_idle_def)
  have push: "ub_pushes ?v c = Inr ?c1" using assms(2,3) length_bit_bytes [of m "Some b" n] by (intro ub_pushes_eq) simp
  have ne: "ub_buf ?c1 \<noteq> []" using False length_bit_bytes [of m "Some b" n] by auto
  obtain ret rx1 where w: "writeBit rx (length (ub_buf ?c1) div 2) ?c1 = Inr (ret, rx1, flushed ?c1)" "ret > 0"
      "rx_room rx1 0 1" "(rx1 = None) = (rx = None)" using writeBit_ok [OF c1(1) ne room] by blast
  obtain rx2 where u: "rx_update (drop_bit (8 - n)) rx1 = Inr rx2" "rx_room rx2 0 1" "(rx2 = None) = (rx1 = None)"
    using rx_update_ok [OF w(3)] by blast
  have "ub_bits m (Some t) rx n c = Inr (True, rx2, flushed ?c1)"
    using False w u push unfolding ub_bits_def t tx_head_def by simp
  then show ?thesis using c1 w u t by simp
qed

lemma ub_last_ok:
  assumes "ub_idle c" "ub_buf c = []" "t \<noteq> []" "rx_room rx 0 1" "m \<in> {0, DO_RDWR}"
  shows "\<exists>rx' c'. ub_last m (Some t) rx n c = Inr (True, rx', c') \<and> ub_idle c' \<and> ub_buf c' = [] \<and>
     ub_curr_tms c' = ub_tms_pin \<and> ub_edges c' = ub_edges c @ [(True, bit (hd t) n)]"
proof -
  obtain b bs where t: "t = b # bs" using assms(3) by (cases t) auto
  let ?d = "if bit b n then ub_tdi_pin else 0 :: u8"
  let ?v = "DEFAULT_PINS OR ub_tms_pin OR ?d"
  let ?w = "DEFAULT_PINS OR m OR ub_tms_pin OR ?d OR ub_tck_pin"
  let ?c0 = "c\<lparr>ub_curr_tms := ub_tms_pin\<rparr>"
  let ?c1 = "queued [?v, ?w] ?c0"
  let ?c2 = "queued [?v] (flushed ?c1)"
  have p: "p_left (ub_pin_state c) = 0" using assms(1) by (simp add: ub_idle_def)
  have d: "?d \<in> {0, ub_tdi_pin}" by simp
  note per = period_pins [OF _ d assms(5) p, of ub_tms_pin]
  have c1: "ub_idle ?c1" "ub_edges ?c1 = ub_edges c @ [(True, bit b n)]" "p_left (ub_pin_state ?c1) = 0"
    using per assms(1) by (simp_all add: ub_idle_def)
  have c2: "ub_idle ?c2" "ub_edges ?c2 = ub_edges c @ [(True, bit b n)]"
    using c1 rest_pins [OF _ d c1(3), of ub_tms_pin] by (simp_all add: ub_idle_def)
  have eq: "?v OR m OR ub_tck_pin = ?w" by (simp add: ac_simps)
  have push: "ub_pushes [?v, ?w] ?c0 = Inr ?c1" using assms(2) by (intro ub_pushes_eq) simp
  have push2: "ub_push ?v (flushed ?c1) = Inr ?c2" by (intro ub_push_eq) simp
  have r1: "rx_room (if rx = None then None else Some ([0], 0)) 0 1" by (simp add: rx_room_def)
  obtain ret tmp where w: "writeBit (if rx = None then None else Some ([0], 0)) 1 ?c1 = Inr (ret, tmp, flushed ?c1)" "ret > 0"
    using writeBit_ok [OF c1(1) _ r1, of 1] by auto
  obtain rx2 where u: "rx_update (\<lambda>x. x OR drop_bit (7 - n) (fst (the tmp) ! 0 AND 0x80)) rx = Inr rx2"
    using rx_update_ok [OF assms(4)] by blast
  obtain ret2 where w2: "writeBit None 0 ?c2 = Inr (ret2, None, flushed ?c2)" "ret2 > 0"
    using writeBit_ok [OF c2(1), of None 0] by (auto simp: rx_room_def)
  have "ub_last m (Some t) rx n c = Inr (True, rx2, flushed ?c2)"
    unfolding ub_last_def t tx_head_def option.case list.case bindE.simps Let_def
    using push eq w u push2 w2 by simp
  then show ?thesis using c2 t by simp
qed

subsection \<open>\<open>writeTDI\<close>\<close>

lemma edges_parts:
  assumes "n = 8 * k + r" "r < 8" "n \<le> 8 * length tx"
  shows "map (\<lambda>i. (False, nth_bit tx i)) [0..<8 * k] @ map (\<lambda>i. (False, bit (hd (drop k tx)) i)) [0..<r] =
    map (\<lambda>i. (False, nth_bit tx i)) [0..<n]"
proof (cases "r = 0")
  case False
  then have "hd (drop k tx) = tx ! k" using assms by (intro hd_drop_conv_nth) simp
  then have "map (\<lambda>i. (False, bit (hd (drop k tx)) i)) [0..<r] = map (\<lambda>i. (False, nth_bit tx i)) [8 * k..<8 * k + r]"
    using assms(2) by (intro nth_equalityI) (simp_all add: nth_bit_def)
  moreover have "[0..<n] = [0..<8 * k] @ [8 * k..<8 * k + r]" using upt_add_eq_append [of 0 "8 * k" r] assms(1) by simp
  ultimately show ?thesis by simp
qed (simp add: assms(1))

text \<open>The bursts of \<open>writeTDI\<close>, up to the point where the buffer is empty again.\<close>

lemma ub_burst_ok:
  assumes "ub_idle c" "ub_buf c = []" "ub_curr_tms c = 0" "\<not> p_tms (ub_pin_state c)" "nb \<le> length t"
    and "m \<in> {DO_RDWR, DO_WRITE}" "rx_room rx 0 (nb + k)"
  shows "\<exists>rx' c'. (if ub_curr_tms c = 0 \<and> nb \<noteq> 0 then
        bindE (ub_byte_loop m (Some t) rx nb c) (\<lambda>(ok, tx, rx, c).
          if ok \<and> ub_buf c \<noteq> [] then bindE (ub_send rx c) (\<lambda>(ok, rx, c). Inr (ok, tx, rx, c)) else Inr (ok, tx, rx, c))
      else Inr (True, Some t, rx, c)) = Inr (True, Some (drop nb t), rx', c') \<and>
     ub_idle c' \<and> ub_buf c' = [] \<and> ub_curr_tms c' = 0 \<and> rx_room rx' 0 k \<and>
     ub_edges c' = ub_edges c @ map (\<lambda>i. (False, nth_bit t i)) [0..<8 * nb] \<and> (rx' = None) = (rx = None)"
proof (cases "nb = 0")
  case True
  then show ?thesis using assms by simp
next
  case False
  obtain rx1 c1 where r: "ub_byte_loop m (Some t) rx nb c = Inr (True, Some (drop nb t), rx1, c1)" "ub_idle c1"
     "ub_curr_tms c1 = 0" "rx_room rx1 (length (ub_buf c1)) k"
     "ub_edges c1 = ub_edges c @ map (\<lambda>i. (False, nth_bit t i)) [0..<8 * nb]" "(rx1 = None) = (rx = None)"
    using ub_byte_loop_ok [OF assms(1,4,5,6), of rx k] assms(2,3,7) by auto
  show ?thesis
  proof (cases "ub_buf c1 = []")
    case True
    then show ?thesis using False r assms(3) by simp
  next
    case ne: False
    from ub_send_ok [OF r(2) ne r(4)] obtain rx2 where "ub_send rx1 c1 = Inr (True, rx2, flushed c1)" "rx_room rx2 0 k"
      "(rx2 = None) = (rx1 = None)" by blast
    then show ?thesis using False ne r assms(3) by simp
  qed
qed

lemma last_shift_edge:
  assumes "0 < len"
  shows "zip (replicate (len - 1) False @ [e]) (bits_of tx len) \<noteq> []"
    and "fst (last (zip (replicate (len - 1) False @ [e]) (bits_of tx len))) = e"
proof -
  let ?z = "zip (replicate (len - 1) False @ [e]) (bits_of tx len)"
  have m: "map fst ?z = replicate (len - 1) False @ [e]" using assms by simp
  then show ne: "?z \<noteq> []" by (metis Nil_is_map_conv snoc_eq_iff_butlast)
  show "fst (last ?z) = e" using last_map [OF ne, of fst] m by simp
qed

lemma ub_writeTDI_ok:
  assumes inv: "ub_inv c" and len: "0 < len" "len \<le> 8 * length tx" and rx: "\<And>buf. rx = Some buf \<Longrightarrow> len \<le> 8 * length buf"
    and low: "ub_edges c \<noteq> []" "\<not> fst (last (ub_edges c))"
  shows "\<exists>ret rx' c'. ub_writeTDI (Some tx) rx len e c = Inr (ret, rx', c') \<and> ub_inv c' \<and>
    ub_edges c' = ub_edges c @ zip (replicate (len - 1) False @ [e]) (bits_of tx len)"
proof -
  define real_len where "real_len = (if e then len - 1 else len)"
  define nb where "nb = real_len div 8"
  define n where "n = real_len mod 8"
  have parts: "real_len = 8 * nb + n" "n < 8" by (simp_all add: nb_def n_def)
  define k where "k = (if e \<or> n \<noteq> 0 then 1 else 0 :: nat)"
  have fits: "nb + k \<le> x" if "len \<le> 8 * x" for x
    using that parts len(1) unfolding k_def real_len_def by (auto split: if_splits)
  define m where "m = (if rx \<noteq> None then DO_RDWR else DO_WRITE :: u8)"
  have m: "m \<in> {DO_RDWR, DO_WRITE}" "m \<in> {0, DO_RDWR}" by (auto simp: m_def)
  let ?rx = "map_option (\<lambda>b. (b, 0)) rx"
  have idle: "ub_idle c" "length (ub_buf c) \<le> 63" and t0: "ub_curr_tms c = 0" using inv low by (auto simp: ub_inv_def)
  let ?c0 = "queued [DEFAULT_PINS OR DO_WRITE OR ub_curr_tms c] c"
  have push: "ub_push (DEFAULT_PINS OR DO_WRITE OR ub_curr_tms c) c = Inr ?c0" using idle(2) by (intro ub_push_eq) simp
  have p: "p_left (ub_pin_state c) = 0" using idle(1) by (simp add: ub_idle_def)
  note rest = rest_pins [of 0 0, OF _ _ p]
  have c0: "ub_idle ?c0" "ub_edges ?c0 = ub_edges c" "\<not> p_tms (ub_pin_state ?c0)" "ub_curr_tms ?c0 = 0"
    using idle(1) rest t0 by (simp_all add: ub_idle_def)
  obtain r0 where fl: "ub_flush ?c0 = (r0, flushed ?c0)" using ub_flush_eq [OF c0(1)] by blast
  let ?c1 = "flushed ?c0"
  have c1: "ub_idle ?c1" "ub_buf ?c1 = []" "ub_curr_tms ?c1 = 0" "\<not> p_tms (ub_pin_state ?c1)"
    using c0 by (simp_all del: queued_simps)
  have room: "rx_room ?rx 0 (nb + k)" using rx fits by (auto simp: rx_room_def split: option.splits)
  have "nb \<le> length tx" using fits [OF len(2)] by simp
  from ub_burst_ok [OF c1 this m(1) room] obtain rx2 c2 where
    b: "(if ub_curr_tms ?c1 = 0 \<and> nb \<noteq> 0 then
          bindE (ub_byte_loop m (Some tx) ?rx nb ?c1) (\<lambda>(ok, tx, rx, c).
            if ok \<and> ub_buf c \<noteq> [] then bindE (ub_send rx c) (\<lambda>(ok, rx, c). Inr (ok, tx, rx, c)) else Inr (ok, tx, rx, c))
        else Inr (True, Some tx, ?rx, ?c1)) = Inr (True, Some (drop nb tx), rx2, c2)"
      "ub_idle c2" "ub_buf c2 = []" "ub_curr_tms c2 = 0" "rx_room rx2 0 k"
      "ub_edges c2 = ub_edges ?c1 @ map (\<lambda>i. (False, nth_bit tx i)) [0..<8 * nb]" by blast
  have tail: "drop nb tx \<noteq> [] \<and> rx_room rx2 0 1" if "e \<or> n \<noteq> 0"
    using that fits [OF len(2)] b(5) by (auto simp: k_def split: if_splits)
  from ub_bits_ok [OF b(2,3) parts(2), of "drop nb tx" rx2 m] m(2) tail obtain rx3 c3 where
    s: "ub_bits m (Some (drop nb tx)) rx2 n c2 = Inr (True, rx3, c3)" "ub_idle c3" "ub_buf c3 = []" "ub_curr_tms c3 = 0"
      "ub_edges c3 = ub_edges c2 @ map (\<lambda>i. (False, bit (hd (drop nb tx)) i)) [0..<n]"
      "rx_room rx2 0 1 \<longrightarrow> rx_room rx3 0 1" using b(4) by auto
  have e3: "ub_edges c3 = ub_edges c @ map (\<lambda>i. (False, nth_bit tx i)) [0..<real_len]"
  proof -
    have "real_len \<le> 8 * length tx" using len(2) by (auto simp: real_len_def)
    from edges_parts [OF parts this] show ?thesis using s(5) b(6) c0(2) by (simp del: queued_simps)
  qed
  have run: "ub_writeTDI (Some tx) rx len e c = (if e then
      bindE (ub_last m (Some (drop nb tx)) rx3 n c3) (\<lambda>(ok, rx, c).
        if \<not> ok then Inr (-1, map_option fst rx, c) else Inr (int len, map_option fst rx, c))
      else Inr (int len, map_option fst rx3, c3))"
    unfolding ub_writeTDI_def Let_def real_len_def [symmetric] nb_def [symmetric] n_def [symmetric] m_def [symmetric]
      push bindE.simps fl snd_conv b(1) prod.case s(1) using len(1) by simp
  show ?thesis
  proof (cases e)
    case False
    have edges: "ub_edges c3 = ub_edges c @ zip (replicate (len - 1) False @ [e]) (bits_of tx len)"
      using e3 tdi_edges [OF len(1), of e tx] False by (simp add: real_len_def)
    have "ub_inv c3"
      by (rule ub_inv_after [OF s(2) _ _ edges last_shift_edge [OF len(1)]]) (use s(3,4) False in simp_all)
    then show ?thesis using run False edges by simp
  next
    case True
    with tail s(6) have "drop nb tx \<noteq> []" "rx_room rx3 0 1" by auto
    from ub_last_ok [OF s(2,3) this m(2), of n] obtain rx4 c4 where
      l: "ub_last m (Some (drop nb tx)) rx3 n c3 = Inr (True, rx4, c4)" "ub_idle c4" "ub_buf c4 = []"
        "ub_curr_tms c4 = ub_tms_pin" "ub_edges c4 = ub_edges c3 @ [(True, bit (hd (drop nb tx)) n)]" by blast
    have "nb < length tx" using fits [OF len(2)] True by (simp add: k_def)
    then have "bit (hd (drop nb tx)) n = nth_bit tx (len - 1)"
      using parts True by (simp add: hd_drop_conv_nth nth_bit_def real_len_def nb_def n_def)
    then have "ub_edges c4 = ub_edges c @ map (\<lambda>i. (e \<and> i = len - 1, nth_bit tx i)) [0..<len]"
      using l(5) e3 True len(1) by (cases len) (simp_all add: real_len_def)
    then have edges: "ub_edges c4 = ub_edges c @ zip (replicate (len - 1) False @ [e]) (bits_of tx len)"
      by (simp only: tdi_edges [OF len(1)])
    have "ub_inv c4"
      by (rule ub_inv_after [OF l(2) _ _ edges last_shift_edge [OF len(1)]]) (use l(3,4) True in simp_all)
    then show ?thesis using run l(1) True edges by simp
  qed
qed

interpretation ub: jtag_cable ub_ops ub_inv ub_edges
proof unfold_locales
  fix c :: ub
  assume "ub_inv c"
  from ub_flush_ok [OF this] show "\<exists>ret c'. flush_ll ub_ops c = Inr (ret, c') \<and> ub_inv c' \<and> ub_edges c' = ub_edges c"
    by (auto simp: ub_ops_def)
qed (unfold ub_ops_def jtag_ops.select_convs, blast intro: ub_writeTMS_ok, blast intro: ub_writeTDI_ok)

subsection \<open>Properties\<close>

definition demo_ub :: ub where
  "demo_ub = \<lparr>ub_buf = [], ub_curr_tms = 0, ub_sent = [], ub_ll = (\<lambda>h b r. (int (length b) + 1, []))\<rparr>"

lemma demo_ub_ok: "ub_inv demo_ub" "ub_edges demo_ub = []"
  by (simp_all add: demo_ub_def ub_inv_def ub_idle_def ub_edges_def ub_stream_def ub_pin_state_def pins0_def)

lemma demo_ub_wf: "jtag_wf (jtag_init demo_ub)"
  by (simp add: jtag_wf_def jtag_init_def nth_bit_replicate)

lemma demo_ub_synced: "synced ub_edges RUN_TEST_IDLE (jtag_init demo_ub)"
  using demo_ub_wf by (simp add: synced_def demo_ub_ok jtag_init_def jtag_wf_def)

text \<open>
  C5: \<open>Jtag::shiftDR\<close> over the USB-Blaster.  Bursts of up to 63 bytes, single bits and the last bit
  with TMS high together shift exactly the padding before, the caller's bits and the
  padding after into the data registers, whatever the length; object and chain end in the
  requested state.
\<close>

theorem ub_shiftDR_bits:
  assumes "ub_inv (j_cable j)" and "synced ub_edges s0 j"
    and "s0 \<notin> {SHIFT_DR, SHIFT_IR, UNKNOWN}" and "j_state j \<notin> {SHIFT_DR, SHIFT_IR}"
    and "end_state \<notin> {SHIFT_DR, SHIFT_IR, UNKNOWN}"
    and "0 < len" and "len \<le> 8 * length tx" and "\<And>b. rx = Some b \<Longrightarrow> len \<le> 8 * length b"
    and "max (unat (j_dr_bits_before j)) (unat (j_dr_bits_after j)) \<le> 8 * length (j_dr_bits j)"
  shows "\<exists>rx' j'. shiftDR ub_ops (Some tx) rx len end_state j = Inr (rx', j') \<and>
    ub_inv (j_cable j') \<and> synced ub_edges s0 j' \<and> j_state j' = end_state \<and>
    shifted_in SHIFT_DR s0 (ub_edges (j_cable j')) = shifted_in SHIFT_DR s0 (ub_edges (j_cable j)) @
      bits_of (j_dr_bits j) (unat (j_dr_bits_before j)) @ bits_of tx len @
      bits_of (j_dr_bits j) (unat (j_dr_bits_after j)) \<and>
    shifted_in SHIFT_IR s0 (ub_edges (j_cable j')) = shifted_in SHIFT_IR s0 (ub_edges (j_cable j))"
  using ub.shiftDR_ok [where rx = rx, OF assms(1-8)] assms(9) by auto

theorem ub_shiftDR_bits_witness:
  "\<exists>rx' j'. shiftDR ub_ops (Some (replicate 100 0x5a)) None 793 RUN_TEST_IDLE (jtag_init demo_ub) = Inr (rx', j') \<and>
    ub_inv (j_cable j') \<and> synced ub_edges RUN_TEST_IDLE j' \<and> j_state j' = RUN_TEST_IDLE \<and>
    shifted_in SHIFT_DR RUN_TEST_IDLE (ub_edges (j_cable j')) =
      shifted_in SHIFT_DR RUN_TEST_IDLE (ub_edges (j_cable (jtag_init demo_ub))) @
      bits_of (j_dr_bits (jtag_init demo_ub)) (unat (j_dr_bits_before (jtag_init demo_ub))) @
      bits_of (replicate 100 0x5a) 793 @
      bits_of (j_dr_bits (jtag_init demo_ub)) (unat (j_dr_bits_after (jtag_init demo_ub))) \<and>
    shifted_in SHIFT_IR RUN_TEST_IDLE (ub_edges (j_cable j')) =
      shifted_in SHIFT_IR RUN_TEST_IDLE (ub_edges (j_cable (jtag_init demo_ub)))"
  by (rule ub_shiftDR_bits) (use demo_ub_ok demo_ub_synced in \<open>auto simp: jtag_init_def\<close>)

text \<open>
  \<open>UsbBlaster::writeTDI\<close> drops whole bytes while TMS is high.  If the last TMS value written was
  high, a transfer of complete bytes reports its full length but produces no clock edge.
\<close>

theorem ub_writeTDI_drops_bytes:
  assumes "ub_inv c" and "ub_curr_tms c \<noteq> 0"
  shows "\<exists>c'. ub_writeTDI (Some tx) None (8 * k) False c = Inr (int (8 * k), None, c') \<and> ub_edges c' = ub_edges c"
proof -
  have idle: "ub_idle c" "length (ub_buf c) \<le> 63" and t: "ub_curr_tms c = ub_tms_pin"
    using assms by (auto simp: ub_inv_def ub_idle_def)
  let ?c0 = "queued [DEFAULT_PINS OR DO_WRITE OR ub_curr_tms c] c"
  have push: "ub_push (DEFAULT_PINS OR DO_WRITE OR ub_curr_tms c) c = Inr ?c0" using idle(2) by (intro ub_push_eq) simp
  have p: "p_left (ub_pin_state c) = 0" using idle(1) by (simp add: ub_idle_def)
  have c0: "ub_idle ?c0" "ub_edges ?c0 = ub_edges c"
    using idle(1) rest_pins [of ub_tms_pin 0, OF _ _ p] t by (simp_all add: ub_idle_def)
  obtain r0 where fl: "ub_flush ?c0 = (r0, flushed ?c0)" using ub_flush_eq [OF c0(1)] by blast
  have "ub_writeTDI (Some tx) None (8 * k) False c = Inr (int (8 * k), None, flushed ?c0)"
    unfolding ub_writeTDI_def Let_def push bindE.simps fl snd_conv using t by (simp add: ub_bits_def del: queued_simps(4,5))
  then show ?thesis using c0(2) by (simp del: queued_simps(4,5))
qed

definition demo_ub_high :: ub where
  "demo_ub_high = \<lparr>ub_buf = [], ub_curr_tms = ub_tms_pin, ub_sent = [0x2e, 0x2f], ub_ll = (\<lambda>h b r. (int (length b) + 1, []))\<rparr>"

theorem ub_writeTDI_drops_bytes_witness:
  "\<exists>c'. ub_writeTDI (Some [0x12, 0x34]) None (8 * 2) False demo_ub_high = Inr (int (8 * 2), None, c') \<and>
    ub_edges c' = ub_edges demo_ub_high"
  by (rule ub_writeTDI_drops_bytes)
    (simp_all add: demo_ub_high_def ub_inv_def ub_idle_def ub_edges_def ub_stream_def ub_pin_state_def pins0_def
      pin_step_def pin_edges_def)

text \<open>
  The read loop of the low level drivers.  If the adapter delivers the bytes in any fewer than 100
  non-empty pieces, the loop puts them together in order and reports success.
\<close>

theorem ll_read_loop_collects:
  assumes "list_all (\<lambda>cs. cs \<noteq> []) css" "css \<noteq> []" "length (concat css) < 256" "length css < 100"
  shows "ll_read_loop 100 (length (concat css)) 0 [] ret (map (\<lambda>cs. (int (length cs), cs)) css) =
    (int (length (last css)), concat css)"
proof -
  have "ll_read_loop t (length buf + length (concat css)) (of_nat (length buf)) buf ret
      (map (\<lambda>cs. (int (length cs), cs)) css) = (if css = [] then ret else int (length (last css)), buf @ concat css)"
    if "list_all (\<lambda>cs. cs \<noteq> []) css" "length buf + length (concat css) < 256" "length css < t" for t buf
    using that
  proof (induction css arbitrary: t buf ret)
    case Nil
    then obtain t' where "t = Suc t'" by (cases t) auto
    then show ?case using Nil by (simp add: unat_of_nat)
  next
    case (Cons cs css)
    then obtain t' where t: "t = Suc t'" by (cases t) auto
    have u: "unat (of_nat (length buf) :: u8) = length buf" using Cons.prems by (simp add: unat_of_nat)
    have p: "put_at (length buf) cs buf = buf @ cs" by (simp add: put_at_def)
    have "ll_read_loop t' (length (buf @ cs) + length (concat css)) (of_nat (length (buf @ cs))) (buf @ cs) (int (length cs))
        (map (\<lambda>cs. (int (length cs), cs)) css) =
        (if css = [] then int (length cs) else int (length (last css)), (buf @ cs) @ concat css)"
      by (rule Cons.IH) (use Cons.prems t in simp_all)
    then show ?case using Cons.prems t u p by (simp add: add.assoc)
  qed
  from this [of "[]" 100] show ?thesis using assms by simp
qed

theorem ll_read_loop_collects_witness:
  "ll_read_loop 100 (length (concat [[1, 2], [3 :: u8]])) 0 [] 4 (map (\<lambda>cs. (int (length cs), cs)) [[1, 2], [3]]) =
    (int (length (last [[1, 2], [3 :: u8]])), concat [[1, 2], [3]])"
  by (rule ll_read_loop_collects) simp_all

end
