(* ===== verification/SpiFlash_Db.thy ===== *)
theory SpiFlash_Db
  imports Prelude
begin

section \<open>The SPI flash table of \<open>spiFlashdb.hpp\<close>\<close>

text \<open>
  \<open>flash_t\<close> and \<open>flash_list\<close>, entry by entry in the order of the initialiser.  The field
  \<open>sector_erase\<close> is called \<open>sector_erase_ok\<close> here, apart from the method of that name.  A
  bit position \<open>1 << n\<close> is written out as a number.
\<close>

datatype tb_loc_t = STATR | FUNCR | CONFR | NVCONFR | NONER

record flash_t =
  manufacturer :: string
  model :: string
  nr_sector :: u32
  sector_erase_ok :: bool
  subsector_erase :: bool
  has_extended :: bool
  tb_otp :: bool
  tb_offset :: u16
  tb_register :: tb_loc_t
  bp_len :: u8
  bp_offset :: bytes
  quad_register :: tb_loc_t
  quad_mask :: u16
  global_lock :: bool

definition flash_list_0 :: "(u32 \<times> flash_t) list" where
  "flash_list_0 = [
  (0x010216, \<lparr>manufacturer = ''spansion'', model = ''S25FL064P / EPCS64'', nr_sector = 128,
    sector_erase_ok = True, subsector_erase = True, has_extended = True, tb_otp = False,
    tb_offset = 32, tb_register = CONFR, bp_len = 3, bp_offset = [4, 8, 16, 0],
    quad_register = NONER, quad_mask = 0, global_lock = False\<rparr>),
  (0x010219, \<lparr>manufacturer = ''spansion'', model = ''S25FL256S'', nr_sector = 512,
    sector_erase_ok = True, subsector_erase = False, has_extended = True, tb_otp = True,
    tb_offset = 32, tb_register = CONFR, bp_len = 3, bp_offset = [4, 8, 16, 0],
    quad_register = CONFR, quad_mask = 2, global_lock = False\<rparr>),
  (0x010220, \<lparr>manufacturer = ''spansion'', model = ''S25FL512S'', nr_sector = 1024,
    sector_erase_ok = True, subsector_erase = False, has_extended = True, tb_otp = True,
    tb_offset = 32, tb_register = CONFR, bp_len = 3, bp_offset = [4, 8, 16, 0],
    quad_register = NONER, quad_mask = 0, global_lock = False\<rparr>),
  (0x012018, \<lparr>manufacturer = ''spansion'', model = ''S25FL128S'', nr_sector = 256,
    sector_erase_ok = True, subsector_erase = False, has_extended = True, tb_otp = True,
    tb_offset = 32, tb_register = CONFR, bp_len = 3, bp_offset = [4, 8, 16, 0],
    quad_register = CONFR, quad_mask = 2, global_lock = False\<rparr>),
  (0x016018, \<lparr>manufacturer = ''spansion'', model = ''S25FL128L'', nr_sector = 256,
    sector_erase_ok = True, subsector_erase = False, has_extended = True, tb_otp = False,
    tb_offset = 64, tb_register = STATR, bp_len = 4, bp_offset = [4, 8, 16, 32],
    quad_register = NONER, quad_mask = 0, global_lock = False\<rparr>),
  (0x016019, \<lparr>manufacturer = ''spansion'', model = ''S25FL256L'', nr_sector = 512,
    sector_erase_ok = True, subsector_erase = False, has_extended = True, tb_otp = False,
    tb_offset = 64, tb_register = STATR, bp_len = 4, bp_offset = [4, 8, 16, 32],
    quad_register = NONER, quad_mask = 0, global_lock = False\<rparr>),
  (0x0b4016, \<lparr>manufacturer = ''XTX'', model = ''XT25F32B-S'', nr_sector = 1024,
    sector_erase_ok = True, subsector_erase = True, has_extended = False, tb_otp = False,
    tb_offset = 16384, tb_register = STATR, bp_len = 4, bp_offset = [4, 8, 16, 32],
    quad_register = NONER, quad_mask = 0, global_lock = False\<rparr>),
  (0x202014, \<lparr>manufacturer = ''ST'', model = ''M25P80'', nr_sector = 16,
    sector_erase_ok = True, subsector_erase = False, has_extended = False, tb_otp = True,
    tb_offset = 0, tb_register = STATR, bp_len = 3, bp_offset = [4, 8, 16, 0],
    quad_register = NONER, quad_mask = 0, global_lock = False\<rparr>)]"

definition flash_list_1 :: "(u32 \<times> flash_t) list" where
  "flash_list_1 = [
  (0x202015, \<lparr>manufacturer = ''ST'', model = ''M25P16'', nr_sector = 32,
    sector_erase_ok = True, subsector_erase = False, has_extended = False, tb_otp = True,
    tb_offset = 0, tb_register = STATR, bp_len = 3, bp_offset = [4, 8, 16, 0],
    quad_register = NONER, quad_mask = 0, global_lock = False\<rparr>),
  (0x202016, \<lparr>manufacturer = ''ST'', model = ''M25P32'', nr_sector = 64,
    sector_erase_ok = True, subsector_erase = False, has_extended = False, tb_otp = True,
    tb_offset = 0, tb_register = STATR, bp_len = 3, bp_offset = [4, 8, 16, 0],
    quad_register = NONER, quad_mask = 0, global_lock = False\<rparr>),
  (0x20ba16, \<lparr>manufacturer = ''micron'', model = ''N25Q32'', nr_sector = 64,
    sector_erase_ok = True, subsector_erase = True, has_extended = True, tb_otp = False,
    tb_offset = 32, tb_register = STATR, bp_len = 3, bp_offset = [4, 8, 16, 0],
    quad_register = NONER, quad_mask = 0, global_lock = False\<rparr>),
  (0x20ba17, \<lparr>manufacturer = ''micron'', model = ''N25Q64'', nr_sector = 128,
    sector_erase_ok = True, subsector_erase = True, has_extended = True, tb_otp = False,
    tb_offset = 32, tb_register = STATR, bp_len = 4, bp_offset = [4, 8, 16, 64],
    quad_register = NONER, quad_mask = 0, global_lock = False\<rparr>),
  (0x20ba18, \<lparr>manufacturer = ''micron'', model = ''N25Q128_3V'', nr_sector = 256,
    sector_erase_ok = True, subsector_erase = True, has_extended = True, tb_otp = False,
    tb_offset = 32, tb_register = STATR, bp_len = 4, bp_offset = [4, 8, 16, 64],
    quad_register = NONER, quad_mask = 0, global_lock = False\<rparr>),
  (0x20ba19, \<lparr>manufacturer = ''micron'', model = ''N25Q256'', nr_sector = 512,
    sector_erase_ok = True, subsector_erase = True, has_extended = True, tb_otp = False,
    tb_offset = 32, tb_register = STATR, bp_len = 4, bp_offset = [4, 8, 16, 64],
    quad_register = NONER, quad_mask = 0, global_lock = False\<rparr>),
  (0x20bb18, \<lparr>manufacturer = ''micron'', model = ''MT25/N25Q128_1_8V'', nr_sector = 256,
    sector_erase_ok = True, subsector_erase = True, has_extended = True, tb_otp = False,
    tb_offset = 32, tb_register = STATR, bp_len = 4, bp_offset = [4, 8, 16, 64],
    quad_register = NONER, quad_mask = 0, global_lock = False\<rparr>)]"

definition flash_list_2 :: "(u32 \<times> flash_t) list" where
  "flash_list_2 = [
  (0x20bb19, \<lparr>manufacturer = ''micron'', model = ''N25Q256A'', nr_sector = 512,
    sector_erase_ok = True, subsector_erase = True, has_extended = True, tb_otp = False,
    tb_offset = 32, tb_register = STATR, bp_len = 4, bp_offset = [4, 8, 16, 64],
    quad_register = NONER, quad_mask = 0, global_lock = False\<rparr>),
  (0x20bb21, \<lparr>manufacturer = ''micron'', model = ''MT25QU01G'', nr_sector = 2048,
    sector_erase_ok = True, subsector_erase = True, has_extended = True, tb_otp = False,
    tb_offset = 32, tb_register = STATR, bp_len = 4, bp_offset = [4, 8, 16, 64],
    quad_register = NONER, quad_mask = 0, global_lock = False\<rparr>),
  (0x20bb22, \<lparr>manufacturer = ''micron'', model = ''MT25QU02G'', nr_sector = 4096,
    sector_erase_ok = True, subsector_erase = True, has_extended = True, tb_otp = False,
    tb_offset = 32, tb_register = STATR, bp_len = 4, bp_offset = [4, 8, 16, 64],
    quad_register = NONER, quad_mask = 0, global_lock = False\<rparr>),
  (0x9d6016, \<lparr>manufacturer = ''ISSI'', model = ''IS25LP032'', nr_sector = 64,
    sector_erase_ok = True, subsector_erase = True, has_extended = False, tb_otp = True,
    tb_offset = 2, tb_register = FUNCR, bp_len = 4, bp_offset = [4, 8, 16, 32],
    quad_register = NONER, quad_mask = 0, global_lock = False\<rparr>),
  (0x9d6017, \<lparr>manufacturer = ''ISSI'', model = ''IS25LP064'', nr_sector = 128,
    sector_erase_ok = True, subsector_erase = True, has_extended = False, tb_otp = True,
    tb_offset = 2, tb_register = FUNCR, bp_len = 4, bp_offset = [4, 8, 16, 32],
    quad_register = NONER, quad_mask = 0, global_lock = False\<rparr>),
  (0x9d6018, \<lparr>manufacturer = ''ISSI'', model = ''IS25LP128'', nr_sector = 256,
    sector_erase_ok = True, subsector_erase = True, has_extended = False, tb_otp = True,
    tb_offset = 2, tb_register = FUNCR, bp_len = 4, bp_offset = [4, 8, 16, 32],
    quad_register = NONER, quad_mask = 0, global_lock = False\<rparr>),
  (0x9d6019, \<lparr>manufacturer = ''ISSI'', model = ''IS25LP256'', nr_sector = 512,
    sector_erase_ok = True, subsector_erase = True, has_extended = False, tb_otp = True,
    tb_offset = 2, tb_register = FUNCR, bp_len = 4, bp_offset = [4, 8, 16, 32],
    quad_register = NONER, quad_mask = 0, global_lock = False\<rparr>),
  (0xba6015, \<lparr>manufacturer = ''Zetta'', model = ''ZD25WQ16CSIGT'', nr_sector = 32,
    sector_erase_ok = True, subsector_erase = True, has_extended = False, tb_otp = False,
    tb_offset = 32, tb_register = STATR, bp_len = 3, bp_offset = [4, 8, 16, 0],
    quad_register = NONER, quad_mask = 0, global_lock = False\<rparr>)]"

definition flash_list_3 :: "(u32 \<times> flash_t) list" where
  "flash_list_3 = [
  (0xbf258d, \<lparr>manufacturer = ''microchip'', model = ''SST25VF040B'', nr_sector = 8,
    sector_erase_ok = True, subsector_erase = True, has_extended = False, tb_otp = False,
    tb_offset = 0, tb_register = NONER, bp_len = 4, bp_offset = [4, 8, 16, 32],
    quad_register = NONER, quad_mask = 0, global_lock = False\<rparr>),
  (0xbf2642, \<lparr>manufacturer = ''microchip'', model = ''SST26VF032B'', nr_sector = 64,
    sector_erase_ok = False, subsector_erase = True, has_extended = False, tb_otp = False,
    tb_offset = 0, tb_register = NONER, bp_len = 0, bp_offset = [0, 0, 0, 0],
    quad_register = NONER, quad_mask = 0, global_lock = True\<rparr>),
  (0xbf2643, \<lparr>manufacturer = ''microchip'', model = ''SST26VF064B'', nr_sector = 128,
    sector_erase_ok = True, subsector_erase = True, has_extended = False, tb_otp = False,
    tb_offset = 0, tb_register = NONER, bp_len = 0, bp_offset = [0, 0, 0, 0],
    quad_register = NONER, quad_mask = 0, global_lock = True\<rparr>),
  (0xc22016, \<lparr>manufacturer = ''Macronix'', model = ''MX25L3233F'', nr_sector = 256,
    sector_erase_ok = True, subsector_erase = True, has_extended = False, tb_otp = True,
    tb_offset = 8, tb_register = CONFR, bp_len = 5, bp_offset = [4, 8, 16, 32],
    quad_register = STATR, quad_mask = 64, global_lock = False\<rparr>),
  (0xc22017, \<lparr>manufacturer = ''Macronix'', model = ''MX25L6405'', nr_sector = 128,
    sector_erase_ok = True, subsector_erase = True, has_extended = False, tb_otp = True,
    tb_offset = 0, tb_register = NONER, bp_len = 5, bp_offset = [4, 8, 16, 32],
    quad_register = NONER, quad_mask = 0, global_lock = False\<rparr>),
  (0xc22018, \<lparr>manufacturer = ''Macronix'', model = ''MX25L12833'', nr_sector = 256,
    sector_erase_ok = True, subsector_erase = True, has_extended = False, tb_otp = True,
    tb_offset = 8, tb_register = CONFR, bp_len = 5, bp_offset = [4, 8, 16, 32],
    quad_register = STATR, quad_mask = 64, global_lock = False\<rparr>),
  (0xc22019, \<lparr>manufacturer = ''Macronix'', model = ''MX25L25645G'', nr_sector = 512,
    sector_erase_ok = True, subsector_erase = True, has_extended = False, tb_otp = True,
    tb_offset = 8, tb_register = CONFR, bp_len = 5, bp_offset = [4, 8, 16, 32],
    quad_register = STATR, quad_mask = 64, global_lock = False\<rparr>),
  (0xc2201a, \<lparr>manufacturer = ''Macronix'', model = ''MX25L51245G'', nr_sector = 1024,
    sector_erase_ok = True, subsector_erase = True, has_extended = False, tb_otp = True,
    tb_offset = 8, tb_register = CONFR, bp_len = 5, bp_offset = [4, 8, 16, 32],
    quad_register = STATR, quad_mask = 64, global_lock = False\<rparr>)]"

definition flash_list_4 :: "(u32 \<times> flash_t) list" where
  "flash_list_4 = [
  (0xc22537, \<lparr>manufacturer = ''Macronix'', model = ''MX25U6432F'', nr_sector = 128,
    sector_erase_ok = True, subsector_erase = True, has_extended = False, tb_otp = True,
    tb_offset = 8, tb_register = CONFR, bp_len = 4, bp_offset = [4, 8, 16, 32],
    quad_register = STATR, quad_mask = 64, global_lock = False\<rparr>),
  (0xc84016, \<lparr>manufacturer = ''GigaDevice'', model = ''GD25Q32C'', nr_sector = 64,
    sector_erase_ok = True, subsector_erase = True, has_extended = False, tb_otp = False,
    tb_offset = 16384, tb_register = STATR, bp_len = 4, bp_offset = [4, 8, 16, 32],
    quad_register = STATR, quad_mask = 64, global_lock = False\<rparr>),
  (0xc22817, \<lparr>manufacturer = ''Macronix'', model = ''MX25R6435F'', nr_sector = 128,
    sector_erase_ok = True, subsector_erase = True, has_extended = False, tb_otp = True,
    tb_offset = 8, tb_register = CONFR, bp_len = 4, bp_offset = [4, 8, 16, 32],
    quad_register = NONER, quad_mask = 0, global_lock = False\<rparr>),
  (0xc22314, \<lparr>manufacturer = ''Macronix'', model = ''MX25V8035F'', nr_sector = 16,
    sector_erase_ok = True, subsector_erase = True, has_extended = False, tb_otp = True,
    tb_offset = 8, tb_register = CONFR, bp_len = 4, bp_offset = [4, 8, 16, 32],
    quad_register = STATR, quad_mask = 64, global_lock = False\<rparr>),
  (0xef4014, \<lparr>manufacturer = ''Winbond'', model = ''W25Q80BV'', nr_sector = 16,
    sector_erase_ok = True, subsector_erase = True, has_extended = False, tb_otp = False,
    tb_offset = 32, tb_register = STATR, bp_len = 3, bp_offset = [4, 8, 16, 0],
    quad_register = NONER, quad_mask = 0, global_lock = False\<rparr>),
  (0xef4015, \<lparr>manufacturer = ''Winbond'', model = ''W25Q16'', nr_sector = 32,
    sector_erase_ok = True, subsector_erase = True, has_extended = False, tb_otp = False,
    tb_offset = 32, tb_register = STATR, bp_len = 3, bp_offset = [4, 8, 16, 0],
    quad_register = NONER, quad_mask = 0, global_lock = False\<rparr>),
  (0xef4016, \<lparr>manufacturer = ''Winbond'', model = ''W25Q32'', nr_sector = 64,
    sector_erase_ok = True, subsector_erase = True, has_extended = False, tb_otp = False,
    tb_offset = 32, tb_register = STATR, bp_len = 3, bp_offset = [4, 8, 16, 0],
    quad_register = NONER, quad_mask = 0, global_lock = False\<rparr>),
  (0xef4017, \<lparr>manufacturer = ''Winbond'', model = ''W25Q64'', nr_sector = 128,
    sector_erase_ok = True, subsector_erase = True, has_extended = False, tb_otp = False,
    tb_offset = 32, tb_register = STATR, bp_len = 3, bp_offset = [4, 8, 16, 0],
    quad_register = NONER, quad_mask = 0, global_lock = False\<rparr>)]"

definition flash_list_5 :: "(u32 \<times> flash_t) list" where
  "flash_list_5 = [
  (0xef4018, \<lparr>manufacturer = ''Winbond'', model = ''W25Q128'', nr_sector = 256,
    sector_erase_ok = True, subsector_erase = True, has_extended = False, tb_otp = False,
    tb_offset = 32, tb_register = STATR, bp_len = 3, bp_offset = [4, 8, 16, 0],
    quad_register = NONER, quad_mask = 0, global_lock = False\<rparr>),
  (0x6bbb14, \<lparr>manufacturer = ''Everspin'', model = ''EM008LX'', nr_sector = 16,
    sector_erase_ok = True, subsector_erase = True, has_extended = True, tb_otp = False,
    tb_offset = 32, tb_register = STATR, bp_len = 4, bp_offset = [4, 8, 16, 64],
    quad_register = NONER, quad_mask = 0, global_lock = False\<rparr>),
  (0x6bbb15, \<lparr>manufacturer = ''Everspin'', model = ''EM016LX'', nr_sector = 32,
    sector_erase_ok = True, subsector_erase = True, has_extended = True, tb_otp = False,
    tb_offset = 32, tb_register = STATR, bp_len = 4, bp_offset = [4, 8, 16, 64],
    quad_register = NONER, quad_mask = 0, global_lock = False\<rparr>),
  (0x6bbb16, \<lparr>manufacturer = ''Everspin'', model = ''EM032LX'', nr_sector = 64,
    sector_erase_ok = True, subsector_erase = True, has_extended = True, tb_otp = False,
    tb_offset = 32, tb_register = STATR, bp_len = 4, bp_offset = [4, 8, 16, 64],
    quad_register = NONER, quad_mask = 0, global_lock = False\<rparr>),
  (0x6bbb17, \<lparr>manufacturer = ''Everspin'', model = ''EM064LX'', nr_sector = 128,
    sector_erase_ok = True, subsector_erase = True, has_extended = True, tb_otp = False,
    tb_offset = 32, tb_register = STATR, bp_len = 4, bp_offset = [4, 8, 16, 64],
    quad_register = NONER, quad_mask = 0, global_lock = False\<rparr>),
  (0x1f4216, \<lparr>manufacturer = ''Renesas'', model = ''AT25QL321'', nr_sector = 64,
    sector_erase_ok = True, subsector_erase = True, has_extended = False, tb_otp = False,
    tb_offset = 0, tb_register = NONER, bp_len = 0, bp_offset = [0, 0, 0, 0],
    quad_register = CONFR, quad_mask = 2, global_lock = False\<rparr>)]"

definition flash_list :: "(u32 \<times> flash_t) list" where
  "flash_list = flash_list_0 @ flash_list_1 @ flash_list_2 @ flash_list_3 @ flash_list_4 @ flash_list_5"

lemmas flash_list_defs = flash_list_def flash_list_0_def flash_list_1_def flash_list_2_def flash_list_3_def flash_list_4_def flash_list_5_def

subsection \<open>Facts of the table\<close>

text \<open>
  What the protection code relies on: four block protect masks that are distinct bits
  (or 0 for a device with fewer), a capacity between 8 and 4096 blocks of 64 kB that is a
  power of two.
\<close>

definition bp_offsets_ok :: "bytes \<Rightarrow> bool" where
  "bp_offsets_ok ms \<longleftrightarrow> ms \<in> {[4, 8, 16, 0], [4, 8, 16, 32], [4, 8, 16, 64], [0, 0, 0, 0]}"

definition flash_ok :: "flash_t \<Rightarrow> bool" where
  "flash_ok f \<longleftrightarrow> bp_offsets_ok (bp_offset f) \<and> (bp_offset f = [0, 0, 0, 0] \<longleftrightarrow> bp_len f = 0) \<and>
     (bp_offset f = [4, 8, 16, 0] \<longleftrightarrow> bp_len f = 3) \<and>
     nr_sector f \<in> {8, 16, 32, 64, 128, 256, 512, 1024, 2048, 4096}"

lemma flash_list_ok: "(k, f) \<in> set flash_list \<Longrightarrow> flash_ok f"
proof -
  have "list_all (\<lambda>(k, f). flash_ok f) flash_list"
    by (simp add: flash_list_defs flash_ok_def bp_offsets_ok_def)
  then show "(k, f) \<in> set flash_list \<Longrightarrow> flash_ok f" by (auto simp: list_all_iff)
qed

end
