(* ===== verification/Spi_Flash.thy ===== *)
theory Spi_Flash
  imports SpiFlash_Db "HOL-Library.Log_Nat"
begin

unbundle bit_operations_syntax

section \<open>The \<open>SPIFlash\<close> class: state, registers, block protection\<close>

text \<open>
  \<open>spiFlash.cpp\<close> over the abstract class \<open>FlashInterface\<close> (\<open>flashInterface.hpp\<close>), a record
  of the two transfer operations on the state of whatever carries them.  This theory
  holds the object, the register accesses and the block protection code; the erase,
  program, read and verify methods follow in \<open>Spi_Flash_Ops\<close>.  Messages on the terminal
  are left out; of the register display the decoding and the register reads are kept.
\<close>

subsection \<open>\<open>FlashInterface\<close>\<close>

text \<open>
  \<open>spi_put cmd tx want_rx len\<close>: the instruction, the transmit buffer or \<open>NULL\<close>, whether a
  receive buffer is given, the number of bytes; the result, the bytes received, the new
  state.  \<open>spi_wait cmd mask cond timeout verbose\<close> polls a register.
\<close>

record 'd spi_ops =
  spi_put :: "u8 \<Rightarrow> bytes option \<Rightarrow> bool \<Rightarrow> nat \<Rightarrow> 'd \<Rightarrow> int \<times> bytes \<times> 'd"
  spi_wait :: "u8 \<Rightarrow> u8 \<Rightarrow> u8 \<Rightarrow> nat \<Rightarrow> bool \<Rightarrow> 'd \<Rightarrow> int \<times> 'd"

abbreviation FLASH_WRSR :: u8 where "FLASH_WRSR \<equiv> 0x01"
abbreviation FLASH_PP :: u8 where "FLASH_PP \<equiv> 0x02"
abbreviation FLASH_READ :: u8 where "FLASH_READ \<equiv> 0x03"
abbreviation FLASH_WRDIS :: u8 where "FLASH_WRDIS \<equiv> 0x04"
abbreviation FLASH_RDSR :: u8 where "FLASH_RDSR \<equiv> 0x05"
abbreviation FLASH_RDSR_WIP :: u8 where "FLASH_RDSR_WIP \<equiv> 0x01"
abbreviation FLASH_RDSR_WEL :: u8 where "FLASH_RDSR_WEL \<equiv> 0x02"
abbreviation FLASH_WREN :: u8 where "FLASH_WREN \<equiv> 0x06"
abbreviation FLASH_4PP :: u8 where "FLASH_4PP \<equiv> 0x12"
abbreviation FLASH_4READ :: u8 where "FLASH_4READ \<equiv> 0x13"
abbreviation MX25L_RDCR :: u8 where "MX25L_RDCR \<equiv> 0x15"
abbreviation FLASH_SE :: u8 where "FLASH_SE \<equiv> 0x20"
abbreviation FLASH_4SE :: u8 where "FLASH_4SE \<equiv> 0x21"
abbreviation FLASH_RDCR :: u8 where "FLASH_RDCR \<equiv> 0x35"
abbreviation FLASH_WRFR :: u8 where "FLASH_WRFR \<equiv> 0x42"
abbreviation FLASH_RDFR :: u8 where "FLASH_RDFR \<equiv> 0x48"
abbreviation FLASH_BE32 :: u8 where "FLASH_BE32 \<equiv> 0x52"
abbreviation FLASH_4BE32 :: u8 where "FLASH_4BE32 \<equiv> 0x5c"
abbreviation FLASH_RSTEN :: u8 where "FLASH_RSTEN \<equiv> 0x66"
abbreviation FLASH_RBPR :: u8 where "FLASH_RBPR \<equiv> 0x72"
abbreviation FLASH_RDVCR :: u8 where "FLASH_RDVCR \<equiv> 0x85"
abbreviation FLASH_ULBPR :: u8 where "FLASH_ULBPR \<equiv> 0x98"
abbreviation FLASH_RST :: u8 where "FLASH_RST \<equiv> 0x99"
abbreviation FLASH_POWER_UP :: u8 where "FLASH_POWER_UP \<equiv> 0xab"
abbreviation FLASH_WRNVCR :: u8 where "FLASH_WRNVCR \<equiv> 0xb1"
abbreviation FLASH_RDNVCR :: u8 where "FLASH_RDNVCR \<equiv> 0xb5"
abbreviation FLASH_POWER_DOWN :: u8 where "FLASH_POWER_DOWN \<equiv> 0xb9"
abbreviation FLASH_CE :: u8 where "FLASH_CE \<equiv> 0xc7"
abbreviation FLASH_BE64 :: u8 where "FLASH_BE64 \<equiv> 0xd8"
abbreviation FLASH_4BE64 :: u8 where "FLASH_4BE64 \<equiv> 0xdc"

subsection \<open>The object\<close>

record spiflash =
  sf_verbose :: int
  sf_jedec_id :: u32
  sf_flash_model :: "flash_t option"
  sf_unprotect :: bool
  sf_must_relock :: bool
  sf_status :: u8

definition reset :: "'d spi_ops \<Rightarrow> 'd \<Rightarrow> 'd" where
  "reset ops d =
     (let (_, _, d) = spi_put ops 0xff (Some (replicate 8 0xff)) False 8 d;
          (_, _, d) = spi_put ops FLASH_RSTEN None False 0 d;
          (_, _, d) = spi_put ops FLASH_RST None False 0 d
      in d)"

definition power_up :: "'d spi_ops \<Rightarrow> 'd \<Rightarrow> 'd" where
  "power_up ops d = (let (_, _, d) = spi_put ops FLASH_POWER_UP None False 0 d in d)"

definition power_down :: "'d spi_ops \<Rightarrow> 'd \<Rightarrow> 'd" where
  "power_down ops d = (let (_, _, d) = spi_put ops FLASH_POWER_DOWN None False 0 d in d)"

text \<open>
  \<open>read_id\<close>: four bytes, most significant first.  The test for a failed read compares the
  24 bits above the last byte with \<open>0xffff\<close>, as the source does.
\<close>

definition jedec_of :: "bytes \<Rightarrow> u32" where
  "jedec_of rx = foldl (\<lambda>a b. push_bit 8 a OR ucast b) 0 (take 4 rx)"

definition read_id :: "'d spi_ops \<Rightarrow> spiflash \<Rightarrow> 'd \<Rightarrow> exn option \<times> spiflash \<times> 'd" where
  "read_id ops sf d =
     (let (_, rx, d) = spi_put ops 0x9f None True 4 d;
          sf = sf\<lparr>sf_jedec_id := jedec_of rx\<rparr>
      in if drop_bit 8 (sf_jedec_id sf) = 0xffff \<or> drop_bit 8 (sf_jedec_id sf) = 0
         then (Some (Runtime_error ''Read ID failed''), sf, d)
         else case map_of flash_list (drop_bit 8 (sf_jedec_id sf)) of
             Some t \<Rightarrow> (None, sf\<lparr>sf_flash_model := Some t\<rparr>, d)
           | None \<Rightarrow> (None, sf, d))"

text \<open>The constructor; the exception of \<open>read_id\<close> leaves no object, but the device has moved.\<close>

definition spiflash_ctor :: "'d spi_ops \<Rightarrow> bool \<Rightarrow> int \<Rightarrow> 'd \<Rightarrow> spiflash res \<times> 'd" where
  "spiflash_ctor ops unprotect verbose d =
     (let sf = \<lparr>sf_verbose = verbose, sf_jedec_id = 0, sf_flash_model = None,
                sf_unprotect = unprotect, sf_must_relock = False, sf_status = 0\<rparr>;
          d = reset ops d; d = power_up ops d;
          (e, sf, d) = read_id ops sf d
      in case e of None \<Rightarrow> (Inr sf, d) | Some ex \<Rightarrow> (Inl ex, d))"

subsection \<open>Registers\<close>

definition read_status_reg :: "'d spi_ops \<Rightarrow> 'd \<Rightarrow> u8 \<times> 'd" where
  "read_status_reg ops d = (let (_, rx, d) = spi_put ops FLASH_RDSR None True 1 d in (rx ! 0, d))"

definition readNonVolatileCfgReg :: "'d spi_ops \<Rightarrow> 'd \<Rightarrow> u16 \<times> 'd" where
  "readNonVolatileCfgReg ops d = (let (_, rx, d) = spi_put ops FLASH_RDNVCR None True 2 d in
     (push_bit 8 (ucast (rx ! 1)) OR ucast (rx ! 0), d))"

definition readVolatileCfgReg :: "'d spi_ops \<Rightarrow> 'd \<Rightarrow> u16 \<times> 'd" where
  "readVolatileCfgReg ops d = (let (_, rx, d) = spi_put ops FLASH_RDVCR None True 2 d in
     (push_bit 8 (ucast (rx ! 1)) OR ucast (rx ! 0), d))"

definition write_enable :: "'d spi_ops \<Rightarrow> 'd \<Rightarrow> int \<times> 'd" where
  "write_enable ops d =
     (let (_, _, d) = spi_put ops FLASH_WREN None False 0 d;
          (r, d) = spi_wait ops FLASH_RDSR FLASH_RDSR_WEL FLASH_RDSR_WEL 1000 False d
      in if r \<noteq> 0 then (-1, d) else (0, d))"

definition write_disable :: "'d spi_ops \<Rightarrow> 'd \<Rightarrow> int \<times> 'd" where
  "write_disable ops d =
     (let (_, _, d) = spi_put ops FLASH_WRDIS None False 0 d
      in spi_wait ops FLASH_RDSR FLASH_RDSR_WEL 0 1000 False d)"

subsection \<open>Block protection codes\<close>

text \<open>
  \<open>bp_offset\<close> has four elements; reading a fifth is outside the array.
\<close>

definition get_bp_mask :: "flash_t option \<Rightarrow> u8 res" where
  "get_bp_mask m = (case m of
     None \<Rightarrow> Inr 0x1c
   | Some f \<Rightarrow> if unat (bp_len f) > 4 then Inl Out_of_bounds
       else Inr (foldl (OR) 0 (map (\<lambda>i. bp_offset f ! i) [0..<unat (bp_len f)])))"

definition get_bp :: "'d spi_ops \<Rightarrow> spiflash \<Rightarrow> 'd \<Rightarrow> (u8 \<times> 'd) res" where
  "get_bp ops sf d =
     (let (status, d) = read_status_reg ops d in
      bindE (get_bp_mask (sf_flash_model sf)) (\<lambda>mask. Inr (status AND mask, d)))"

text \<open>
  \<open>get_tb\<close>: -1 for a register it does not know.  The 8-bit status is compared with the
  16-bit mask.
\<close>

definition tb_of :: "flash_t \<Rightarrow> u8 \<Rightarrow> int" where
  "tb_of f status = (if (ucast status :: u16) AND tb_offset f \<noteq> 0 then 1 else 0)"

definition get_tb :: "'d spi_ops \<Rightarrow> spiflash \<Rightarrow> 'd \<Rightarrow> (int \<times> 'd) res" where
  "get_tb ops sf d = (case sf_flash_model sf of
     None \<Rightarrow> Inl Null_deref
   | Some f \<Rightarrow> (case tb_register f of
         STATR \<Rightarrow> (let (status, d) = read_status_reg ops d in Inr (tb_of f status, d))
       | FUNCR \<Rightarrow> (let (_, rx, d) = spi_put ops FLASH_RDFR None True 1 d in
                    Inr (tb_of f (rx ! 0), d))
       | CONFR \<Rightarrow> (let (_, rx, d) = (if drop_bit 8 (sf_jedec_id sf) = 0xc220
                      then spi_put ops MX25L_RDCR None True 1 d
                      else spi_put ops FLASH_RDCR None True 1 d) in
                    Inr (tb_of f (rx ! 0), d))
       | NONER \<Rightarrow> Inr (0, d)
       | NVCONFR \<Rightarrow> Inr (-1, d)))"

text \<open>The code \<open>BP[3:0]\<close> from its scattered bits, and back.\<close>

definition bp_gather :: "bytes \<Rightarrow> u8 \<Rightarrow> u8" where
  "bp_gather offs bp = foldl (\<lambda>tmp i. if bp AND offs ! i \<noteq> 0 then tmp OR push_bit i 1 else tmp) 0 [0..<4]"

definition bp_scatter :: "bytes \<Rightarrow> u8 \<Rightarrow> u8" where
  "bp_scatter offs bp = foldl (\<lambda>tmp i. if bp AND push_bit i 1 \<noteq> 0 then tmp OR offs ! i else tmp) 0 [0..<4]"

text \<open>The protected area as its first and last address, \<open>(0, 0)\<close> for none.\<close>

definition bp_to_len :: "flash_t \<Rightarrow> u8 \<Rightarrow> u8 \<Rightarrow> u32 \<times> u32" where
  "bp_to_len f bp tb =
     (if bp = 0 then (0, 0)
      else let tmp = bp_gather (bp_offset f) bp in
        if tmp = 0 then (0, 0)
        else let nr_sectors = push_bit (unat tmp - 1) 1 :: u16;
                 len = ucast nr_sectors * 0x10000 :: u32
             in if tb = 1 then (0, len - 1)
                else let end_addr = nr_sector f * 0x10000 - 1 in (end_addr + 1 - len, end_addr))"

text \<open>
  \<open>ceil(log2(len))\<close> is exact on the 16-bit sector counts it is applied to.  For a length
  that wraps to no sector, \<open>log2(0)\<close> is minus infinity and its conversion undefined.
\<close>

definition len_to_bp :: "flash_t \<Rightarrow> u32 \<Rightarrow> u8 res" where
  "len_to_bp f len =
     (if len = 0 then Inr 0
      else let n = ((len + 0xffff) AND NOT 0xffff) div 0x10000 in
        if n = 0 then Inl Undefined
        else Inr (bp_scatter (bp_offset f) (1 + of_nat (ceillog2 (unat n)))))"

subsection \<open>Display of the status register\<close>

text \<open>The TB and BP fields that \<open>display_status_reg\<close> prints.\<close>

definition status_tb_bp :: "flash_t option \<Rightarrow> u8 \<Rightarrow> (u8 \<times> u8) res" where
  "status_tb_bp m reg = (case m of
     None \<Rightarrow> Inr (drop_bit 5 reg AND 1, push_bit 3 (drop_bit 6 reg AND 1) OR (drop_bit 2 reg AND 7))
   | Some f \<Rightarrow>
       if bp_len f = 0 then Inr (0, 0)
       else if unat (bp_len f) > 4 then Inl Out_of_bounds
       else Inr (if (ucast reg :: u16) AND tb_offset f \<noteq> 0 then 1 else 0,
              foldl (\<lambda>bp i. if reg AND bp_offset f ! i \<noteq> 0 then bp OR push_bit i 1 else bp) 0
                [0..<unat (bp_len f)]))"

text \<open>The register that is read for the second part of the display, with its width.\<close>

definition display_extra_reg :: "u32 \<Rightarrow> (u8 \<times> nat) option" where
  "display_extra_reg jedec =
     (let dev_id = drop_bit 16 jedec AND 0xffff in
      if dev_id = 0x9d60 then Some (FLASH_RDFR, 1)
      else if dev_id = 0x0102 \<or> dev_id = 0x0120 then Some (FLASH_RDCR, 1)
      else if dev_id = 0x0160 then Some (FLASH_RDCR, 1)
      else if dev_id = 0x20ba then Some (FLASH_RDNVCR, 2)
      else if dev_id = 0xc220 then Some (MX25L_RDCR, 1)
      else None)"

definition display_status_reg :: "'d spi_ops \<Rightarrow> spiflash \<Rightarrow> u8 \<Rightarrow> 'd \<Rightarrow> 'd res" where
  "display_status_reg ops sf reg d =
     bindE (status_tb_bp (sf_flash_model sf) reg) (\<lambda>_.
       case display_extra_reg (sf_jedec_id sf) of
         None \<Rightarrow> Inr d
       | Some (cmd, n) \<Rightarrow> (let (_, _, d) = spi_put ops cmd None True n d in Inr d))"

definition display_if_verbose :: "'d spi_ops \<Rightarrow> spiflash \<Rightarrow> 'd \<Rightarrow> 'd res" where
  "display_if_verbose ops sf d =
     (if sf_verbose sf > 0 then
        let (status, d) = read_status_reg ops d in display_status_reg ops sf status d
      else Inr d)"

subsection \<open>Changing the protection\<close>

definition disable_protection :: "'d spi_ops \<Rightarrow> spiflash \<Rightarrow> 'd \<Rightarrow> (int \<times> 'd) res" where
  "disable_protection ops sf d =
     (if (case sf_flash_model sf of Some f \<Rightarrow> bp_len f = 0 | None \<Rightarrow> False) then Inr (0, d)
      else let (data, d) = read_status_reg ops d in
        bindE (get_bp_mask (sf_flash_model sf)) (\<lambda>mask.
          let data = data AND NOT mask; (r, d) = write_enable ops d in
          if r = -1 then Inr (-1, d)
          else let (_, _, d) = spi_put ops FLASH_WRSR (Some [data]) False 1 d;
                   (r, d) = spi_wait ops FLASH_RDSR 0xff data 1000 False d in
            if r < 0 then Inr (-1, d)
            else let (status, d) = read_status_reg ops d in
              if status \<noteq> 0 then Inr (-1, d) else Inr (0, d)))"

text \<open>The overload on a protection code.\<close>

definition enable_protection_code :: "'d spi_ops \<Rightarrow> spiflash \<Rightarrow> u8 \<Rightarrow> 'd \<Rightarrow> (int \<times> 'd) res" where
  "enable_protection_code ops sf protect_code d =
     (if (case sf_flash_model sf of Some f \<Rightarrow> bp_len f = 0 | None \<Rightarrow> False) then Inr (-1, d)
      else let (r, d) = write_enable ops d in
        if r = -1 then Inr (-1, d)
        else let (_, _, d) = spi_put ops FLASH_WRSR (Some [protect_code]) False 1 d;
                 (r, d) = spi_wait ops FLASH_RDSR 0xff protect_code 1000 False d in
          if r < 0 then Inr (-1, d)
          else let (status, d) = read_status_reg ops d in
            if status \<noteq> protect_code then Inr (-1, d)
            else bindE (display_if_verbose ops sf d) (\<lambda>d. Inr (0, d)))"

text \<open>
  The overload on a length.  \<open>confirm\<close> is the answer typed by the user when the TB bit can
  be set only once.
\<close>

definition enable_protection_len :: "'d spi_ops \<Rightarrow> spiflash \<Rightarrow> string \<Rightarrow> u32 \<Rightarrow> 'd \<Rightarrow> (int \<times> 'd) res" where
  "enable_protection_len ops sf confirm len d = (case sf_flash_model sf of
     None \<Rightarrow> Inr (-1, d)
   | Some f \<Rightarrow>
       if bp_len f = 0 then Inr (-1, d)
       else
         bindE (get_bp_mask (Some f)) (\<lambda>mask.
         let (tmp, d) = read_status_reg ops d; tmp = tmp AND NOT mask in
         bindE (len_to_bp f len) (\<lambda>code.
         let bp = tmp OR code in
         bindE (if tb_otp f \<and> tb_register f \<noteq> NONER then
                  bindE (get_tb ops sf d) (\<lambda>(tb, d). Inr (tb = 0 \<and> confirm \<noteq> ''y'', d))
                else Inr (False, d)) (\<lambda>(refused, d).
         if refused then Inr (-1, d)
         else if drop_bit 8 (sf_jedec_id sf) = 0x010216 then
           let (_, rx, d) = spi_put ops FLASH_RDCR None True 1 d;
               cfg = [bp, ucast ((ucast (rx ! 0) :: u16) OR tb_offset f)];
               (_, _, d) = spi_put ops FLASH_WRSR (Some cfg) False 2 d;
               (r, d) = spi_wait ops FLASH_RDSR 0x03 0 1000 False d
           in if r < 0 then Inr (-1, d) else Inr (0, d)
         else
           let bp = (if tb_register f = STATR then ucast ((ucast bp :: u16) OR tb_offset f) else bp) in
           bindE (enable_protection_code ops sf bp d) (\<lambda>(ret, d).
              if tb_register f = NONER then Inr (ret, d)
              else if tb_register f \<noteq> STATR then
                if ret = -1 then Inr (ret, d)
                else if tb_register f = FUNCR then
                  let val = ucast (tb_offset f) :: u8; (r, d) = write_enable ops d in
                  if r \<noteq> 0 then Inr (-1, d)
                  else let (_, _, d) = spi_put ops FLASH_WRFR (Some [val]) False 1 d;
                           (r, d) = spi_wait ops FLASH_RDSR 0x03 0 1000 False d in
                    if r < 0 then Inr (-1, d)
                    else let (_, rx, d) = spi_put ops FLASH_RDFR None True 1 d in
                      if rx ! 0 AND val = 0 then Inr (-1, d) else Inr (ret, d)
                else Inr (-1, d)
              else Inr (ret, d))))))"

definition global_unlock :: "'d spi_ops \<Rightarrow> 'd \<Rightarrow> bool \<times> 'd" where
  "global_unlock ops d =
     (let (r, d) = write_enable ops d in
      if r \<noteq> 0 then (False, d)
      else let (_, _, d) = spi_put ops FLASH_ULBPR None False 0 d;
               (r, d) = spi_wait ops FLASH_RDSR 0xff 0 1000 False d in
        if r < 0 then (False, d)
        else let (_, rx2, d) = spi_put ops FLASH_RBPR None True 10 d in
          (list_all (\<lambda>b. b = 0) (take 10 rx2), d))"

text \<open>
  \<open>set_quad_bit\<close> reads and writes the register as a little-endian \<open>uint16_t\<close> of which one
  or two bytes are transferred.
\<close>

definition le16 :: "nat \<Rightarrow> bytes \<Rightarrow> u16" where
  "le16 n bs = (if n = 1 then ucast (bs ! 0) else push_bit 8 (ucast (bs ! 1)) OR ucast (bs ! 0))"

definition le16_bytes :: "nat \<Rightarrow> u16 \<Rightarrow> bytes" where
  "le16_bytes n v = take n [byte_of v 0, byte_of v 1]"

definition quad_regs :: "tb_loc_t \<Rightarrow> (u8 \<times> u8 \<times> nat \<times> nat) option" where
  "quad_regs r = (case r of
     STATR \<Rightarrow> Some (FLASH_RDSR, FLASH_WRSR, 1, 1)
   | NVCONFR \<Rightarrow> Some (FLASH_RDNVCR, FLASH_WRNVCR, 2, 2)
   | CONFR \<Rightarrow> Some (FLASH_RDCR, FLASH_WRSR, 1, 2)
   | _ \<Rightarrow> None)"

definition set_quad_bit :: "'d spi_ops \<Rightarrow> spiflash \<Rightarrow> bool \<Rightarrow> 'd \<Rightarrow> bool \<times> 'd" where
  "set_quad_bit ops sf set_quad d = (case sf_flash_model sf of
     None \<Rightarrow> (False, d)
   | Some f \<Rightarrow>
       if quad_mask f = 0 \<or> quad_register f = NONER then (False, d)
       else case quad_regs (quad_register f) of
         None \<Rightarrow> (False, d)
       | Some (reg_rd, reg_wr, nb_rd_byte, nb_wr_byte) \<Rightarrow>
           let (_, rx, d) = spi_put ops reg_rd None True nb_rd_byte d;
               reg_val = le16 nb_rd_byte rx AND NOT (quad_mask f);
               set_quad = (if sf_jedec_id sf = 0x20ba then \<not> set_quad else set_quad);
               quad_bit = (if set_quad then quad_mask f else 0);
               reg_val = reg_val OR quad_bit;
               (r, d) = write_enable ops d
           in if r \<noteq> 0 then (False, d)
              else
                let (reg_val, d) = (if quad_register f = CONFR then
                      let (status, d) = read_status_reg ops d in
                      (push_bit 8 (reg_val AND 0xff) OR ucast status, d)
                    else (reg_val, d));
                    (_, _, d) = spi_put ops reg_wr (Some (le16_bytes nb_wr_byte reg_val)) False nb_wr_byte d;
                    (r, d) = spi_wait ops FLASH_RDSR FLASH_RDSR_WIP 0 10000 False d
                in if r \<noteq> 0 then (False, d)
                   else let (_, rx, d) = spi_put ops reg_rd None True nb_rd_byte d in
                     (le16 nb_rd_byte rx AND quad_mask f = quad_bit, d))"

subsection \<open>Codes of the protected area\<close>

text \<open>Gathering undoes scattering where every bit of the code has its own mask.\<close>

lemma bp_gather_scatter_all:
  "list_all (\<lambda>offs. list_all (\<lambda>c. bp_gather offs (bp_scatter offs c) = c) (map of_nat [0..<16]))
     [[4, 8, 16, 32], [4, 8, 16, 64]]"
  "list_all (\<lambda>c. bp_gather [4, 8, 16, 0] (bp_scatter [4, 8, 16, 0] c) = c) (map of_nat [0..<8])"
  by code_simp+

lemma bp_gather_scatter:
  assumes "offs \<in> {[4, 8, 16, 32], [4, 8, 16, 64]}" and "c < 16"
  shows "bp_gather offs (bp_scatter offs c) = c"
  using bp_gather_scatter_all(1) assms(1) word_in_of_nats [of c 16] assms(2)
  unfolding list_all_iff by (auto simp: word_less_nat_alt)

lemma bp_gather_scatter_3:
  assumes "c < 8"
  shows "bp_gather [4, 8, 16, 0] (bp_scatter [4, 8, 16, 0] c) = c"
  using bp_gather_scatter_all(2) word_in_of_nats [of c 8] assms
  unfolding list_all_iff by (auto simp: word_less_nat_alt)

text \<open>The sectors of a length, and the power of two that covers them.\<close>

lemma sectors_of_len:
  fixes len :: u32
  assumes "unat len + 0xffff < 2 ^ 32"
  shows "unat (((len + 0xffff) AND NOT 0xffff) div 0x10000) = (unat len + 0xffff) div 0x10000"
proof -
  have m: "(0xffff :: u32) = mask 16" by (simp add: mask_eq_exp_minus_1)
  have "((len + 0xffff) AND NOT 0xffff) div 2 ^ 16 = drop_bit 16 (len + 0xffff)"
    unfolding m drop_bit_eq_div [symmetric] by (rule bit_word_eqI) (auto simp: bit_simps dest: bit_imp_le_length)
  then have "unat (((len + 0xffff) AND NOT 0xffff) div 0x10000) = unat (len + 0xffff) div 0x10000"
    by (simp add: unat_drop_bit_eq drop_bit_eq_div unat_div)
  also have "unat (len + 0xffff) = unat len + 0xffff"
    using assms by (subst unat_add_lem [THEN iffD1]) simp_all
  finally show ?thesis .
qed

lemma ceil_sectors:
  fixes l k n :: nat
  assumes "n = (l + 0xffff) div 0x10000" "0 < l" "k = ceillog2 n"
  shows "0 < n" "l \<le> 2 ^ k * 0x10000" "k = 0 \<or> 2 ^ (k - 1) * 0x10000 < l"
proof -
  show n: "0 < n" using assms(1,2) by simp
  have "n \<le> 2 ^ k" using le_two_power_ceillog2 assms(3) by simp
  moreover have "l \<le> n * 0x10000" using assms(1) by simp
  ultimately show "l \<le> 2 ^ k * 0x10000"
    by (meson le_trans mult_le_mono1)
  show "k = 0 \<or> 2 ^ (k - 1) * 0x10000 < l"
  proof (cases k)
    case (Suc j)
    then have "2 ^ j < n" using two_power_ceillog2_gt [OF n] assms(3) by simp
    then have "2 ^ j + 1 \<le> (l + 0xffff) div 0x10000" using assms(1) by simp
    then have "(2 ^ j + 1) * 0x10000 \<le> l + 0xffff" by (simp add: less_eq_div_iff_mult_less_eq)
    then show ?thesis using Suc by simp
  qed simp
qed

lemma ucast_two_power: "k \<le> 15 \<Longrightarrow> (ucast (2 ^ k :: u16) :: u32) = 2 ^ k"
  by (rule bit_word_eqI) (auto simp: bit_simps)

end
