(* ===== verification/Spi_Flash_Ops.thy ===== *)
theory Spi_Flash_Ops
  imports Spi_Flash
begin

unbundle bit_operations_syntax

section \<open>Erasing, programming and reading through \<open>SPIFlash\<close>\<close>

text \<open>
  The methods of \<open>spiFlash.cpp\<close> that move data, and \<open>FlashDataSection\<close>.  Addresses and
  lengths of C type \<open>int\<close> are integers (the source relies on their sums not overflowing,
  which would be undefined); where the source converts to \<open>uint32_t\<close> the conversion is
  written out.  A loop over a buffer consumes the list of its bytes.
\<close>

subsection \<open>\<open>FlashDataSection\<close>\<close>

record FlashDataSection =
  start_addr :: u32
  sec_record :: bytes

definition sec_new :: "u32 \<Rightarrow> FlashDataSection" where
  "sec_new addr = \<lparr>start_addr = addr, sec_record = []\<rparr>"

definition sec_append :: "FlashDataSection \<Rightarrow> bytes \<Rightarrow> FlashDataSection" where
  "sec_append s data = s\<lparr>sec_record := sec_record s @ data\<rparr>"

definition getCurrentAddr :: "FlashDataSection \<Rightarrow> u32" where
  "getCurrentAddr s = start_addr s + of_nat (length (sec_record s))"

subsection \<open>Erasing\<close>

text \<open>
  The address bytes, most significant first: three of them up to \<open>0xffffff\<close>, four beyond.
\<close>

definition addr_byte :: "int \<Rightarrow> nat \<Rightarrow> u8" where
  "addr_byte a k = word_of_int (drop_bit k a)"

definition addr_bytes :: "int \<Rightarrow> bytes" where
  "addr_bytes a =
     (if a \<le> 0xffffff then [] else [addr_byte a 24]) @
     [addr_byte a 16, addr_byte a 8, addr_byte a 0]"

definition sector_erase :: "'d spi_ops \<Rightarrow> int \<Rightarrow> 'd \<Rightarrow> int \<times> 'd" where
  "sector_erase ops a d =
     (let cmd = (if a \<le> 0xffffff then FLASH_SE else FLASH_4SE);
          tx = addr_bytes a;
          (_, _, d) = spi_put ops cmd (Some tx) False (length tx) d
      in (0, d))"

definition block32_erase :: "'d spi_ops \<Rightarrow> int \<Rightarrow> 'd \<Rightarrow> int \<times> 'd" where
  "block32_erase ops a d =
     (let cmd = (if a \<le> 0xffffff then FLASH_BE32 else FLASH_4BE32);
          tx = addr_bytes a;
          (_, _, d) = spi_put ops cmd (Some tx) False (length tx) d
      in (0, d))"

definition block64_erase :: "'d spi_ops \<Rightarrow> int \<Rightarrow> 'd \<Rightarrow> int \<times> 'd" where
  "block64_erase ops a d =
     (let cmd = (if a \<le> 0xffffff then FLASH_BE64 else FLASH_4BE64);
          tx = addr_bytes a;
          (_, _, d) = spi_put ops cmd (Some tx) False (length tx) d
      in (0, d))"

text \<open>
  The loop of \<open>sectors_erase\<close>.  Its variable \<open>step\<close> takes the values \<open>0x10000\<close> and
  \<open>0x1000\<close> only; \<open>small\<close> says that it is the latter.
\<close>

definition step_of :: "bool \<Rightarrow> int" where
  "step_of small = (if small then 0x1000 else 0x10000)"

function erase_loop ::
  "'d spi_ops \<Rightarrow> bool \<Rightarrow> bool \<Rightarrow> int \<Rightarrow> bool \<Rightarrow> int \<Rightarrow> 'd \<Rightarrow> int \<times> 'd" where
  "erase_loop ops sector_rdy subsector_rdy end_addr small a d =
     (if a \<ge> end_addr then (0, d)
      else let (r, d) = write_enable ops d in
        if r = -1 then (-1, d)
        else
          let use_sub = (\<not> sector_rdy \<or> (a + step_of small > end_addr \<and> subsector_rdy));
              small = (use_sub \<or> small);
              (ret, d) = (if use_sub then sector_erase ops a d else block64_erase ops a d)
          in if ret = -1 then (-1, d)
             else let (w, d) = spi_wait ops FLASH_RDSR FLASH_RDSR_WIP 0 100000 False d in
               if w = -1 then (-1, d)
               else erase_loop ops sector_rdy subsector_rdy end_addr small (a + step_of small) d)"
  by pat_completeness auto
termination
  by (relation "measure (\<lambda>(ops, s, ss, e, sm, a, d). nat (e - a))") (auto simp: step_of_def)

declare erase_loop.simps [simp del]

definition sector_ready :: "spiflash \<Rightarrow> bool" where
  "sector_ready sf = (case sf_flash_model sf of None \<Rightarrow> True | Some f \<Rightarrow> sector_erase_ok f)"

definition subsector_ready :: "spiflash \<Rightarrow> bool" where
  "subsector_ready sf = (case sf_flash_model sf of None \<Rightarrow> False | Some f \<Rightarrow> subsector_erase f)"

definition erase_end :: "spiflash \<Rightarrow> int \<Rightarrow> int \<Rightarrow> int" where
  "erase_end sf base_addr len =
     (if subsector_ready sf then (base_addr + len + 0xfff) AND NOT 0xfff
      else (base_addr + len + 0xffff) AND NOT 0xffff)"

definition sectors_erase :: "'d spi_ops \<Rightarrow> spiflash \<Rightarrow> int \<Rightarrow> int \<Rightarrow> 'd \<Rightarrow> int \<times> 'd" where
  "sectors_erase ops sf base_addr len d =
     erase_loop ops (sector_ready sf) (subsector_ready sf) (erase_end sf base_addr len)
       (\<not> sector_ready sf) base_addr d"

definition bulk_erase :: "'d spi_ops \<Rightarrow> spiflash \<Rightarrow> bool \<Rightarrow> 'd \<Rightarrow> (int \<times> 'd) res" where
  "bulk_erase ops sf skip_bp_check d =
     bindE (if skip_bp_check then Inr (None, 0, d)
            else bindE (get_bp ops sf d) (\<lambda>(bp, d).
              if bp \<noteq> 0 then
                if \<not> sf_unprotect sf then Inr (Some (-1), bp, d)
                else bindE (disable_protection ops sf d) (\<lambda>(ret, d).
                  if ret \<noteq> 0 then Inr (Some ret, bp, d) else Inr (None, bp, d))
              else Inr (None, bp, d)))
       (\<lambda>(early, bp, d). case early of
          Some ret \<Rightarrow> Inr (ret, d)
        | None \<Rightarrow>
            let (ret, d) = write_enable ops d in
            if ret \<noteq> 0 then Inr (ret, d)
            else
              let (ret2, _, d) = spi_put ops FLASH_CE None False 0 d;
                  (ret2, d) = (if ret2 = 0 then spi_wait ops FLASH_RDSR FLASH_RDSR_WIP 0 1000000 False d
                               else (ret2, d))
              in if \<not> skip_bp_check \<and> bp \<noteq> 0 then
                   bindE (enable_protection_code ops sf bp d) (\<lambda>(ret, d). Inr (ret OR ret2, d))
                 else Inr (ret OR ret2, d))"

subsection \<open>Programming\<close>

definition write_page :: "'d spi_ops \<Rightarrow> int \<Rightarrow> bytes \<Rightarrow> 'd \<Rightarrow> int \<times> 'd" where
  "write_page ops a data d =
     (let write_cmd = (if a \<le> 0xffffff then FLASH_PP else FLASH_4PP);
          tx = addr_bytes a @ data;
          (r, d) = write_enable ops d
      in if r = -1 then (-1, d)
         else let (_, _, d) = spi_put ops write_cmd (Some tx) False (length tx) d
              in spi_wait ops FLASH_RDSR FLASH_RDSR_WIP 0 1000 False d)"

text \<open>
  The page loop of the two \<open>erase_and_prog\<close>: \<open>adr\<close> gives the address, converted to \<open>int\<close>,
  of the byte at an offset of the buffer.
\<close>

definition page_size :: "spiflash \<Rightarrow> nat \<Rightarrow> nat" where
  "page_size sf remaining = (if drop_bit 8 (sf_jedec_id sf) = 0xbf258d then 1 else min 256 remaining)"

function prog_loop ::
  "'d spi_ops \<Rightarrow> spiflash \<Rightarrow> (nat \<Rightarrow> int) \<Rightarrow> nat \<Rightarrow> bytes \<Rightarrow> 'd \<Rightarrow> int \<times> 'd" where
  "prog_loop ops sf adr off data d =
     (if data = [] then (0, d)
      else let n = page_size sf (length data);
               (r, d) = write_page ops (adr off) (take n data) d
           in if r = -1 then (-1, d)
              else prog_loop ops sf adr (off + n) (drop n data) d)"
  by pat_completeness auto
termination
  by (relation "measure (\<lambda>(ops, sf, adr, off, data, d). length data)") (auto simp: page_size_def)

declare prog_loop.simps [simp del]

subsection \<open>Checks before a write\<close>

text \<open>
  \<open>prepare_flash\<close> in three parts: what it learns of the protected area, the exceptions made
  for three chips, and the unlocking.
\<close>

definition overlaps_lock :: "flash_t \<Rightarrow> u8 \<Rightarrow> int \<Rightarrow> int \<Rightarrow> int \<Rightarrow> bool" where
  "overlaps_lock f status tb base_addr len =
     (let (lock_start, lock_end) = bp_to_len f status (word_of_int tb) in
      if lock_start \<noteq> 0 \<or> lock_end \<noteq> 0 then
        if tb = 1 then word_of_int base_addr \<le> lock_end
        else word_of_int (base_addr + len) \<ge> lock_start
      else False)"

definition forced_unlock :: "u32 \<Rightarrow> int \<Rightarrow> int \<Rightarrow> bool" where
  "forced_unlock jedec_id tb base_addr =
     (let jedec = drop_bit 8 jedec_id in
      (jedec = 0x9d6016 \<or> jedec = 0x202015 \<or> jedec = 0xc22017) \<and> tb = 1 \<and> base_addr \<noteq> 0)"

definition check_known ::
  "'d spi_ops \<Rightarrow> spiflash \<Rightarrow> flash_t \<Rightarrow> int \<Rightarrow> int \<Rightarrow> 'd \<Rightarrow> (bool \<times> spiflash \<times> 'd) res" where
  "check_known ops sf f base_addr len d =
     (let (ok, d) = (if global_lock f then global_unlock ops d else (True, d)) in
      if \<not> ok then Inr (False, sf, d)
      else if (word_of_int (base_addr + len) :: u32) > nr_sector f * 0x10000 then Inr (False, sf, d)
      else if bp_len f = 0 then Inr (True, sf, d)
      else bindE (get_tb ops sf d) (\<lambda>(tb, d).
        if tb = -1 then Inr (False, sf, d)
        else
          let sf = (if overlaps_lock f (sf_status sf) tb base_addr len
                    then sf\<lparr>sf_must_relock := True\<rparr> else sf);
              sf = (if forced_unlock (sf_jedec_id sf) tb base_addr
                    then sf\<lparr>sf_unprotect := True, sf_must_relock := True\<rparr> else sf)
          in Inr (True, sf, d)))"

definition prepare_flash ::
  "'d spi_ops \<Rightarrow> spiflash \<Rightarrow> int \<Rightarrow> int \<Rightarrow> 'd \<Rightarrow> (bool \<times> spiflash \<times> 'd) res" where
  "prepare_flash ops sf base_addr len d =
     (let (e, sf, d) = (if sf_jedec_id sf = 0 then read_id ops sf d else (None, sf, d)) in
      if e \<noteq> None then Inr (False, sf, d)
      else
        let (status, d) = read_status_reg ops d;
            sf = sf\<lparr>sf_status := status AND NOT 0x03\<rparr>
        in
        bindE (if sf_verbose sf > 0 then display_status_reg ops sf (sf_status sf) d else Inr d) (\<lambda>d.
        bindE (case sf_flash_model sf of
                 Some f \<Rightarrow> check_known ops sf f base_addr len d
               | None \<Rightarrow> bindE (get_bp ops sf d) (\<lambda>(bp, d).
                   Inr (True, if bp \<noteq> 0 then sf\<lparr>sf_must_relock := True\<rparr> else sf, d)))
          (\<lambda>(ok, sf, d).
             if \<not> ok then Inr (False, sf, d)
             else if sf_must_relock sf then
               if \<not> sf_unprotect sf then Inr (False, sf, d)
               else bindE (disable_protection ops sf d) (\<lambda>(r, d). Inr (r = 0, sf, d))
             else Inr (True, sf, d))))"

text \<open>\<open>enable_protection(_status)\<close> and the display that close a write.\<close>

definition relock :: "'d spi_ops \<Rightarrow> spiflash \<Rightarrow> 'd \<Rightarrow> 'd res" where
  "relock ops sf d =
     (if sf_must_relock sf then
        bindE (enable_protection_code ops sf (sf_status sf) d) (\<lambda>(_, d). display_if_verbose ops sf d)
      else Inr d)"

subsection \<open>\<open>erase_and_prog\<close>\<close>

definition erase_and_prog ::
  "'d spi_ops \<Rightarrow> spiflash \<Rightarrow> int \<Rightarrow> bytes \<Rightarrow> 'd \<Rightarrow> (int \<times> spiflash \<times> 'd) res" where
  "erase_and_prog ops sf base_addr data d =
     bindE (prepare_flash ops sf base_addr (int (length data)) d) (\<lambda>(ok, sf, d).
       if \<not> ok then Inr (-1, sf, d)
       else let (r, d) = sectors_erase ops sf base_addr (int (length data)) d in
         if r = -1 then Inr (-1, sf, d)
         else let (r, d) = prog_loop ops sf (\<lambda>i. base_addr + int i) 0 data d in
           if r = -1 then Inr (-1, sf, d)
           else bindE (relock ops sf d) (\<lambda>d. Inr (0, sf, d)))"

fun prog_sections ::
  "'d spi_ops \<Rightarrow> spiflash \<Rightarrow> FlashDataSection list \<Rightarrow> 'd \<Rightarrow> int \<times> 'd" where
  "prog_sections ops sf [] d = (0, d)"
| "prog_sections ops sf (s # ss) d =
     (let (r, d) = prog_loop ops sf (\<lambda>i. sint (start_addr s + of_nat i)) 0 (sec_record s) d in
      if r = -1 then (-1, d) else prog_sections ops sf ss d)"

text \<open>
  The overload on sections is a \<open>bool\<close> function; on two of its error paths it returns -1,
  which converts to \<open>true\<close>.
\<close>

definition bool_of_int :: "int \<Rightarrow> bool" where
  "bool_of_int i = (i \<noteq> 0)"

definition erase_and_prog_sections ::
  "'d spi_ops \<Rightarrow> spiflash \<Rightarrow> FlashDataSection list \<Rightarrow> bool \<Rightarrow> 'd \<Rightarrow> (bool \<times> spiflash \<times> 'd) res" where
  "erase_and_prog_sections ops sf sections full_erase d =
     bindE (if full_erase then
              (case sf_flash_model sf of
                 None \<Rightarrow> Inl Null_deref
               | Some f \<Rightarrow> Inr (0, nr_sector f * 0x10000))
            else if sections = [] then Inl Out_of_bounds
            else Inr (start_addr (hd sections),
                      getCurrentAddr (last sections) - start_addr (hd sections)))
       (\<lambda>(base_addr, flash_len).
     let len = sum_list (map (\<lambda>s. of_nat (length (sec_record s))) sections) :: u32 in
     bindE (prepare_flash ops sf (sint base_addr) (sint flash_len) d) (\<lambda>(ok, sf, d).
       if \<not> ok then Inr (False, sf, d)
       else
         bindE (if full_erase then
                  bindE (bulk_erase ops sf True d) (\<lambda>(r, d).
                    Inr (if r = -1 then Some False else None, d))
                else let (r, d) = sectors_erase ops sf (sint base_addr) (sint len) d in
                  Inr (if r = -1 then Some (bool_of_int (-1)) else None, d))
           (\<lambda>(early, d). case early of
              Some b \<Rightarrow> Inr (b, sf, d)
            | None \<Rightarrow>
                let (r, d) = prog_sections ops sf sections d in
                if r = -1 then Inr (bool_of_int (-1), sf, d)
                else bindE (relock ops sf d) (\<lambda>d. Inr (True, sf, d)))))"

subsection \<open>Reading\<close>

text \<open>
  \<open>read\<close> transmits the address followed by an uninitialised part of its stack array,
  \<open>stk\<close>, and drops the bytes received during the address.
\<close>

definition flash_read :: "'d spi_ops \<Rightarrow> (nat \<Rightarrow> u8) \<Rightarrow> int \<Rightarrow> nat \<Rightarrow> 'd \<Rightarrow> int \<times> bytes option \<times> 'd" where
  "flash_read ops stk base_addr len d =
     (let read_cmd = (if base_addr \<le> 0xffffff then FLASH_READ else FLASH_4READ);
          adr = addr_bytes base_addr;
          tx = adr @ map stk [length adr..<length adr + len];
          (ret, rx, d) = spi_put ops read_cmd (Some tx) True (len + length adr) d
      in (ret, if ret = 0 then Some (take len (drop (length adr) rx)) else None, d))"

text \<open>
  \<open>verify\<close> consumes the expected bytes burst by burst; a burst of length zero would never
  end, but \<open>verify\<close> does not start the loop with one.
\<close>

function verify_loop ::
  "'d spi_ops \<Rightarrow> (nat \<Rightarrow> u8) \<Rightarrow> nat \<Rightarrow> int \<Rightarrow> bytes \<Rightarrow> 'd \<Rightarrow> (bool \<times> 'd) res" where
  "verify_loop ops stk rd_burst a data d =
     (if data = [] then Inr (True, d)
      else if rd_burst = 0 then Inl Diverges
      else let n = min rd_burst (length data);
               (ret, got, d) = flash_read ops stk a n d
           in case got of
                None \<Rightarrow> Inr (False, d)
              | Some bs \<Rightarrow> if bs \<noteq> take n data then Inr (False, d)
                  else verify_loop ops stk n (a + int n) (drop n data) d)"
  by pat_completeness auto
termination
  by (relation "measure (\<lambda>(ops, stk, b, a, data, d). length data)") auto

declare verify_loop.simps [simp del]

definition verify :: "'d spi_ops \<Rightarrow> (nat \<Rightarrow> u8) \<Rightarrow> int \<Rightarrow> bytes \<Rightarrow> nat \<Rightarrow> 'd \<Rightarrow> (bool \<times> 'd) res" where
  "verify ops stk base_addr data rd_burst d =
     (let rd_burst = (if rd_burst = 0 then min (length data) 65536 else rd_burst)
      in verify_loop ops stk rd_burst base_addr data d)"

text \<open>\<open>dump\<close>: the bytes written to the file are the third component of the result.\<close>

function dump_loop ::
  "'d spi_ops \<Rightarrow> (nat \<Rightarrow> u8) \<Rightarrow> nat \<Rightarrow> int \<Rightarrow> nat \<Rightarrow> 'd \<Rightarrow> (bool \<times> bytes \<times> 'd) res" where
  "dump_loop ops stk rd_burst a len d =
     (if len = 0 then Inr (True, [], d)
      else if rd_burst = 0 then Inl Diverges
      else let n = min rd_burst len;
               (ret, got, d) = flash_read ops stk a n d
           in case got of
                None \<Rightarrow> Inr (False, [], d)
              | Some bs \<Rightarrow>
                  bindE (dump_loop ops stk n (a + int n) (len - n) d) (\<lambda>(ok, rest, d).
                    Inr (ok, bs @ rest, d)))"
  by pat_completeness auto
termination
  by (relation "measure (\<lambda>(ops, stk, b, a, len, d). len)") auto

declare dump_loop.simps [simp del]

definition dump ::
  "'d spi_ops \<Rightarrow> (nat \<Rightarrow> u8) \<Rightarrow> bool \<Rightarrow> int \<Rightarrow> nat \<Rightarrow> nat \<Rightarrow> 'd \<Rightarrow> (bool \<times> bytes \<times> 'd) res" where
  "dump ops stk fopen_ok base_addr len rd_burst d =
     (let rd_burst = (if rd_burst = 0 then len else rd_burst);
          rd_burst = (if rd_burst > 0x100000 then 0x100000 else rd_burst)
      in if \<not> fopen_ok then Inr (False, [], d)
         else dump_loop ops stk rd_burst base_addr len d)"

end
