(* ===== verification/Nor_Flash.thy ===== *)
theory Nor_Flash
  imports Spi_Flash_Ops
begin

unbundle bit_operations_syntax

section \<open>\<open>SPIFlash\<close> on a serial NOR flash\<close>

text \<open>
  What the data sheets of the chips in \<open>spiFlashdb.hpp\<close> promise of the instructions
  \<open>SPIFlash\<close> sends, as a predicate on a carrier of SPI transfers and on a view of its
  state: the memory array, the write enable latch, the busy flag and the bits 2 to 7 of
  the status register.  Under it \<open>sectors_erase\<close>, the page loop, \<open>erase_and_prog\<close> and
  \<open>verify\<close> are proved to do their work on the array.
\<close>

subsection \<open>The contract of the chip and of the transfers\<close>

record 'd nor_view =
  nv_inv :: "'d \<Rightarrow> bool"
  nv_mem :: "'d \<Rightarrow> int \<Rightarrow> u8"
  nv_wel :: "'d \<Rightarrow> bool"
  nv_busy :: "'d \<Rightarrow> bool"
  nv_sr :: "'d \<Rightarrow> u8"

definition erase_range :: "int \<Rightarrow> int \<Rightarrow> (int \<Rightarrow> u8) \<Rightarrow> int \<Rightarrow> u8" where
  "erase_range lo hi m = (\<lambda>x. if lo \<le> x \<and> x < hi then 0xff else m x)"

text \<open>A page program clears bits, and wraps at the end of its 256 byte page.\<close>

fun page_program :: "int \<Rightarrow> int \<Rightarrow> bytes \<Rightarrow> (int \<Rightarrow> u8) \<Rightarrow> int \<Rightarrow> u8" where
  "page_program page off [] m = m"
| "page_program page off (b # bs) m =
     page_program page (off + 1) bs
       (m(page + off mod 256 := m (page + off mod 256) AND b))"

definition nor_idle :: "'d nor_view \<Rightarrow> 'd \<Rightarrow> bool" where
  "nor_idle v d \<longleftrightarrow> nv_inv v d \<and> \<not> nv_busy v d"

definition keeps :: "'d nor_view \<Rightarrow> 'd \<Rightarrow> 'd \<Rightarrow> bool" where
  "keeps v d d' \<longleftrightarrow> nv_mem v d' = nv_mem v d \<and> nv_sr v d' = nv_sr v d"

definition cmd_of :: "u8 \<Rightarrow> u8 \<Rightarrow> int \<Rightarrow> u8" where
  "cmd_of c3 c4 a = (if a \<le> 0xffffff then c3 else c4)"

definition addr_ok :: "int \<Rightarrow> bool" where
  "addr_ok a \<longleftrightarrow> 0 \<le> a \<and> a < 2 ^ 31"

definition nor_wren :: "'d spi_ops \<Rightarrow> 'd nor_view \<Rightarrow> bool" where
  "nor_wren ops v \<longleftrightarrow> (\<forall>d. nor_idle v d \<longrightarrow>
     (let (r, rx, d') = spi_put ops FLASH_WREN None False 0 d
      in nor_idle v d' \<and> nv_wel v d' \<and> keeps v d d'))"

definition nor_wait_wel :: "'d spi_ops \<Rightarrow> 'd nor_view \<Rightarrow> bool" where
  "nor_wait_wel ops v \<longleftrightarrow> (\<forall>d. nor_idle v d \<longrightarrow> nv_wel v d \<longrightarrow>
     (let (r, d') = spi_wait ops FLASH_RDSR FLASH_RDSR_WEL FLASH_RDSR_WEL 1000 False d
      in r = 0 \<and> nor_idle v d' \<and> nv_wel v d' \<and> keeps v d d'))"

text \<open>
  Polling for the end of an operation succeeds: every operation ends within the time the
  source allows it, after which the latch is clear.
\<close>

definition nor_wait_wip :: "'d spi_ops \<Rightarrow> 'd nor_view \<Rightarrow> bool" where
  "nor_wait_wip ops v \<longleftrightarrow> (\<forall>d t. nv_inv v d \<longrightarrow> nv_busy v d \<longrightarrow> t \<ge> 1000 \<longrightarrow>
     (let (r, d') = spi_wait ops FLASH_RDSR FLASH_RDSR_WIP 0 t False d
      in r = 0 \<and> nor_idle v d' \<and> \<not> nv_wel v d' \<and> keeps v d d'))"

text \<open>An erase instruction, with \<open>n\<close> the size of what it erases, on an unprotected array.\<close>

definition nor_erase :: "'d spi_ops \<Rightarrow> 'd nor_view \<Rightarrow> u8 \<Rightarrow> u8 \<Rightarrow> int \<Rightarrow> bool" where
  "nor_erase ops v c3 c4 n \<longleftrightarrow> (\<forall>d a. nor_idle v d \<longrightarrow> nv_wel v d \<longrightarrow> nv_sr v d = 0 \<longrightarrow> addr_ok a \<longrightarrow>
     (let (r, rx, d') = spi_put ops (cmd_of c3 c4 a) (Some (addr_bytes a)) False (length (addr_bytes a)) d
      in nv_inv v d' \<and> nv_busy v d' \<and> nv_sr v d' = nv_sr v d \<and>
         nv_mem v d' = erase_range (a - a mod n) (a - a mod n + n) (nv_mem v d)))"

definition nor_program :: "'d spi_ops \<Rightarrow> 'd nor_view \<Rightarrow> bool" where
  "nor_program ops v \<longleftrightarrow> (\<forall>d a data. nor_idle v d \<longrightarrow> nv_wel v d \<longrightarrow> nv_sr v d = 0 \<longrightarrow> addr_ok a \<longrightarrow>
     data \<noteq> [] \<longrightarrow> length data \<le> 256 \<longrightarrow>
     (let (r, rx, d') = spi_put ops (cmd_of FLASH_PP FLASH_4PP a) (Some (addr_bytes a @ data)) False
                          (length (addr_bytes a @ data)) d
      in nv_inv v d' \<and> nv_busy v d' \<and> nv_sr v d' = nv_sr v d \<and>
         nv_mem v d' = page_program (a - a mod 256) (a mod 256) data (nv_mem v d)))"

definition nor_read :: "'d spi_ops \<Rightarrow> 'd nor_view \<Rightarrow> bool" where
  "nor_read ops v \<longleftrightarrow> (\<forall>d a pad. nor_idle v d \<longrightarrow> addr_ok a \<longrightarrow>
     (let (r, rx, d') = spi_put ops (cmd_of FLASH_READ FLASH_4READ a) (Some (addr_bytes a @ pad)) True
                          (length pad + length (addr_bytes a)) d
      in r = 0 \<and> nor_idle v d' \<and> nv_wel v d' = nv_wel v d \<and> keeps v d d' \<and>
         length rx = length pad + length (addr_bytes a) \<and>
         drop (length (addr_bytes a)) rx = map (\<lambda>i. nv_mem v d (a + int i)) [0..<length pad]))"

definition nor_rdsr :: "'d spi_ops \<Rightarrow> 'd nor_view \<Rightarrow> bool" where
  "nor_rdsr ops v \<longleftrightarrow> (\<forall>d. nor_idle v d \<longrightarrow>
     (let (r, rx, d') = spi_put ops FLASH_RDSR None True 1 d
      in nor_idle v d' \<and> nv_wel v d' = nv_wel v d \<and> keeps v d d' \<and>
         rx ! 0 = nv_sr v d OR (if nv_wel v d then 2 else 0)))"

text \<open>
  Writing the status register, with the polling for the value written (\<open>mask = 0xff\<close>)
  that follows it in the source.
\<close>

definition nor_wrsr :: "'d spi_ops \<Rightarrow> 'd nor_view \<Rightarrow> bool" where
  "nor_wrsr ops v \<longleftrightarrow> (\<forall>d b. nor_idle v d \<longrightarrow> nv_wel v d \<longrightarrow> b AND 3 = 0 \<longrightarrow>
     (let (r, rx, d1) = spi_put ops FLASH_WRSR (Some [b]) False 1 d;
          (w, d') = spi_wait ops FLASH_RDSR 0xff b 1000 False d1
      in w = 0 \<and> nor_idle v d' \<and> \<not> nv_wel v d' \<and> nv_mem v d' = nv_mem v d \<and> nv_sr v d' = b))"

definition nor_contract :: "'d spi_ops \<Rightarrow> 'd nor_view \<Rightarrow> bool" where
  "nor_contract ops v \<longleftrightarrow>
     nor_wren ops v \<and> nor_wait_wel ops v \<and> nor_wait_wip ops v \<and>
     nor_erase ops v FLASH_SE FLASH_4SE 0x1000 \<and>
     nor_erase ops v FLASH_BE64 FLASH_4BE64 0x10000 \<and>
     nor_program ops v \<and> nor_read ops v \<and> nor_rdsr ops v \<and> nor_wrsr ops v"

subsection \<open>Single operations\<close>

lemma erase_range_merge:
  "lo \<le> mid \<Longrightarrow> mid \<le> hi \<Longrightarrow> erase_range mid hi (erase_range lo mid m) = erase_range lo hi m"
  by (auto simp: erase_range_def fun_eq_iff)

lemma erase_range_absorb:
  "lo \<le> lo' \<Longrightarrow> hi' \<le> hi \<Longrightarrow> erase_range lo hi (erase_range lo' hi' m) = erase_range lo hi m"
  by (auto simp: erase_range_def fun_eq_iff)

lemma erase_range_empty: "hi \<le> lo \<Longrightarrow> erase_range lo hi m = m"
  by (auto simp: erase_range_def fun_eq_iff)

lemma write_enable_ok:
  assumes "nor_contract ops v" "nor_idle v d"
  obtains d' where "write_enable ops d = (0, d')" "nor_idle v d'" "nv_wel v d'" "keeps v d d'"
proof -
  obtain r rx d1 where 1: "spi_put ops FLASH_WREN None False 0 d = (r, rx, d1)"
    by (cases "spi_put ops FLASH_WREN None False 0 d")
  have a: "nor_idle v d1" "nv_wel v d1" "keeps v d d1"
    using assms 1 by (auto simp: nor_contract_def nor_wren_def)
  obtain w d2 where 2: "spi_wait ops FLASH_RDSR FLASH_RDSR_WEL FLASH_RDSR_WEL 1000 False d1 = (w, d2)"
    by (cases "spi_wait ops FLASH_RDSR FLASH_RDSR_WEL FLASH_RDSR_WEL 1000 False d1")
  have b: "w = 0" "nor_idle v d2" "nv_wel v d2" "keeps v d1 d2"
    using assms(1) a 2 by (auto simp: nor_contract_def nor_wait_wel_def)
  show thesis
    by (rule that [of d2]) (use 1 2 a b in \<open>auto simp: write_enable_def keeps_def\<close>)
qed

lemma wait_wip_ok:
  assumes "nor_contract ops v" "nv_inv v d" "nv_busy v d" "t \<ge> 1000"
  obtains d' where "spi_wait ops FLASH_RDSR FLASH_RDSR_WIP 0 t False d = (0, d')"
    "nor_idle v d'" "keeps v d d'" "\<not> nv_wel v d'"
  using assms unfolding nor_contract_def nor_wait_wip_def
  by (cases "spi_wait ops FLASH_RDSR FLASH_RDSR_WIP 0 t False d") fastforce

lemma sector_erase_ok:
  assumes "nor_contract ops v" "nor_idle v d" "nv_wel v d" "nv_sr v d = 0" "addr_ok a"
  obtains d' where "sector_erase ops a d = (0, d')" "nv_inv v d'" "nv_busy v d'" "nv_sr v d' = 0"
    "nv_mem v d' = erase_range (a - a mod 0x1000) (a - a mod 0x1000 + 0x1000) (nv_mem v d)"
proof -
  have "nor_erase ops v FLASH_SE FLASH_4SE 0x1000"
    using assms(1) by (simp add: nor_contract_def)
  then show thesis
    using assms that unfolding nor_erase_def sector_erase_def cmd_of_def
    by (cases "spi_put ops (if a \<le> 0xffffff then FLASH_SE else FLASH_4SE) (Some (addr_bytes a)) False
          (length (addr_bytes a)) d") (fastforce simp: Let_def)
qed

lemma block64_erase_ok:
  assumes "nor_contract ops v" "nor_idle v d" "nv_wel v d" "nv_sr v d = 0" "addr_ok a"
  obtains d' where "block64_erase ops a d = (0, d')" "nv_inv v d'" "nv_busy v d'" "nv_sr v d' = 0"
    "nv_mem v d' = erase_range (a - a mod 0x10000) (a - a mod 0x10000 + 0x10000) (nv_mem v d)"
proof -
  have "nor_erase ops v FLASH_BE64 FLASH_4BE64 0x10000"
    using assms(1) by (simp add: nor_contract_def)
  then show thesis
    using assms that unfolding nor_erase_def block64_erase_def cmd_of_def
    by (cases "spi_put ops (if a \<le> 0xffffff then FLASH_BE64 else FLASH_4BE64) (Some (addr_bytes a)) False
          (length (addr_bytes a)) d") (fastforce simp: Let_def)
qed

subsection \<open>The erase loop\<close>

definition use_sub :: "bool \<Rightarrow> bool \<Rightarrow> int \<Rightarrow> bool \<Rightarrow> int \<Rightarrow> bool" where
  "use_sub sec sub e small a \<longleftrightarrow> \<not> sec \<or> (a + step_of small > e \<and> sub)"

lemma mod_in_block:
  fixes x b n :: int
  assumes "n dvd b" "b \<le> x" "x < b + n"
  shows "x mod n = x - b"
proof -
  have "x mod n = (x - b) mod n" using assms(1) by (metis diff_zero dvd_imp_mod_0 mod_diff_right_eq)
  also have "\<dots> = x - b" using assms by simp
  finally show ?thesis .
qed

lemma dvd_64K: "(65536 :: int) dvd a \<Longrightarrow> a mod 65536 = 0 \<and> a mod 4096 = 0 \<and> 4096 dvd a"
  using dvd_trans [of 4096 65536 a] by auto

lemma erase_loop_done: "a \<ge> e \<Longrightarrow> erase_loop ops sec sub e small a d = (0, d)"
  by (simp add: erase_loop.simps)

lemma erase_loop_step:
  assumes c: "nor_contract ops v" and d: "nor_idle v d" "nv_sr v d = 0"
    and a: "a < e" "addr_ok a" and n: "n = step_of (use_sub sec sub e small a)"
    and s: "small' = (use_sub sec sub e small a \<or> small)"
  shows "\<exists>d'. erase_loop ops sec sub e small a d = erase_loop ops sec sub e small' (a + step_of small') d' \<and>
     nor_idle v d' \<and> nv_sr v d' = 0 \<and>
     nv_mem v d' = erase_range (a - a mod n) (a - a mod n + n) (nv_mem v d)"
proof -
  obtain d1 where 1: "write_enable ops d = (0, d1)" "nor_idle v d1" "nv_wel v d1" "keeps v d d1"
    using write_enable_ok [OF c d(1)] .
  have sr1: "nv_sr v d1 = 0" using 1 d by (simp add: keeps_def)
  obtain d2 where 2: "(if use_sub sec sub e small a then sector_erase ops a d1
        else block64_erase ops a d1) = (0, d2)" "nv_inv v d2" "nv_busy v d2" "nv_sr v d2 = 0"
      "nv_mem v d2 = erase_range (a - a mod n) (a - a mod n + n) (nv_mem v d1)"
    by (cases "use_sub sec sub e small a")
      (use sector_erase_ok [OF c 1(2,3) sr1 a(2)] block64_erase_ok [OF c 1(2,3) sr1 a(2)] n
       in \<open>auto simp: step_of_def\<close>)
  obtain d3 where 3: "spi_wait ops FLASH_RDSR FLASH_RDSR_WIP 0 100000 False d2 = (0, d3)"
      "nor_idle v d3" "keeps v d2 d3"
    using wait_wip_ok [OF c 2(2,3), of 100000] by auto
  have "erase_loop ops sec sub e small a d = erase_loop ops sec sub e small' (a + step_of small') d3"
    using a(1) 1(1) 2(1) 3(1) s
    by (subst erase_loop.simps) (cases "use_sub sec sub e small a"; simp add: Let_def use_sub_def)
  then show ?thesis using 1 2 3 sr1 by (auto simp: keeps_def)
qed

text \<open>
  Once the step is 4 KiB on a chip that has the 64 KiB erase too, every further sector is
  erased by a 64 KiB erase of its whole block.
\<close>

lemma erase_loop_small:
  assumes "nor_contract ops v" "nor_idle v d" "nv_sr v d = 0"
    and "a < e" "0 \<le> a" "e < 2 ^ 31" "0x1000 dvd a" "0x1000 dvd e"
    and "e \<le> a - a mod 0x10000 + 0x10000"
  shows "\<exists>d'. erase_loop ops True sub e True a d = (0, d') \<and> nor_idle v d' \<and> nv_sr v d' = 0 \<and>
     nv_mem v d' = erase_range (a - a mod 0x10000) (a - a mod 0x10000 + 0x10000) (nv_mem v d)"
  using assms
proof (induction "nat (e - a)" arbitrary: a d rule: less_induct)
  case less
  let ?b = "a - a mod 0x10000"
  have no: "\<not> use_sub True sub e True a"
    using less.prems(4,7,8) by (auto simp: use_sub_def step_of_def dvd_def)
  obtain d' where d': "erase_loop ops True sub e True a d = erase_loop ops True sub e True (a + 0x1000) d'"
      "nor_idle v d'" "nv_sr v d' = 0" "nv_mem v d' = erase_range ?b (?b + 0x10000) (nv_mem v d)"
    using erase_loop_step [OF less.prems(1-4), where n = "0x10000" and sec = True and sub = sub and small = True and small' = True] less.prems(4-6) no
    by (auto simp: addr_ok_def step_of_def)
  show ?case
  proof (cases "a + 0x1000 < e")
    case True
    have blk: "(a + 0x1000) - (a + 0x1000) mod 0x10000 = ?b"
      using mod_in_block [of 65536 ?b "a + 4096"] True less.prems(9) pos_mod_sign [of 65536 a]
      by (simp add: dvd_minus_mod)
    obtain d'' where "erase_loop ops True sub e True (a + 0x1000) d' = (0, d'')" "nor_idle v d''"
        "nv_sr v d'' = 0" "nv_mem v d'' = erase_range ?b (?b + 0x10000) (nv_mem v d')"
      using less.hyps [of "a + 0x1000" d'] True less.prems d'(2,3) blk by auto
    then show ?thesis using d'(1,4) by (auto simp: erase_range_absorb)
  next
    case False
    then show ?thesis using d' by (auto simp: erase_loop_done)
  qed
qed

text \<open>
  Where the loop really stops, as opposed to the rounded end \<open>e\<close> its comments name.  With both erase sizes and a last block that is
  not full the erase ends at \<open>e\<close> only if a single 4 KiB sector of
  the block is asked for; otherwise it runs on to the end of the block, because the step is never set back to 64 KiB.
\<close>

definition erased_up_to :: "bool \<Rightarrow> int \<Rightarrow> int" where
  "erased_up_to sec e =
     (if \<not> sec \<or> e mod 0x10000 \<le> 0x1000 then e else e - e mod 0x10000 + 0x10000)"

lemma erase_loop_blocks:
  assumes "nor_contract ops v" "nor_idle v d" "nv_sr v d = 0"
    and "a \<le> e" "0 \<le> a" "e < 2 ^ 31" "0x10000 dvd a" "0x1000 dvd e"
    and "\<not> sub \<Longrightarrow> 0x10000 dvd e"
  shows "\<exists>d'. erase_loop ops True sub e False a d = (0, d') \<and> nor_idle v d' \<and> nv_sr v d' = 0 \<and>
     nv_mem v d' = erase_range a (erased_up_to True e) (nv_mem v d)"
  using assms
proof (induction "nat (e - a)" arbitrary: a d rule: less_induct)
  case less
  note p = less.prems
  have a0: "a mod 0x10000 = 0" "a mod 0x1000 = 0" using dvd_64K [OF p(7)] by simp_all
  consider "a = e" | "a < e" "use_sub True sub e False a" | "a < e" "\<not> use_sub True sub e False a"
    using p(4) by linarith
  then show ?case
  proof cases
    case 1
    then show ?thesis
      using p a0 by (simp add: erase_loop_done erased_up_to_def erase_range_empty)
  next
    case 2
    obtain d' where d': "erase_loop ops True sub e False a d = erase_loop ops True sub e True (a + 0x1000) d'"
        "nor_idle v d'" "nv_sr v d' = 0" "nv_mem v d' = erase_range a (a + 0x1000) (nv_mem v d)"
      using erase_loop_step [OF p(1-3) 2(1), where n = "0x1000" and sec = True and sub = sub and small = False and small' = True] p(4-6) 2 a0
      by (auto simp: addr_ok_def step_of_def)
    have lt: "e < a + 0x10000" using 2(2) by (auto simp: use_sub_def step_of_def)
    show ?thesis
    proof (cases "e = a + 0x1000")
      case True
      then have "e mod 0x10000 = 0x1000" using mod_in_block [OF p(7), of e] lt by simp
      then show ?thesis using d' True by (auto simp: erase_loop_done erased_up_to_def)
    next
      case False
      then have gt: "a + 0x1000 < e" using 2(1) p(7,8) by (auto simp: dvd_def)
      have blk: "(a + 0x1000) - (a + 0x1000) mod 0x10000 = a" using mod_in_block [OF p(7), of "a + 0x1000"] by simp
      have up: "erased_up_to True e = a + 0x10000"
        using gt lt mod_in_block [OF p(7), of e] by (simp add: erased_up_to_def)
      have dv: "4096 dvd a + 0x1000" using dvd_64K [OF p(7)] by simp
      obtain d'' where d'': "erase_loop ops True sub e True (a + 0x1000) d' = (0, d'')" "nor_idle v d''"
          "nv_sr v d'' = 0" "nv_mem v d'' = erase_range a (a + 0x10000) (nv_mem v d')"
        using erase_loop_small [OF p(1) d'(2,3) gt _ p(6) dv p(8)] p(5) blk lt by auto
      then show ?thesis using d' up by (auto simp: erase_range_absorb)
    qed
  next
    case 3
    obtain d' where d': "erase_loop ops True sub e False a d = erase_loop ops True sub e False (a + 0x10000) d'"
        "nor_idle v d'" "nv_sr v d' = 0" "nv_mem v d' = erase_range a (a + 0x10000) (nv_mem v d)"
      using erase_loop_step [OF p(1-3) 3(1), where n = "0x10000" and sec = True and sub = sub and small = False and small' = False] p(4-6) 3 a0
      by (auto simp: addr_ok_def step_of_def)
    have le: "a + 0x10000 \<le> e"
      using 3 p(7,9) by (cases sub) (auto simp: use_sub_def step_of_def dvd_def)
    obtain d'' where d'': "erase_loop ops True sub e False (a + 0x10000) d' = (0, d'')" "nor_idle v d''"
        "nv_sr v d'' = 0" "nv_mem v d'' = erase_range (a + 0x10000) (erased_up_to True e) (nv_mem v d')"
      using less.hyps [of "a + 0x10000" d'] le p d'(2,3) by auto
    have "e \<le> erased_up_to True e" using pos_mod_bound [of 65536 e] by (simp add: erased_up_to_def less_imp_le)
    then show ?thesis using d' d'' le by (auto simp: erase_range_merge)
  qed
qed

lemma erase_loop_sectors:
  assumes "nor_contract ops v" "nor_idle v d" "nv_sr v d = 0"
    and "a \<le> e" "0 \<le> a" "e < 2 ^ 31" "0x1000 dvd a" "0x1000 dvd e"
  shows "\<exists>d'. erase_loop ops False sub e True a d = (0, d') \<and> nor_idle v d' \<and> nv_sr v d' = 0 \<and>
     nv_mem v d' = erase_range a e (nv_mem v d)"
  using assms
proof (induction "nat (e - a)" arbitrary: a d rule: less_induct)
  case less
  note p = less.prems
  show ?case
  proof (cases "a = e")
    case True
    then show ?thesis using p by (simp add: erase_loop_done erase_range_empty)
  next
    case False
    then have lt: "a < e" and le: "a + 0x1000 \<le> e" using p(4,7,8) by (auto simp: dvd_def)
    obtain d' where d': "erase_loop ops False sub e True a d = erase_loop ops False sub e True (a + 0x1000) d'"
        "nor_idle v d'" "nv_sr v d' = 0" "nv_mem v d' = erase_range a (a + 0x1000) (nv_mem v d)"
      using erase_loop_step [OF p(1-3) lt, where n = "0x1000" and sec = False and sub = sub and small = True and small' = True] p(4-7) lt
      by (auto simp: addr_ok_def step_of_def use_sub_def dvd_imp_mod_0)
    obtain d'' where "erase_loop ops False sub e True (a + 0x1000) d' = (0, d'')" "nor_idle v d''"
        "nv_sr v d'' = 0" "nv_mem v d'' = erase_range (a + 0x1000) e (nv_mem v d')"
      using less.hyps [of "a + 0x1000" d'] le p d'(2,3) by auto
    then show ?thesis using d' le by (auto simp: erase_range_merge)
  qed
qed

lemma and_not_low:
  fixes x :: int
  assumes "n = 0xfff \<or> n = 0xffff"
  shows "x AND NOT n = x - x mod (n + 1)"
proof -
  obtain k :: nat where k: "n = mask k" "n + 1 = 2 ^ k"
    using assms by (auto simp: mask_eq_exp_minus_1 intro: that [of 12] that [of 16])
  have "push_bit k (drop_bit k x) = x AND NOT (mask k)"
    by (rule bit_eqI) (auto simp: bit_simps)
  then show ?thesis using bits_ident [of k x] k by (simp add: take_bit_eq_mod)
qed

text \<open>The end address of \<open>sectors_erase\<close> rounds up.\<close>

lemma erase_end_props:
  assumes "0 \<le> len"
  shows "0x1000 dvd erase_end sf a len" "a + len \<le> erase_end sf a len"
    "\<not> subsector_ready sf \<Longrightarrow> 0x10000 dvd erase_end sf a len"
    "erase_end sf a len < a + len + 0x10000"
proof -
  let ?n = "if subsector_ready sf then 0x1000 else 0x10000 :: int"
  let ?x = "a + len + (?n - 1)"
  have e: "erase_end sf a len = ?x - ?x mod ?n"
    using and_not_low [of "0xfff" "a + len + 0xfff"] and_not_low [of "0xffff" "a + len + 0xffff"]
    by (simp add: erase_end_def)
  have d: "?n dvd erase_end sf a len" unfolding e by (rule dvd_minus_mod)
  show "0x1000 dvd erase_end sf a len" using d dvd_64K by (auto split: if_splits)
  show "\<not> subsector_ready sf \<Longrightarrow> 0x10000 dvd erase_end sf a len" using d by simp
  have "0 < ?n" by simp
  from pos_mod_bound [OF this, of ?x] pos_mod_sign [OF this, of ?x]
  show "a + len \<le> erase_end sf a len" "erase_end sf a len < a + len + 0x10000"
    unfolding e by (auto split: if_splits)
qed

lemma erase_end_sub:
  assumes "0 \<le> len" "subsector_ready sf"
  shows "erase_end sf a len < a + len + 0x1000"
  using assms and_not_low [of "0xfff" "a + len + 0xfff"] pos_mod_sign [of 4096 "a + len + 0xfff"]
  by (simp add: erase_end_def)

lemma sectors_erase_exact:
  assumes "nor_contract ops v" "nor_idle v d" "nv_sr v d = 0"
    and "0 \<le> len" "0 \<le> a" "a + len + 0x10000 \<le> 2 ^ 31"
    and "(if sector_ready sf then 0x10000 else 0x1000) dvd a"
  shows "\<exists>d'. sectors_erase ops sf a len d = (0, d') \<and> nor_idle v d' \<and> nv_sr v d' = 0 \<and>
     nv_mem v d' = erase_range a (erased_up_to (sector_ready sf) (erase_end sf a len)) (nv_mem v d)"
  using erase_end_props [OF assms(4), where sf = sf and a = a] assms
    erase_loop_blocks [OF assms(1-3), of a "erase_end sf a len" "subsector_ready sf"]
    erase_loop_sectors [OF assms(1-3), of a "erase_end sf a len" "subsector_ready sf"]
  by (cases "sector_ready sf") (simp_all add: sectors_erase_def erased_up_to_def)

subsection \<open>The page loop\<close>

lemma nat_pred: "nat (x - (1 + y)) = nat (x - y) - Suc 0"
  by simp

lemma and_FF: "(255 :: u8) AND b = b"
proof -
  have "(255 :: u8) = -1" by simp
  then show ?thesis by (simp only: and.left_neutral)
qed

lemma page_program_eq:
  assumes "0 \<le> off" "off + int (length bs) \<le> 256"
  shows "page_program page off bs m x =
     (if page + off \<le> x \<and> x < page + off + int (length bs) then m x AND bs ! nat (x - page - off) else m x)"
  using assms
proof (induction bs arbitrary: off m)
  case (Cons b bs)
  then have "off mod 256 = off" by simp
  then show ?case
    using Cons.IH [of "off + 1"] Cons.prems
    by (auto simp: nth_Cons' algebra_simps nat_pred)
qed auto

definition holds_at :: "(int \<Rightarrow> u8) \<Rightarrow> int \<Rightarrow> bytes \<Rightarrow> (int \<Rightarrow> u8) \<Rightarrow> bool" where
  "holds_at m a bs m' \<longleftrightarrow>
     (\<forall>x. m' x = (if a \<le> x \<and> x < a + int (length bs) then bs ! nat (x - a) else m x))"

definition blank_at :: "(int \<Rightarrow> u8) \<Rightarrow> int \<Rightarrow> nat \<Rightarrow> bool" where
  "blank_at m a n \<longleftrightarrow> (\<forall>x. a \<le> x \<and> x < a + int n \<longrightarrow> m x = 0xff)"

lemma write_page_ok:
  assumes c: "nor_contract ops v" and d: "nor_idle v d" "nv_sr v d = 0"
    and a: "addr_ok a" "data \<noteq> []" "a mod 256 + int (length data) \<le> 256"
    and b: "blank_at (nv_mem v d) a (length data)"
  shows "\<exists>d'. write_page ops a data d = (0, d') \<and> nor_idle v d' \<and> nv_sr v d' = 0 \<and>
     holds_at (nv_mem v d) a data (nv_mem v d')"
proof -
  obtain d1 where 1: "write_enable ops d = (0, d1)" "nor_idle v d1" "nv_wel v d1" "keeps v d d1"
    using write_enable_ok [OF c d(1)] .
  have sr1: "nv_sr v d1 = 0" and m1: "nv_mem v d1 = nv_mem v d" using 1 d by (simp_all add: keeps_def)
  have len: "length data \<le> 256" using a(3) pos_mod_sign [of 256 a] by linarith
  obtain r rx d2 where 2: "spi_put ops (cmd_of FLASH_PP FLASH_4PP a) (Some (addr_bytes a @ data)) False
      (length (addr_bytes a @ data)) d1 = (r, rx, d2)"
    by (cases "spi_put ops (cmd_of FLASH_PP FLASH_4PP a) (Some (addr_bytes a @ data)) False
      (length (addr_bytes a @ data)) d1")
  have pp: "nor_program ops v" using c by (simp add: nor_contract_def)
  have 3: "nv_inv v d2" "nv_busy v d2" "nv_sr v d2 = 0"
      "nv_mem v d2 = page_program (a - a mod 256) (a mod 256) data (nv_mem v d)"
    using pp [unfolded nor_program_def, rule_format, OF 1(2,3) sr1 a(1,2) len] 2 sr1 m1 by auto
  obtain d3 where 4: "spi_wait ops FLASH_RDSR FLASH_RDSR_WIP 0 1000 False d2 = (0, d3)"
      "nor_idle v d3" "keeps v d2 d3"
    using wait_wip_ok [OF c 3(1,2), of 1000] by auto
  have "write_page ops a data d = (0, d3)"
    using 1(1) 2 4(1) by (simp add: write_page_def Let_def cmd_of_def split: if_splits)
  moreover have "holds_at (nv_mem v d) a data (nv_mem v d3)"
    using 4(3) 3(4) a(3) b pos_mod_sign [of 256 a]
    by (auto simp: holds_at_def blank_at_def keeps_def page_program_eq and_FF)
  ultimately show ?thesis using 4 3 by (auto simp: keeps_def)
qed

lemma holds_at_append:
  assumes "holds_at m a xs m'" "holds_at m' (a + int (length xs)) ys m''"
  shows "holds_at m a (xs @ ys) m''"
  using assms by (auto simp: holds_at_def nth_append nat_less_iff nat_diff_distrib algebra_simps nat_minus_as_int)

lemma blank_at_rest:
  assumes "holds_at m a xs m'" "blank_at m a (length xs + n)"
  shows "blank_at m' (a + int (length xs)) n"
  using assms by (auto simp: holds_at_def blank_at_def)

lemma blank_at_take: "blank_at m a n \<Longrightarrow> k \<le> n \<Longrightarrow> blank_at m a k"
  by (auto simp: blank_at_def)

text \<open>
  The pages stay within their 256 bytes when the first one starts at such a boundary (or on
  the one chip that is programmed byte by byte).
\<close>

definition page_ok :: "spiflash \<Rightarrow> int \<Rightarrow> bool" where
  "page_ok sf a \<longleftrightarrow> drop_bit 8 (sf_jedec_id sf) = 0xbf258d \<or> 256 dvd a"

lemma page_fits:
  assumes "page_ok sf a"
  shows "a mod 256 + int (page_size sf n) \<le> 256"
  using assms pos_mod_bound [of 256 a] by (auto simp: page_ok_def page_size_def)

lemma page_size_pos: "n > 0 \<Longrightarrow> 0 < page_size sf n \<and> page_size sf n \<le> n"
  by (auto simp: page_size_def)

lemma page_ok_next:
  assumes "page_ok sf a" "page_size sf n < n"
  shows "page_ok sf (a + int (page_size sf n))"
  using assms by (auto simp: page_ok_def page_size_def min_def split: if_splits)

lemma prog_loop_ok:
  assumes c: "nor_contract ops v" and "nor_idle v d" "nv_sr v d = 0"
    and "\<And>i. i < length data \<Longrightarrow> adr (off + i) = a + int i"
    and "0 \<le> a" "a + int (length data) \<le> 2 ^ 31" "page_ok sf a"
    and "blank_at (nv_mem v d) a (length data)"
  shows "\<exists>d'. prog_loop ops sf adr off data d = (0, d') \<and> nor_idle v d' \<and> nv_sr v d' = 0 \<and>
     holds_at (nv_mem v d) a data (nv_mem v d')"
  using assms(2-)
proof (induction "length data" arbitrary: off data a d rule: less_induct)
  case less
  note p = less.prems
  show ?case
  proof (cases "data = []")
    case True
    then show ?thesis using p by (auto simp: prog_loop.simps holds_at_def)
  next
    case False
    let ?n = "page_size sf (length data)"
    have n: "0 < ?n" "?n \<le> length data" using page_size_pos [of "length data" sf] False by auto
    have ad: "adr off = a" using p(3) [of 0] False by simp
    obtain d1 where 1: "write_page ops a (take ?n data) d = (0, d1)" "nor_idle v d1" "nv_sr v d1 = 0"
        "holds_at (nv_mem v d) a (take ?n data) (nv_mem v d1)"
      using write_page_ok [OF c p(1,2), of a "take ?n data"] n False p(4,5) page_fits [OF p(6)]
        blank_at_take [OF p(7) n(2)] by (auto simp: addr_ok_def min_absorb2)
    have eq: "prog_loop ops sf adr off data d = prog_loop ops sf adr (off + ?n) (drop ?n data) d1"
      using False 1(1) ad by (subst prog_loop.simps) (simp add: Let_def)
    show ?thesis
    proof (cases "?n = length data")
      case True
      then show ?thesis using eq 1 by (auto simp: prog_loop.simps)
    next
      case more: False
      have sm: "length (drop ?n data) < length data" using n by simp
      have bl: "blank_at (nv_mem v d1) (a + int ?n) (length (drop ?n data))"
        using blank_at_rest [OF 1(4), of "length data - ?n"] p(7) n by (simp add: min_absorb2)
      have adr': "adr (off + ?n + i) = a + int ?n + int i" if "i < length (drop ?n data)" for i
        using p(3) [of "?n + i"] that by (simp add: add.assoc)
      obtain d2 where 2: "prog_loop ops sf adr (off + ?n) (drop ?n data) d1 = (0, d2)" "nor_idle v d2"
          "nv_sr v d2 = 0" "holds_at (nv_mem v d1) (a + int ?n) (drop ?n data) (nv_mem v d2)"
        using less.hyps [OF sm 1(2,3) adr' _ _ _ bl] n p(4,5) page_ok_next [OF p(6), of "length data"] more
        by auto
      have "holds_at (nv_mem v d) a (take ?n data @ drop ?n data) (nv_mem v d2)"
        using holds_at_append [OF 1(4), of "drop ?n data"] 2(4) n by (simp add: min_absorb2)
      then show ?thesis using eq 2 by auto
    qed
  qed
qed

subsection \<open>Reading back\<close>

lemma flash_read_ok:
  assumes c: "nor_contract ops v" and d: "nor_idle v d" "addr_ok a"
  shows "\<exists>d'. flash_read ops stk a n d = (0, Some (map (\<lambda>i. nv_mem v d (a + int i)) [0..<n]), d') \<and>
     nor_idle v d' \<and> nv_wel v d' = nv_wel v d \<and> keeps v d d'"
proof -
  let ?l = "length (addr_bytes a)" let ?pad = "map stk [?l..<?l + n]"
  have rd: "nor_read ops v" using c by (simp add: nor_contract_def)
  obtain r rx d1 where 1: "spi_put ops (cmd_of FLASH_READ FLASH_4READ a) (Some (addr_bytes a @ ?pad)) True
      (length ?pad + ?l) d = (r, rx, d1)"
    by (cases "spi_put ops (cmd_of FLASH_READ FLASH_4READ a) (Some (addr_bytes a @ ?pad)) True
      (length ?pad + ?l) d")
  have 2: "r = 0" "nor_idle v d1" "nv_wel v d1 = nv_wel v d" "keeps v d d1"
      "drop ?l rx = map (\<lambda>i. nv_mem v d (a + int i)) [0..<length ?pad]"
    using rd [unfolded nor_read_def, rule_format, OF d, of ?pad] 1 by auto
  have "flash_read ops stk a n d = (0, Some (map (\<lambda>i. nv_mem v d (a + int i)) [0..<n]), d1)"
    using 1 2 by (auto simp: flash_read_def Let_def cmd_of_def)
  then show ?thesis using 2 by auto
qed

lemma verify_loop_ok:
  assumes c: "nor_contract ops v" and "nor_idle v d" "0 \<le> a" "a + int (length data) \<le> 2 ^ 31"
    and "rd_burst > 0 \<or> data = []"
  shows "\<exists>d'. verify_loop ops stk rd_burst a data d =
       Inr (\<forall>i < length data. nv_mem v d (a + int i) = data ! i, d') \<and>
     nor_idle v d' \<and> keeps v d d'"
  using assms(2-)
proof (induction "length data" arbitrary: data a d rd_burst rule: less_induct)
  case less
  note p = less.prems
  show ?case
  proof (cases "data = []")
    case True
    then show ?thesis using p by (auto simp: verify_loop.simps keeps_def)
  next
    case False
    let ?n = "min rd_burst (length data)"
    let ?got = "map (\<lambda>i. nv_mem v d (a + int i)) [0..<?n]"
    have n: "0 < ?n" using False p(4) by auto
    obtain d1 where 1: "flash_read ops stk a ?n d = (0, Some ?got, d1)" "nor_idle v d1" "keeps v d d1"
      using flash_read_ok [OF c p(1), of a stk ?n] p(2,3) False by (cases data) (auto simp: addr_ok_def)
    have got: "?got = take ?n data \<longleftrightarrow> (\<forall>i < ?n. nv_mem v d (a + int i) = data ! i)"
      by (auto simp: list_eq_iff_nth_eq)
    show ?thesis
    proof (cases "?got = take ?n data")
      case no: False
      have "verify_loop ops stk rd_burst a data d = Inr (False, d1)"
        using False p(4) 1(1) no by (subst verify_loop.simps) (simp add: Let_def)
      then show ?thesis using no 1 by (auto simp: got)
    next
      case yes: True
      have eq: "verify_loop ops stk rd_burst a data d = verify_loop ops stk ?n (a + int ?n) (drop ?n data) d1"
        using False p(4) 1(1) yes by (subst verify_loop.simps) (simp add: Let_def)
      obtain d2 where 2: "verify_loop ops stk ?n (a + int ?n) (drop ?n data) d1 =
          Inr (\<forall>i < length (drop ?n data). nv_mem v d1 (a + int ?n + int i) = drop ?n data ! i, d2)"
          "nor_idle v d2" "keeps v d1 d2"
        using less.hyps [of "drop ?n data" d1 "a + int ?n" ?n] n False p(2,3) 1(2) by auto
      have "(\<forall>i < length (drop ?n data). nv_mem v d1 (a + int ?n + int i) = drop ?n data ! i) \<longleftrightarrow>
          (\<forall>i < length data. nv_mem v d (a + int i) = data ! i)"
        using all_drop_iff [of ?n "\<lambda>i x. nv_mem v d (a + int i) = x" data] yes got 1(3)
        by (simp add: keeps_def add.assoc)
      then show ?thesis using eq 2 1(3) by (auto simp: keeps_def)
    qed
  qed
qed

lemma verify_iff:
  assumes "nor_contract ops v" "nor_idle v d" "0 \<le> a" "a + int (length data) \<le> 2 ^ 31"
  shows "\<exists>d'. verify ops stk a data rd_burst d =
       Inr (\<forall>i < length data. nv_mem v d (a + int i) = data ! i, d') \<and> nor_idle v d' \<and> keeps v d d'"
  using verify_loop_ok [OF assms, of "if rd_burst = 0 then min (length data) 65536 else rd_burst" stk]
  by (auto simp: verify_def Let_def)

subsection \<open>The status register\<close>

lemma read_status_ok:
  assumes "nor_contract ops v" "nor_idle v d" "\<not> nv_wel v d"
  shows "\<exists>d'. read_status_reg ops d = (nv_sr v d, d') \<and> nor_idle v d' \<and> \<not> nv_wel v d' \<and> keeps v d d'"
proof -
  have "nor_rdsr ops v" using assms(1) by (simp add: nor_contract_def)
  then show ?thesis
    using assms(2,3) unfolding nor_rdsr_def read_status_reg_def
    by (cases "spi_put ops FLASH_RDSR None True 1 d") fastforce
qed

text \<open>The sequence by which the source writes the status register and waits for it.\<close>

lemma write_status_ok:
  assumes c: "nor_contract ops v" and d: "nor_idle v d" and b: "b AND 3 = 0"
  shows "\<exists>d1 r rx d2 d3. write_enable ops d = (0, d1) \<and>
     spi_put ops FLASH_WRSR (Some [b]) False 1 d1 = (r, rx, d2) \<and>
     spi_wait ops FLASH_RDSR 0xff b 1000 False d2 = (0, d3) \<and>
     nor_idle v d3 \<and> \<not> nv_wel v d3 \<and> nv_mem v d3 = nv_mem v d \<and> nv_sr v d3 = b"
proof -
  obtain d1 where 1: "write_enable ops d = (0, d1)" "nor_idle v d1" "nv_wel v d1" "keeps v d d1"
    using write_enable_ok [OF c d] .
  obtain r rx d2 where 2: "spi_put ops FLASH_WRSR (Some [b]) False 1 d1 = (r, rx, d2)"
    by (cases "spi_put ops FLASH_WRSR (Some [b]) False 1 d1")
  obtain w d3 where 3: "spi_wait ops FLASH_RDSR 0xff b 1000 False d2 = (w, d3)"
    by (cases "spi_wait ops FLASH_RDSR 0xff b 1000 False d2")
  have "nor_wrsr ops v" using c by (simp add: nor_contract_def)
  from this [unfolded nor_wrsr_def, rule_format, OF 1(2,3) b] show ?thesis
    using 1 2 3 by (auto simp: keeps_def)
qed

lemma disable_protection_ok:
  assumes c: "nor_contract ops v" and d: "nor_idle v d" "\<not> nv_wel v d"
    and m: "sf_flash_model sf = Some f" "bp_len f \<noteq> 0" "get_bp_mask (Some f) = Inr bm"
      "nv_sr v d AND NOT bm = 0"
  shows "\<exists>d'. disable_protection ops sf d = Inr (0, d') \<and> nor_idle v d' \<and> \<not> nv_wel v d' \<and>
     nv_sr v d' = 0 \<and> nv_mem v d' = nv_mem v d"
proof -
  obtain d1 where 1: "read_status_reg ops d = (nv_sr v d, d1)" "nor_idle v d1" "keeps v d d1"
    using read_status_ok [OF c d] by auto
  obtain d2 r rx d3 d4 where 2: "write_enable ops d1 = (0, d2)"
      "spi_put ops FLASH_WRSR (Some [0]) False 1 d2 = (r, rx, d3)"
      "spi_wait ops FLASH_RDSR 0xff 0 1000 False d3 = (0, d4)"
      "nor_idle v d4" "\<not> nv_wel v d4" "nv_mem v d4 = nv_mem v d1" "nv_sr v d4 = 0"
    using write_status_ok [OF c 1(2), of 0] by auto
  obtain d5 where 3: "read_status_reg ops d4 = (0, d5)" "nor_idle v d5" "\<not> nv_wel v d5" "keeps v d4 d5"
    using read_status_ok [OF c 2(4,5)] 2(7) by auto
  have "disable_protection ops sf d = Inr (0, d5)"
    using 1(1) 2(1-3) 3(1) m by (simp add: disable_protection_def Let_def)
  then show ?thesis using 1 2 3 by (auto simp: keeps_def)
qed

lemma enable_protection_ok:
  assumes c: "nor_contract ops v" and d: "nor_idle v d" and b: "b AND 3 = 0"
    and m: "sf_flash_model sf = Some f" "bp_len f \<noteq> 0" "sf_verbose sf \<le> 0"
  shows "\<exists>d'. enable_protection_code ops sf b d = Inr (0, d') \<and> nor_idle v d' \<and> \<not> nv_wel v d' \<and>
     nv_sr v d' = b \<and> nv_mem v d' = nv_mem v d"
proof -
  obtain d2 r rx d3 d4 where 2: "write_enable ops d = (0, d2)"
      "spi_put ops FLASH_WRSR (Some [b]) False 1 d2 = (r, rx, d3)"
      "spi_wait ops FLASH_RDSR 0xff b 1000 False d3 = (0, d4)"
      "nor_idle v d4" "\<not> nv_wel v d4" "nv_mem v d4 = nv_mem v d" "nv_sr v d4 = b"
    using write_status_ok [OF c d b] by auto
  obtain d5 where 3: "read_status_reg ops d4 = (b, d5)" "nor_idle v d5" "\<not> nv_wel v d5" "keeps v d4 d5"
    using read_status_ok [OF c 2(4,5)] 2(7) by auto
  have "enable_protection_code ops sf b d = Inr (0, d5)"
    using 2(1-3) 3(1) m by (simp add: enable_protection_code_def display_if_verbose_def Let_def)
  then show ?thesis using 2 3 by (auto simp: keeps_def)
qed

subsection \<open>\<open>prepare_flash\<close>\<close>

definition fits_in :: "flash_t \<Rightarrow> int \<Rightarrow> int \<Rightarrow> bool" where
  "fits_in f a len \<longleftrightarrow> 0 \<le> a \<and> 0 \<le> len \<and> a + len \<le> uint (nr_sector f * 0x10000)"

lemma fits_in_word:
  assumes "fits_in f a len"
  shows "\<not> (word_of_int (a + len) :: u32) > nr_sector f * 0x10000"
proof -
  have "a + len < 2 ^ 32" "0 \<le> a + len"
    using assms uint_lt2p [of "nr_sector f * 0x10000"] by (simp_all add: fits_in_def)
  then have "uint (word_of_int (a + len) :: u32) = a + len"
    by (subst uint_word_of_int) simp
  then show ?thesis using assms by (simp add: fits_in_def word_less_def del: of_int_add)
qed

lemma get_tb_statr:
  assumes "nor_contract ops v" "nor_idle v d" "\<not> nv_wel v d"
    and "sf_flash_model sf = Some f" "tb_register f \<in> {STATR, NONER}"
  shows "\<exists>d'. get_tb ops sf d = Inr (if tb_register f = STATR then tb_of f (nv_sr v d) else 0, d') \<and>
     nor_idle v d' \<and> \<not> nv_wel v d' \<and> keeps v d d'"
  using read_status_ok [OF assms(1-3)] assms by (auto simp: get_tb_def keeps_def)

lemma prepare_unlocked:
  assumes c: "nor_contract ops v" and d: "nor_idle v d" "\<not> nv_wel v d" "nv_sr v d = 0"
    and sf: "sf_jedec_id sf \<noteq> 0" "sf_verbose sf \<le> 0" "\<not> sf_must_relock sf"
    and f: "sf_flash_model sf = Some f" "\<not> global_lock f" "fits_in f a len"
      "bp_len f = 0 \<or> tb_register f \<in> {STATR, NONER}"
  shows "\<exists>d'. prepare_flash ops sf a len d = Inr (True, sf\<lparr>sf_status := 0\<rparr>, d') \<and>
     nor_idle v d' \<and> keeps v d d'"
proof -
  obtain d1 where 1: "read_status_reg ops d = (0, d1)" "nor_idle v d1" "\<not> nv_wel v d1" "keeps v d d1"
    using read_status_ok [OF c d(1,2)] d(3) by auto
  let ?sf = "sf\<lparr>sf_status := 0\<rparr>"
  have "\<exists>d'. check_known ops ?sf f a len d1 = Inr (True, ?sf, d') \<and> nor_idle v d' \<and> keeps v d d'"
  proof (cases "bp_len f = 0")
    case True
    then show ?thesis using f fits_in_word [OF f(3)] 1 by (simp add: check_known_def)
  next
    case False
    have sr: "nv_sr v d1 = 0" using 1(4) d(3) by (simp add: keeps_def)
    obtain d2 where "get_tb ops ?sf d1 = Inr (0, d2)" "nor_idle v d2" "keeps v d1 d2"
      using get_tb_statr [OF c 1(2,3), of ?sf f] f False sr by (auto simp: tb_of_def)
    then show ?thesis
      using f fits_in_word [OF f(3)] 1 False
      by (auto simp: check_known_def overlaps_lock_def bp_to_len_def forced_unlock_def keeps_def)
  qed
  then obtain d2 where 2: "check_known ops ?sf f a len d1 = Inr (True, ?sf, d2)" "nor_idle v d2" "keeps v d d2"
    by auto
  have "prepare_flash ops sf a len d = Inr (True, ?sf, d2)"
    using 1(1) 2(1) sf f(1) by (simp add: prepare_flash_def)
  then show ?thesis using 2 by auto
qed

lemma prepare_locked:
  assumes c: "nor_contract ops v" and d: "nor_idle v d" "\<not> nv_wel v d" "nv_sr v d AND 3 = 0"
    and sf: "sf_jedec_id sf \<noteq> 0" "sf_verbose sf \<le> 0" "sf_unprotect sf"
    and f: "sf_flash_model sf = Some f" "\<not> global_lock f" "fits_in f a len"
      "bp_len f \<noteq> 0" "tb_register f = STATR" "get_bp_mask (Some f) = Inr bm" "nv_sr v d AND NOT bm = 0"
    and o: "overlaps_lock f (nv_sr v d) (tb_of f (nv_sr v d)) a len"
  shows "\<exists>d'. prepare_flash ops sf a len d =
       Inr (True, sf\<lparr>sf_status := nv_sr v d, sf_must_relock := True\<rparr>, d') \<and>
     nor_idle v d' \<and> nv_sr v d' = 0 \<and> nv_mem v d' = nv_mem v d"
proof -
  obtain d1 where 1: "read_status_reg ops d = (nv_sr v d, d1)" "nor_idle v d1" "\<not> nv_wel v d1" "keeps v d d1"
    using read_status_ok [OF c d(1,2)] by auto
  have st: "nv_sr v d AND NOT 3 = nv_sr v d"
    using and_split [of "nv_sr v d" 3] d(3) by simp
  let ?sf = "sf\<lparr>sf_status := nv_sr v d\<rparr>"
  obtain d2 where 2: "get_tb ops ?sf d1 = Inr (tb_of f (nv_sr v d), d2)" "nor_idle v d2"
      "\<not> nv_wel v d2" "keeps v d1 d2"
    using get_tb_statr [OF c 1(2,3), of ?sf f] f 1(4) by (auto simp: keeps_def)
  have tb: "tb_of f (nv_sr v d) \<noteq> -1" by (simp add: tb_of_def)
  obtain d3 where 3: "disable_protection ops (?sf\<lparr>sf_must_relock := True\<rparr>) d2 = Inr (0, d3)" "nor_idle v d3"
      "nv_sr v d3 = 0" "nv_mem v d3 = nv_mem v d2"
    using disable_protection_ok [OF c 2(2,3), of "?sf\<lparr>sf_must_relock := True\<rparr>" f bm] f 1(4) 2(4)
    by (auto simp: keeps_def)
  have "check_known ops ?sf f a len d1 = Inr (True, ?sf\<lparr>sf_must_relock := True\<rparr>, d2)"
    using f fits_in_word [OF f(3)] 2(1) tb o sf(3) by (simp add: check_known_def Let_def)
  then have "prepare_flash ops sf a len d = Inr (True, ?sf\<lparr>sf_must_relock := True\<rparr>, d3)"
    using 1(1) 3(1) sf f(1) st by (simp add: prepare_flash_def)
  then show ?thesis using 1 2 3 by (auto simp: keeps_def)
qed

end
