(* ===== verification/Nor_Chip.thy ===== *)
theory Nor_Chip
  imports Nor_Flash
begin

unbundle bit_operations_syntax

section \<open>A reference chip\<close>

text \<open>
  A serial NOR flash as an executable state machine, carried directly by \<open>spi_put\<close> and
  \<open>spi_wait\<close>.  It meets the contract of \<open>Nor_Flash\<close>, so the hypotheses of the theorems on
  \<open>SPIFlash\<close> can be met; and the operations can be run on it.
\<close>

record chip =
  ch_mem :: "int \<Rightarrow> u8"
  ch_wel :: bool
  ch_busy :: bool
  ch_sr :: u8
  ch_id :: bytes

definition addr_val :: "bytes \<Rightarrow> int" where
  "addr_val bs = foldl (\<lambda>a b. a * 256 + uint b) 0 bs"

definition addr_width :: "u8 \<Rightarrow> nat" where
  "addr_width cmd = (if cmd \<in> {FLASH_4SE, FLASH_4BE64, FLASH_4PP, FLASH_4READ} then 4 else 3)"

definition tx_of :: "bytes option \<Rightarrow> bytes" where
  "tx_of t = (case t of None \<Rightarrow> [] | Some bs \<Rightarrow> bs)"

definition chip_write :: "u8 \<Rightarrow> bytes \<Rightarrow> chip \<Rightarrow> chip" where
  "chip_write cmd tx c =
     (let w = addr_width cmd; a = addr_val (take w tx) in
      if \<not> ch_wel c then c
      else if cmd = FLASH_WRSR then c\<lparr>ch_sr := tx ! 0 AND NOT 3, ch_busy := True\<rparr>
      else if cmd \<in> {FLASH_SE, FLASH_4SE} then
        c\<lparr>ch_mem := erase_range (a - a mod 0x1000) (a - a mod 0x1000 + 0x1000) (ch_mem c), ch_busy := True\<rparr>
      else if cmd \<in> {FLASH_BE64, FLASH_4BE64} then
        c\<lparr>ch_mem := erase_range (a - a mod 0x10000) (a - a mod 0x10000 + 0x10000) (ch_mem c), ch_busy := True\<rparr>
      else if cmd \<in> {FLASH_PP, FLASH_4PP} then
        c\<lparr>ch_mem := page_program (a - a mod 256) (a mod 256) (drop w tx) (ch_mem c), ch_busy := True\<rparr>
      else c)"

definition chip_status :: "chip \<Rightarrow> u8" where
  "chip_status c = ch_sr c OR (if ch_wel c then 2 else 0) OR (if ch_busy c then 1 else 0)"

definition chip_put :: "u8 \<Rightarrow> bytes option \<Rightarrow> bool \<Rightarrow> nat \<Rightarrow> chip \<Rightarrow> int \<times> bytes \<times> chip" where
  "chip_put cmd tx want_rx n c =
     (if cmd = FLASH_WREN then (0, [], c\<lparr>ch_wel := True\<rparr>)
      else if cmd = FLASH_RDSR then (0, replicate n (chip_status c), c)
      else if cmd = 0x9f then (0, ch_id c, c)
      else if cmd \<in> {FLASH_READ, FLASH_4READ} then
        (let w = addr_width cmd; a = addr_val (take w (tx_of tx)) in
         (0, replicate w 0xff @ map (\<lambda>i. ch_mem c (a + int i)) [0..<n - w], c))
      else (0, [], chip_write cmd (tx_of tx) c))"

text \<open>The operation in progress ends before the time is up; then the register is compared.\<close>

definition chip_wait :: "u8 \<Rightarrow> u8 \<Rightarrow> u8 \<Rightarrow> nat \<Rightarrow> bool \<Rightarrow> chip \<Rightarrow> int \<times> chip" where
  "chip_wait cmd m cond timeout verbose c =
     (let c = (if ch_busy c then c\<lparr>ch_busy := False, ch_wel := False\<rparr> else c)
      in (if chip_status c AND m = cond then 0 else -62, c))"

definition chip_ops :: "chip spi_ops" where
  "chip_ops = \<lparr>spi_put = chip_put, spi_wait = chip_wait\<rparr>"

definition chip_view :: "chip nor_view" where
  "chip_view = \<lparr>nv_inv = (\<lambda>c. ch_sr c AND 3 = 0), nv_mem = ch_mem, nv_wel = ch_wel,
     nv_busy = ch_busy, nv_sr = ch_sr\<rparr>"

lemma uint_addr_byte: "uint (addr_byte a k) = a div 2 ^ k mod 256"
  by (simp add: addr_byte_def uint_word_of_int drop_bit_eq_div)

lemma addr_top_byte:
  assumes "addr_ok a"
  shows "uint (addr_byte a 24) = a div 256 div 256 div 256" "a \<le> 0xffffff \<Longrightarrow> a div 256 div 256 div 256 = 0"
proof -
  have d: "a div 256 div 256 div 256 = a div 16777216" by (simp flip: zdiv_zmult2_eq)
  have a: "0 \<le> a" "a \<le> 2147483647" using assms by (simp_all add: addr_ok_def)
  have "0 \<le> a div 16777216" using a(1) by (simp add: pos_imp_zdiv_nonneg_iff)
  moreover have "a div 16777216 \<le> 127" using zdiv_mono1 [OF a(2), of 16777216] by simp
  ultimately have "a div 16777216 mod 256 = a div 16777216" by (intro mod_pos_pos_trivial) linarith+
  then show "uint (addr_byte a 24) = a div 256 div 256 div 256" unfolding d by (simp add: uint_addr_byte)
  show "a div 256 div 256 div 256 = 0" if "a \<le> 0xffffff" unfolding d using a that by simp
qed

lemma addr_val_bytes:
  assumes "addr_ok a"
  shows "addr_val (addr_bytes a) = a"
proof -
  have u: "uint (addr_byte a 16) = a div 256 div 256 mod 256" "uint (addr_byte a 8) = a div 256 mod 256"
    "uint (addr_byte a 0) = a mod 256"
    by (simp_all add: uint_addr_byte flip: zdiv_zmult2_eq)
  show ?thesis
  proof (cases "a \<le> 0xffffff")
    case True
    have "a div 256 div 256 div 256 = 0" using addr_top_byte [OF assms] True by simp
    then have c: "a div 256 div 256 mod 256 = a div 256 div 256"
      using div_mult_mod_eq [of "a div 256 div 256" 256] by (simp only: mult_zero_left add_0)
    have "addr_val (addr_bytes a) =
        (uint (addr_byte a 16) * 256 + uint (addr_byte a 8)) * 256 + uint (addr_byte a 0)"
      using True by (simp add: addr_val_def addr_bytes_def)
    then show ?thesis by (simp only: u c div_mult_mod_eq)
  next
    case False
    then have "addr_val (addr_bytes a) = ((uint (addr_byte a 24) * 256 + uint (addr_byte a 16)) * 256
        + uint (addr_byte a 8)) * 256 + uint (addr_byte a 0)"
      by (simp add: addr_val_def addr_bytes_def)
    then show ?thesis by (simp only: u addr_top_byte [OF assms] div_mult_mod_eq)
  qed
qed

lemma length_addr_bytes: "length (addr_bytes a) = (if a \<le> 0xffffff then 3 else 4)"
  by (simp add: addr_bytes_def)

lemma addr_width_cmd:
  "cmd_of c3 c4 a = cmd \<Longrightarrow> addr_width c3 = 3 \<Longrightarrow> addr_width c4 = 4 \<Longrightarrow>
     addr_width cmd = length (addr_bytes a)"
  by (auto simp: cmd_of_def length_addr_bytes)

lemma and_or_low: "x AND 3 = 0 \<Longrightarrow> (x OR 2) AND 2 = (2 :: u8) \<and> x AND 1 = 0 \<and> x AND 2 = 0"
proof -
  assume x: "x AND 3 = 0"
  have "x AND 1 = (x AND 3) AND 1" "x AND 2 = (x AND 3) AND 2" by (simp_all add: and.assoc)
  then show ?thesis using x by (simp add: bit.conj_disj_distrib2)
qed

lemma clear_low: "x AND 3 = 0 \<Longrightarrow> x AND - 4 = (x :: u8)"
  using and_split [of x 3] by simp

lemma and_255: "x AND 255 = (x :: u8)"
  using and_FF [of x] by (simp add: and.commute)

lemmas chip_simps = chip_ops_def chip_view_def nor_idle_def keeps_def chip_put_def chip_wait_def
  chip_write_def chip_status_def tx_of_def

lemma chip_contract: "nor_contract chip_ops chip_view"
proof -
  have "nor_wren chip_ops chip_view" by (simp add: nor_wren_def chip_simps)
  moreover have "nor_wait_wel chip_ops chip_view"
    by (auto simp: nor_wait_wel_def chip_simps and_or_low)
  moreover have "nor_wait_wip chip_ops chip_view"
    by (auto simp: nor_wait_wip_def chip_simps and_or_low)
  moreover have "nor_erase chip_ops chip_view FLASH_SE FLASH_4SE 0x1000"
    by (auto simp: nor_erase_def chip_simps Let_def cmd_of_def addr_width_def addr_val_bytes length_addr_bytes)
  moreover have "nor_erase chip_ops chip_view FLASH_BE64 FLASH_4BE64 0x10000"
    by (auto simp: nor_erase_def chip_simps Let_def cmd_of_def addr_width_def addr_val_bytes length_addr_bytes)
  moreover have "nor_program chip_ops chip_view"
    by (auto simp: nor_program_def chip_simps Let_def cmd_of_def addr_width_def addr_val_bytes length_addr_bytes)
  moreover have "nor_read chip_ops chip_view"
    by (auto simp: nor_read_def chip_simps Let_def cmd_of_def addr_width_def addr_val_bytes length_addr_bytes)
  moreover have "nor_rdsr chip_ops chip_view" by (auto simp: nor_rdsr_def chip_simps)
  moreover have "nor_wrsr chip_ops chip_view"
    by (auto simp: nor_wrsr_def chip_simps clear_low and_255)
  ultimately show ?thesis by (simp add: nor_contract_def)
qed

end
