(* ===== verification/Flash_Interface.thy ===== *)
theory Flash_Interface
  imports Nor_Chip
begin

unbundle bit_operations_syntax

section \<open>\<open>FlashInterface\<close> and the correctness of writing a flash\<close>

text \<open>
  The methods of \<open>flashInterface.cpp\<close>, which open a \<open>SPIFlash\<close> on the device between
  \<open>prepare_flash_access\<close> and \<open>post_flash_access\<close>, and the properties of the flash code as a
  whole.  The virtual methods of the class are fields of a record, as its \<open>spi_put\<close> and
  \<open>spi_wait\<close> are in \<open>spi_ops\<close>.
\<close>

subsection \<open>The methods\<close>

record 'd flash_iface =
  fi_spi :: "'d spi_ops"
  prepare_flash_access :: "'d \<Rightarrow> bool \<times> 'd"
  restore_flash_access_frequency :: "'d \<Rightarrow> 'd"
  post_flash_access :: "'d \<Rightarrow> bool \<times> 'd"
  spif_verbose :: int
  spif_rd_burst :: nat
  spif_verify :: bool

text \<open>
  The frame of every method: prepare, construct, run the body, catch the exception of the
  constructor with \<open>ret = false\<close>, close the access, combine the two results.
\<close>

definition with_flash ::
  "'d flash_iface \<Rightarrow> bool \<Rightarrow> 'x \<Rightarrow> (spiflash \<Rightarrow> 'd \<Rightarrow> (bool \<times> 'x \<times> 'd) res) \<Rightarrow> (bool \<Rightarrow> bool) \<Rightarrow>
     'd \<Rightarrow> (bool \<times> 'x \<times> 'd) res" where
  "with_flash fi unprotect dflt body fin d =
     (let (ok, d) = prepare_flash_access fi d in
      if \<not> ok then Inr (False, dflt, d)
      else let (sf, d) = spiflash_ctor (fi_spi fi) unprotect (spif_verbose fi) d in
        bindE (case sf of Inl e \<Rightarrow> Inr (False, dflt, d) | Inr sf \<Rightarrow> body sf d) (\<lambda>(ret, x, d).
          let (ok, d) = post_flash_access fi d in Inr (ok \<and> fin ret, x, d)))"

definition run_flash ::
  "'d flash_iface \<Rightarrow> bool \<Rightarrow> (spiflash \<Rightarrow> 'd \<Rightarrow> (bool \<times> 'd) res) \<Rightarrow> 'd \<Rightarrow> (bool \<times> 'd) res" where
  "run_flash fi unprotect body d =
     bindE (with_flash fi unprotect () (\<lambda>sf d. bindE (body sf d) (\<lambda>(r, d). Inr (r, (), d))) (\<lambda>ret. ret) d)
       (\<lambda>(r, _, d). Inr (r, d))"

definition detect_flash :: "'d flash_iface \<Rightarrow> 'd \<Rightarrow> (bool \<times> 'd) res" where
  "detect_flash fi d = run_flash fi False (\<lambda>sf d.
     let (status, d) = read_status_reg (fi_spi fi) d in
     bindE (display_status_reg (fi_spi fi) sf status d) (\<lambda>d. Inr (True, d))) d"

definition protect_flash :: "'d flash_iface \<Rightarrow> string \<Rightarrow> u32 \<Rightarrow> 'd \<Rightarrow> (bool \<times> 'd) res" where
  "protect_flash fi confirm len d = run_flash fi False (\<lambda>sf d.
     bindE (enable_protection_len (fi_spi fi) sf confirm len d) (\<lambda>(r, d). Inr (r = 0, d))) d"

definition unprotect_flash :: "'d flash_iface \<Rightarrow> 'd \<Rightarrow> (bool \<times> 'd) res" where
  "unprotect_flash fi d = run_flash fi False (\<lambda>sf d.
     bindE (disable_protection (fi_spi fi) sf d) (\<lambda>(r, d). Inr (r = 0, d))) d"

definition fi_set_quad_bit :: "'d flash_iface \<Rightarrow> bool \<Rightarrow> 'd \<Rightarrow> (bool \<times> 'd) res" where
  "fi_set_quad_bit fi set_quad d = run_flash fi False (\<lambda>sf d.
     Inr (set_quad_bit (fi_spi fi) sf set_quad d)) d"

definition bulk_erase_flash :: "'d flash_iface \<Rightarrow> 'd \<Rightarrow> (bool \<times> 'd) res" where
  "bulk_erase_flash fi d = run_flash fi False (\<lambda>sf d.
     bindE (bulk_erase (fi_spi fi) sf False d) (\<lambda>(r, d). Inr (r = 0, d))) d"

definition write_sections ::
  "'d flash_iface \<Rightarrow> FlashDataSection list \<Rightarrow> bool \<Rightarrow> bool \<Rightarrow> 'd \<Rightarrow> (bool \<times> 'd) res" where
  "write_sections fi sections unprotect full_erase d = run_flash fi unprotect (\<lambda>sf d.
     let (_, d) = read_status_reg (fi_spi fi) d in
     bindE (erase_and_prog_sections (fi_spi fi) sf sections full_erase d) (\<lambda>(ok, _, d). Inr (ok, d)))
     d"

definition write_data ::
  "'d flash_iface \<Rightarrow> (nat \<Rightarrow> u8) \<Rightarrow> u32 \<Rightarrow> bytes \<Rightarrow> bool \<Rightarrow> 'd \<Rightarrow> (bool \<times> 'd) res" where
  "write_data fi stk offset data unprotect d = run_flash fi unprotect (\<lambda>sf d.
     let d = restore_flash_access_frequency fi d;
         (_, d) = read_status_reg (fi_spi fi) d in
     bindE (erase_and_prog (fi_spi fi) sf (sint offset) data d) (\<lambda>(r, sf, d).
       if r \<noteq> -1 \<and> spif_verify fi
       then verify (fi_spi fi) stk (sint offset) data (spif_rd_burst fi) d
       else Inr (r \<noteq> -1, d))) d"

text \<open>
  \<open>read\<close> stores the result of \<open>SPIFlash::read\<close>, zero for success, in a \<open>bool\<close> and tests it
  for zero at the end.  The bytes read, if any, come with the result.
\<close>

definition read_data ::
  "'d flash_iface \<Rightarrow> (nat \<Rightarrow> u8) \<Rightarrow> u32 \<Rightarrow> nat \<Rightarrow> 'd \<Rightarrow> (bool \<times> bytes option \<times> 'd) res" where
  "read_data fi stk base_addr len d = with_flash fi False None (\<lambda>sf d.
     let (ret, data, d) = flash_read (fi_spi fi) stk (sint base_addr) len d in
     Inr (bool_of_int ret, data, d)) (\<lambda>ret. ret = False) d"

text \<open>\<open>dump\<close>, with the bytes written to the file.\<close>

definition dump_flash ::
  "'d flash_iface \<Rightarrow> (nat \<Rightarrow> u8) \<Rightarrow> bool \<Rightarrow> u32 \<Rightarrow> nat \<Rightarrow> 'd \<Rightarrow> (bool \<times> bytes \<times> 'd) res" where
  "dump_flash fi stk fopen_ok base_addr len d = with_flash fi False [] (\<lambda>sf d.
     dump (fi_spi fi) stk fopen_ok (sint base_addr) len (spif_rd_burst fi) d) (\<lambda>ret. ret) d"

subsection \<open>Erasing and programming\<close>

text \<open>
  The state \<open>erase_and_prog\<close> leaves in the array: the data, blank bytes up to the end of
  the area the loop of \<open>sectors_erase\<close> really erases (the rounded end, or beyond it), and the old contents elsewhere.
\<close>

definition written :: "spiflash \<Rightarrow> int \<Rightarrow> bytes \<Rightarrow> (int \<Rightarrow> u8) \<Rightarrow> int \<Rightarrow> u8" where
  "written sf a data m x =
     (if a \<le> x \<and> x < a + int (length data) then data ! nat (x - a)
      else erase_range a (erased_up_to (sector_ready sf) (erase_end sf a (int (length data)))) m x)"

definition aligned_for :: "spiflash \<Rightarrow> int \<Rightarrow> bool" where
  "aligned_for sf a \<longleftrightarrow> (if sector_ready sf then 0x10000 else 0x1000) dvd a"

lemma written_cong: "sf_flash_model sf' = sf_flash_model sf \<Longrightarrow> written sf' = written sf"
  by (simp add: fun_eq_iff written_def sector_ready_def subsector_ready_def erase_end_def)

lemma erased_up_to_ge: "e \<le> erased_up_to sec e"
  using pos_mod_bound [of 65536 e] by (simp add: erased_up_to_def less_imp_le)

lemma erase_then_program:
  assumes c: "nor_contract ops v" and d: "nor_idle v d" "nv_sr v d = 0"
    and a: "aligned_for sf a" "0 \<le> a" "a + int (length data) + 0x10000 \<le> 2 ^ 31"
  shows "\<exists>d1 d2. sectors_erase ops sf a (int (length data)) d = (0, d1) \<and>
     prog_loop ops sf (\<lambda>i. a + int i) 0 data d1 = (0, d2) \<and> nor_idle v d2 \<and> nv_sr v d2 = 0 \<and>
     nv_mem v d2 = written sf a data (nv_mem v d)"
proof -
  let ?e = "erase_end sf a (int (length data))"
  obtain d1 where 1: "sectors_erase ops sf a (int (length data)) d = (0, d1)" "nor_idle v d1" "nv_sr v d1 = 0"
      "nv_mem v d1 = erase_range a (erased_up_to (sector_ready sf) ?e) (nv_mem v d)"
    using sectors_erase_exact [OF c d, of "int (length data)" a sf] a by (auto simp: aligned_for_def)
  have "a + int (length data) \<le> erased_up_to (sector_ready sf) ?e"
    using erase_end_props(2) [of "int (length data)" a sf] erased_up_to_ge [of ?e "sector_ready sf"] by simp
  then have "blank_at (nv_mem v d1) a (length data)"
    by (auto simp: 1(4) blank_at_def erase_range_def)
  moreover have "256 dvd a"
    using a(1) dvd_trans [of 256 65536 a] dvd_trans [of 256 4096 a]
    by (auto simp: aligned_for_def split: if_splits)
  ultimately obtain d2 where 2: "prog_loop ops sf (\<lambda>i. a + int i) 0 data d1 = (0, d2)" "nor_idle v d2"
      "nv_sr v d2 = 0" "holds_at (nv_mem v d1) a data (nv_mem v d2)"
    using prog_loop_ok [OF c 1(2,3), of data "\<lambda>i. a + int i" 0 a sf] a by (auto simp: page_ok_def)
  then show ?thesis using 1 by (auto simp: holds_at_def written_def fun_eq_iff)
qed

text \<open>A chip and the object that \<open>SPIFlash\<close> builds for it (the Winbond W25Q128 of the table).\<close>

definition demo_flash :: flash_t where
  "demo_flash = \<lparr>manufacturer = ''Winbond'', model = ''W25Q128'', nr_sector = 256,
    sector_erase_ok = True, subsector_erase = True, has_extended = False, tb_otp = False,
    tb_offset = 32, tb_register = STATR, bp_len = 3, bp_offset = [4, 8, 16, 0],
    quad_register = NONER, quad_mask = 0, global_lock = False\<rparr>"

definition demo_sf :: "bool \<Rightarrow> spiflash" where
  "demo_sf unprotect = \<lparr>sf_verbose = 0, sf_jedec_id = 0xef401800, sf_flash_model = Some demo_flash,
     sf_unprotect = unprotect, sf_must_relock = False, sf_status = 0\<rparr>"

definition demo_chip :: "u8 \<Rightarrow> chip" where
  "demo_chip sr = \<lparr>ch_mem = (\<lambda>x. 0x5a), ch_wel = False, ch_busy = False, ch_sr = sr, ch_id = [0xef, 0x40, 0x18, 0]\<rparr>"

lemmas demo_defs = demo_flash_def demo_sf_def demo_chip_def chip_view_def nor_idle_def fits_in_def
  aligned_for_def sector_ready_def

text \<open>
  C8: \<open>erase_and_prog\<close> on an unprotected chip.  On any carrier that meets the contract of the
  chip, with a known model without global lock, at an address aligned to the erase block and
  an area that fits the chip, it returns 0, the array holds the data at that address, the
  rest of the erased area is blank and every byte outside of it is as it was.
\<close>

theorem erase_and_prog_correct:
  assumes c: "nor_contract ops v" and d: "nor_idle v d" "\<not> nv_wel v d" "nv_sr v d = 0"
    and sf: "sf_jedec_id sf \<noteq> 0" "sf_verbose sf \<le> 0" "\<not> sf_must_relock sf"
    and f: "sf_flash_model sf = Some f" "\<not> global_lock f" "fits_in f a (int (length data))"
      "bp_len f = 0 \<or> tb_register f \<in> {STATR, NONER}"
    and a: "aligned_for sf a" "a + int (length data) + 0x10000 \<le> 2 ^ 31"
  shows "\<exists>sf' d'. erase_and_prog ops sf a data d = Inr (0, sf', d') \<and> nor_idle v d' \<and>
     nv_sr v d' = 0 \<and> nv_mem v d' = written sf a data (nv_mem v d)"
proof -
  obtain d1 where 1: "prepare_flash ops sf a (int (length data)) d = Inr (True, sf\<lparr>sf_status := 0\<rparr>, d1)"
      "nor_idle v d1" "keeps v d d1"
    using prepare_unlocked [OF c d sf f] by auto
  obtain d2 d3 where 2: "sectors_erase ops (sf\<lparr>sf_status := 0\<rparr>) a (int (length data)) d1 = (0, d2)"
      "prog_loop ops (sf\<lparr>sf_status := 0\<rparr>) (\<lambda>i. a + int i) 0 data d2 = (0, d3)" "nor_idle v d3"
      "nv_sr v d3 = 0" "nv_mem v d3 = written (sf\<lparr>sf_status := 0\<rparr>) a data (nv_mem v d1)"
    using erase_then_program [OF c 1(2), of "sf\<lparr>sf_status := 0\<rparr>" a data] 1(3) d(3) a f(3)
    by (auto simp: keeps_def aligned_for_def sector_ready_def fits_in_def)
  have "erase_and_prog ops sf a data d = Inr (0, sf\<lparr>sf_status := 0\<rparr>, d3)"
    using 1(1) 2(1,2) sf(3) by (simp add: erase_and_prog_def relock_def)
  moreover have "written (sf\<lparr>sf_status := 0\<rparr>) a data (nv_mem v d1) = written sf a data (nv_mem v d)"
    using 1(3) written_cong [of "sf\<lparr>sf_status := 0\<rparr>" sf] by (simp add: keeps_def)
  ultimately show ?thesis using 2 by auto
qed

theorem erase_and_prog_correct_witness:
  "\<exists>sf' d'. erase_and_prog chip_ops (demo_sf False) 0x20000 [1, 2, 3] (demo_chip 0) = Inr (0, sf', d') \<and>
     nor_idle chip_view d' \<and> nv_sr chip_view d' = 0 \<and>
     nv_mem chip_view d' = written (demo_sf False) 0x20000 [1, 2, 3] (nv_mem chip_view (demo_chip 0))"
  by (rule erase_and_prog_correct [OF chip_contract, where f = demo_flash]) (simp_all add: demo_defs)

text \<open>
  C9: \<open>erase_and_prog\<close> on a protected area.  Where the block protection of the status register
  overlaps the area to write and unprotecting is allowed, it lifts the protection, writes the
  data as above and puts the status register back as it was.
\<close>

theorem erase_and_prog_relocks:
  assumes c: "nor_contract ops v" and d: "nor_idle v d" "\<not> nv_wel v d" "nv_sr v d AND 3 = 0"
    and sf: "sf_jedec_id sf \<noteq> 0" "sf_verbose sf \<le> 0" "sf_unprotect sf"
    and f: "sf_flash_model sf = Some f" "\<not> global_lock f" "fits_in f a (int (length data))"
      "bp_len f \<noteq> 0" "tb_register f = STATR" "get_bp_mask (Some f) = Inr bm" "nv_sr v d AND NOT bm = 0"
    and o: "overlaps_lock f (nv_sr v d) (tb_of f (nv_sr v d)) a (int (length data))"
    and a: "aligned_for sf a" "a + int (length data) + 0x10000 \<le> 2 ^ 31"
  shows "\<exists>sf' d'. erase_and_prog ops sf a data d = Inr (0, sf', d') \<and> nor_idle v d' \<and>
     nv_sr v d' = nv_sr v d \<and> nv_mem v d' = written sf a data (nv_mem v d)"
proof -
  let ?sf = "sf\<lparr>sf_status := nv_sr v d, sf_must_relock := True\<rparr>"
  obtain d1 where 1: "prepare_flash ops sf a (int (length data)) d = Inr (True, ?sf, d1)"
      "nor_idle v d1" "nv_sr v d1 = 0" "nv_mem v d1 = nv_mem v d"
    using prepare_locked [OF c d sf f o] by auto
  obtain d2 d3 where 2: "sectors_erase ops ?sf a (int (length data)) d1 = (0, d2)"
      "prog_loop ops ?sf (\<lambda>i. a + int i) 0 data d2 = (0, d3)" "nor_idle v d3"
      "nv_mem v d3 = written ?sf a data (nv_mem v d1)"
    using erase_then_program [OF c 1(2,3), of ?sf a data] a f(3)
    by (auto simp: aligned_for_def sector_ready_def fits_in_def)
  obtain d4 where 3: "enable_protection_code ops ?sf (nv_sr v d) d3 = Inr (0, d4)" "nor_idle v d4"
      "nv_sr v d4 = nv_sr v d" "nv_mem v d4 = nv_mem v d3"
    using enable_protection_ok [OF c 2(3) d(3), of ?sf f] f sf by auto
  have "erase_and_prog ops sf a data d = Inr (0, ?sf, d4)"
    using 1(1) 2(1,2) 3(1) sf(2) by (simp add: erase_and_prog_def relock_def display_if_verbose_def)
  moreover have "written ?sf a data (nv_mem v d1) = written sf a data (nv_mem v d)"
    using 1(4) written_cong [of ?sf sf] by simp
  ultimately show ?thesis using 2 3 by auto
qed

theorem erase_and_prog_relocks_witness:
  "\<exists>sf' d'. erase_and_prog chip_ops (demo_sf True) 0xff0000 [1, 2, 3] (demo_chip 8) = Inr (0, sf', d') \<and>
     nor_idle chip_view d' \<and> nv_sr chip_view d' = nv_sr chip_view (demo_chip 8) \<and>
     nv_mem chip_view d' = written (demo_sf True) 0xff0000 [1, 2, 3] (nv_mem chip_view (demo_chip 8))"
  by (rule erase_and_prog_relocks [OF chip_contract, where f = demo_flash and bm = "0x1c"])
    (simp_all add: demo_defs get_bp_mask_def overlaps_lock_def bp_to_len_def tb_of_def bp_gather_def upt_rec)

subsection \<open>The erased area\<close>

text \<open>The end address is the only multiple of the granularity less than one granule above the area.\<close>

lemma multiple_unique:
  fixes n :: int
  assumes "n dvd x" "n dvd y" "l \<le> x" "x < l + n" "l \<le> y" "y < l + n"
  shows "x = y"
proof -
  have "n dvd x - y" "\<bar>x - y\<bar> < \<bar>n\<bar>" using assms by auto
  then show ?thesis using dvd_imp_le_int [of "x - y" n] by (cases "x = y") auto
qed

lemma erase_end_unique:
  assumes "n = (if subsector_ready sf then 0x1000 else 0x10000)" "n dvd e" "a + len \<le> e" "e < a + len + n" "0 \<le> len"
  shows "erase_end sf a len = e"
  using multiple_unique [of n "erase_end sf a len" e "a + len"] assms erase_end_props [OF assms(5), where sf = sf and a = a]
    erase_end_sub [OF assms(5), where sf = sf and a = a] by (auto split: if_splits)

text \<open>
  C32: \<open>sectors_erase\<close> on an unprotected chip, from an address aligned to the erase block.  Let \<open>e\<close> be the end of the area rounded
  up to a multiple of 4 KiB, of 64 KiB on a chip without the 4 KiB erase.  The function returns 0 and leaves the chip idle and
  unprotected.  It blanks exactly the bytes from the start up to \<open>e\<close> on a chip with one erase size, and on a chip with both
  when \<open>e\<close> is a multiple of 64 KiB or the first multiple of 4 KiB after one.  In every other case it blanks up to the next
  multiple of 64 KiB, beyond \<open>e\<close>: the step stays at 4 KiB after the first subsector, so that the test for the end of the area
  lets a block erase start inside the last block.
\<close>

theorem sectors_erase_area:
  assumes "nor_contract ops v" "nor_idle v d" "nv_sr v d = 0"
    and "0 \<le> len" "0 \<le> a" "a + len + 0x10000 \<le> 2 ^ 31" "aligned_for sf a"
    and "n = (if subsector_ready sf then 0x1000 else 0x10000)" "n dvd e" "a + len \<le> e" "e < a + len + n"
  shows "\<exists>d'. sectors_erase ops sf a len d = (0, d') \<and> nor_idle v d' \<and> nv_sr v d' = 0 \<and>
     (if \<not> (sector_ready sf \<and> subsector_ready sf) \<or> e mod 0x10000 \<in> {0, 0x1000}
      then nv_mem v d' = erase_range a e (nv_mem v d)
      else nv_mem v d' = erase_range a (e + (0x10000 - e mod 0x10000)) (nv_mem v d))"
proof -
  have e: "erase_end sf a len = e" by (rule erase_end_unique [OF assms(8-11,4)])
  have d: "0x1000 dvd e mod 0x10000" "\<not> subsector_ready sf \<Longrightarrow> e mod 0x10000 = 0"
    using assms(8,9) by (auto simp: dvd_mod split: if_splits)
  then have "e mod 0x10000 \<le> 0x1000 \<longleftrightarrow> e mod 0x10000 \<in> {0, 0x1000}"
    using pos_mod_sign [of "0x10000" e] by (auto simp: dvd_def)
  then have "erased_up_to (sector_ready sf) e =
      (if \<not> (sector_ready sf \<and> subsector_ready sf) \<or> e mod 0x10000 \<in> {0, 0x1000} then e else e + (0x10000 - e mod 0x10000))"
    using d(2) by (auto simp: erased_up_to_def)
  then show ?thesis using sectors_erase_exact [OF assms(1-6)] assms(7) by (force simp: e aligned_for_def)
qed

theorem sectors_erase_area_witness:
  "(\<exists>d'. sectors_erase chip_ops (demo_sf False) 0x20000 0x10800 (demo_chip 0) = (0, d') \<and>
     nor_idle chip_view d' \<and> nv_sr chip_view d' = 0 \<and>
     nv_mem chip_view d' = erase_range 0x20000 0x31000 (nv_mem chip_view (demo_chip 0))) \<and>
   (\<exists>d'. sectors_erase chip_ops (demo_sf False) 0x20000 0x18000 (demo_chip 0) = (0, d') \<and>
     nor_idle chip_view d' \<and> nv_sr chip_view d' = 0 \<and>
     nv_mem chip_view d' = erase_range 0x20000 0x40000 (nv_mem chip_view (demo_chip 0)))"
  using sectors_erase_area [OF chip_contract, where d = "demo_chip 0" and sf = "demo_sf False" and a = "0x20000" and len = "0x10800" and
      n = "0x1000" and e = "0x31000"]
    sectors_erase_area [OF chip_contract, where d = "demo_chip 0" and sf = "demo_sf False" and a = "0x20000" and len = "0x18000" and
      n = "0x1000" and e = "0x38000"]
  by (simp add: demo_defs subsector_ready_def)

text \<open>
  On a chip with both erase sizes \<open>sectors_erase\<close> of more than one 4 KiB sector, but less
  than a 64 KiB block, blanks the whole block: from the second iteration on the step is
  4 KiB, the end of the area is not passed, and the 64 KiB erase is chosen again.
\<close>

theorem sectors_erase_overshoot:
  assumes "nor_contract ops v" "nor_idle v d" "nv_sr v d = 0" "0 \<le> a" "a + 0x20000 \<le> 2 ^ 31"
    and "sector_ready sf" "subsector_ready sf" "0x10000 dvd a" "0x1000 < len" "len \<le> 0x10000"
  shows "\<exists>d'. sectors_erase ops sf a len d = (0, d') \<and>
     nv_mem v d' = erase_range a (a + 0x10000) (nv_mem v d)"
proof -
  let ?e = "erase_end sf a len"
  have p: "0x1000 dvd ?e" "a + len \<le> ?e" "?e < a + len + 0x1000"
    using erase_end_props [where len = len and sf = sf and a = a] erase_end_sub [where len = len and sf = sf and a = a] assms by auto
  obtain k j where k: "?e = 0x1000 * k" "a = 0x10000 * j" using p(1) assms(8) by (auto simp: dvd_def)
  then have "k < 16 * j + 17" using p(3) assms(10) by linarith
  then have "?e \<le> a + 0x10000" using k by simp
  then have "erased_up_to True ?e = a + 0x10000"
    using mod_in_block [OF assms(8), of ?e] p(2) assms(8,9) by (cases "?e = a + 0x10000") (auto simp: erased_up_to_def)
  then show ?thesis
    using sectors_erase_exact [OF assms(1-3) _ assms(4), of len sf] assms by auto
qed

theorem sectors_erase_overshoot_witness:
  "\<exists>d'. sectors_erase chip_ops (demo_sf False) 0 0x2000 (demo_chip 0) = (0, d') \<and>
     nv_mem chip_view d' = erase_range 0 (0 + 0x10000) (nv_mem chip_view (demo_chip 0))"
  by (rule sectors_erase_overshoot [OF chip_contract])
    (simp_all add: demo_defs subsector_ready_def)

subsection \<open>Verifying and reading\<close>

text \<open>
  C33: \<open>verify\<close> returns true exactly if the array holds the data, whatever the burst size and
  whatever the uninitialised part of the transmit buffer, and changes nothing.
\<close>

theorem verify_decides:
  assumes "nor_contract ops v" "nor_idle v d" "0 \<le> a" "a + int (length data) \<le> 2 ^ 31"
  shows "\<exists>d'. verify ops stk a data rd_burst d =
       Inr (\<forall>i < length data. nv_mem v d (a + int i) = data ! i, d') \<and> nor_idle v d' \<and> keeps v d d'"
  by (rule verify_iff [OF assms])

theorem verify_decides_witness:
  "\<exists>d'. verify chip_ops (\<lambda>_. 0) 0x20000 [0x5a, 0x5b] 1 (demo_chip 0) =
     Inr (\<forall>i < length [0x5a :: u8, 0x5b]. nv_mem chip_view (demo_chip 0) (0x20000 + int i) = [0x5a, 0x5b] ! i, d') \<and>
   nor_idle chip_view d' \<and> keeps chip_view (demo_chip 0) d'"
  by (rule verify_decides [OF chip_contract]) (simp_all add: demo_defs)

text \<open>
  \<open>FlashInterface::read\<close> reports success when the flash is not found.  If the
  constructor of \<open>SPIFlash\<close> throws, the handler stores \<open>false\<close>, which the final test takes
  for the zero of a successful read: the method returns true without any byte read.
\<close>

theorem read_data_true_on_exception:
  assumes "prepare_flash_access fi d = (True, da)"
    and "spiflash_ctor (fi_spi fi) False (spif_verbose fi) da = (Inl e, db)"
    and "post_flash_access fi db = (True, dc)"
  shows "read_data fi stk base_addr len d = Inr (True, None, dc)"
  using assms by (simp add: read_data_def with_flash_def)

definition demo_iface :: "chip flash_iface" where
  "demo_iface = \<lparr>fi_spi = chip_ops, prepare_flash_access = (\<lambda>d. (True, d)),
     restore_flash_access_frequency = (\<lambda>d. d), post_flash_access = (\<lambda>d. (True, d)),
     spif_verbose = 0, spif_rd_burst = 0, spif_verify = True\<rparr>"

theorem read_data_true_on_exception_witness:
  "read_data demo_iface (\<lambda>_. 0) 0 4 ((demo_chip 0)\<lparr>ch_id := [0, 0, 0, 0]\<rparr>) =
     Inr (True, None, (demo_chip 0)\<lparr>ch_id := [0, 0, 0, 0]\<rparr>)"
  by (rule read_data_true_on_exception [where da = "(demo_chip 0)\<lparr>ch_id := [0, 0, 0, 0]\<rparr>"
        and db = "(demo_chip 0)\<lparr>ch_id := [0, 0, 0, 0]\<rparr>" and e = "Runtime_error ''Read ID failed''"])
    (simp_all add: demo_iface_def spiflash_ctor_def read_id_def reset_def power_up_def jedec_of_def
       demo_chip_def chip_simps)

subsection \<open>Error paths\<close>

text \<open>
  The overload of \<open>erase_and_prog\<close> on sections reports success when erasing fails: its
  \<open>return -1\<close> in a \<open>bool\<close> function is true, where the overload on one buffer returns -1.
\<close>

theorem sections_erase_failure_is_true:
  assumes "sections \<noteq> []"
    and "prepare_flash ops sf (sint (start_addr (hd sections)))
           (sint (getCurrentAddr (last sections) - start_addr (hd sections))) d = Inr (True, sf', da)"
    and "sectors_erase ops sf' (sint (start_addr (hd sections)))
           (sint (sum_list (map (\<lambda>s. of_nat (length (sec_record s))) sections) :: u32)) da = (-1, db)"
  shows "erase_and_prog_sections ops sf sections False d = Inr (True, sf', db)"
  using assms by (simp add: erase_and_prog_sections_def bool_of_int_def)

text \<open>A device on which the write enable latch never sets.\<close>

definition stuck_ops :: "chip spi_ops" where
  "stuck_ops = chip_ops\<lparr>spi_wait := (\<lambda>cmd m c t vb d. (-62, d))\<rparr>"

theorem sections_erase_failure_is_true_witness:
  "erase_and_prog_sections stuck_ops (demo_sf False) [\<lparr>start_addr = 0, sec_record = [1, 2]\<rparr>] False (demo_chip 0) =
     Inr (True, demo_sf False, (demo_chip 0)\<lparr>ch_wel := True\<rparr>)"
  by (rule sections_erase_failure_is_true [where da = "demo_chip 0"])
    (simp_all add: stuck_ops_def demo_defs chip_simps prepare_flash_def check_known_def get_tb_def
       read_status_reg_def overlaps_lock_def bp_to_len_def forced_unlock_def tb_of_def getCurrentAddr_def
       sectors_erase_def erase_end_def subsector_ready_def erase_loop.simps write_enable_def)

lemma erase_loop_unseen:
  assumes "\<And>d. fst (write_enable ops d) = 0"
    and "\<And>d. fst (spi_wait ops FLASH_RDSR FLASH_RDSR_WIP 0 100000 False d) = -62"
  shows "fst (erase_loop ops sec sub e small a d) = 0"
proof (induction "nat (e - a)" arbitrary: small a d rule: less_induct)
  case less
  show ?case
  proof (cases "a \<ge> e")
    case False
    let ?small = "use_sub sec sub e small a \<or> small"
    obtain d1 where 1: "write_enable ops d = (0, d1)" using assms(1) [of d] by (cases "write_enable ops d") simp
    have "fst (if use_sub sec sub e small a then sector_erase ops a d1 else block64_erase ops a d1) = 0"
      by (simp add: sector_erase_def block64_erase_def Let_def case_prod_beta)
    then obtain d2 where 2: "(if use_sub sec sub e small a then sector_erase ops a d1
        else block64_erase ops a d1) = (0, d2)" by (auto simp: prod_eq_iff)
    obtain d3 where 3: "spi_wait ops FLASH_RDSR FLASH_RDSR_WIP 0 100000 False d2 = (-62, d3)"
      using assms(2) [of d2] by (cases "spi_wait ops FLASH_RDSR FLASH_RDSR_WIP 0 100000 False d2") simp
    have "erase_loop ops sec sub e small a d = erase_loop ops sec sub e ?small (a + step_of ?small) d3"
      using False 1 2 3
      by (subst erase_loop.simps) (cases "use_sub sec sub e small a"; simp add: Let_def use_sub_def)
    moreover have "nat (e - (a + step_of ?small)) < nat (e - a)" using False by (simp add: step_of_def)
    ultimately show ?thesis using less by simp
  qed (simp add: erase_loop_done)
qed

text \<open>
  \<open>sectors_erase\<close> does not see a timeout.  The interface documents \<open>-ETIME\<close> for it, the
  loop compares with -1 only: as long as the write enable latch sets, it returns 0 although
  no wait for the end of an erase ever succeeds.
\<close>

theorem erase_timeout_unseen:
  assumes "\<And>d. fst (write_enable ops d) = 0"
    and "\<And>d. fst (spi_wait ops FLASH_RDSR FLASH_RDSR_WIP 0 100000 False d) = -62"
  shows "fst (sectors_erase ops sf a len d) = 0"
  using erase_loop_unseen [OF assms] by (simp add: sectors_erase_def)

text \<open>A chip that never ends an erase.\<close>

definition slow_ops :: "chip spi_ops" where
  "slow_ops = chip_ops\<lparr>spi_wait := (\<lambda>cmd m c t vb d. if m = FLASH_RDSR_WIP then (-62, d) else (0, d))\<rparr>"

theorem erase_timeout_unseen_witness:
  "fst (sectors_erase slow_ops (demo_sf False) 0 0x3000 (demo_chip 0)) = 0"
  by (rule erase_timeout_unseen)
    (simp_all add: write_enable_def slow_ops_def chip_ops_def chip_put_def)

subsection \<open>Block protection codes\<close>

text \<open>
  \<open>len_to_bp\<close> and \<open>bp_to_len\<close> agree.  With four separate protection bits, the code computed
  for a length protects, from the bottom, a power of two of 64 KiB sectors that covers the
  length and is less than twice the sectors it needs.
\<close>

theorem len_to_bp_covers:
  assumes "bp_offset f \<in> {[4, 8, 16, 32], [4, 8, 16, 64]}" "0 < len" "unat len \<le> 2 ^ 30"
  shows "\<exists>bp k. len_to_bp f len = Inr bp \<and> bp_to_len f bp 1 = (0, 2 ^ k * 0x10000 - 1) \<and> k \<le> 14 \<and>
     unat len \<le> 2 ^ k * 0x10000 \<and> (k = 0 \<or> 2 ^ (k - 1) * 0x10000 < unat len)"
proof -
  let ?w = "((len + 0xffff) AND NOT 0xffff) div 0x10000"
  let ?n = "unat ?w" let ?k = "ceillog2 ?n" let ?c = "1 + of_nat ?k :: u8"
  let ?bp = "bp_scatter (bp_offset f) ?c"
  have n: "?n = (unat len + 0xffff) div 0x10000" using sectors_of_len [of len] assms(3) by simp
  have pos: "0 < unat len" using assms(2) by (simp add: unat_gt_0)
  note ceil = ceil_sectors [OF n pos refl]
  have "?n \<le> 2 ^ 14" using n assms(3) by simp
  then have k: "?k \<le> 14" using ceillog2_le_iff [OF ceil(1)] by simp
  have uc: "unat ?c = Suc ?k" using k by (simp add: unat_word_ariths unat_of_nat)
  have g: "bp_gather (bp_offset f) ?bp = ?c"
    using bp_gather_scatter [OF assms(1), of ?c] uc k by (simp add: word_less_nat_alt)
  have c0: "?c \<noteq> 0" using uc by (metis nat.distinct(1) unat_0)
  have "bp_gather (bp_offset f) 0 = 0" by (simp add: bp_gather_def upt_rec)
  then have bp0: "?bp \<noteq> 0" using g c0 by metis
  have len0: "len \<noteq> 0" using assms(2) by auto
  have w0: "?w \<noteq> 0" using ceil(1) by (metis less_irrefl unat_0)
  have "len_to_bp f len = Inr ?bp" using len0 w0 unfolding len_to_bp_def Let_def by simp
  moreover have "bp_to_len f ?bp 1 = (0, 2 ^ ?k * 0x10000 - 1)"
    using bp0 g c0 uc ucast_two_power [of ?k] k by (simp add: bp_to_len_def push_bit_eq_mult)
  ultimately show ?thesis using k ceil by blast
qed
theorem len_to_bp_covers_witness:
  "\<exists>bp k. len_to_bp (demo_flash\<lparr>bp_offset := [4, 8, 16, 32]\<rparr>) 0x50001 = Inr bp \<and>
     bp_to_len (demo_flash\<lparr>bp_offset := [4, 8, 16, 32]\<rparr>) bp 1 = (0, 2 ^ k * 0x10000 - 1) \<and> k \<le> 14 \<and>
     unat (0x50001 :: u32) \<le> 2 ^ k * 0x10000 \<and> (k = 0 \<or> 2 ^ (k - 1) * 0x10000 < unat (0x50001 :: u32))"
  by (rule len_to_bp_covers) simp_all

lemma get_bp_mask_oob: "get_bp_mask (Some f) = Inl Out_of_bounds \<longleftrightarrow> 4 < unat (bp_len f)"
  by (simp add: get_bp_mask_def)

text \<open>
  Five entries of the table (Macronix chips) claim five protection bits with an array of
  four offsets.  For exactly these \<open>get_bp_mask\<close>, and with it every operation on the
  protection of the chip, reads past the end of the array.
\<close>

theorem bp_mask_out_of_bounds:
  "map fst (filter (\<lambda>(id, f). get_bp_mask (Some f) = Inl Out_of_bounds) flash_list) =
     [0xc22016, 0xc22017, 0xc22018, 0xc22019, 0xc2201a]"
  by (simp add: get_bp_mask_oob flash_list_def flash_list_0_def flash_list_1_def flash_list_2_def
      flash_list_3_def flash_list_4_def flash_list_5_def)

end
