(* ===== verification/Stage2_Machine.thy ===== *)
theory Stage2_Machine
  imports Prelude
begin

unbundle bit_operations_syntax

section \<open>The machine the stage 2 loader runs on\<close>

text \<open>
  State and environment of \<open>sw/stage2_loader\<close> on the NEORV32: the memory, the bytes the
  host sends over the UART with the timeouts between them (\<open>None\<close>), the bytes sent back, the
  record of what the loader did on the SPI bus, and the SD card, a function from what has
  happened on the bus so far to the byte it puts on MISO while the next one is exchanged: what the card
  answers can depend on every command, argument and chip select before.  The
  list of bytes to come over the UART is finite: after it the host is silent.  The peripherals are taken to complete
  every transfer: the waits for the busy and ready flags of UART and SPI in \<open>putc\<close> and \<open>spi_xchg\<close> end.
  With them the UART primitives and \<open>crc32\<close> of \<open>main.c\<close>.
\<close>

datatype spi_event = Xchg u8 | Cs_assert | Cs_release | Setup u32

record mach =
  mem :: "u32 \<Rightarrow> u8"
  rx :: "u8 option list"
  tx :: bytes
  sd_card :: "spi_event list \<Rightarrow> u8"
  bus :: "spi_event list"
  sd_is_hc :: bool
  baud_rate :: nat

abbreviation SOH :: u8 where "SOH \<equiv> 0x01"
abbreviation EOT :: u8 where "EOT \<equiv> 0x04"
abbreviation ACK :: u8 where "ACK \<equiv> 0x06"
abbreviation NAK :: u8 where "NAK \<equiv> 0x15"
abbreviation CAN :: u8 where "CAN \<equiv> 0x18"

abbreviation UBOOT_LOAD_ADDR :: u32 where "UBOOT_LOAD_ADDR \<equiv> 0x40000000"
abbreviation KERNEL_LOAD_ADDR :: u32 where "KERNEL_LOAD_ADDR \<equiv> 0x40000000"
abbreviation DTB_LOAD_ADDR :: u32 where "DTB_LOAD_ADDR \<equiv> 0x41F00000"
abbreviation INITRD_LOAD_ADDR :: u32 where "INITRD_LOAD_ADDR \<equiv> 0x41F80000"

subsection \<open>UART\<close>

definition putc :: "u8 \<Rightarrow> mach \<Rightarrow> mach" where
  "putc c m = m\<lparr>tx := tx m @ [c]\<rparr>"

definition puts :: "string \<Rightarrow> mach \<Rightarrow> mach" where
  "puts s m = m\<lparr>tx := tx m @ map of_char s\<rparr>"

definition crlf :: string where "crlf = [CHR 0x0D, CHR 0x0A]"
definition lf :: string where "lf = [CHR 0x0A]"
definition em_dash :: string where "em_dash = [CHR 0xE2, CHR 0x80, CHR 0x94]"

definition hex_digit :: "u8 \<Rightarrow> char" where
  "hex_digit v = ''0123456789abcdef'' ! unat (v AND 0xf)"

definition hex32 :: "u32 \<Rightarrow> string" where
  "hex32 v = ''0x'' @ map (\<lambda>i. hex_digit (ucast (drop_bit i v))) [28, 24, 20, 16, 12, 8, 4, 0]"

definition puthex32 :: "u32 \<Rightarrow> mach \<Rightarrow> mach" where
  "puthex32 v m = puts (hex32 v) m"

text \<open>
  \<open>uart_getc_timeout\<close>: the next byte or a timeout.  The receiver has no notion of how long
  the timeouts of the environment are.
\<close>

definition getc :: "mach \<Rightarrow> u8 option \<times> mach" where
  "getc m = (case rx m of [] \<Rightarrow> (None, m) | c # cs \<Rightarrow> (c, m\<lparr>rx := cs\<rparr>))"

text \<open>\<open>uart_raw_recv\<close>: wait for the next byte, forever if need be.\<close>

definition raw_recv :: "mach \<Rightarrow> (u8 \<times> mach) res" where
  "raw_recv m = (case dropWhile (\<lambda>c. c = None) (rx m) of
     Some b # cs \<Rightarrow> Inr (b, m\<lparr>rx := cs\<rparr>)
   | _ \<Rightarrow> Inl Diverges)"

fun raw_recv_n :: "nat \<Rightarrow> mach \<Rightarrow> (bytes \<times> mach) res" where
  "raw_recv_n 0 m = Inr ([], m)"
| "raw_recv_n (Suc n) m = bindE (raw_recv m) (\<lambda>(b, m). bindE (raw_recv_n n m) (\<lambda>(bs, m). Inr (b # bs, m)))"

text \<open>Little-endian 32-bit value.\<close>

definition le_u32 :: "bytes \<Rightarrow> u32" where
  "le_u32 bs = foldl (\<lambda>v i. v OR push_bit (8 * i) (ucast (bs ! i))) 0 [0..<4]"

definition recv_u32 :: "mach \<Rightarrow> (u32 \<times> mach) res" where
  "recv_u32 m = bindE (raw_recv_n 4 m) (\<lambda>(bs, m). Inr (le_u32 bs, m))"

definition raw_byte :: "u8 \<Rightarrow> mach \<Rightarrow> mach" where
  "raw_byte b m = putc b m"

fun raw_bytes :: "bytes \<Rightarrow> mach \<Rightarrow> mach" where
  "raw_bytes [] m = m"
| "raw_bytes (b # bs) m = raw_bytes bs (raw_byte b m)"

subsection \<open>Memory\<close>

fun store :: "u32 \<Rightarrow> bytes \<Rightarrow> (u32 \<Rightarrow> u8) \<Rightarrow> u32 \<Rightarrow> u8" where
  "store a [] f = f"
| "store a (b # bs) f = store (a + 1) bs (f(a := b))"

definition load :: "u32 \<Rightarrow> nat \<Rightarrow> (u32 \<Rightarrow> u8) \<Rightarrow> bytes" where
  "load a n f = map (\<lambda>i. f (a + of_nat i)) [0..<n]"

definition load_word :: "u32 \<Rightarrow> (u32 \<Rightarrow> u8) \<Rightarrow> u32" where
  "load_word a f = le_u32 (load a 4 f)"

definition store_word :: "u32 \<Rightarrow> u32 \<Rightarrow> (u32 \<Rightarrow> u8) \<Rightarrow> u32 \<Rightarrow> u8" where
  "store_word a v f = store a [byte_of v 0, byte_of v 1, byte_of v 2, byte_of v 3] f"

lemma store_append: "store a (xs @ ys) f = store (a + of_nat (length xs)) ys (store a xs f)"
  by (induction xs arbitrary: a f) (auto simp: algebra_simps)

lemma store_other:
  assumes "\<forall>i < length bs. x \<noteq> a + of_nat i"
  shows "store a bs f x = f x"
  using assms
proof (induction bs arbitrary: a f)
  case (Cons b bs)
  have "\<forall>i < length bs. x \<noteq> (a + 1) + of_nat i"
  proof (intro allI impI)
    fix i assume "i < length bs"
    then show "x \<noteq> (a + 1) + of_nat i"
      using Cons.prems [rule_format, of "Suc i"] by (simp add: algebra_simps)
  qed
  then show ?case using Cons.IH [of "a + 1"] Cons.prems [rule_format, of 0] by simp
qed simp

lemma store_nth:
  assumes "length bs \<le> 2 ^ 32" "i < length bs"
  shows "store a bs f (a + of_nat i) = bs ! i"
  using assms
proof (induction bs arbitrary: a f i)
  case (Cons b bs)
  show ?case
  proof (cases i)
    case 0
    have "\<forall>j < length bs. a \<noteq> (a + 1) + of_nat j"
    proof (intro allI impI)
      fix j assume "j < length bs"
      then have "Suc j < 2 ^ 32" using Cons.prems(1) by simp
      then have "(of_nat (Suc j) :: u32) \<noteq> 0"
        by (auto simp: word_of_nat_eq_0_iff dest: dvd_imp_le simp del: of_nat_Suc)
      then show "a \<noteq> (a + 1) + of_nat j" by (simp add: algebra_simps)
    qed
    then show ?thesis using 0 store_other [of bs a "a + 1" "f(a := b)"] by simp
  next
    case (Suc j)
    then show ?thesis using Cons.IH [of j "a + 1"] Cons.prems by (simp add: algebra_simps)
  qed
qed simp

lemma load_store: "length bs \<le> 2 ^ 32 \<Longrightarrow> load a (length bs) (store a bs f) = bs"
  unfolding load_def by (rule nth_equalityI) (auto intro: store_nth)

lemma le_u32_four:
  "le_u32 [a, b, c, d] = ucast a OR push_bit 8 (ucast b) OR push_bit 16 (ucast c) OR push_bit 24 (ucast d)"
  by (simp add: le_u32_def upt_rec numeral_eq_Suc or.assoc)

lemma le_u32_bytes: "le_u32 [byte_of v 0, byte_of v 1, byte_of v 2, byte_of v 3] = (v :: u32)"
proof (rule bit_word_eqI)
  fix n assume n: "n < LENGTH(32)"
  then have "n < 8 \<or> 8 \<le> n \<and> n < 16 \<or> 16 \<le> n \<and> n < 24 \<or> 24 \<le> n \<and> n < 32" by auto
  then show "bit (le_u32 [byte_of v 0, byte_of v 1, byte_of v 2, byte_of v 3]) n = bit v n"
    by (auto simp: le_u32_four bit_or_iff bit_push_bit_iff bit_ucast_iff bit_byte_of)
qed

subsection \<open>CRC-32\<close>

text \<open>\<open>crc = (crc >> 1) ^ (0xEDB88320 & -(crc & 1))\<close>\<close>

definition crc_bit :: "u32 \<Rightarrow> u32" where
  "crc_bit crc = drop_bit 1 crc XOR (0xEDB88320 AND - (crc AND 1))"

definition crc_byte :: "u32 \<Rightarrow> u8 \<Rightarrow> u32" where
  "crc_byte crc b = (crc_bit ^^ 8) (crc XOR ucast b)"

definition crc32 :: "bytes \<Rightarrow> u32" where
  "crc32 data = NOT (foldl crc_byte 0xFFFFFFFF data)"

text \<open>A step loses nothing: the top bit of the result is the bit shifted out.\<close>

lemma crc_bit_alt: "crc_bit crc = drop_bit 1 crc XOR (if bit crc 0 then 0xEDB88320 else 0)"
proof -
  have "crc AND 1 = (if bit crc 0 then 1 else 0)" by (simp add: and_one_eq odd_iff_mod_2_eq_one bit_0)
  then show ?thesis by (auto simp: crc_bit_def)
qed

lemma drop_bit_low_eq:
  fixes x y :: "'a::len word"
  assumes "drop_bit 1 x = drop_bit 1 y" "bit x 0 = bit y 0"
  shows "x = y"
proof (rule bit_word_eqI)
  fix n
  show "bit x n = bit y n"
    using arg_cong [OF assms(1), of "\<lambda>w. bit w (n - 1)"] assms(2) by (cases n) (simp_all add: bit_drop_bit_eq)
qed

lemma crc_bit_inj: "inj crc_bit"
proof (rule injI)
  fix x y assume eq: "crc_bit x = crc_bit y"
  have top: "bit (crc_bit z) 31 \<longleftrightarrow> bit z 0" for z
    by (auto simp: crc_bit_alt bit_simps dest: bit_imp_le_length)
  have low: "bit x 0 = bit y 0" using top [of x] top [of y] eq by simp
  then have "drop_bit 1 x = drop_bit 1 y"
    using eq by (auto simp: crc_bit_alt split: if_splits)
  then show "x = y" using low drop_bit_low_eq by blast
qed

lemma crc_byte_inj:
  "crc_byte x b = crc_byte y b \<longleftrightarrow> x = y" "crc_byte x b = crc_byte x c \<longleftrightarrow> b = c"
proof -
  have inj: "(crc_bit ^^ 8) u = (crc_bit ^^ 8) v \<longleftrightarrow> u = v" for u v
    using inj_fn [OF crc_bit_inj, of 8] by (auto dest: injD)
  show "crc_byte x b = crc_byte y b \<longleftrightarrow> x = y" by (simp add: crc_byte_def inj)
  have "ucast b = (ucast c :: u32) \<longleftrightarrow> b = c" by (auto elim!: ucast_up_inj)
  then show "crc_byte x b = crc_byte x c \<longleftrightarrow> b = c" by (simp add: crc_byte_def inj)
qed

lemma crc_foldl_inj: "foldl crc_byte x bs = foldl crc_byte y bs \<longleftrightarrow> x = y"
  by (induction bs arbitrary: x y) (auto simp: crc_byte_inj)

text \<open>
  \<open>crc32\<close> detects every change confined to one byte: replacing any byte of the data by
  a different one changes the checksum.
\<close>

theorem crc32_detects_byte_change:
  assumes "i < length data" "b \<noteq> data ! i"
  shows "crc32 (data[i := b]) \<noteq> crc32 data"
proof -
  have d: "data = take i data @ data ! i # drop (Suc i) data" using assms(1) by (rule id_take_nth_drop)
  have u: "data[i := b] = take i data @ b # drop (Suc i) data" using assms(1) by (rule upd_conv_take_nth_drop)
  have "foldl crc_byte 0xFFFFFFFF (data[i := b]) \<noteq> foldl crc_byte 0xFFFFFFFF data"
    by (subst (2) d, subst u) (use assms(2) in \<open>simp add: crc_foldl_inj crc_byte_inj\<close>)
  then show ?thesis by (simp add: crc32_def)
qed

theorem crc32_detects_byte_change_witness:
  "crc32 ([0x31, 0x32, 0x33][1 := 0x35]) \<noteq> crc32 [0x31, 0x32, 0x33]"
  by (rule crc32_detects_byte_change) simp_all

lemma funpow_8: "(f ^^ 8) x = f (f (f (f (f (f (f (f x)))))))"
  by (simp add: numeral_eq_Suc)

text \<open>The check value of CRC-32 (ISO 3309), that of the digits \<open>123456789\<close>.\<close>

lemma crc32_check_value: "crc32 (map of_char ''123456789'') = 0xCBF43926"
  by (simp add: crc32_def crc_byte_def crc_bit_def funpow_8 of_char_def)

end
