(* ===== verification/Stage2_Xmodem.thy ===== *)
theory Stage2_Xmodem
  imports Stage2_Machine
begin

unbundle bit_operations_syntax

section \<open>XMODEM reception (\<open>xmodem_receive\<close> of \<open>stage2_loader/main.c\<close>)\<close>

text \<open>
  The receiver, for every finite behaviour of the line; the packets of a sender; and that
  the receiver stores exactly what a sender sends, whatever noise comes before a packet.
\<close>

subsection \<open>The receiver\<close>

text \<open>
  What follows the start byte of a packet: the two block numbers are both read before they
  are tested; the payload loop stops at the first timeout.
\<close>

fun recv_payload :: "nat \<Rightarrow> u8 \<Rightarrow> mach \<Rightarrow> (bytes \<times> u8) option \<times> mach" where
  "recv_payload 0 csum m = (Some ([], csum), m)"
| "recv_payload (Suc n) csum m =
     (let (b, m) = getc m in
      case b of
        None \<Rightarrow> (None, m)
      | Some b \<Rightarrow>
          let (r, m) = recv_payload n (csum + b) m in
          (case r of None \<Rightarrow> None | Some (bs, s) \<Rightarrow> Some (b # bs, s), m))"

text \<open>\<open>None\<close>: a byte is missing; otherwise block number, its complement, payload, its sum, checksum.\<close>

definition recv_packet :: "mach \<Rightarrow> (u8 \<times> u8 \<times> bytes \<times> u8 \<times> u8) option \<times> mach" where
  "recv_packet m =
     (let (bn, m) = getc m; (bnc, m) = getc m in
      if bn = None \<or> bnc = None then (None, m)
      else let (r, m) = recv_payload 128 0 m in
        case r of
          None \<Rightarrow> (None, m)
        | Some (buf, csum) \<Rightarrow>
            let (s, m) = getc m in
            (case s of None \<Rightarrow> None | Some s \<Rightarrow> Some (the bn, the bnc, buf, csum, s), m))"

lemma getc_length: "getc m = (c, m') \<Longrightarrow> length (rx m') \<le> length (rx m)"
  by (auto simp: getc_def split: list.splits)

lemma getc_length_Some: "getc m = (Some c, m') \<Longrightarrow> length (rx m') < length (rx m)"
  by (auto simp: getc_def split: list.splits)

lemma recv_payload_length: "recv_payload n s m = (r, m') \<Longrightarrow> length (rx m') \<le> length (rx m)"
  by (induction n s m arbitrary: r m' rule: recv_payload.induct)
    (fastforce dest: getc_length split: prod.splits option.splits simp: Let_def)+

lemma recv_packet_length: "recv_packet m = (r, m') \<Longrightarrow> length (rx m') \<le> length (rx m)"
  by (fastforce dest!: getc_length recv_payload_length simp: recv_packet_def Let_def
      split: prod.splits option.splits if_splits)

lemma rx_putc [simp]: "rx (putc c m) = rx m"
  by (simp add: putc_def)

lemma rx_puts [simp]: "rx (puts s m) = rx m"
  by (simp add: puts_def)

lemma getc_None_Nil: "getc m = (None, m') \<Longrightarrow> rx m \<noteq> [] \<Longrightarrow> length (rx m') < length (rx m)"
  by (auto simp: getc_def split: list.splits)

definition waiting_msg :: string where
  "waiting_msg = crlf @ ''[stage2] waiting for sender (NAK)...'' @ crlf"

text \<open>The loop of \<open>xmodem_receive\<close>; \<open>XMODEM_RETRY_MAX\<close> is 20.\<close>

function xmodem_loop :: "u32 \<Rightarrow> u8 \<Rightarrow> u32 \<Rightarrow> int \<Rightarrow> mach \<Rightarrow> u32 \<times> mach" where
  "xmodem_loop dest blk_num tot retries m =
     (let (c, m) = getc m in
      case c of
        None \<Rightarrow>
          (let retries = retries + 1 in
          if retries > 20 then
            (0, puts (crlf @ ''[!] xmodem timeout'' @ crlf) (putc CAN (putc CAN m)))
          else xmodem_loop dest blk_num tot retries
                 (putc NAK (puts waiting_msg m)))
      | Some c \<Rightarrow>
          if c = EOT then (tot, putc ACK m)
          else if c = CAN then (0, puts (crlf @ ''[!] xmodem cancelled'' @ crlf) m)
          else if c \<noteq> SOH then xmodem_loop dest blk_num tot retries m
          else let (p, m) = recv_packet m in
            case p of
              None \<Rightarrow> xmodem_loop dest blk_num tot retries (putc NAK m)
            | Some (bn, bnc, buf, csum, recv_csum) \<Rightarrow>
                if bn \<noteq> blk_num \<or> bnc \<noteq> NOT blk_num \<or> recv_csum \<noteq> csum
                then xmodem_loop dest blk_num tot (retries + 1) (putc NAK m)
                else xmodem_loop dest (blk_num + 1) (tot + 128) 0
                       (putc ACK (m\<lparr>mem := store (dest + tot) buf (mem m)\<rparr>)))"
  by pat_completeness auto
termination
proof (relation "measures [\<lambda>(dest, blk, tot, retries, m). length (rx m),
    \<lambda>(dest, blk, tot, retries, m). nat (21 - retries)]", goal_cases)
  case (2 dest blk tot retries m p c m' r)
  then show ?case
    using getc_length [of m c m'] getc_None_Nil [of m m'] by (cases "rx m = []") (auto simp: getc_def)
next
  case (4 dest blk tot retries m p c m' a q pk m'')
  then show ?case using getc_length_Some [of m a m'] recv_packet_length [of m' pk m''] by auto
next
  case (5 dest blk tot retries m p c m' a q pk m'' r bn r' bnc r'' buf r3 csum rc)
  then show ?case using getc_length_Some [of m a m'] recv_packet_length [of m' pk m''] by auto
next
  case (6 dest blk tot retries m p c m' a q pk m'' r bn r' bnc r'' buf r3 csum rc)
  then show ?case using getc_length_Some [of m a m'] recv_packet_length [of m' pk m''] by auto
next
  case (3 dest blk tot retries m p c m' a)
  then show ?case using getc_length_Some [of m a m'] by auto
qed simp

declare xmodem_loop.simps [simp del]

definition xmodem_receive :: "u32 \<Rightarrow> mach \<Rightarrow> u32 \<times> mach" where
  "xmodem_receive dest m = xmodem_loop dest 1 0 0 (putc NAK m)"

subsection \<open>One packet\<close>

lemma getc_Cons: "rx m = c # cs \<Longrightarrow> getc m = (c, m\<lparr>rx := cs\<rparr>)"
  by (simp add: getc_def)

lemma recv_payload_full:
  "rx m = map Some bs @ cs \<Longrightarrow> recv_payload (length bs) s m = (Some (bs, s + sum_list bs), m\<lparr>rx := cs\<rparr>)"
proof (induction bs arbitrary: s m)
  case (Cons b bs)
  let ?m = "m\<lparr>rx := map Some bs @ cs\<rparr>"
  have "recv_payload (length bs) (s + b) ?m = (Some (bs, s + b + sum_list bs), ?m\<lparr>rx := cs\<rparr>)"
    by (rule Cons.IH) simp
  then show ?case using Cons.prems by (simp add: getc_Cons add.assoc)
qed simp

lemma recv_payload_cut:
  "rx m = map Some bs @ None # cs \<Longrightarrow> length bs < n \<Longrightarrow> recv_payload n s m = (None, m\<lparr>rx := cs\<rparr>)"
proof (induction bs arbitrary: n s m)
  case Nil
  then show ?case by (cases n) (simp_all add: getc_Cons)
next
  case (Cons b bs)
  then obtain k where k: "n = Suc k" "length bs < k" by (cases n) auto
  let ?m = "m\<lparr>rx := map Some bs @ None # cs\<rparr>"
  have "recv_payload k (s + b) ?m = (None, ?m\<lparr>rx := cs\<rparr>)" by (rule Cons.IH) (simp_all add: k)
  then show ?case using Cons.prems k(1) by (simp add: getc_Cons)
qed

lemma recv_packet_full:
  assumes "rx m = map Some (x # y # b @ [c]) @ cs" "length b = 128"
  shows "recv_packet m = (Some (x, y, b, sum_list b, c), m\<lparr>rx := cs\<rparr>)"
  using assms recv_payload_full [of "m\<lparr>rx := map Some b @ Some c # cs\<rparr>" b "Some c # cs" 0]
  by (simp add: recv_packet_def getc_Cons)

text \<open>A packet that breaks off after at least one byte.\<close>

lemma recv_packet_cut:
  assumes "rx m = map Some xs @ None # cs" "xs \<noteq> []" "length xs \<le> 130"
  shows "recv_packet m = (None, m\<lparr>rx := cs\<rparr>)"
proof -
  obtain x ys where xs: "xs = x # ys" using assms(2) by (cases xs) auto
  show ?thesis
  proof (cases ys)
    case Nil
    then show ?thesis using assms xs by (simp add: recv_packet_def getc_Cons)
  next
    case (Cons y zs)
    show ?thesis
    proof (cases "length zs < 128")
      case True
      then show ?thesis
        using assms xs Cons recv_payload_cut [of "m\<lparr>rx := map Some zs @ None # cs\<rparr>" zs cs 128 0]
        by (simp add: recv_packet_def getc_Cons)
    next
      case False
      then have "length zs = 128" using assms(3) xs Cons by simp
      then show ?thesis
        using assms xs Cons recv_payload_full [of "m\<lparr>rx := map Some zs @ None # cs\<rparr>" zs "None # cs" 0]
        by (simp add: recv_packet_def getc_Cons)
    qed
  qed
qed

subsection \<open>One round of the loop\<close>

definition frame :: "u8 \<Rightarrow> bytes \<Rightarrow> bytes" where
  "frame n b = [SOH, n, NOT n] @ b @ [sum_list b]"

lemma loop_good:
  assumes "rx m = map Some (frame blk b) @ cs" "length b = 128"
  shows "xmodem_loop dest blk tot r m =
     xmodem_loop dest (blk + 1) (tot + 128) 0
       (putc ACK (m\<lparr>rx := cs, mem := store (dest + tot) b (mem m)\<rparr>))"
  using assms recv_packet_full [of "m\<lparr>rx := map Some (blk # NOT blk # b @ [sum_list b]) @ cs\<rparr>" blk "NOT blk" b _ cs]
  by (subst xmodem_loop.simps) (simp add: frame_def getc_Cons)

lemma loop_bad:
  assumes "rx m = map Some (SOH # x # y # b @ [c]) @ cs" "length b = 128"
    and "x \<noteq> blk \<or> y \<noteq> NOT blk \<or> c \<noteq> sum_list b"
  shows "xmodem_loop dest blk tot r m = xmodem_loop dest blk tot (r + 1) (putc NAK (m\<lparr>rx := cs\<rparr>))"
  using assms recv_packet_full [of "m\<lparr>rx := map Some (x # y # b @ [c]) @ cs\<rparr>" x y b c cs]
  by (subst xmodem_loop.simps) (auto simp: getc_Cons)

lemma loop_cut:
  assumes "rx m = Some SOH # map Some xs @ None # cs" "xs \<noteq> []" "length xs \<le> 130"
  shows "xmodem_loop dest blk tot r m = xmodem_loop dest blk tot r (putc NAK (m\<lparr>rx := cs\<rparr>))"
  using assms recv_packet_cut [of "m\<lparr>rx := map Some xs @ None # cs\<rparr>" xs cs]
  by (subst xmodem_loop.simps) (simp add: getc_Cons)

lemma loop_junk:
  assumes "rx m = Some c # cs" "c \<notin> {SOH, EOT, CAN}"
  shows "xmodem_loop dest blk tot r m = xmodem_loop dest blk tot r (m\<lparr>rx := cs\<rparr>)"
  using assms by (subst xmodem_loop.simps) (auto simp: getc_Cons)

lemma loop_gap:
  assumes "rx m = None # cs" "r < 20"
  shows "xmodem_loop dest blk tot r m = xmodem_loop dest blk tot (r + 1)
     (putc NAK (puts waiting_msg (m\<lparr>rx := cs\<rparr>)))"
  using assms by (subst xmodem_loop.simps) (simp add: getc_Cons Let_def)

lemma loop_eot:
  assumes "rx m = Some EOT # cs"
  shows "xmodem_loop dest blk tot r m = (tot, putc ACK (m\<lparr>rx := cs\<rparr>))"
  using assms by (subst xmodem_loop.simps) (simp add: getc_Cons)

lemmas loop_rounds = loop_good loop_bad loop_cut loop_junk loop_gap loop_eot

subsection \<open>Whole transfers\<close>

text \<open>
  A line with disturbances: good packets, packets with a wrong number, complement or
  checksum, packets that break off, stray bytes, and gaps.
\<close>

datatype item = Good bytes | Bad u8 u8 bytes u8 | Cut bytes | Junk u8 | Gap

fun encode :: "u8 \<Rightarrow> item list \<Rightarrow> u8 option list" where
  "encode n [] = []"
| "encode n (Good b # is) = map Some (frame n b) @ encode (n + 1) is"
| "encode n (Bad x y b c # is) = map Some (SOH # x # y # b @ [c]) @ encode n is"
| "encode n (Cut xs # is) = Some SOH # map Some xs @ None # encode n is"
| "encode n (Junk c # is) = Some c # encode n is"
| "encode n (Gap # is) = None # encode n is"

fun payload :: "item list \<Rightarrow> bytes" where
  "payload [] = []"
| "payload (Good b # is) = b @ payload is"
| "payload (_ # is) = payload is"

text \<open>
  The disturbances stay disturbances, and fewer than 21 of those the receiver counts come
  between two good packets.
\<close>

fun items_ok :: "u8 \<Rightarrow> int \<Rightarrow> item list \<Rightarrow> bool" where
  "items_ok n r [] \<longleftrightarrow> True"
| "items_ok n r (Good b # is) \<longleftrightarrow> length b = 128 \<and> items_ok (n + 1) 0 is"
| "items_ok n r (Bad x y b c # is) \<longleftrightarrow>
     length b = 128 \<and> (x \<noteq> n \<or> y \<noteq> NOT n \<or> c \<noteq> sum_list b) \<and> items_ok n (r + 1) is"
| "items_ok n r (Cut xs # is) \<longleftrightarrow> xs \<noteq> [] \<and> length xs \<le> 130 \<and> items_ok n r is"
| "items_ok n r (Junk c # is) \<longleftrightarrow> c \<notin> {SOH, EOT, CAN} \<and> items_ok n r is"
| "items_ok n r (Gap # is) \<longleftrightarrow> r < 20 \<and> items_ok n (r + 1) is"

lemma mem_putc [simp]: "mem (putc c m) = mem m"
  by (simp add: putc_def)

lemma mem_puts [simp]: "mem (puts c m) = mem m"
  by (simp add: puts_def)

lemma xmodem_loop_items:
  assumes "items_ok n r is" "rx m = encode n is @ Some EOT # cs"
  shows "\<exists>m'. xmodem_loop dest n tot r m = (tot + of_nat (length (payload is)), m') \<and> rx m' = cs \<and>
     mem m' = store (dest + tot) (payload is) (mem m)"
  using assms
proof (induction n r "is" arbitrary: tot m rule: items_ok.induct)
  case (1 n r)
  then show ?case by (simp add: loop_eot)
next
  case (2 n r b "is")
  then show ?case
    using "2.IH" [of "putc ACK (m\<lparr>rx := encode (n + 1) is @ Some EOT # cs,
        mem := store (dest + tot) b (mem m)\<rparr>)" "tot + 128"]
    by (simp add: loop_good [of m n b "encode (n + 1) is @ Some EOT # cs"] store_append add.assoc)
next
  case (3 n r x y b c "is")
  then show ?case
    using loop_bad [of m x y b c "encode n is @ Some EOT # cs" n dest tot r]
      "3.IH" [of "putc NAK (m\<lparr>rx := encode n is @ Some EOT # cs\<rparr>)" tot] by simp
next
  case (4 n r xs "is")
  then show ?case
    using loop_cut [of m xs "encode n is @ Some EOT # cs" dest n tot r]
      "4.IH" [of "putc NAK (m\<lparr>rx := encode n is @ Some EOT # cs\<rparr>)" tot] by simp
next
  case (5 n r c "is")
  then show ?case
    using loop_junk [of m c "encode n is @ Some EOT # cs" dest n tot r]
      "5.IH" [of "m\<lparr>rx := encode n is @ Some EOT # cs\<rparr>" tot] by simp
next
  case (6 n r "is")
  then show ?case
    using loop_gap [of m "encode n is @ Some EOT # cs" r dest n tot]
      "6.IH" [of "putc NAK (puts (waiting_msg)
        (m\<lparr>rx := encode n is @ Some EOT # cs\<rparr>))" tot] by simp
qed

text \<open>
  C10: round trip of a transfer.  Whatever packets with errors, truncated packets, stray bytes
  and gaps come between the good packets (as long as the gaps do not exhaust the retries),
  \<open>xmodem_receive\<close> returns the length of what the good packets carry, has stored exactly
  that, in order, from the destination on, and has consumed the line up to the end of the
  transfer.
\<close>

theorem xmodem_receive_roundtrip:
  assumes "items_ok 1 0 is" "rx m = encode 1 is @ Some EOT # cs" "length (payload is) < 2 ^ 32"
  shows "\<exists>m'. xmodem_receive dest m = (of_nat (length (payload is)), m') \<and> rx m' = cs \<and>
     mem m' = store dest (payload is) (mem m) \<and>
     load dest (length (payload is)) (mem m') = payload is"
proof -
  obtain m' where "xmodem_loop dest 1 0 0 (putc NAK m) = (of_nat (length (payload is)), m')" "rx m' = cs"
      "mem m' = store dest (payload is) (mem m)"
    using xmodem_loop_items [OF assms(1), of "putc NAK m" cs dest 0] assms(2) by auto
  then show ?thesis using assms(3) load_store [of "payload is" dest "mem m"] by (simp add: xmodem_receive_def)
qed

definition silent :: mach where
  "silent = \<lparr>mem = (\<lambda>_. 0), rx = [], tx = [], sd_card = (\<lambda>_. 0xff), bus = [], sd_is_hc = False, baud_rate = 115200\<rparr>"

definition demo_items :: "item list" where
  "demo_items = [Gap, Junk 0x41, Good (replicate 128 7), Bad 2 0xfd (replicate 128 1) 0, Cut [2, 0xfd, 9],
     Good (replicate 128 8)]"

theorem xmodem_receive_roundtrip_witness:
  "\<exists>m'. xmodem_receive 0x40000000 (silent\<lparr>rx := encode 1 demo_items @ Some EOT # []\<rparr>) =
       (of_nat (length (payload demo_items)), m') \<and> rx m' = [] \<and>
     mem m' = store 0x40000000 (payload demo_items) (mem (silent\<lparr>rx := encode 1 demo_items @ Some EOT # []\<rparr>)) \<and>
     load 0x40000000 (length (payload demo_items)) (mem m') = payload demo_items"
  by (rule xmodem_receive_roundtrip) (simp_all add: demo_items_def sum_list_replicate)

lemma getc_mem: "getc m = (c, m') \<Longrightarrow> mem m' = mem m"
  by (auto simp: getc_def split: list.splits)

lemma recv_payload_mem:
  "recv_payload n s m = (r, m') \<Longrightarrow> mem m' = mem m \<and> (\<forall>bs t. r = Some (bs, t) \<longrightarrow> length bs = n)"
proof (induction n arbitrary: s m r m')
  case (Suc n)
  obtain c m1 where c: "getc m = (c, m1)" by (cases "getc m")
  show ?case
  proof (cases c)
    case None
    then show ?thesis using Suc.prems c getc_mem [OF c] by auto
  next
    case (Some b)
    obtain r1 m2 where 2: "recv_payload n (s + b) m1 = (r1, m2)" by (cases "recv_payload n (s + b) m1")
    show ?thesis
      using Suc.prems c Some 2 Suc.IH [OF 2] getc_mem [OF c] by (cases r1) auto
  qed
qed auto

lemma recv_packet_mem:
  assumes "recv_packet m = (p, m')"
  shows "mem m' = mem m \<and> (\<forall>x y b s c. p = Some (x, y, b, s, c) \<longrightarrow> length b = 128)"
proof -
  obtain bn m1 where 1: "getc m = (bn, m1)" by (cases "getc m")
  obtain bnc m2 where 2: "getc m1 = (bnc, m2)" by (cases "getc m1")
  obtain r m3 where 3: "recv_payload 128 0 m2 = (r, m3)" by (cases "recv_payload 128 0 m2")
  obtain s m4 where 4: "getc m3 = (s, m4)" by (cases "getc m3")
  show ?thesis
    using assms 1 2 3 4 recv_payload_mem [OF 3] getc_mem [OF 1] getc_mem [OF 2] getc_mem [OF 4]
    by (auto simp: recv_packet_def split: if_splits option.splits)
qed

text \<open>Memory after some blocks have been stored, with the value returned.\<close>

definition stored :: "u32 \<Rightarrow> u32 \<Rightarrow> mach \<Rightarrow> u32 \<times> mach \<Rightarrow> bool" where
  "stored dest tot m res \<longleftrightarrow> (\<exists>bs. list_all (\<lambda>b. length b = 128) bs \<and>
     mem (snd res) = store (dest + tot) (concat bs) (mem m) \<and>
     fst res \<in> {0, tot + of_nat (length (concat bs))})"

lemma stored_Nil: "mem m' = mem m \<Longrightarrow> t \<in> {0, tot} \<Longrightarrow> stored dest tot m (t, m')"
  unfolding stored_def by (rule exI [of _ "[]"]) auto

lemma stored_Cons:
  assumes "stored dest (tot + 128) m1 res" "length b = 128" "mem m1 = store (dest + tot) b (mem m)"
  shows "stored dest tot m res"
proof -
  obtain bs where "list_all (\<lambda>b. length b = 128) bs"
      "mem (snd res) = store (dest + (tot + 128)) (concat bs) (mem m1)"
      "fst res \<in> {0, tot + 128 + of_nat (length (concat bs))}"
    using assms(1) by (auto simp: stored_def)
  then show ?thesis
    using assms(2,3) unfolding stored_def
    by (intro exI [of _ "b # bs"]) (auto simp: store_append add.assoc)
qed

lemma stored_cong: "mem m1 = mem m \<Longrightarrow> stored dest tot m1 res = stored dest tot m res"
  by (simp add: stored_def)

text \<open>One round: the loop ends, goes on with the same memory, or goes on with one more block.\<close>

definition smaller :: "int \<times> mach \<Rightarrow> int \<times> mach \<Rightarrow> bool" where
  "smaller x y \<longleftrightarrow> (x, y) \<in> measures [\<lambda>(r, m). length (rx m), \<lambda>(r, m). nat (21 - r)]"

definition goes_on :: "u32 \<Rightarrow> u8 \<Rightarrow> u32 \<Rightarrow> int \<Rightarrow> mach \<Rightarrow> bool" where
  "goes_on dest n tot r m \<longleftrightarrow>
   (\<exists>r' m'. xmodem_loop dest n tot r m = xmodem_loop dest n tot r' m' \<and> mem m' = mem m \<and>
      smaller (r', m') (r, m)) \<or>
   (\<exists>r' m' b. xmodem_loop dest n tot r m = xmodem_loop dest (n + 1) (tot + 128) r' m' \<and>
      length b = 128 \<and> mem m' = store (dest + tot) b (mem m) \<and> smaller (r', m') (r, m))"

lemma goes_on_same:
  "xmodem_loop dest n tot r m = xmodem_loop dest n tot r' m' \<Longrightarrow> mem m' = mem m \<Longrightarrow>
     smaller (r', m') (r, m) \<Longrightarrow> goes_on dest n tot r m"
  unfolding goes_on_def by blast

lemma loop_soh:
  assumes c: "getc m = (Some SOH, m1)"
  shows "goes_on dest n tot r m"
proof -
  obtain p m2 where p: "recv_packet m1 = (p, m2)" by (cases "recv_packet m1")
  have len: "length (rx m2) < length (rx m)"
    using getc_length_Some [OF c] recv_packet_length [OF p] by simp
  have m2: "mem m2 = mem m" "\<And>x y b s c. p = Some (x, y, b, s, c) \<Longrightarrow> length b = 128"
    using recv_packet_mem [OF p] getc_mem [OF c] by auto
  note step = xmodem_loop.simps [of dest n tot r m]
  show ?thesis
  proof (cases p)
    case None
    then have "xmodem_loop dest n tot r m = xmodem_loop dest n tot r (putc NAK m2)"
      using c p step by simp
    then show ?thesis by (rule goes_on_same) (use m2 len in \<open>simp_all add: smaller_def\<close>)
  next
    case (Some q)
    obtain x y buf s cs where q: "q = (x, y, buf, s, cs)" by (cases q)
    show ?thesis
    proof (cases "x \<noteq> n \<or> y \<noteq> NOT n \<or> cs \<noteq> s")
      case True
      then have "xmodem_loop dest n tot r m = xmodem_loop dest n tot (r + 1) (putc NAK m2)"
        using c p Some q step by auto
      then show ?thesis by (rule goes_on_same) (use m2 len in \<open>simp_all add: smaller_def\<close>)
    next
      case False
      let ?m = "putc ACK (m2\<lparr>mem := store (dest + tot) buf (mem m2)\<rparr>)"
      have "xmodem_loop dest n tot r m = xmodem_loop dest (n + 1) (tot + 128) 0 ?m"
        using False c p Some q step by simp
      moreover have "smaller (0, ?m) (r, m)" using len by (simp add: smaller_def)
      moreover have "length buf = 128" "mem ?m = store (dest + tot) buf (mem m)" using m2 Some q by auto
      ultimately show ?thesis unfolding goes_on_def by blast
    qed
  qed
qed

lemma xmodem_loop_round:
  "(\<exists>t m'. xmodem_loop dest n tot r m = (t, m') \<and> t \<in> {0, tot} \<and> mem m' = mem m) \<or> goes_on dest n tot r m"
  (is "?fin \<or> _")
proof -
  obtain c m1 where c: "getc m = (c, m1)" by (cases "getc m")
  have m1: "mem m1 = mem m" using getc_mem [OF c] .
  note step = xmodem_loop.simps [of dest n tot r m]
  consider "c = None" "r + 1 > 20" | "c = None" "r + 1 \<le> 20" | "c = Some EOT \<or> c = Some CAN" | "c = Some SOH"
    | b where "c = Some b" "b \<notin> {EOT, CAN, SOH}" by (cases c; cases "r + 1 > 20") auto
  then show ?thesis
  proof cases
    case 1
    then have ?fin using c m1 step by simp
    then show ?thesis ..
  next
    case 2
    then have "xmodem_loop dest n tot r m = xmodem_loop dest n tot (r + 1) (putc NAK (puts waiting_msg m1))"
      using c step by simp
    moreover have "smaller (r + 1, putc NAK (puts waiting_msg m1)) (r, m)"
      using 2 c getc_None_Nil [of m m1] by (cases "rx m = []") (auto simp: smaller_def getc_def)
    ultimately show ?thesis using goes_on_same m1 by simp
  next
    case 3
    then have ?fin using c m1 step by auto
    then show ?thesis ..
  next
    case 4
    then show ?thesis using loop_soh c by simp
  next
    case (5 b)
    then have "xmodem_loop dest n tot r m = xmodem_loop dest n tot r m1" using c step by simp
    moreover have "smaller (r, m1) (r, m)" using getc_length_Some [of m b m1] c 5 by (simp add: smaller_def)
    ultimately show ?thesis using goes_on_same m1 by simp
  qed
qed

lemma xmodem_loop_stored: "stored dest tot m (xmodem_loop dest n tot r m)"
proof -
  let ?R = "measures [\<lambda>(r :: int, m). length (rx m), \<lambda>(r, m). nat (21 - r)]"
  have "wf ?R" by (rule wf_measures)
  then have "stored dest tot (snd x) (xmodem_loop dest n tot (fst x) (snd x))" for x
  proof (induction x arbitrary: n tot rule: wf_induct_rule)
    case (less x)
    let ?r = "fst x" let ?m = "snd x"
    have IH: "stored dest t m' (xmodem_loop dest k t r' m')" if "smaller (r', m') (?r, ?m)" for r' m' k t
      using less [of "(r', m')"] that by (simp add: smaller_def)
    from xmodem_loop_round [of dest n tot ?r ?m] show ?case unfolding goes_on_def
    proof (elim disjE exE conjE)
      fix t m' assume "xmodem_loop dest n tot ?r ?m = (t, m')" "t \<in> {0, tot}" "mem m' = mem ?m"
      then show ?thesis using stored_Nil [of m' ?m t tot dest] by simp
    next
      fix r' m' assume "xmodem_loop dest n tot ?r ?m = xmodem_loop dest n tot r' m'" "mem m' = mem ?m"
        "smaller (r', m') (?r, ?m)"
      then show ?thesis using IH [of r' m' tot n] stored_cong [of m' ?m dest tot] by simp
    next
      fix r' m' b assume "xmodem_loop dest n tot ?r ?m = xmodem_loop dest (n + 1) (tot + 128) r' m'"
        "length b = 128" "mem m' = store (dest + tot) b (mem ?m)" "smaller (r', m') (?r, ?m)"
      then show ?thesis using IH [of r' m' "tot + 128" "n + 1"] stored_Cons [of dest tot m' _ b ?m] by simp
    qed
  qed
  from this [of "(r, m)"] show ?thesis by simp
qed

text \<open>
  C36: what the receiver writes, whatever arrives.  On every input \<open>xmodem_receive\<close> changes
  memory only by storing a sequence of 128 byte blocks one after the other from the
  destination on, and returns either 0 or the number of bytes stored (modulo \<open>2 ^ 32\<close>).
\<close>

theorem xmodem_receive_contiguous:
  "\<exists>bs. list_all (\<lambda>b. length b = 128) bs \<and>
     mem (snd (xmodem_receive dest m)) = store dest (concat bs) (mem m) \<and>
     fst (xmodem_receive dest m) \<in> {0, of_nat (length (concat bs))}"
  using xmodem_loop_stored [of dest 0 "putc NAK m" 1 0] by (simp add: stored_def xmodem_receive_def)

text \<open>
  A lost acknowledgement is not recovered.  Once block \<open>n - 1\<close> is stored, every repetition
  of it by a sender that missed the \<open>ACK\<close> is answered with \<open>NAK\<close>, however often it comes;
  nothing is stored, nothing acknowledged, and the transfer does not advance.
\<close>

theorem xmodem_duplicate_refused:
  assumes "rx m = map Some (concat (replicate k (frame (n - 1) b))) @ cs" "length b = 128"
  shows "xmodem_loop dest n tot r m =
     xmodem_loop dest n tot (r + int k) (m\<lparr>rx := cs, tx := tx m @ replicate k NAK\<rparr>)"
  using assms
proof (induction k arbitrary: r m)
  case (Suc k)
  let ?cs = "map Some (concat (replicate k (frame (n - 1) b))) @ cs"
  let ?m = "putc NAK (m\<lparr>rx := ?cs\<rparr>)"
  have "xmodem_loop dest n tot r m = xmodem_loop dest n tot (r + 1) ?m"
    by (rule loop_bad [where x = "n - 1" and y = "NOT (n - 1)" and c = "sum_list b" and b = b])
      (use Suc.prems in \<open>simp_all add: frame_def\<close>)
  also have "\<dots> = xmodem_loop dest n tot (r + 1 + int k) (?m\<lparr>rx := cs, tx := tx ?m @ replicate k NAK\<rparr>)"
    using Suc.IH [of ?m "r + 1"] Suc.prems(2) by simp
  also have "?m\<lparr>rx := cs, tx := tx ?m @ replicate k NAK\<rparr> = m\<lparr>rx := cs, tx := tx m @ replicate (Suc k) NAK\<rparr>"
    by (simp add: putc_def)
  finally show ?case by (simp add: add.assoc)
qed (use mach.surjective in \<open>auto simp: mach.equality\<close>)

definition demo_dup :: mach where
  "demo_dup = silent\<lparr>rx := map Some (concat (replicate 2 (frame (2 - 1) (replicate 128 9)))) @ []\<rparr>"

theorem xmodem_duplicate_refused_witness:
  "xmodem_loop 0x40000000 2 128 0 demo_dup =
   xmodem_loop 0x40000000 2 128 (0 + int 2) (demo_dup\<lparr>rx := [], tx := tx demo_dup @ replicate 2 NAK\<rparr>)"
proof (rule xmodem_duplicate_refused)
  show "rx demo_dup = map Some (concat (replicate 2 (frame (2 - 1) (replicate 128 9)))) @ []"
    by (simp add: demo_dup_def)
qed simp

end
