(* ===== verification/Stage2_Sd.thy ===== *)
theory Stage2_Sd
  imports Stage2_Machine
begin

unbundle bit_operations_syntax

section \<open>The SD card driver (\<open>stage2_loader/sd.c\<close>)\<close>

text \<open>
  The driver over the SPI bus: every byte exchanged and every change of the chip select is
  an event of the record \<open>bus\<close>; the card answers it from the events before.  Negative results of the source are integers.
\<close>

subsection \<open>The bus\<close>

definition spi_setup :: "u32 \<Rightarrow> u32 \<Rightarrow> mach \<Rightarrow> mach" where
  "spi_setup prsc cdiv m =
     m\<lparr>bus := bus m @ [Setup (1 OR push_bit 3 (prsc AND 7) OR push_bit 6 (cdiv AND 0xf))]\<rparr>"

definition spi_xchg :: "u8 \<Rightarrow> mach \<Rightarrow> u8 \<times> mach" where
  "spi_xchg t m = (sd_card m (bus m), m\<lparr>bus := bus m @ [Xchg t]\<rparr>)"

definition spi_cs_assert :: "mach \<Rightarrow> mach" where
  "spi_cs_assert m = m\<lparr>bus := bus m @ [Cs_assert]\<rparr>"

definition spi_cs_release :: "mach \<Rightarrow> mach" where
  "spi_cs_release m = m\<lparr>bus := bus m @ [Cs_release]\<rparr>"

text \<open>Bytes exchanged one after the other.\<close>

fun xchg_list :: "bytes \<Rightarrow> mach \<Rightarrow> bytes \<times> mach" where
  "xchg_list [] m = ([], m)"
| "xchg_list (t # ts) m =
     (let (b, m) = spi_xchg t m; (bs, m) = xchg_list ts m in (b # bs, m))"

text \<open>\<open>for (i < n) { r = spi_xchg(0xFF); if (stop) break; }\<close>\<close>

fun poll :: "nat \<Rightarrow> (u8 \<Rightarrow> bool) \<Rightarrow> u8 \<Rightarrow> mach \<Rightarrow> u8 \<times> mach" where
  "poll 0 stop r m = (r, m)"
| "poll (Suc n) stop r m =
     (let (r, m) = spi_xchg 0xff m in if stop r then (r, m) else poll n stop r m)"

subsection \<open>Commands and blocks\<close>

definition sd_cmd :: "u8 \<Rightarrow> u32 \<Rightarrow> u8 \<Rightarrow> mach \<Rightarrow> u8 \<times> mach" where
  "sd_cmd cmd arg crc m =
     (let (_, m) = xchg_list [0xff, 0x40 OR cmd, byte_of arg 3, byte_of arg 2, byte_of arg 1,
                              byte_of arg 0, crc] m
      in poll 16 (\<lambda>r. r AND 0x80 = 0) 0xff m)"

text \<open>The loop over ACMD41: an error return, or the last response.\<close>

fun acmd41_loop :: "nat \<Rightarrow> u32 \<Rightarrow> u8 \<Rightarrow> mach \<Rightarrow> (int + u8) \<times> mach" where
  "acmd41_loop 0 arg r1 m = (Inr r1, m)"
| "acmd41_loop (Suc n) arg r1 m =
     (let m = spi_cs_assert m;
          (_, m) = sd_cmd 55 0 0x65 m;
          (r1, m) = sd_cmd 41 arg 0x77 m;
          (_, m) = spi_xchg 0xff m;
          m = spi_cs_release m
      in if r1 = 0 then (Inr r1, m)
         else if r1 AND 0xfe \<noteq> 0 then (Inl (-2), m)
         else acmd41_loop n arg r1 m)"

definition sd_init :: "mach \<Rightarrow> int \<times> mach" where
  "sd_init m =
     (let m = m\<lparr>sd_is_hc := False\<rparr>;
          m = spi_setup 5 0 m;
          m = spi_cs_release m;
          (_, m) = xchg_list (replicate 16 0xff) m;
          m = spi_cs_assert m;
          (r1, m) = sd_cmd 0 0 0x95 m;
          (_, m) = spi_xchg 0xff m;
          m = spi_cs_release m
      in if r1 \<noteq> 0x01 then (-1, m)
         else
           let m = spi_cs_assert m;
               (r1, m) = sd_cmd 8 0x1aa 0x87 m;
               (r7, m) = xchg_list (replicate 4 0xff) m;
               (_, m) = spi_xchg 0xff m;
               m = spi_cs_release m;
               v2_card = (r1 = 0x01 \<and> r7 ! 2 = 0x01 \<and> r7 ! 3 = 0xaa);
               (res, m) = acmd41_loop 2000 (if v2_card then 0x40000000 else 0) r1 m
           in case res of
                Inl e \<Rightarrow> (e, m)
              | Inr r1 \<Rightarrow>
                  if r1 \<noteq> 0 then (-3, m)
                  else
                    let m = (if v2_card then
                          let m = spi_cs_assert m;
                              (r1, m) = sd_cmd 58 0 0xfd m;
                              (ocr, m) = xchg_list (replicate 4 0xff) m;
                              (_, m) = spi_xchg 0xff m;
                              m = spi_cs_release m
                          in if r1 = 0 \<and> ocr ! 0 AND 0x40 \<noteq> 0 then m\<lparr>sd_is_hc := True\<rparr> else m
                        else m);
                        (ok, m) = (if \<not> sd_is_hc m then
                          let m = spi_cs_assert m;
                              (r1, m) = sd_cmd 16 512 0x15 m;
                              (_, m) = spi_xchg 0xff m;
                              m = spi_cs_release m
                          in (r1 = 0, m)
                        else (True, m))
                    in if \<not> ok then (-4, m) else (0, spi_setup 0 0 m))"

definition sd_addr :: "mach \<Rightarrow> u32 \<Rightarrow> u32" where
  "sd_addr m lba = (if sd_is_hc m then lba else lba * 512)"

text \<open>\<open>sd_read_block\<close> returns the block it would store at \<open>dst\<close>.\<close>

definition sd_read_block :: "u32 \<Rightarrow> mach \<Rightarrow> (int + bytes) \<times> mach" where
  "sd_read_block lba m =
     (let addr = sd_addr m lba;
          m = spi_cs_assert m;
          (r1, m) = sd_cmd 17 addr 0xff m
      in if r1 \<noteq> 0 then (Inl (-1), spi_cs_release m)
         else let (tok, m) = poll 65536 (\<lambda>r. r = 0xfe) 0xff m in
           if tok \<noteq> 0xfe then (Inl (-2), spi_cs_release m)
           else let (data, m) = xchg_list (replicate 512 0xff) m;
                    (_, m) = xchg_list [0xff, 0xff, 0xff] m
                in (Inr data, spi_cs_release m))"

definition sd_write_block :: "u32 \<Rightarrow> bytes \<Rightarrow> mach \<Rightarrow> int \<times> mach" where
  "sd_write_block lba src m =
     (let addr = sd_addr m lba;
          m = spi_cs_assert m;
          (r1, m) = sd_cmd 24 addr 0xff m
      in if r1 \<noteq> 0 then (-1, spi_cs_release m)
         else
           let (_, m) = xchg_list ([0xff, 0xfe] @ take 512 src @ [0xff, 0xff]) m;
               (resp, m) = spi_xchg 0xff m
           in if resp AND 0x1f \<noteq> 0x05 then (-2, spi_cs_release m)
              else let (busy, m) = poll 65536 (\<lambda>r. r \<noteq> 0) 0 m in
                if busy = 0 then (-3, spi_cs_release m)
                else let m = spi_cs_release m; (_, m) = spi_xchg 0xff m in (0, m))"

text \<open>\<open>sd_read_many\<close>: the blocks that were read are in memory also when a later one fails.\<close>

fun sd_read_many_loop :: "nat \<Rightarrow> u32 \<Rightarrow> u32 \<Rightarrow> mach \<Rightarrow> int \<times> mach" where
  "sd_read_many_loop 0 lba dst m = (0, m)"
| "sd_read_many_loop (Suc n) lba dst m =
     (let (r, m) = sd_read_block lba m in
      case r of
        Inl e \<Rightarrow> (e, m)
      | Inr data \<Rightarrow> sd_read_many_loop n (lba + 1) (dst + 512) (m\<lparr>mem := store dst data (mem m)\<rparr>))"

definition sd_read_many :: "u32 \<Rightarrow> u32 \<Rightarrow> u32 \<Rightarrow> mach \<Rightarrow> int \<times> mach" where
  "sd_read_many lba n_blocks dst m = sd_read_many_loop (unat n_blocks) lba dst m"

subsection \<open>The commands of the host\<close>

definition hex_byte :: "u8 \<Rightarrow> string" where
  "hex_byte b = [hex_digit (drop_bit 4 b), hex_digit b]"

definition sd_smoke :: "mach \<Rightarrow> mach" where
  "sd_smoke m =
     (let m = puts (''[sd] init...'' @ crlf) m;
          (rc, m) = sd_init m
      in if rc \<noteq> 0 then puts (''[sd] init FAIL rc='' @ hex32 (word_of_int rc) @ crlf) m
         else
           let m = puts (''[sd] init OK, SDHC='' @ (if sd_is_hc m then ''1'' else ''0'') @ crlf) m;
               (r, m) = sd_read_block 0 m
           in case r of
                Inl rc \<Rightarrow> puts (''[sd] read LBA0 FAIL rc='' @ hex32 (word_of_int rc) @ crlf) m
              | Inr buf \<Rightarrow>
                  let magic = le_u32 buf;
                      m = puts (''[sd] LBA0 first 32 bytes:'' @ crlf @ ''  '' @
                             concat (map (\<lambda>b. hex_byte b @ '' '') (take 32 buf))) m;
                      m = puts (crlf @ ''[sd] magic='' @ hex32 magic) m
                  in if magic = 0x54505531 then puts ('' (1UPT/MLP) OK'' @ crlf) m
                     else if magic = 0x434e4e31 then puts ('' (1NNC/CNN) OK'' @ crlf) m
                     else if magic = 0xaa550000 \<or> buf ! 510 = 0x55 then puts ('' (MBR)'' @ crlf) m
                     else puts ('' (unknown)'' @ crlf) m)"

fun dump_blocks :: "nat \<Rightarrow> u32 \<Rightarrow> mach \<Rightarrow> mach" where
  "dump_blocks 0 lba m = puts (lf @ ''DUMP_END'' @ lf) m"
| "dump_blocks (Suc n) lba m =
     (let (r, m) = sd_read_block lba m in
      case r of
        Inl e \<Rightarrow> puts (lf @ ''DUMP_ERR'' @ lf) m
      | Inr buf \<Rightarrow> dump_blocks n (lba + 1) (raw_bytes buf m))"

definition sd_dump :: "mach \<Rightarrow> mach res" where
  "sd_dump m =
     bindE (recv_u32 m) (\<lambda>(start, m).
     bindE (recv_u32 m) (\<lambda>(count, m).
       if count = 0 \<or> count > 4096 then Inr (puts (''DUMP_BAD'' @ lf) m)
       else let (rc, m) = sd_init m in
         if rc \<noteq> 0 then Inr (puts (''[sd] dump: init FAIL'' @ crlf) m)
         else Inr (dump_blocks (unat count) start (puts (''DUMP_READY'' @ lf) m))))"

text \<open>The position of the first difference, if any.\<close>

fun first_diff :: "nat \<Rightarrow> bytes \<Rightarrow> bytes \<Rightarrow> nat option" where
  "first_diff i (x # xs) (y # ys) = (if x \<noteq> y then Some i else first_diff (i + 1) xs ys)"
| "first_diff i _ _ = None"

definition sd_write_test :: "mach \<Rightarrow> mach res" where
  "sd_write_test m =
     (let (rc, m) = sd_init m in
      if rc \<noteq> 0 then Inr (puts (''[sd] wr: init FAIL'' @ crlf) m)
      else bindE (raw_recv_n 512 (puts (''SEND_512'' @ lf) m)) (\<lambda>(write_rx, m).
        let (rc, m) = sd_write_block 2048 write_rx m in
        if rc \<noteq> 0 then Inr (puts (''WRITE_FAIL rc='' @ hex32 (word_of_int rc) @ lf) m)
        else let (r, m) = sd_read_block 2048 m in
          case r of
            Inl rc \<Rightarrow> Inr (puts (''READBACK_FAIL rc='' @ hex32 (word_of_int rc) @ lf) m)
          | Inr write_vf \<Rightarrow> (case first_diff 0 write_rx write_vf of
                Some i \<Rightarrow> Inr (puts (''COMPARE_FAIL @'' @ hex32 (of_nat i) @ lf) m)
              | None \<Rightarrow> Inr (puts (''WRITE_OK'' @ lf) m))))"

text \<open>The sectors of one segment; \<open>False\<close> if a write failed.\<close>

fun mw_sectors :: "nat \<Rightarrow> u32 \<Rightarrow> mach \<Rightarrow> (bool \<times> mach) res" where
  "mw_sectors 0 lba m = Inr (True, m)"
| "mw_sectors (Suc n) lba m =
     bindE (raw_recv_n 512 m) (\<lambda>(write_rx, m).
       let (rc, m) = sd_write_block lba write_rx m in
       if rc \<noteq> 0 then
         Inr (False, puts (lf @ ''MW_FAIL lba='' @ hex32 lba @ '' rc='' @ hex32 (word_of_int rc) @ lf)
                       (raw_byte 0x58 m))
       else mw_sectors n (lba + 1) (raw_byte 0x4b m))"

fun mw_segments :: "nat \<Rightarrow> u32 \<Rightarrow> mach \<Rightarrow> mach res" where
  "mw_segments 0 s m = Inr (puts (lf @ ''MW_DONE'' @ lf) m)"
| "mw_segments (Suc n) s m =
     bindE (recv_u32 m) (\<lambda>(start_lba, m).
     bindE (recv_u32 m) (\<lambda>(sec_count, m).
       if sec_count = 0 \<or> sec_count > 8192 then
         Inr (puts (lf @ ''MW_FAIL bad_count seg='' @ hex32 s @ lf) m)
       else bindE (mw_sectors (unat sec_count) start_lba m) (\<lambda>(ok, m).
         if \<not> ok then Inr m else mw_segments n (s + 1) m)))"

definition sd_write_multi :: "mach \<Rightarrow> mach res" where
  "sd_write_multi m =
     (let (rc, m) = sd_init m in
      if rc \<noteq> 0 then Inr (puts (''[sd] mw: init FAIL'' @ crlf) m)
      else bindE (recv_u32 (puts (''MW_READY'' @ lf) m)) (\<lambda>(seg_count, m).
        if seg_count = 0 \<or> seg_count > 16 then Inr (puts (''MW_FAIL bad_segs'' @ lf) m)
        else mw_segments (unat seg_count) 0 (puts (''MW_GO'' @ lf) m)))"

definition sd_read_header :: "mach \<Rightarrow> mach" where
  "sd_read_header m =
     (let (rc, m) = sd_init m in
      if rc \<noteq> 0 then puts (''[sd] rd: init FAIL'' @ crlf) m
      else let (r, m) = sd_read_block 0 m in
        case r of
          Inl e \<Rightarrow> puts (''RD_FAIL'' @ lf) m
        | Inr buf \<Rightarrow> puts (lf @ ''RD_DONE'' @ lf) (raw_bytes buf (puts (''RD_READY'' @ lf) m)))"

subsection \<open>What goes over the bus\<close>

text \<open>What the card answers while the bytes of a list are exchanged one after the other.\<close>

fun replies :: "(spi_event list \<Rightarrow> u8) \<Rightarrow> spi_event list \<Rightarrow> bytes \<Rightarrow> bytes" where
  "replies c h [] = []"
| "replies c h (t # ts) = c h # replies c (h @ [Xchg t]) ts"

lemma length_replies [simp]: "length (replies c h ts) = length ts"
  by (induction ts arbitrary: h) auto

lemma replies_append: "replies c h (xs @ ys) = replies c h xs @ replies c (h @ map Xchg xs) ys"
  by (induction xs arbitrary: h) auto

lemma replies_appendD:
  assumes "replies c h (xs @ ys) = us @ vs" "length us = length xs"
  shows "replies c h xs = us" "replies c (h @ map Xchg xs) ys = vs"
  using assms by (simp_all add: replies_append append_eq_append_conv)

lemma xchg_list_replies: "xchg_list ts m = (replies (sd_card m) (bus m) ts, m\<lparr>bus := bus m @ map Xchg ts\<rparr>)"
  by (induction ts arbitrary: m) (simp_all add: spi_xchg_def)

lemma poll_replies:
  assumes "replies (sd_card m) (bus m) (replicate (Suc (length ws)) 0xff) = ws @ [r]"
    and "length ws < n" "list_all (\<lambda>w. \<not> stop w) ws" "stop r"
  shows "poll n stop r0 m = (r, m\<lparr>bus := bus m @ map Xchg (replicate (Suc (length ws)) 0xff)\<rparr>)"
  using assms
proof (induction ws arbitrary: n r0 m)
  case Nil
  then obtain k where "n = Suc k" by (cases n) auto
  then show ?case using Nil by (simp add: spi_xchg_def)
next
  case (Cons w ws)
  then obtain k where "n = Suc k" by (cases n) auto
  then show ?case
    using Cons.prems Cons.IH [of "m\<lparr>bus := bus m @ [Xchg 0xff]\<rparr>" k w] by (simp add: spi_xchg_def)
qed

definition cmd_frame :: "u8 \<Rightarrow> u32 \<Rightarrow> u8 \<Rightarrow> bytes" where
  "cmd_frame cmd arg crc =
     [0xff, 0x40 OR cmd, byte_of arg 3, byte_of arg 2, byte_of arg 1, byte_of arg 0, crc]"

text \<open>What a card answers to a command: anything during the frame, a delay, the response.\<close>

definition cmd_reply :: "bytes \<Rightarrow> bytes \<Rightarrow> u8 \<Rightarrow> bool" where
  "cmd_reply p ws r \<longleftrightarrow> length p = 7 \<and> length ws < 16 \<and> list_all (\<lambda>w. w AND 0x80 \<noteq> 0) ws \<and> r AND 0x80 = 0"

lemma sd_cmd_replies:
  assumes "replies (sd_card m) (bus m) (cmd_frame cmd arg crc @ replicate (Suc (length ws)) 0xff) = p @ ws @ [r]"
    and "cmd_reply p ws r"
  shows "sd_cmd cmd arg crc m =
     (r, m\<lparr>bus := bus m @ map Xchg (cmd_frame cmd arg crc @ replicate (Suc (length ws)) 0xff)\<rparr>)"
proof -
  let ?m = "m\<lparr>bus := bus m @ map Xchg (cmd_frame cmd arg crc)\<rparr>"
  have "length p = length (cmd_frame cmd arg crc)" using assms(2) by (simp add: cmd_reply_def cmd_frame_def)
  from replies_appendD [OF assms(1) this]
  have "poll 16 (\<lambda>r. r AND 0x80 = 0) 0xff ?m =
      (r, ?m\<lparr>bus := bus ?m @ map Xchg (replicate (Suc (length ws)) 0xff)\<rparr>)"
    using assms(2) by (intro poll_replies) (simp_all add: cmd_reply_def)
  moreover have "xchg_list (cmd_frame cmd arg crc) m = (replies (sd_card m) (bus m) (cmd_frame cmd arg crc), ?m)"
    by (rule xchg_list_replies)
  ultimately show ?thesis by (simp add: sd_cmd_def cmd_frame_def)
qed

text \<open>
  The whole answer to a block read: the command, a delay of at most 65535 bytes, the start
  token, the data, checksum and a gap.
\<close>

record read_reply =
  rr_cmd :: bytes
  rr_wait :: bytes
  rr_token_wait :: bytes
  rr_data :: bytes
  rr_tail :: bytes

definition read_reply_ok :: "read_reply \<Rightarrow> bool" where
  "read_reply_ok q \<longleftrightarrow> cmd_reply (rr_cmd q) (rr_wait q) 0 \<and> length (rr_token_wait q) < 65536 \<and>
     0xfe \<notin> set (rr_token_wait q) \<and> length (rr_data q) = 512 \<and> length (rr_tail q) = 3"

definition reply_bytes :: "read_reply \<Rightarrow> bytes" where
  "reply_bytes q = rr_cmd q @ rr_wait q @ 0 # rr_token_wait q @ 0xfe # rr_data q @ rr_tail q"

text \<open>What the driver sends meanwhile, and the events of the whole read.\<close>

definition read_sent :: "u32 \<Rightarrow> read_reply \<Rightarrow> bytes" where
  "read_sent addr q = cmd_frame 17 addr 0xff @ replicate (length (rr_wait q) + length (rr_token_wait q) + 517) 0xff"

definition read_events :: "u32 \<Rightarrow> read_reply \<Rightarrow> spi_event list" where
  "read_events addr q = [Cs_assert] @ map Xchg (read_sent addr q) @ [Cs_release]"

lemma read_sent_parts:
  "read_sent addr q = (cmd_frame 17 addr 0xff @ replicate (Suc (length (rr_wait q))) 0xff) @
     replicate (Suc (length (rr_token_wait q))) 0xff @ replicate 512 0xff @ [0xff, 0xff, 0xff]"
proof -
  have n: "length (rr_wait q) + length (rr_token_wait q) + 517 =
      Suc (length (rr_wait q)) + (Suc (length (rr_token_wait q)) + (512 + 3))" by simp
  have "replicate 3 x = [x, x, x]" for x :: u8 by (simp add: numeral_eq_Suc)
  then show ?thesis unfolding read_sent_def n by (simp only: replicate_add append_assoc)
qed

lemma sd_read_block_exact:
  assumes "replies (sd_card m) (bus m @ [Cs_assert]) (read_sent (sd_addr m lba) q) = reply_bytes q" "read_reply_ok q"
  shows "sd_read_block lba m = (Inr (rr_data q), m\<lparr>bus := bus m @ read_events (sd_addr m lba) q\<rparr>)"
proof -
  let ?ff = "\<lambda>n. replicate n 0xff :: bytes"
  let ?fr = "cmd_frame 17 (sd_addr m lba) 0xff @ ?ff (Suc (length (rr_wait q)))"
  let ?c = "sd_card m"
  note ok = assms(2) [unfolded read_reply_ok_def]
  let ?m1 = "spi_cs_assert m"
  have bus1: "bus ?m1 = bus m @ [Cs_assert]" "sd_card ?m1 = ?c" by (simp_all add: spi_cs_assert_def)
  have r0: "replies ?c (bus ?m1) (?fr @ ?ff (Suc (length (rr_token_wait q))) @ ?ff 512 @ [0xff, 0xff, 0xff]) =
      (rr_cmd q @ rr_wait q @ [0]) @ (rr_token_wait q @ [0xfe]) @ rr_data q @ rr_tail q"
    using assms(1) unfolding bus1 read_sent_parts reply_bytes_def by simp
  have l1: "length (rr_cmd q @ rr_wait q @ [0]) = length ?fr" using ok by (simp add: cmd_reply_def cmd_frame_def)
  note r1 = replies_appendD [OF r0 l1]
  define m2 where "m2 = ?m1\<lparr>bus := bus ?m1 @ map Xchg ?fr\<rparr>"
  have 1: "sd_cmd 17 (sd_addr m lba) 0xff ?m1 = (0, m2)"
    unfolding m2_def by (rule sd_cmd_replies [where p = "rr_cmd q"]) (use r1(1) ok bus1 in simp_all)
  have l2: "length (rr_token_wait q @ [0xfe]) = length (?ff (Suc (length (rr_token_wait q))))" by simp
  note r2 = replies_appendD [OF r1(2) l2]
  define m3 where "m3 = m2\<lparr>bus := bus m2 @ map Xchg (?ff (Suc (length (rr_token_wait q))))\<rparr>"
  have 2: "poll 65536 (\<lambda>r. r = 0xfe) 0xff m2 = (0xfe, m3)"
    unfolding m3_def by (rule poll_replies) (use r2(1) ok bus1 in \<open>auto simp: m2_def list_all_iff\<close>)
  have l3: "length (rr_data q) = length (?ff 512)" using ok by simp
  note r3 = replies_appendD [OF r2(2) l3]
  have b3: "sd_card m3 = ?c" "bus m3 = (bus ?m1 @ map Xchg ?fr) @ map Xchg (?ff (Suc (length (rr_token_wait q))))"
    by (simp_all add: m3_def m2_def bus1)
  have 3: "xchg_list (?ff 512) m3 = (rr_data q, m3\<lparr>bus := bus m3 @ map Xchg (?ff 512)\<rparr>)"
    unfolding xchg_list_replies b3 r3(1) by (rule refl)
  have ev: "map Xchg (read_sent (sd_addr m lba) q) =
      map Xchg ?fr @ map Xchg (?ff (Suc (length (rr_token_wait q)))) @ map Xchg (?ff 512) @ [Xchg 0xff, Xchg 0xff, Xchg 0xff]"
    unfolding read_sent_parts by simp
  have 4: "snd (xchg_list [0xff, 0xff, 0xff] x) = x\<lparr>bus := bus x @ [Xchg 0xff, Xchg 0xff, Xchg 0xff]\<rparr>" for x
    by (simp add: xchg_list_replies del: xchg_list.simps)
  show ?thesis
    unfolding sd_read_block_def Let_def read_events_def ev using 1 2 3 4
    by (simp add: case_prod_unfold m3_def m2_def spi_cs_assert_def spi_cs_release_def del: xchg_list.simps)
qed

subsection \<open>Properties\<close>

definition idle_sd :: mach where
  "idle_sd = \<lparr>mem = (\<lambda>_. 0), rx = [], tx = [], sd_card = (\<lambda>_. 0xff), bus = [], sd_is_hc = True, baud_rate = 115200\<rparr>"

definition demo_reply :: "u8 \<Rightarrow> read_reply" where
  "demo_reply v = \<lparr>rr_cmd = replicate 7 0xff, rr_wait = [0xff], rr_token_wait = [0xff, 0xff],
     rr_data = replicate 512 v, rr_tail = [0, 0, 0xff]\<rparr>"

lemma demo_reply_ok: "read_reply_ok (demo_reply v)"
  by (simp add: read_reply_ok_def demo_reply_def cmd_reply_def)

text \<open>A card that sends the bytes of a list, whatever it receives, and 0xff after them.\<close>

definition exchanged :: "spi_event list \<Rightarrow> nat" where
  "exchanged h = length (filter (\<lambda>e. case e of Xchg _ \<Rightarrow> True | _ \<Rightarrow> False) h)"

definition scripted :: "bytes \<Rightarrow> spi_event list \<Rightarrow> u8" where
  "scripted bs h = (if exchanged h < length bs then bs ! exchanged h else 0xff)"

lemma exchanged_simps [simp]:
  "exchanged [] = 0" "exchanged (h @ [Xchg t]) = Suc (exchanged h)" "exchanged (h @ [Cs_assert]) = exchanged h" "exchanged [Cs_assert] = 0"
  by (simp_all add: exchanged_def)

lemma replies_scripted:
  "exchanged h + length ts \<le> length bs \<Longrightarrow> replies (scripted bs) h ts = take (length ts) (drop (exchanged h) bs)"
  by (induction ts arbitrary: h) (auto simp: scripted_def Cons_nth_drop_Suc [symmetric])

lemma replies_scripted_exact: "length ts = length bs \<Longrightarrow> replies (scripted (bs @ cs)) [Cs_assert] ts = bs"
  by (simp add: replies_scripted)

text \<open>
  C37: reading a block.  For every card that answers the command with a zero response within
  16 bytes and sends the start token within 65536, \<open>sd_read_block\<close> returns the 512 bytes
  after the token; on the bus it has asserted the chip select, sent
  the frame of CMD17 with the block address (the byte address for a standard capacity
  card), read exactly up to the end of the answer, and released the chip select.
\<close>

theorem sd_read_block_spec:
  assumes "replies (sd_card m) (bus m @ [Cs_assert]) (read_sent (if sd_is_hc m then lba else lba * 512) q) = reply_bytes q"
    and "read_reply_ok q"
  shows "sd_read_block lba m =
     (Inr (rr_data q), m\<lparr>bus := bus m @ read_events (if sd_is_hc m then lba else lba * 512) q\<rparr>)"
  using sd_read_block_exact [of m lba q] assms by (simp add: sd_addr_def)

theorem sd_read_block_spec_witness:
  "sd_read_block 7 (idle_sd\<lparr>sd_card := scripted (reply_bytes (demo_reply 9) @ [1])\<rparr>) =
     (Inr (rr_data (demo_reply 9)), idle_sd\<lparr>sd_card := scripted (reply_bytes (demo_reply 9) @ [1]),
        bus := bus (idle_sd\<lparr>sd_card := scripted (reply_bytes (demo_reply 9) @ [1])\<rparr>) @
          read_events (if sd_is_hc (idle_sd\<lparr>sd_card := scripted (reply_bytes (demo_reply 9) @ [1])\<rparr>) then 7 else 7 * 512)
            (demo_reply 9)\<rparr>)"
proof (rule sd_read_block_spec)
  have "length (read_sent 7 (demo_reply 9)) = length (reply_bytes (demo_reply 9))"
    by (simp add: read_sent_def reply_bytes_def demo_reply_def cmd_frame_def)
  from replies_scripted_exact [OF this, of "[1]"]
  show "replies (sd_card (idle_sd\<lparr>sd_card := scripted (reply_bytes (demo_reply 9) @ [1])\<rparr>))
      (bus (idle_sd\<lparr>sd_card := scripted (reply_bytes (demo_reply 9) @ [1])\<rparr>) @ [Cs_assert])
      (read_sent (if sd_is_hc (idle_sd\<lparr>sd_card := scripted (reply_bytes (demo_reply 9) @ [1])\<rparr>) then 7 else 7 * 512) (demo_reply 9)) =
      reply_bytes (demo_reply 9)" by (simp add: idle_sd_def)
qed (simp add: demo_reply_ok)

lemma poll_none:
  assumes "replies (sd_card m) (bus m) (replicate n 0xff) = ts" "0xfe \<notin> set ts" "r0 \<noteq> 0xfe"
  shows "\<exists>r m'. poll n (\<lambda>r. r = 0xfe) r0 m = (r, m') \<and> r \<noteq> 0xfe \<and> mem m' = mem m \<and> bus m' = bus m @ map Xchg (replicate n 0xff)"
  using assms
proof (induction n arbitrary: ts r0 m)
  case (Suc n)
  then show ?case using Suc.IH [of "m\<lparr>bus := bus m @ [Xchg 0xff]\<rparr>" "tl ts" "hd ts"] by (auto simp: spi_xchg_def)
qed auto

text \<open>
  No block read succeeds without a start token.  If the 65536 bytes after the response
  hold no start token, \<open>sd_read_block\<close> gives up with -2 and the chip select released, having
  exchanged exactly these bytes.
\<close>

theorem sd_read_block_no_token:
  assumes "replies (sd_card m) (bus m @ [Cs_assert])
       ((cmd_frame 17 (sd_addr m lba) 0xff @ replicate (Suc (length ws)) 0xff) @ replicate 65536 0xff) = (p @ ws @ [0]) @ ts"
    and "cmd_reply p ws 0" "0xfe \<notin> set ts"
  shows "\<exists>m'. sd_read_block lba m = (Inl (-2), m') \<and> mem m' = mem m \<and>
     bus m' = bus m @ [Cs_assert] @ map Xchg ((cmd_frame 17 (sd_addr m lba) 0xff @ replicate (Suc (length ws)) 0xff) @
       replicate 65536 0xff) @ [Cs_release]"
proof -
  let ?m1 = "spi_cs_assert m" let ?fr = "cmd_frame 17 (sd_addr m lba) 0xff @ replicate (Suc (length ws)) 0xff"
  let ?m2 = "?m1\<lparr>bus := bus ?m1 @ map Xchg ?fr\<rparr>"
  have b: "bus ?m1 = bus m @ [Cs_assert]" "sd_card ?m1 = sd_card m" "mem ?m1 = mem m" by (simp_all add: spi_cs_assert_def)
  have l: "length (p @ ws @ [0]) = length ?fr" using assms(2) by (simp add: cmd_reply_def cmd_frame_def)
  note r = replies_appendD [OF assms(1) l]
  have 1: "sd_cmd 17 (sd_addr m lba) 0xff ?m1 = (0, ?m2)"
    by (rule sd_cmd_replies [where p = p]) (use r(1) b assms(2) in simp_all)
  have "replies (sd_card ?m2) (bus ?m2) (replicate 65536 0xff) = ts" using r(2) b by simp
  from poll_none [OF this assms(3), of "0xff"]
  obtain x m' where "poll 65536 (\<lambda>r. r = 0xfe) 0xff ?m2 = (x, m')" "x \<noteq> 0xfe" "mem m' = mem m"
      "bus m' = bus ?m2 @ map Xchg (replicate 65536 0xff)" using b by auto
  then show ?thesis
    unfolding sd_read_block_def Let_def 1 by (simp add: b spi_cs_release_def)
qed

theorem sd_read_block_no_token_witness:
  "\<exists>m'. sd_read_block 7 (idle_sd\<lparr>sd_card := scripted ((replicate 7 0xff @ [0xff] @ [0]) @ replicate 65536 0xff)\<rparr>) = (Inl (-2), m') \<and>
     mem m' = mem (idle_sd\<lparr>sd_card := scripted ((replicate 7 0xff @ [0xff] @ [0]) @ replicate 65536 0xff)\<rparr>) \<and>
     last (bus m') = Cs_release"
proof -
  let ?m = "idle_sd\<lparr>sd_card := scripted ((replicate 7 0xff @ [0xff] @ [0]) @ replicate 65536 0xff)\<rparr>"
  let ?t = "(cmd_frame 17 (sd_addr ?m 7) 0xff @ replicate (Suc (length [0xff :: u8])) 0xff) @ replicate 65536 0xff"
  have "length ?t = length (((replicate 7 0xff @ [0xff] @ [0]) @ replicate 65536 0xff) :: bytes)"
    by (simp add: cmd_frame_def)
  from replies_scripted_exact [OF this, of "[]"]
  have "replies (sd_card ?m) (bus ?m @ [Cs_assert]) ?t = (replicate 7 0xff @ [0xff] @ [0]) @ replicate 65536 0xff"
    by (simp add: idle_sd_def)
  from sd_read_block_no_token [OF this] show ?thesis by (auto simp: cmd_reply_def)
qed

text \<open>
  Writing a block.  Where the card accepts the command and the data and then ends its busy
  state within 65536 bytes, \<open>sd_write_block\<close> returns 0, and what it has put on the bus between
  chip select and its release is the frame of CMD24 with the address, the start token, the
  512 bytes unchanged and two checksum bytes, with only 0xff around them.
\<close>

theorem sd_write_block_sends:
  assumes "replies (sd_card m) (bus m @ [Cs_assert]) ((cmd_frame 24 (sd_addr m lba) 0xff @ replicate (Suc (length ws)) 0xff) @
       ([0xff, 0xfe] @ src @ [0xff, 0xff]) @ [0xff] @ replicate (Suc (length zs)) 0xff) =
     (p @ ws @ [0]) @ g @ [resp] @ zs @ [z]"
    and "cmd_reply p ws 0" "length g = 516"
    and "resp AND 0x1f = 5" "list_all (\<lambda>b. b = 0) zs" "length zs < 65536" "z \<noteq> 0" "length src = 512"
  shows "sd_write_block lba src m = (0, m\<lparr>bus := bus m @ [Cs_assert] @ map Xchg (
     cmd_frame 24 (sd_addr m lba) 0xff @ replicate (Suc (length ws)) 0xff @ ([0xff, 0xfe] @ src @ [0xff, 0xff]) @
     [0xff] @ replicate (Suc (length zs)) 0xff) @ [Cs_release, Xchg 0xff]\<rparr>)"
proof -
  let ?m1 = "spi_cs_assert m" let ?fr = "cmd_frame 24 (sd_addr m lba) 0xff @ replicate (Suc (length ws)) 0xff"
  let ?d = "[0xff, 0xfe] @ src @ [0xff, 0xff]"
  have b: "bus ?m1 = bus m @ [Cs_assert]" "sd_card ?m1 = sd_card m" by (simp_all add: spi_cs_assert_def)
  have l1: "length (p @ ws @ [0]) = length ?fr" using assms(2) by (simp add: cmd_reply_def cmd_frame_def)
  note r1 = replies_appendD [OF assms(1) l1]
  define m2 where "m2 = ?m1\<lparr>bus := bus ?m1 @ map Xchg ?fr\<rparr>"
  have 1: "sd_cmd 24 (sd_addr m lba) 0xff ?m1 = (0, m2)"
    unfolding m2_def by (rule sd_cmd_replies [where p = p]) (use r1(1) b assms(2) in simp_all)
  have l2: "length g = length ?d" using assms(3,8) by simp
  note r2 = replies_appendD [OF r1(2) l2]
  define m3 where "m3 = m2\<lparr>bus := bus m2 @ map Xchg ?d\<rparr>"
  have 2: "xchg_list ?d m2 = (g, m3)"
    unfolding xchg_list_replies m3_def by (use r2(1) b in \<open>simp add: m2_def\<close>)
  have l3: "length [resp] = length [0xff :: u8]" by simp
  note r3 = replies_appendD [OF r2(2) l3]
  define m4 where "m4 = m3\<lparr>bus := bus m3 @ [Xchg 0xff]\<rparr>"
  have 3: "spi_xchg 0xff m3 = (resp, m4)" using r3(1) b by (simp add: m4_def m3_def m2_def spi_xchg_def)
  define m5 where "m5 = m4\<lparr>bus := bus m4 @ map Xchg (replicate (Suc (length zs)) 0xff)\<rparr>"
  have 4: "poll 65536 (\<lambda>r. r \<noteq> 0) 0 m4 = (z, m5)"
    unfolding m5_def by (rule poll_replies) (use r3(2) assms(5-7) b in \<open>simp_all add: m4_def m3_def m2_def\<close>)
  have "sd_write_block lba src m = (0, snd (spi_xchg 0xff (spi_cs_release m5)))"
    using 1 2 3 4 assms(4,7,8) unfolding sd_write_block_def Let_def by (simp add: spi_xchg_def)
  then show ?thesis by (simp add: m5_def m4_def m3_def m2_def spi_cs_assert_def spi_cs_release_def spi_xchg_def)
qed

definition demo_write :: mach where
  "demo_write = idle_sd\<lparr>sd_card := scripted ((replicate 7 0xff @ [] @ [0]) @ replicate 516 0xff @ [0xe5] @ [0, 0] @ [0xff])\<rparr>"

theorem sd_write_block_sends_witness:
  "sd_write_block 2048 (replicate 512 0xa5) demo_write = (0, demo_write\<lparr>bus := bus demo_write @ [Cs_assert] @
     map Xchg (cmd_frame 24 (sd_addr demo_write 2048) 0xff @ replicate (Suc (length ([] :: bytes))) 0xff @
       ([0xff, 0xfe] @ replicate 512 0xa5 @ [0xff, 0xff]) @ [0xff] @ replicate (Suc (length [0, 0 :: u8])) 0xff) @
     [Cs_release, Xchg 0xff]\<rparr>)"
proof (rule sd_write_block_sends)
  let ?t = "(cmd_frame 24 (sd_addr demo_write 2048) 0xff @ replicate (Suc (length ([] :: bytes))) 0xff) @
    ([0xff, 0xfe] @ replicate 512 0xa5 @ [0xff, 0xff]) @ [0xff] @ replicate (Suc (length [0, 0 :: u8])) 0xff"
  let ?r = "(replicate 7 0xff @ [] @ [0]) @ replicate 516 0xff @ [0xe5] @ [0, 0] @ [0xff] :: bytes"
  have "length ?t = length ?r" by (simp add: cmd_frame_def)
  from replies_scripted_exact [OF this, of "[]"]
  show "replies (sd_card demo_write) (bus demo_write @ [Cs_assert]) ?t = ?r"
    by (simp add: demo_write_def idle_sd_def)
qed (simp_all add: cmd_reply_def)

end
