(* ===== verification/Stage2_Boot.thy ===== *)
theory Stage2_Boot
  imports Stage2_Xmodem Stage2_Sd
begin

unbundle bit_operations_syntax

section \<open>Boot modes of the stage 2 loader (\<open>stage2_loader/main.c\<close>)\<close>

text \<open>
  The device tree patch, the boot modes and the dispatcher.  A mode ends by returning to the
  dispatcher, in an endless loop (\<open>Halted\<close>) or by a jump with the argument registers.
\<close>

datatype outcome =
    Returned
  | Halted
  | Jumped u32 "(u32 \<times> u32) option"

subsection \<open>Start-up\<close>

fun write_words :: "nat \<Rightarrow> u32 \<Rightarrow> (u32 \<Rightarrow> u8) \<Rightarrow> u32 \<Rightarrow> u8" where
  "write_words 0 i f = f"
| "write_words (Suc n) i f = write_words n (i + 1) (store_word (0x41F00000 + 4 * i) (0xDEAD0000 OR i) f)"

text \<open>The comparison stops at the fifth error.\<close>

fun check_words :: "nat \<Rightarrow> u32 \<Rightarrow> nat \<Rightarrow> mach \<Rightarrow> nat \<times> mach" where
  "check_words 0 i errors m = (errors, m)"
| "check_words (Suc n) i errors m =
     (let got = load_word (0x41F00000 + 4 * i) (mem m); ex = 0xDEAD0000 OR i in
      if got \<noteq> ex then
        let m = puts (''  FAIL['' @ hex32 i @ '']: exp='' @ hex32 ex @ '' got='' @ hex32 got @ crlf) m in
        if errors + 1 > 4 then (errors + 1, m) else check_words n (i + 1) (errors + 1) m
      else check_words n (i + 1) errors m)"

definition sdram_test :: "mach \<Rightarrow> bool \<times> mach" where
  "sdram_test m =
     (let m = puts (''[stage2] SDRAM word-write test...'' @ crlf) m;
          m = m\<lparr>mem := write_words 64 0 (mem m)\<rparr>;
          (errors, m) = check_words 64 0 0 m
      in if errors = 0 then (True, puts (''[stage2] SDRAM test PASS'' @ crlf) m) else (False, m))"

fun dump_words_loop :: "nat \<Rightarrow> nat \<Rightarrow> u32 \<Rightarrow> mach \<Rightarrow> mach" where
  "dump_words_loop 0 i adr m = puts crlf m"
| "dump_words_loop (Suc n) i adr m =
     (let m = (if i mod 4 = 0 then puts (crlf @ ''  '' @ hex32 (adr + of_nat (i * 4)) @ '': '') m else m);
          m = puts (hex32 (load_word (adr + of_nat (i * 4)) (mem m)) @ '' '') m
      in dump_words_loop n (i + 1) adr m)"

definition dump_words :: "u32 \<Rightarrow> nat \<Rightarrow> mach \<Rightarrow> mach" where
  "dump_words adr n m = dump_words_loop n 0 adr m"

text \<open>
  The trap handler of the loader: it reports the three control and status registers and stays
  in an endless loop.
\<close>

definition diag_trap_handler_c :: "u32 \<Rightarrow> u32 \<Rightarrow> u32 \<Rightarrow> mach \<Rightarrow> outcome \<times> mach" where
  "diag_trap_handler_c mcause mepc mtval m =
     (Halted, puts (crlf @ ''!TRAP mcause='' @ hex32 mcause @ '' mepc='' @ hex32 mepc @ '' mtval='' @
        hex32 mtval @ crlf) m)"

subsection \<open>U-Boot\<close>

definition crc_line :: "string \<Rightarrow> u32 \<Rightarrow> u32 \<Rightarrow> string" where
  "crc_line pre sz crc = pre @ hex32 sz @ '' CRC:'' @ hex32 crc @ crlf"

definition mode_uboot :: "mach \<Rightarrow> outcome \<times> mach" where
  "mode_uboot m =
     (let m = puts (''[stage2] Mode: U-Boot loader'' @ crlf) m;
          m = puts (''[stage2] send U-Boot via xmodem at 115200 baud'' @ crlf) m;
          (sz, m) = xmodem_receive UBOOT_LOAD_ADDR m
      in if sz = 0 then (Halted, puts (''[stage2] xmodem FAILED'' @ crlf) m)
         else
           let crc = crc32 (load UBOOT_LOAD_ADDR (unat sz) (mem m));
               m = puts (crc_line ''[stage2] size='' sz crc) m;
               (resp, m) = getc m;
               (ok, m) =
                 (if resp = Some NAK then
                    let m = puts (''[stage2] CRC MISMATCH '' @ em_dash @ '' retrying xmodem...'' @ crlf) m;
                        (sz, m) = xmodem_receive UBOOT_LOAD_ADDR m
                    in if sz = 0 then (False, puts (''[stage2] xmodem retry FAILED'' @ crlf) m)
                       else
                         let crc = crc32 (load UBOOT_LOAD_ADDR (unat sz) (mem m));
                             m = puts (crc_line ''[stage2] retry size='' sz crc) m;
                             (resp, m) = getc m
                         in if resp \<noteq> Some ACK
                            then (False, puts (''[stage2] CRC still bad '' @ em_dash @ '' halting'' @ crlf) m)
                            else (True, m)
                  else if resp \<noteq> Some ACK
                  then (True, puts (''[stage2] no CRC response, proceeding anyway'' @ crlf) m)
                  else (True, m))
           in if \<not> ok then (Halted, m)
              else let m = dump_words UBOOT_LOAD_ADDR 16 m;
                       m = puts (''[stage2] jumping to SDRAM 0x40000000...'' @ crlf) m
                   in (Jumped UBOOT_LOAD_ADDR None, m))"

definition xmodem_receive_verified :: "u32 \<Rightarrow> string \<Rightarrow> mach \<Rightarrow> u32 \<times> mach" where
  "xmodem_receive_verified dest name m =
     (let m = puts (''[stage2] send '' @ name @ '' via xmodem'' @ crlf) m;
          (sz, m) = xmodem_receive dest m
      in if sz = 0 then (0, puts (''[!] '' @ name @ '' xmodem FAILED'' @ crlf) m)
         else
           let crc = crc32 (load dest (unat sz) (mem m));
               m = puts (''[stage2] '' @ name @ crc_line '' size='' sz crc) m;
               (resp, m) = getc m
           in if resp = Some NAK
              then (0, puts (''[!] CRC mismatch for '' @ name @ '' '' @ em_dash @ '' halting'' @ crlf) m)
              else (sz, m))"

subsection \<open>Baud rate\<close>

definition mode_set_baud :: "mach \<Rightarrow> mach res" where
  "mode_set_baud m =
     bindE (recv_u32 m) (\<lambda>(baud, m).
       if baud < 9600 \<or> baud > 2000000 then Inr (puts (''BAUD_BAD'' @ lf) m)
       else
         let m = puts (''BAUD_SWITCH'' @ lf) m; m = m\<lparr>baud_rate := unat baud\<rparr> in
         bindE (raw_recv m) (\<lambda>(_, m). Inr (puts (''BAUD_OK'' @ lf) m)))"

subsection \<open>The device tree\<close>

definition sentinel_at :: "u32 \<Rightarrow> (u32 \<Rightarrow> u8) \<Rightarrow> bool" where
  "sentinel_at p f \<longleftrightarrow> f p = 0xC0 \<and> f (p + 1) = 0xDE \<and> f (p + 2) = 0xDE \<and> f (p + 3) = 0xAD"

text \<open>
  The loop for \<open>i + 4 <= dtb_len\<close> in 32-bit arithmetic.  The sum wraps for the last four values of \<open>i\<close>; a length of 0xFFFFFFFF
  is never exceeded, and the loop does not end (\<open>None\<close>).
\<close>

partial_function (option) patch_loop ::
    "u32 \<Rightarrow> u32 \<Rightarrow> u32 \<Rightarrow> u32 \<Rightarrow> int \<Rightarrow> (u32 \<Rightarrow> u8) \<Rightarrow> (int \<times> (u32 \<Rightarrow> u8)) option" where
  "patch_loop i dtb dtb_len real_end patched f =
     (if i + 4 \<le> dtb_len then
        if sentinel_at (dtb + i) f then
          patch_loop (i + 1) dtb dtb_len real_end (patched + 1)
            (store (dtb + i) [byte_of real_end 3, byte_of real_end 2, byte_of real_end 1, byte_of real_end 0] f)
        else patch_loop (i + 1) dtb dtb_len real_end patched f
      else Some (patched, f))"

definition patch_dtb_initrd_end :: "u32 \<Rightarrow> u32 \<Rightarrow> u32 \<Rightarrow> mach \<Rightarrow> (int \<times> mach) res" where
  "patch_dtb_initrd_end dtb dtb_len initrd_size m =
     (let real_end = INITRD_LOAD_ADDR + initrd_size in
      case patch_loop 0 dtb dtb_len real_end 0 (mem m) of
        None \<Rightarrow> Inl Diverges
      | Some (patched, f) \<Rightarrow> Inr (patched, puts (''[dtb] initrd-end='' @ hex32 real_end @ '' patched='' @
             hex32 (word_of_int patched) @ crlf) (m\<lparr>mem := f\<rparr>)))"

subsection \<open>Booting Linux\<close>

text \<open>\<open>jump_to_kernel\<close>: hart id in \<open>a0\<close>, device tree in \<open>a1\<close>.\<close>

definition jump_to_kernel :: outcome where
  "jump_to_kernel = Jumped KERNEL_LOAD_ADDR (Some (0, DTB_LOAD_ADDR))"

definition sd_magic :: bytes where
  "sd_magic = [0x4e, 0x45, 0x4f, 0x4c, 0x4e, 0x58, 0, 0]"

definition hdr_field :: "bytes \<Rightarrow> nat \<Rightarrow> u32" where
  "hdr_field hdr off = le_u32 (take 4 (drop off hdr))"

definition blocks_of :: "u32 \<Rightarrow> u32" where
  "blocks_of sz = (sz + 511) div 512"

definition mode_sd_boot :: "mach \<Rightarrow> (outcome \<times> mach) res" where
  "mode_sd_boot m =
     (let m = puts (''[stage2] Mode: SD blob boot'' @ crlf) m;
          (rc, m) = sd_init m
      in if rc \<noteq> 0 then Inr (Halted, puts (''[sd] init FAIL'' @ crlf) m)
         else let (r, m) = sd_read_block 0 m in
         case r of
           Inl e \<Rightarrow> Inr (Halted, puts (''[sd] read hdr FAIL'' @ crlf) m)
         | Inr hdr \<Rightarrow>
             if take 8 hdr \<noteq> sd_magic then Inr (Halted, puts (''[sd] bad magic'' @ crlf) m)
             else
               let image_sz = hdr_field hdr 8; dtb_sz = hdr_field hdr 12; initrd_sz = hdr_field hdr 16;
                   image_lba = hdr_field hdr 20; dtb_lba = hdr_field hdr 24; initrd_lba = hdr_field hdr 28;
                   m = puts (''[sd] image_sz='' @ hex32 image_sz @ '' dtb_sz='' @ hex32 dtb_sz @
                          '' initrd_sz='' @ hex32 initrd_sz @ crlf) m;
                   img_blks = blocks_of image_sz; dtb_blks = blocks_of dtb_sz; ird_blks = blocks_of initrd_sz;
                   m = puts (''[sd] reading Image'' @ crlf) m;
                   (rc, m) = sd_read_many image_lba img_blks KERNEL_LOAD_ADDR m
               in if rc \<noteq> 0 then Inr (Halted, puts (''[sd] img read FAIL'' @ crlf) m)
                  else
                    let (rc, m) = sd_read_many dtb_lba dtb_blks DTB_LOAD_ADDR
                                    (puts (''[sd] reading DTB'' @ crlf) m)
                    in if rc \<noteq> 0 then Inr (Halted, puts (''[sd] dtb read FAIL'' @ crlf) m)
                       else
                         let (rc, m) = sd_read_many initrd_lba ird_blks INITRD_LOAD_ADDR
                                         (puts (''[sd] reading initrd'' @ crlf) m)
                         in if rc \<noteq> 0 then Inr (Halted, puts (''[sd] initrd read FAIL'' @ crlf) m)
                            else
                              bindE (patch_dtb_initrd_end DTB_LOAD_ADDR (dtb_blks * 512) initrd_sz m) (\<lambda>(patched, m).
                                 if patched \<noteq> 1
                                 then Inr (Halted, puts (''[!] DTB sentinel not found '' @ em_dash @ '' halting'' @ crlf) m)
                                 else
                                   let m = puts (''[stage2] Kernel header:'' @ crlf) m;
                                       m = dump_words KERNEL_LOAD_ADDR 4 m;
                                       m = puts (''[stage2] Booting Linux from SD...'' @ crlf) m
                                   in Inr (jump_to_kernel, m)))"

text \<open>
  The execution test of \<open>mode_linux\<close>: the program of four instructions is written behind the
  kernel; calling it stores \<open>'K'\<close> to the data register of the UART and returns.
\<close>

definition exec_test_addr :: "u32 \<Rightarrow> u32" where
  "exec_test_addr kernel_size = (KERNEL_LOAD_ADDR + kernel_size + 3) AND NOT 3"

definition exec_test_code :: "u32 \<Rightarrow> (u32 \<Rightarrow> u8) \<Rightarrow> u32 \<Rightarrow> u8" where
  "exec_test_code a f =
     store_word (a + 12) 0x00008067 (store_word (a + 8) 0x00732223
       (store_word (a + 4) 0x04B00393 (store_word a 0xFFF50337 f)))"

definition exec_test :: "u32 \<Rightarrow> mach \<Rightarrow> mach" where
  "exec_test kernel_size m =
     (let a = exec_test_addr kernel_size;
          m = puts (''[stage2] SDRAM exec test @'' @ hex32 a @ crlf) m;
          m = m\<lparr>mem := exec_test_code a (mem m)\<rparr>;
          m = putc 0x4b m
      in puts ('' '' @ [CHR 0xE2, CHR 0x86, CHR 0x90] @ '' SDRAM exec OK'' @ crlf) m)"

definition mode_linux :: "mach \<Rightarrow> (outcome \<times> mach) res" where
  "mode_linux m =
     (let m = puts (''[stage2] Mode: Linux direct boot'' @ crlf) m;
          m = puts (''[stage2] Memory layout:'' @ crlf) m;
          m = puts (''  Kernel:    '' @ hex32 KERNEL_LOAD_ADDR @ crlf) m;
          m = puts (''  DTB:       '' @ hex32 DTB_LOAD_ADDR @ crlf) m;
          m = puts (''  Initramfs: '' @ hex32 INITRD_LOAD_ADDR @ crlf) m;
          (kernel_size, m) = xmodem_receive_verified KERNEL_LOAD_ADDR ''kernel'' m
      in if kernel_size = 0 then Inr (Halted, m)
         else let (dtb_size, m) = xmodem_receive_verified DTB_LOAD_ADDR ''DTB'' m in
         if dtb_size = 0 then Inr (Halted, m)
         else let (initrd_size, m) = xmodem_receive_verified INITRD_LOAD_ADDR ''initramfs'' m in
         if initrd_size = 0 then Inr (Halted, m)
         else bindE (patch_dtb_initrd_end DTB_LOAD_ADDR dtb_size initrd_size m) (\<lambda>(patched, m).
         if patched \<noteq> 1
         then Inr (Halted, puts (''[!] DTB sentinel not found '' @ em_dash @ '' halting'' @ crlf) m)
         else
           let m = puts (crlf @ ''[stage2] All payloads loaded:'' @ crlf) m;
               m = puts (''  Kernel:  '' @ hex32 kernel_size @ '' bytes'' @ crlf) m;
               m = puts (''  DTB:     '' @ hex32 dtb_size @ '' bytes'' @ crlf) m;
               m = puts (''  Initrd:  '' @ hex32 initrd_size @ '' bytes'' @ crlf) m;
               m = puts (crlf @ ''[stage2] Kernel header:'' @ crlf) m;
               m = dump_words KERNEL_LOAD_ADDR 8 m;
               m = puts (''[stage2] DTB header:'' @ crlf) m;
               m = dump_words DTB_LOAD_ADDR 4 m;
               m = puts (''[stage2] Booting Linux...'' @ crlf) m;
               m = puts (''  a0 = 0 (hartid)'' @ crlf) m;
               m = puts (''  a1 = '' @ hex32 DTB_LOAD_ADDR @ '' (DTB)'' @ crlf) m;
               m = puts (''  PC = '' @ hex32 KERNEL_LOAD_ADDR @ '' (kernel)'' @ crlf) m;
               m = exec_test kernel_size m
           in Inr (jump_to_kernel, m)))"

subsection \<open>The dispatcher\<close>

definition chr :: "char \<Rightarrow> u8" where
  "chr c = of_char c"

text \<open>One command; without a byte from the host (\<open>None\<close>) U-Boot is loaded.\<close>

definition dispatch :: "u8 option \<Rightarrow> mach \<Rightarrow> (outcome \<times> mach) res" where
  "dispatch mode m =
     (if mode = Some (chr CHR ''l'') then mode_linux m
      else if mode = Some (chr CHR ''b'') then mode_sd_boot m
      else if mode = Some (chr CHR ''d'') then bindE (sd_dump m) (\<lambda>m. Inr (Returned, m))
      else if mode = Some (chr CHR ''s'') then Inr (Returned, sd_smoke m)
      else if mode = Some (chr CHR ''w'') then bindE (sd_write_test m) (\<lambda>m. Inr (Returned, m))
      else if mode = Some (chr CHR ''W'') then bindE (sd_write_multi m) (\<lambda>m. Inr (Returned, m))
      else if mode = Some (chr CHR ''R'') then Inr (Returned, sd_read_header m)
      else if mode = Some (chr CHR ''B'') then bindE (mode_set_baud m) (\<lambda>m. Inr (Returned, m))
      else Inr (mode_uboot m))"

text \<open>
  The loop of \<open>main\<close>, \<open>None\<close> if it waits for the host forever; and \<open>main\<close>, with \<open>clk\<close> the clock
  frequency that the system information memory reports.
\<close>

partial_function (option) main_loop :: "u8 option \<Rightarrow> mach \<Rightarrow> (outcome \<times> mach) option" where
  "main_loop mode m = (case dispatch mode m of
     Inl e \<Rightarrow> None
   | Inr (res, m) \<Rightarrow>
       if res \<noteq> Returned then Some (res, m)
       else (case raw_recv (puts (''[stage2] ready for next cmd'' @ crlf) m) of
               Inl e \<Rightarrow> None
             | Inr (b, m) \<Rightarrow> main_loop (Some b) m))"

definition prompt :: string where
  "prompt = ''[stage2] l=xmodem s=smoke d=dump w=wtest W=wmulti R=rdhdr B=baud b=bootSD else=U-Boot'' @ crlf"

definition stage2_main :: "u32 \<Rightarrow> mach \<Rightarrow> (outcome \<times> mach) option" where
  "stage2_main clk m =
     (let m = m\<lparr>baud_rate := 115200\<rparr>;
          m = puts (crlf @ ''[stage2] ready - RV32IMAC NEORV32 loader'' @ crlf) m;
          m = puts (''[stage2] CLK='' @ hex32 clk @ crlf) m;
          (ok, m) = sdram_test m
      in if \<not> ok then Some (Halted, puts (''[stage2] SDRAM FAIL - halting'' @ crlf) m)
         else let (mode, m) = getc (puts prompt m) in main_loop mode m)"

subsection \<open>Memory areas\<close>

lemma word_add_of_nat_eq:
  fixes a b :: u32
  assumes "a + of_nat i = b + of_nat j" "unat a + i < 2 ^ 32" "unat b + j < 2 ^ 32"
  shows "unat a + i = unat b + j"
proof -
  have "unat (a + of_nat i) = unat a + i" "unat (b + of_nat j) = unat b + j"
    using assms(2,3) by (simp_all add: unat_word_ariths unat_of_nat)
  then show ?thesis using assms(1) by simp
qed

lemma load_store_disjoint:
  assumes "unat a + n \<le> unat b \<or> unat b + length bs \<le> unat a"
    and "unat a + n \<le> 2 ^ 32" "unat b + length bs \<le> 2 ^ 32"
  shows "load a n (store b bs f) = load a n f"
  unfolding load_def
proof (rule map_cong [OF refl])
  fix i assume i: "i \<in> set [0..<n]"
  have "a + of_nat i \<noteq> b + of_nat j" if "j < length bs" for j
    using word_add_of_nat_eq [of a i b j] that i assms by auto
  then show "store b bs f (a + of_nat i) = f (a + of_nat i)" by (intro store_other) auto
qed

lemma of_nat_u32_inj: "k < 2 ^ 32 \<Longrightarrow> l < 2 ^ 32 \<Longrightarrow> (of_nat k :: u32) = of_nat l \<Longrightarrow> k = l"
  using word_add_of_nat_eq [of 0 k 0 l] by simp

lemma store_at: "length bs \<le> 2 ^ 32 \<Longrightarrow> k < length bs \<Longrightarrow> x = a + of_nat k \<Longrightarrow> store a bs f x = bs ! k"
  using store_nth by simp

text \<open>Storing into the middle of what has been stored replaces that part of it.\<close>

lemma store_split:
  assumes "i + length ys \<le> length bs" "length bs \<le> 2 ^ 32"
  shows "store (a + of_nat i) ys (store a bs f) = store a (take i bs @ ys @ drop (i + length ys) bs) f"
proof
  fix x
  let ?zs = "take i bs @ ys @ drop (i + length ys) bs"
  have len: "length ?zs = length bs" using assms(1) by simp
  have pos: "x = a + of_nat (i + j)" if "x = (a + of_nat i) + of_nat j" for j
    using that by (simp add: add.assoc)
  show "store (a + of_nat i) ys (store a bs f) x = store a ?zs f x"
  proof (cases "\<exists>k < length bs. x = a + of_nat k")
    case False
    have "x \<noteq> (a + of_nat i) + of_nat j" if "j < length ys" for j
    proof
      assume "x = (a + of_nat i) + of_nat j"
      then have "x = a + of_nat (i + j)" by (rule pos)
      moreover have "i + j < length bs" using that assms(1) by simp
      ultimately show False using False by blast
    qed
    then have "store (a + of_nat i) ys (store a bs f) x = store a bs f x" by (intro store_other) auto
    also have "\<dots> = f x" using False by (intro store_other) auto
    also have "\<dots> = store a ?zs f x" using False by (intro store_other [symmetric]) (auto simp only: len)
    finally show ?thesis .
  next
    case True
    then obtain k where k: "k < length bs" "x = a + of_nat k" by blast
    have r: "store a ?zs f x = ?zs ! k" using k len assms(2) by (intro store_at) auto
    show ?thesis
    proof (cases "i \<le> k \<and> k < i + length ys")
      case True
      have "store (a + of_nat i) ys (store a bs f) x = ys ! (k - i)"
        using True k assms by (intro store_at) (auto simp: of_nat_diff)
      moreover have "k - i < length ys" using True by auto
      ultimately show ?thesis using r True assms(1) by (simp add: nth_append)
    next
      case out: False
      have "x \<noteq> (a + of_nat i) + of_nat j" if "j < length ys" for j
      proof
        assume "x = (a + of_nat i) + of_nat j"
        then have "a + of_nat k = a + of_nat (i + j)" using pos k(2) by simp
        then have "(of_nat k :: u32) = of_nat (i + j)" by (rule add_left_imp_eq)
        then have "k = i + j" using of_nat_u32_inj [of k "i + j"] k(1) that assms by simp
        then show False using out that by simp
      qed
      then have "store (a + of_nat i) ys (store a bs f) x = store a bs f x" by (intro store_other) auto
      also have "\<dots> = bs ! k" using k assms(2) by (intro store_at) auto
      finally show ?thesis using r out k assms(1) by (auto simp: nth_append)
    qed
  qed
qed

end
