(* ===== verification/Stage2_Linux.thy ===== *)
theory Stage2_Linux
  imports Stage2_Boot
begin

unbundle bit_operations_syntax

section \<open>What the boot modes of the stage 2 loader achieve\<close>

text \<open>
  The patch of the device tree on its bytes, the memory test, and the whole way from reset to
  the entry of the kernel over the UART.
\<close>

subsection \<open>The memory test\<close>

definition le_bytes :: "u32 \<Rightarrow> bytes" where
  "le_bytes v = [byte_of v 0, byte_of v 1, byte_of v 2, byte_of v 3]"

lemma le_bytes_simps [simp]: "length (le_bytes v) = 4" "le_u32 (le_bytes v) = v"
  using le_u32_bytes [of v] by (simp_all add: le_bytes_def)

lemma store_word_le_bytes: "store_word a v f = store a (le_bytes v) f"
  by (simp add: store_word_def le_bytes_def)

lemma load_word_store_word_same: "load_word a (store_word a v f) = v"
  using load_store [of "le_bytes v" a f] by (simp add: load_word_def store_word_le_bytes)

lemma load_word_store_word_other:
  assumes "unat a + 4 \<le> unat b \<or> unat b + 4 \<le> unat a" "unat a + 4 \<le> 2 ^ 32" "unat b + 4 \<le> 2 ^ 32"
  shows "load_word a (store_word b v f) = load_word a f"
  using load_store_disjoint [of a 4 b "le_bytes v" f] assms by (simp add: load_word_def store_word_le_bytes)

lemma unat_test_word: "i < 64 \<Longrightarrow> unat (0x41F00000 + 4 * of_nat i :: u32) = 0x41F00000 + 4 * i"
  by (simp add: unat_word_ariths unat_of_nat)

lemma write_words_keep:
  assumes "j < i" "i + n \<le> 64"
  shows "load_word (0x41F00000 + 4 * of_nat j) (write_words n (of_nat i) f) = load_word (0x41F00000 + 4 * of_nat j) f"
  using assms
proof (induction n arbitrary: i f)
  case (Suc n)
  let ?f = "store_word (0x41F00000 + 4 * of_nat i) (0xDEAD0000 OR of_nat i) f"
  have "load_word (0x41F00000 + 4 * of_nat j) ?f = load_word (0x41F00000 + 4 * of_nat j) f"
  proof (rule load_word_store_word_other)
    have u: "unat (0x41F00000 + 4 * of_nat j :: u32) = 0x41F00000 + 4 * j"
      "unat (0x41F00000 + 4 * of_nat i :: u32) = 0x41F00000 + 4 * i"
      using Suc.prems by (simp_all add: unat_test_word)
    show "unat (0x41F00000 + 4 * of_nat j :: u32) + 4 \<le> unat (0x41F00000 + 4 * of_nat i :: u32) \<or>
        unat (0x41F00000 + 4 * of_nat i :: u32) + 4 \<le> unat (0x41F00000 + 4 * of_nat j :: u32)"
      unfolding u using Suc.prems by simp
    show "unat (0x41F00000 + 4 * of_nat j :: u32) + 4 \<le> 2 ^ 32" unfolding u using Suc.prems by simp
    show "unat (0x41F00000 + 4 * of_nat i :: u32) + 4 \<le> 2 ^ 32" unfolding u using Suc.prems by simp
  qed
  then show ?case using Suc.IH [of "Suc i" ?f] Suc.prems by (simp add: add.commute [of _ "1 :: u32"])
qed simp

lemma write_words_load:
  assumes "i \<le> j" "j < i + n" "i + n \<le> 64"
  shows "load_word (0x41F00000 + 4 * of_nat j) (write_words n (of_nat i) f) = 0xDEAD0000 OR of_nat j"
  using assms
proof (induction n arbitrary: i f)
  case (Suc n)
  let ?f = "store_word (0x41F00000 + 4 * of_nat i) (0xDEAD0000 OR of_nat i) f"
  show ?case
  proof (cases "j = i")
    case True
    then show ?thesis
      using write_words_keep [of i "Suc i" n ?f] Suc.prems by (simp add: load_word_store_word_same add.commute [of _ "1 :: u32"])
  next
    case False
    then show ?thesis using Suc.IH [of "Suc i" ?f] Suc.prems by (simp add: add.commute [of _ "1 :: u32"])
  qed
qed simp

lemma check_words_pass:
  assumes "\<forall>j. i \<le> j \<and> j < i + n \<longrightarrow> load_word (0x41F00000 + 4 * of_nat j) (mem m) = 0xDEAD0000 OR of_nat j"
  shows "check_words n (of_nat i) e m = (e, m)"
  using assms
proof (induction n arbitrary: i)
  case (Suc n)
  then show ?case using Suc.IH [of "Suc i"] by (simp add: add.commute)
qed simp

lemma sdram_test_passes:
  "\<exists>m'. sdram_test m = (True, m') \<and> rx m' = rx m \<and>
     mem m' = write_words 64 0 (mem m)"
proof -
  have "check_words 64 (of_nat 0) 0 m' = (0, m')" if "mem m' = write_words 64 (of_nat 0) f" for m' f
    by (rule check_words_pass) (use that write_words_load [of 0 _ 64 f] in auto)
  then show ?thesis by (simp add: sdram_test_def Let_def puts_def)
qed

subsection \<open>The patch of the device tree\<close>

text \<open>The sentinel at a position of a list of bytes, and the bytes that replace it.\<close>

definition sentinel_in :: "bytes \<Rightarrow> nat \<Rightarrow> bool" where
  "sentinel_in xs i \<longleftrightarrow> take 4 (drop i xs) = [0xC0, 0xDE, 0xDE, 0xAD]"

definition be_bytes :: "u32 \<Rightarrow> bytes" where
  "be_bytes v = [byte_of v 3, byte_of v 2, byte_of v 1, byte_of v 0]"

definition patched_at :: "nat \<Rightarrow> u32 \<Rightarrow> bytes \<Rightarrow> bytes" where
  "patched_at i v xs = take i xs @ be_bytes v @ drop (i + 4) xs"

lemma length_be_bytes [simp]: "length (be_bytes v) = 4"
  by (simp add: be_bytes_def)

lemma load_Suc4: "load a 4 f = [f a, f (a + 1), f (a + 2), f (a + 3)]"
  by (simp add: load_def upt_rec numeral_eq_Suc)

lemma take_drop_load:
  assumes "i + k \<le> n"
  shows "take k (drop i (load a n f)) = load (a + of_nat i) k f"
  using assms by (intro nth_equalityI) (simp_all add: load_def add.assoc)

lemma sentinel_at_load:
  assumes "i + 4 \<le> n"
  shows "sentinel_at (a + of_nat i) f \<longleftrightarrow> sentinel_in (load a n f) i"
  using take_drop_load [OF assms, of a f] by (auto simp: sentinel_in_def sentinel_at_def load_Suc4)

lemma sentinel_in_bound: "sentinel_in xs i \<Longrightarrow> i + 4 \<le> length xs"
proof -
  assume "sentinel_in xs i"
  from arg_cong [OF this [unfolded sentinel_in_def], of length] show ?thesis by simp
qed

text \<open>One pass of the loop at a position that leaves room for the sentinel, and the end of the loop.\<close>

lemma unat_u32: "n < 2 ^ 32 \<Longrightarrow> unat (of_nat n :: u32) = n"
  by (simp add: unat_of_nat)

lemma room_iff:
  assumes "L < 2 ^ 32" "x + 4 < 2 ^ 32"
  shows "(of_nat x + 4 \<le> (of_nat L :: u32)) \<longleftrightarrow> x + 4 \<le> L"
proof -
  have "(of_nat x + 4 :: u32) = of_nat (x + 4)" by simp
  then show ?thesis using assms by (simp only: word_le_nat_alt unat_u32)
qed

lemma patch_loop_pass:
  assumes "x + 4 \<le> L" "L < 2 ^ 32"
  shows "patch_loop (of_nat x) a (of_nat L) v c f =
    (if sentinel_at (a + of_nat x) f then patch_loop (of_nat (Suc x)) a (of_nat L) v (c + 1) (store (a + of_nat x) (be_bytes v) f)
     else patch_loop (of_nat (Suc x)) a (of_nat L) v c f)"
proof -
  have "of_nat x + 4 \<le> (of_nat L :: u32)" using room_iff [of L x] assms by simp
  then show ?thesis by (subst patch_loop.simps) (simp add: be_bytes_def add.commute)
qed

lemma patch_loop_end:
  assumes "L < x + 4" "x \<le> L - 3" "L < 2 ^ 32 - 1"
  shows "patch_loop (of_nat x) a (of_nat L) v c f = Some (c, f)"
proof -
  have "x + 4 < 2 ^ 32" "L < 2 ^ 32" using assms(2,3) by auto
  then have "\<not> of_nat x + 4 \<le> (of_nat L :: u32)" using room_iff [of L x] assms(1) by simp
  then show ?thesis by (subst patch_loop.simps) simp
qed

lemma store_load_same: "n \<le> 2 ^ 32 \<Longrightarrow> store a (load a n f) f = f"
proof
  fix x assume n: "n \<le> 2 ^ 32"
  show "store a (load a n f) f x = f x"
  proof (cases "\<exists>k < n. x = a + of_nat k")
    case True
    then obtain k where k: "k < n" "x = a + of_nat k" by blast
    then have "store a (load a n f) f x = load a n f ! k" using n by (intro store_at) (simp_all add: load_def)
    then show ?thesis using k by (simp add: load_def)
  next
    case False
    then show ?thesis by (intro store_other) (auto simp: load_def)
  qed
qed

lemma load_patched:
  assumes "load a (length xs) f = xs" "i + 4 \<le> length xs" "length xs \<le> 2 ^ 32"
  shows "load a (length xs) (store (a + of_nat i) (be_bytes v) f) = patched_at i v xs"
proof -
  have f: "store a xs f = f" using store_load_same [of "length xs" a f] assms(1,3) by simp
  have "store (a + of_nat i) (be_bytes v) f = store (a + of_nat i) (be_bytes v) (store a xs f)" by (simp only: f)
  also have "\<dots> = store a (patched_at i v xs) f"
    using store_split [of i "be_bytes v" xs a f] assms(2,3) by (simp add: patched_at_def)
  finally show ?thesis using load_store [of "patched_at i v xs" a f] assms(2,3) by (simp add: patched_at_def)
qed

text \<open>A sentinel does not overlap another one.\<close>

lemma sentinel_no_overlap:
  assumes "sentinel_in xs i" "i < j" "j < i + 4"
  shows "\<not> sentinel_in xs j"
proof
  assume S: "sentinel_in xs j"
  have b: "i + 4 \<le> length xs" "j + 4 \<le> length xs" using assms(1) S sentinel_in_bound by auto
  have "xs ! j = take 4 (drop j xs) ! 0" using b by simp
  also have "\<dots> = 0xC0" using S by (simp add: sentinel_in_def)
  finally have j: "xs ! j = 0xC0" .
  have "xs ! j = take 4 (drop i xs) ! (j - i)" using b assms(2,3) by simp
  also have "\<dots> = [0xC0, 0xDE, 0xDE, 0xAD :: u8] ! (j - i)" using assms(1) by (simp add: sentinel_in_def)
  finally have "[0xC0, 0xDE, 0xDE, 0xAD :: u8] ! (j - i) = 0xC0" using j by simp
  moreover have "j - i \<in> {1, 2, 3}" using assms(2,3) by auto
  ultimately show False by auto
qed

text \<open>Replacing a sentinel leaves those behind it, and makes no new one if the address does not end in a byte of it.\<close>

lemma sentinel_in_patched:
  assumes "sentinel_in xs x" "x < i" "byte_of v 0 \<notin> {0xC0, 0xDE}"
  shows "sentinel_in (patched_at x v xs) i \<longleftrightarrow> sentinel_in xs i"
proof -
  have len: "x + 4 \<le> length xs" by (rule sentinel_in_bound [OF assms(1)])
  show ?thesis
  proof (cases "x + 4 \<le> i")
    case True
    then have "drop i (patched_at x v xs) = drop i xs" using len by (simp add: patched_at_def)
    then show ?thesis by (simp add: sentinel_in_def)
  next
    case False
    then have "i - x \<in> {1, 2, 3}" using assms(2) by auto
    moreover have "drop i (patched_at x v xs) = drop (i - x) (be_bytes v) @ drop (x + 4) xs"
      using False len assms(2) by (simp add: patched_at_def)
    ultimately have "\<not> sentinel_in (patched_at x v xs) i"
      using assms(3) by (auto simp: sentinel_in_def be_bytes_def take_Cons' split: if_splits)
    then show ?thesis using sentinel_no_overlap [OF assms(1,2)] False by auto
  qed
qed

text \<open>The loop counts the sentinels from its position on.\<close>

lemma patch_loop_counts:
  assumes "length xs < 2 ^ 32 - 1" "byte_of v 0 \<notin> {0xC0, 0xDE}" "load a (length xs) f = xs" "x \<le> length xs - 3"
  shows "\<exists>f'. patch_loop (of_nat x) a (of_nat (length xs)) v c f = Some (c + int (card {i. x \<le> i \<and> sentinel_in xs i}), f') \<and>
     (\<forall>i0. {i. x \<le> i \<and> sentinel_in xs i} = {i0} \<longrightarrow> f' = store (a + of_nat i0) (be_bytes v) f) \<and>
     ({i. x \<le> i \<and> sentinel_in xs i} = {} \<longrightarrow> f' = f)"
  using assms(1,3,4)
proof (induction "length xs - x" arbitrary: x c f xs rule: less_induct)
  case less
  let ?L = "length xs" let ?S = "\<lambda>x xs. {i. x \<le> i \<and> sentinel_in xs i}"
  have L: "?L < 2 ^ 32" using less.prems(1) by simp
  show ?case
  proof (cases "x + 4 \<le> ?L")
    case False
    then have S: "?S x xs = {}" by (auto dest: sentinel_in_bound)
    have "patch_loop (of_nat x) a (of_nat ?L) v c f = Some (c, f)"
      by (rule patch_loop_end) (use False less.prems in auto)
    then show ?thesis unfolding S by simp
  next
    case room: True
    have fin: "finite (?S y ys)" for y ys
      by (rule finite_subset [of _ "{..length ys}"]) (auto dest: sentinel_in_bound)
    have at: "sentinel_at (a + of_nat x) f \<longleftrightarrow> sentinel_in xs x"
      using sentinel_at_load [OF room, of a f] less.prems(2) by simp
    show ?thesis
    proof (cases "sentinel_in xs x")
      case False
      then have S: "?S x xs = ?S (Suc x) xs" by (auto simp: Suc_le_eq order_le_less)
      have "patch_loop (of_nat x) a (of_nat ?L) v c f = patch_loop (of_nat (Suc x)) a (of_nat ?L) v c f"
        using patch_loop_pass [OF room L, of a v c f] at False by simp
      then show ?thesis using less.hyps [of xs "Suc x" f c] less.prems room unfolding S by auto
    next
      case True
      let ?f = "store (a + of_nat x) (be_bytes v) f" let ?ys = "patched_at x v xs"
      have ys: "length ?ys = ?L" "load a (length ?ys) ?f = ?ys"
        using load_patched [OF less.prems(2) room] room L by (simp_all add: patched_at_def)
      have S: "?S x xs = insert x (?S (Suc x) ?ys)"
        using True sentinel_in_patched [OF True _ assms(2)] by (auto simp: Suc_le_eq order_le_less)
      have "patch_loop (of_nat x) a (of_nat ?L) v c f = patch_loop (of_nat (Suc x)) a (of_nat (length ?ys)) v (c + 1) ?f"
        using patch_loop_pass [OF room L, of a v c f] at True by (simp add: ys(1))
      moreover have h: "length ?ys - Suc x < ?L - x" "length ?ys < 2 ^ 32 - 1" "Suc x \<le> length ?ys - 3"
        unfolding ys(1) using less.prems(1) room by simp_all
      from less.hyps [OF h(1,2) ys(2) h(3), of "c + 1"] obtain f' where
        "patch_loop (of_nat (Suc x)) a (of_nat (length ?ys)) v (c + 1) ?f = Some (c + 1 + int (card (?S (Suc x) ?ys)), f')"
        "?S (Suc x) ?ys = {} \<longrightarrow> f' = ?f" by (elim exE conjE) (rule that)
      moreover have "?S (Suc x) ?ys = {} \<and> i0 = x" if "?S x xs = {i0}" for i0
        using that unfolding S by auto
      moreover have "card (?S x xs) = Suc (card (?S (Suc x) ?ys))" unfolding S using fin by simp
      ultimately show ?thesis unfolding S [symmetric] by (auto simp: S)
    qed
  qed
qed

lemma patch_dtb_counts:
  assumes "load dtb (length xs) (mem m) = xs" "length xs < 2 ^ 32 - 1" "byte_of (INITRD_LOAD_ADDR + sz) 0 \<notin> {0xC0, 0xDE}"
  shows "\<exists>m'. patch_dtb_initrd_end dtb (of_nat (length xs)) sz m = Inr (int (card {i. sentinel_in xs i}), m') \<and> rx m' = rx m \<and>
     (\<forall>i0. {i. sentinel_in xs i} = {i0} \<longrightarrow> mem m' = store (dtb + of_nat i0) (be_bytes (INITRD_LOAD_ADDR + sz)) (mem m))"
  using patch_loop_counts [OF assms(2,3,1), of 0 0] by (auto simp: patch_dtb_initrd_end_def Let_def)

lemma patch_dtb_once:
  assumes "load dtb (length xs) (mem m) = xs" "\<And>i. sentinel_in xs i \<longleftrightarrow> i = i0" "length xs < 2 ^ 32 - 1"
    and v: "v = INITRD_LOAD_ADDR + initrd_size" "byte_of v 0 \<noteq> 0xC0" "byte_of v 0 \<noteq> 0xDE"
  shows "\<exists>m'. patch_dtb_initrd_end dtb (of_nat (length xs)) initrd_size m = Inr (1, m') \<and> rx m' = rx m \<and>
     mem m' = store (dtb + of_nat i0) (be_bytes v) (mem m)"
  using patch_dtb_counts [OF assms(1,3), of initrd_size] assms(2) v by auto

text \<open>
  C38: the patch of the device tree.  Take a tree of less than 4294967295 bytes and an initramfs whose end address does not end in
  the byte 0xC0 or 0xDE.  \<open>patch_dtb_initrd_end\<close> returns, and returns the number of places of the tree where the sentinel stands.  If
  there is exactly one, the tree then holds the end address in big-endian
  order in its place, and no other byte of memory has changed.  (An end address with such a last byte can complete another sentinel
  together with the bytes behind it, which is then patched and counted as well.)
\<close>

theorem patch_dtb_correct:
  assumes "load dtb (length xs) (mem m) = xs" "length xs < 2 ^ 32 - 1"
    and "byte_of (INITRD_LOAD_ADDR + initrd_size) 0 \<notin> {0xC0, 0xDE}"
  shows "\<exists>m'. patch_dtb_initrd_end dtb (of_nat (length xs)) initrd_size m = Inr (int (card {i. sentinel_in xs i}), m') \<and>
     (\<forall>i0. {i. sentinel_in xs i} = {i0} \<longrightarrow>
        load dtb (length xs) (mem m') =
          take i0 xs @ be_bytes (INITRD_LOAD_ADDR + initrd_size) @ drop (i0 + 4) xs \<and>
        mem m' = store (dtb + of_nat i0) (be_bytes (INITRD_LOAD_ADDR + initrd_size)) (mem m))"
proof -
  have "i0 + 4 \<le> length xs" if "{i. sentinel_in xs i} = {i0}" for i0
    using sentinel_in_bound [of xs i0] that by auto
  then show ?thesis
    using patch_dtb_counts [OF assms] load_patched [OF assms(1)] assms(2) by (fastforce simp: patched_at_def)
qed

text \<open>
  The length 0xFFFFFFFF.  The sum of the test wraps and is never above the limit, so \<open>patch_dtb_initrd_end\<close> does not return.
\<close>

lemma patch_loop_diverges: "patch_loop i dtb 0xFFFFFFFF v c f = None"
proof -
  have top: "w \<le> (0xFFFFFFFF :: u32)" for w
  proof -
    have "(0xFFFFFFFF :: u32) = - 1" by simp
    then show ?thesis by (simp only: word_n1_ge)
  qed
  have "dtb_len \<noteq> 0xFFFFFFFF" if "patch_loop i dtb dtb_len v c f = Some r" for dtb_len r
    by (rule patch_loop.raw_induct [OF _ that, where P = "\<lambda>i dtb dtb_len v c f r. dtb_len \<noteq> 0xFFFFFFFF"])
      (use top in \<open>auto split: if_splits\<close>)
  then show ?thesis by (cases "patch_loop i dtb 0xFFFFFFFF v c f") auto
qed

theorem patch_dtb_diverges: "patch_dtb_initrd_end dtb 0xFFFFFFFF sz m = Inl Diverges"
  by (simp add: patch_dtb_initrd_end_def patch_loop_diverges)

subsection \<open>Examples of a device tree\<close>

definition demo_dtb :: bytes where
  "demo_dtb = replicate 60 0 @ [0xC0, 0xDE, 0xDE, 0xAD] @ replicate 64 0"

lemma length_demo_dtb [simp]: "length demo_dtb = 128"
  by (simp add: demo_dtb_def)

lemma sentinel_demo_dtb: "sentinel_in demo_dtb i \<longleftrightarrow> i = 60"
proof
  assume S: "sentinel_in demo_dtb i"
  have "demo_dtb ! i = take 4 (drop i demo_dtb) ! 0" using sentinel_in_bound [OF S] by simp
  also have "\<dots> = 0xC0" using S by (simp add: sentinel_in_def)
  finally have "demo_dtb ! i = 0xC0" .
  then show "i = 60"
    using sentinel_in_bound [OF S]
    by (cases "i < 60"; cases "i < 64") (auto simp: demo_dtb_def nth_append nth_Cons' split: if_splits)
qed (simp add: sentinel_in_def demo_dtb_def)

theorem patch_dtb_correct_witness:
  "\<exists>m'. patch_dtb_initrd_end 0x41F00000 (of_nat (length demo_dtb)) 128
       (silent\<lparr>mem := store 0x41F00000 demo_dtb (\<lambda>_. 0)\<rparr>) = Inr (1, m') \<and>
     load 0x41F00000 (length demo_dtb) (mem m') =
       take 60 demo_dtb @ be_bytes (INITRD_LOAD_ADDR + 128) @ drop (60 + 4) demo_dtb \<and>
     mem m' = store (0x41F00000 + of_nat 60) (be_bytes (INITRD_LOAD_ADDR + 128))
       (mem (silent\<lparr>mem := store 0x41F00000 demo_dtb (\<lambda>_. 0)\<rparr>))"
proof -
  let ?m = "silent\<lparr>mem := store 0x41F00000 demo_dtb (\<lambda>_. 0)\<rparr>"
  have l: "load 0x41F00000 (length demo_dtb) (mem ?m) = demo_dtb" using load_store [of demo_dtb] by simp
  have b: "byte_of (INITRD_LOAD_ADDR + 128) 0 \<notin> {0xC0, 0xDE}" by (simp add: byte_of_def)
  have S: "{i. sentinel_in demo_dtb i} = {60}" by (simp add: sentinel_demo_dtb)
  show ?thesis using patch_dtb_correct [OF l _ b] unfolding S by auto
qed

subsection \<open>Booting Linux over the UART\<close>

text \<open>One transfer of the host: the line with its disturbances, end of transfer, the CRC confirmed.\<close>

definition upload :: "item list \<Rightarrow> u8 option list \<Rightarrow> u8 option list" where
  "upload is cs = encode 1 is @ Some EOT # Some ACK # cs"

lemma length_payload: "items_ok n r is \<Longrightarrow> 128 dvd length (payload is)"
  by (induction n r "is" rule: items_ok.induct) auto

lemma of_nat_u32_eq_0: "n < 2 ^ 32 \<Longrightarrow> (of_nat n :: u32) = 0 \<longleftrightarrow> n = 0"
  using of_nat_u32_inj [of n 0] by auto

lemma xmodem_receive_verified_ok:
  assumes "items_ok 1 0 is" "rx m = upload is cs" "payload is \<noteq> []" "length (payload is) < 2 ^ 32"
  shows "\<exists>m'. xmodem_receive_verified dest name m = (of_nat (length (payload is)), m') \<and> rx m' = cs \<and>
     mem m' = store dest (payload is) (mem m)"
proof -
  let ?m = "puts (''[stage2] send '' @ name @ '' via xmodem'' @ crlf) m"
  obtain m' where m': "xmodem_receive dest ?m = (of_nat (length (payload is)), m')"
      "rx m' = Some ACK # cs" "mem m' = store dest (payload is) (mem m)"
    using xmodem_loop_items [OF assms(1), of "putc NAK ?m" "Some ACK # cs" dest 0] assms(2)
    by (auto simp: upload_def xmodem_receive_def)
  have "(of_nat (length (payload is)) :: u32) \<noteq> 0" using of_nat_u32_eq_0 [OF assms(4)] assms(3) by simp
  then show ?thesis using m' by (simp add: xmodem_receive_verified_def Let_def getc_Cons)
qed

lemma dump_words_keeps [simp]: "mem (dump_words a n m) = mem m" "rx (dump_words a n m) = rx m"
proof -
  have "mem (dump_words_loop n i a m) = mem m \<and> rx (dump_words_loop n i a m) = rx m" for i
    by (induction n arbitrary: i m) (simp_all add: Let_def)
  then show "mem (dump_words a n m) = mem m" "rx (dump_words a n m) = rx m" by (simp_all add: dump_words_def)
qed

text \<open>The test program stands directly behind a kernel whose size is a multiple of 4.\<close>

definition exec_test_bytes :: bytes where
  "exec_test_bytes = le_bytes 0xFFF50337 @ le_bytes 0x04B00393 @ le_bytes 0x00732223 @ le_bytes 0x00008067"

lemma exec_test_code_store: "exec_test_code a f = store a exec_test_bytes f"
  by (simp add: exec_test_code_def exec_test_bytes_def store_append store_word_le_bytes add.assoc)

lemma round_up_4:
  assumes "x AND 3 = (0 :: u32)"
  shows "(x + 3) AND NOT 3 = x"
proof -
  have "x + 3 = x OR 3" using disjunctive_add [of x 3] assms by (simp add: bit_eq_iff bit_and_iff) 
  moreover have "(x OR 3) AND NOT 3 = x AND NOT 3" by (simp add: bit.conj_disj_distrib2)
  ultimately show ?thesis using and_split [of x 3] assms by simp
qed

lemma exec_test_addr_multiple:
  assumes "128 dvd n" "n < 2 ^ 31"
  shows "exec_test_addr (of_nat n) = KERNEL_LOAD_ADDR + of_nat n"
proof -
  have "4 dvd unat (KERNEL_LOAD_ADDR + of_nat n)"
    using assms by (auto simp: unat_word_ariths unat_of_nat)
  then have "take_bit 2 (unat (KERNEL_LOAD_ADDR + of_nat n)) = 0" by (simp add: take_bit_eq_mod)
  then have "unat (take_bit 2 (KERNEL_LOAD_ADDR + of_nat n)) = 0" by (simp only: unsigned_take_bit_eq)
  then have "(KERNEL_LOAD_ADDR + of_nat n) AND mask 2 = 0" by (simp only: unsigned_eq_0_iff take_bit_eq_mask)
  then have "(KERNEL_LOAD_ADDR + of_nat n) AND 3 = 0" by (simp add: mask_eq_exp_minus_1)
  then show ?thesis unfolding exec_test_addr_def by (rule round_up_4)
qed

text \<open>
  The contents of memory when the kernel is entered: \<open>ks\<close>, \<open>ds\<close> and \<open>rs\<close> are what was
  transferred, \<open>i0\<close> the place of the sentinel in the device tree, \<open>sz\<close> the size of the initramfs.
\<close>

definition linux_memory :: "bytes \<Rightarrow> bytes \<Rightarrow> bytes \<Rightarrow> nat \<Rightarrow> u32 \<Rightarrow> (u32 \<Rightarrow> u8) \<Rightarrow> bool" where
  "linux_memory ks ds rs i0 sz f \<longleftrightarrow>
     load KERNEL_LOAD_ADDR (length ks) f = ks \<and>
     load DTB_LOAD_ADDR (length ds) f = take i0 ds @ be_bytes (INITRD_LOAD_ADDR + sz) @ drop (i0 + 4) ds \<and>
     load INITRD_LOAD_ADDR (length rs) f = rs"

lemma length_exec_test_bytes [simp]: "length exec_test_bytes = 16"
  by (simp add: exec_test_bytes_def)

lemma linux_memory_stored:
  assumes k: "length ks \<le> 0x1F00000" and d: "length ds \<le> 0x80000" and r: "length rs \<le> 0xBE080000"
    and i0: "i0 + 4 \<le> length ds" and f3: "f3 = store INITRD_LOAD_ADDR rs (store DTB_LOAD_ADDR ds (store KERNEL_LOAD_ADDR ks f))"
  shows "load DTB_LOAD_ADDR (length ds) f3 = ds"
    and "linux_memory ks ds rs i0 sz (store (DTB_LOAD_ADDR + of_nat i0) (be_bytes (INITRD_LOAD_ADDR + sz)) f3)"
proof -
  let ?e = "be_bytes (INITRD_LOAD_ADDR + sz)"
  let ?f4 = "store (DTB_LOAD_ADDR + of_nat i0) ?e f3"
  have ud: "unat (DTB_LOAD_ADDR + of_nat i0) = 0x41F00000 + i0"
    using d i0 by (simp add: unat_word_ariths unat_of_nat)
  show dtb: "load DTB_LOAD_ADDR (length ds) f3 = ds"
    using load_store_disjoint [of DTB_LOAD_ADDR "length ds" INITRD_LOAD_ADDR rs] d r load_store [of ds] by (simp add: f3)
  have k5: "load KERNEL_LOAD_ADDR (length ks) ?f4 = ks"
    using load_store_disjoint [of KERNEL_LOAD_ADDR "length ks" "DTB_LOAD_ADDR + of_nat i0" ?e f3]
      load_store_disjoint [of KERNEL_LOAD_ADDR "length ks" INITRD_LOAD_ADDR rs]
      load_store_disjoint [of KERNEL_LOAD_ADDR "length ks" DTB_LOAD_ADDR ds] ud k d r i0 load_store [of ks] by (simp add: f3)
  have d5: "load DTB_LOAD_ADDR (length ds) ?f4 = patched_at i0 (INITRD_LOAD_ADDR + sz) ds"
    using load_patched [OF dtb i0] d by simp
  have r5: "load INITRD_LOAD_ADDR (length rs) ?f4 = rs"
    using load_store_disjoint [of INITRD_LOAD_ADDR "length rs" "DTB_LOAD_ADDR + of_nat i0" ?e f3]
      ud d r i0 load_store [of rs] by (simp add: f3)
  show "linux_memory ks ds rs i0 sz ?f4" using k5 d5 r5 by (simp add: linux_memory_def patched_at_def)
qed

lemma linux_memory_exec:
  assumes "linux_memory ks ds rs i0 sz f" "length ks + 16 \<le> 0x1F00000" "length ds \<le> 0x80000" "length rs \<le> 0xBE080000"
  shows "linux_memory ks ds rs i0 sz (store (KERNEL_LOAD_ADDR + of_nat (length ks)) exec_test_bytes f)"
proof -
  have "unat (KERNEL_LOAD_ADDR + of_nat (length ks)) = 0x40000000 + length ks"
    using assms(2) by (simp add: unat_word_ariths unat_of_nat)
  then have "load a n (store (KERNEL_LOAD_ADDR + of_nat (length ks)) exec_test_bytes f) = load a n f"
    if "a = KERNEL_LOAD_ADDR \<and> n = length ks \<or> unat a \<ge> 0x41F00000 \<and> unat a + n \<le> 2 ^ 32" for a n
    using that assms(2) load_store_disjoint [of a n "KERNEL_LOAD_ADDR + of_nat (length ks)" exec_test_bytes f] by auto
  then show ?thesis using assms by (simp add: linux_memory_def)
qed

text \<open>Addresses at multiples of 128 do not end in a byte of the sentinel.\<close>

lemma low_byte_multiple:
  assumes "128 dvd n"
  shows "byte_of (INITRD_LOAD_ADDR + of_nat n) 0 \<noteq> 0xC0" "byte_of (INITRD_LOAD_ADDR + of_nat n) 0 \<noteq> 0xDE"
proof -
  have "\<not> bit (byte_of (INITRD_LOAD_ADDR + of_nat n) 0) i" if "i < 7" for i
  proof -
    have "128 dvd (0x41F80000 + n)" using assms by (simp add: dvd_add_right_iff)
    then have "(2 :: nat) ^ Suc i dvd 0x41F80000 + n"
      using power_le_dvd [of "2 :: nat" 7 "0x41F80000 + n" "Suc i"] that by simp
    then have "\<not> bit (0x41F80000 + n) i"
      by (auto simp: bit_iff_odd power_Suc2 elim!: dvdE)
    moreover have "INITRD_LOAD_ADDR + of_nat n = of_nat (0x41F80000 + n)" by simp
    ultimately show ?thesis using that by (simp only: bit_byte_of bit_of_nat_iff) (simp add: bit_of_nat_iff)
  qed
  from this [of 6] this [of 1]
  show "byte_of (INITRD_LOAD_ADDR + of_nat n) 0 \<noteq> 0xC0" "byte_of (INITRD_LOAD_ADDR + of_nat n) 0 \<noteq> 0xDE" by auto
qed

text \<open>The three transfers that \<open>mode_linux\<close> receives.\<close>

definition payloads_ok :: "item list \<Rightarrow> item list \<Rightarrow> item list \<Rightarrow> nat \<Rightarrow> bool" where
  "payloads_ok ks ds rs i0 \<longleftrightarrow>
     items_ok 1 0 ks \<and> items_ok 1 0 ds \<and> items_ok 1 0 rs \<and>
     payload ks \<noteq> [] \<and> payload rs \<noteq> [] \<and>
     length (payload ks) + 16 \<le> 0x1F00000 \<and> length (payload ds) \<le> 0x80000 \<and> length (payload rs) \<le> 0xBE080000 \<and>
     (\<forall>i. sentinel_in (payload ds) i \<longleftrightarrow> i = i0)"

lemma exec_test_mem: "mem (exec_test n m) = store (exec_test_addr n) exec_test_bytes (mem m)"
  by (simp add: exec_test_def Let_def exec_test_code_store)

lemma mode_linux_boots:
  assumes ok: "payloads_ok ks ds rs i0" and rx: "rx m = upload ks (upload ds (upload rs cs))"
  shows "\<exists>m'. mode_linux m = Inr (jump_to_kernel, m') \<and>
     linux_memory (payload ks) (payload ds) (payload rs) i0 (of_nat (length (payload rs))) (mem m')"
proof -
  note ok = ok [unfolded payloads_ok_def]
  let ?nk = "length (payload ks)" let ?nd = "length (payload ds)" let ?nr = "length (payload rs)"
  have i0: "i0 + 4 \<le> ?nd" using sentinel_in_bound [of "payload ds" i0] ok by simp
  define m0 where "m0 = puts (''  Initramfs: '' @ hex32 INITRD_LOAD_ADDR @ crlf)
     (puts (''  DTB:       '' @ hex32 DTB_LOAD_ADDR @ crlf) (puts (''  Kernel:    '' @ hex32 KERNEL_LOAD_ADDR @ crlf)
     (puts (''[stage2] Memory layout:'' @ crlf) (puts (''[stage2] Mode: Linux direct boot'' @ crlf) m))))"
  have m0: "rx m0 = upload ks (upload ds (upload rs cs))" by (simp add: m0_def rx)
  obtain m1 where m1: "xmodem_receive_verified KERNEL_LOAD_ADDR ''kernel'' m0 = (of_nat ?nk, m1)"
      "rx m1 = upload ds (upload rs cs)" "mem m1 = store KERNEL_LOAD_ADDR (payload ks) (mem m0)"
    using xmodem_receive_verified_ok [of ks m0] m0 ok by fastforce
  obtain m2 where m2: "xmodem_receive_verified DTB_LOAD_ADDR ''DTB'' m1 = (of_nat ?nd, m2)"
      "rx m2 = upload rs cs" "mem m2 = store DTB_LOAD_ADDR (payload ds) (mem m1)"
    using xmodem_receive_verified_ok [of ds m1] m1(2) ok i0 by fastforce
  obtain m3 where m3: "xmodem_receive_verified INITRD_LOAD_ADDR ''initramfs'' m2 = (of_nat ?nr, m3)"
      "mem m3 = store INITRD_LOAD_ADDR (payload rs) (mem m2)"
    using xmodem_receive_verified_ok [of rs m2] m2(2) ok by fastforce
  have f3: "mem m3 = store INITRD_LOAD_ADDR (payload rs) (store DTB_LOAD_ADDR (payload ds)
      (store KERNEL_LOAD_ADDR (payload ks) (mem m0)))" using m1 m2 m3 by simp
  note sizes = linux_memory_stored [OF _ _ _ i0 f3]
  have dtb: "load DTB_LOAD_ADDR ?nd (mem m3) = payload ds" using sizes(1) ok by simp
  have low: "128 dvd ?nr" "128 dvd ?nk" using length_payload ok by blast+
  obtain m4 where m4: "patch_dtb_initrd_end DTB_LOAD_ADDR (of_nat ?nd) (of_nat ?nr) m3 = Inr (1, m4)"
      "mem m4 = store (DTB_LOAD_ADDR + of_nat i0) (be_bytes (INITRD_LOAD_ADDR + of_nat ?nr)) (mem m3)"
    using patch_dtb_once [of DTB_LOAD_ADDR "payload ds" m3 i0 "INITRD_LOAD_ADDR + of_nat ?nr" "of_nat ?nr"]
      dtb ok low_byte_multiple [OF low(1)] by fastforce
  have nz: "(of_nat ?nk :: u32) \<noteq> 0" "(of_nat ?nd :: u32) \<noteq> 0" "(of_nat ?nr :: u32) \<noteq> 0"
    using of_nat_u32_eq_0 [of ?nk] of_nat_u32_eq_0 [of ?nd] of_nat_u32_eq_0 [of ?nr] ok i0 by auto
  have ad: "exec_test_addr (of_nat ?nk) = KERNEL_LOAD_ADDR + of_nat ?nk"
    using ok by (intro exec_test_addr_multiple [OF low(2)]) auto
  have run: "\<exists>m5. mode_linux m = Inr (jump_to_kernel, exec_test (of_nat ?nk) m5) \<and> mem m5 = mem m4"
    unfolding mode_linux_def Let_def m0_def [symmetric] m1(1) m2(1) m3(1) m4(1) prod.case bindE.simps if_not_P [OF nz(1)]
      if_not_P [OF nz(2)] if_not_P [OF nz(3)]
    by (subst if_not_P, simp, rule exI, rule conjI, rule refl, simp)
  have "linux_memory (payload ks) (payload ds) (payload rs) i0 (of_nat ?nr) (mem m4)" using sizes(2) ok m4(2) by simp
  from linux_memory_exec [OF this] run show ?thesis using ok by (auto simp: exec_test_mem ad)
qed

text \<open>
  C11: from reset to Linux.  On working memory, if the host selects mode \<open>l\<close> and transfers kernel,
  device tree and initramfs, each with any disturbances the receiver tolerates and each CRC
  confirmed, and the areas do not overlap and the tree holds the sentinel once, then the
  loader enters the kernel with hart id 0 and the address of the device tree, memory holds
  the kernel and the initramfs unchanged, and the tree with the end address of the initramfs
  in place of the sentinel.
\<close>

theorem stage2_boots_linux:
  assumes "payloads_ok ks ds rs i0"
    and "rx m = Some (chr CHR ''l'') # upload ks (upload ds (upload rs cs))"
  shows "\<exists>m'. stage2_main clk m = Some (Jumped 0x40000000 (Some (0, 0x41F00000)), m') \<and>
     linux_memory (payload ks) (payload ds) (payload rs) i0 (of_nat (length (payload rs))) (mem m')"
proof -
  let ?m = "puts (''[stage2] CLK='' @ hex32 clk @ crlf) (puts (crlf @ ''[stage2] ready - RV32IMAC NEORV32 loader'' @ crlf)
     (m\<lparr>baud_rate := 115200\<rparr>))"
  obtain m1 where m1: "sdram_test ?m = (True, m1)" "rx m1 = rx m" using sdram_test_passes [of ?m] by auto
  let ?m2 = "(puts prompt m1)\<lparr>rx := upload ks (upload ds (upload rs cs))\<rparr>"
  obtain m3 where m3: "mode_linux ?m2 = Inr (jump_to_kernel, m3)"
      "linux_memory (payload ks) (payload ds) (payload rs) i0 (of_nat (length (payload rs))) (mem m3)"
    using mode_linux_boots [OF assms(1), of ?m2] by auto
  have "getc (puts prompt m1) = (Some (chr CHR ''l''), ?m2)" using m1(2) assms(2) by (simp add: getc_Cons)
  then have "stage2_main clk m = main_loop (Some (chr CHR ''l'')) ?m2"
    unfolding stage2_main_def Let_def m1(1) prod.case by simp
  also have "\<dots> = Some (jump_to_kernel, m3)"
    using m3(1) by (subst main_loop.simps) (simp add: dispatch_def jump_to_kernel_def)
  finally show ?thesis using m3(2) by (simp add: jump_to_kernel_def)
qed

definition demo_kernel :: "item list" where
  "demo_kernel = [Gap, Good (replicate 128 0x13), Junk 0x41]"

definition demo_initrd :: "item list" where
  "demo_initrd = [Bad 7 0 (replicate 128 1) 1, Good (replicate 128 2), Good (replicate 128 3)]"

theorem stage2_boots_linux_witness:
  "\<exists>m'. stage2_main 27000000 (silent\<lparr>rx := Some (chr CHR ''l'') # upload demo_kernel (upload [Good demo_dtb] (upload demo_initrd []))\<rparr>) =
       Some (Jumped 0x40000000 (Some (0, 0x41F00000)), m') \<and>
     linux_memory (payload demo_kernel) (payload [Good demo_dtb]) (payload demo_initrd) 60
       (of_nat (length (payload demo_initrd))) (mem m')"
proof (rule stage2_boots_linux)
  show "payloads_ok demo_kernel [Good demo_dtb] demo_initrd 60"
    by (simp add: payloads_ok_def demo_kernel_def demo_initrd_def sentinel_demo_dtb)
qed simp

text \<open>
  The execution test is not bounded by the device tree.  A kernel that exactly fills the space
  below the tree is accepted, and the test program of \<open>mode_linux\<close> then overwrites the first
  16 bytes of the tree just before the kernel is entered.
\<close>

theorem exec_test_clobbers_dtb:
  "load DTB_LOAD_ADDR 16 (mem (exec_test 0x1F00000 m)) =
     [0x37, 0x03, 0xF5, 0xFF, 0x93, 0x03, 0xB0, 0x04, 0x23, 0x22, 0x73, 0x00, 0x67, 0x80, 0x00, 0x00]"
proof -
  have "exec_test_addr 0x1F00000 = DTB_LOAD_ADDR"
    using exec_test_addr_multiple [of "0x1F00000"] by simp
  then have "load DTB_LOAD_ADDR 16 (mem (exec_test 0x1F00000 m)) = exec_test_bytes"
    using load_store [of exec_test_bytes DTB_LOAD_ADDR "mem m"] by (simp add: exec_test_mem)
  then show ?thesis by (simp add: exec_test_bytes_def le_bytes_def byte_of_def)
qed

end
