(* ===== verification/Sd_Card.thy ===== *)
theory Sd_Card
  imports Stage2_Sd
begin

unbundle bit_operations_syntax

section \<open>The SD card on the bus\<close>

text \<open>
  What the physical layer specification promises of a high capacity card in SPI mode: the states of
  its start-up, the commands it accepts in each with their arguments and checksums, its answers and what
  it sends of its blocks.  A card of the model is a function of the history of the bus; it conforms if after every
  history that left it in a state it takes the steps the specification gives.  With it what \<open>sd_init\<close>, \<open>sd_read_block\<close>
  and \<open>sd_read_many\<close> of \<open>stage2_loader/sd.c\<close> achieve on every conforming card.
\<close>

subsection \<open>The history of the bus\<close>

text \<open>Whether the card is selected, and the bytes clocked while it was not.\<close>

definition cs_clocks :: "spi_event list \<Rightarrow> bool \<times> nat" where
  "cs_clocks h = foldl (\<lambda>(s, n) e. case e of
     Cs_assert \<Rightarrow> (True, n) | Cs_release \<Rightarrow> (False, n) | Setup v \<Rightarrow> (s, n)
   | Xchg t \<Rightarrow> (s, if s then n else Suc n)) (False, 0) h"

definition selected :: "spi_event list \<Rightarrow> bool" where
  "selected h = fst (cs_clocks h)"

definition idle_clocks :: "spi_event list \<Rightarrow> nat" where
  "idle_clocks h = 8 * snd (cs_clocks h)"

lemma selected_simps [simp]:
  "selected (h @ [Cs_assert])" "\<not> selected (h @ [Cs_release])" "selected (h @ [Setup v]) = selected h"
  "selected (h @ [Xchg t]) = selected h"
  by (simp_all add: selected_def cs_clocks_def split: prod.splits)

lemma idle_clocks_simps [simp]:
  "idle_clocks (h @ [Cs_assert]) = idle_clocks h" "idle_clocks (h @ [Cs_release]) = idle_clocks h"
  "idle_clocks (h @ [Setup v]) = idle_clocks h"
  "idle_clocks (h @ [Xchg t]) = (if selected h then idle_clocks h else idle_clocks h + 8)"
  by (simp_all add: idle_clocks_def selected_def cs_clocks_def split: prod.splits)

lemma exchange_selected [simp]: "selected (h @ map Xchg ts) = selected h"
  by (induction ts arbitrary: h rule: rev_induct) (simp_all add: append_assoc [symmetric] del: append_assoc)

lemma exchange_idle_clocks:
  "idle_clocks (h @ map Xchg ts) = (if selected h then idle_clocks h else idle_clocks h + 8 * length ts)"
  by (induction ts arbitrary: h rule: rev_induct) (simp_all add: append_assoc [symmetric] del: append_assoc)

subsection \<open>The specification of a card\<close>

text \<open>
  The states: not yet in SPI mode; idle, with whether CMD8 has been answered, whether the last command was CMD55, and the rounds
  of ACMD41 the card will stay busy; ready for data.
\<close>

datatype sd_phase = Off | Idle bool bool nat | Transfer

text \<open>
  A command with argument and checksum in a state, the response, what follows it, and the next state.  CMD0 needs its checksum and
  starts an initialisation of less than 2000 rounds.  CMD8 needs argument and checksum and its voltage
  and pattern come back.  ACMD41 is CMD41 directly after CMD55; a host that has not sent CMD8 or leaves the
  capacity bit (bit 30) clear is never told that the card is ready.  CMD58 answers with the operating
  conditions, whose capacity bit is set.  CMD17 names a block, which follows a token with two bytes of checksum.  What
  is not listed is not specified.
\<close>

inductive sd_step :: "(u32 \<rightharpoonup> bytes) \<Rightarrow> sd_phase \<Rightarrow> u8 \<Rightarrow> u32 \<Rightarrow> u8 \<Rightarrow> u8 \<Rightarrow> bytes \<Rightarrow> sd_phase \<Rightarrow> bool" for disk where
  go_idle: "k < 2000 \<Longrightarrow> sd_step disk p 0 0 0x95 1 [] (Idle False False k)"
| if_cond: "sd_step disk (Idle v a k) 8 0x1aa 0x87 1 [x, y, 0x01, 0xaa] (Idle True False k)"
| app_cmd: "sd_step disk (Idle v a k) 55 arg crc 1 [] (Idle v True k)"
| op_cond_refused: "\<not> (v \<and> bit arg 30) \<Longrightarrow> sd_step disk (Idle v True k) 41 arg crc 1 [] (Idle v False k)"
| op_cond_busy: "bit arg 30 \<Longrightarrow> sd_step disk (Idle True True (Suc k)) 41 arg crc 1 [] (Idle True False k)"
| op_cond_ready: "bit arg 30 \<Longrightarrow> sd_step disk (Idle True True 0) 41 arg crc 0 [] Transfer"
| read_ocr: "length ocr = 4 \<Longrightarrow> bit (ocr ! 0) 6 \<Longrightarrow> sd_step disk Transfer 58 arg crc 0 ocr Transfer"
| read_block: "disk lba = Some bs \<Longrightarrow> 0xfe \<notin> set ws \<Longrightarrow> length ws < 65536 \<Longrightarrow>
    sd_step disk Transfer 17 lba crc 0 (ws @ 0xfe # bs @ [c1, c2]) Transfer"

text \<open>The bytes of a command, and events that a card that is not in the middle of a command or an answer ignores.\<close>

definition sd_frame :: "u8 \<Rightarrow> u32 \<Rightarrow> u8 \<Rightarrow> bytes" where
  "sd_frame cmd arg crc = [0x40 OR cmd, byte_of arg 3, byte_of arg 2, byte_of arg 1, byte_of arg 0, crc]"

definition quiet :: "spi_event \<Rightarrow> bool" where
  "quiet e = (case e of Xchg t \<Rightarrow> t = 0xff | _ \<Rightarrow> True)"

text \<open>
  A conforming high capacity card with the blocks \<open>disk\<close>; \<open>at p h\<close> says that after the history \<open>h\<close> it waits for a command in state
  \<open>p\<close>.  A command of the specification sent while the card is selected (and, for the first, after 74 clocks of power-up) is answered
  by one of the steps of the specification, after at most 15 bytes with the highest bit set.  This limit, the 1999 busy rounds and
  the 65535 bytes before a block are those of the driver; the specification measures the last two in time.
\<close>

definition sdhc_card :: "(spi_event list \<Rightarrow> u8) \<Rightarrow> (u32 \<rightharpoonup> bytes) \<Rightarrow> (sd_phase \<Rightarrow> spi_event list \<Rightarrow> bool) \<Rightarrow> bool" where
  "sdhc_card c disk at \<longleftrightarrow>
     (\<forall>lba bs. disk lba = Some bs \<longrightarrow> length bs = 512) \<and>
     (\<forall>p h e. at p h \<and> quiet e \<longrightarrow> at p (h @ [e])) \<and>
     (\<forall>p h cmd arg crc. at p h \<and> selected h \<and> (p = Off \<longrightarrow> 74 \<le> idle_clocks h) \<and> (\<exists>r bs p'. sd_step disk p cmd arg crc r bs p') \<longrightarrow>
       (\<exists>ws r bs p'. sd_step disk p cmd arg crc r bs p' \<and> length ws < 16 \<and> list_all (\<lambda>w. w AND 0x80 \<noteq> 0) ws \<and>
          replies c (h @ map Xchg (sd_frame cmd arg crc)) (replicate (Suc (length ws) + length bs) 0xff) = ws @ r # bs \<and>
          at p' (h @ map Xchg (sd_frame cmd arg crc @ replicate (Suc (length ws) + length bs) 0xff))))"

inductive_cases sd_step_0E: "sd_step disk p 0 arg crc r bs p'"
inductive_cases sd_step_8E: "sd_step disk (Idle v a k) 8 arg crc r bs p'"
inductive_cases sd_step_55E: "sd_step disk (Idle v a k) 55 arg crc r bs p'"
inductive_cases sd_step_41E: "sd_step disk (Idle v a k) 41 arg crc r bs p'"
inductive_cases sd_step_58E: "sd_step disk Transfer 58 arg crc r bs p'"
inductive_cases sd_step_17E: "sd_step disk Transfer 17 arg crc r bs p'"

lemma sd_step_r1: "sd_step disk p cmd arg crc r bs p' \<Longrightarrow> r AND 0x80 = 0"
  by (induction rule: sd_step.induct) simp_all

subsection \<open>One command\<close>

text \<open>The driver has done nothing but bus transfers, and the card now waits in state \<open>p\<close>.\<close>

definition bus_only :: "mach \<Rightarrow> mach \<Rightarrow> bool" where
  "bus_only m m' \<longleftrightarrow> (\<exists>h. m' = m\<lparr>bus := h\<rparr>)"

lemma bus_only_refl [simp]: "bus_only m m" "bus_only m (m\<lparr>bus := h\<rparr>)"
  by (auto simp: bus_only_def intro: exI [of _ "bus m"])

lemma bus_only_trans [trans]: "bus_only m m' \<Longrightarrow> bus_only m' m'' \<Longrightarrow> bus_only m m''"
  by (auto simp: bus_only_def)

lemma bus_only_keeps:
  "bus_only m m' \<Longrightarrow> mem m' = mem m \<and> rx m' = rx m \<and> tx m' = tx m \<and> sd_card m' = sd_card m \<and> sd_is_hc m' = sd_is_hc m"
  by (auto simp: bus_only_def)

lemma bus_only_cs [simp]: "bus_only m (spi_cs_assert m)" "bus_only m (spi_cs_release m)" "bus_only m (spi_setup p c m)"
  by (simp_all add: spi_cs_assert_def spi_cs_release_def spi_setup_def)

lemma at_quiet: "sdhc_card c disk at \<Longrightarrow> at p h \<Longrightarrow> quiet e \<Longrightarrow> at p (h @ [e])"
  unfolding sdhc_card_def by blast

lemma at_quiet_list: "sdhc_card c disk at \<Longrightarrow> at p h \<Longrightarrow> list_all quiet es \<Longrightarrow> at p (h @ es)"
proof (induction es arbitrary: h)
  case (Cons e es)
  then show ?case using Cons.IH [of "h @ [e]"] at_quiet [OF Cons.prems(1,2), of e] by simp
qed simp

lemma at_cs:
  assumes "sdhc_card c disk at" "at p (bus m)"
  shows "at p (bus (spi_cs_assert m))" "at p (bus (spi_cs_release m))" "at p (bus (spi_setup x y m))"
  using assms by (simp_all add: spi_cs_assert_def spi_cs_release_def spi_setup_def at_quiet quiet_def)

text \<open>A command of the specification through \<open>sd_cmd\<close>: one of its steps, with what follows the response still to be read.\<close>

lemma sd_cmd_step:
  assumes c: "sdhc_card c disk at" "sd_card m = c" "at p (bus m)" "selected (bus m)" "p = Off \<longrightarrow> 74 \<le> idle_clocks (bus m)"
    and "sd_step disk p cmd arg crc r0 bs0 p0"
  shows "\<exists>r bs p' m'. sd_step disk p cmd arg crc r bs p' \<and> sd_cmd cmd arg crc m = (r, m') \<and> bus_only m m' \<and> selected (bus m') \<and>
     replies c (bus m') (replicate (length bs) 0xff) = bs \<and> at p' (bus m' @ map Xchg (replicate (length bs) 0xff))"
proof -
  let ?h = "bus m @ [Xchg 0xff]" let ?ff = "\<lambda>n. replicate n 0xff :: bytes"
  have "at p ?h" by (rule at_quiet [OF c(1,3)]) (simp add: quiet_def)
  moreover have "selected ?h" "p = Off \<longrightarrow> 74 \<le> idle_clocks ?h" using c(4,5) by simp_all
  ultimately obtain ws r bs p' where w: "sd_step disk p cmd arg crc r bs p'" "length ws < 16" "list_all (\<lambda>w. w AND 0x80 \<noteq> 0) ws"
      "replies c (?h @ map Xchg (sd_frame cmd arg crc)) (?ff (Suc (length ws) + length bs)) = ws @ r # bs"
      "at p' (?h @ map Xchg (sd_frame cmd arg crc @ ?ff (Suc (length ws) + length bs)))"
    using c(1) assms(6) unfolding sdhc_card_def by meson
  have frame: "cmd_frame cmd arg crc = 0xff # sd_frame cmd arg crc" by (simp add: cmd_frame_def sd_frame_def)
  have parts: "?ff (Suc (length ws) + length bs) = ?ff (Suc (length ws)) @ ?ff (length bs)" by (rule replicate_add)
  have "replies c (?h @ map Xchg (sd_frame cmd arg crc)) (?ff (Suc (length ws)) @ ?ff (length bs)) = (ws @ [r]) @ bs"
    using w(4) unfolding parts by simp
  from replies_appendD [OF this]
  have r: "replies c (?h @ map Xchg (sd_frame cmd arg crc)) (?ff (Suc (length ws))) = ws @ [r]"
      "replies c ((?h @ map Xchg (sd_frame cmd arg crc)) @ map Xchg (?ff (Suc (length ws)))) (?ff (length bs)) = bs" by simp_all
  let ?m' = "m\<lparr>bus := bus m @ map Xchg (cmd_frame cmd arg crc @ ?ff (Suc (length ws)))\<rparr>"
  have "sd_cmd cmd arg crc m = (r, ?m')"
  proof (rule sd_cmd_replies)
    show "replies (sd_card m) (bus m) (cmd_frame cmd arg crc @ ?ff (Suc (length ws))) =
        replies c (bus m) (cmd_frame cmd arg crc) @ ws @ [r]"
      using r(1) c(2) by (simp only: replies_append) (simp add: frame)
    show "cmd_reply (replies c (bus m) (cmd_frame cmd arg crc)) ws r"
      using w(2,3) sd_step_r1 [OF w(1)] by (simp add: cmd_reply_def cmd_frame_def)
  qed
  moreover have "bus ?m' = (?h @ map Xchg (sd_frame cmd arg crc)) @ map Xchg (?ff (Suc (length ws)))" by (simp add: frame)
  moreover have "selected (bus ?m')" using c(4) by (simp del: map_append)
  moreover have "at p' (bus ?m' @ map Xchg (?ff (length bs)))" using w(5) unfolding parts by (simp add: frame)
  ultimately show ?thesis using w(1) r(2) by (intro exI [of _ r] exI [of _ bs] exI [of _ p'] exI [of _ ?m']) auto
qed

text \<open>What follows the response, and a byte more: the end of every command of \<open>sd_init\<close>.\<close>

lemma payload_read:
  assumes "sd_card m = c" "replies c (bus m) (replicate (length bs) 0xff) = bs" "at p (bus m @ map Xchg (replicate (length bs) 0xff))"
  shows "\<exists>m'. xchg_list (replicate (length bs) 0xff) m = (bs, m') \<and> bus_only m m' \<and> at p (bus m')"
  using assms by (simp add: xchg_list_replies)

lemma gap_byte:
  assumes "sdhc_card c disk at" "at p (bus m)"
  shows "\<exists>y m'. spi_xchg 0xff m = (y, m') \<and> bus_only m (spi_cs_release m') \<and> at p (bus (spi_cs_release m'))"
proof -
  have "at p (bus m @ [Xchg 0xff, Cs_release])"
    using at_quiet_list [OF assms, of "[Xchg 0xff, Cs_release]"] by (simp add: quiet_def)
  then show ?thesis by (simp add: spi_xchg_def spi_cs_release_def)
qed

lemma framed_command:
  assumes c: "sdhc_card c disk at" "sd_card m = c" "at p (bus m)" "p = Off \<longrightarrow> 74 \<le> idle_clocks (bus m)"
    and "sd_step disk p cmd arg crc r0 bs0 p0"
  shows "\<exists>r bs p' m1 m2 y m3. sd_step disk p cmd arg crc r bs p' \<and> sd_cmd cmd arg crc (spi_cs_assert m) = (r, m1) \<and>
     xchg_list (replicate (length bs) 0xff) m1 = (bs, m2) \<and> spi_xchg 0xff m2 = (y, m3) \<and>
     bus_only m (spi_cs_release m3) \<and> at p' (bus (spi_cs_release m3))"
proof -
  let ?m = "spi_cs_assert m"
  have b: "sd_card ?m = c" "selected (bus ?m)" "p = Off \<longrightarrow> 74 \<le> idle_clocks (bus ?m)"
    using c(2,4) by (simp_all add: spi_cs_assert_def)
  obtain r bs p' m1 where 1: "sd_step disk p cmd arg crc r bs p'" "sd_cmd cmd arg crc ?m = (r, m1)" "bus_only ?m m1"
      "replies c (bus m1) (replicate (length bs) 0xff) = bs" "at p' (bus m1 @ map Xchg (replicate (length bs) 0xff))"
    using sd_cmd_step [OF c(1) b(1) at_cs(1) [OF c(1,3)] b(2,3) assms(5)] by blast
  have "sd_card m1 = c" using bus_only_keeps [OF 1(3)] b(1) by simp
  then obtain m2 where 2: "xchg_list (replicate (length bs) 0xff) m1 = (bs, m2)" "bus_only m1 m2" "at p' (bus m2)"
    using payload_read [of m1 c bs at p'] 1(4,5) by auto
  obtain y m3 where 3: "spi_xchg 0xff m2 = (y, m3)" "bus_only m2 (spi_cs_release m3)" "at p' (bus (spi_cs_release m3))"
    using gap_byte [OF c(1) 2(3)] by auto
  have "bus_only m (spi_cs_release m3)"
    using bus_only_cs(1) [of m] 1(3) 2(2) 3(2) by (blast intro: bus_only_trans)
  then show ?thesis using 1 2 3 by blast
qed

subsection \<open>Initialisation\<close>

lemma bit30: "bit (0x40000000 :: u32) 30"
  by simp

lemma acmd41_loop_ready:
  assumes "sdhc_card c disk at" "sd_card m = c" "at (Idle True a k) (bus m)" "k < n"
  shows "\<exists>m'. acmd41_loop n 0x40000000 r1 m = (Inr 0, m') \<and> bus_only m m' \<and> at Transfer (bus m')"
  using assms(2-4)
proof (induction n arbitrary: a k r1 m)
  case (Suc n)
  note c = assms(1)
  let ?m = "spi_cs_assert m"
  have b: "sd_card ?m = c" "selected (bus ?m)" using Suc.prems(1) by (simp_all add: spi_cs_assert_def)
  obtain r bs p' m1 where 1: "sd_step disk (Idle True a k) 55 0 0x65 r bs p'" "sd_cmd 55 0 0x65 ?m = (r, m1)" "bus_only ?m m1"
      "selected (bus m1)" "at p' (bus m1 @ map Xchg (replicate (length bs) 0xff))"
    using sd_cmd_step [OF c b(1) at_cs(1) [OF c Suc.prems(2)] b(2) _ app_cmd] by blast
  have p': "bs = []" "p' = Idle True True k" using 1(1) by (auto elim: sd_step_55E)
  have at1: "at (Idle True True k) (bus m1)" "sd_card m1 = c" using 1(5) bus_only_keeps [OF 1(3)] b(1) by (simp_all add: p')
  have "\<exists>r bs p'. sd_step disk (Idle True True k) 41 0x40000000 0x77 r bs p'"
    using op_cond_busy [OF bit30] op_cond_ready [OF bit30] by (cases k) blast+
  then obtain q bs2 p2 m2 where 2: "sd_step disk (Idle True True k) 41 0x40000000 0x77 q bs2 p2"
      "sd_cmd 41 0x40000000 0x77 m1 = (q, m2)" "bus_only m1 m2" "at p2 (bus m2 @ map Xchg (replicate (length bs2) 0xff))"
    using sd_cmd_step [OF c at1(2,1) 1(4)] by blast
  have e: "bs2 = []" "k = 0 \<and> q = 0 \<and> p2 = Transfer \<or> (\<exists>k'. k = Suc k' \<and> q = 1 \<and> p2 = Idle True False k')"
    using 2(1) by (auto elim!: sd_step_41E simp: bit_simps)
  obtain y m3 where 3: "spi_xchg 0xff m2 = (y, m3)" "bus_only m2 (spi_cs_release m3)" "at p2 (bus (spi_cs_release m3))"
    using gap_byte [OF c, of p2 m2] 2(4) e(1) by auto
  have only: "bus_only m (spi_cs_release m3)"
    using bus_only_cs(1) [of m] 1(3) 2(3) 3(2) by (blast intro: bus_only_trans)
  have step: "acmd41_loop (Suc n) 0x40000000 r1 m =
      (if q = 0 then (Inr q, spi_cs_release m3) else if q AND 0xfe \<noteq> 0 then (Inl (-2), spi_cs_release m3)
       else acmd41_loop n 0x40000000 q (spi_cs_release m3))"
    using 1(2) 2(2) 3(1) by simp
  show ?case
  proof (cases k)
    case 0
    then show ?thesis using step e(2) only 3(3) by auto
  next
    case (Suc k')
    then have q: "q = 1" "at (Idle True False k') (bus (spi_cs_release m3))" using e(2) 3(3) by auto
    have "sd_card (spi_cs_release m3) = c" using bus_only_keeps [OF only] Suc.prems(1) by simp
    then obtain m' where "acmd41_loop n 0x40000000 q (spi_cs_release m3) = (Inr 0, m')" "bus_only (spi_cs_release m3) m'"
        "at Transfer (bus m')" using Suc.IH [of "spi_cs_release m3" False k' q] q(2) Suc Suc.prems(3) by auto
    then show ?thesis using step q(1) only by (auto intro: bus_only_trans)
  qed
qed simp

lemma sd_init_ready:
  assumes c: "sdhc_card c disk at" "sd_card m = c" "at p (bus m)"
  shows "\<exists>m'. sd_init m = (0, m') \<and> bus_only (m\<lparr>sd_is_hc := True\<rparr>) m' \<and> at Transfer (bus m')"
proof -
  define m0 where "m0 = spi_cs_release (spi_setup 5 0 (m\<lparr>sd_is_hc := False\<rparr>))"
  have 0: "at p (bus m0)" "sd_card m0 = c" "\<not> selected (bus m0)"
    using at_cs(2) [OF c(1) at_cs(3) [OF c(1), of p "m\<lparr>sd_is_hc := False\<rparr>" 5 0]] c(2,3)
      selected_simps(2) [of "bus m @ [e]" for e]
    by (simp_all add: m0_def) (simp_all add: spi_cs_release_def spi_setup_def)
  define m1 where "m1 = m0\<lparr>bus := bus m0 @ map Xchg (replicate 16 0xff)\<rparr>"
  have x1: "xchg_list (replicate 16 0xff) m0 = (replies (sd_card m0) (bus m0) (replicate 16 0xff), m1)"
    unfolding m1_def by (rule xchg_list_replies)
  have 1: "at p (bus m1)" "sd_card m1 = c" "74 \<le> idle_clocks (bus m1)"
    using at_quiet_list [OF c(1) 0(1), of "map Xchg (replicate 16 0xff)"] 0(2,3)
    by (simp_all add: m1_def exchange_idle_clocks list_all_iff quiet_def del: map_replicate)
  have go: "sd_step disk p 0 0 0x95 1 [] (Idle False False 0)" by (rule go_idle) simp
  obtain r bs p2 m2 m3 y m4 where a0: "sd_step disk p 0 0 0x95 r bs p2" "sd_cmd 0 0 0x95 (spi_cs_assert m1) = (r, m2)"
      "xchg_list (replicate (length bs) 0xff) m2 = (bs, m3)" "spi_xchg 0xff m3 = (y, m4)"
      "bus_only m1 (spi_cs_release m4)" "at p2 (bus (spi_cs_release m4))"
    using framed_command [OF c(1) 1(2,1) _ go] 1(3) by blast
  obtain k where k: "r = 1" "bs = []" "p2 = Idle False False k" "k < 2000" using a0(1) by (auto elim: sd_step_0E)
  have 4: "sd_card (spi_cs_release m4) = c" using bus_only_keeps [OF a0(5)] 1(2) by simp
  obtain q r7 p3 m5 m6 y2 m7 where a8: "sd_step disk p2 8 0x1aa 0x87 q r7 p3" "sd_cmd 8 0x1aa 0x87 (spi_cs_assert (spi_cs_release m4)) = (q, m5)"
      "xchg_list (replicate (length r7) 0xff) m5 = (r7, m6)" "spi_xchg 0xff m6 = (y2, m7)"
      "bus_only (spi_cs_release m4) (spi_cs_release m7)" "at p3 (bus (spi_cs_release m7))"
    using framed_command [OF c(1) 4 a0(6) _ if_cond [of disk False False k 0 0, folded k(3)]] k(3) by blast
  have r7: "q = 1" "length r7 = 4" "r7 ! 2 = 0x01" "r7 ! 3 = 0xaa" "p3 = Idle True False k"
    using a8(1) unfolding k(3) by (auto elim: sd_step_8E)
  have 7: "sd_card (spi_cs_release m7) = c" using bus_only_keeps [OF a8(5)] 4 by simp
  obtain m8 where a41: "acmd41_loop 2000 0x40000000 1 (spi_cs_release m7) = (Inr 0, m8)" "bus_only (spi_cs_release m7) m8" "at Transfer (bus m8)"
    using acmd41_loop_ready [OF c(1) 7 a8(6) [unfolded r7(5)] k(4), of 1] by blast
  have 8: "sd_card m8 = c" using bus_only_keeps [OF a41(2)] 7 by simp
  have ex: "sd_step disk Transfer 58 0 0xfd 0 [0x40, 0, 0, 0] Transfer" by (rule read_ocr) (simp_all add: bit_simps)
  obtain q2 ocr p4 m9 m10 y3 m11 where a58: "sd_step disk Transfer 58 0 0xfd q2 ocr p4" "sd_cmd 58 0 0xfd (spi_cs_assert m8) = (q2, m9)"
      "xchg_list (replicate (length ocr) 0xff) m9 = (ocr, m10)" "spi_xchg 0xff m10 = (y3, m11)"
      "bus_only m8 (spi_cs_release m11)" "at p4 (bus (spi_cs_release m11))"
    using framed_command [OF c(1) 8 a41(3) _ ex] by blast
  have ocr: "q2 = 0" "length ocr = 4" "p4 = Transfer" "bit (ocr ! 0) 6" using a58(1) by (auto elim: sd_step_58E)
  have hc: "ocr ! 0 AND 0x40 \<noteq> 0"
  proof
    assume "ocr ! 0 AND 0x40 = 0"
    from arg_cong [OF this, of "\<lambda>w. bit w 6"] show False using ocr(4) by (simp add: bit_simps)
  qed
  let ?m = "spi_cs_release m11"
  have m3: "m3 = m2" using a0(3) by (simp add: k(2))
  have "sd_init m = (0, spi_setup 0 0 (?m\<lparr>sd_is_hc := True\<rparr>))"
    unfolding sd_init_def Let_def m0_def [symmetric] x1 prod.case a0(2) a0(4) [unfolded m3] a8(2) a8(3) [unfolded r7(2)] a8(4) a58(2)
      a58(3) [unfolded ocr(2)] a58(4)
    using k(1) r7 ocr hc a41(1) a58(2) a58(3) [unfolded ocr(2)] a58(4) by simp
  moreover have "bus_only m0 ?m"
    using a0(5) a8(5) a41(2) a58(5) bus_only_refl(2) [of m0] unfolding m1_def by (blast intro: bus_only_trans)
  then obtain h where h: "?m = m0\<lparr>bus := h\<rparr>" unfolding bus_only_def by blast
  have "bus_only (m\<lparr>sd_is_hc := True\<rparr>) (spi_setup 0 0 (?m\<lparr>sd_is_hc := True\<rparr>))"
    unfolding h bus_only_def by (rule exI [of _ "h @ [Setup 1]"]) (simp add: m0_def spi_cs_release_def spi_setup_def)
  moreover have "at Transfer (bus (spi_setup 0 0 (?m\<lparr>sd_is_hc := True\<rparr>)))"
    using at_cs(3) [OF c(1), of Transfer "?m\<lparr>sd_is_hc := True\<rparr>"] a58(6) ocr(3) by simp
  ultimately show ?thesis by blast
qed

lemma sd_init_sdhc_core:
  assumes "sdhc_card c disk at" "sd_card m = c" "at p (bus m)"
  shows "\<exists>m'. sd_init m = (0, m') \<and> sd_is_hc m' \<and> at Transfer (bus m') \<and> mem m' = mem m \<and> rx m' = rx m \<and> sd_card m' = c"
proof -
  obtain m' where m': "sd_init m = (0, m')" "bus_only (m\<lparr>sd_is_hc := True\<rparr>) m'" "at Transfer (bus m')"
    using sd_init_ready [OF assms] by blast
  then show ?thesis using bus_only_keeps [OF m'(2)] assms(2) by auto
qed

text \<open>
  C39: initialisation of a high capacity card.  For every card that keeps the specification, in whatever state it is and however many
  rounds (up to 1999) it stays busy, \<open>sd_init\<close> returns 0, records the card as block addressed, leaves it ready for data
  and has touched nothing but the bus.
\<close>

theorem sd_init_sdhc:
  assumes "sdhc_card c disk at" "sd_card m = c" "at p (bus m)"
  shows "\<exists>m'. sd_init m = (0, m') \<and> sd_is_hc m' \<and> at Transfer (bus m') \<and> mem m' = mem m \<and> rx m' = rx m \<and> sd_card m' = c"
  by (rule sd_init_sdhc_core [OF assms])

subsection \<open>Reading blocks\<close>

lemma sd_read_block_card:
  assumes c: "sdhc_card c disk at" "sd_card m = c" "at Transfer (bus m)" "sd_is_hc m" and d: "disk lba = Some bs"
  shows "\<exists>m'. sd_read_block lba m = (Inr bs, m') \<and> bus_only m m' \<and> at Transfer (bus m')"
proof -
  let ?m = "spi_cs_assert m" let ?ff = "\<lambda>n. replicate n 0xff :: bytes"
  have b: "sd_card ?m = c" "selected (bus ?m)" using c(2) by (simp_all add: spi_cs_assert_def)
  have "sd_step disk Transfer 17 lba 0xff 0 ([] @ 0xfe # bs @ [0, 0]) Transfer" by (rule read_block) (use d in simp_all)
  then obtain r pay p' m1 where 1: "sd_step disk Transfer 17 lba 0xff r pay p'" "sd_cmd 17 lba 0xff ?m = (r, m1)" "bus_only ?m m1"
      "replies c (bus m1) (?ff (length pay)) = pay" "at p' (bus m1 @ map Xchg (?ff (length pay)))"
    using sd_cmd_step [OF c(1) b(1) at_cs(1) [OF c(1,3)] b(2)] by blast
  obtain ws c1 c2 where w: "r = 0" "pay = ws @ 0xfe # bs @ [c1, c2]" "p' = Transfer" "0xfe \<notin> set ws" "length ws < 65536"
    using 1(1) d by (auto elim: sd_step_17E)
  have len: "length bs = 512" using c(1) d unfolding sdhc_card_def by blast
  have parts: "?ff (length pay) = ?ff (Suc (length ws)) @ ?ff 512 @ ?ff 2"
  proof -
    have "length pay = Suc (length ws) + (512 + 2)" using len by (simp add: w(2))
    then show ?thesis by (simp only: replicate_add)
  qed
  have m1: "sd_card m1 = c" using bus_only_keeps [OF 1(3)] b(1) by simp
  have "replies c (bus m1) (?ff (Suc (length ws)) @ ?ff 512 @ ?ff 2) = (ws @ [0xfe]) @ bs @ [c1, c2]"
    using 1(4) unfolding parts by (simp add: w(2))
  from replies_appendD [OF this] have r1: "replies c (bus m1) (?ff (Suc (length ws))) = ws @ [0xfe]"
      "replies c (bus m1 @ map Xchg (?ff (Suc (length ws)))) (?ff 512 @ ?ff 2) = bs @ [c1, c2]" by simp_all
  have r2: "replies c (bus m1 @ map Xchg (?ff (Suc (length ws)))) (?ff 512) = bs"
    by (rule replies_appendD(1) [OF r1(2)]) (simp add: len)
  define m2 where "m2 = m1\<lparr>bus := bus m1 @ map Xchg (?ff (Suc (length ws)))\<rparr>"
  have 2: "poll 65536 (\<lambda>r. r = 0xfe) 0xff m1 = (0xfe, m2)"
    unfolding m2_def by (rule poll_replies) (use r1(1) m1 w(4,5) in \<open>auto simp: list_all_iff\<close>)
  define m3 where "m3 = m2\<lparr>bus := bus m2 @ map Xchg (?ff 512)\<rparr>"
  have "xchg_list (?ff 512) m2 = (replies (sd_card m2) (bus m2) (?ff 512), m3)" unfolding m3_def by (rule xchg_list_replies)
  moreover have "replies (sd_card m2) (bus m2) (?ff 512) = bs" using r2 m1 by (simp add: m2_def)
  ultimately have 3: "xchg_list (?ff 512) m2 = (bs, m3)" by simp
  have 4: "xchg_list [0xff, 0xff, 0xff] m3 = (replies (sd_card m3) (bus m3) [0xff, 0xff, 0xff],
      m3\<lparr>bus := bus m3 @ map Xchg [0xff, 0xff, 0xff]\<rparr>)" by (rule xchg_list_replies)
  let ?m' = "spi_cs_release (m3\<lparr>bus := bus m3 @ map Xchg [0xff, 0xff, 0xff]\<rparr>)"
  have "sd_read_block lba m = (Inr bs, ?m')"
    unfolding sd_read_block_def Let_def sd_addr_def if_P [OF c(4)] 1(2) w(1) prod.case 2 3 4 by simp
  moreover have "bus_only m ?m'"
    using bus_only_trans [OF bus_only_cs(1) [of m] 1(3)] by (auto simp: bus_only_def m2_def m3_def spi_cs_release_def)
  moreover have "bus ?m' = (bus m1 @ map Xchg (?ff (length pay))) @ [Xchg 0xff, Cs_release]"
    unfolding parts by (simp add: m2_def m3_def spi_cs_release_def numeral_2_eq_2)
  then have "at Transfer (bus ?m')"
    using at_quiet_list [OF c(1) 1(5) [unfolded w(3)], of "[Xchg 0xff, Cs_release]"] by (simp add: quiet_def)
  ultimately show ?thesis by blast
qed

text \<open>Consecutive blocks of the card.\<close>

definition has_blocks :: "(u32 \<rightharpoonup> bytes) \<Rightarrow> u32 \<Rightarrow> nat \<Rightarrow> bool" where
  "has_blocks disk lba n \<longleftrightarrow> (\<forall>i < n. disk (lba + of_nat i) \<noteq> None)"

definition card_blocks :: "(u32 \<rightharpoonup> bytes) \<Rightarrow> u32 \<Rightarrow> nat \<Rightarrow> bytes" where
  "card_blocks disk lba n = concat (map (\<lambda>i. the (disk (lba + of_nat i))) [0..<n])"

lemma card_blocks_Suc: "card_blocks disk lba (Suc n) = the (disk lba) @ card_blocks disk (lba + 1) n"
proof -
  have "[0..<Suc n] = 0 # map Suc [0..<n]" by (simp add: map_Suc_upt upt_conv_Cons)
  then show ?thesis by (simp add: card_blocks_def comp_def add.assoc)
qed

lemma has_blocks_Suc: "has_blocks disk lba (Suc n) \<longleftrightarrow> disk lba \<noteq> None \<and> has_blocks disk (lba + 1) n"
  unfolding has_blocks_def by (auto simp: less_Suc_eq_0_disj add.assoc)

lemma length_card_blocks:
  assumes "sdhc_card c disk at"
  shows "has_blocks disk lba n \<Longrightarrow> length (card_blocks disk lba n) = 512 * n"
proof (induction n arbitrary: lba)
  case (Suc n)
  then obtain d where "disk lba = Some d" by (auto simp: has_blocks_Suc)
  moreover from this have "length d = 512" using assms unfolding sdhc_card_def by blast
  ultimately show ?case using Suc by (simp add: card_blocks_Suc has_blocks_Suc)
qed (simp add: card_blocks_def)

lemma sd_read_many_card:
  assumes c: "sdhc_card c disk at" and m: "sd_card m = c" "at Transfer (bus m)" "sd_is_hc m"
    and "has_blocks disk lba (unat n)"
  shows "\<exists>m'. sd_read_many lba n dst m = (0, m') \<and> mem m' = store dst (card_blocks disk lba (unat n)) (mem m) \<and>
     sd_card m' = c \<and> at Transfer (bus m') \<and> sd_is_hc m' \<and> rx m' = rx m"
proof -
  have "\<exists>m'. sd_read_many_loop k lba dst m = (0, m') \<and> mem m' = store dst (card_blocks disk lba k) (mem m) \<and>
     sd_card m' = c \<and> at Transfer (bus m') \<and> sd_is_hc m' \<and> rx m' = rx m" if "has_blocks disk lba k" for k
    using m that
  proof (induction k arbitrary: lba dst m)
    case (Suc k)
    obtain d where d: "disk lba = Some d" using Suc.prems(4) by (auto simp: has_blocks_Suc)
    have len: "length d = 512" using c d unfolding sdhc_card_def by blast
    obtain m1 where m1: "sd_read_block lba m = (Inr d, m1)" "bus_only m m1" "at Transfer (bus m1)"
      using sd_read_block_card [OF c Suc.prems(1-3) d] by blast
    note k = bus_only_keeps [OF m1(2)]
    show ?case
      using Suc.IH [of "m1\<lparr>mem := store dst d (mem m1)\<rparr>" "lba + 1" "dst + 512"] Suc.prems m1(1,3) k d len
      by (simp add: has_blocks_Suc card_blocks_Suc store_append)
  qed (simp add: card_blocks_def)
  then show ?thesis using assms(5) by (simp add: sd_read_many_def)
qed

subsection \<open>A card\<close>

text \<open>
  A card, byte by byte: its phase, whether it is selected, the command bytes it has received and the answer it has still to send.  It stays busy for two rounds
  and puts one byte before every response and one before every block.
\<close>

definition demo_exec :: "(u32 \<rightharpoonup> bytes) \<Rightarrow> sd_phase \<Rightarrow> bytes \<Rightarrow> bytes \<times> sd_phase" where
  "demo_exec disk p fr =
     (let cmd = hd fr AND 0x3f; arg = le_u32 (rev (take 4 (tl fr))); crc = fr ! 5 in
      if cmd = 0 \<and> arg = 0 \<and> crc = 0x95 then ([0xff, 1], Idle False False 2)
      else case p of
        Off \<Rightarrow> ([], Off)
      | Idle v a k \<Rightarrow>
          if cmd = 8 \<and> arg = 0x1aa \<and> crc = 0x87 then ([0xff, 1, 0, 0, 0x01, 0xaa], Idle True False k)
          else if cmd = 55 then ([0xff, 1], Idle v True k)
          else if cmd = 41 \<and> a then
            if v \<and> bit arg 30 then if k = 0 then ([0xff, 0], Transfer) else ([0xff, 1], Idle v False (k - 1))
            else ([0xff, 1], Idle v False k)
          else ([0xff, 5], Idle v False k)
      | Transfer \<Rightarrow>
          if cmd = 58 then ([0xff, 0, 0xc0, 0xff, 0x80, 0], Transfer)
          else if cmd = 17 then
            (case disk arg of Some bs \<Rightarrow> ([0xff, 0, 0xff, 0xfe] @ bs @ [0, 0], Transfer) | None \<Rightarrow> ([0xff, 0x40], Transfer))
          else ([0xff, 4], Transfer))"

fun demo_step :: "(u32 \<rightharpoonup> bytes) \<Rightarrow> sd_phase \<times> bool \<times> bytes \<times> bytes \<Rightarrow> spi_event \<Rightarrow> sd_phase \<times> bool \<times> bytes \<times> bytes" where
  "demo_step disk (p, sel, buf, out) Cs_assert = (p, True, buf, out)"
| "demo_step disk (p, sel, buf, out) Cs_release = (p, False, [], [])"
| "demo_step disk (p, sel, buf, out) (Setup v) = (p, sel, buf, out)"
| "demo_step disk (p, sel, buf, out) (Xchg t) =
     (if \<not> sel then (p, sel, buf, out)
      else if out \<noteq> [] then (p, sel, buf, tl out)
      else if buf = [] \<and> t = 0xff then (p, sel, buf, out)
      else if length buf < 5 then (p, sel, buf @ [t], [])
      else (let (out, p) = demo_exec disk p (buf @ [t]) in (p, sel, [], out)))"

definition demo_state :: "(u32 \<rightharpoonup> bytes) \<Rightarrow> spi_event list \<Rightarrow> sd_phase \<times> bool \<times> bytes \<times> bytes" where
  "demo_state disk h = foldl (demo_step disk) (Off, False, [], []) h"

definition demo_sd :: "(u32 \<rightharpoonup> bytes) \<Rightarrow> spi_event list \<Rightarrow> u8" where
  "demo_sd disk h = (case demo_state disk h of (p, sel, buf, out) \<Rightarrow> if sel \<and> out \<noteq> [] then hd out else 0xff)"

definition demo_at :: "(u32 \<rightharpoonup> bytes) \<Rightarrow> sd_phase \<Rightarrow> spi_event list \<Rightarrow> bool" where
  "demo_at disk p h \<longleftrightarrow> demo_state disk h = (p, selected h, [], [])"

lemma demo_state_append: "demo_state disk (h @ es) = foldl (demo_step disk) (demo_state disk h) es"
  by (simp add: demo_state_def)

lemma demo_sends:
  assumes "demo_state disk h = (p, True, [], os)"
  shows "replies (demo_sd disk) h (replicate (length os) 0xff) = os \<and>
     demo_state disk (h @ map Xchg (replicate (length os) 0xff)) = (p, True, [], [])"
  using assms
proof (induction os arbitrary: h)
  case (Cons b os)
  have "demo_state disk (h @ [Xchg 0xff]) = (p, True, [], os)" using Cons.prems by (simp add: demo_state_append)
  from Cons.IH [OF this] Cons.prems show ?case by (simp add: demo_sd_def)
qed simp

lemma sd_frame_fields [simp]:
  "hd (sd_frame cmd arg crc) = 0x40 OR cmd" "le_u32 (rev (take 4 (tl (sd_frame cmd arg crc)))) = arg" "sd_frame cmd arg crc ! 5 = crc"
  using le_u32_bytes [of arg] by (simp_all add: sd_frame_def)

lemma demo_exec_step:
  assumes "sd_step disk p cmd arg crc r0 bs0 p0"
  shows "\<exists>r bs p'. sd_step disk p cmd arg crc r bs p' \<and> demo_exec disk p (sd_frame cmd arg crc) = (0xff # r # bs, p') \<and> 0x40 OR cmd \<noteq> 0xff"
proof -
  show ?thesis
    using assms
  proof cases
    case (go_idle k)
    have "sd_step disk p 0 0 0x95 1 [] (Idle False False 2)" by (rule sd_step.go_idle) simp
    then show ?thesis using go_idle by (auto simp: demo_exec_def)
  next
    case (if_cond v a k x y)
    then show ?thesis using sd_step.if_cond [of disk v a k 0 0] by (auto simp: demo_exec_def)
  next
    case (app_cmd v a k)
    then show ?thesis using sd_step.app_cmd [of disk v a k arg crc] by (auto simp: demo_exec_def)
  next
    case (op_cond_refused v k)
    then show ?thesis using sd_step.op_cond_refused [of v arg disk k crc] by (auto simp: demo_exec_def)
  next
    case (op_cond_busy k)
    then show ?thesis using sd_step.op_cond_busy [of arg disk k crc] by (auto simp: demo_exec_def)
  next
    case op_cond_ready
    then show ?thesis using sd_step.op_cond_ready [of arg disk crc] by (auto simp: demo_exec_def)
  next
    case (read_ocr)
    have "sd_step disk Transfer 58 arg crc 0 [0xc0, 0xff, 0x80, 0] Transfer" by (rule sd_step.read_ocr) simp_all
    then show ?thesis using read_ocr by (auto simp: demo_exec_def)
  next
    case (read_block bs ws c1 c2)
    have "sd_step disk Transfer 17 arg crc 0 ([0xff] @ 0xfe # bs @ [0, 0]) Transfer"
      by (rule sd_step.read_block) (use read_block in simp_all)
    then show ?thesis using read_block by (auto simp: demo_exec_def)
  qed
qed

lemma demo_frame:
  assumes "demo_state disk h = (p, True, [], [])" "b0 \<noteq> 0xff"
  shows "demo_state disk (h @ map Xchg [b0, b1, b2, b3, b4, b5]) =
    (snd (demo_exec disk p [b0, b1, b2, b3, b4, b5]), True, [], fst (demo_exec disk p [b0, b1, b2, b3, b4, b5]))"
  using assms by (simp add: demo_state_append split: prod.split)

lemma demo_sd_conforms:
  assumes "\<And>lba bs. disk lba = Some bs \<Longrightarrow> length bs = 512"
  shows "sdhc_card (demo_sd disk) disk (demo_at disk)"
  unfolding sdhc_card_def
proof (intro conjI allI impI)
  fix p h e assume a: "demo_at disk p h \<and> quiet e"
  then show "demo_at disk p (h @ [e])"
    by (cases e) (auto simp: demo_at_def quiet_def demo_state_append)
next
  fix p h cmd arg crc
  assume a: "demo_at disk p h \<and> selected h \<and> (p = Off \<longrightarrow> 74 \<le> idle_clocks h) \<and> (\<exists>r bs p'. sd_step disk p cmd arg crc r bs p')"
  then obtain r bs p' where s: "sd_step disk p cmd arg crc r bs p'" "demo_exec disk p (sd_frame cmd arg crc) = (0xff # r # bs, p')"
      "0x40 OR cmd \<noteq> 0xff" using demo_exec_step by meson
  let ?h = "h @ map Xchg (sd_frame cmd arg crc)"
  have "demo_state disk ?h = (p', True, [], 0xff # r # bs)"
    using demo_frame [of disk h p "0x40 OR cmd"] a s(2,3) by (simp add: sd_frame_def demo_at_def)
  from demo_sends [OF this]
  have "replies (demo_sd disk) ?h (replicate (Suc (length [0xff :: u8]) + length bs) 0xff) = [0xff] @ r # bs"
      "demo_at disk p' (h @ map Xchg (sd_frame cmd arg crc @ replicate (Suc (length [0xff :: u8]) + length bs) 0xff))"
    using a unfolding demo_at_def exchange_selected by simp_all
  moreover have "list_all (\<lambda>w. w AND 0x80 \<noteq> 0) [0xff :: u8]" "length [0xff :: u8] < 16" by simp_all
  ultimately show "\<exists>ws r bs p'. sd_step disk p cmd arg crc r bs p' \<and> length ws < 16 \<and> list_all (\<lambda>w. w AND 0x80 \<noteq> 0) ws \<and>
     replies (demo_sd disk) (h @ map Xchg (sd_frame cmd arg crc)) (replicate (Suc (length ws) + length bs) 0xff) = ws @ r # bs \<and>
     demo_at disk p' (h @ map Xchg (sd_frame cmd arg crc @ replicate (Suc (length ws) + length bs) 0xff))"
    using s(1) by blast
qed (use assms in blast)

lemma demo_at_reset: "demo_at disk Off []"
  by (simp add: demo_at_def demo_state_def selected_def cs_clocks_def)

theorem sd_init_sdhc_witness:
  "\<exists>m'. sd_init (idle_sd\<lparr>sd_card := demo_sd Map.empty\<rparr>) = (0, m') \<and> sd_is_hc m' \<and> demo_at Map.empty Transfer (bus m') \<and>
     mem m' = mem (idle_sd\<lparr>sd_card := demo_sd Map.empty\<rparr>) \<and> rx m' = rx (idle_sd\<lparr>sd_card := demo_sd Map.empty\<rparr>) \<and>
     sd_card m' = demo_sd Map.empty"
proof (rule sd_init_sdhc)
  show "sdhc_card (demo_sd Map.empty) Map.empty (demo_at Map.empty)" by (rule demo_sd_conforms) simp
  show "demo_at Map.empty Off (bus (idle_sd\<lparr>sd_card := demo_sd Map.empty\<rparr>))" by (simp add: idle_sd_def demo_at_reset)
qed simp

end
