(* ===== verification/Stage2_Sdboot.thy ===== *)
theory Stage2_Sdboot
  imports Stage2_Linux Sd_Card
begin

unbundle bit_operations_syntax

section \<open>Booting Linux from the SD card\<close>

text \<open>
  The boot mode \<open>b\<close> on every card that keeps its specification (\<open>Sd_Card\<close>): what is loaded from where, and
  when the kernel is entered.
\<close>

subsection \<open>The layout of the card\<close>

text \<open>
  The header is in block 0; its fields are the sizes of kernel, device tree and initramfs in bytes (at 8, 12 and 16) and their first blocks (at 20,
  24 and 28).  An area is the blocks that hold so many bytes.
\<close>

definition area_blocks :: "u32 \<Rightarrow> nat" where
  "area_blocks sz = (unat sz + 511) div 512"

definition area :: "(u32 \<rightharpoonup> bytes) \<Rightarrow> bytes \<Rightarrow> nat \<Rightarrow> nat \<Rightarrow> bytes" where
  "area disk hdr lba_at sz_at = card_blocks disk (hdr_field hdr lba_at) (area_blocks (hdr_field hdr sz_at))"

text \<open>The areas are on the card and fit between the load addresses and the end of the address space.\<close>

definition layout_ok :: "(u32 \<rightharpoonup> bytes) \<Rightarrow> bytes \<Rightarrow> bool" where
  "layout_ok disk hdr \<longleftrightarrow>
     has_blocks disk (hdr_field hdr 20) (area_blocks (hdr_field hdr 8)) \<and>
     has_blocks disk (hdr_field hdr 24) (area_blocks (hdr_field hdr 12)) \<and>
     has_blocks disk (hdr_field hdr 28) (area_blocks (hdr_field hdr 16)) \<and>
     hdr_field hdr 8 \<le> 0x1F00000 \<and> hdr_field hdr 12 \<le> 0x80000 \<and> hdr_field hdr 16 \<le> 0xBE080000"

lemma blocks_of_area: "sz \<le> 0xBE080000 \<Longrightarrow> unat (blocks_of sz) = area_blocks sz"
  by (simp add: blocks_of_def area_blocks_def unat_div unat_word_ariths word_le_nat_alt)

lemma area_blocks_le: "sz \<le> n \<Longrightarrow> 512 dvd unat n \<Longrightarrow> 512 * area_blocks sz \<le> unat n"
  by (auto simp: area_blocks_def word_le_nat_alt dvd_def)

lemma layout_sizes:
  assumes "layout_ok disk hdr" "sdhc_card c disk at"
  shows "unat (blocks_of (hdr_field hdr 8)) = area_blocks (hdr_field hdr 8)"
    and "unat (blocks_of (hdr_field hdr 12)) = area_blocks (hdr_field hdr 12)"
    and "unat (blocks_of (hdr_field hdr 16)) = area_blocks (hdr_field hdr 16)"
    and "length (area disk hdr 20 8) \<le> 0x1F00000" "length (area disk hdr 24 12) \<le> 0x80000" "length (area disk hdr 28 16) \<le> 0xBE080000"
    and "blocks_of (hdr_field hdr 12) * 512 = of_nat (length (area disk hdr 24 12))"
proof -
  note ok = assms(1) [unfolded layout_ok_def]
  have le: "hdr_field hdr 8 \<le> 0xBE080000" "hdr_field hdr 12 \<le> 0xBE080000" "hdr_field hdr 16 \<le> 0xBE080000"
    using ok by (auto intro: order_trans)
  show b: "unat (blocks_of (hdr_field hdr 8)) = area_blocks (hdr_field hdr 8)"
    "unat (blocks_of (hdr_field hdr 12)) = area_blocks (hdr_field hdr 12)"
    "unat (blocks_of (hdr_field hdr 16)) = area_blocks (hdr_field hdr 16)" using le by (simp_all add: blocks_of_area)
  show "length (area disk hdr 20 8) \<le> 0x1F00000" "length (area disk hdr 24 12) \<le> 0x80000" "length (area disk hdr 28 16) \<le> 0xBE080000"
    using ok length_card_blocks [OF assms(2)] area_blocks_le [of "hdr_field hdr 8" "0x1F00000"]
      area_blocks_le [of "hdr_field hdr 12" "0x80000"] area_blocks_le [of "hdr_field hdr 16" "0xBE080000"]
    by (simp_all add: area_def)
  have "blocks_of (hdr_field hdr 12) = of_nat (area_blocks (hdr_field hdr 12))" using b(2) by (metis of_nat_unat ucast_id)
  then show "blocks_of (hdr_field hdr 12) * 512 = of_nat (length (area disk hdr 24 12))"
    using ok length_card_blocks [OF assms(2)] by (simp add: area_def mult.commute)
qed

subsection \<open>The boot mode\<close>

lemma puts_fields [simp]: "sd_card (puts s m) = sd_card m" "bus (puts s m) = bus m" "sd_is_hc (puts s m) = sd_is_hc m"
  by (simp_all add: puts_def)

text \<open>Up to the patch of the device tree the mode only loads the three areas.\<close>

lemma mode_sd_boot_loads:
  assumes c: "sdhc_card c disk at" "sd_card m = c" "at p (bus m)"
    and d: "disk 0 = Some hdr" "take 8 hdr = sd_magic" "layout_ok disk hdr"
  shows "\<exists>m'. mode_sd_boot m = bindE (patch_dtb_initrd_end DTB_LOAD_ADDR (of_nat (length (area disk hdr 24 12))) (hdr_field hdr 16) m')
       (\<lambda>(patched, m). if patched \<noteq> 1
          then Inr (Halted, puts (''[!] DTB sentinel not found '' @ em_dash @ '' halting'' @ crlf) m)
          else Inr (jump_to_kernel, puts (''[stage2] Booting Linux from SD...'' @ crlf)
            (dump_words KERNEL_LOAD_ADDR 4 (puts (''[stage2] Kernel header:'' @ crlf) m)))) \<and>
     mem m' = store INITRD_LOAD_ADDR (area disk hdr 28 16) (store DTB_LOAD_ADDR (area disk hdr 24 12)
       (store KERNEL_LOAD_ADDR (area disk hdr 20 8) (mem m)))"
proof -
  note sz = layout_sizes [OF d(3) c(1)]
  have blk: "has_blocks disk (hdr_field hdr 20) (unat (blocks_of (hdr_field hdr 8)))"
      "has_blocks disk (hdr_field hdr 24) (unat (blocks_of (hdr_field hdr 12)))"
      "has_blocks disk (hdr_field hdr 28) (unat (blocks_of (hdr_field hdr 16)))"
    using d(3) unfolding layout_ok_def sz(1-3) by simp_all
  let ?m0 = "puts (''[stage2] Mode: SD blob boot'' @ crlf) m"
  obtain m1 where m1: "sd_init ?m0 = (0, m1)" "sd_is_hc m1" "at Transfer (bus m1)" "mem m1 = mem m" "sd_card m1 = c"
    using sd_init_sdhc_core [OF c(1), of ?m0 p] c(2,3) by auto
  obtain m2 where hdr: "sd_read_block 0 m1 = (Inr hdr, m2)" "bus_only m1 m2" "at Transfer (bus m2)"
    using sd_read_block_card [OF c(1) m1(5,3,2) d(1)] by blast
  note k2 = bus_only_keeps [OF hdr(2)]
  define m3 where "m3 = puts (''[sd] reading Image'' @ crlf) (puts (''[sd] image_sz='' @ hex32 (hdr_field hdr 8) @
     '' dtb_sz='' @ hex32 (hdr_field hdr 12) @ '' initrd_sz='' @ hex32 (hdr_field hdr 16) @ crlf) m2)"
  have k3: "sd_card m3 = c" "at Transfer (bus m3)" "sd_is_hc m3" "mem m3 = mem m"
    using k2 m1 hdr(3) by (simp_all add: m3_def)
  obtain m4 where m4: "sd_read_many (hdr_field hdr 20) (blocks_of (hdr_field hdr 8)) KERNEL_LOAD_ADDR m3 = (0, m4)"
      "mem m4 = store KERNEL_LOAD_ADDR (area disk hdr 20 8) (mem m)" "sd_card m4 = c" "at Transfer (bus m4)" "sd_is_hc m4"
    using sd_read_many_card [OF c(1) k3(1-3) blk(1), of KERNEL_LOAD_ADDR] unfolding k3(4) area_def sz(1) by auto
  let ?m4 = "puts (''[sd] reading DTB'' @ crlf) m4"
  obtain m5 where m5: "sd_read_many (hdr_field hdr 24) (blocks_of (hdr_field hdr 12)) DTB_LOAD_ADDR ?m4 = (0, m5)"
      "mem m5 = store DTB_LOAD_ADDR (area disk hdr 24 12) (mem m4)" "sd_card m5 = c" "at Transfer (bus m5)" "sd_is_hc m5"
    using sd_read_many_card [OF c(1), of ?m4 "hdr_field hdr 24" "blocks_of (hdr_field hdr 12)" DTB_LOAD_ADDR] m4(3-5) blk(2)
    unfolding area_def sz(2) by auto
  let ?m5 = "puts (''[sd] reading initrd'' @ crlf) m5"
  obtain m6 where m6: "sd_read_many (hdr_field hdr 28) (blocks_of (hdr_field hdr 16)) INITRD_LOAD_ADDR ?m5 = (0, m6)"
      "mem m6 = store INITRD_LOAD_ADDR (area disk hdr 28 16) (mem m5)"
    using sd_read_many_card [OF c(1), of ?m5 "hdr_field hdr 28" "blocks_of (hdr_field hdr 16)" INITRD_LOAD_ADDR] m5(3-5) blk(3)
    unfolding area_def sz(3) by auto
  have zz: "\<not> ((0 :: int) \<noteq> 0)" "\<not> (take 8 hdr \<noteq> sd_magic)" using d(2) by simp_all
  have "mode_sd_boot m = bindE (patch_dtb_initrd_end DTB_LOAD_ADDR (of_nat (length (area disk hdr 24 12))) (hdr_field hdr 16) m6)
       (\<lambda>(patched, m). if patched \<noteq> 1
          then Inr (Halted, puts (''[!] DTB sentinel not found '' @ em_dash @ '' halting'' @ crlf) m)
          else Inr (jump_to_kernel, puts (''[stage2] Booting Linux from SD...'' @ crlf)
            (dump_words KERNEL_LOAD_ADDR 4 (puts (''[stage2] Kernel header:'' @ crlf) m))))"
    unfolding mode_sd_boot_def Let_def m1(1) prod.case hdr(1) if_not_P [OF zz(1)] sum.case if_not_P [OF zz(2)]
      m3_def [symmetric] m4(1) m5(1) m6(1) sz(7) by (rule refl)
  then show ?thesis using m4(2) m5(2) m6(2) by auto
qed

text \<open>
  C12: booting from the card.  Take any high capacity card that keeps its specification, with the magic number in its header, areas that are on
  the card and fit in memory, a device tree area with the sentinel at exactly one place, and an initramfs whose end address does not end in
  the byte 0xC0 or 0xDE.  \<open>mode_sd_boot\<close> enters the kernel, and memory holds the blocks that the header names for the kernel and for the
  initramfs as they are on the card, and those it names for the device tree with the end address computed from the exact size of the
  initramfs in place of the sentinel.  (UART and SPI controller complete every transfer.)
\<close>

theorem mode_sd_boot_boots:
  assumes "sdhc_card c disk at" "sd_card m = c" "at p (bus m)"
    and "disk 0 = Some hdr" "take 8 hdr = sd_magic" "layout_ok disk hdr"
    and "\<forall>i. sentinel_in (area disk hdr 24 12) i \<longleftrightarrow> i = i0"
    and "byte_of (INITRD_LOAD_ADDR + hdr_field hdr 16) 0 \<notin> {0xC0, 0xDE}"
  shows "\<exists>m'. mode_sd_boot m = Inr (Jumped 0x40000000 (Some (0, 0x41F00000)), m') \<and>
     linux_memory (area disk hdr 20 8) (area disk hdr 24 12) (area disk hdr 28 16) i0 (hdr_field hdr 16) (mem m')"
proof -
  note sz = layout_sizes [OF assms(6,1)]
  obtain m1 where m1: "mode_sd_boot m = bindE (patch_dtb_initrd_end DTB_LOAD_ADDR (of_nat (length (area disk hdr 24 12))) (hdr_field hdr 16) m1)
       (\<lambda>(patched, m). if patched \<noteq> 1
          then Inr (Halted, puts (''[!] DTB sentinel not found '' @ em_dash @ '' halting'' @ crlf) m)
          else Inr (jump_to_kernel, puts (''[stage2] Booting Linux from SD...'' @ crlf)
            (dump_words KERNEL_LOAD_ADDR 4 (puts (''[stage2] Kernel header:'' @ crlf) m))))"
      "mem m1 = store INITRD_LOAD_ADDR (area disk hdr 28 16) (store DTB_LOAD_ADDR (area disk hdr 24 12)
         (store KERNEL_LOAD_ADDR (area disk hdr 20 8) (mem m)))"
    using mode_sd_boot_loads [OF assms(1-6)] by blast
  have i0: "i0 + 4 \<le> length (area disk hdr 24 12)" using sentinel_in_bound [of _ i0] assms(7) by simp
  note stored = linux_memory_stored [OF sz(4-6) i0 m1(2)]
  obtain m2 where m2: "patch_dtb_initrd_end DTB_LOAD_ADDR (of_nat (length (area disk hdr 24 12))) (hdr_field hdr 16) m1 = Inr (1, m2)"
      "mem m2 = store (DTB_LOAD_ADDR + of_nat i0) (be_bytes (INITRD_LOAD_ADDR + hdr_field hdr 16)) (mem m1)"
    using patch_dtb_once [OF stored(1), of i0 _ "hdr_field hdr 16"] assms(7,8) sz(5) by auto
  show ?thesis using m1(1) m2 stored(2) by (simp add: jump_to_kernel_def)
qed

text \<open>
  C40: the decision to boot.  On any such card whose header block can be read, whatever it holds, \<open>mode_sd_boot\<close> neither returns to the dispatcher
  nor runs on forever before its decision: it enters the kernel if the header has the magic number and the device tree area the sentinel at exactly one place,
  and halts otherwise.  The areas are on the card and fit when there is the magic number, and the end address of the initramfs does not end in the
  byte 0xC0 or 0xDE.  (UART and SPI controller complete every transfer.)
\<close>

theorem mode_sd_boot_decides:
  assumes "sdhc_card c disk at" "sd_card m = c" "at p (bus m)" "disk 0 = Some hdr"
    and "take 8 hdr = sd_magic \<longrightarrow> layout_ok disk hdr \<and> byte_of (INITRD_LOAD_ADDR + hdr_field hdr 16) 0 \<notin> {0xC0, 0xDE}"
  shows "\<exists>m'. mode_sd_boot m =
     Inr (if take 8 hdr = sd_magic \<and> (\<exists>i0. {i. sentinel_in (area disk hdr 24 12) i} = {i0})
          then Jumped 0x40000000 (Some (0, 0x41F00000)) else Halted, m')"
proof (cases "take 8 hdr = sd_magic")
  case False
  let ?m0 = "puts (''[stage2] Mode: SD blob boot'' @ crlf) m"
  obtain m1 where m1: "sd_init ?m0 = (0, m1)" "sd_is_hc m1" "at Transfer (bus m1)" "sd_card m1 = c"
    using sd_init_sdhc_core [OF assms(1), of ?m0 p] assms(2,3) by auto
  obtain m2 where hdr: "sd_read_block 0 m1 = (Inr hdr, m2)"
    using sd_read_block_card [OF assms(1) m1(4,3,2) assms(4)] by blast
  show ?thesis using False unfolding mode_sd_boot_def Let_def m1(1) prod.case by (simp add: hdr)
next
  case True
  then have ok: "layout_ok disk hdr" "byte_of (INITRD_LOAD_ADDR + hdr_field hdr 16) 0 \<notin> {0xC0, 0xDE}" using assms(5) by auto
  let ?t = "area disk hdr 24 12" let ?S = "{i. sentinel_in ?t i}"
  note sz = layout_sizes [OF ok(1) assms(1)]
  obtain m1 where m1: "mode_sd_boot m = bindE (patch_dtb_initrd_end DTB_LOAD_ADDR (of_nat (length ?t)) (hdr_field hdr 16) m1)
       (\<lambda>(patched, m). if patched \<noteq> 1
          then Inr (Halted, puts (''[!] DTB sentinel not found '' @ em_dash @ '' halting'' @ crlf) m)
          else Inr (jump_to_kernel, puts (''[stage2] Booting Linux from SD...'' @ crlf)
            (dump_words KERNEL_LOAD_ADDR 4 (puts (''[stage2] Kernel header:'' @ crlf) m))))"
      "mem m1 = store INITRD_LOAD_ADDR (area disk hdr 28 16) (store DTB_LOAD_ADDR ?t (store KERNEL_LOAD_ADDR (area disk hdr 20 8) (mem m)))"
    using mode_sd_boot_loads [OF assms(1-4) True ok(1)] by blast
  have "load DTB_LOAD_ADDR (length ?t) (mem m1) = ?t"
    using load_store_disjoint [of DTB_LOAD_ADDR "length ?t" INITRD_LOAD_ADDR "area disk hdr 28 16"] sz(5,6) load_store [of ?t]
    by (simp add: m1(2))
  then obtain m2 where "patch_dtb_initrd_end DTB_LOAD_ADDR (of_nat (length ?t)) (hdr_field hdr 16) m1 = Inr (int (card ?S), m2)"
    using patch_dtb_counts [of DTB_LOAD_ADDR ?t m1 "hdr_field hdr 16"] ok(2) sz(5) by auto
  then show ?thesis using m1(1) True by (auto simp: jump_to_kernel_def card_1_singleton_iff)
qed

subsection \<open>An example\<close>

text \<open>A header, a kernel of two blocks, a device tree of one and an initramfs of one, with \<open>n\<close> sentinels at the beginning of the tree.\<close>

definition padded :: "bytes \<Rightarrow> bytes" where
  "padded bs = bs @ replicate (512 - length bs) 0"

definition demo_header :: bytes where
  "demo_header = padded (sd_magic @ le_bytes 1000 @ le_bytes 128 @ le_bytes 300 @ le_bytes 1 @ le_bytes 3 @ le_bytes 4)"

definition demo_disk :: "nat \<Rightarrow> u32 \<rightharpoonup> bytes" where
  "demo_disk n = [0 \<mapsto> demo_header, 1 \<mapsto> padded [0x13], 2 \<mapsto> padded [0x13, 1],
     3 \<mapsto> padded (concat (replicate n [0xC0, 0xDE, 0xDE, 0xAD])), 4 \<mapsto> padded [3]]"

lemma length_padded: "length bs \<le> 512 \<Longrightarrow> length (padded bs) = 512"
  by (simp add: padded_def)

lemma demo_header_fields:
  "take 8 demo_header = sd_magic" "hdr_field demo_header 8 = 1000" "hdr_field demo_header 12 = 128" "hdr_field demo_header 16 = 300"
  "hdr_field demo_header 20 = 1" "hdr_field demo_header 24 = 3" "hdr_field demo_header 28 = 4"
  by (simp_all add: demo_header_def padded_def hdr_field_def sd_magic_def)

lemma length_demo_header: "length demo_header = 512"
  by (simp add: demo_header_def length_padded sd_magic_def)

lemma demo_disk_card: "n \<le> 2 \<Longrightarrow> sdhc_card (demo_sd (demo_disk n)) (demo_disk n) (demo_at (demo_disk n))"
  by (rule demo_sd_conforms) (auto simp: demo_disk_def length_demo_header length_padded length_concat sum_list_replicate split: if_splits)

lemma demo_layout: "layout_ok (demo_disk n) demo_header"
proof -
  have "has_blocks d lba 1 \<longleftrightarrow> d lba \<noteq> None" "has_blocks d lba 2 \<longleftrightarrow> d lba \<noteq> None \<and> d (lba + 1) \<noteq> None" for d lba
    unfolding One_nat_def numeral_2_eq_2 has_blocks_Suc by (simp_all add: has_blocks_def)
  then show ?thesis by (simp add: layout_ok_def demo_header_fields area_blocks_def) (simp add: demo_disk_def)
qed

lemma demo_dtb_area: "area (demo_disk n) demo_header 24 12 = padded (concat (replicate n [0xC0, 0xDE, 0xDE, 0xAD]))"
  by (simp add: area_def demo_header_fields area_blocks_def card_blocks_def demo_disk_def)

lemma sentinel_padded: "sentinel_in (padded [0xC0, 0xDE, 0xDE, 0xAD]) i \<longleftrightarrow> i = 0"
proof -
  let ?b = "padded [0xC0, 0xDE, 0xDE, 0xAD]"
  have "i = 0" if S: "sentinel_in ?b i"
  proof -
    have "?b ! i = take 4 (drop i ?b) ! 0" using sentinel_in_bound [OF S] by simp
    also have "\<dots> = 0xC0" using S by (simp add: sentinel_in_def)
    finally show "i = 0"
      using sentinel_in_bound [OF S]
      by (cases "i < 4") (auto simp: padded_def nth_append nth_Cons' split: if_splits)
  qed
  then show ?thesis by (auto simp: sentinel_in_def padded_def)
qed

definition demo_boot :: "nat \<Rightarrow> mach" where
  "demo_boot n = idle_sd\<lparr>sd_card := demo_sd (demo_disk n)\<rparr>"

lemma demo_boot_card: "sd_card (demo_boot n) = demo_sd (demo_disk n)" "demo_at (demo_disk n) Off (bus (demo_boot n))" "demo_disk n 0 = Some demo_header"
  by (simp_all add: demo_boot_def idle_sd_def demo_at_reset demo_disk_def)

theorem mode_sd_boot_boots_witness:
  "\<exists>m'. mode_sd_boot (demo_boot 1) = Inr (Jumped 0x40000000 (Some (0, 0x41F00000)), m') \<and>
     linux_memory (area (demo_disk 1) demo_header 20 8) (area (demo_disk 1) demo_header 24 12) (area (demo_disk 1) demo_header 28 16) 0
       (hdr_field demo_header 16) (mem m')"
proof (rule mode_sd_boot_boots [OF demo_disk_card demo_boot_card demo_header_fields(1) demo_layout])
  show "\<forall>i. sentinel_in (area (demo_disk 1) demo_header 24 12) i \<longleftrightarrow> i = 0" by (simp add: demo_dtb_area sentinel_padded)
qed (simp_all add: demo_header_fields byte_of_def)

theorem mode_sd_boot_decides_witness:
  "(\<exists>m'. mode_sd_boot (demo_boot 1) = Inr (Jumped 0x40000000 (Some (0, 0x41F00000)), m')) \<and>
   (\<exists>m'. mode_sd_boot (demo_boot 2) = Inr (Halted, m'))"
proof -
  have low: "byte_of (INITRD_LOAD_ADDR + hdr_field demo_header 16) 0 \<notin> {0xC0, 0xDE}" by (simp add: demo_header_fields byte_of_def)
  have 1: "{i. sentinel_in (area (demo_disk 1) demo_header 24 12) i} = {0}" by (auto simp: demo_dtb_area sentinel_padded)
  have "sentinel_in (area (demo_disk 2) demo_header 24 12) 0" "sentinel_in (area (demo_disk 2) demo_header 24 12) 4"
    by (simp_all add: demo_dtb_area sentinel_in_def padded_def numeral_2_eq_2)
  then have "{0, 4} \<subseteq> {i. sentinel_in (area (demo_disk 2) demo_header 24 12) i}" by blast
  then have 2: "{i. sentinel_in (area (demo_disk 2) demo_header 24 12) i} \<noteq> {i0}" for i0 by (cases "i0 = 0") force+
  show ?thesis
    using mode_sd_boot_decides [OF demo_disk_card demo_boot_card, of 1] mode_sd_boot_decides [OF demo_disk_card demo_boot_card, of 2]
      demo_layout low 1 2 by (auto simp: demo_header_fields(1))
qed

subsection \<open>The baud rate\<close>

lemma raw_recv_n_exact:
  "rx m = map Some bs @ cs \<Longrightarrow> raw_recv_n (length bs) m = Inr (bs, m\<lparr>rx := cs\<rparr>)"
proof (induction bs arbitrary: m)
  case (Cons b bs)
  then show ?case using Cons.IH [of "m\<lparr>rx := map Some bs @ cs\<rparr>"] by (simp add: raw_recv_def)
qed (simp add: mach.equality)

lemma recv_u32_exact: "rx m = map Some (le_bytes v) @ cs \<Longrightarrow> recv_u32 m = Inr (v, m\<lparr>rx := cs\<rparr>)"
  using raw_recv_n_exact [of m "le_bytes v" cs] by (simp add: recv_u32_def)

text \<open>
  Changing the baud rate.  The rate the host sends in little-endian order takes effect exactly
  if it is between 9600 and 2000000; the answer in that case waits for one byte at the new
  rate.  Any other value leaves the rate as it is.
\<close>

theorem mode_set_baud_effect:
  assumes "rx m = map Some (le_bytes v) @ Some p # cs"
  shows "\<exists>m'. mode_set_baud m = Inr m' \<and>
     (if 9600 \<le> unat v \<and> unat v \<le> 2000000
      then baud_rate m' = unat v \<and> rx m' = cs \<and> tx m' = tx m @ map of_char (''BAUD_SWITCH'' @ lf @ ''BAUD_OK'' @ lf)
      else baud_rate m' = baud_rate m \<and> rx m' = Some p # cs \<and> tx m' = tx m @ map of_char (''BAUD_BAD'' @ lf))"
  using recv_u32_exact [OF assms]
  by (auto simp: mode_set_baud_def Let_def puts_def raw_recv_def word_less_nat_alt word_le_nat_alt not_less)

theorem mode_set_baud_effect_witness:
  "\<exists>m'. mode_set_baud (silent\<lparr>rx := map Some (le_bytes 921600) @ Some 0x50 # []\<rparr>) = Inr m' \<and>
     (if 9600 \<le> unat (921600 :: u32) \<and> unat (921600 :: u32) \<le> 2000000
      then baud_rate m' = unat (921600 :: u32) \<and> rx m' = [] \<and>
        tx m' = tx (silent\<lparr>rx := map Some (le_bytes 921600) @ Some 0x50 # []\<rparr>) @
          map of_char (''BAUD_SWITCH'' @ lf @ ''BAUD_OK'' @ lf)
      else baud_rate m' = baud_rate (silent\<lparr>rx := map Some (le_bytes 921600) @ Some 0x50 # []\<rparr>) \<and>
        rx m' = Some 0x50 # [] \<and>
        tx m' = tx (silent\<lparr>rx := map Some (le_bytes 921600) @ Some 0x50 # []\<rparr>) @ map of_char (''BAUD_BAD'' @ lf))"
  by (rule mode_set_baud_effect) simp

end
