(* ===== verification/Bitstream_Base.thy ===== *)
theory Bitstream_Base
  imports Prelude
begin

unbundle bit_operations_syntax

section \<open>The base class of the file parsers (\<open>configBitstreamParser.cpp\<close>)\<close>

text \<open>
  Opening a file, the header, reversal of bits, and what the parsers use of \<open>std::string\<close> and of
  \<open>std::getline\<close>.  Raw data is a list of characters, as in the source; the file system, the
  standard input and the decompression by zlib are parameters.
\<close>

subsection \<open>Strings\<close>

text \<open>The lines \<open>std::getline\<close> delivers: an unfinished last line counts, an empty one does not.\<close>

function lines_of :: "char \<Rightarrow> string \<Rightarrow> string list" where
  "lines_of d s = (if s = [] then []
     else let l = takeWhile (\<lambda>c. c \<noteq> d) s in l # lines_of d (drop (length l + 1) s))"
  by pat_completeness auto
termination
  by (relation "measure (\<lambda>(d, s). length s)") auto

declare lines_of.simps [simp del]

text \<open>\<open>find(c, pos)\<close>, with -1 for \<open>npos\<close> as the sources convert it to \<open>int\<close>.\<close>

definition find_from :: "char \<Rightarrow> string \<Rightarrow> nat \<Rightarrow> int" where
  "find_from c s p = (let k = length (takeWhile (\<lambda>x. x \<noteq> c) (drop p s)) in
     if p + k < length s then int (p + k) else -1)"

text \<open>\<open>substr(p, n)\<close> throws beyond the end; a negative \<open>n\<close> is a huge \<open>size_t\<close>.\<close>

definition substr :: "string \<Rightarrow> int \<Rightarrow> int \<Rightarrow> string res" where
  "substr s p n =
     (if p < 0 \<or> nat p > length s then Inl Std_exception
      else let t = drop (nat p) s in Inr (if n < 0 then t else take (nat n) t))"

text \<open>\<open>s[i]\<close>: the terminating zero may be read.\<close>

definition char_at :: "string \<Rightarrow> nat \<Rightarrow> u8 res" where
  "char_at s i = (if i < length s then Inr (of_char (s ! i)) else if i = length s then Inr 0 else Inl Out_of_bounds)"

subsection \<open>The object\<close>

record cbp =
  cb_bit_length :: int
  cb_bit_data :: bytes
  cb_hdr :: "string \<rightharpoonup> string"

definition cbp0 :: cbp where
  "cbp0 = \<lparr>cb_bit_length = 0, cb_bit_data = [], cb_hdr = Map.empty\<rparr>"

definition getHeaderVal :: "cbp \<Rightarrow> string \<Rightarrow> string res" where
  "getHeaderVal p key = (case cb_hdr p key of
     None \<Rightarrow> Inl (Runtime_error (''Error key '' @ key @ '' not found'')) | Some v \<Rightarrow> Inr v)"

text \<open>
  The constructor: the content of the file, of the file without its extension if there is no
  such file, or of the standard input if it is not a terminal (\<open>None\<close> if it is).
\<close>

definition last_dot :: "string \<Rightarrow> nat option" where
  "last_dot s = (if CHR ''.'' \<in> set s
     then Some (length s - 1 - length (takeWhile (\<lambda>c. c \<noteq> CHR ''.'') (rev s))) else None)"

definition extension_of :: "string \<Rightarrow> string" where
  "extension_of s = (case last_dot s of None \<Rightarrow> s | Some k \<Rightarrow> drop (k + 1) s)"

definition cbp_open :: "(string \<rightharpoonup> string) \<Rightarrow> (string \<Rightarrow> string option) \<Rightarrow> string option \<Rightarrow> string \<Rightarrow> string res" where
  "cbp_open fs decompress stdin filename =
     (if filename \<noteq> [] then
        let offset = last_dot filename;
            (name, content) = (case fs filename of
               Some d \<Rightarrow> (filename, Some d)
             | None \<Rightarrow> (case offset of
                 None \<Rightarrow> (filename, None)
               | Some k \<Rightarrow> (take k filename, fs (take k filename))))
        in case content of
             None \<Rightarrow> Inl (Runtime_error (''Error: fail to open '' @ filename))
           | Some raw \<Rightarrow>
               if offset \<noteq> None \<and> extension_of name \<in> {''gz'', ''gzip''} then
                 (case decompress raw of
                    None \<Rightarrow> Inl (Runtime_error ''Error: decompress failed'')
                  | Some d \<Rightarrow> Inr d)
               else Inr raw
      else case stdin of
             Some d \<Rightarrow> Inr d
           | None \<Rightarrow> Inl (Runtime_error (''Error: fail to parse. No filename or pipe'' @ [CHR 0x0A])))"

subsection \<open>Reversal of bits\<close>

definition revertByteArr :: bytes where
  "revertByteArr =
    [0, 128, 64, 192, 32, 160, 96, 224, 16, 144, 80, 208, 48, 176, 112, 240,
     8, 136, 72, 200, 40, 168, 104, 232, 24, 152, 88, 216, 56, 184, 120, 248,
     4, 132, 68, 196, 36, 164, 100, 228, 20, 148, 84, 212, 52, 180, 116, 244,
     12, 140, 76, 204, 44, 172, 108, 236, 28, 156, 92, 220, 60, 188, 124, 252,
     2, 130, 66, 194, 34, 162, 98, 226, 18, 146, 82, 210, 50, 178, 114, 242,
     10, 138, 74, 202, 42, 170, 106, 234, 26, 154, 90, 218, 58, 186, 122, 250,
     6, 134, 70, 198, 38, 166, 102, 230, 22, 150, 86, 214, 54, 182, 118, 246,
     14, 142, 78, 206, 46, 174, 110, 238, 30, 158, 94, 222, 62, 190, 126, 254,
     1, 129, 65, 193, 33, 161, 97, 225, 17, 145, 81, 209, 49, 177, 113, 241,
     9, 137, 73, 201, 41, 169, 105, 233, 25, 153, 89, 217, 57, 185, 121, 249,
     5, 133, 69, 197, 37, 165, 101, 229, 21, 149, 85, 213, 53, 181, 117, 245,
     13, 141, 77, 205, 45, 173, 109, 237, 29, 157, 93, 221, 61, 189, 125, 253,
     3, 131, 67, 195, 35, 163, 99, 227, 19, 147, 83, 211, 51, 179, 115, 243,
     11, 139, 75, 203, 43, 171, 107, 235, 27, 155, 91, 219, 59, 187, 123, 251,
     7, 135, 71, 199, 39, 167, 103, 231, 23, 151, 87, 215, 55, 183, 119, 247,
     15, 143, 79, 207, 47, 175, 111, 239, 31, 159, 95, 223, 63, 191, 127, 255]"

definition reverseByte :: "u8 \<Rightarrow> u8" where
  "reverseByte src = revertByteArr ! unat src"

definition reverse_32 :: "u32 \<Rightarrow> u32" where
  "reverse_32 src =
     push_bit 24 (ucast (reverseByte (byte_of src 0))) OR push_bit 16 (ucast (reverseByte (byte_of src 1))) OR
     push_bit 8 (ucast (reverseByte (byte_of src 2))) OR ucast (reverseByte (byte_of src 3))"

text \<open>The loop that the source keeps as a reference for the table.\<close>

definition reverse_step :: "u8 \<times> u8 \<Rightarrow> u8 \<times> u8" where
  "reverse_step p = (case p of (dst, src) \<Rightarrow> (push_bit 1 dst OR (src AND 1), drop_bit 1 src))"

definition reverse_loop :: "u8 \<Rightarrow> u8" where
  "reverse_loop src = fst ((reverse_step ^^ 8) (0, src))"

lemma funpow_eight: "(f ^^ 8) x = f (f (f (f (f (f (f (f x)))))))"
  by (simp add: numeral_eq_Suc)

lemma reverse_table: "map reverse_loop (map of_nat [0..<256]) = revertByteArr"
  unfolding revertByteArr_def reverse_loop_def funpow_eight reverse_step_def by code_simp

lemma reverseByte_loop: "reverseByte b = reverse_loop b"
proof -
  have "unat b < 256" using unsigned_less [of b] by simp
  then have "map reverse_loop (map of_nat [0..<256]) ! unat b = reverse_loop b" by simp
  then show ?thesis unfolding reverse_table reverseByte_def .
qed

lemma reverse_steps:
  assumes "n \<le> 8"
  shows "snd ((reverse_step ^^ n) (0, src)) = drop_bit n src \<and>
     (\<forall>i. bit (fst ((reverse_step ^^ n) (0, src))) i \<longleftrightarrow> i < n \<and> bit src (n - 1 - i))"
  using assms
proof (induction n)
  case (Suc n)
  obtain dst rest where p: "(reverse_step ^^ n) (0, src) = (dst, rest)" by (cases "(reverse_step ^^ n) (0, src)")
  have IH: "rest = drop_bit n src" "\<And>i. bit dst i \<longleftrightarrow> i < n \<and> bit src (n - 1 - i)"
    using Suc.IH Suc.prems p by simp_all
  have step: "(reverse_step ^^ Suc n) (0, src) = (push_bit 1 dst OR (rest AND 1), drop_bit 1 rest)"
    using p by (simp add: reverse_step_def)
  have "bit (push_bit 1 dst OR (rest AND 1)) i \<longleftrightarrow> i < Suc n \<and> bit src (Suc n - 1 - i)" for i
  proof (cases i)
    case 0
    then show ?thesis by (simp only: bit_or_iff bit_push_bit_iff bit_and_iff bit_1_iff IH(1) bit_drop_bit_eq) simp
  next
    case (Suc j)
    then show ?thesis
      using Suc.prems IH(2) [of j] \<open>Suc n \<le> 8\<close>
      by (simp only: bit_or_iff bit_push_bit_iff bit_and_iff bit_1_iff) auto
  qed
  then show ?case unfolding step using IH(1) by simp
qed simp

lemma bit_reverse_loop: "i < 8 \<Longrightarrow> bit (reverse_loop b) i = bit b (7 - i)"
  using reverse_steps [of 8 b] by (simp add: reverse_loop_def)

lemma bit_reverseByte: "bit (reverseByte b) i \<longleftrightarrow> i < 8 \<and> bit b (7 - i)"
  by (cases "i < 8") (auto simp: reverseByte_loop bit_reverse_loop dest: bit_imp_le_length)

lemma reverseByte_involution [simp]: "reverseByte (reverseByte b) = b"
  by (rule bit_word_eqI) (auto simp: bit_reverseByte)

lemma bit_reverse_32:
  assumes "i < 32"
  shows "bit (reverse_32 w) i \<longleftrightarrow> bit w (31 - i)"
proof -
  have "i < 8 \<or> 8 \<le> i \<and> i < 16 \<or> 16 \<le> i \<and> i < 24 \<or> 24 \<le> i \<and> i < 32" using assms by auto
  then show ?thesis
    by (elim disjE) (auto simp: reverse_32_def bit_or_iff bit_push_bit_iff bit_ucast_iff bit_reverseByte bit_byte_of)
qed

text \<open>
  The table of reversed bytes agrees with the loop that the source keeps beside it as a reference,
  and \<open>reverse_32\<close> built on it reverses all 32 bits of a word.
\<close>

theorem reverse_32_reverses:
  "reverseByte b = reverse_loop b \<and> (\<forall>i < 32. bit (reverse_32 w) i \<longleftrightarrow> bit w (31 - i))"
  using reverseByte_loop bit_reverse_32 by blast

theorem reverse_32_reverses_witness: "bit (reverse_32 0x80000000) 0 \<longleftrightarrow> bit (0x80000000 :: u32) (31 - 0)"
  using reverse_32_reverses [of 0 "0x80000000"] by simp

text \<open>What the flag \<open>reverseOrder\<close> of the parsers asks for.\<close>

definition mirror :: "bool \<Rightarrow> bytes \<Rightarrow> bytes" where
  "mirror rv data = (if rv then map reverseByte data else data)"

lemma length_mirror [simp]: "length (mirror rv xs) = length xs"
  by (simp add: mirror_def)

subsection \<open>\<open>RawParser\<close>\<close>

text \<open>\<open>rawParser.cpp\<close>: the file as it is, with the bits of each byte reversed on demand.\<close>

definition raw_parse :: "bool \<Rightarrow> string \<Rightarrow> cbp" where
  "raw_parse reverseOrder raw =
     (let data = mirror reverseOrder (map of_char raw)
      in cbp0\<lparr>cb_bit_data := data, cb_bit_length := 8 * int (length data)\<rparr>)"

end
