(* ===== verification/Hex_Files.thy ===== *)
theory Hex_Files
  imports Bitstream_Base Spi_Flash_Ops
begin

unbundle bit_operations_syntax

section \<open>Intel HEX files: \<open>McsParser\<close> and \<open>IhexParser\<close>\<close>

text \<open>
  The two parsers of \<open>mcsParser.cpp\<close> and \<open>ihexParser.cpp\<close>, with what they use of \<open>sscanf\<close>, and a
  printer of records after the format's specification.  Reading an index beyond the
  terminating zero of a line, and using a variable that a failed \<open>sscanf\<close> has left without a
  value, are outcomes of their own.
\<close>

subsection \<open>\<open>sscanf\<close> with \<open>%nx\<close>\<close>

definition hex_val :: "char \<Rightarrow> nat option" where
  "hex_val c = (let n = of_char c :: nat in
     if 48 \<le> n \<and> n \<le> 57 then Some (n - 48)
     else if 65 \<le> n \<and> n \<le> 70 then Some (n - 55)
     else if 97 \<le> n \<and> n \<le> 102 then Some (n - 87) else None)"

definition is_space :: "char \<Rightarrow> bool" where
  "is_space c \<longleftrightarrow> (of_char c :: nat) \<in> {9, 10, 11, 12, 13, 32}"

fun hex_digits :: "string \<Rightarrow> nat list" where
  "hex_digits [] = []"
| "hex_digits (c # cs) = (case hex_val c of None \<Rightarrow> [] | Some v \<Rightarrow> v # hex_digits cs)"

definition hex_number :: "nat list \<Rightarrow> int" where
  "hex_number ds = foldl (\<lambda>a d. 16 * a + int d) 0 ds"

text \<open>White space is skipped; sign and prefix count for the width; \<open>None\<close> is a matching failure.\<close>

definition scan_hex :: "nat \<Rightarrow> string \<Rightarrow> int option" where
  "scan_hex width s =
     (let t = take width (dropWhile is_space s);
          (sgn, t) = (case t of
             c # cs \<Rightarrow> if c = CHR ''-'' then (-1, cs) else if c = CHR ''+'' then (1, cs) else (1, t)
           | [] \<Rightarrow> (1, t));
          t = (case t of
             a # b # cs \<Rightarrow> if a = CHR ''0'' \<and> b \<in> {CHR ''x'', CHR ''X''} then cs else t
           | _ \<Rightarrow> t);
          ds = hex_digits t
      in if ds = [] then None else Some (sgn * hex_number ds))"

text \<open>\<open>sscanf(&str[i], ...)\<close> into a variable without a value.\<close>

definition scan_at :: "nat \<Rightarrow> string \<Rightarrow> nat \<Rightarrow> int res" where
  "scan_at width s i =
     (if i > length s then Inl Out_of_bounds
      else case scan_hex width (drop i s) of None \<Rightarrow> Inl Undefined | Some v \<Rightarrow> Inr v)"

text \<open>The data bytes of a line; a failed conversion keeps the byte before, if there is one.\<close>

fun scan_bytes :: "nat \<Rightarrow> string \<Rightarrow> u8 option \<Rightarrow> bytes res" where
  "scan_bytes 0 s prev = Inr []"
| "scan_bytes (Suc n) s prev =
     (case (case scan_hex 2 s of None \<Rightarrow> prev | Some v \<Rightarrow> Some (of_int v)) of
        None \<Rightarrow> Inl Undefined
      | Some b \<Rightarrow> bindE (scan_bytes n (drop 2 s) (Some b)) (\<lambda>bs. Inr (b # bs)))"

definition drop_cr :: "string \<Rightarrow> string res" where
  "drop_cr s = (if s = [] then Inl Out_of_bounds else Inr (if last s = CHR 0x0D then butlast s else s))"

abbreviation LEN_BASE :: nat where "LEN_BASE \<equiv> 1"
abbreviation ADDR_BASE :: nat where "ADDR_BASE \<equiv> 3"
abbreviation TYPE_BASE :: nat where "TYPE_BASE \<equiv> 7"
abbreviation DATA_BASE :: nat where "DATA_BASE \<equiv> 9"

subsection \<open>\<open>McsParser\<close>\<close>

record mcs =
  mc_base_addr :: u32
  mc_records :: "FlashDataSection list"

text \<open>A data line: a new section at the first line and at a jump of the address.\<close>

definition mcs_data :: "bool \<Rightarrow> u32 \<Rightarrow> bytes \<Rightarrow> mcs \<Rightarrow> mcs" where
  "mcs_data reverseOrder loc_addr data m =
     (let rs = mc_records m;
          rs = (if rs = [] \<or> (sec_record (last rs) \<noteq> [] \<and> getCurrentAddr (last rs) \<noteq> loc_addr)
                then rs @ [sec_new loc_addr] else rs);
          data = (if reverseOrder then map reverseByte data else data)
      in m\<lparr>mc_records := butlast rs @ [sec_append (last rs) data]\<rparr>)"

datatype line_result = Fail | Next mcs bool

text \<open>One line; \<open>Next m stop\<close> goes on to the next one unless \<open>stop\<close>.\<close>

definition mcs_line :: "bool \<Rightarrow> string \<Rightarrow> mcs \<Rightarrow> line_result res" where
  "mcs_line reverseOrder str m =
     bindE (drop_cr str) (\<lambda>str.
     bindE (char_at str 0) (\<lambda>c0.
     if c0 \<noteq> of_char CHR '':'' then Inr Fail
     else
     bindE (scan_at 2 str LEN_BASE) (\<lambda>v. let byteLen = of_int v :: u8 in
     bindE (scan_at 4 str ADDR_BASE) (\<lambda>v. let addr = of_int v :: u16 in
     bindE (scan_at 2 str TYPE_BASE) (\<lambda>v. let type = of_int v :: u8 in
     bindE (scan_at 2 str (DATA_BASE + unat byteLen * 2)) (\<lambda>v. let checksum = of_int v :: u8;
         sum = byteLen + type + byte_of addr 0 + byte_of addr 1 in
     bindE (if type = 0 then
              bindE (scan_bytes (unat byteLen) (drop DATA_BASE str) None) (\<lambda>data.
                Inr (Some (mcs_data reverseOrder (mc_base_addr m + ucast addr) data m, sum + sum_list data, False)))
            else if type = 1 then Inr (Some (m, sum, True))
            else if type = 4 then
              bindE (scan_at 4 str DATA_BASE) (\<lambda>v. let loc_addr = of_int v :: u32 in
                Inr (Some (m\<lparr>mc_base_addr := push_bit 16 loc_addr\<rparr>,
                           sum + byte_of loc_addr 0 + byte_of loc_addr 1, False)))
            else Inr None) (\<lambda>r.
       case r of
         None \<Rightarrow> Inr Fail
       | Some (m, sum, stop) \<Rightarrow> Inr (if checksum \<noteq> - sum then Fail else Next m stop))))))))"

text \<open>\<open>None\<close> is the return with \<open>EXIT_FAILURE\<close>.\<close>

fun mcs_lines :: "bool \<Rightarrow> string list \<Rightarrow> mcs \<Rightarrow> mcs option res" where
  "mcs_lines rv [] m = Inr (Some m)"
| "mcs_lines rv (l # ls) m =
     bindE (mcs_line rv l m) (\<lambda>r. case r of
        Fail \<Rightarrow> Inr None
      | Next m stop \<Rightarrow> if stop then Inr (Some m) else mcs_lines rv ls m)"

text \<open>The flat image: as long as the last section reaches, blank between the sections.\<close>

fun place_sections :: "FlashDataSection list \<Rightarrow> bytes \<Rightarrow> bytes res" where
  "place_sections [] img = Inr img"
| "place_sections (s # ss) img =
     (if unat (start_addr s) + length (sec_record s) > length img then Inl Out_of_bounds
      else place_sections ss (take (unat (start_addr s)) img @ sec_record s @
             drop (unat (start_addr s) + length (sec_record s)) img))"

definition mcs_parse :: "bool \<Rightarrow> string \<Rightarrow> (mcs \<times> cbp) option res" where
  "mcs_parse reverseOrder raw =
     bindE (mcs_lines reverseOrder (lines_of CHR 0x0A raw) \<lparr>mc_base_addr = 0, mc_records = []\<rparr>) (\<lambda>r.
       case r of
         None \<Rightarrow> Inr None
       | Some m \<Rightarrow>
           if mc_records m = [] then Inl Std_exception
           else
             let flash_size = getCurrentAddr (last (mc_records m)) in
             bindE (place_sections (mc_records m) (replicate (unat flash_size) 0xff)) (\<lambda>img.
               Inr (Some (m, cbp0\<lparr>cb_bit_data := img, cb_bit_length := sint (flash_size * 8)\<rparr>))))"

subsection \<open>\<open>IhexParser\<close>\<close>

text \<open>\<open>data_line_t\<close>: address and length have 16 bits.\<close>

record data_line_t =
  dl_addr :: u16
  dl_length :: u16
  dl_data :: bytes

record ihex =
  ih_base_addr :: u32
  ih_next_addr :: u16
  ih_is_first :: bool
  ih_cnt :: data_line_t
  ih_array :: "data_line_t list"
  ih_bit_data :: bytes
  ih_bit_length :: int

datatype ihex_result = IFail | IDone ihex | INext ihex

text \<open>
  The flat copy grows to twice the size it needs, filled with zeros; all sizes are 32-bit values,
  so the doubled size may wrap around and the store then miss the vector.
\<close>

definition resize :: "nat \<Rightarrow> bytes \<Rightarrow> bytes" where
  "resize n xs = take n xs @ replicate (n - length xs) 0"

definition ihex_store :: "u32 \<Rightarrow> bytes \<Rightarrow> bytes \<Rightarrow> bytes res" where
  "ihex_store loc_addr data img =
     (let need = loc_addr + of_nat (length data);
          img = (if length img < unat need then resize (unat (2 * need)) img else img);
          loc = unat loc_addr
      in if data \<noteq> [] \<and> loc + length data > length img then Inl Out_of_bounds
         else Inr (if data = [] then img else take loc img @ data @ drop (loc + length data) img))"

definition ihex_data :: "bool \<Rightarrow> u32 \<Rightarrow> bytes \<Rightarrow> ihex \<Rightarrow> ihex res" where
  "ihex_data reverseOrder addr data h =
     (let loc_addr = ih_base_addr h + addr;
          h = (if ucast (ih_next_addr h) \<noteq> addr \<or> ih_is_first h then
                 h\<lparr>ih_array := (if ih_is_first h then ih_array h else ih_array h @ [ih_cnt h]),
                   ih_cnt := \<lparr>dl_addr = ucast loc_addr, dl_length = 0, dl_data = []\<rparr>, ih_is_first := False\<rparr>
               else h);
          data' = (if reverseOrder then map reverseByte data else data);
          c = ih_cnt h
      in bindE (ihex_store loc_addr data' (ih_bit_data h)) (\<lambda>img.
           Inr (h\<lparr>ih_bit_data := img,
             ih_cnt := c\<lparr>dl_length := dl_length c + of_nat (length data), dl_data := dl_data c @ data'\<rparr>,
             ih_next_addr := ucast addr + of_nat (length data),
             ih_bit_length := ih_bit_length h + 8 * int (length data)\<rparr>)))"

definition ihex_line :: "bool \<Rightarrow> string \<Rightarrow> ihex \<Rightarrow> ihex_result res" where
  "ihex_line reverseOrder str h =
     bindE (drop_cr str) (\<lambda>str.
     bindE (char_at str 0) (\<lambda>c0.
     if c0 = of_char CHR ''#'' then Inr (INext h)
     else if c0 \<noteq> of_char CHR '':'' then Inr IFail
     else
     bindE (scan_at 2 str LEN_BASE) (\<lambda>v. let byteLen = of_int v :: u16 in
     bindE (scan_at 4 str ADDR_BASE) (\<lambda>v. let addr = of_int v :: u32 in
     bindE (scan_at 2 str TYPE_BASE) (\<lambda>v. let type = of_int v :: u16 in
     bindE (scan_at 2 str (DATA_BASE + unat byteLen * 2)) (\<lambda>v. let checksum = of_int v :: u16;
         sum = byte_of byteLen 0 + byte_of type 0 + byte_of addr 0 + byte_of addr 1 in
     if type = 1 then
       Inr (IDone (if dl_length (ih_cnt h) \<noteq> 0 then h\<lparr>ih_array := ih_array h @ [ih_cnt h]\<rparr> else h))
     else
     bindE (if type = 0 then
              bindE (scan_bytes (unat byteLen) (drop DATA_BASE str) None) (\<lambda>data.
              bindE (ihex_data reverseOrder addr data h) (\<lambda>h. Inr (Some (h, sum + sum_list data))))
            else if type = 4 then
              if addr \<noteq> 0 \<or> byteLen \<noteq> 2 then Inr None
              else bindE (scan_at 4 str DATA_BASE) (\<lambda>v. let tmp = of_int v :: u16 in
                Inr (Some (h\<lparr>ih_base_addr := push_bit 16 (ucast tmp)\<rparr>, sum + byte_of tmp 0 + byte_of tmp 1)))
            else if type = 5 then
              if addr \<noteq> 0 \<or> byteLen \<noteq> 4 then Inr None
              else bindE (scan_at 4 str DATA_BASE) (\<lambda>v. let a = of_int v :: u32 in
                Inr (Some (h\<lparr>ih_base_addr := a\<rparr>, sum + byte_of a 0 + byte_of a 1 + byte_of a 2 + byte_of a 3)))
            else Inr None) (\<lambda>r.
       case r of
         None \<Rightarrow> Inr IFail
       | Some (h, sum) \<Rightarrow> Inr (if checksum \<noteq> ucast (- sum) then IFail else INext h))))))))"

fun ihex_lines :: "bool \<Rightarrow> string list \<Rightarrow> ihex \<Rightarrow> ihex option res" where
  "ihex_lines rv [] h = Inr (Some h)"
| "ihex_lines rv (l # ls) h =
     bindE (ihex_line rv l h) (\<lambda>r. case r of
        IFail \<Rightarrow> Inr None
      | IDone h \<Rightarrow> Inr (Some h)
      | INext h \<Rightarrow> ihex_lines rv ls h)"

definition ihex0 :: ihex where
  "ihex0 = \<lparr>ih_base_addr = 0, ih_next_addr = 0, ih_is_first = True,
     ih_cnt = \<lparr>dl_addr = 0, dl_length = 0, dl_data = []\<rparr>, ih_array = [], ih_bit_data = [], ih_bit_length = 0\<rparr>"

definition ihex_parse :: "bool \<Rightarrow> string \<Rightarrow> ihex option res" where
  "ihex_parse reverseOrder raw = ihex_lines reverseOrder (lines_of CHR 0x0A raw) ihex0"

subsection \<open>Printing records\<close>

definition hex_char :: "nat \<Rightarrow> char" where
  "hex_char n = ''0123456789ABCDEF'' ! n"

definition hex2 :: "u8 \<Rightarrow> string" where
  "hex2 b = map hex_char [unat b div 16, unat b mod 16]"

definition hex4 :: "u16 \<Rightarrow> string" where
  "hex4 w = hex2 (byte_of w 1) @ hex2 (byte_of w 0)"

definition hex_record :: "u16 \<Rightarrow> u8 \<Rightarrow> bytes \<Rightarrow> string" where
  "hex_record addr type data = CHR '':'' # hex2 (of_nat (length data)) @ hex4 addr @ hex2 type @
     concat (map hex2 data) @
     hex2 (- (of_nat (length data) + type + byte_of addr 0 + byte_of addr 1 + sum_list data))"

lemma upt_16: "[0..<16] = [0, 1, 2, 3, 4, 5, 6, 7, 8, 9, 10, 11, 12, 13, 14, 15]"
  by code_simp

lemma all_below_16: "(\<forall>n < 16. P n) \<longleftrightarrow> list_all P [0, 1, 2, 3, 4, 5, 6, 7, 8, 9, 10, 11, 12, 13, 14, 15 :: nat]"
  unfolding upt_16 [symmetric] by (auto simp: list_all_iff)

lemma hex_char_scan:
  assumes "n < 16"
  shows "hex_val (hex_char n) = Some n" "\<not> is_space (hex_char n)"
    "hex_char n \<notin> {CHR ''-'', CHR ''+'', CHR ''x'', CHR ''X'', CHR 0x0A, CHR 0x0D}"
proof -
  have "\<forall>n < 16. hex_val (hex_char n) = Some n \<and> \<not> is_space (hex_char n) \<and>
      hex_char n \<notin> {CHR ''-'', CHR ''+'', CHR ''x'', CHR ''X'', CHR 0x0A, CHR 0x0D}"
    unfolding all_below_16 by (simp add: hex_char_def hex_val_def is_space_def)
  then show "hex_val (hex_char n) = Some n" "\<not> is_space (hex_char n)"
    "hex_char n \<notin> {CHR ''-'', CHR ''+'', CHR ''x'', CHR ''X'', CHR 0x0A, CHR 0x0D}" using assms by blast+
qed

lemma hex_digits_chars: "list_all (\<lambda>d. d < 16) ds \<Longrightarrow> hex_digits (map hex_char ds) = ds"
  by (induction ds) (auto simp: hex_char_scan)

lemma scan_hex_chars:
  assumes "list_all (\<lambda>d. d < 16) ds" "ds \<noteq> []"
  shows "scan_hex (length ds) (map hex_char ds @ rest) = Some (hex_number ds)"
proof -
  obtain d es where ds: "ds = d # es" using assms(2) by (cases ds) auto
  have d: "d < 16" using assms(1) ds by simp
  note c = hex_char_scan [OF d]
  have t: "take (length ds) (dropWhile is_space (map hex_char ds @ rest)) = map hex_char ds"
    using ds c(2) by simp
  have p: "(case map hex_char ds of a # b # cs \<Rightarrow> if a = CHR ''0'' \<and> b \<in> {CHR ''x'', CHR ''X''} then cs else map hex_char ds
      | _ \<Rightarrow> map hex_char ds) = map hex_char ds"
  proof (cases es)
    case Nil
    then show ?thesis using ds by simp
  next
    case (Cons e fs)
    then show ?thesis using ds assms(1) hex_char_scan(3) [of e] by simp
  qed
  have q: "(case map hex_char ds of c # cs \<Rightarrow> if c = CHR ''-'' then (- 1, cs) else if c = CHR ''+'' then (1, cs) else (1, map hex_char ds)
      | [] \<Rightarrow> (1, map hex_char ds)) = (1 :: int, map hex_char ds)" using ds c(3) by simp
  show ?thesis
    unfolding scan_hex_def t Let_def q prod.case p using hex_digits_chars [OF assms(1)] assms(2) by simp
qed

lemma scan_hex2: "scan_hex 2 (hex2 b @ rest) = Some (uint b)"
proof -
  have "unat b < 256" using unsigned_less [of b] by simp
  then have "list_all (\<lambda>d. d < 16) [unat b div 16, unat b mod 16]" by auto
  from scan_hex_chars [OF this] have "scan_hex 2 (hex2 b @ rest) = Some (16 * int (unat b div 16) + int (unat b mod 16))"
    by (simp add: hex2_def hex_number_def numeral_2_eq_2)
  moreover have "16 * int (unat b div 16) + int (unat b mod 16) = int (unat b)"
    by (metis mult_div_mod_eq of_nat_add of_nat_mult of_nat_numeral)
  ultimately show ?thesis by simp
qed

lemma unat_byte_of_16: "unat (byte_of (w :: u16) 1) = unat w div 256" "unat (byte_of (w :: u16) 0) = unat w mod 256"
proof -
  have "unat w < 65536" using unsigned_less [of w] by simp
  then show "unat (byte_of w 1) = unat w div 256" "unat (byte_of w 0) = unat w mod 256"
    by (simp_all add: byte_of_def unsigned_ucast_eq drop_bit_eq_div unat_div take_bit_eq_mod)
qed

lemma scan_hex4: "scan_hex 4 (hex4 w @ rest) = Some (uint w)"
proof -
  let ?h = "unat (byte_of w 1)" let ?l = "unat (byte_of w 0)"
  let ?ds = "[?h div 16, ?h mod 16, ?l div 16, ?l mod 16]"
  have "?h < 256" "?l < 256" using unsigned_less [of "byte_of w 1"] unsigned_less [of "byte_of w 0"] by simp_all
  then have "list_all (\<lambda>d. d < 16) ?ds" by auto
  from scan_hex_chars [OF this] have "scan_hex (length ?ds) (map hex_char ?ds @ rest) = Some (hex_number ?ds)" by blast
  moreover have "length ?ds = 4" "map hex_char ?ds = hex4 w" by (simp_all add: hex4_def hex2_def)
  moreover have "hex_number ?ds = int (256 * ?h + ?l)"
  proof -
    have n: "hex_number [a, b, c, d] = int (256 * (16 * a + b) + (16 * c + d))" for a b c d
      by (simp add: hex_number_def)
    show ?thesis unfolding n by simp
  qed
  moreover have "256 * ?h + ?l = unat w" unfolding unat_byte_of_16 by simp
  ultimately show ?thesis by (metis uint_nat)
qed

lemma length_hex [simp]: "length (hex2 b) = 2" "length (hex4 w) = 4"
  by (simp_all add: hex2_def hex4_def)

lemma length_hex_data [simp]: "length (concat (map hex2 bs)) = 2 * length bs"
  by (induction bs) simp_all

lemma hex2_chars: "c \<in> set (hex2 b) \<Longrightarrow> c \<noteq> CHR 0x0A \<and> c \<noteq> CHR 0x0D"
proof -
  assume "c \<in> set (hex2 b)"
  moreover have "unat b < 256" using unsigned_less [of b] by simp
  then have "unat b div 16 < 16" "unat b mod 16 < 16" by auto
  ultimately show ?thesis using hex_char_scan(3) [of "unat b div 16"] hex_char_scan(3) [of "unat b mod 16"]
    by (auto simp: hex2_def)
qed

lemma scan_bytes_data: "scan_bytes (length bs) (concat (map hex2 bs) @ rest) prev = Inr bs"
proof (induction bs arbitrary: prev)
  case (Cons b bs)
  have "drop 2 (hex2 b @ concat (map hex2 bs) @ rest) = concat (map hex2 bs) @ rest" by simp
  then show ?case using Cons.IH by (simp add: scan_hex2)
qed simp

text \<open>The fields of a printed record as the parsers read them.\<close>

lemma hex_record_fields:
  assumes "length data < 256"
  shows "drop_cr (hex_record addr type data) = Inr (hex_record addr type data)"
    "char_at (hex_record addr type data) 0 = Inr (of_char CHR '':'')"
    "scan_at 2 (hex_record addr type data) LEN_BASE = Inr (int (length data))"
    "scan_at 4 (hex_record addr type data) ADDR_BASE = Inr (uint addr)"
    "scan_at 2 (hex_record addr type data) TYPE_BASE = Inr (uint type)"
    "scan_at 2 (hex_record addr type data) (DATA_BASE + length data * 2) =
       Inr (uint (- (of_nat (length data) + type + byte_of addr 0 + byte_of addr 1 + sum_list data)))"
    "scan_bytes (length data) (drop DATA_BASE (hex_record addr type data)) None = Inr data"
    "CHR 0x0A \<notin> set (hex_record addr type data)"
proof -
  let ?cs = "- (of_nat (length data) + type + byte_of addr 0 + byte_of addr 1 + sum_list data)"
  let ?r = "hex_record addr type data"
  have rlen: "length ?r = 11 + 2 * length data" by (simp add: hex_record_def)
  have "last ?r = last (hex2 ?cs)" by (simp add: hex_record_def hex2_def)
  moreover have "last (hex2 ?cs) \<in> set (hex2 ?cs)" by (intro last_in_set) (simp add: hex2_def)
  ultimately show "drop_cr ?r = Inr ?r" using hex2_chars [of "last ?r" ?cs] rlen by (auto simp: drop_cr_def)
  show "char_at ?r 0 = Inr (of_char CHR '':'')" by (simp add: char_at_def hex_record_def)
  have d1: "drop 1 ?r = hex2 (of_nat (length data)) @ hex4 addr @ hex2 type @ concat (map hex2 data) @ hex2 ?cs"
    by (simp add: hex_record_def)
  have d3: "drop 3 ?r = hex4 addr @ hex2 type @ concat (map hex2 data) @ hex2 ?cs"
    using arg_cong [OF d1, of "drop 2"] by simp
  have d7: "drop 7 ?r = hex2 type @ concat (map hex2 data) @ hex2 ?cs"
    using arg_cong [OF d3, of "drop 4"] by simp
  have d9: "drop 9 ?r = concat (map hex2 data) @ hex2 ?cs"
    using arg_cong [OF d7, of "drop 2"] by simp
  have de: "drop (9 + length data * 2) ?r = hex2 ?cs @ []"
    using arg_cong [OF d9, of "drop (2 * length data)"] by (simp add: mult.commute add.commute)
  have "uint (of_nat (length data) :: u8) = int (length data)"
    using assms by (simp add: uint_nat unat_of_nat)
  then show "scan_at 2 ?r LEN_BASE = Inr (int (length data))"
    unfolding scan_at_def d1 scan_hex2 using rlen by simp
  show "scan_at 4 ?r ADDR_BASE = Inr (uint addr)" unfolding scan_at_def d3 scan_hex4 using rlen by simp
  show "scan_at 2 ?r TYPE_BASE = Inr (uint type)" unfolding scan_at_def d7 scan_hex2 using rlen by simp
  show "scan_at 2 ?r (DATA_BASE + length data * 2) = Inr (uint ?cs)"
    unfolding scan_at_def de scan_hex2 using rlen by simp
  show "scan_bytes (length data) (drop DATA_BASE ?r) None = Inr data"
    unfolding d9 by (rule scan_bytes_data)
  show "CHR 0x0A \<notin> set ?r" using hex2_chars by (auto simp: hex_record_def hex4_def)
qed

subsection \<open>\<open>McsParser\<close> on printed records\<close>

lemma of_int_uint [simp]: "(of_int (uint (b :: 'a::len word)) :: 'a word) = b"
  by simp

lemma len_field:
  "length data < 256 \<Longrightarrow> unat (of_int (int (length data)) :: u8) = length data"
  "length data < 256 \<Longrightarrow> unat (of_int (int (length data)) :: u16) = length data"
  by (simp_all add: unat_of_nat)

lemma mcs_line_data:
  assumes "length data < 256"
  shows "mcs_line rv (hex_record a 0 data) m = Inr (Next (mcs_data rv (mc_base_addr m + ucast a) data m) False)"
  unfolding mcs_line_def hex_record_fields [OF assms] bindE.simps Let_def len_field [OF assms]
  by (simp add: add.assoc)

lemma mcs_line_eof: "mcs_line rv (hex_record 0 1 []) m = Inr (Next m True)"
proof -
  have l: "length ([] :: bytes) < 256" by simp
  show ?thesis unfolding mcs_line_def hex_record_fields [OF l] bindE.simps Let_def len_field [OF l] by simp
qed

lemma scan_ext:
  "scan_at 4 (hex_record a t (byte_of u 1 # byte_of u 0 # data)) DATA_BASE = Inr (uint (u :: u16))"
proof -
  let ?r = "hex_record a t (byte_of u 1 # byte_of u 0 # data)"
  have "drop 1 ?r = hex2 (of_nat (length data + 2)) @ hex4 a @ hex2 t @ hex4 u @ concat (map hex2 data) @
     hex2 (- (of_nat (length data + 2) + t + byte_of a 0 + byte_of a 1 + (byte_of u 1 + (byte_of u 0 + sum_list data))))"
    by (simp add: hex_record_def hex4_def)
  from arg_cong [OF this, of "drop 8"] have "drop 9 ?r = hex4 u @ concat (map hex2 data) @
     hex2 (- (of_nat (length data + 2) + t + byte_of a 0 + byte_of a 1 + (byte_of u 1 + (byte_of u 0 + sum_list data))))"
    by simp
  moreover have "length ?r = 15 + 2 * length data" by (simp add: hex_record_def)
  ultimately show ?thesis by (simp add: scan_at_def scan_hex4)
qed

lemma byte_of_ucast_16: "k < 2 \<Longrightarrow> byte_of (ucast (u :: u16) :: u32) k = byte_of u k"
  by (rule bit_word_eqI) (auto simp: bit_byte_of bit_ucast_iff)

lemma mcs_line_ext:
  "mcs_line rv (hex_record 0 4 [byte_of u 1, byte_of u 0]) m =
     Inr (Next (m\<lparr>mc_base_addr := push_bit 16 (ucast (u :: u16))\<rparr>) False)"
proof -
  have l: "length [byte_of u 1, byte_of u 0] < 256" by simp
  have u: "(of_int (uint u) :: u32) = ucast u" by simp
  show ?thesis
    unfolding mcs_line_def hex_record_fields [OF l] bindE.simps Let_def len_field [OF l] scan_ext u
    by (simp add: byte_of_ucast_16)
qed

text \<open>
  A section as a file carries it: its address and its pieces, each printed as an extended
  address record and a data record.
\<close>

definition piece_lines :: "u32 \<Rightarrow> bytes \<Rightarrow> string list" where
  "piece_lines a data =
     [hex_record 0 4 [byte_of (ucast (drop_bit 16 a) :: u16) 1, byte_of (ucast (drop_bit 16 a) :: u16) 0],
      hex_record (ucast a) 0 data]"

fun section_lines :: "u32 \<Rightarrow> bytes list \<Rightarrow> string list" where
  "section_lines a [] = []"
| "section_lines a (p # ps) = piece_lines a p @ section_lines (a + of_nat (length p)) ps"

definition pieces_ok :: "bytes list \<Rightarrow> bool" where
  "pieces_ok ps \<longleftrightarrow> ps \<noteq> [] \<and> list_all (\<lambda>p. p \<noteq> [] \<and> length p < 256) ps"

lemma addr_halves: "push_bit 16 (ucast (ucast (drop_bit 16 a) :: u16)) + ucast (ucast a :: u16) = (a :: u32)"
proof -
  let ?h = "push_bit 16 (ucast (ucast (drop_bit 16 a) :: u16)) :: u32"
  let ?l = "ucast (ucast a :: u16) :: u32"
  have "?h + ?l = ?h OR ?l" by (rule disjunctive_add) (auto simp: bit_push_bit_iff bit_ucast_iff)
  also have "\<dots> = a"
    by (rule bit_word_eqI) (auto simp: bit_or_iff bit_push_bit_iff bit_ucast_iff bit_drop_bit_eq)
  finally show ?thesis .
qed

lemma mcs_lines_piece:
  assumes "length p < 256"
  shows "\<exists>b. mcs_lines rv (piece_lines a p @ ls) m = mcs_lines rv ls ((mcs_data rv a p m)\<lparr>mc_base_addr := b\<rparr>)"
proof -
  let ?u = "ucast (drop_bit 16 a) :: u16"
  let ?b = "push_bit 16 (ucast ?u) :: u32"
  have "mcs_data rv a p (m\<lparr>mc_base_addr := ?b\<rparr>) = (mcs_data rv a p m)\<lparr>mc_base_addr := ?b\<rparr>"
    by (simp add: mcs_data_def Let_def)
  then show ?thesis
    using mcs_line_ext [of rv ?u m] mcs_line_data [OF assms, of rv "ucast a" "m\<lparr>mc_base_addr := ?b\<rparr>"] addr_halves [of a]
    by (auto simp: piece_lines_def)
qed

lemma mcs_data_new:
  assumes "mc_records m = [] \<or> sec_record (last (mc_records m)) \<noteq> [] \<and> getCurrentAddr (last (mc_records m)) \<noteq> a"
  shows "mcs_data rv a p m = m\<lparr>mc_records := mc_records m @ [\<lparr>start_addr = a, sec_record = mirror rv p\<rparr>]\<rparr>"
  using assms by (auto simp: mcs_data_def Let_def mirror_def sec_new_def sec_append_def)

lemma mcs_data_same:
  assumes "mc_records m = rs @ [s]" "getCurrentAddr s = a"
  shows "mcs_data rv a p m = m\<lparr>mc_records := rs @ [sec_append s (mirror rv p)]\<rparr>"
  using assms by (simp add: mcs_data_def Let_def mirror_def)

lemma mcs_lines_more:
  assumes "mc_records m = rs @ [s]" "getCurrentAddr s = a" "list_all (\<lambda>p. p \<noteq> [] \<and> length p < 256) ps"
  shows "\<exists>b. mcs_lines rv (section_lines a ps @ ls) m =
     mcs_lines rv ls (m\<lparr>mc_records := rs @ [sec_append s (mirror rv (concat ps))], mc_base_addr := b\<rparr>)"
  using assms
proof (induction ps arbitrary: a s m)
  case Nil
  then have "m\<lparr>mc_records := rs @ [sec_append s (mirror rv [])], mc_base_addr := mc_base_addr m\<rparr> = m"
    by (simp add: sec_append_def mirror_def)
  then show ?case by (metis append_Nil concat.simps(1) section_lines.simps(1))
next
  case (Cons p ps)
  let ?s = "sec_append s (mirror rv p)"
  obtain b where b: "mcs_lines rv (piece_lines a p @ section_lines (a + of_nat (length p)) ps @ ls) m =
      mcs_lines rv (section_lines (a + of_nat (length p)) ps @ ls) ((mcs_data rv a p m)\<lparr>mc_base_addr := b\<rparr>)"
    using mcs_lines_piece [of p] Cons.prems(3) by force
  let ?m = "m\<lparr>mc_records := rs @ [?s], mc_base_addr := b\<rparr>"
  have "(mcs_data rv a p m)\<lparr>mc_base_addr := b\<rparr> = ?m" using mcs_data_same [OF Cons.prems(1,2)] by simp
  moreover have "getCurrentAddr ?s = a + of_nat (length p)"
    using Cons.prems(2) by (auto simp: getCurrentAddr_def sec_append_def mirror_def)
  then obtain b' where "mcs_lines rv (section_lines (a + of_nat (length p)) ps @ ls) ?m =
      mcs_lines rv ls (?m\<lparr>mc_records := rs @ [sec_append ?s (mirror rv (concat ps))], mc_base_addr := b'\<rparr>)"
    using Cons.IH [of ?m ?s "a + of_nat (length p)"] Cons.prems(3) by auto
  moreover have "sec_append ?s (mirror rv (concat ps)) = sec_append s (mirror rv (concat (p # ps)))"
    by (simp add: sec_append_def mirror_def)
  ultimately show ?case using b by auto
qed

lemma mcs_lines_section:
  assumes "mc_records m = [] \<or> sec_record (last (mc_records m)) \<noteq> [] \<and> getCurrentAddr (last (mc_records m)) \<noteq> a"
    and "pieces_ok ps"
  shows "\<exists>b. mcs_lines rv (section_lines a ps @ ls) m = mcs_lines rv ls
     (m\<lparr>mc_records := mc_records m @ [\<lparr>start_addr = a, sec_record = mirror rv (concat ps)\<rparr>], mc_base_addr := b\<rparr>)"
proof -
  obtain p qs where ps: "ps = p # qs" using assms(2) by (cases ps) (auto simp: pieces_ok_def)
  have ok: "length p < 256" "list_all (\<lambda>p. p \<noteq> [] \<and> length p < 256) qs" using assms(2) ps by (auto simp: pieces_ok_def)
  let ?s = "\<lparr>start_addr = a, sec_record = mirror rv p\<rparr>"
  obtain b where b: "mcs_lines rv (piece_lines a p @ section_lines (a + of_nat (length p)) qs @ ls) m =
      mcs_lines rv (section_lines (a + of_nat (length p)) qs @ ls) ((mcs_data rv a p m)\<lparr>mc_base_addr := b\<rparr>)"
    using mcs_lines_piece [OF ok(1)] by blast
  let ?m = "m\<lparr>mc_records := mc_records m @ [?s], mc_base_addr := b\<rparr>"
  have m: "(mcs_data rv a p m)\<lparr>mc_base_addr := b\<rparr> = ?m" using mcs_data_new [OF assms(1)] by simp
  have "getCurrentAddr ?s = a + of_nat (length p)" by (simp add: getCurrentAddr_def mirror_def)
  then obtain b' where "mcs_lines rv (section_lines (a + of_nat (length p)) qs @ ls) ?m =
      mcs_lines rv ls (?m\<lparr>mc_records := mc_records m @ [sec_append ?s (mirror rv (concat qs))], mc_base_addr := b'\<rparr>)"
    using mcs_lines_more [of ?m "mc_records m" ?s "a + of_nat (length p)" qs rv ls] ok(2) by auto
  moreover have "sec_append ?s (mirror rv (concat qs)) = \<lparr>start_addr = a, sec_record = mirror rv (concat ps)\<rparr>"
    by (simp add: sec_append_def mirror_def ps)
  ultimately show ?thesis using b m ps by auto
qed

text \<open>Sections in ascending order with a gap between any two, and the file and the image of them.\<close>

type_synonym pieces = "u32 \<times> bytes list"

definition sec_end :: "pieces \<Rightarrow> nat" where
  "sec_end s = unat (fst s) + length (concat (snd s))"

fun ascending :: "nat \<Rightarrow> pieces list \<Rightarrow> bool" where
  "ascending e [] \<longleftrightarrow> True"
| "ascending e (s # ss) \<longleftrightarrow> e \<le> unat (fst s) \<and> pieces_ok (snd s) \<and> sec_end s < 2 ^ 32 \<and> ascending (sec_end s + 1) ss"

definition sec_of :: "bool \<Rightarrow> pieces \<Rightarrow> FlashDataSection" where
  "sec_of rv s = \<lparr>start_addr = fst s, sec_record = mirror rv (concat (snd s))\<rparr>"

definition mcs_file_lines :: "pieces list \<Rightarrow> string list" where
  "mcs_file_lines ss = concat (map (\<lambda>s. section_lines (fst s) (snd s)) ss) @ [hex_record 0 1 []]"

definition text_file :: "string list \<Rightarrow> string" where
  "text_file ls = concat (map (\<lambda>l. l @ [CHR 0x0A]) ls)"

fun flat_image :: "bool \<Rightarrow> nat \<Rightarrow> pieces list \<Rightarrow> bytes" where
  "flat_image rv e [] = []"
| "flat_image rv e (s # ss) = replicate (unat (fst s) - e) 0xff @ mirror rv (concat (snd s)) @ flat_image rv (sec_end s) ss"

lemma sec_of_end:
  assumes "sec_end s < 2 ^ 32"
  shows "unat (getCurrentAddr (sec_of rv s)) = sec_end s"
  using assms by (simp add: getCurrentAddr_def sec_of_def sec_end_def unat_word_ariths unat_of_nat)

lemma mcs_lines_sections:
  assumes "ascending e ss"
    and "mc_records m = [] \<or> sec_record (last (mc_records m)) \<noteq> [] \<and> unat (getCurrentAddr (last (mc_records m))) < e"
  shows "\<exists>b. mcs_lines rv (mcs_file_lines ss) m = Inr (Some (m\<lparr>mc_records := mc_records m @ map (sec_of rv) ss, mc_base_addr := b\<rparr>))"
  using assms
proof (induction ss arbitrary: e m)
  case Nil
  have "m\<lparr>mc_records := mc_records m @ [], mc_base_addr := mc_base_addr m\<rparr> = m" by simp
  then show ?case by (intro exI [of _ "mc_base_addr m"]) (simp add: mcs_file_lines_def mcs_line_eof)
next
  case (Cons s ss)
  have ok: "e \<le> unat (fst s)" "pieces_ok (snd s)" "sec_end s < 2 ^ 32" "ascending (sec_end s + 1) ss" using Cons.prems(1) by auto
  have new: "mc_records m = [] \<or> sec_record (last (mc_records m)) \<noteq> [] \<and> getCurrentAddr (last (mc_records m)) \<noteq> fst s"
    using Cons.prems(2) ok(1) by auto
  obtain b where b: "mcs_lines rv (section_lines (fst s) (snd s) @ mcs_file_lines ss) m =
      mcs_lines rv (mcs_file_lines ss) (m\<lparr>mc_records := mc_records m @ [sec_of rv s], mc_base_addr := b\<rparr>)"
    using mcs_lines_section [OF new ok(2), of rv "mcs_file_lines ss"] by (auto simp: sec_of_def)
  let ?m = "m\<lparr>mc_records := mc_records m @ [sec_of rv s], mc_base_addr := b\<rparr>"
  have ne: "concat (snd s) \<noteq> []" using ok(2) by (cases "snd s") (auto simp: pieces_ok_def)
  have "sec_record (sec_of rv s) \<noteq> []" using ne by (simp add: sec_of_def mirror_def)
  then obtain b' where "mcs_lines rv (mcs_file_lines ss) ?m =
      Inr (Some (?m\<lparr>mc_records := mc_records ?m @ map (sec_of rv) ss, mc_base_addr := b'\<rparr>))"
    using Cons.IH [OF ok(4), of ?m] sec_of_end [OF ok(3), of rv] by auto
  then show ?case using b by (auto simp: mcs_file_lines_def)
qed

lemma lines_of_text: "list_all (\<lambda>l. CHR 0x0A \<notin> set l) ls \<Longrightarrow> lines_of CHR 0x0A (text_file ls) = ls"
proof (induction ls)
  case (Cons l ls)
  have t: "takeWhile (\<lambda>c. c \<noteq> CHR 0x0A) (l @ CHR 0x0A # text_file ls) = l"
    using Cons.prems by (auto simp: takeWhile_append)
  have "text_file (l # ls) = l @ CHR 0x0A # text_file ls" by (simp add: text_file_def)
  then show ?case using t Cons by (subst lines_of.simps) simp
qed (simp add: text_file_def lines_of.simps)

lemma section_lines_newline:
  "list_all (\<lambda>p. p \<noteq> [] \<and> length p < 256) ps \<Longrightarrow> list_all (\<lambda>l. CHR 0x0A \<notin> set l) (section_lines a ps)"
  by (induction ps arbitrary: a) (simp_all add: piece_lines_def hex_record_fields(8))

lemma mcs_file_newline: "ascending e ss \<Longrightarrow> list_all (\<lambda>l. CHR 0x0A \<notin> set l) (mcs_file_lines ss)"
  by (induction e ss rule: ascending.induct)
    (auto simp: mcs_file_lines_def hex_record_fields(8) pieces_ok_def section_lines_newline)

lemma place_sections_flat:
  assumes "ascending e ss" "length pre \<le> e" "n = (if ss = [] then length pre else sec_end (last ss))"
  shows "place_sections (map (sec_of rv) ss) (pre @ replicate (n - length pre) 0xff) = Inr (pre @ flat_image rv (length pre) ss)"
  using assms
proof (induction ss arbitrary: e pre)
  case (Cons s ss)
  let ?a = "unat (fst s)" let ?d = "mirror rv (concat (snd s))"
  let ?pre = "pre @ replicate (?a - length pre) 0xff @ ?d"
  have ok: "length pre \<le> ?a" "ascending (sec_end s + 1) ss" using Cons.prems(1,2) by auto
  have len: "length ?pre = sec_end s" using ok(1) by (simp add: sec_end_def)
  have n: "n = (if ss = [] then length ?pre else sec_end (last ss))" using Cons.prems(3) len by simp
  have ge: "sec_end s \<le> n"
  proof (cases "ss = []")
    case False
    have "e' \<le> sec_end (last xs)" if "ascending e' xs" "xs \<noteq> []" for e' xs
      using that by (induction e' xs rule: ascending.induct) (auto simp: sec_end_def)
    from this [OF ok(2) False] show ?thesis using n False by simp
  qed (use n len in simp)
  have "place_sections (map (sec_of rv) (s # ss)) (pre @ replicate (n - length pre) 0xff) =
      place_sections (map (sec_of rv) ss) (?pre @ replicate (n - length ?pre) 0xff)"
    using ge ok(1) by (simp add: sec_of_def sec_end_def)
  also have "\<dots> = Inr (?pre @ flat_image rv (length ?pre) ss)"
    by (rule Cons.IH [OF ok(2) _ n]) (use len in simp)
  finally show ?case using len by simp
qed simp

lemma length_flat_image:
  assumes "ascending e ss" "ss \<noteq> []" "e' \<le> e"
  shows "e' + length (flat_image rv e' ss) = sec_end (last ss)"
  using assms
proof (induction ss arbitrary: e e')
  case (Cons s ss)
  have "e' + (unat (fst s) - e' + length (concat (snd s))) = sec_end s" using Cons.prems(1,3) by (simp add: sec_end_def)
  then show ?case using Cons.IH [of "sec_end s + 1" "sec_end s"] Cons.prems(1) by (cases "ss = []") auto
qed simp

text \<open>The 32-bit bit length is exact below 256 MB.\<close>

lemma signed_bits_small: "n < 2 ^ 28 \<Longrightarrow> signed_take_bit 31 (8 * int n) = 8 * int n"
  by (rule signed_take_bit_int_eq_self) auto

lemma sint_times8: "sint ((of_nat n :: u32) * 8) = signed_take_bit 31 (8 * int n)"
proof -
  have "(of_nat n :: u32) * 8 = of_int (8 * int n)" by simp
  then show ?thesis by (simp only: sint_sbintrunc') simp
qed

text \<open>
  C13: round trip of an MCS file.  Sections in ascending order with gaps between them, printed in any
  pieces of up to 255 bytes as Intel HEX records, are read back by \<open>McsParser::parse\<close> as
  exactly these sections, with the bits of each byte reversed on demand; the flat image
  holds them at their addresses with 0xff in between, up to the end of the last one, and the bit length is eight times that
  as a signed 32-bit number, which is the exact number of bits of the image when it is shorter than 2 to the power of 28 bytes.
\<close>

theorem mcs_roundtrip:
  assumes "ascending 0 ss" "ss \<noteq> []"
  shows "\<exists>m c. mcs_parse rv (text_file (mcs_file_lines ss)) = Inr (Some (m, c)) \<and>
     mc_records m = map (sec_of rv) ss \<and> cb_bit_data c = flat_image rv 0 ss \<and>
     length (cb_bit_data c) = sec_end (last ss) \<and>
     cb_bit_length c = signed_take_bit 31 (8 * int (sec_end (last ss))) \<and>
     (sec_end (last ss) < 2 ^ 28 \<longrightarrow> cb_bit_length c = 8 * int (length (cb_bit_data c)))"
proof -
  let ?m0 = "\<lparr>mc_base_addr = 0, mc_records = []\<rparr>"
  obtain b where b: "mcs_lines rv (mcs_file_lines ss) ?m0 = Inr (Some (?m0\<lparr>mc_records := map (sec_of rv) ss, mc_base_addr := b\<rparr>))"
    using mcs_lines_sections [OF assms(1), of ?m0 rv] by auto
  have "sec_end (last ss) < 2 ^ 32" if "ascending e xs" "xs \<noteq> []" "last xs = last ss" for e xs
    using that by (induction e xs rule: ascending.induct) (auto split: if_splits)
  then have u: "unat (getCurrentAddr (last (map (sec_of rv) ss))) = sec_end (last ss)"
    using assms by (simp add: last_map sec_of_end)
  then have c: "getCurrentAddr (last (map (sec_of rv) ss)) = of_nat (sec_end (last ss))"
    by (metis of_nat_unat ucast_id)
  have len: "length (flat_image rv 0 ss) = sec_end (last ss)" using length_flat_image [OF assms, of 0 rv] by simp
  let ?c = "cbp0\<lparr>cb_bit_data := flat_image rv 0 ss, cb_bit_length := sint ((of_nat (sec_end (last ss)) :: u32) * 8)\<rparr>"
  have "mcs_parse rv (text_file (mcs_file_lines ss)) =
      Inr (Some (?m0\<lparr>mc_records := map (sec_of rv) ss, mc_base_addr := b\<rparr>, ?c))"
    using b assms place_sections_flat [OF assms(1), of "[]" "sec_end (last ss)" rv] u c
    by (simp add: mcs_parse_def lines_of_text mcs_file_newline Let_def)
  then show ?thesis using len by (auto simp: sint_times8 signed_bits_small)
qed

theorem mcs_roundtrip_witness:
  "\<exists>m c. mcs_parse True (text_file (mcs_file_lines [(0xfffe, [[1, 2], [3]]), (0x20000, [[4]])])) = Inr (Some (m, c)) \<and>
     mc_records m = map (sec_of True) [(0xfffe, [[1, 2], [3]]), (0x20000, [[4]])] \<and>
     cb_bit_data c = flat_image True 0 [(0xfffe, [[1, 2], [3]]), (0x20000, [[4]])] \<and> cb_bit_length c = 8 * 0x20001"
  using mcs_roundtrip [of "[(0xfffe, [[1, 2], [3]]), (0x20000, [[4]])]" True]
  by (simp add: sec_end_def pieces_ok_def) blast

text \<open>
  Sections in descending order overrun the flat image.  The image has the size of the last
  section's end; a well-formed file whose first section ends beyond it makes
  \<open>McsParser::parse\<close> copy past the end of the vector.
\<close>

theorem mcs_descending_overrun:
  assumes "pieces_ok ps" "pieces_ok qs" "sec_end (a, ps) < 2 ^ 32" "sec_end (b, qs) < sec_end (a, ps)"
  shows "mcs_parse rv (text_file (mcs_file_lines [(a, ps), (b, qs)])) = Inl Out_of_bounds"
proof -
  let ?m0 = "\<lparr>mc_base_addr = 0, mc_records = []\<rparr>"
  let ?eof = "[hex_record 0 1 []]"
  let ?s = "sec_of rv (a, ps)" let ?t = "sec_of rv (b, qs)"
  obtain x where x: "mcs_lines rv (section_lines a ps @ section_lines b qs @ ?eof) ?m0 =
      mcs_lines rv (section_lines b qs @ ?eof) (?m0\<lparr>mc_records := [?s], mc_base_addr := x\<rparr>)"
    using mcs_lines_section [of ?m0 a ps rv "section_lines b qs @ ?eof"] assms(1) by (auto simp: sec_of_def)
  let ?m1 = "?m0\<lparr>mc_records := [?s], mc_base_addr := x\<rparr>"
  have ne: "concat ps \<noteq> []" "concat qs \<noteq> []" using assms(1,2) by (cases ps; cases qs; auto simp: pieces_ok_def)+
  have "getCurrentAddr ?s \<noteq> b"
    using sec_of_end [OF assms(3), of rv] assms(4) ne(2) by (auto simp: sec_end_def)
  then have new: "mc_records ?m1 = [] \<or> sec_record (last (mc_records ?m1)) \<noteq> [] \<and> getCurrentAddr (last (mc_records ?m1)) \<noteq> b"
    using ne(1) by (auto simp: sec_of_def mirror_def)
  obtain y where y: "mcs_lines rv (section_lines b qs @ ?eof) ?m1 = mcs_lines rv ?eof (?m1\<lparr>mc_records := [?s, ?t], mc_base_addr := y\<rparr>)"
    using mcs_lines_section [OF new assms(2), of rv ?eof] by (auto simp: sec_of_def)
  have nl: "list_all (\<lambda>l. CHR 0x0A \<notin> set l) (mcs_file_lines [(a, ps), (b, qs)])"
    using assms(1,2) section_lines_newline by (simp add: mcs_file_lines_def hex_record_fields(8) pieces_ok_def)
  have "sec_end (b, qs) < 2 ^ 32" using assms(3,4) by simp
  from sec_of_end [OF this, of rv] show ?thesis
    unfolding mcs_parse_def lines_of_text [OF nl]
    using x y assms(4) by (simp add: mcs_file_lines_def mcs_line_eof Let_def) (simp add: sec_of_def sec_end_def)
qed

theorem mcs_descending_overrun_witness:
  "mcs_parse False (text_file (mcs_file_lines [(0x20000, [[4]]), (0, [[1, 2], [3]])])) = Inl Out_of_bounds"
  by (rule mcs_descending_overrun) (simp_all add: pieces_ok_def sec_end_def)

text \<open>
  \<open>IhexParser\<close> refuses valid start address records.  It reads only four of the eight digits of the
  address, so a record whose two low bytes do not add up to zero is rejected for its
  checksum although the checksum is right.
\<close>

theorem ihex_start_address_refused:
  assumes "b1 + b0 \<noteq> (0 :: u8)"
  shows "ihex_line rv (hex_record 0 5 [b3, b2, b1, b0]) h = Inr IFail"
proof -
  define u where "u = (push_bit 8 (ucast b3) OR ucast b2 :: u16)"
  have u: "byte_of u 1 = b3" "byte_of u 0 = b2"
    unfolding u_def by (rule bit_word_eqI; auto simp: bit_byte_of bit_or_iff bit_push_bit_iff bit_ucast_iff dest: bit_imp_le_length)+
  have l: "length [b3, b2, b1, b0] < 256" by simp
  have sc: "scan_at 4 (hex_record 0 5 [b3, b2, b1, b0]) DATA_BASE = Inr (uint u)"
    using scan_ext [of 0 5 u "[b1, b0]"] u by simp
  have w: "(of_int (uint u) :: u32) = ucast u" by simp
  have hi: "byte_of (ucast u :: u32) 2 = 0" "byte_of (ucast u :: u32) 3 = 0"
    by (rule bit_word_eqI; auto simp: bit_byte_of bit_ucast_iff dest: bit_imp_le_length)+
  have lo: "byte_of (ucast u :: u32) 0 = b2" "byte_of (ucast u :: u32) 1 = b3" using byte_of_ucast_16 u by simp_all
  have neg: "(ucast (- x) :: u16) = ucast (- y) \<longleftrightarrow> x = y" for x y :: u8
  proof -
    have "(ucast p :: u16) = ucast q \<Longrightarrow> p = q" for p q :: u8
      by (erule ucast_up_inj) simp
    then show ?thesis by (metis neg_equal_iff_equal)
  qed
  have cs: "(of_int (uint x) :: u16) = ucast x" for x :: u8 by simp
  show ?thesis
    unfolding ihex_line_def hex_record_fields [OF l] bindE.simps Let_def len_field [OF l] sc w hi lo cs neg
    using assms by (simp add: byte_of_def)
qed

theorem ihex_start_address_refused_witness: "ihex_line False (hex_record 0 5 [0, 0, 0x12, 0x34]) ihex0 = Inr IFail"
  by (rule ihex_start_address_refused) simp

end
