(* ===== verification/Bit_Files.thy ===== *)
theory Bit_Files
  imports Bitstream_Base Part_Db
begin

unbundle bit_operations_syntax

section \<open>Binary bitstream files: Xilinx, Anlogic and Lattice\<close>

text \<open>
  \<open>bitparser.cpp\<close>, \<open>anlogicBitParser.cpp\<close> and \<open>latticeBitParser.cpp\<close>.  Positions in the file of C type
  \<open>int\<close> are integers; reading outside the string, and the exceptions of \<open>std::string\<close>, are
  outcomes of their own.
\<close>

subsection \<open>\<open>BitParser\<close>\<close>

definition byte_at :: "string \<Rightarrow> int \<Rightarrow> u8 res" where
  "byte_at s i = (if i < 0 then Inl Out_of_bounds else char_at s (nat i))"

text \<open>A big-endian 16-bit length, kept in a \<open>short\<close>.\<close>

definition be_short :: "string \<Rightarrow> int \<Rightarrow> int res" where
  "be_short raw pos =
     bindE (byte_at raw pos) (\<lambda>hi. bindE (byte_at raw (pos + 1)) (\<lambda>lo.
       Inr (sint (push_bit 8 (ucast hi) OR ucast lo :: u16))))"

definition set_hdr :: "string \<Rightarrow> string \<Rightarrow> cbp \<Rightarrow> cbp" where
  "set_hdr k v p = p\<lparr>cb_hdr := (cb_hdr p)(k \<mapsto> v)\<rparr>"

text \<open>The field \<open>'a'\<close>: design name, user identifier and version of the tool.\<close>

definition bit_field_a :: "string \<Rightarrow> int \<Rightarrow> cbp \<Rightarrow> cbp res" where
  "bit_field_a tmp len p =
     (let pos = find_from CHR '';'' tmp 0 in
      bindE (substr tmp 0 pos) (\<lambda>name.
      let prev = pos + 1; pos = find_from CHR '';'' tmp (nat prev);
          prev = find_from CHR ''='' tmp (nat prev) + 1 in
      bindE (substr tmp prev (pos - prev)) (\<lambda>user.
      let prev = pos + 1; prev = find_from CHR ''='' tmp (nat prev) + 1 in
      bindE (substr tmp prev (len - prev)) (\<lambda>tool.
        Inr (set_hdr ''toolVersion'' tool (set_hdr ''userID'' user (set_hdr ''design_name'' name p)))))))"

definition bit_field_e :: "string \<Rightarrow> cbp \<Rightarrow> cbp res" where
  "bit_field_e tmp p =
     bindE (char_at tmp 0) (\<lambda>a. bindE (char_at tmp 1) (\<lambda>b. bindE (char_at tmp 2) (\<lambda>c. bindE (char_at tmp 3) (\<lambda>d.
       Inr (p\<lparr>cb_bit_length := sint (push_bit 24 (ucast a) OR push_bit 16 (ucast b) OR push_bit 8 (ucast c) OR ucast d :: u32)\<rparr>)))))"

definition bit_field :: "u8 \<Rightarrow> string \<Rightarrow> int \<Rightarrow> cbp \<Rightarrow> cbp res" where
  "bit_field type tmp len p =
     (if type = of_char CHR ''a'' then bit_field_a tmp len p
      else if type = of_char CHR ''b'' then bindE (substr tmp 0 len) (\<lambda>v. Inr (set_hdr ''part_name'' v p))
      else if type = of_char CHR ''c'' then bindE (substr tmp 0 len) (\<lambda>v. Inr (set_hdr ''date'' v p))
      else if type = of_char CHR ''d'' then bindE (substr tmp 0 len) (\<lambda>v. Inr (set_hdr ''hour'' v p))
      else if type = of_char CHR ''e'' then bit_field_e tmp p
      else Inr p)"

text \<open>One pass of the loop over the fields: type, new position and object.\<close>

definition bit_pass :: "string \<Rightarrow> int \<Rightarrow> cbp \<Rightarrow> (u8 \<times> int \<times> cbp) res" where
  "bit_pass raw pos p =
     bindE (byte_at raw pos) (\<lambda>type.
     bindE (if type \<noteq> of_char CHR ''e'' then bindE (be_short raw (pos + 1)) (\<lambda>l. Inr (l, pos + 3))
            else Inr (4, pos + 1)) (\<lambda>(len, pos).
     bindE (substr raw pos len) (\<lambda>tmp.
     bindE (bit_field type tmp len p) (\<lambda>p. Inr (type, pos + len, p)))))"

text \<open>The loop ends only with a field \<open>'e'\<close>; \<open>None\<close> is a loop that does not end.\<close>

partial_function (option) bit_fields :: "string \<Rightarrow> int \<Rightarrow> cbp \<Rightarrow> (int \<times> cbp) res option" where
  "bit_fields raw pos p =
     (case bit_pass raw pos p of
        Inl e \<Rightarrow> Some (Inl e)
      | Inr (type, pos, p) \<Rightarrow>
          if type = of_char CHR ''e'' then Some (Inr (pos, p)) else bit_fields raw pos p)"

definition bit_parseHeader :: "string \<Rightarrow> cbp \<Rightarrow> (int \<times> cbp) res option" where
  "bit_parseHeader raw p =
     (case bindE (be_short raw 0) (\<lambda>l. bindE (be_short raw (l + 2)) (\<lambda>_. Inr (l + 4))) of
        Inl e \<Rightarrow> Some (Inl e)
      | Inr pos \<Rightarrow> bit_fields raw pos p)"

definition bit_parse :: "bool \<Rightarrow> string \<Rightarrow> (int \<times> cbp) res option" where
  "bit_parse reverseOrder raw =
     (case bit_parseHeader raw cbp0 of
        None \<Rightarrow> None
      | Some r \<Rightarrow> Some (bindE r (\<lambda>(pos, p).
          let rest_of_file_length = int (length raw) - pos; n = cb_bit_length p in
          if n > rest_of_file_length then Inr (1, p)
          else if n < 0 then Inl Std_exception
          else
            let data = map of_char (take (nat n) (drop (nat pos) raw)) in
            Inr (0, p\<lparr>cb_bit_data := mirror reverseOrder data, cb_bit_length := 8 * n\<rparr>))))"

subsection \<open>\<open>AnlogicBitParser\<close>\<close>

text \<open>The header lines up to an empty one; \<open>None\<close> is the return of -1.\<close>

fun anlogic_header :: "string list \<Rightarrow> nat \<Rightarrow> cbp \<Rightarrow> (nat \<times> cbp) option res" where
  "anlogic_header [] ret p = Inr (Some (ret, p))"
| "anlogic_header (l # ls) ret p =
     (let ret = ret + length l + 1 in
      if l = [] then Inr (Some (ret, p))
      else if hd l \<noteq> CHR ''#'' then Inr None
      else
        bindE (substr l 2 (-1)) (\<lambda>content.
        let pos = find_from CHR '':'' content 0 in
        if pos = -1 then anlogic_header ls ret (set_hdr ''tool'' content p)
        else bindE (substr content (pos + 2) (-1)) (\<lambda>val.
          anlogic_header ls ret (set_hdr (take (nat pos) content) val p))))"

definition anlogic_parseHeader :: "string \<Rightarrow> cbp \<Rightarrow> (nat \<times> cbp) option res" where
  "anlogic_parseHeader raw p =
     bindE (anlogic_header (lines_of CHR 0x0A raw) 0 p) (\<lambda>r. case r of
        None \<Rightarrow> Inr None
      | Some (ret, p) \<Rightarrow> bindE (char_at raw ret) (\<lambda>b. Inr (if b \<noteq> 0 then None else Some (ret, p))))"

text \<open>Blocks with their length in bits; \<open>None\<close> is a length that does not fit.\<close>

function anlogic_blocks :: "string \<Rightarrow> nat \<Rightarrow> bytes option res" where
  "anlogic_blocks raw pos =
     bindE (char_at raw pos) (\<lambda>hi. bindE (char_at raw (pos + 1)) (\<lambda>lo.
       let len = push_bit 8 (ucast hi) OR ucast lo :: u16 in
       if len AND 7 \<noteq> 0 then Inr None
       else
         let n = unat (drop_bit 3 len); pos = pos + 2 in
         if pos + n > length raw then Inr None
         else
           let block = map of_char (take n (drop pos raw)) in
           if pos + n < length raw
           then bindE (anlogic_blocks raw (pos + n)) (\<lambda>r. Inr (map_option (\<lambda>bs. block @ bs) r))
           else Inr (Some block)))"
  by pat_completeness auto
termination
  by (relation "measure (\<lambda>(raw, pos). length raw - pos)") auto

declare anlogic_blocks.simps [simp del]

definition anlogic_parse :: "bool \<Rightarrow> string \<Rightarrow> (int \<times> cbp) res" where
  "anlogic_parse reverseOrder raw =
     bindE (anlogic_parseHeader raw cbp0) (\<lambda>r. case r of
        None \<Rightarrow> Inr (1, cbp0)
      | Some (pos, p) \<Rightarrow> bindE (anlogic_blocks raw pos) (\<lambda>r. case r of
          None \<Rightarrow> Inr (1, p)
        | Some data \<Rightarrow> Inr (0, p\<lparr>cb_bit_data := mirror reverseOrder data, cb_bit_length := 8 * int (length data)\<rparr>)))"

subsection \<open>\<open>LatticeBitParser\<close>\<close>

definition hex8 :: "u32 \<Rightarrow> string" where
  "hex8 v = map (\<lambda>i. ''0123456789abcdef'' ! unat (drop_bit i v AND 0xf)) [28, 24, 20, 16, 12, 8, 4, 0]"

definition char_of_byte :: "u8 \<Rightarrow> char" where
  "char_of_byte b = char_of (unat b)"

text \<open>
  \<open>key: value\<close>.  The second argument of the \<open>substr\<close> of the source is the end of the value,
  not its length; a value of blanks only makes it throw.
\<close>

definition lattice_entry :: "string \<Rightarrow> cbp \<Rightarrow> cbp res" where
  "lattice_entry buff p =
     (let pos = find_from CHR '':'' buff 0 in
      if pos = -1 then Inr p
      else
        let key = take (nat pos) buff; val = drop (nat pos + 1) buff;
            startPos = length (takeWhile (\<lambda>c. c = CHR '' '') val);
            endPos = length (dropWhile (\<lambda>c. c = CHR '' '') (rev val)) in
        if startPos = length val then Inl Std_exception
        else Inr (set_hdr key (take endPos (drop startPos val)) p))"

fun lattice_entries :: "string list \<Rightarrow> cbp \<Rightarrow> cbp res" where
  "lattice_entries [] p = Inr p"
| "lattice_entries (l # ls) p = bindE (lattice_entry l p) (lattice_entries ls)"

text \<open>The result, \<open>_endHeader\<close> (-1 for \<open>npos\<close>) and the object.\<close>

definition lattice_parseHeader :: "string \<Rightarrow> cbp \<Rightarrow> (int \<times> int \<times> cbp) res" where
  "lattice_parseHeader raw p =
     bindE (char_at raw 0) (\<lambda>c0.
     if c0 = of_char CHR ''L'' \<and> take 4 raw \<noteq> ''LSCC'' then Inr (1, 0, p)
     else
       let currPos = (if c0 = of_char CHR ''L'' then 4 else 0) in
       bindE (char_at raw currPos) (\<lambda>b0. bindE (char_at raw (currPos + 1)) (\<lambda>b1.
         if b0 \<noteq> 0xff \<or> b1 \<noteq> 0 then Inr (1, 0, p)
         else
           let currPos = currPos + 2; endHeader = find_from CHR 0xFF raw currPos in
           if endHeader = -1 then Inr (1, -1, p)
           else
             let pos = find_from CHR 0xB3 raw (nat endHeader) in
             if pos = -1 then Inr (1, endHeader, p)
             else bindE (byte_at raw (pos - 1)) (\<lambda>k.
               if k \<notin> {0xbd, 0xbf, 0xbe} then Inr (1, endHeader, p)
               else
                 let endHeader = pos - 4 in
                 bindE (substr raw (int currPos) (endHeader - int currPos)) (\<lambda>hdr.
                 bindE (lattice_entries (lines_of CHR 0x00 hdr) p) (\<lambda>p. Inr (0, endHeader, p)))))))"

text \<open>The configuration data up to the identifier of the device.\<close>

definition four_at :: "string \<Rightarrow> nat \<Rightarrow> (u8 \<times> u8 \<times> u8 \<times> u8) res" where
  "four_at raw i = bindE (char_at raw i) (\<lambda>a. bindE (char_at raw (i + 1)) (\<lambda>b.
     bindE (char_at raw (i + 2)) (\<lambda>c. bindE (char_at raw (i + 3)) (\<lambda>d. Inr (a, b, c, d)))))"

definition word_be :: "u8 \<times> u8 \<times> u8 \<times> u8 \<Rightarrow> u32" where
  "word_be q = (case q of (a, b, c, d) \<Rightarrow>
     push_bit 24 (ucast a) OR push_bit 16 (ucast b) OR push_bit 8 (ucast c) OR ucast d)"

definition word_le_rev :: "u8 \<times> u8 \<times> u8 \<times> u8 \<Rightarrow> u32" where
  "word_le_rev q = (case q of (a, b, c, d) \<Rightarrow> word_be (reverseByte d, reverseByte c, reverseByte b, reverseByte a))"

function parseCfgData :: "bool \<Rightarrow> string \<Rightarrow> nat \<Rightarrow> cbp \<Rightarrow> (bool \<times> cbp) res" where
  "parseCfgData machXO2 raw pos p =
     (if pos \<ge> length raw then Inr (False, p)
      else
        let cmd = of_char (raw ! pos) :: u8; pos = pos + 1 in
        if cmd = 0xff then parseCfgData machXO2 raw pos p
        else if cmd = 0x3b then parseCfgData machXO2 raw (pos + 3) p
        else if cmd = 0x47 then
          bindE (four_at raw (pos + 3)) (\<lambda>q.
            let p = set_hdr ''idcode'' (hex8 (word_le_rev q)) p in
            if \<not> machXO2 then Inr (True, p) else parseCfgData machXO2 raw (pos + 7) p)
        else if cmd = 0xe2 then
          bindE (four_at raw (pos + 3)) (\<lambda>q.
            let p = set_hdr ''idcode'' (hex8 (word_be q)) p in
            if \<not> machXO2 then Inr (True, p) else parseCfgData machXO2 raw (pos + 7) p)
        else if cmd = 0x02 then parseCfgData machXO2 raw (pos + 11) p
        else if cmd = 0x22 then parseCfgData machXO2 raw (pos + 7) p
        else if cmd = 0x46 then parseCfgData machXO2 raw (pos + 3) p
        else if cmd = 0xb8 then Inr (True, p)
        else if cmd = 0x82 then Inr (False, p)
        else if cmd = 0x79 then parseCfgData machXO2 raw (pos + 3) p
        else Inr (False, p))"
  by pat_completeness auto
termination
  by (relation "measure (\<lambda>(m, raw, pos, p). length raw - pos)") auto

declare parseCfgData.simps [simp del]

text \<open>
  For an encrypted file the identifier comes from the name of the part: the entry of the table
  with the largest key whose model is a prefix of the name.
\<close>

definition part_idcode :: "string \<Rightarrow> u32 option" where
  "part_idcode part =
     (let sub = (if CHR ''-'' \<in> set part
                 then take (length part - 1 - length (takeWhile (\<lambda>c. c \<noteq> CHR ''-'') (rev part))) part else part);
          ks = map fst (filter (\<lambda>(k, f). fm_manufacturer f = ''lattice'' \<and>
                 take (length (fm_model f)) sub = fm_model f) fpga_list)
      in if ks = [] then None else Some (foldl max 0 ks))"

text \<open>The lines of 16 bytes for MachXO2, the last one filled with 0xff.\<close>

function lines16 :: "bytes \<Rightarrow> bytes list" where
  "lines16 bs = (if bs = [] then []
     else (map reverseByte (take 16 bs) @ replicate (16 - length bs) 0xff) # lines16 (drop 16 bs))"
  by pat_completeness auto
termination
  by (relation "measure length") auto

declare lines16.simps [simp del]

record lattice_bit =
  lb_obj :: cbp
  lb_array :: "bytes list"

definition lattice_data :: "bool \<Rightarrow> bool \<Rightarrow> string \<Rightarrow> int \<Rightarrow> cbp \<Rightarrow> lattice_bit res" where
  "lattice_data machXO2 ecp3 raw endHeader p =
     (if \<not> machXO2 then
        if endHeader < 0 then Inl Out_of_bounds
        else
          let data = (if ecp3 then replicate 13 0xff @ [0] else []) @ map of_char (drop (nat endHeader) raw)
          in Inr \<lparr>lb_obj = p\<lparr>cb_bit_data := data, cb_bit_length := 8 * int (length data)\<rparr>, lb_array = []\<rparr>
      else
        let ls = lines16 (map of_char (drop (nat (endHeader + 1)) raw))
        in Inr \<lparr>lb_obj = p\<lparr>cb_bit_length := int (length ls) * 16 * 8\<rparr>, lb_array = ls\<rparr>)"

definition lattice_parse :: "bool \<Rightarrow> bool \<Rightarrow> string \<Rightarrow> (int \<times> lattice_bit) res" where
  "lattice_parse machXO2 ecp3 raw =
     bindE (lattice_parseHeader raw cbp0) (\<lambda>(ret, endHeader, p).
     let fail = Inr (1, \<lparr>lb_obj = p, lb_array = []\<rparr>) in
     if ret < 0 then fail
     else
     bindE (four_at raw (nat (endHeader + 1))) (\<lambda>(a, b, c, d).
       let preamble = word_be (d, c, b, a) in
       if preamble \<notin> {0xb3bdffff, 0xb3bfffff, 0xb3beffff} then fail
       else
       bindE (if preamble = 0xb3bdffff then parseCfgData machXO2 raw (nat (endHeader + 5)) p
              else if machXO2 then Inr (False, p)
              else bindE (getHeaderVal p ''Part'') (\<lambda>part.
                Inr (True, case part_idcode part of None \<Rightarrow> p | Some k \<Rightarrow> set_hdr ''idcode'' (hex8 k) p))) (\<lambda>(ok, p).
         if \<not> ok then Inr (1, \<lparr>lb_obj = p, lb_array = []\<rparr>)
         else bindE (lattice_data machXO2 ecp3 raw endHeader p) (\<lambda>r. Inr (0, r)))))"

subsection \<open>Reading a well-formed \<open>.bit\<close> file\<close>

lemma of_char_u8: "(of_char c :: u8) = of_nat (of_char c)"
  by (simp only: of_nat_of_char)

lemma of_char_of_byte [simp]: "of_char (char_of_byte b) = (b :: u8)"
proof -
  have "unat b < 256" using unsigned_less [of b, where 'a = nat] by simp
  then have "unat b mod 256 = unat b" by simp
  then show ?thesis by (simp add: char_of_byte_def of_char_u8)
qed

lemma of_char_u8_inject: "(of_char c :: u8) = of_char d \<longleftrightarrow> c = d"
proof
  assume "(of_char c :: u8) = of_char d"
  then have "(of_nat (of_char c :: nat) :: u8) = of_nat (of_char d :: nat)" by (simp only: of_char_u8)
  then have "(of_char c :: nat) mod 2 ^ 8 = of_char d mod 2 ^ 8"
    by (simp only: word_of_nat_eq_iff take_bit_eq_mod) simp
  then show "c = d" by simp
qed simp

lemma not_e: "c \<noteq> CHR ''e'' \<Longrightarrow> (of_char c :: u8) \<noteq> of_char CHR ''e''"
  by (simp only: of_char_u8_inject) simp

definition chars :: "bytes \<Rightarrow> string" where
  "chars bs = map char_of_byte bs"

definition be16 :: "nat \<Rightarrow> string" where
  "be16 n = chars [byte_of (of_nat n :: u16) 1, byte_of (of_nat n :: u16) 0]"

definition be32 :: "nat \<Rightarrow> string" where
  "be32 n = chars [byte_of (of_nat n :: u32) 3, byte_of (of_nat n :: u32) 2, byte_of (of_nat n :: u32) 1, byte_of (of_nat n :: u32) 0]"

text \<open>A file: a first field, two more bytes, fields, and the data behind the field \<open>'e'\<close>.\<close>

definition bit_file :: "string \<Rightarrow> string \<Rightarrow> (char \<times> string) list \<Rightarrow> bytes \<Rightarrow> string" where
  "bit_file misc two fs data =
     be16 (length misc) @ misc @ two @ concat (map (\<lambda>(c, v). c # be16 (length v) @ v) fs) @
     CHR ''e'' # be32 (length data) @ chars data"

definition fields_ok :: "(char \<times> string) list \<Rightarrow> bool" where
  "fields_ok fs \<longleftrightarrow> list_all (\<lambda>(c, v). c \<noteq> CHR ''e'' \<and> length v < 32768) fs"

lemma char_at_drop: "drop i s = c # cs \<Longrightarrow> char_at s i = Inr (of_char c) \<and> drop (Suc i) s = cs"
  by (metis Cons_nth_drop_Suc char_at_def drop_all list.distinct(1) list.inject not_le)

lemma join_bytes: "push_bit 8 (ucast (byte_of w 1)) OR ucast (byte_of w 0) = (w :: u16)"
proof (rule bit_word_eqI)
  fix n assume "n < LENGTH(16)"
  then have "n < 8 \<or> 8 \<le> n \<and> n < 16" by auto
  then show "bit (push_bit 8 (ucast (byte_of w 1)) OR ucast (byte_of w 0) :: u16) n = bit w n"
    by (auto simp: bit_or_iff bit_push_bit_iff bit_ucast_iff bit_byte_of)
qed

lemma be_short_be16:
  assumes "drop i raw = be16 n @ rest" "n < 32768"
  shows "be_short raw (int i) = Inr (int n)" "drop (i + 2) raw = rest"
proof -
  have d: "drop i raw = char_of_byte (byte_of (of_nat n :: u16) 1) # char_of_byte (byte_of (of_nat n :: u16) 0) # rest"
    using assms(1) by (simp add: be16_def chars_def)
  note c1 = char_at_drop [OF d]
  note c2 = char_at_drop [OF conjunct2 [OF c1]]
  have "sint (of_nat n :: u16) = int n" using assms(2)
    by (simp add: sint_uint uint_nat unat_of_nat signed_take_bit_int_eq_self)
  moreover have "byte_at raw (int i) = Inr (byte_of (of_nat n :: u16) 1)" "byte_at raw (int i + 1) = Inr (byte_of (of_nat n :: u16) 0)"
    using c1 c2 by (simp_all add: byte_at_def nat_add_distrib)
  ultimately show "be_short raw (int i) = Inr (int n)" by (simp only: be_short_def join_bytes bindE.simps)
  show "drop (i + 2) raw = rest" using c2 by simp
qed

lemma substr_take: "i \<le> length raw \<Longrightarrow> substr raw (int i) (int n) = Inr (take n (drop i raw))"
  by (simp add: substr_def)

lemma find_from_bounds: "find_from c s i \<ge> -1" "find_from c s i < int (length s)"
  by (auto simp: find_from_def Let_def)

lemma substr_ok: "0 \<le> q \<Longrightarrow> q \<le> int (length s) \<Longrightarrow> \<exists>v. substr s q n = Inr v"
  by (auto simp: substr_def Let_def)

lemma bit_field_ok:
  assumes "c \<noteq> CHR ''e''"
  shows "\<exists>p'. bit_field (of_char c) tmp len p = Inr p' \<and> cb_bit_length p' = cb_bit_length p"
proof -
  have e: "(of_char c :: u8) \<noteq> of_char CHR ''e''"
    using assms by (rule not_e)
  have a: "\<exists>p'. bit_field_a tmp len p = Inr p' \<and> cb_bit_length p' = cb_bit_length p"
  proof -
    let ?p1 = "find_from CHR '';'' tmp 0"
    let ?p2 = "find_from CHR '';'' tmp (nat (?p1 + 1))"
    let ?q1 = "find_from CHR ''='' tmp (nat (?p1 + 1)) + 1"
    let ?q2 = "find_from CHR ''='' tmp (nat (?p2 + 1)) + 1"
    have "?q1 \<ge> 0" "?q1 \<le> int (length tmp)" "?q2 \<ge> 0" "?q2 \<le> int (length tmp)"
      using find_from_bounds [of "CHR ''=''" tmp "nat (?p1 + 1)"] find_from_bounds [of "CHR ''=''" tmp "nat (?p2 + 1)"] by auto
    then have "\<exists>v. substr tmp ?q1 (?p2 - ?q1) = Inr v" "\<exists>v. substr tmp ?q2 (len - ?q2) = Inr v"
      "\<exists>v. substr tmp 0 ?p1 = Inr v"
      by (simp_all add: substr_ok)
    then obtain u v w where "substr tmp 0 ?p1 = Inr u" "substr tmp ?q1 (?p2 - ?q1) = Inr v" "substr tmp ?q2 (len - ?q2) = Inr w"
      by blast
    then show ?thesis by (simp add: bit_field_a_def Let_def set_hdr_def)
  qed
  obtain v where "substr tmp 0 len = Inr v" using substr_ok [of 0 tmp len] by auto
  then show ?thesis using a e by (simp add: bit_field_def set_hdr_def)
qed

lemma bit_pass_field:
  assumes "drop i raw = c # be16 (length v) @ v @ rest" "c \<noteq> CHR ''e''" "length v < 32768"
  shows "\<exists>p'. bit_pass raw (int i) p = Inr (of_char c, int (i + 3 + length v), p')"
    and "drop (i + 3 + length v) raw = rest"
proof -
  have c: "char_at raw i = Inr (of_char c)" "drop (Suc i) raw = be16 (length v) @ v @ rest"
    using char_at_drop [OF assms(1)] by auto
  have l: "be_short raw (int (Suc i)) = Inr (int (length v))" "drop (i + 3) raw = v @ rest"
    using be_short_be16 [OF c(2) assms(3)] by (simp_all add: numeral_3_eq_3)
  have "i + 3 \<le> length raw"
  proof (rule ccontr)
    assume "\<not> i + 3 \<le> length raw"
    then have "length (drop i raw) < 3" by simp
    then show False using assms(1) by (simp add: be16_def chars_def)
  qed
  then have sub: "substr raw (int i + 3) (int (length v)) = Inr v"
    using substr_take [of "i + 3" raw "length v"] l(2) by (simp add: algebra_simps)
  have e: "(of_char c :: u8) \<noteq> of_char CHR ''e''" by (rule not_e [OF assms(2)])
  obtain p' where "bit_field (of_char c) v (int (length v)) p = Inr p'" using bit_field_ok [OF assms(2)] by blast
  moreover have "be_short raw (int i + 1) = Inr (int (length v))" using l(1) by (simp add: algebra_simps)
  moreover have "byte_at raw (int i) = Inr (of_char c)" using c(1) by (simp add: byte_at_def)
  ultimately show "\<exists>p'. bit_pass raw (int i) p = Inr (of_char c, int (i + 3 + length v), p')"
    using sub e by (simp add: bit_pass_def algebra_simps)
  show "drop (i + 3 + length v) raw = rest" using arg_cong [OF l(2), of "drop (length v)"] by (simp add: add.commute)
qed

lemma be32_word: "word_be (byte_of w 3, byte_of w 2, byte_of w 1, byte_of w 0) = w"
proof (rule bit_word_eqI)
  fix n assume "n < LENGTH(32)"
  then have "n < 8 \<or> 8 \<le> n \<and> n < 16 \<or> 16 \<le> n \<and> n < 24 \<or> 24 \<le> n \<and> n < 32" by auto
  then show "bit (word_be (byte_of w 3, byte_of w 2, byte_of w 1, byte_of w 0)) n = bit w n"
    by (auto simp: word_be_def bit_or_iff bit_push_bit_iff bit_ucast_iff bit_byte_of)
qed

lemma bit_pass_end:
  assumes "drop i raw = CHR ''e'' # be32 n @ rest" "n < 2 ^ 31"
  shows "bit_pass raw (int i) p = Inr (of_char CHR ''e'', int (i + 5), p\<lparr>cb_bit_length := int n\<rparr>)"
    and "drop (i + 5) raw = rest" and "i + 5 \<le> length raw"
proof -
  have c: "char_at raw i = Inr (of_char CHR ''e'')" "drop (Suc i) raw = be32 n @ rest"
    using char_at_drop [OF assms(1)] by blast+
  have "i + 1 \<le> length raw"
  proof (rule ccontr)
    assume "\<not> i + 1 \<le> length raw"
    then show False using assms(1) by simp
  qed
  then have sub: "substr raw (int i + 1) 4 = Inr (be32 n)"
    using substr_take [of "i + 1" raw 4] c(2) by (simp add: be32_def chars_def add.commute)
  have "sint (of_nat n :: u32) = int n" using assms(2)
    by (simp add: sint_uint uint_nat unat_of_nat signed_take_bit_int_eq_self)
  then have "bit_field_e (be32 n) p = Inr (p\<lparr>cb_bit_length := int n\<rparr>)"
    using be32_word [of "of_nat n"]
    by (simp only: bit_field_e_def be32_def chars_def char_at_def word_be_def prod.case) simp
  moreover have "byte_at raw (int i) = Inr (of_char CHR ''e'')" using c(1) by (simp add: byte_at_def)
  moreover have "bit_field (of_char CHR ''e'') t l q = bit_field_e t q" for t l q
    by (simp only: bit_field_def of_char_u8_inject) simp
  ultimately show "bit_pass raw (int i) p = Inr (of_char CHR ''e'', int (i + 5), p\<lparr>cb_bit_length := int n\<rparr>)"
    using sub by (simp only: bit_pass_def bindE.simps) simp
  show "drop (i + 5) raw = rest"
    using arg_cong [OF c(2), of "drop 4"] by (simp add: be32_def chars_def add.commute)
  show "i + 5 \<le> length raw"
    using arg_cong [OF assms(1), of length] by (simp add: be32_def chars_def)
qed

lemma bit_fields_file:
  assumes "fields_ok fs" "n < 2 ^ 31"
    "drop i raw = concat (map (\<lambda>(c, v). c # be16 (length v) @ v) fs) @ CHR ''e'' # be32 n @ rest"
  shows "\<exists>k q. bit_fields raw (int i) p = Some (Inr (int k, q)) \<and> cb_bit_length q = int n \<and> drop k raw = rest \<and> k \<le> length raw"
  using assms(1, 3)
proof (induction fs arbitrary: i p)
  case Nil
  then have d: "drop i raw = CHR ''e'' # be32 n @ rest" by simp
  show ?case
    by (subst bit_fields.simps, simp only: bit_pass_end(1) [OF d assms(2)] sum.case prod.case if_True simp_thms)
      (rule exI [of _ "i + 5"], use bit_pass_end(2, 3) [OF d assms(2)] in simp)
next
  case (Cons f fs)
  obtain c v where f: "f = (c, v)" by (cases f)
  have d: "drop i raw = c # be16 (length v) @ v @ (concat (map (\<lambda>(c, v). c # be16 (length v) @ v) fs) @ CHR ''e'' # be32 n @ rest)"
    and ok: "c \<noteq> CHR ''e''" "length v < 32768" "fields_ok fs"
    using Cons.prems f by (simp_all add: fields_ok_def)
  obtain p' where bp: "bit_pass raw (int i) p = Inr (of_char c, int (i + 3 + length v), p')"
    using bit_pass_field(1) [OF d ok(1, 2)] by blast
  have "bit_fields raw (int i) p = bit_fields raw (int (i + 3 + length v)) p'"
    by (subst bit_fields.simps) (simp only: bp sum.case prod.case not_e [OF ok(1)] if_False)
  then show ?case using Cons.IH [OF ok(3) bit_pass_field(2) [OF d ok(1, 2)]] by simp
qed

text \<open>
  C14: a well-formed Xilinx \<open>.bit\<close> file is read back: for any header fields (none of type \<open>'e'\<close>, none of
  32768 characters or more) and any configuration data of fewer than 2\<open>^\<close>28 bytes, \<open>parse\<close> ends with 0 and
  the object holds that data, in the order of bits asked for, and its length in bits.
\<close>

theorem bit_roundtrip:
  assumes "length misc < 32768" "length two = 2" "fields_ok fs" "length data < 2 ^ 28"
  shows "\<exists>p. bit_parse reverseOrder (bit_file misc two fs data) = Some (Inr (0, p)) \<and>
     cb_bit_data p = mirror reverseOrder data \<and> cb_bit_length p = 8 * int (length data)"
proof -
  let ?raw = "bit_file misc two fs data" and ?b = "2 + length misc + 2"
  have "drop 0 ?raw = be16 (length misc) @ drop 2 ?raw" by (simp add: bit_file_def be16_def chars_def)
  from be_short_be16 [OF this assms(1)] have l: "be_short ?raw 0 = Inr (int (length misc))" by simp
  obtain x y where two: "two = [x, y]" using assms(2) by (auto simp: length_Suc_conv numeral_2_eq_2)
  have d2: "drop (length misc + 2) ?raw = x # y # drop ?b ?raw"
    by (simp add: bit_file_def be16_def chars_def two)
  note c = char_at_drop [OF d2] char_at_drop [OF conjunct2 [OF char_at_drop [OF d2]]]
  have l2: "\<exists>k. be_short ?raw (int (length misc) + 2) = Inr k"
    using c by (simp add: be_short_def byte_at_def nat_add_distrib numeral_3_eq_3)
  have b: "drop ?b ?raw = concat (map (\<lambda>(c, v). c # be16 (length v) @ v) fs) @ CHR ''e'' # be32 (length data) @ chars data"
    by (simp add: bit_file_def be16_def chars_def two)
  have n: "length data < 2 ^ 31" using assms(4) by simp
  obtain k q where f: "bit_fields ?raw (int ?b) cbp0 = Some (Inr (int k, q))" "cb_bit_length q = int (length data)"
      "drop k ?raw = chars data" "k \<le> length ?raw"
    using bit_fields_file [OF assms(3) n b] by blast
  have "bit_parseHeader ?raw cbp0 = Some (Inr (int k, q))"
    using l l2 f(1) by (auto simp: bit_parseHeader_def algebra_simps)
  moreover have "int (length data) \<le> int (length ?raw) - int k"
    using arg_cong [OF f(3), of length] f(4) by (simp add: chars_def)
  ultimately show ?thesis
    using f by (simp add: bit_parse_def Let_def chars_def comp_def)
qed

theorem bit_roundtrip_witness:
  "\<exists>p. bit_parse True (bit_file ''abc'' ''xy'' [(CHR ''b'', ''7a35t'')] [1, 2]) = Some (Inr (0, p)) \<and>
     cb_bit_data p = mirror True [1, 2] \<and> cb_bit_length p = 8 * int (length [1, 2 :: u8])"
  by (rule bit_roundtrip) (simp_all add: fields_ok_def)

text \<open>A field whose length reads as -3 sends the loop back to its own first byte.\<close>

lemma bit_fields_stuck:
  assumes "\<And>q. \<exists>q'. bit_pass raw pos q = Inr (type, pos, q')" "type \<noteq> of_char CHR ''e''"
  shows "bit_fields raw pos p = None"
proof -
  have "\<not> (raw' = raw \<and> pos' = pos)" if "bit_fields raw' pos' p' = Some r" for raw' pos' p' r
    using _ that
  proof (rule bit_fields.raw_induct)
    fix f :: "string \<Rightarrow> int \<Rightarrow> cbp \<Rightarrow> (int \<times> cbp) res option" and raw' pos' p' r
    assume IH: "\<And>raw' pos' p' r. f raw' pos' p' = Some r \<Longrightarrow> \<not> (raw' = raw \<and> pos' = pos)"
      and step: "(case bit_pass raw' pos' p' of Inl e \<Rightarrow> Some (Inl e)
        | Inr (type, pos, p) \<Rightarrow> if type = of_char CHR ''e'' then Some (Inr (pos, p)) else f raw' pos p) = Some r"
    show "\<not> (raw' = raw \<and> pos' = pos)"
    proof
      assume "raw' = raw \<and> pos' = pos"
      moreover obtain q' where "bit_pass raw pos p' = Inr (type, pos, q')" using assms(1) by blast
      ultimately have "f raw pos q' = Some r" using step assms(2) by simp
      then show False using IH by blast
    qed
  qed
  then show ?thesis by (cases "bit_fields raw pos p") auto
qed

text \<open>
  The loop over the header of a \<open>.bit\<close> file need not end.  The length of a field is kept in a
  \<open>short\<close>; a field other than \<open>'e'\<close> whose length reads FFFD (-3) leads back to its own first byte, and
  \<open>parse\<close> never returns, whatever follows it in the file.
\<close>

theorem bit_header_diverges:
  assumes "length misc < 32768" "length two = 2" "c \<noteq> CHR ''e''"
  shows "bit_parse reverseOrder (be16 (length misc) @ misc @ two @ c # chars [0xff, 0xfd] @ rest) = None"
proof -
  let ?raw = "be16 (length misc) @ misc @ two @ c # chars [0xff, 0xfd] @ rest" and ?b = "length misc + 4"
  have l: "be_short ?raw 0 = Inr (int (length misc))"
    using be_short_be16 [of 0 ?raw "length misc" "misc @ two @ c # chars [0xff, 0xfd] @ rest"] assms(1) by simp
  have d: "drop ?b ?raw = c # char_of_byte 0xff # char_of_byte 0xfd # rest"
  proof -
    have "?b = Suc (Suc (length misc + length two))" using assms(2) by simp
    then show ?thesis by (simp only: be16_def chars_def) simp
  qed
  note c1 = char_at_drop [OF d] and c2 = char_at_drop [OF conjunct2 [OF char_at_drop [OF d]]]
  note c3 = char_at_drop [OF conjunct2 [OF c2]]
  obtain x y where two: "two = [x, y]" using assms(2) by (auto simp: length_Suc_conv numeral_2_eq_2)
  have l2: "\<exists>k. be_short ?raw (int (length misc) + 2) = Inr k"
    by (simp add: be_short_def byte_at_def nat_add_distrib char_at_def be16_def chars_def two)
  have fd: "be_short ?raw (int ?b + 1) = Inr (-3)"
  proof -
    have "nat (int ?b + 1) = Suc ?b" "nat (int ?b + 1 + 1) = Suc (Suc ?b)" by simp_all
    then have "byte_at ?raw (int ?b + 1) = Inr 0xff" "byte_at ?raw (int ?b + 1 + 1) = Inr 0xfd"
      using c2 c3 by (simp_all only: byte_at_def of_char_of_byte) simp_all
    moreover have "sint (push_bit 8 (ucast (0xff :: u8)) OR ucast (0xfd :: u8) :: u16) = -3" by code_simp
    ultimately show ?thesis by (simp only: be_short_def bindE.simps)
  qed
  have "\<exists>q'. bit_pass ?raw (int ?b) q = Inr (of_char c, int ?b, q')" for q
  proof -
    have sub: "\<exists>t. substr ?raw (int ?b + 3) (-3) = Inr t"
      by (rule substr_ok) (simp_all add: two be16_def chars_def)
    then obtain t where t: "substr ?raw (int ?b + 3) (-3) = Inr t" by blast
    obtain q' where "bit_field (of_char c) t (-3) q = Inr q'" using bit_field_ok [OF assms(3)] by blast
    moreover have "byte_at ?raw (int ?b) = Inr (of_char c)" using c1 by (simp only: byte_at_def nat_int) simp
    ultimately show ?thesis using t fd not_e [OF assms(3)] by (simp add: bit_pass_def)
  qed
  then have "bit_fields ?raw (int ?b) cbp0 = None" using bit_fields_stuck not_e [OF assms(3)] by blast
  then show ?thesis using l l2 by (auto simp: bit_parse_def bit_parseHeader_def algebra_simps)
qed

theorem bit_header_diverges_witness:
  "bit_parse False (be16 (length ''abc'') @ ''abc'' @ ''xy'' @ CHR ''b'' # chars [0xff, 0xfd] @ ''more'') = None"
  by (rule bit_header_diverges) simp_all

subsection \<open>The ignored error of the Lattice header\<close>

text \<open>
  \<open>LatticeBitParser::parse\<close> tests \<open>parseHeader() < 0\<close>, but \<open>parseHeader\<close> reports a failure as
  \<open>EXIT_FAILURE\<close>, which is 1.  A file that begins with neither the signature nor the comment area
  makes \<open>parseHeader\<close> fail; \<open>parse\<close> goes on all the same, and accepts the file as a bitstream
  with its first byte included if a preamble happens to follow that byte.
\<close>

theorem lattice_header_error_ignored:
  assumes "x \<noteq> CHR ''L''" "x \<noteq> char_of_byte 0xff"
  shows "lattice_parseHeader (x # chars [0xff, 0xff, 0xbd, 0xb3, 0xb8] @ rest) p = Inr (1, 0, p) \<and>
    (\<exists>b. lattice_parse False False (x # chars [0xff, 0xff, 0xbd, 0xb3, 0xb8] @ rest) = Inr (0, b) \<and>
      cb_bit_data (lb_obj b) = of_char x # [0xff, 0xff, 0xbd, 0xb3, 0xb8] @ map of_char rest)"
proof -
  let ?raw = "x # chars [0xff, 0xff, 0xbd, 0xb3, 0xb8] @ rest"
  have x: "(of_char x :: u8) \<noteq> of_char CHR ''L''" "(of_char x :: u8) \<noteq> 0xff"
    using assms of_char_u8_inject [of x "char_of_byte 0xff"] by (simp_all only: of_char_u8_inject of_char_of_byte) simp_all
  have h: "lattice_parseHeader ?raw p = Inr (1, 0, p)" for p
    using x by (simp add: lattice_parseHeader_def char_at_def chars_def)
  have "parseCfgData False ?raw 5 p = Inr (True, p)" for p
    by (simp add: parseCfgData.simps chars_def)
  then have "lattice_parse False False ?raw = bindE (lattice_data False False ?raw 0 cbp0) (\<lambda>r. Inr (0, r))"
    using h [of cbp0] by (simp add: lattice_parse_def four_at_def char_at_def chars_def word_be_def)
  then show ?thesis using h by (simp add: lattice_data_def Let_def chars_def)
qed

lemma not_ff: "CHR ''x'' \<noteq> char_of_byte 0xff"
proof
  assume "CHR ''x'' = char_of_byte 0xff"
  then have "(of_char CHR ''x'' :: u8) = of_char (char_of_byte 0xff)" by (simp only:)
  then show False by simp
qed

theorem lattice_header_error_ignored_witness:
  "lattice_parseHeader (CHR ''x'' # chars [0xff, 0xff, 0xbd, 0xb3, 0xb8] @ []) cbp0 = Inr (1, 0, cbp0)"
  using lattice_header_error_ignored [of "CHR ''x''" "[]" cbp0] not_ff by (simp only: append_Nil2) simp

end
