(* ===== verification/Init_Shell.thy ===== *)
theory Init_Shell
  imports Prelude
begin

unbundle bit_operations_syntax

section \<open>The first process of the system (\<open>sw/initramfs/init.c\<close>)\<close>

text \<open>
  A shell without a C library: strings in memory, system calls, the commands, the loop.  Memory
  objects are lists of characters; reading past the end of one is \<open>Out_of_bounds\<close>.  What the
  process asks of the kernel is recorded in \<open>pr_trace\<close>; what the kernel answers to \<open>uname\<close> and
  \<open>sysinfo\<close> is a function of that record, and what \<open>read\<close> delivers is a finite list, after which
  it reports the end of the file; every system call returns.  The atomic instructions in the assembler statements of
  \<open>cmd_amo\<close> are operations of a parameter, the processor.  The values of the status register of the UART, which the
  first thing \<open>_start\<close> does reads until the UART is ready, are a sequence in \<open>pr_uart\<close>.
\<close>

subsection \<open>The process\<close>

datatype syscall =
    Sys_write string
  | Sys_read
  | Sys_uname
  | Sys_sysinfo
  | Sys_exit int
  | Mmio_putc char

record sysinfo =
  si_uptime :: u32
  si_totalram :: u32
  si_freeram :: u32
  si_procs :: u16
  si_mem_unit :: u32

text \<open>The one word in memory that the assembler statements work on.\<close>

record 'c amo_cpu =
  store :: "u32 \<Rightarrow> 'c \<Rightarrow> 'c"
  loads :: "'c \<Rightarrow> u32"
  amoadd :: "u32 \<Rightarrow> 'c \<Rightarrow> u32 \<times> 'c"
  amoswap :: "u32 \<Rightarrow> 'c \<Rightarrow> u32 \<times> 'c"
  amoor :: "u32 \<Rightarrow> 'c \<Rightarrow> u32 \<times> 'c"
  amoand :: "u32 \<Rightarrow> 'c \<Rightarrow> u32 \<times> 'c"
  lr :: "'c \<Rightarrow> u32 \<times> 'c"
  sc :: "u32 \<Rightarrow> 'c \<Rightarrow> u32 \<times> 'c"

text \<open>A read either fails, with a number that \<open>ecall\<close> returns negated, or delivers characters.\<close>

record 'c proc =
  pr_trace :: "syscall list"
  pr_reads :: "(nat + string) list"
  pr_uname :: "syscall list \<Rightarrow> int \<times> string"
  pr_sysinfo :: "syscall list \<Rightarrow> int \<times> sysinfo"
  pr_uart :: "nat \<Rightarrow> u32"
  pr_cpu :: 'c

definition call :: "syscall \<Rightarrow> 'c proc \<Rightarrow> 'c proc" where
  "call c p = p\<lparr>pr_trace := pr_trace p @ [c]\<rparr>"

subsection \<open>Strings and output\<close>

abbreviation NUL :: char where "NUL \<equiv> CHR 0x00"
abbreviation NL :: char where "NL \<equiv> CHR 0x0A"
abbreviation CR :: char where "CR \<equiv> CHR 0x0D"

fun my_strlen :: "string \<Rightarrow> nat res" where
  "my_strlen [] = Inl Out_of_bounds"
| "my_strlen (c # s) = (if c = NUL then Inr 0 else bindE (my_strlen s) (\<lambda>n. Inr (Suc n)))"

definition my_puts :: "string \<Rightarrow> 'c proc \<Rightarrow> 'c proc res" where
  "my_puts s p = bindE (my_strlen s) (\<lambda>n. Inr (call (Sys_write (take n s)) p))"

text \<open>A string literal, with its terminating zero.\<close>

definition lit :: "string \<Rightarrow> string" where
  "lit s = s @ [NUL]"

text \<open>The digits from the end of a buffer of twelve; \<open>i\<close> is the index before \<open>buf[--i]\<close>.\<close>

function putnum_loop :: "nat \<Rightarrow> u32 \<Rightarrow> string \<Rightarrow> string res" where
  "putnum_loop i v digits =
     (if i = 0 then Inl Out_of_bounds
      else
        let digits = char_of (48 + unat (v mod 10)) # digits; v = v div 10 in
        if v = 0 then Inr digits else putnum_loop (i - 1) v digits)"
  by pat_completeness auto
termination
  by (relation "measure fst") auto

declare putnum_loop.simps [simp del]

definition my_putnum :: "u32 \<Rightarrow> 'c proc \<Rightarrow> 'c proc res" where
  "my_putnum v p =
     (if v = 0 then my_puts (lit ''0'') p
      else bindE (putnum_loop 11 v [NUL]) (\<lambda>s. my_puts s p))"

fun my_strcmp :: "string \<Rightarrow> string \<Rightarrow> int res" where
  "my_strcmp [] b = Inl Out_of_bounds"
| "my_strcmp (x # a) [] = Inl Out_of_bounds"
| "my_strcmp (x # a) (y # b) =
     (if x \<noteq> NUL \<and> x = y then my_strcmp a b else Inr (of_char x - of_char y))"

text \<open>\<open>chomp\<close> on a buffer that holds a string of \<open>n\<close> characters.\<close>

fun chomp_loop :: "nat \<Rightarrow> string \<Rightarrow> string" where
  "chomp_loop 0 s = s"
| "chomp_loop (Suc n) s =
     (if s ! n = NL \<or> s ! n = CR then chomp_loop n (s[n := NUL]) else s)"

definition chomp :: "string \<Rightarrow> string res" where
  "chomp s = bindE (my_strlen s) (\<lambda>n. Inr (chomp_loop n s))"

definition my_puthex :: "u32 \<Rightarrow> 'c proc \<Rightarrow> 'c proc res" where
  "my_puthex v =
     my_puts (lit (''0x'' @ map (\<lambda>i. ''0123456789abcdef'' ! unat (drop_bit (28 - i * 4) v AND 0xf)) [0..<8]))"

text \<open>A sequence of outputs.\<close>

fun outputs :: "('c proc \<Rightarrow> 'c proc res) list \<Rightarrow> 'c proc \<Rightarrow> 'c proc res" where
  "outputs [] p = Inr p"
| "outputs (f # fs) p = bindE (f p) (outputs fs)"

subsection \<open>The commands\<close>

text \<open>\<open>struct utsname\<close>: six fields of 65 characters.\<close>

definition uts_field :: "nat \<Rightarrow> string \<Rightarrow> string" where
  "uts_field k u = drop (65 * k) u"

definition cmd_uname :: "'c proc \<Rightarrow> 'c proc res" where
  "cmd_uname p =
     (let (ret, u) = pr_uname p (pr_trace p); p = call Sys_uname p in
      if ret = 0 then
        outputs [my_puts (uts_field 0 u), my_puts (lit '' ''), my_puts (uts_field 1 u), my_puts (lit '' ''),
                 my_puts (uts_field 2 u), my_puts (lit '' ''), my_puts (uts_field 3 u), my_puts (lit '' ''),
                 my_puts (uts_field 4 u), my_puts (lit [NL])] p
      else Inr p)"

definition cmd_info :: "'c proc \<Rightarrow> 'c proc res" where
  "cmd_info p =
     (let (ret, si) = pr_sysinfo p (pr_trace p); p = call Sys_sysinfo p in
      if ret = 0 then
        let unit = (if si_mem_unit si \<noteq> 0 then si_mem_unit si else 1) in
        outputs [my_puts (lit ''Uptime:    ''), my_putnum (si_uptime si), my_puts (lit ('' s'' @ [NL])),
                 my_puts (lit ''Total RAM: ''), my_putnum (drop_bit 10 (si_totalram si * unit)), my_puts (lit ('' KB'' @ [NL])),
                 my_puts (lit ''Free RAM:  ''), my_putnum (drop_bit 10 (si_freeram si * unit)), my_puts (lit ('' KB'' @ [NL])),
                 my_puts (lit ''Processes: ''), my_putnum (ucast (si_procs si)), my_puts (lit [NL])] p
      else Inr p)"

definition cmd_help :: "'c proc \<Rightarrow> 'c proc res" where
  "cmd_help = outputs (map (\<lambda>s. my_puts (lit (s @ [NL])))
     [''Commands:'',
      ''  uname  - kernel info'',
      ''  info   - memory & uptime'',
      ''  amo    - test AMO/LR/SC instructions'',
      ''  help   - this message'',
      ''  exit   - halt system''])"

subsection \<open>\<open>cmd_amo\<close>\<close>

text \<open>The process with the numbers of tests passed and failed.\<close>

type_synonym 'c amo = "'c proc \<times> nat \<times> nat"

definition PASS :: string where "PASS = ''  [PASS]'' @ [NL]"
definition FAIL :: string where "FAIL = ''  [FAIL]'' @ [NL]"

definition verdict :: "bool \<Rightarrow> string \<Rightarrow> string list \<Rightarrow> 'c amo \<Rightarrow> 'c amo res" where
  "verdict ok good bad r =
     (let (p, pass, fail) = r in
      if ok then bindE (my_puts (lit good) p) (\<lambda>p. Inr (p, pass + 1, fail))
      else bindE (outputs (map (\<lambda>s. my_puts (lit s)) bad) p) (\<lambda>p. Inr (p, pass, fail + 1)))"

text \<open>Tests 1 to 4: one read-modify-write instruction.\<close>

definition amo_test ::
    "'c amo_cpu \<Rightarrow> string \<Rightarrow> (u32 \<Rightarrow> 'c \<Rightarrow> u32 \<times> 'c) \<Rightarrow> u32 \<Rightarrow> u32 \<Rightarrow> u32 \<Rightarrow> 'c amo \<Rightarrow> 'c amo res" where
  "amo_test cpu name ins v arg new r =
     (let (p, pass, fail) = r; (result, c) = ins arg (store cpu v (pr_cpu p)) in
      bindE (outputs [my_puts (lit (name @ '': old='')), my_puthex result,
                      my_puts (lit '' new=''), my_puthex (loads cpu c), my_puts (lit [NL])] (p\<lparr>pr_cpu := c\<rparr>)) (\<lambda>p.
        verdict (result = v \<and> loads cpu c = new) PASS [FAIL] (p, pass, fail)))"

text \<open>Tests A to D: a load-reserved and a store-conditional.\<close>

definition lrsc_test ::
    "'c amo_cpu \<Rightarrow> string \<Rightarrow> u32 \<Rightarrow> u32 \<Rightarrow> string list \<Rightarrow> string \<Rightarrow> 'c amo \<Rightarrow> 'c amo res" where
  "lrsc_test cpu name v arg notes good r =
     (let (p, pass, fail) = r; (result, c) = lr cpu (store cpu v (pr_cpu p)); (tmp, c) = sc cpu arg c in
      bindE (outputs ([my_puts (lit (name @ '' lr='')), my_puthex result, my_puts (lit '' sc.rd=''), my_puthex tmp,
                       my_puts (lit '' mem=''), my_puthex (loads cpu c), my_puts (lit [NL])] @
                      map (\<lambda>s. my_puts (lit (s @ [NL]))) notes) (p\<lparr>pr_cpu := c\<rparr>)) (\<lambda>p.
        verdict (result = v \<and> tmp = 0 \<and> loads cpu c = arg) good [FAIL] (p, pass, fail)))"

definition test_E :: "'c amo_cpu \<Rightarrow> 'c amo \<Rightarrow> 'c amo res" where
  "test_E cpu r =
     (let (p, pass, fail) = r; (result, c) = lr cpu (store cpu 42 (pr_cpu p));
          c = store cpu 55 c; (tmp, c) = sc cpu 99 c; val = loads cpu c in
      bindE (outputs [my_puts (lit ''E) broken resv: lr=''), my_puthex result, my_puts (lit '' sc.rd=''), my_puthex tmp,
                      my_puts (lit '' mem=''), my_puthex val, my_puts (lit [NL]),
                      my_puts (lit (''   expect: lr=0x2a sc.rd=nonzero mem=0x37(55, sc failed)'' @ [NL]))] (p\<lparr>pr_cpu := c\<rparr>)) (\<lambda>p.
        verdict (result = 42 \<and> tmp \<noteq> 0 \<and> val = 55) PASS
          ([''  [FAIL]''] @ (if tmp = 0 then ['' (sc.w wrongly succeeded!)''] else []) @
           (if val = 99 then ['' (sc.w wrote despite broken resv!)''] else []) @ [[NL]]) (p, pass, fail)))"

definition test_F :: "'c amo_cpu \<Rightarrow> 'c amo \<Rightarrow> 'c amo res" where
  "test_F cpu r =
     (let (p, pass, fail) = r; (result, c) = lr cpu (store cpu 42 (pr_cpu p));
          (tmp, c) = sc cpu 99 c; (tmp2, c) = sc cpu 200 c; val = loads cpu c in
      bindE (outputs [my_puts (lit ''F) double sc: lr=''), my_puthex result, my_puts (lit '' sc1.rd=''), my_puthex tmp,
                      my_puts (lit '' sc2.rd=''), my_puthex tmp2, my_puts (lit '' mem=''), my_puthex val, my_puts (lit [NL]),
                      my_puts (lit (''   expect: lr=0x2a sc1.rd=0x00 sc2.rd=nonzero mem=0x63'' @ [NL]))] (p\<lparr>pr_cpu := c\<rparr>)) (\<lambda>p.
        verdict (result = 42 \<and> tmp = 0 \<and> tmp2 \<noteq> 0 \<and> val = 99) PASS
          ([''  [FAIL]''] @ (if tmp2 = 0 then ['' (2nd sc.w wrongly succeeded!)''] else []) @
           (if val = 200 then ['' (2nd sc.w wrote!)''] else []) @ [[NL]]) (p, pass, fail)))"

definition test_G :: "'c amo_cpu \<Rightarrow> 'c amo \<Rightarrow> 'c amo res" where
  "test_G cpu r =
     (let (p, pass, fail) = r; (result, c) = lr cpu (store cpu 0xCAFE (pr_cpu p)); val = loads cpu c in
      bindE (outputs [my_puts (lit ''G) lr.w only: lr=''), my_puthex result, my_puts (lit '' mem=''), my_puthex val, my_puts (lit [NL]),
                      my_puts (lit (''   expect: lr=0xcafe mem=0xcafe'' @ [NL]))] (p\<lparr>pr_cpu := c\<rparr>)) (\<lambda>p.
        verdict (result = 0xCAFE \<and> val = 0xCAFE) PASS [FAIL] (p, pass, fail)))"

fun run_tests :: "('c amo \<Rightarrow> 'c amo res) list \<Rightarrow> 'c amo \<Rightarrow> 'c amo res" where
  "run_tests [] r = Inr r"
| "run_tests (t # ts) r = bindE (t r) (run_tests ts)"

definition amo_tests :: "'c amo_cpu \<Rightarrow> ('c amo \<Rightarrow> 'c amo res) list" where
  "amo_tests cpu =
     [amo_test cpu ''amoadd.w'' (amoadd cpu) 100 50 150,
      amo_test cpu ''amoswap.w'' (amoswap cpu) 0xDEAD 0xBEEF 0xBEEF,
      amo_test cpu ''amoor.w'' (amoor cpu) 0xF0 0x0F 0xFF,
      amo_test cpu ''amoand.w'' (amoand cpu) 0xFF 0x0F 0x0F]"

definition lrsc_tests :: "'c amo_cpu \<Rightarrow> ('c amo \<Rightarrow> 'c amo res) list" where
  "lrsc_tests cpu =
     [lrsc_test cpu ''A) basic:'' 42 99 [''   expect: lr=0x2a sc.rd=0x00 mem=0x63''] PASS,
      lrsc_test cpu ''B) val=0x100:'' 0x100 0x200 [''   expect: lr=0x100 sc.rd=0x00 mem=0x200''] PASS,
      lrsc_test cpu ''C) val=0:'' 0 77
        [''   expect: lr=0x00 sc.rd=0x00 mem=0x4d'', ''   (ambiguous if bug returns old val which is also 0)'']
        (''  [PASS/ambiguous]'' @ [NL]),
      lrsc_test cpu ''D) val=1:'' 1 88
        [''   expect: lr=0x01 sc.rd=0x00 mem=0x58'', ''   (if bug: sc.rd=0x01 = old val, looks like sc failed)''] PASS,
      test_E cpu, test_F cpu, test_G cpu]"

definition cmd_amo :: "'c amo_cpu \<Rightarrow> 'c proc \<Rightarrow> 'c proc res" where
  "cmd_amo cpu p =
     bindE (my_puts (lit (''=== AMO test (Zaamo) ==='' @ [NL])) p) (\<lambda>p.
     bindE (run_tests (amo_tests cpu) (p, 0, 0)) (\<lambda>(p, pass, fail).
     bindE (my_puts (lit ([NL] @ ''=== LR/SC detailed tests ==='' @ [NL])) p) (\<lambda>p.
     bindE (run_tests (lrsc_tests cpu) (p, pass, fail)) (\<lambda>(p, pass, fail).
       outputs [my_puts (lit ([NL] @ ''Result: '')), my_putnum (of_nat pass), my_puts (lit ''/''),
                my_putnum (of_nat (pass + fail)),
                my_puts (lit ((if pass + fail = pass then '' ALL PASSED'' else '' SOME FAILED'') @ [NL]))] p))))"

subsection \<open>The shell\<close>

text \<open>
  \<open>while (!(uart[0] & (1u << 19)));\<close> from the read with number \<open>i\<close> on: the number of the first read behind the loop, \<open>None\<close> if the UART never becomes
  ready.
\<close>

partial_function (option) uart_wait :: "(nat \<Rightarrow> u32) \<Rightarrow> nat \<Rightarrow> nat option" where
  "uart_wait st i = (if st i AND push_bit 19 1 = 0 then uart_wait st (Suc i) else Some (Suc i))"

definition diag_putc :: "char \<Rightarrow> 'c proc \<Rightarrow> 'c proc option" where
  "diag_putc c p = (case uart_wait (pr_uart p) 0 of
     None \<Rightarrow> None
   | Some k \<Rightarrow> Some (call (Mmio_putc c) (p\<lparr>pr_uart := (\<lambda>i. pr_uart p (k + i))\<rparr>)))"

text \<open>\<open>read(0, buf, 127)\<close>: at most 127 characters, the others stay for the next call.\<close>

definition sys_read :: "string \<Rightarrow> 'c proc \<Rightarrow> int \<times> string \<times> 'c proc" where
  "sys_read buf p =
     (let p' = call Sys_read p in
      case pr_reads p of
        [] \<Rightarrow> (0, buf, p')
      | Inl e # rs \<Rightarrow> (- int e, buf, p'\<lparr>pr_reads := rs\<rparr>)
      | Inr s # rs \<Rightarrow>
          (int (length (take 127 s)), take 127 s @ drop (length (take 127 s)) buf,
           p'\<lparr>pr_reads := (if length s > 127 then Inr (drop 127 s) # rs else rs)\<rparr>))"

text \<open>One pass of the loop; \<open>None\<close> leaves it.\<close>

definition dispatch_cmd :: "'c amo_cpu \<Rightarrow> string \<Rightarrow> 'c proc \<Rightarrow> 'c proc option res" where
  "dispatch_cmd cpu buf p =
     bindE (my_strcmp buf (lit ''uname'')) (\<lambda>r. if r = 0 then bindE (cmd_uname p) (\<lambda>p. Inr (Some p)) else
     bindE (my_strcmp buf (lit ''info'')) (\<lambda>r. if r = 0 then bindE (cmd_info p) (\<lambda>p. Inr (Some p)) else
     bindE (my_strcmp buf (lit ''amo'')) (\<lambda>r. if r = 0 then bindE (cmd_amo cpu p) (\<lambda>p. Inr (Some p)) else
     bindE (my_strcmp buf (lit ''help'')) (\<lambda>r. if r = 0 then bindE (cmd_help p) (\<lambda>p. Inr (Some p)) else
     bindE (my_strcmp buf (lit ''exit'')) (\<lambda>r. if r = 0 then Inr None else
     bindE (outputs [my_puts (lit ''unknown: ''), my_puts buf, my_puts (lit [NL])] p) (\<lambda>p. Inr (Some p)))))))"

definition shell_pass :: "'c amo_cpu \<Rightarrow> string \<Rightarrow> 'c proc \<Rightarrow> (string \<times> 'c proc \<times> bool) res" where
  "shell_pass cpu buf p =
     bindE (my_puts (lit ''nommu# '') p) (\<lambda>p.
     let (n, buf, p) = sys_read buf p in
     if n \<le> 0 then Inr (buf, p, False)
     else if nat n \<ge> length buf then Inl Out_of_bounds
     else
       bindE (chomp (buf[nat n := NUL])) (\<lambda>buf.
       if buf ! 0 = NUL then Inr (buf, p, True)
       else bindE (dispatch_cmd cpu buf p) (\<lambda>r. case r of
              None \<Rightarrow> Inr (buf, p, False) | Some p \<Rightarrow> Inr (buf, p, True))))"

partial_function (option) shell_loop :: "'c amo_cpu \<Rightarrow> string \<Rightarrow> 'c proc \<Rightarrow> 'c proc res option" where
  "shell_loop cpu buf p =
     (case shell_pass cpu buf p of
        Inl e \<Rightarrow> Some (Inl e)
      | Inr (buf, p, go) \<Rightarrow> if go then shell_loop cpu buf p else Some (Inr p))"

text \<open>The dash of the banner is the three bytes of its UTF-8 code.\<close>

definition banner :: "string list" where
  "banner = [[NL], ''========================================'' @ [NL],
     '' NEORV32 nommu Linux '' @ [CHR 0xE2, CHR 0x80, CHR 0x94] @ '' mini shell       '' @ [NL],
     ''========================================'' @ [NL]]"

definition shell_start :: "'c amo_cpu \<Rightarrow> string \<Rightarrow> 'c proc \<Rightarrow> 'c proc res option" where
  "shell_start cpu buf p =
     (case diag_putc CHR ''!'' p of
        None \<Rightarrow> None
      | Some p \<Rightarrow>
     (case bindE (outputs (map (\<lambda>s. my_puts (lit s)) banner) p) (\<lambda>p.
           outputs [cmd_uname, cmd_info,
             my_puts (lit ([NL] @ ''Type '' @ [CHR 0x27] @ ''help'' @ [CHR 0x27] @ '' for commands.'' @ [NL, NL]))] p) of
        Inl e \<Rightarrow> Some (Inl e)
      | Inr p \<Rightarrow>
          (case shell_loop cpu buf p of
             None \<Rightarrow> None
           | Some r \<Rightarrow> Some (bindE r (\<lambda>p.
               bindE (my_puts (lit (''Halting.'' @ [NL])) p) (\<lambda>p. Inr (call (Sys_exit 0) p)))))))"

subsection \<open>Strings\<close>

definition cstr :: "string \<Rightarrow> string" where
  "cstr s = takeWhile (\<lambda>c. c \<noteq> NUL) s"

lemma my_strlen_ok: "NUL \<in> set s \<Longrightarrow> my_strlen s = Inr (length (cstr s))"
  by (induction s) (auto simp: cstr_def)

lemma my_puts_ok [simp]: "NUL \<in> set s \<Longrightarrow> my_puts s p = Inr (call (Sys_write (cstr s)) p)"
  by (simp add: my_puts_def my_strlen_ok) (simp add: cstr_def flip: takeWhile_eq_take)

lemma lit_terminated [simp]: "NUL \<in> set (lit s)"
  by (simp add: lit_def)

lemma cstr_lit [simp]: "NUL \<notin> set s \<Longrightarrow> cstr (lit s) = s"
  unfolding cstr_def lit_def by (subst takeWhile_append2) auto

lemma cstr_terminated: "NUL \<notin> set (cstr s)"
  by (auto simp: cstr_def dest: set_takeWhileD)

lemma length_cstr: "NUL \<in> set s \<Longrightarrow> length (cstr s) < length s"
  by (induction s) (auto simp: cstr_def)

lemma my_strcmp_ok:
  "NUL \<in> set a \<Longrightarrow> NUL \<in> set b \<Longrightarrow> \<exists>r. my_strcmp a b = Inr r \<and> (r = 0 \<longleftrightarrow> cstr a = cstr b)"
proof (induction a b rule: my_strcmp.induct)
  case (3 x a y b)
  show ?case
  proof (cases "x \<noteq> NUL \<and> x = y")
    case True
    then show ?thesis using 3 by (auto simp: cstr_def)
  next
    case False
    have "(of_char x :: int) - of_char y = 0 \<longleftrightarrow> x = y" by simp
    then show ?thesis using False by (auto simp: cstr_def)
  qed
qed auto

lemma chomp_loop_ok:
  assumes "n < length s" "s ! n = NUL" "\<forall>i < n. s ! i \<noteq> NUL"
  shows "NUL \<in> set (chomp_loop n s) \<and> length (chomp_loop n s) = length s \<and>
    cstr (chomp_loop n s) = rev (dropWhile (\<lambda>c. c = NL \<or> c = CR) (rev (take n s)))"
  using assms
proof (induction n s rule: chomp_loop.induct)
  case (1 s)
  then show ?case by (cases s) (auto simp: cstr_def)
next
  case (2 n s)
  have t: "take (Suc n) s = take n s @ [s ! n]" using 2(2) by (simp add: take_Suc_conv_app_nth)
  show ?case
  proof (cases "s ! n = NL \<or> s ! n = CR")
    case True
    have "n < length (s[n := NUL])" "s[n := NUL] ! n = NUL" "\<forall>i < n. s[n := NUL] ! i \<noteq> NUL"
      using 2(2, 4) by auto
    from 2(1) [OF True this] True show ?thesis by (simp add: t)
  next
    case False
    have "cstr s = take (Suc n) s"
      unfolding cstr_def by (rule takeWhile_eq_take_P_nth [where P = "\<lambda>c. c \<noteq> NUL"]) (use 2(2-4) in auto)
    moreover have "NUL \<in> set s" using 2(2, 3) by (metis nth_mem)
    ultimately show ?thesis using False by (simp add: t)
  qed
qed

lemma chomp_ok:
  assumes "NUL \<in> set s"
  shows "\<exists>s'. chomp s = Inr s' \<and> NUL \<in> set s' \<and> length s' = length s \<and>
    cstr s' = rev (dropWhile (\<lambda>c. c = NL \<or> c = CR) (rev (cstr s)))"
proof -
  let ?n = "length (cstr s)"
  have l: "?n < length s" by (rule length_cstr [OF assms])
  have "s ! ?n = NUL" using nth_length_takeWhile [of "\<lambda>c. c \<noteq> NUL" s] l by (simp add: cstr_def)
  moreover have "\<forall>i < ?n. s ! i \<noteq> NUL"
  proof (intro allI impI)
    fix i assume i: "i < ?n"
    then have "cstr s ! i \<noteq> NUL" using cstr_terminated [of s] by (metis nth_mem)
    then show "s ! i \<noteq> NUL" using i by (simp add: cstr_def takeWhile_nth)
  qed
  moreover have "take ?n s = cstr s" by (simp add: cstr_def flip: takeWhile_eq_take)
  ultimately show ?thesis
    using chomp_loop_ok [OF l] by (simp add: chomp_def my_strlen_ok assms)
qed

subsection \<open>Numbers\<close>

definition dec_val :: "string \<Rightarrow> nat" where
  "dec_val s = foldl (\<lambda>a c. 10 * a + (of_char c - 48)) 0 s"

definition is_digit :: "char \<Rightarrow> bool" where
  "is_digit c \<longleftrightarrow> (of_char c :: nat) \<in> {48..57}"

lemma digit_char: "d < 10 \<Longrightarrow> is_digit (char_of (48 + d)) \<and> of_char (char_of (48 + d)) - 48 = (d :: nat)"
  by (simp add: is_digit_def)

lemma dec_val_foldl: "foldl (\<lambda>a c. 10 * a + (of_char c - 48)) x s = x * 10 ^ length s + dec_val s"
proof (induction s arbitrary: x)
  case (Cons c s)
  show ?case unfolding dec_val_def [of "c # s"] foldl_Cons Cons by (simp add: algebra_simps)
qed (simp add: dec_val_def)

lemma dec_val_Cons: "dec_val (c # s) = (of_char c - 48) * 10 ^ length s + dec_val s"
proof -
  have "dec_val (c # s) = foldl (\<lambda>a c. 10 * a + (of_char c - 48)) (10 * 0 + (of_char c - 48)) s"
    by (simp only: dec_val_def foldl_Cons)
  then show ?thesis by (simp only: dec_val_foldl) simp
qed

lemma unat_div_mod_10: "unat (v mod 10) = unat v mod 10" "unat (v div 10) = unat v div 10" for v :: u32
  by (simp_all add: unat_mod_distrib unat_div_distrib)

lemma putnum_loop_ok:
  assumes "unat v < 10 ^ i" "v \<noteq> 0" "list_all is_digit ds"
  shows "\<exists>c s. putnum_loop i v (ds @ [NUL]) = Inr (c # s @ ds @ [NUL]) \<and> list_all is_digit (c # s @ ds) \<and>
    c \<noteq> CHR ''0'' \<and> dec_val (c # s @ ds) = unat v * 10 ^ length ds + dec_val ds"
  using assms
proof (induction i arbitrary: v ds)
  case (Suc i)
  let ?d = "char_of (48 + unat (v mod 10)) :: char"
  have d: "is_digit ?d" "of_char ?d - 48 = unat v mod 10"
    unfolding unat_div_mod_10 using digit_char [of "unat v mod 10"] by simp_all
  have val: "dec_val (?d # ds) = unat v mod 10 * 10 ^ length ds + dec_val ds" by (simp only: dec_val_Cons d(2))
  show ?case
  proof (cases "v div 10 = 0")
    case True
    then have lt: "unat v < 10" using unat_div_mod_10(2) [of v] by simp
    have "?d \<noteq> CHR ''0''"
    proof
      assume "?d = CHR ''0''"
      then have "unat v mod 10 = 0" using d(2) by simp
      then show False using lt Suc.prems(2) by (simp add: unat_eq_zero)
    qed
    then show ?thesis using True d val lt Suc.prems(3)
      by (intro exI [of _ ?d] exI [of _ "[]"]) (simp add: putnum_loop.simps [of "Suc i" v])
  next
    case False
    have "unat (v div 10) < 10 ^ i"
      using Suc.prems(1) by (simp add: unat_div_mod_10 less_mult_imp_div_less mult.commute)
    from Suc.IH [OF this False, of "?d # ds"] d(1) Suc.prems(3)
    obtain c s where c: "putnum_loop i (v div 10) (?d # ds @ [NUL]) = Inr (c # s @ ?d # ds @ [NUL])"
        "list_all is_digit (c # s @ ?d # ds)" "c \<noteq> CHR ''0''"
        "dec_val (c # s @ ?d # ds) = unat (v div 10) * 10 ^ length (?d # ds) + dec_val (?d # ds)"
      by auto
    have "dec_val (c # s @ ?d # ds) = (unat v div 10 * 10 + unat v mod 10) * 10 ^ length ds + dec_val ds"
      unfolding c(4) val by (simp only: unat_div_mod_10(2) length_Cons power_Suc add_mult_distrib mult.assoc add.assoc)
    then have "dec_val (c # s @ ?d # ds) = unat v * 10 ^ length ds + dec_val ds" by simp
    then show ?thesis using c(1-3) False
      by (intro exI [of _ c] exI [of _ "s @ [?d]"]) (simp add: putnum_loop.simps [of "Suc i" v])
  qed
qed (simp add: unat_eq_zero)

lemma putnum_written:
  "\<exists>ds. my_putnum v p = Inr (call (Sys_write ds) p) \<and> ds \<noteq> [] \<and> list_all is_digit ds \<and>
     dec_val ds = unat v \<and> (hd ds = CHR ''0'' \<longrightarrow> ds = ''0'')"
proof (cases "v = 0")
  case True
  then show ?thesis by (intro exI [of _ "''0''"]) (simp add: my_putnum_def is_digit_def dec_val_def)
next
  case False
  have "unat v < 10 ^ 11" using unsigned_less [of v, where 'a = nat] by simp
  from putnum_loop_ok [OF this False, of "[]"]
  obtain c s where c: "putnum_loop 11 v [NUL] = Inr (c # s @ [NUL])" "list_all is_digit (c # s)" "c \<noteq> CHR ''0''"
      "dec_val (c # s) = unat v"
    by (auto simp: dec_val_def)
  have "NUL \<notin> set (c # s)" using c(2) by (auto simp: is_digit_def list_all_iff)
  then have "cstr (c # s @ [NUL]) = c # s" using cstr_lit [of "c # s"] by (simp add: lit_def)
  then show ?thesis using c False by (intro exI [of _ "c # s"]) (simp add: my_putnum_def)
qed

text \<open>
  \<open>my_putnum\<close> writes the decimal digits of any 32-bit number, without leading zeros, in one write,
  and its buffer of twelve characters is always large enough.
\<close>

theorem my_putnum_decimal:
  "\<exists>ds. my_putnum v p = Inr (call (Sys_write ds) p) \<and> ds \<noteq> [] \<and> list_all is_digit ds \<and>
     dec_val ds = unat v \<and> (hd ds = CHR ''0'' \<longrightarrow> ds = ''0'')"
  by (rule putnum_written)

text \<open>What the commands do to the process: they write, and use the processor.\<close>

definition wrote :: "'c proc \<Rightarrow> 'c proc \<Rightarrow> bool" where
  "wrote p p' \<longleftrightarrow> (\<exists>tr c. p' = p\<lparr>pr_trace := pr_trace p @ tr, pr_cpu := c\<rparr> \<and> (\<forall>e \<in> set tr. \<forall>n. e \<noteq> Sys_exit n))"

lemma wrote_refl [simp]: "wrote p p"
  unfolding wrote_def by (intro exI [of _ "[]"] exI [of _ "pr_cpu p"]) simp

lemma wrote_trans [trans]: "wrote p q \<Longrightarrow> wrote q r \<Longrightarrow> wrote p r"
  unfolding wrote_def by (elim exE) (rule_tac x = "tr @ tra" in exI, rule_tac x = ca in exI, auto)

lemma wrote_call [simp]: "(\<forall>n. c \<noteq> Sys_exit n) \<Longrightarrow> wrote p (call c p)"
  unfolding wrote_def call_def by (intro exI [of _ "[c]"] exI [of _ "pr_cpu p"]) simp

lemma wrote_cpu [simp]: "wrote p (p\<lparr>pr_cpu := c\<rparr>)"
  unfolding wrote_def by (intro exI [of _ "[]"] exI [of _ c]) simp

lemma wrote_keeps:
  "wrote p p' \<Longrightarrow> pr_reads p' = pr_reads p \<and> pr_uname p' = pr_uname p \<and> pr_sysinfo p' = pr_sysinfo p"
  by (auto simp: wrote_def)

definition writes :: "('c proc \<Rightarrow> 'c proc res) \<Rightarrow> bool" where
  "writes f \<longleftrightarrow> (\<forall>p. \<exists>p'. f p = Inr p' \<and> wrote p p')"

lemma writes_puts [simp]: "NUL \<in> set s \<Longrightarrow> writes (my_puts s)"
  by (simp add: writes_def)

lemma writes_write [simp]: "writes (\<lambda>p. Inr (call (Sys_write s) p))"
  by (simp add: writes_def)

lemma writes_putnum [simp]: "writes (my_putnum v)"
  unfolding writes_def using putnum_written by (metis wrote_call syscall.distinct(7))

lemma writes_puthex [simp]: "writes (my_puthex v)"
  by (simp add: my_puthex_def)

lemma writes_outputs [simp]: "list_all writes fs \<Longrightarrow> writes (outputs fs)"
proof (induction fs)
  case (Cons f fs)
  show ?case unfolding writes_def
  proof
    fix p
    obtain q where "f p = Inr q" "wrote p q" using Cons.prems by (auto simp: writes_def)
    moreover obtain r where "outputs fs q = Inr r" "wrote q r" using Cons by (auto simp: writes_def)
    ultimately show "\<exists>p'. outputs (f # fs) p = Inr p' \<and> wrote p p'" by (auto intro: wrote_trans)
  qed
qed (simp add: writes_def)

subsection \<open>The test of the atomic instructions\<close>

text \<open>A test counts as passed or failed, and only writes.\<close>

definition counts :: "('c amo \<Rightarrow> 'c amo res) \<Rightarrow> ('c \<Rightarrow> bool) \<Rightarrow> bool" where
  "counts t ok \<longleftrightarrow> (\<forall>p pass fail. \<exists>p'. wrote p p' \<and>
     t (p, pass, fail) = Inr (p', if ok (pr_cpu p) then (pass + 1, fail) else (pass, fail + 1)))"

lemma verdict_counts:
  "\<exists>p'. wrote p p' \<and> verdict ok good bad (p, pass, fail) = Inr (p', if ok then (pass + 1, fail) else (pass, fail + 1))"
proof -
  have "writes (outputs (map (\<lambda>s. my_puts (lit s)) bad))" by (simp add: list_all_iff)
  then obtain q where "outputs (map (\<lambda>s. my_puts (lit s)) bad) p = Inr q" "wrote p q" unfolding writes_def by blast
  then show ?thesis by (simp add: verdict_def)
qed

lemma outputs_verdict:
  assumes "list_all writes fs"
  shows "\<exists>p'. wrote p p' \<and> bindE (outputs fs (p\<lparr>pr_cpu := c\<rparr>)) (\<lambda>p. verdict ok good bad (p, pass, fail)) =
    Inr (p', if ok then (pass + 1, fail) else (pass, fail + 1))"
proof -
  obtain q where q: "outputs fs (p\<lparr>pr_cpu := c\<rparr>) = Inr q" "wrote (p\<lparr>pr_cpu := c\<rparr>) q"
    using writes_outputs [OF assms] unfolding writes_def by blast
  obtain r where r: "wrote q r" "verdict ok good bad (q, pass, fail) = Inr (r, if ok then (pass + 1, fail) else (pass, fail + 1))"
    using verdict_counts by blast
  have "wrote p r" using wrote_trans [OF wrote_trans [OF wrote_cpu q(2)] r(1)] .
  then show ?thesis using q r by auto
qed

lemma amo_test_counts:
  "counts (amo_test cpu name ins v arg new)
     (\<lambda>c. let (result, c) = ins arg (store cpu v c) in result = v \<and> loads cpu c = new)"
  unfolding counts_def amo_test_def by (simp only: split_beta Let_def fst_conv snd_conv, intro allI outputs_verdict) (simp_all add: list_all_iff)

lemma lrsc_test_counts:
  "counts (lrsc_test cpu name v arg notes good)
     (\<lambda>c. let (result, c) = lr cpu (store cpu v c); (tmp, c) = sc cpu arg c
          in result = v \<and> tmp = 0 \<and> loads cpu c = arg)"
  unfolding counts_def lrsc_test_def
  by (simp only: split_beta Let_def fst_conv snd_conv, intro allI outputs_verdict) (simp_all add: list_all_iff)

lemma test_E_counts:
  "counts (test_E cpu) (\<lambda>c. let (result, c) = lr cpu (store cpu 42 c); (tmp, c) = sc cpu 99 (store cpu 55 c)
     in result = 42 \<and> tmp \<noteq> 0 \<and> loads cpu c = 55)"
  unfolding counts_def test_E_def by (simp only: split_beta Let_def fst_conv snd_conv, intro allI outputs_verdict) (simp_all add: list_all_iff)

lemma test_F_counts:
  "counts (test_F cpu) (\<lambda>c. let (result, c) = lr cpu (store cpu 42 c); (tmp, c) = sc cpu 99 c; (tmp2, c) = sc cpu 200 c
     in result = 42 \<and> tmp = 0 \<and> tmp2 \<noteq> 0 \<and> loads cpu c = 99)"
  unfolding counts_def test_F_def by (simp only: split_beta Let_def fst_conv snd_conv, intro allI outputs_verdict) (simp_all add: list_all_iff)

lemma test_G_counts:
  "counts (test_G cpu) (\<lambda>c. let (result, c) = lr cpu (store cpu 0xCAFE c) in result = 0xCAFE \<and> loads cpu c = 0xCAFE)"
  unfolding counts_def test_G_def by (simp only: split_beta Let_def fst_conv snd_conv, intro allI outputs_verdict) (simp_all add: list_all_iff)

lemmas test_counts = amo_test_counts lrsc_test_counts test_E_counts test_F_counts test_G_counts

lemma counts_run:
  assumes "counts t ok"
  shows "\<exists>p'. wrote p p' \<and> run_tests (t # ts) (p, pass, fail) =
    run_tests ts (p', if ok (pr_cpu p) then (pass + 1, fail) else (pass, fail + 1))"
  using assms unfolding counts_def run_tests.simps by (metis bindE.simps(2))

lemma run_tests_counts:
  assumes "list_all (\<lambda>t. \<exists>ok. counts t ok) ts"
  shows "\<exists>p' a b. wrote p p' \<and> run_tests ts (p, pass, fail) = Inr (p', a, b) \<and> a + b = pass + fail + length ts \<and> fail \<le> b"
  using assms
proof (induction ts arbitrary: p pass fail)
  case (Cons t ts)
  then obtain ok where "counts t ok" by auto
  from counts_run [OF this] obtain q where q: "wrote p q"
      "run_tests (t # ts) (p, pass, fail) = run_tests ts (q, if ok (pr_cpu p) then (pass + 1, fail) else (pass, fail + 1))"
    by blast
  have ts: "list_all (\<lambda>t. \<exists>ok. counts t ok) ts" using Cons.prems by simp
  show ?case using q Cons.IH [OF ts, of q "pass + 1" fail] Cons.IH [OF ts, of q pass "fail + 1"]
    by (cases "ok (pr_cpu p)") (fastforce intro: wrote_trans)+
qed simp

lemma run_tests_pass:
  assumes "list_all (\<lambda>t. \<exists>ok. counts t ok \<and> (\<forall>c. ok c)) ts"
  shows "\<exists>p'. wrote p p' \<and> run_tests ts (p, pass, fail) = Inr (p', pass + length ts, fail)"
  using assms
proof (induction ts arbitrary: p pass)
  case (Cons t ts)
  then obtain ok where ok: "counts t ok" "\<And>c. ok c" by auto
  from counts_run [OF ok(1), of p ts pass fail] ok(2) obtain q where q: "wrote p q"
      "run_tests (t # ts) (p, pass, fail) = run_tests ts (q, pass + 1, fail)" by auto
  have ts: "list_all (\<lambda>t. \<exists>ok. counts t ok \<and> (\<forall>c. ok c)) ts" using Cons.prems by simp
  show ?case using q Cons.IH [OF ts, of q "pass + 1"] by (fastforce intro: wrote_trans)
qed simp

text \<open>
  What the extension A of the instruction set demands, on one word and with one reservation: a store-conditional succeeds only with the
  reservation, reports success by 0 and failure by another number, stores exactly on success, and gives the reservation up in either case.  It
  does not demand that a store-conditional with the reservation succeeds, nor that a store of the same hart breaks the reservation.
\<close>

definition isa_cpu :: "'c amo_cpu \<Rightarrow> ('c \<Rightarrow> bool) \<Rightarrow> bool" where
  "isa_cpu cpu resv \<longleftrightarrow> (\<forall>c a.
     loads cpu (store cpu a c) = a \<and>
     fst (amoadd cpu a c) = loads cpu c \<and> loads cpu (snd (amoadd cpu a c)) = loads cpu c + a \<and>
     fst (amoswap cpu a c) = loads cpu c \<and> loads cpu (snd (amoswap cpu a c)) = a \<and>
     fst (amoor cpu a c) = loads cpu c \<and> loads cpu (snd (amoor cpu a c)) = loads cpu c OR a \<and>
     fst (amoand cpu a c) = loads cpu c \<and> loads cpu (snd (amoand cpu a c)) = loads cpu c AND a \<and>
     fst (lr cpu c) = loads cpu c \<and> loads cpu (snd (lr cpu c)) = loads cpu c \<and>
     (fst (sc cpu a c) = 0 \<longrightarrow> resv c \<and> loads cpu (snd (sc cpu a c)) = a) \<and>
     (fst (sc cpu a c) \<noteq> 0 \<longrightarrow> loads cpu (snd (sc cpu a c)) = loads cpu c) \<and>
     \<not> resv (snd (sc cpu a c)))"

text \<open>
  What the tests A to F expect beyond it: load-reserved takes the reservation, a store-conditional that has it succeeds, and a store to the word takes it
  away, also one of the same hart.  The reservation of the NEORV32 is one that tracks its address
  (\<open>neorv32_patches/README.md\<close>); the first two hold there as long as no trap is taken between the instructions of a test, since Linux clears the
  reservation on its way out of a trap.
\<close>

definition exact_reservation :: "'c amo_cpu \<Rightarrow> ('c \<Rightarrow> bool) \<Rightarrow> bool" where
  "exact_reservation cpu resv \<longleftrightarrow> (\<forall>c a. resv (snd (lr cpu c)) \<and> (resv c \<longrightarrow> fst (sc cpu a c) = 0) \<and> \<not> resv (store cpu a c))"

lemma passI: "counts t ok \<Longrightarrow> (\<And>c. ok c) \<Longrightarrow> \<exists>ok. counts t ok \<and> (\<forall>c. ok c)"
  by blast

lemma all_tests_pass:
  assumes "isa_cpu cpu resv" "exact_reservation cpu resv"
  shows "list_all (\<lambda>t. \<exists>ok. counts t ok \<and> (\<forall>c. ok c)) (amo_tests cpu)"
    "list_all (\<lambda>t. \<exists>ok. counts t ok \<and> (\<forall>c. ok c)) (lrsc_tests cpu)"
proof -
  have sc: "fst (sc cpu a c) = 0 \<longleftrightarrow> resv c" for a c
    using assms unfolding isa_cpu_def exact_reservation_def by blast
  then have mem: "loads cpu (snd (sc cpu a c)) = (if resv c then a else loads cpu c)" for a c
    using assms(1) unfolding isa_cpu_def by metis
  show "list_all (\<lambda>t. \<exists>ok. counts t ok \<and> (\<forall>c. ok c)) (amo_tests cpu)"
    "list_all (\<lambda>t. \<exists>ok. counts t ok \<and> (\<forall>c. ok c)) (lrsc_tests cpu)"
    using assms sc mem unfolding amo_tests_def lrsc_tests_def isa_cpu_def exact_reservation_def
    by (auto simp: split_beta Let_def intro!: test_counts [THEN passI])
qed

lemma countsI: "counts t ok \<Longrightarrow> \<exists>ok. counts t ok"
  by blast

lemma all_tests_count:
  "list_all (\<lambda>t. \<exists>ok. counts t ok) (amo_tests cpu)" "list_all (\<lambda>t. \<exists>ok. counts t ok) (lrsc_tests cpu)"
  unfolding amo_tests_def lrsc_tests_def by (auto intro!: test_counts [THEN countsI])

lemma length_tests [simp]: "length (amo_tests cpu) = 4" "length (lrsc_tests cpu) = 7"
  by (simp_all add: amo_tests_def lrsc_tests_def)

lemma outputs_append: "outputs (fs @ gs) p = bindE (outputs fs p) (outputs gs)"
proof (induction fs arbitrary: p)
  case (Cons f fs)
  then show ?case by (cases "f p") simp_all
qed simp

lemma outputs_last:
  assumes "list_all writes fs" "NUL \<notin> set s"
  shows "\<exists>p'. outputs (fs @ [my_puts (lit s)]) p = Inr p' \<and> pr_trace p' \<noteq> [] \<and> last (pr_trace p') = Sys_write s"
proof -
  obtain q where "outputs fs p = Inr q" using writes_outputs [OF assms(1)] by (auto simp: writes_def)
  then show ?thesis using assms(2) by (simp add: outputs_append call_def)
qed

definition amo_report :: "nat \<Rightarrow> nat \<Rightarrow> 'c proc \<Rightarrow> 'c proc res" where
  "amo_report pass fail =
     outputs [my_puts (lit ([NL] @ ''Result: '')), my_putnum (of_nat pass), my_puts (lit ''/''),
              my_putnum (of_nat (pass + fail)),
              my_puts (lit ((if pass + fail = pass then '' ALL PASSED'' else '' SOME FAILED'') @ [NL]))]"

lemma cmd_amo_report:
  assumes "\<And>q. \<exists>q' a b. wrote q q' \<and> P a b \<and> run_tests (amo_tests cpu) (q, 0, 0) = Inr (q', a, b)"
    "\<And>q a b. P a b \<Longrightarrow> \<exists>q' a' b'. wrote q q' \<and> Q a' b' \<and> run_tests (lrsc_tests cpu) (q, a, b) = Inr (q', a', b')"
  shows "\<exists>q a b. wrote p q \<and> Q a b \<and> cmd_amo cpu p = amo_report a b q"
proof -
  define p1 where "p1 = call (Sys_write (''=== AMO test (Zaamo) ==='' @ [NL])) p"
  obtain p2 a b where p2: "wrote p1 p2" "P a b" "run_tests (amo_tests cpu) (p1, 0, 0) = Inr (p2, a, b)"
    using assms(1) by blast
  define p3 where "p3 = call (Sys_write ([NL] @ ''=== LR/SC detailed tests ==='' @ [NL])) p2"
  obtain p4 a' b' where p4: "wrote p3 p4" "Q a' b'" "run_tests (lrsc_tests cpu) (p3, a, b) = Inr (p4, a', b')"
    using assms(2) [OF p2(2)] by blast
  have "cmd_amo cpu p = amo_report a' b' p4"
    using p2(3) p4(3) by (simp add: cmd_amo_def p1_def p3_def amo_report_def)
  moreover have "wrote p p1" "wrote p2 p3" by (simp_all add: p1_def p3_def)
  ultimately show ?thesis using p2(1) p4(1, 2) by (blast intro: wrote_trans)
qed

text \<open>
  C29: on a processor whose atomic instructions behave as the instruction set demands and whose reservation is exact, that is no
  store-conditional with a reservation fails and a store to the reserved word breaks the reservation, both of which the instruction set leaves open, the command
  \<open>amo\<close> runs all eleven tests and ends with the report that all of them passed.
\<close>

theorem cmd_amo_passes:
  assumes "isa_cpu cpu resv" "exact_reservation cpu resv"
  shows "\<exists>p'. cmd_amo cpu p = Inr p' \<and> (\<exists>tr. pr_trace p' = pr_trace p @ tr @ map Sys_write
    [[NL] @ ''Result: '', ''11'', ''/'', ''11'', '' ALL PASSED'' @ [NL]])"
proof -
  have "\<exists>q a b. wrote p q \<and> (a = 11 \<and> b = 0) \<and> cmd_amo cpu p = amo_report a b q"
  proof (rule cmd_amo_report [where P = "\<lambda>a b. a = 4 \<and> b = 0"])
    show "\<exists>q' a b. wrote q q' \<and> (a = 4 \<and> b = 0) \<and> run_tests (amo_tests cpu) (q, 0, 0) = Inr (q', a, b)" for q
      using run_tests_pass [OF all_tests_pass(1) [OF assms], of q 0 0] by simp
    show "\<exists>q' a' b'. wrote q q' \<and> (a' = 11 \<and> b' = 0) \<and> run_tests (lrsc_tests cpu) (q, a, b) = Inr (q', a', b')"
      if "a = 4 \<and> b = 0" for q a b
      using run_tests_pass [OF all_tests_pass(2) [OF assms], of q 4 0] that by simp
  qed
  then obtain q where q: "wrote p q" "cmd_amo cpu p = amo_report 11 0 q" by blast
  have "my_putnum 11 q' = Inr (call (Sys_write ''11'') q')" for q' :: "'a proc"
  proof -
    have "putnum_loop 11 11 [NUL] = Inr (lit ''11'')" by code_simp
    then show ?thesis by (simp add: my_putnum_def)
  qed
  then have "cmd_amo cpu p = Inr (q\<lparr>pr_trace := pr_trace q @ map Sys_write
      [[NL] @ ''Result: '', ''11'', ''/'', ''11'', '' ALL PASSED'' @ [NL]]\<rparr>)"
    by (simp add: q(2) amo_report_def call_def)
  moreover obtain tr where "pr_trace q = pr_trace p @ tr" using q(1) by (auto simp: wrote_def)
  ultimately show ?thesis by simp
qed

text \<open>
  A store-conditional that does not report its success is detected.  If after a load-reserved of 42 the
  store-conditional delivers anything but 0, as the processor did that returned the old
  word, the command \<open>amo\<close> ends with the report that some tests failed, whatever the other
  instructions do.
\<close>

theorem cmd_amo_detects:
  assumes "\<And>c. fst (sc cpu 99 (snd (lr cpu (store cpu 42 c)))) \<noteq> 0"
  shows "\<exists>p'. cmd_amo cpu p = Inr p' \<and> pr_trace p' \<noteq> [] \<and> last (pr_trace p') = Sys_write ('' SOME FAILED'' @ [NL])"
proof -
  let ?ok = "\<lambda>c. let (result, c) = lr cpu (store cpu 42 c); (tmp, c) = sc cpu 99 c
          in result = 42 \<and> tmp = 0 \<and> loads cpu c = 99"
  have "\<exists>q a b. wrote p q \<and> b \<noteq> 0 \<and> cmd_amo cpu p = amo_report a b q"
  proof (rule cmd_amo_report [where P = "\<lambda>a b. True"])
    show "\<exists>q' a b. wrote q q' \<and> True \<and> run_tests (amo_tests cpu) (q, 0, 0) = Inr (q', a, b)" for q
      using run_tests_counts [OF all_tests_count(1) [of cpu], of q 0 0] by blast
    show "\<exists>q' a' b'. wrote q q' \<and> b' \<noteq> 0 \<and> run_tests (lrsc_tests cpu) (q, a, b) = Inr (q', a', b')" for q a b
    proof -
      obtain t ts where t: "lrsc_tests cpu = t # ts" "counts t ?ok"
        unfolding lrsc_tests_def using lrsc_test_counts by blast
      have ts: "list_all (\<lambda>t. \<exists>ok. counts t ok) ts" using all_tests_count(2) [of cpu] t(1) by simp
      have "\<not> ?ok c" for c using assms by (simp add: split_beta Let_def)
      then obtain q1 where "wrote q q1" "run_tests (lrsc_tests cpu) (q, a, b) = run_tests ts (q1, a, b + 1)"
        using counts_run [OF t(2), of q ts a b] t(1) by auto
      then show ?thesis using run_tests_counts [OF ts, of q1 a "b + 1"] by (fastforce intro: wrote_trans)
    qed
  qed
  then obtain q a b where q: "b \<noteq> 0" "cmd_amo cpu p = amo_report a b q" by blast
  show ?thesis
    unfolding q(2) amo_report_def
    using outputs_last [of "[my_puts (lit ([NL] @ ''Result: '')), my_putnum (of_nat a), my_puts (lit ''/''), my_putnum (of_nat (a + b))]"
        "'' SOME FAILED'' @ [NL]" q] q(1)
    by simp
qed

text \<open>A processor that follows the instruction set, and one whose \<open>sc.w\<close> returns the old word.\<close>

definition ref_cpu :: "(u32 \<times> bool) amo_cpu" where
  "ref_cpu = \<lparr>store = \<lambda>v c. (v, False), loads = fst,
     amoadd = \<lambda>a c. (fst c, fst c + a, snd c), amoswap = \<lambda>a c. (fst c, a, snd c),
     amoor = \<lambda>a c. (fst c, fst c OR a, snd c), amoand = \<lambda>a c. (fst c, fst c AND a, snd c),
     lr = \<lambda>c. (fst c, fst c, True),
     sc = \<lambda>a c. if snd c then (0, a, False) else (1, fst c, False)\<rparr>"

definition stale_cpu :: "(u32 \<times> bool) amo_cpu" where
  "stale_cpu = ref_cpu\<lparr>sc := \<lambda>a c. (fst c, if snd c then a else fst c, False)\<rparr>"

definition demo_proc :: "(u32 \<times> bool) proc" where
  "demo_proc = \<lparr>pr_trace = [], pr_reads = [Inr (''help'' @ [NL]), Inr (''exit'' @ [NL])],
     pr_uname = \<lambda>tr. (0, replicate 390 NUL),
     pr_sysinfo = \<lambda>tr. (0, \<lparr>si_uptime = 6, si_totalram = 31547392, si_freeram = 30709760, si_procs = 15, si_mem_unit = 1\<rparr>),
     pr_uart = (\<lambda>i. if i < 3 then 0 else 0x00080000), pr_cpu = (0, False)\<rparr>"

lemma ref_cpu_isa: "isa_cpu ref_cpu snd" "exact_reservation ref_cpu snd"
  by (auto simp: isa_cpu_def exact_reservation_def ref_cpu_def)

text \<open>
  The tests ask for more than the instruction set.  A processor on which a store of the same hart does not break the reservation, and one whose store-conditional always
  fails, both conform, and \<open>amo\<close> reports failed tests on them.
\<close>

definition own_store_cpu :: "(u32 \<times> bool) amo_cpu" where
  "own_store_cpu = ref_cpu\<lparr>store := \<lambda>v c. (v, snd c)\<rparr>"

definition failing_cpu :: "(u32 \<times> bool) amo_cpu" where
  "failing_cpu = ref_cpu\<lparr>sc := \<lambda>a c. (1, fst c, False)\<rparr>"

lemma conforming_cpus: "isa_cpu own_store_cpu snd" "isa_cpu failing_cpu snd"
  by (auto simp: isa_cpu_def ref_cpu_def own_store_cpu_def failing_cpu_def)

theorem cmd_amo_conforming_fails:
  "isa_cpu failing_cpu snd \<and> (\<exists>p'. cmd_amo failing_cpu p = Inr p' \<and> pr_trace p' \<noteq> [] \<and> last (pr_trace p') = Sys_write ('' SOME FAILED'' @ [NL]))"
proof -
  have "fst (sc failing_cpu 99 (snd (lr failing_cpu (store failing_cpu 42 c)))) \<noteq> 0" for c by (simp add: failing_cpu_def)
  from cmd_amo_detects [OF this] show ?thesis using conforming_cpus(2) by blast
qed

theorem cmd_amo_own_store_fails:
  "isa_cpu own_store_cpu snd \<and> (case test_E own_store_cpu (p, pass, fail) of Inl _ \<Rightarrow> False | Inr (_, n, f) \<Rightarrow> n = pass \<and> f = fail + 1)"
proof -
  obtain p' where "test_E own_store_cpu (p, pass, fail) = Inr (p', pass, fail + 1)"
    using test_E_counts [of own_store_cpu, unfolded counts_def, rule_format, of p pass fail]
    by (auto simp: own_store_cpu_def ref_cpu_def)
  then show ?thesis using conforming_cpus(1) by simp
qed

theorem my_putnum_decimal_witness:
  "\<exists>ds. my_putnum 4294967295 demo_proc = Inr (call (Sys_write ds) demo_proc) \<and> dec_val ds = unat (4294967295 :: u32)"
  using my_putnum_decimal [of 4294967295 demo_proc] by blast

theorem cmd_amo_passes_witness:
  "isa_cpu ref_cpu snd \<and> exact_reservation ref_cpu snd \<and> (\<exists>p'. cmd_amo ref_cpu demo_proc = Inr p' \<and>
     (\<exists>tr. pr_trace p' = pr_trace demo_proc @ tr @ map Sys_write [[NL] @ ''Result: '', ''11'', ''/'', ''11'', '' ALL PASSED'' @ [NL]]))"
  using cmd_amo_passes [OF ref_cpu_isa, of demo_proc] ref_cpu_isa by blast

theorem cmd_amo_detects_witness:
  "\<exists>p'. cmd_amo stale_cpu demo_proc = Inr p' \<and> pr_trace p' \<noteq> [] \<and> last (pr_trace p') = Sys_write ('' SOME FAILED'' @ [NL])"
  by (rule cmd_amo_detects) (simp add: stale_cpu_def ref_cpu_def)

subsection \<open>The shell ends\<close>

text \<open>What the kernel promises of \<open>uname\<close>: six terminated fields.\<close>

definition uts_ok :: "string \<Rightarrow> bool" where
  "uts_ok u \<longleftrightarrow> length u = 390 \<and> (\<forall>k < 6. NUL \<in> set (take 65 (uts_field k u)))"

definition uname_ok :: "'c proc \<Rightarrow> bool" where
  "uname_ok p \<longleftrightarrow> (\<forall>tr. uts_ok (snd (pr_uname p tr)))"

lemma wrote_uname_ok: "wrote p q \<Longrightarrow> uname_ok p \<Longrightarrow> uname_ok q"
  by (simp add: wrote_keeps uname_ok_def)

lemma writes_after: "wrote p q \<Longrightarrow> writes f \<Longrightarrow> \<exists>r. f q = Inr r \<and> wrote p r"
  unfolding writes_def by (blast intro: wrote_trans)

lemma writes_info [simp]: "writes cmd_info"
  unfolding writes_def
proof
  fix p :: "'a proc"
  obtain ret si where r: "pr_sysinfo p (pr_trace p) = (ret, si)" by fastforce
  show "\<exists>p'. cmd_info p = Inr p' \<and> wrote p p'"
  proof (cases "ret = 0")
    case True
    show ?thesis unfolding cmd_info_def r Let_def prod.case if_P [OF True]
      by (rule writes_after, simp, rule writes_outputs) simp
  qed (simp add: cmd_info_def r)
qed

lemma writes_help [simp]: "writes cmd_help"
  unfolding cmd_help_def by (rule writes_outputs) simp

lemma writes_amo [simp]: "writes (cmd_amo cpu)"
  unfolding writes_def
proof
  fix p
  have "\<exists>q a b. wrote p q \<and> True \<and> cmd_amo cpu p = amo_report a b q"
    by (rule cmd_amo_report [where P = "\<lambda>a b. True"]; use run_tests_counts [OF all_tests_count(1)] run_tests_counts [OF all_tests_count(2)] in blast)
  then obtain q a b where q: "wrote p q" "cmd_amo cpu p = amo_report a b q" by blast
  show "\<exists>p'. cmd_amo cpu p = Inr p' \<and> wrote p p'"
    unfolding q(2) amo_report_def by (rule writes_after [OF q(1)], rule writes_outputs) simp
qed

lemma cmd_uname_ok:
  assumes "uname_ok p"
  shows "\<exists>p'. cmd_uname p = Inr p' \<and> wrote p p'"
proof -
  obtain ret u where r: "pr_uname p (pr_trace p) = (ret, u)" by fastforce
  have "NUL \<in> set (uts_field k u)" if "k < 6" for k
  proof -
    have "uts_ok u" using assms r unfolding uname_ok_def by (metis snd_conv)
    then show ?thesis using that unfolding uts_ok_def by (blast dest: in_set_takeD)
  qed
  then have f: "NUL \<in> set (uts_field 0 u)" "NUL \<in> set (uts_field 1 u)" "NUL \<in> set (uts_field 2 u)"
      "NUL \<in> set (uts_field 3 u)" "NUL \<in> set (uts_field 4 u)"
    by simp_all
  show ?thesis
  proof (cases "ret = 0")
    case True
    show ?thesis unfolding cmd_uname_def r Let_def prod.case if_P [OF True]
      by (rule writes_after, simp, rule writes_outputs) (simp add: f [simplified])
  qed (simp add: cmd_uname_def r)
qed

lemma dispatch_ok:
  assumes "NUL \<in> set buf" "uname_ok p"
  shows "\<exists>r. dispatch_cmd cpu buf p = Inr r \<and> (\<forall>p'. r = Some p' \<longrightarrow> wrote p p')"
proof -
  have c: "\<exists>r. my_strcmp buf (lit s) = Inr r" for s using my_strcmp_ok [OF assms(1), of "lit s"] by auto
  obtain r1 r2 r3 r4 r5 where r: "my_strcmp buf (lit ''uname'') = Inr r1" "my_strcmp buf (lit ''info'') = Inr r2"
      "my_strcmp buf (lit ''amo'') = Inr r3" "my_strcmp buf (lit ''help'') = Inr r4" "my_strcmp buf (lit ''exit'') = Inr r5"
    using c by metis
  obtain q1 where q1: "cmd_uname p = Inr q1" "wrote p q1" using cmd_uname_ok [OF assms(2)] by blast
  obtain q2 where q2: "cmd_info p = Inr q2" "wrote p q2" using writes_after [OF wrote_refl writes_info] by blast
  obtain q3 where q3: "cmd_amo cpu p = Inr q3" "wrote p q3" using writes_after [OF wrote_refl writes_amo] by blast
  obtain q4 where q4: "cmd_help p = Inr q4" "wrote p q4" using writes_after [OF wrote_refl writes_help] by blast
  have "writes (outputs [my_puts (lit ''unknown: ''), my_puts buf, my_puts (lit [NL])])" using assms(1) by simp
  from writes_after [OF wrote_refl this]
  obtain q5 where q5: "outputs [my_puts (lit ''unknown: ''), my_puts buf, my_puts (lit [NL])] p = Inr q5" "wrote p q5" by blast
  show ?thesis unfolding dispatch_cmd_def r bindE.simps q1(1) q2(1) q3(1) q4(1) q5(1)
    using q1(2) q2(2) q3(2) q4(2) q5(2) by simp
qed

text \<open>A stretch of the session without an exit; and what is left to read.\<close>

definition ran :: "'c proc \<Rightarrow> 'c proc \<Rightarrow> bool" where
  "ran p p' \<longleftrightarrow> pr_uname p' = pr_uname p \<and>
     (\<exists>tr. pr_trace p' = pr_trace p @ tr \<and> (\<forall>e \<in> set tr. \<forall>n. e \<noteq> Sys_exit n))"

definition left_over :: "'c proc \<Rightarrow> nat" where
  "left_over p = sum_list (map (case_sum (\<lambda>_. 1) (\<lambda>s. length s + 1)) (pr_reads p))"

lemma ran_trans [trans]: "ran p q \<Longrightarrow> ran q r \<Longrightarrow> ran p r"
  unfolding ran_def by (metis (no_types, lifting) UnE append.assoc set_append)

lemma wrote_ran: "wrote p q \<Longrightarrow> ran p q"
  by (auto simp: wrote_def ran_def)

lemma ran_uname_ok: "ran p q \<Longrightarrow> uname_ok p \<Longrightarrow> uname_ok q"
  by (simp add: ran_def uname_ok_def)

lemma sys_read_ok:
  assumes "sys_read buf p = (n, buf', p')" "length buf = 128"
  shows "ran p p' \<and> length buf' = 128 \<and> n \<le> 127 \<and> (0 < n \<longrightarrow> left_over p' < left_over p)"
proof (cases "pr_reads p")
  case Nil
  then show ?thesis using assms by (auto simp: sys_read_def ran_def call_def)
next
  case (Cons r rs)
  then show ?thesis using assms
    by (cases r) (auto simp: sys_read_def ran_def call_def left_over_def Let_def)
qed

lemma shell_pass_ok:
  assumes "length buf = 128" "uname_ok p"
  shows "\<exists>buf' p' go. shell_pass cpu buf p = Inr (buf', p', go) \<and> length buf' = 128 \<and> ran p p' \<and>
    (go \<longrightarrow> left_over p' < left_over p)"
proof -
  define p1 where "p1 = call (Sys_write ''nommu# '') p"
  obtain n b p2 where r: "sys_read buf p1 = (n, b, p2)" by (cases "sys_read buf p1") auto
  have ok: "ran p1 p2" "length b = 128" "n \<le> 127" "0 < n \<Longrightarrow> left_over p2 < left_over p1"
    using sys_read_ok [OF r assms(1)] by simp_all
  have p1: "ran p p1" "left_over p1 = left_over p"
    by (simp_all add: p1_def ran_def call_def left_over_def)
  have p2: "ran p p2" by (rule ran_trans [OF p1(1) ok(1)])
  have s: "shell_pass cpu buf p = (if n \<le> 0 then Inr (b, p2, False)
     else if nat n \<ge> length b then Inl Out_of_bounds
     else bindE (chomp (b[nat n := NUL])) (\<lambda>buf.
       if buf ! 0 = NUL then Inr (buf, p2, True)
       else bindE (dispatch_cmd cpu buf p2) (\<lambda>r. case r of None \<Rightarrow> Inr (buf, p2, False) | Some p \<Rightarrow> Inr (buf, p, True))))"
    using r unfolding shell_pass_def p1_def by (simp only: my_puts_ok lit_terminated cstr_lit bindE.simps) simp
  show ?thesis
  proof (cases "n \<le> 0")
    case True
    then show ?thesis using s ok(2) p2 by (intro exI [of _ b] exI [of _ p2] exI [of _ False]) simp
  next
    case False
    then have n: "nat n < length b" using ok(2, 3) by linarith
    then have "NUL \<in> set (b[nat n := NUL])" by (simp add: set_update_memI)
    from chomp_ok [OF this] obtain c where c: "chomp (b[nat n := NUL]) = Inr c" "NUL \<in> set c" "length c = 128"
      using ok(2) by (elim exE conjE) simp
    obtain r where d: "dispatch_cmd cpu c p2 = Inr r" "\<And>p'. r = Some p' \<Longrightarrow> wrote p2 p'"
      using dispatch_ok [OF c(2) ran_uname_ok [OF p2 assms(2)], of cpu] by (elim exE conjE) simp
    have less: "left_over p2 < left_over p" using ok(4) False p1(2) by simp
    have q: "ran p q" "left_over q = left_over p2" if "r = Some q" for q
      using ran_trans [OF p2 wrote_ran [OF d(2) [OF that]]] wrote_keeps [OF d(2) [OF that]]
      by (simp_all add: left_over_def)
    have "shell_pass cpu buf p = (if c ! 0 = NUL then Inr (c, p2, True)
        else case r of None \<Rightarrow> Inr (c, p2, False) | Some p \<Rightarrow> Inr (c, p, True))"
      unfolding s c(1) bindE.simps d(1) using False n by simp
    then consider "shell_pass cpu buf p = Inr (c, p2, True)" | "shell_pass cpu buf p = Inr (c, p2, False)"
      | p3 where "r = Some p3" "shell_pass cpu buf p = Inr (c, p3, True)"
      by (cases "c ! 0 = NUL"; cases r) simp_all
    then show ?thesis using c(3) less p2 q by cases auto
  qed
qed

lemma shell_loop_ok:
  assumes "length buf = 128" "uname_ok p"
  shows "\<exists>p'. shell_loop cpu buf p = Some (Inr p') \<and> ran p p'"
  using assms
proof (induction "left_over p" arbitrary: buf p rule: less_induct)
  case less
  obtain b q go where q: "shell_pass cpu buf p = Inr (b, q, go)" "length b = 128" "ran p q"
      "go \<Longrightarrow> left_over q < left_over p"
    using shell_pass_ok [OF less.prems] by blast
  have l: "shell_loop cpu buf p = (if go then shell_loop cpu b q else Some (Inr q))"
    by (subst shell_loop.simps) (simp add: q(1))
  show ?case
  proof (cases go)
    case True
    from less.hyps [OF q(4) [OF this] q(2) ran_uname_ok [OF q(3) less.prems(2)]] True l q(3)
    show ?thesis by (auto intro: ran_trans)
  qed (use l q(3) in simp)
qed

text \<open>The wait for the UART ends exactly if the UART becomes ready.\<close>

lemma uart_wait_ready: "st (i + n) AND push_bit 19 1 \<noteq> 0 \<Longrightarrow> uart_wait st i \<noteq> None"
proof (induction n arbitrary: i)
  case 0
  then show ?case by (subst uart_wait.simps) simp
next
  case (Suc n)
  then have "uart_wait st (Suc i) \<noteq> None" by simp
  then show ?case by (subst uart_wait.simps) simp
qed

lemma uart_wait_never:
  assumes "\<And>i. st i AND push_bit 19 1 = 0"
  shows "uart_wait st i = None"
proof -
  have "st \<noteq> st'" if "uart_wait st' i = Some k" for st' k
    by (rule uart_wait.raw_induct [OF _ that, where P = "\<lambda>st' i k. st \<noteq> st'"]) (use assms in \<open>auto split: if_splits\<close>)
  then show ?thesis by (cases "uart_wait st i") auto
qed

lemma diag_putc_iff:
  "(\<exists>i. pr_uart p i AND push_bit 19 1 \<noteq> 0) \<longleftrightarrow> diag_putc c p \<noteq> None"
proof -
  have "diag_putc c p = None \<longleftrightarrow> uart_wait (pr_uart p) 0 = None" by (simp add: diag_putc_def split: option.splits)
  moreover have "uart_wait (pr_uart p) 0 = None \<longleftrightarrow> (\<forall>i. pr_uart p i AND push_bit 19 1 = 0)"
    using uart_wait_ready [of "pr_uart p" 0] uart_wait_never [of "pr_uart p" 0] by (metis add_0)
  ultimately show ?thesis by simp
qed

lemma diag_putc_ran: "diag_putc c p = Some p' \<Longrightarrow> ran p p'"
  by (auto simp: diag_putc_def ran_def call_def split: option.splits)

text \<open>
  C28: the shell never runs away and never touches memory outside its buffers.  If the UART becomes ready for the first character, then whatever comes over the
  terminal, in whatever portions, until its end, whatever the processor does in the command \<open>amo\<close>, and whatever
  \<open>sysinfo\<close> answers, the first process reads until the end of the input or the command \<open>exit\<close>,
  announces the halt and calls \<open>exit(0)\<close>, and does so once, provided the kernel fills in
  terminated fields on \<open>uname\<close> and its calls return.  If the UART never becomes ready, the process waits for it forever.
\<close>

theorem shell_halts:
  assumes "length junk = 128" "uname_ok p"
  shows "if \<exists>i. pr_uart p i AND push_bit 19 1 \<noteq> 0
    then \<exists>p' tr. shell_start cpu junk p = Some (Inr p') \<and>
      pr_trace p' = pr_trace p @ tr @ [Sys_write (''Halting.'' @ [NL]), Sys_exit 0] \<and>
      (\<forall>e \<in> set tr. \<forall>n. e \<noteq> Sys_exit n)
    else shell_start cpu junk p = None"
proof (cases "diag_putc CHR ''!'' p")
  case None
  then show ?thesis using diag_putc_iff [of p "CHR ''!''"] by (auto simp: shell_start_def)
next
  case (Some p0)
  note p0 = diag_putc_ran [OF Some]
  have u0: "uname_ok p0" by (rule ran_uname_ok [OF p0 assms(2)])
  have "writes (outputs (map (\<lambda>s. my_puts (lit s)) banner))" by (rule writes_outputs) (simp add: list_all_iff)
  from writes_after [OF wrote_refl this] obtain p1 where p1: "outputs (map (\<lambda>s. my_puts (lit s)) banner) p0 = Inr p1" "wrote p0 p1" by blast
  obtain p2 where p2: "cmd_uname p1 = Inr p2" "wrote p1 p2" using cmd_uname_ok wrote_uname_ok [OF p1(2) u0] by blast
  let ?hint = "[NL] @ ''Type '' @ [CHR 0x27] @ ''help'' @ [CHR 0x27] @ '' for commands.'' @ [NL, NL]"
  have "writes (outputs [cmd_info, my_puts (lit ?hint)])" by (rule writes_outputs) simp
  from writes_after [OF wrote_trans [OF p1(2) p2(2)] this] obtain p3 where
    p3: "outputs [cmd_info, my_puts (lit ?hint)] p2 = Inr p3" "wrote p0 p3" by blast
  obtain p4 where p4: "shell_loop cpu junk p3 = Some (Inr p4)" "ran p3 p4"
    using shell_loop_ok [OF assms(1) wrote_uname_ok [OF p3(2) u0]] by blast
  have "bindE (outputs (map (\<lambda>s. my_puts (lit s)) banner) p0) (outputs [cmd_uname, cmd_info, my_puts (lit ?hint)]) = Inr p3"
    using p1(1) p2(1) p3(1) by simp
  then have "shell_start cpu junk p = Some (Inr (call (Sys_exit 0) (call (Sys_write (''Halting.'' @ [NL])) p4)))"
    using p4(1) Some by (simp only: shell_start_def sum.case option.case bindE.simps) simp
  moreover obtain tr where "pr_trace p4 = pr_trace p @ tr" "\<forall>e \<in> set tr. \<forall>n. e \<noteq> Sys_exit n"
    using ran_trans [OF p0 ran_trans [OF wrote_ran [OF p3(2)] p4(2)]] by (auto simp: ran_def)
  moreover have "\<exists>i. pr_uart p i AND push_bit 19 1 \<noteq> 0" using diag_putc_iff [of p "CHR ''!''"] Some by simp
  ultimately show ?thesis by (auto simp: call_def)
qed

theorem shell_halts_witness:
  "\<exists>p' tr. shell_start ref_cpu (replicate 128 NUL) demo_proc = Some (Inr p') \<and>
    pr_trace p' = pr_trace demo_proc @ tr @ [Sys_write (''Halting.'' @ [NL]), Sys_exit 0] \<and>
    (\<forall>e \<in> set tr. \<forall>n. e \<noteq> Sys_exit n)"
proof -
  have "pr_uart demo_proc 3 AND push_bit 19 1 \<noteq> 0" by (simp add: demo_proc_def push_bit_eq_mult)
  then have "\<exists>i. pr_uart demo_proc i AND push_bit 19 1 \<noteq> 0" by blast
  moreover have "uname_ok demo_proc" by (simp add: uname_ok_def demo_proc_def uts_ok_def uts_field_def)
  ultimately show ?thesis using shell_halts [of "replicate 128 NUL" demo_proc ref_cpu] by simp
qed

end
