(* ===== verification/Linux_Uart.thy ===== *)
theory Linux_Uart
  imports Prelude "HOL-Library.Sublist"
begin

unbundle bit_operations_syntax

section \<open>The serial driver of the kernel (\<open>board/neorv32_uart.c\<close>)\<close>

text \<open>
  The driver polls the UART from a kernel thread.  The kernel it calls is not part of the
  repository: its services are a record of functions on a state \<open>'w\<close> that stands for the device
  and the rest of the kernel.  Loops that wait for the device, and the loop of the thread, are
  partial: \<open>None\<close> is waiting forever.  The reception path is also given as a step relation, in
  which transmissions by other tasks and the outside world come between the steps of the
  thread.
\<close>

subsection \<open>Services of the kernel\<close>

text \<open>
  A negative result of the source is a negative integer; a pointer that may hold an error code
  is a sum.  \<open>tty_ldisc_receive_buf\<close> returns how many of the characters it was given it has processed.  \<open>k_state\<close>, \<open>k_tty\<close> and \<open>k_ldisc\<close> say whether \<open>port->state\<close>, its terminal and the line
  discipline of the terminal are there.
\<close>

record 'w kernel =
  readl :: "u32 \<Rightarrow> 'w \<Rightarrow> u32 \<times> 'w"
  writel :: "u32 \<Rightarrow> u32 \<Rightarrow> 'w \<Rightarrow> 'w"
  uart_port_tx :: "('w \<Rightarrow> bool \<times> 'w) \<Rightarrow> (u8 \<Rightarrow> 'w \<Rightarrow> 'w) \<Rightarrow> 'w \<Rightarrow> 'w"
  uart_console_write :: "bytes \<Rightarrow> (u8 \<Rightarrow> 'w \<Rightarrow> 'w option) \<Rightarrow> 'w \<Rightarrow> 'w option"
  kthread_should_stop :: "'w \<Rightarrow> bool \<times> 'w"
  kthread_run :: "'w \<Rightarrow> (int + unit) \<times> 'w"
  kthread_stop :: "'w \<Rightarrow> 'w"
  schedule_timeout :: "'w \<Rightarrow> 'w"
  k_state :: "'w \<Rightarrow> bool"
  k_tty :: "'w \<Rightarrow> bool"
  k_ldisc :: "'w \<Rightarrow> bool"
  tty_ldisc_receive_buf :: "bytes \<Rightarrow> 'w \<Rightarrow> nat \<times> 'w"
  of_alias_get_id :: "'w \<Rightarrow> int"
  ioremap_resource :: "'w \<Rightarrow> (int + u32) \<times> 'w"
  uart_add_one_port :: "'w \<Rightarrow> int \<times> 'w"
  uart_remove_one_port :: "'w \<Rightarrow> 'w"
  uart_register_driver :: "'w \<Rightarrow> int \<times> 'w"
  uart_unregister_driver :: "'w \<Rightarrow> 'w"
  platform_driver_register :: "'w \<Rightarrow> int \<times> 'w"
  platform_driver_unregister :: "'w \<Rightarrow> 'w"
  uart_get_baud_rate :: "nat \<Rightarrow> nat \<Rightarrow> 'w \<Rightarrow> nat"
  uart_update_timeout :: "nat \<Rightarrow> 'w \<Rightarrow> 'w"
  uart_parse_options :: "string \<Rightarrow> nat \<times> char \<times> nat \<times> char"
  uart_set_options :: "nat \<times> char \<times> nat \<times> char \<Rightarrow> 'w \<Rightarrow> int \<times> 'w"

subsection \<open>The port\<close>

abbreviation NEO_CTRL :: u32 where "NEO_CTRL \<equiv> 0x00"
abbreviation NEO_DATA :: u32 where "NEO_DATA \<equiv> 0x04"
abbreviation CTRL_EN :: u32 where "CTRL_EN \<equiv> 0x00000001"
abbreviation CTRL_RX_NEMPTY :: u32 where "CTRL_RX_NEMPTY \<equiv> 0x00010000"
abbreviation CTRL_TX_EMPTY :: u32 where "CTRL_TX_EMPTY \<equiv> 0x00040000"
abbreviation CTRL_TX_NFULL :: u32 where "CTRL_TX_NFULL \<equiv> 0x00080000"
abbreviation NEORV32_NR :: int where "NEORV32_NR \<equiv> 1"

datatype port_type = PORT_UNKNOWN | Port_type nat

text \<open>\<open>port_mapped\<close> is \<open>membase != NULL\<close>; of \<open>struct uart_port\<close> the fields the driver uses.\<close>

record neorv32_port =
  port_mapped :: bool
  membase :: u32
  icount_rx :: u32
  fifosize :: nat
  ptype :: port_type
  pline :: int
  poll_thread_on :: bool
  port_open :: bool

definition readl_ctrl :: "'w kernel \<Rightarrow> neorv32_port \<Rightarrow> 'w \<Rightarrow> u32 \<times> 'w" where
  "readl_ctrl k p w = readl k (membase p + NEO_CTRL) w"

subsection \<open>Low-level input and output\<close>

partial_function (option) wait_tx :: "'w kernel \<Rightarrow> u32 \<Rightarrow> 'w \<Rightarrow> 'w option" where
  "wait_tx k ctrl w =
     (let (c, w) = readl k ctrl w in
      if c AND CTRL_TX_NFULL = 0 then wait_tx k ctrl w else Some w)"

definition neorv32_putchar :: "'w kernel \<Rightarrow> neorv32_port \<Rightarrow> u8 \<Rightarrow> 'w \<Rightarrow> 'w option" where
  "neorv32_putchar k p ch w =
     map_option (writel k (membase p + NEO_DATA) (ucast ch)) (wait_tx k (membase p + NEO_CTRL) w)"

definition neo_uart_dbg :: "'w kernel \<Rightarrow> u8 \<Rightarrow> 'w \<Rightarrow> 'w option" where
  "neo_uart_dbg k c w = map_option (writel k 0xfff50004 (ucast c)) (wait_tx k 0xfff50000 w)"

definition neorv32_tx_chars :: "'w kernel \<Rightarrow> neorv32_port \<Rightarrow> 'w \<Rightarrow> 'w" where
  "neorv32_tx_chars k p =
     uart_port_tx k (\<lambda>w. let (c, w) = readl_ctrl k p w in (c AND CTRL_TX_NFULL \<noteq> 0, w))
       (\<lambda>ch. writel k (membase p + NEO_DATA) (ucast ch))"

text \<open>\<open>neorv32_rx_direct\<close>, with the number of characters still to be read.\<close>

fun neorv32_rx_direct :: "'w kernel \<Rightarrow> nat \<Rightarrow> neorv32_port \<Rightarrow> 'w \<Rightarrow> bytes \<times> neorv32_port \<times> 'w" where
  "neorv32_rx_direct k 0 p w = ([], p, w)"
| "neorv32_rx_direct k (Suc n) p w =
     (let (c, w) = readl_ctrl k p w in
      if c AND CTRL_RX_NEMPTY = 0 then ([], p, w)
      else
        let (v, w) = readl k (membase p + NEO_DATA) w;
            (bs, p, w) = neorv32_rx_direct k n (p\<lparr>icount_rx := icount_rx p + 1\<rparr>) w
        in (ucast (v AND 0xFF) # bs, p, w))"

subsection \<open>The polling thread\<close>

text \<open>The thread ignores how many characters the line discipline has processed.\<close>

definition deliver :: "'w kernel \<Rightarrow> bytes \<Rightarrow> 'w \<Rightarrow> 'w" where
  "deliver k rxbuf w =
     (if rxbuf \<noteq> [] \<and> k_state k w then
        if k_tty k w then
          if k_ldisc k w then snd (tty_ldisc_receive_buf k rxbuf w) else w
        else w
      else w)"

definition poll_round :: "'w kernel \<Rightarrow> neorv32_port \<times> 'w \<Rightarrow> neorv32_port \<times> 'w" where
  "poll_round k s =
     (let (p, w) = s;
          (rxbuf, p, w) = neorv32_rx_direct k 64 p w;
          w = deliver k rxbuf w;
          w = neorv32_tx_chars k p w
      in (p, schedule_timeout k w))"

partial_function (option) neorv32_poll_thread :: "'w kernel \<Rightarrow> neorv32_port \<times> 'w \<Rightarrow> (neorv32_port \<times> 'w) option" where
  "neorv32_poll_thread k s =
     (let (p, w) = s; (stop, w) = kthread_should_stop k w in
      if stop then Some (p, w) else neorv32_poll_thread k (poll_round k (p, w)))"

subsection \<open>\<open>uart_ops\<close>\<close>

text \<open>\<open>TIOCSER_TEMT\<close>, and the modem lines reported as \<open>TIOCM_CTS | TIOCM_DSR | TIOCM_CAR\<close>.\<close>

datatype modem_line = TIOCM_CTS | TIOCM_DSR | TIOCM_CAR

definition neorv32_tx_empty :: "'w kernel \<Rightarrow> neorv32_port \<Rightarrow> 'w \<Rightarrow> bool \<times> 'w" where
  "neorv32_tx_empty k p w = (let (c, w) = readl_ctrl k p w in (c AND CTRL_TX_EMPTY \<noteq> 0, w))"

definition neorv32_get_mctrl :: "modem_line list" where
  "neorv32_get_mctrl = [TIOCM_CTS, TIOCM_DSR, TIOCM_CAR]"

definition neorv32_start_tx :: "'w kernel \<Rightarrow> neorv32_port \<Rightarrow> 'w \<Rightarrow> 'w" where
  "neorv32_start_tx = neorv32_tx_chars"

text \<open>
  \<open>PTR_ERR(neo->poll_thread)\<close> is taken after the pointer has been set to \<open>NULL\<close>, so it is 0.
\<close>

definition neorv32_startup :: "'w kernel \<Rightarrow> neorv32_port \<Rightarrow> 'w \<Rightarrow> (int \<times> neorv32_port \<times> 'w) option" where
  "neorv32_startup k p w =
     (case neo_uart_dbg k (of_char CHR ''S'') w of
        None \<Rightarrow> None
      | Some w \<Rightarrow>
          let (ctrl, w) = readl_ctrl k p w;
              w = writel k (membase p + NEO_CTRL) (ctrl OR CTRL_EN) w;
              p = p\<lparr>port_open := True\<rparr>;
              (r, w) = kthread_run k w
          in case r of
               Inl e \<Rightarrow> map_option (\<lambda>w. (0, p\<lparr>poll_thread_on := False\<rparr>, w)) (neo_uart_dbg k (of_char CHR ''!'') w)
             | Inr _ \<Rightarrow> map_option (\<lambda>w. (0, p\<lparr>poll_thread_on := True\<rparr>, w)) (neo_uart_dbg k (of_char CHR ''s'') w))"

definition neorv32_shutdown :: "'w kernel \<Rightarrow> neorv32_port \<Rightarrow> 'w \<Rightarrow> neorv32_port \<times> 'w" where
  "neorv32_shutdown k p w =
     (let p = p\<lparr>port_open := False\<rparr> in
      if poll_thread_on p then (p\<lparr>poll_thread_on := False\<rparr>, kthread_stop k w) else (p, w))"

definition neorv32_set_termios :: "'w kernel \<Rightarrow> 'w \<Rightarrow> 'w" where
  "neorv32_set_termios k w = uart_update_timeout k (uart_get_baud_rate k 9600 115200 w) w"

definition neorv32_type :: string where
  "neorv32_type = ''neorv32-uart''"

definition neorv32_config_port :: "neorv32_port \<Rightarrow> neorv32_port" where
  "neorv32_config_port p = p\<lparr>ptype := Port_type 1\<rparr>"

definition neorv32_verify_port :: int where
  "neorv32_verify_port = 0"

subsection \<open>Console\<close>

definition neorv32_console_write :: "'w kernel \<Rightarrow> neorv32_port \<Rightarrow> bytes \<Rightarrow> 'w \<Rightarrow> 'w option" where
  "neorv32_console_write k p s = uart_console_write k s (neorv32_putchar k p)"

text \<open>The new index and the result; -19 is \<open>-ENODEV\<close>.\<close>

definition neorv32_console_setup :: "'w kernel \<Rightarrow> neorv32_port \<Rightarrow> int \<Rightarrow> string option \<Rightarrow> 'w \<Rightarrow> int \<times> int \<times> 'w" where
  "neorv32_console_setup k p index options w =
     (let index = (if index \<ge> NEORV32_NR \<or> index < 0 then 0 else index) in
      if \<not> port_mapped p then (index, -19, w)
      else
        let opts = (case options of None \<Rightarrow> (115200, CHR ''n'', 8, CHR ''n'') | Some s \<Rightarrow> uart_parse_options k s);
            (ret, w) = uart_set_options k opts w
        in (index, ret, w))"

definition neorv32_earlycon_write :: "'w kernel \<Rightarrow> neorv32_port \<Rightarrow> bytes \<Rightarrow> 'w \<Rightarrow> 'w option" where
  "neorv32_earlycon_write k p s = uart_console_write k s (neorv32_putchar k p)"

definition neorv32_earlycon_setup :: "neorv32_port \<Rightarrow> int" where
  "neorv32_earlycon_setup p = (if \<not> port_mapped p then -19 else 0)"

subsection \<open>Probing and registration\<close>

text \<open>When the mapping fails the error code stays in \<open>membase\<close>, as a pointer that is not \<open>NULL\<close>.\<close>

definition neorv32_probe :: "'w kernel \<Rightarrow> neorv32_port \<Rightarrow> 'w \<Rightarrow> (int \<times> neorv32_port \<times> 'w) option" where
  "neorv32_probe k p w =
     (case neo_uart_dbg k (of_char CHR ''P'') w of
        None \<Rightarrow> None
      | Some w \<Rightarrow>
          let id = of_alias_get_id k w; id = (if id < 0 \<or> id \<ge> NEORV32_NR then 0 else id);
              (r, w) = ioremap_resource k w
          in case r of
               Inl e \<Rightarrow> Some (e, p\<lparr>port_mapped := True, membase := of_int e\<rparr>, w)
             | Inr base \<Rightarrow>
                 let p = p\<lparr>port_mapped := True, membase := base, fifosize := 16, ptype := PORT_UNKNOWN, pline := id\<rparr> in
                 (case neo_uart_dbg k (of_char CHR ''Q'') w of
                    None \<Rightarrow> None
                  | Some w \<Rightarrow>
                      let (ret, w) = uart_add_one_port k w in
                      (case neo_uart_dbg k (of_char CHR ''R'') w of
                         None \<Rightarrow> None
                       | Some w \<Rightarrow> map_option (\<lambda>w. (ret, p, w)) (neo_uart_dbg k (of_int (48 + ret)) w))))"

definition neorv32_remove :: "'w kernel \<Rightarrow> 'w \<Rightarrow> 'w" where
  "neorv32_remove k = uart_remove_one_port k"

definition neorv32_uart_init :: "'w kernel \<Rightarrow> 'w \<Rightarrow> (int \<times> 'w) option" where
  "neorv32_uart_init k w =
     (case neo_uart_dbg k (of_char CHR ''('') w of
        None \<Rightarrow> None
      | Some w \<Rightarrow>
          let (ret, w) = uart_register_driver k w in
          (case neo_uart_dbg k (of_char CHR ''*'') w of
             None \<Rightarrow> None
           | Some w \<Rightarrow>
               if ret \<noteq> 0 then Some (ret, w)
               else
                 let (ret, w) = platform_driver_register k w in
                 (case neo_uart_dbg k (of_char CHR ''+'') w of
                    None \<Rightarrow> None
                  | Some w \<Rightarrow>
                      let w = (if ret \<noteq> 0 then uart_unregister_driver k w else w) in
                      map_option (\<lambda>w. (ret, w)) (neo_uart_dbg k (of_char CHR '')'') w))))"

definition neorv32_uart_exit :: "'w kernel \<Rightarrow> 'w \<Rightarrow> 'w" where
  "neorv32_uart_exit k w = uart_unregister_driver k (platform_driver_unregister k w)"

subsection \<open>What the driver relies on\<close>

text \<open>
  A view of the state: the characters waiting in the receiver, all characters read from it so
  far, all characters handed to the line discipline so far.
\<close>

record 'w rx_view =
  fifo :: "'w \<Rightarrow> bytes"
  took :: "'w \<Rightarrow> bytes"
  handed :: "'w \<Rightarrow> bytes"

text \<open>Something happened that neither read nor delivered; characters may have arrived.\<close>

definition quiet :: "'w rx_view \<Rightarrow> 'w \<Rightarrow> 'w \<Rightarrow> bool" where
  "quiet v w w' \<longleftrightarrow> took v w' = took v w \<and> handed v w' = handed v w \<and> prefix (fifo v w) (fifo v w')"

text \<open>
  The receiver of the NEORV32 is a queue: bit 16 of the control register is set when it is not
  empty, and reading the data register takes the first character.  \<open>uart_port_tx\<close> changes the device only
  through the two expressions it is given.  \<open>tty_ldisc_receive_buf\<close> processes the first of the characters it is given, as many as
  it returns, and these may be fewer than it was given.
\<close>

definition tx_contract :: "'w kernel \<Rightarrow> bool" where
  "tx_contract k \<longleftrightarrow> (\<forall>ready put P w. (\<forall>w. P w \<longrightarrow> P (snd (ready w))) \<longrightarrow> (\<forall>b w. P w \<longrightarrow> P (put b w)) \<longrightarrow>
     P w \<longrightarrow> P (uart_port_tx k ready put w))"

definition uart_contract :: "'w kernel \<Rightarrow> 'w rx_view \<Rightarrow> u32 \<Rightarrow> bool" where
  "uart_contract k v base \<longleftrightarrow>
     (\<forall>w. quiet v w (snd (readl k (base + NEO_CTRL) w)) \<and>
        (fst (readl k (base + NEO_CTRL) w) AND CTRL_RX_NEMPTY \<noteq> 0 \<longleftrightarrow> fifo v (snd (readl k (base + NEO_CTRL) w)) \<noteq> [])) \<and>
     (\<forall>w b bs. fifo v w = b # bs \<longrightarrow>
        ucast (fst (readl k (base + NEO_DATA) w) AND 0xFF) = b \<and>
        took v (snd (readl k (base + NEO_DATA) w)) = took v w @ [b] \<and>
        handed v (snd (readl k (base + NEO_DATA) w)) = handed v w \<and>
        prefix bs (fifo v (snd (readl k (base + NEO_DATA) w)))) \<and>
     (\<forall>w x. quiet v w (writel k (base + NEO_DATA) x w)) \<and>
     (\<forall>w bs. took v (snd (tty_ldisc_receive_buf k bs w)) = took v w \<and>
        fst (tty_ldisc_receive_buf k bs w) \<le> length bs \<and>
        handed v (snd (tty_ldisc_receive_buf k bs w)) = handed v w @ take (fst (tty_ldisc_receive_buf k bs w)) bs \<and>
        prefix (fifo v w) (fifo v (snd (tty_ldisc_receive_buf k bs w)))) \<and>
     (\<forall>w. quiet v w (schedule_timeout k w) \<and> quiet v w (snd (kthread_should_stop k w))) \<and>
     tx_contract k"

lemma quiet_refl [simp]: "quiet v w w"
  by (simp add: quiet_def)

lemma quiet_trans [trans]: "quiet v w w' \<Longrightarrow> quiet v w' w'' \<Longrightarrow> quiet v w w''"
  by (auto simp: quiet_def intro: prefix_order.trans)

lemma contract_ctrl:
  assumes "uart_contract k v base" "readl k (base + NEO_CTRL) w = (c, w')"
  shows "quiet v w w'" "c AND CTRL_RX_NEMPTY \<noteq> 0 \<longleftrightarrow> fifo v w' \<noteq> []"
  using conjunct1 [OF assms(1) [unfolded uart_contract_def], THEN spec [of _ w]] assms(2) by simp_all

lemma contract_data:
  assumes "uart_contract k v base" "readl k (base + NEO_DATA) w = (x, w')" "fifo v w = b # bs"
  shows "ucast (x AND 0xFF) = b" "took v w' = took v w @ [b]" "handed v w' = handed v w" "prefix bs (fifo v w')"
  using conjunct1 [OF conjunct2 [OF assms(1) [unfolded uart_contract_def]], THEN spec [of _ w]] assms(2, 3) by simp_all

lemma contract_rest:
  assumes "uart_contract k v base"
  shows "quiet v w (writel k (base + NEO_DATA) x w)"
    "took v (snd (tty_ldisc_receive_buf k bs w)) = took v w"
    "handed v (snd (tty_ldisc_receive_buf k bs w)) = handed v w @ take (fst (tty_ldisc_receive_buf k bs w)) bs"
    "prefix (fifo v w) (fifo v (snd (tty_ldisc_receive_buf k bs w)))"
    "quiet v w (schedule_timeout k w)" "quiet v w (snd (kthread_should_stop k w))" "tx_contract k"
    "fst (tty_ldisc_receive_buf k bs w) \<le> length bs"
  using assms unfolding uart_contract_def by blast+

lemma tx_contractD:
  "tx_contract k \<Longrightarrow> (\<And>w. P w \<Longrightarrow> P (snd (ready w))) \<Longrightarrow> (\<And>b w. P w \<Longrightarrow> P (put b w)) \<Longrightarrow> P w \<Longrightarrow>
    P (uart_port_tx k ready put w)"
  unfolding tx_contract_def by blast

lemma tx_chars_quiet:
  assumes "uart_contract k v (membase p)"
  shows "quiet v w (neorv32_tx_chars k p w)"
  unfolding neorv32_tx_chars_def
proof (rule tx_contractD [where P = "quiet v w", OF contract_rest(7) [OF assms]])
  fix w' assume q: "quiet v w w'"
  obtain c w1 where r: "readl k (membase p + NEO_CTRL) w' = (c, w1)" by fastforce
  show "quiet v w (snd (let (c, w) = readl_ctrl k p w' in (c AND CTRL_TX_NFULL \<noteq> 0, w)))"
    unfolding readl_ctrl_def r by (simp add: quiet_trans [OF q contract_ctrl(1) [OF assms r]])
next
  show "quiet v w (writel k (membase p + NEO_DATA) (ucast ch) w')" if "quiet v w w'" for ch :: u8 and w'
    by (rule quiet_trans [OF that contract_rest(1) [OF assms]])
qed simp

lemma rx_direct_takes:
  assumes "uart_contract k v (membase p)"
  shows "case neorv32_rx_direct k n p w of (bs, p', w') \<Rightarrow>
    took v w' = took v w @ bs \<and> handed v w' = handed v w \<and> length bs \<le> n \<and>
    prefix (fifo v w) (bs @ fifo v w') \<and> (length bs < n \<longrightarrow> fifo v w' = []) \<and>
    p' = p\<lparr>icount_rx := icount_rx p + of_nat (length bs)\<rparr>"
  using assms
proof (induction n arbitrary: p w)
  case (Suc n)
  obtain c w1 where c: "readl_ctrl k p w = (c, w1)" by fastforce
  have q: "quiet v w w1" "c AND CTRL_RX_NEMPTY \<noteq> 0 \<longleftrightarrow> fifo v w1 \<noteq> []"
    using contract_ctrl [OF Suc.prems] c unfolding readl_ctrl_def by blast+
  show ?case
  proof (cases "fifo v w1")
    case Nil
    then have "c AND CTRL_RX_NEMPTY = 0" using q(2) by blast
    then show ?thesis using q(1) Nil by (simp add: c quiet_def)
  next
    case (Cons b rest)
    obtain x w2 where x: "readl k (membase p + NEO_DATA) w1 = (x, w2)" by fastforce
    have d: "ucast (x AND 0xFF) = b" "took v w2 = took v w1 @ [b]" "handed v w2 = handed v w1" "prefix rest (fifo v w2)"
      by (rule contract_data [OF Suc.prems x Cons])+
    let ?p = "p\<lparr>icount_rx := icount_rx p + 1\<rparr>"
    obtain bs p' w' where r: "neorv32_rx_direct k n ?p w2 = (bs, p', w')"
      by (cases "neorv32_rx_direct k n ?p w2")
    have "uart_contract k v (membase ?p)" using Suc.prems by simp
    from Suc.IH [OF this, of w2]
    have IH: "took v w' = took v w2 @ bs" "handed v w' = handed v w2" "length bs \<le> n"
        "prefix (fifo v w2) (bs @ fifo v w')" "length bs < n \<longrightarrow> fifo v w' = []"
        "p' = ?p\<lparr>icount_rx := icount_rx ?p + of_nat (length bs)\<rparr>"
      unfolding r prod.case by blast+
    have "neorv32_rx_direct k (Suc n) p w = (b # bs, p', w')"
      using q(2) Cons by (simp add: c x r d(1))
    moreover have "prefix (fifo v w) (b # bs @ fifo v w')"
    proof -
      have "prefix rest (bs @ fifo v w')" by (rule prefix_order.trans [OF d(4) IH(4)])
      moreover have "prefix (fifo v w) (b # rest)" using q(1) Cons by (simp add: quiet_def)
      ultimately show ?thesis by (metis Cons_prefix_Cons prefix_order.trans)
    qed
    ultimately show ?thesis using IH(1, 2, 3, 5, 6) d(2, 3) q(1) by (simp add: quiet_def)
  qed
qed simp

subsection \<open>Reception among other activities\<close>

text \<open>
  Where the thread is: before reading, holding what it has read, before transmitting.  Its
  steps are the stretches between which other tasks may run; the lock of the port makes
  reading and transmitting one step each.
\<close>

datatype pc = At_rx | Holding bytes | At_tx

definition held :: "pc \<Rightarrow> bytes" where
  "held c = (case c of Holding bs \<Rightarrow> bs | _ \<Rightarrow> [])"

inductive driver_step :: "'w kernel \<Rightarrow> 'w rx_view \<Rightarrow> pc \<times> neorv32_port \<times> 'w \<Rightarrow> pc \<times> neorv32_port \<times> 'w \<Rightarrow> bool"
  for k v where
  Rx: "neorv32_rx_direct k 64 p (snd (kthread_should_stop k w)) = (bs, p', w') \<Longrightarrow>
         \<not> fst (kthread_should_stop k w) \<Longrightarrow> driver_step k v (At_rx, p, w) (Holding bs, p', w')"
| Deliver: "driver_step k v (Holding bs, p, w) (At_tx, p, deliver k bs w)"
| Tx: "driver_step k v (At_tx, p, w) (At_rx, p, schedule_timeout k (neorv32_tx_chars k p w))"
| Start_tx: "driver_step k v (c, p, w) (c, p, neorv32_start_tx k p w)"
| World: "quiet v w w' \<Longrightarrow> driver_step k v (c, p, w) (c, p, w')"

text \<open>One pass of the loop of the thread is three of these steps.\<close>

lemma poll_round_steps:
  assumes "kthread_should_stop k w = (False, w0)" "poll_round k (p, w0) = (p', w')"
  shows "\<exists>s1 s2. driver_step k v (At_rx, p, w) s1 \<and> driver_step k v s1 s2 \<and> driver_step k v s2 (At_rx, p', w')"
proof -
  obtain bs p1 w1 where r: "neorv32_rx_direct k 64 p w0 = (bs, p1, w1)" by (cases "neorv32_rx_direct k 64 p w0")
  have "driver_step k v (At_rx, p, w) (Holding bs, p1, w1)" by (rule driver_step.Rx) (simp_all add: assms(1) r)
  moreover have "driver_step k v (Holding bs, p1, w1) (At_tx, p1, deliver k bs w1)" by (rule driver_step.Deliver)
  moreover have "driver_step k v (At_tx, p1, deliver k bs w1) (At_rx, p', w')"
    using assms(2) driver_step.Tx [of k v p1 "deliver k bs w1"] by (auto simp: poll_round_def r)
  ultimately show ?thesis by blast
qed

lemma step_membase:
  assumes "driver_step k v (c, p, w) (c', p', w')" "uart_contract k v (membase p)"
  shows "membase p' = membase p"
  using assms
proof (cases rule: driver_step.cases)
  case (Rx bs)
  from rx_direct_takes [OF assms(2), where n = 64 and w = "snd (kthread_should_stop k w)"] Rx show ?thesis by simp
qed auto

definition attached :: "'w kernel \<Rightarrow> 'w \<Rightarrow> bool" where
  "attached k w \<longleftrightarrow> k_state k w \<and> k_tty k w \<and> k_ldisc k w"

text \<open>A line discipline that processes all characters it is given, as it does while there is room in its buffer.\<close>

definition takes_all :: "'w kernel \<Rightarrow> bool" where
  "takes_all k \<longleftrightarrow> (\<forall>bs w. fst (tty_ldisc_receive_buf k bs w) = length bs)"

text \<open>How many of the characters reach the line discipline.\<close>

definition accepted :: "'w kernel \<Rightarrow> bytes \<Rightarrow> 'w \<Rightarrow> nat" where
  "accepted k bs w = (if bs \<noteq> [] \<and> attached k w then fst (tty_ldisc_receive_buf k bs w) else 0)"

lemma deliver_cases:
  assumes "uart_contract k v base"
  shows "took v (deliver k bs w) = took v w" "accepted k bs w \<le> length bs"
    "handed v (deliver k bs w) = handed v w @ take (accepted k bs w) bs"
    "attached k w \<Longrightarrow> takes_all k \<Longrightarrow> accepted k bs w = length bs" "\<not> attached k w \<Longrightarrow> accepted k bs w = 0"
  using contract_rest(2, 3, 8) [OF assms] by (auto simp: deliver_def attached_def accepted_def takes_all_def)

text \<open>
  A step appends what it reads to what has been handed over or is held, or it hands over a first part of what was held and drops the rest:
  nobody is attached, or the line discipline does not take everything.
\<close>

lemma step_effect:
  assumes "driver_step k v (c, p, w) (c', p', w')" "uart_contract k v (membase p)"
  shows "\<exists>new n. took v w' = took v w @ new \<and>
    (handed v w' @ held c' = handed v w @ held c @ new \<or>
     new = [] \<and> handed v w' @ held c' = handed v w @ take n (held c) \<and> \<not> (attached k w \<and> takes_all k))"
  using assms(1)
proof (cases rule: driver_step.cases)
  case (Rx bs)
  from rx_direct_takes [OF assms(2), where n = 64 and w = "snd (kthread_should_stop k w)"] contract_rest(6) [OF assms(2), of w] Rx
  show ?thesis by (intro exI [of _ bs]) (simp add: held_def quiet_def)
next
  case (Deliver bs)
  with deliver_cases [OF assms(2), where bs = bs and w = w] show ?thesis by (auto simp: held_def)
next
  case Tx
  with quiet_trans [OF tx_chars_quiet contract_rest(5), OF assms(2) assms(2), of w]
  show ?thesis by (auto simp: held_def quiet_def)
next
  case Start_tx
  then show ?thesis using tx_chars_quiet [OF assms(2), of w] by (auto simp: quiet_def neorv32_start_tx_def)
qed (auto simp: quiet_def)

lemma steps_invariant:
  assumes "(driver_step k v)\<^sup>*\<^sup>* (c, p, w) (c', p', w')" "uart_contract k v (membase p)"
    "subseq (handed v w @ held c) (took v w)" "(\<forall>w. attached k w) \<and> takes_all k \<longrightarrow> handed v w @ held c = took v w"
  shows "subseq (handed v w' @ held c') (took v w') \<and> ((\<forall>w. attached k w) \<and> takes_all k \<longrightarrow> handed v w' @ held c' = took v w') \<and>
    membase p' = membase p"
  using assms
proof (induction "(c', p', w')" arbitrary: c' p' w' rule: rtranclp_induct)
  case (step s)
  obtain c1 p1 w1 where s: "s = (c1, p1, w1)" by (cases s)
  have IH: "subseq (handed v w1 @ held c1) (took v w1)" "(\<forall>w. attached k w) \<and> takes_all k \<longrightarrow> handed v w1 @ held c1 = took v w1" "membase p1 = membase p"
    using step.hyps(3) [OF s step.prems] by blast+
  have con: "uart_contract k v (membase p1)" using step.prems(1) IH(3) by simp
  have st: "driver_step k v (c1, p1, w1) (c', p', w')" using step.hyps(2) s by simp
  obtain new n where new: "took v w' = took v w1 @ new"
    "handed v w' @ held c' = handed v w1 @ held c1 @ new \<or> new = [] \<and> handed v w' @ held c' = handed v w1 @ take n (held c1) \<and> \<not> (attached k w1 \<and> takes_all k)"
    using step_effect [OF st con] by blast
  from new(2) show ?case
  proof
    assume "handed v w' @ held c' = handed v w1 @ held c1 @ new"
    then have e: "handed v w' @ held c' = (handed v w1 @ held c1) @ new" by simp
    have "subseq ((handed v w1 @ held c1) @ new) (took v w1 @ new)" using IH(1) by (simp only: subseq_append)
    then show ?thesis using IH(2, 3) new(1) step_membase [OF st con] unfolding e by auto
  next
    assume n: "new = [] \<and> handed v w' @ held c' = handed v w1 @ take n (held c1) \<and> \<not> (attached k w1 \<and> takes_all k)"
    have "subseq (handed v w1 @ take n (held c1)) (took v w1)"
      by (rule subseq_order.trans [OF prefix_imp_subseq IH(1)]) (simp add: take_is_prefix)
    then show ?thesis using n new(1) IH(3) step_membase [OF st con] by auto
  qed
qed simp

text \<open>
  C15: reception keeps order and invents nothing.  In every interleaving of the polling thread with
  transmissions by other tasks and with the outside world, the characters the line discipline has taken, with those
  the thread is just holding, are in order and without repetition among those read from the device.  They are all of them if a terminal is
  attached throughout and the line discipline takes all it is given; what it does not take is lost, since the driver ignores
  the number it returns.
\<close>

theorem rx_in_order:
  assumes "uart_contract k v (membase p)" "handed v w = took v w" "(driver_step k v)\<^sup>*\<^sup>* (At_rx, p, w) (c', p', w')"
  shows "subseq (handed v w' @ held c') (took v w') \<and>
    ((\<forall>w. attached k w) \<and> takes_all k \<longrightarrow> handed v w' @ held c' = took v w')"
proof -
  have e: "handed v w @ held At_rx = took v w" using assms(2) by (simp add: held_def)
  then have "subseq (handed v w @ held At_rx) (took v w)" by simp
  from steps_invariant [OF assms(3, 1) this] e show ?thesis by blast
qed

text \<open>
  C31: one round of polling reads everything that was waiting, or 64 characters.  It counts what it reads and
  hands it over if a terminal is attached, of which the line discipline takes a first part, which is everything if it takes all it is
  given; what is not taken is dropped, and all of it if nobody is attached.
\<close>

theorem poll_round_receives:
  assumes "uart_contract k v (membase p)"
  shows "case poll_round k (p, w) of (p', w') \<Rightarrow>
    \<exists>bs n. took v w' = took v w @ bs \<and> length bs \<le> 64 \<and> (length bs < 64 \<longrightarrow> prefix (fifo v w) bs) \<and>
      icount_rx p' = icount_rx p + of_nat (length bs) \<and>
      n \<le> length bs \<and> handed v w' = handed v w @ take n bs \<and>
      ((\<forall>w. attached k w) \<and> takes_all k \<longrightarrow> handed v w' = handed v w @ bs) \<and>
      ((\<forall>w. \<not> attached k w) \<longrightarrow> handed v w' = handed v w)"
proof -
  obtain bs p1 w1 where r: "neorv32_rx_direct k 64 p w = (bs, p1, w1)" by (cases "neorv32_rx_direct k 64 p w")
  from rx_direct_takes [OF assms, where n = 64 and w = w]
  have t: "took v w1 = took v w @ bs" "handed v w1 = handed v w" "length bs \<le> 64" "prefix (fifo v w) (bs @ fifo v w1)"
      "length bs < 64 \<longrightarrow> fifo v w1 = []" "p1 = p\<lparr>icount_rx := icount_rx p + of_nat (length bs)\<rparr>"
    unfolding r prod.case by blast+
  let ?w2 = "deliver k bs w1"
  have p1: "uart_contract k v (membase p1)" using assms t(6) by simp
  have q: "quiet v ?w2 (schedule_timeout k (neorv32_tx_chars k p1 ?w2))"
    by (rule quiet_trans [OF tx_chars_quiet [OF p1] contract_rest(5) [OF p1]])
  have "poll_round k (p, w) = (p1, schedule_timeout k (neorv32_tx_chars k p1 ?w2))" by (simp add: poll_round_def r)
  then show ?thesis
    unfolding prod.case by (simp only: prod.case, intro exI [of _ bs] exI [of _ "accepted k bs w1"])
      (use q t deliver_cases [OF assms, where bs = bs and w = w1] in \<open>auto simp: quiet_def\<close>)
qed

text \<open>
  Characters can be lost although a terminal is attached.  If the line discipline processes fewer than it is given, the rest of the round's
  characters has been read from the device and is not handed over, then or later.
\<close>

theorem deliver_loses:
  assumes "uart_contract k v base" "attached k w" "bs \<noteq> []" "fst (tty_ldisc_receive_buf k bs w) < length bs"
  shows "handed v (deliver k bs w) = handed v w @ take (fst (tty_ldisc_receive_buf k bs w)) bs \<and>
    handed v (deliver k bs w) \<noteq> handed v w @ bs"
  using deliver_cases [OF assms(1), where bs = bs and w = w] assms(2-4) by (auto simp: accepted_def dest: arg_cong [where f = length])

text \<open>
  \<open>neorv32_startup\<close> reports success although the thread could not be created.  The error code is
  read from the pointer after it has been cleared: whatever error \<open>kthread_run\<close> returns, the
  port counts as open, the result is 0, and nothing will ever poll the device.
\<close>

theorem startup_hides_failure:
  assumes "\<And>w. fst (kthread_run k w) = Inl e" "\<And>c w. \<exists>w'. neo_uart_dbg k c w = Some w'"
  shows "\<exists>p' w'. neorv32_startup k p w = Some (0, p', w') \<and> port_open p' \<and> \<not> poll_thread_on p'"
proof -
  obtain w1 where w1: "neo_uart_dbg k (of_char CHR ''S'') w = Some w1" using assms(2) by blast
  obtain c w2 where w2: "readl_ctrl k p w1 = (c, w2)" by fastforce
  let ?w3 = "writel k (membase p + NEO_CTRL) (c OR CTRL_EN) w2"
  obtain w4 where w4: "kthread_run k ?w3 = (Inl e, w4)" using assms(1) [of ?w3] by (cases "kthread_run k ?w3") simp
  obtain w5 where "neo_uart_dbg k (of_char CHR ''!'') w4 = Some w5" using assms(2) by blast
  then show ?thesis unfolding neorv32_startup_def w1 option.case w2 Let_def prod.case w4 sum.case by simp
qed

subsection \<open>A world that meets the contract\<close>

record uart_world =
  uw_fifo :: bytes
  uw_took :: bytes
  uw_handed :: bytes
  uw_sent :: bytes
  uw_xmit :: bytes

abbreviation uw_base :: u32 where "uw_base \<equiv> 0xfff50000"

definition uw_readl :: "u32 \<Rightarrow> uart_world \<Rightarrow> u32 \<times> uart_world" where
  "uw_readl a w =
     (if a = uw_base then (CTRL_TX_NFULL OR (if uw_fifo w = [] then 0 else CTRL_RX_NEMPTY), w)
      else if a = uw_base + 4 \<and> uw_fifo w \<noteq> []
      then (ucast (hd (uw_fifo w)), w\<lparr>uw_fifo := tl (uw_fifo w), uw_took := uw_took w @ [hd (uw_fifo w)]\<rparr>)
      else (0, w))"

definition uw_writel :: "u32 \<Rightarrow> u32 \<Rightarrow> uart_world \<Rightarrow> uart_world" where
  "uw_writel a x w = (if a = uw_base + 4 then w\<lparr>uw_sent := uw_sent w @ [ucast x]\<rparr> else w)"

text \<open>One character of the transmit buffer, if the device is ready.\<close>

definition uw_port_tx :: "(uart_world \<Rightarrow> bool \<times> uart_world) \<Rightarrow> (u8 \<Rightarrow> uart_world \<Rightarrow> uart_world) \<Rightarrow> uart_world \<Rightarrow> uart_world" where
  "uw_port_tx ready put w = (let (r, w) = ready w in if r then foldl (\<lambda>w b. put b w) w (uw_xmit w) else w)"

text \<open>What the line discipline takes of the characters it is given: all of them, or at most so many at a time.\<close>

definition uw_room :: "nat option \<Rightarrow> bytes \<Rightarrow> nat" where
  "uw_room room bs = (case room of None \<Rightarrow> length bs | Some n \<Rightarrow> min n (length bs))"

definition uw_kernel :: "int + unit \<Rightarrow> bool \<Rightarrow> nat option \<Rightarrow> uart_world kernel" where
  "uw_kernel run att room = \<lparr>readl = uw_readl, writel = uw_writel, uart_port_tx = uw_port_tx,
     uart_console_write = \<lambda>s put w. foldl (\<lambda>w b. case w of None \<Rightarrow> None | Some w \<Rightarrow> put b w) (Some w) s,
     kthread_should_stop = \<lambda>w. (False, w), kthread_run = \<lambda>w. (run, w), kthread_stop = \<lambda>w. w, schedule_timeout = \<lambda>w. w,
     k_state = \<lambda>w. True, k_tty = \<lambda>w. att, k_ldisc = \<lambda>w. True,
     tty_ldisc_receive_buf = \<lambda>bs w. (uw_room room bs, w\<lparr>uw_handed := uw_handed w @ take (uw_room room bs) bs\<rparr>),
     of_alias_get_id = \<lambda>w. 0, ioremap_resource = \<lambda>w. (Inr uw_base, w), uart_add_one_port = \<lambda>w. (0, w),
     uart_remove_one_port = \<lambda>w. w, uart_register_driver = \<lambda>w. (0, w), uart_unregister_driver = \<lambda>w. w,
     platform_driver_register = \<lambda>w. (0, w), platform_driver_unregister = \<lambda>w. w,
     uart_get_baud_rate = \<lambda>lo hi w. hi, uart_update_timeout = \<lambda>b w. w,
     uart_parse_options = \<lambda>s. (115200, CHR ''n'', 8, CHR ''n''), uart_set_options = \<lambda>os w. (0, w)\<rparr>"

definition uw_view :: "uart_world rx_view" where
  "uw_view = \<lparr>fifo = uw_fifo, took = uw_took, handed = uw_handed\<rparr>"

definition uw0 :: uart_world where
  "uw0 = \<lparr>uw_fifo = [0x6c, 0x73, 0x0a], uw_took = [], uw_handed = [], uw_sent = [], uw_xmit = [0x23]\<rparr>"

definition uw_port :: neorv32_port where
  "uw_port = \<lparr>port_mapped = True, membase = uw_base, icount_rx = 0, fifosize = 16, ptype = PORT_UNKNOWN, pline = 0,
     poll_thread_on = True, port_open = True\<rparr>"

lemma uw_tx_contract: "tx_contract (uw_kernel r att room)"
proof -
  have "P w \<Longrightarrow> P (foldl (\<lambda>w b. put b w) w bs)" if "\<And>b w. P w \<Longrightarrow> P (put b w)"
    for P :: "uart_world \<Rightarrow> bool" and put :: "u8 \<Rightarrow> uart_world \<Rightarrow> uart_world" and w bs
    using that by (induction bs arbitrary: w) auto
  then show ?thesis unfolding tx_contract_def uw_kernel_def uw_port_tx_def
    by (auto simp: split_beta Let_def) metis
qed

lemma ucast_masked: "ucast (ucast (b :: u8) AND 0xFF :: u32) = b"
proof (rule bit_word_eqI)
  fix n assume "n < LENGTH(8)"
  moreover have "(0xFF :: u32) = mask 8" by (simp add: mask_eq_exp_minus_1)
  ultimately show "bit (ucast (ucast b AND 0xFF :: u32) :: u8) n = bit b n"
    by (simp only: bit_ucast_iff bit_and_iff bit_mask_iff) auto
qed

lemma uw_contract: "uart_contract (uw_kernel r att room) uw_view uw_base"
  unfolding uart_contract_def using uw_tx_contract [of r att room]
  by (auto simp: uw_kernel_def uw_view_def uw_readl_def uw_writel_def quiet_def ucast_masked uw_room_def split: option.splits)

lemma uw_round: "(driver_step (uw_kernel (Inr ()) True None) uw_view)\<^sup>*\<^sup>* (At_rx, uw_port, uw0)
    (At_rx, poll_round (uw_kernel (Inr ()) True None) (uw_port, uw0))"
proof -
  let ?k = "uw_kernel (Inr ()) True None"
  obtain p' w' where r: "poll_round ?k (uw_port, uw0) = (p', w')" by fastforce
  have "kthread_should_stop ?k uw0 = (False, uw0)" by (simp add: uw_kernel_def)
  from poll_round_steps [OF this r, of uw_view] show ?thesis unfolding r by (meson converse_rtranclp_into_rtranclp r_into_rtranclp)
qed

theorem rx_in_order_witness:
  "uw_handed (snd (poll_round (uw_kernel (Inr ()) True None) (uw_port, uw0))) =
     uw_took (snd (poll_round (uw_kernel (Inr ()) True None) (uw_port, uw0)))"
proof -
  let ?k = "uw_kernel (Inr ()) True None"
  obtain p' w' where r: "poll_round ?k (uw_port, uw0) = (p', w')" by fastforce
  have c: "uart_contract ?k uw_view (membase uw_port)" using uw_contract by (simp add: uw_port_def)
  have e: "handed uw_view uw0 = took uw_view uw0" by (simp add: uw_view_def uw0_def)
  have att: "(\<forall>w. attached ?k w) \<and> takes_all ?k" by (simp add: attached_def takes_all_def uw_kernel_def uw_room_def)
  have "handed uw_view w' @ held At_rx = took uw_view w'" using rx_in_order [OF c e uw_round [unfolded r]] att by blast
  then show ?thesis using r by (simp add: held_def uw_view_def)
qed

theorem poll_round_receives_witness:
  "case poll_round (uw_kernel (Inr ()) True None) (uw_port, uw0) of (p', w') \<Rightarrow>
    \<exists>bs. took uw_view w' = took uw_view uw0 @ bs \<and> length bs \<le> 64 \<and> (length bs < 64 \<longrightarrow> prefix (fifo uw_view uw0) bs)"
proof -
  have c: "uart_contract (uw_kernel (Inr ()) True None) uw_view (membase uw_port)" using uw_contract by (simp add: uw_port_def)
  show ?thesis using poll_round_receives [OF c, of uw0] by (auto split: prod.splits)
qed

theorem deliver_loses_witness:
  "uw_handed (deliver (uw_kernel (Inr ()) True (Some 1)) [0x6c, 0x73] uw0) = [0x6c]"
proof -
  let ?k = "uw_kernel (Inr ()) True (Some 1)"
  have "handed uw_view (deliver ?k [0x6c, 0x73] uw0) = handed uw_view uw0 @ take (fst (tty_ldisc_receive_buf ?k [0x6c, 0x73] uw0)) [0x6c, 0x73]"
    by (rule deliver_loses [OF uw_contract, THEN conjunct1]) (simp_all add: uw_kernel_def uw_room_def attached_def)
  then show ?thesis by (simp add: uw_kernel_def uw_room_def uw_view_def uw0_def)
qed

theorem startup_hides_failure_witness:
  "\<exists>p' w'. neorv32_startup (uw_kernel (Inl (-12)) True None) uw_port uw0 = Some (0, p', w') \<and> port_open p' \<and> \<not> poll_thread_on p'"
proof (rule startup_hides_failure)
  show "fst (kthread_run (uw_kernel (Inl (-12)) True None) w) = Inl (-12)" for w by (simp add: uw_kernel_def)
  show "\<exists>w'. neo_uart_dbg (uw_kernel (Inl (-12)) True None) c w = Some w'" for c w
    unfolding neo_uart_dbg_def by (subst wait_tx.simps) (simp add: uw_kernel_def uw_readl_def)
qed

end
