(* ===== verification/Icesugar_Demo.thy ===== *)
theory Icesugar_Demo
  imports Prelude
begin

unbundle bit_operations_syntax

section \<open>The bring-up program for the iCESugar board (\<open>icesugar/sw/hello/main.c\<close>)\<close>

text \<open>
  A test of the on-chip memory, a report, and a loop of one-letter commands.  The memory under
  test is a parameter: what it does with accesses of one, two and four bytes is just what the test
  is there to find out.  What the NEORV32 library is asked to do is recorded as a list of
  actions.
\<close>

subsection \<open>The memory test\<close>

text \<open>Accesses to the union \<open>mem\<close>, with the index in the view of that width.\<close>

record 'm spram =
  mem_w :: "nat \<Rightarrow> u32 \<Rightarrow> 'm \<Rightarrow> 'm"
  mem_h :: "nat \<Rightarrow> u16 \<Rightarrow> 'm \<Rightarrow> 'm"
  mem_b :: "nat \<Rightarrow> u8 \<Rightarrow> 'm \<Rightarrow> 'm"
  rd_w :: "nat \<Rightarrow> 'm \<Rightarrow> u32"

text \<open>\<open>if (mem.w[i] != v) errors++\<close>\<close>

definition check :: "'m spram \<Rightarrow> nat \<Rightarrow> u32 \<Rightarrow> nat \<times> 'm \<Rightarrow> nat \<times> 'm" where
  "check s i v r = (let (errors, m) = r in (if rd_w s i m \<noteq> v then errors + 1 else errors, m))"

definition put_w :: "'m spram \<Rightarrow> nat \<Rightarrow> u32 \<Rightarrow> nat \<times> 'm \<Rightarrow> nat \<times> 'm" where
  "put_w s i v r = (fst r, mem_w s i v (snd r))"

definition put_h :: "'m spram \<Rightarrow> nat \<Rightarrow> u16 \<Rightarrow> nat \<times> 'm \<Rightarrow> nat \<times> 'm" where
  "put_h s i v r = (fst r, mem_h s i v (snd r))"

definition put_b :: "'m spram \<Rightarrow> nat \<Rightarrow> u8 \<Rightarrow> nat \<times> 'm \<Rightarrow> nat \<times> 'm" where
  "put_b s i v r = (fst r, mem_b s i v (snd r))"

definition walking_ones :: "'m spram \<Rightarrow> nat \<times> 'm \<Rightarrow> nat \<times> 'm" where
  "walking_ones s r = foldl (\<lambda>r i. check s i (push_bit i 1) (put_w s i (push_bit i 1) r)) r [0..<32]"

definition byte_enables :: "'m spram \<Rightarrow> nat \<times> 'm \<Rightarrow> nat \<times> 'm" where
  "byte_enables s r =
     (let r = put_w s 64 0xAABBCCDD r;
          r = check s 64 0xAABBCC11 (put_b s (64 * 4 + 0) 0x11 r);
          r = check s 64 0xAABB2211 (put_b s (64 * 4 + 1) 0x22 r);
          r = check s 64 0xAA332211 (put_b s (64 * 4 + 2) 0x33 r)
      in check s 64 0x44332211 (put_b s (64 * 4 + 3) 0x44 r))"

definition half_enables :: "'m spram \<Rightarrow> nat \<times> 'm \<Rightarrow> nat \<times> 'm" where
  "half_enables s r =
     check s 65 0x56781234 (put_h s (65 * 2 + 1) 0x5678 (put_h s (65 * 2 + 0) 0x1234 (put_w s 65 0 r)))"

definition unique_addresses :: "'m spram \<Rightarrow> nat \<times> 'm \<Rightarrow> nat \<times> 'm" where
  "unique_addresses s r =
     (let r = foldl (\<lambda>r i. put_w s i (of_nat i * 0x01010101) r) r [0..<256]
      in foldl (\<lambda>r i. check s i (of_nat i * 0x01010101) r) r [0..<256])"

definition spram_test :: "'m spram \<Rightarrow> 'm \<Rightarrow> nat \<times> 'm" where
  "spram_test s m = unique_addresses s (half_enables s (byte_enables s (walking_ones s (0, m))))"

subsection \<open>The program\<close>

text \<open>What the program asks of the library; \<open>Printf\<close> with its format and numeric arguments.\<close>

datatype action =
    Rte_setup
  | Uart_setup nat
  | Printf string "u32 list"
  | Gpio_port_set u32
  | Delay_ms nat

text \<open>Clock, identification registers, memory sizes, boot mode; the machine timer at its next readings.\<close>

record board_info =
  bi_clk :: u32
  bi_mhartid :: u32
  bi_misa :: u32
  bi_mxisa :: u32
  bi_imemsize :: u32
  bi_dmemsize :: u32
  bi_bootmode :: u32

record 'm board =
  bd_mem :: 'm
  bd_time :: "64 word list"
  bd_log :: "action list"

abbreviation NL :: char where "NL \<equiv> CHR 0x0A"

definition act :: "action list \<Rightarrow> 'm board \<Rightarrow> 'm board" where
  "act xs b = b\<lparr>bd_log := bd_log b @ xs\<rparr>"

definition print_info :: "board_info \<Rightarrow> 'm board \<Rightarrow> 'm board" where
  "print_info i = act
     [Printf [NL] [],
      Printf (''+----------------------------------------------+'' @ [NL]) [],
      Printf (''|  NEORV32 on iCESugar (iCE40UP5K-SG48)        |'' @ [NL]) [],
      Printf (''+----------------------------------------------+'' @ [NL]) [],
      Printf (''Clock     : %u Hz'' @ [NL]) [bi_clk i],
      Printf (''HART ID   : %u'' @ [NL]) [bi_mhartid i],
      Printf (''MISA      : 0x%x'' @ [NL]) [bi_misa i],
      Printf (''MXISA     : 0x%x'' @ [NL]) [bi_mxisa i],
      Printf (''IMEM      : %u bytes (SPRAM)'' @ [NL]) [bi_imemsize i],
      Printf (''DMEM      : %u bytes (SPRAM)'' @ [NL]) [bi_dmemsize i],
      Printf (''Boot mode : %u'' @ [NL]) [bi_bootmode i]]"

definition print_help :: "'m board \<Rightarrow> 'm board" where
  "print_help = act [Printf ([NL] @ ''Commands:'' @ [NL] @
     ''  i - system info'' @ [NL] @
     ''  m - SPRAM memory test'' @ [NL] @
     ''  t - CLINT timer check (1 second)'' @ [NL] @
     ''  r/g/b - toggle red/green/blue LED'' @ [NL] @
     ''  h - this help'' @ [NL]) []]"

definition clint_time_get :: "'m board \<Rightarrow> 64 word \<times> 'm board" where
  "clint_time_get b = (case bd_time b of [] \<Rightarrow> (0, b) | t # ts \<Rightarrow> (t, b\<lparr>bd_time := ts\<rparr>))"

definition run_spram :: "'m spram \<Rightarrow> 'm board \<Rightarrow> nat \<times> 'm board" where
  "run_spram s b = (let (e, m) = spram_test s (bd_mem b) in (e, b\<lparr>bd_mem := m\<rparr>))"

definition toggle_led :: "nat \<Rightarrow> u32 \<times> 'm board \<Rightarrow> u32 \<times> 'm board" where
  "toggle_led k r = (let led = fst r XOR push_bit k 1 in (led, act [Gpio_port_set led] (snd r)))"

text \<open>One command.  The test result is printed with \<open>%s\<close>; here its text is part of the format.\<close>

definition command :: "'m spram \<Rightarrow> board_info \<Rightarrow> char \<Rightarrow> u32 \<times> 'm board \<Rightarrow> u32 \<times> 'm board" where
  "command s i c r =
     (let (led, b) = r in
      if c = CHR ''i'' then (led, print_info i b)
      else if c = CHR ''h'' then (led, print_help b)
      else if c = CHR ''m'' then
        let (err, b) = run_spram s b in
        (led, act [Printf (''SPRAM test: '' @ (if err \<noteq> 0 then ''FAIL'' else ''PASS'') @ '' (%u errors)'' @ [NL]) [of_nat err]] b)
      else if c = CHR ''t'' then
        let (t0, b) = clint_time_get b; b = act [Delay_ms 1000] b; (t1, b) = clint_time_get b in
        (led, act [Printf (''CLINT ticks in ~1 s: %u (expect ~%u)'' @ [NL]) [ucast (t1 - t0), bi_clk i]] b)
      else if c = CHR ''r'' then toggle_led 0 (led, b)
      else if c = CHR ''g'' then toggle_led 1 (led, b)
      else if c = CHR ''b'' then toggle_led 2 (led, b)
      else (led, act [Printf (''unknown command '' @ [CHR 0x27, c, CHR 0x27] @ '' - press '' @ [CHR 0x27] @ ''h'' @ [CHR 0x27] @ '' for help'' @ [NL]) []] b))"

definition pass_of_loop :: "'m spram \<Rightarrow> board_info \<Rightarrow> u32 \<times> 'm board \<Rightarrow> char \<Rightarrow> u32 \<times> 'm board" where
  "pass_of_loop s i r c =
     command s i c (fst r, act [Printf ([NL] @ ''icesugar> '') [], Printf [c, NL] []] (snd r))"

text \<open>The program up to the point where it waits for a character after those in \<open>cs\<close>.\<close>

definition start_up :: "'m spram \<Rightarrow> board_info \<Rightarrow> 'm board \<Rightarrow> u32 \<times> 'm board" where
  "start_up s i b =
     (let b = print_info i (act [Rte_setup, Uart_setup 19200] b);
          b = act ([Printf ([NL] @ ''RGB LED sweep... '') []] @
                   concat (map (\<lambda>k. [Gpio_port_set (push_bit k 1), Delay_ms 200]) [0..<3]) @
                   [Gpio_port_set 0, Printf (''done'' @ [NL]) [], Printf ''SPRAM test... '' []]) b;
          (err, b) = run_spram s b;
          (led, b) = (if err = 0 then (push_bit 1 1, act [Printf (''PASS'' @ [NL]) []] b)
                      else (push_bit 0 1, act [Printf (''FAIL (%u errors)'' @ [NL]) [of_nat err]] b))
      in (led, print_help (act [Gpio_port_set led] b)))"

definition demo_main :: "'m spram \<Rightarrow> board_info \<Rightarrow> string \<Rightarrow> 'm board \<Rightarrow> u32 \<times> 'm board" where
  "demo_main s i cs b = foldl (pass_of_loop s i) (start_up s i b) cs"

subsection \<open>What the memory test finds\<close>

text \<open>
  A memory of bytes whose write enables are wired to the byte lanes by \<open>lane\<close>: a store of less than a
  word reaches lane \<open>lane k\<close> of its word where it should reach lane \<open>k\<close>.
\<close>

definition store_lane :: "(nat \<Rightarrow> nat) \<Rightarrow> nat \<Rightarrow> u8 \<Rightarrow> (nat \<Rightarrow> u8) \<Rightarrow> nat \<Rightarrow> u8" where
  "store_lane lane a b m = m(4 * (a div 4) + lane (a mod 4) mod 4 := b)"

definition store_w :: "nat \<Rightarrow> u32 \<Rightarrow> (nat \<Rightarrow> u8) \<Rightarrow> nat \<Rightarrow> u8" where
  "store_w i v m = (\<lambda>a. if a div 4 = i then byte_of v (a mod 4) else m a)"

definition load_w :: "nat \<Rightarrow> (nat \<Rightarrow> u8) \<Rightarrow> u32" where
  "load_w i m = ucast (m (4 * i)) OR push_bit 8 (ucast (m (4 * i + 1))) OR
     push_bit 16 (ucast (m (4 * i + 2))) OR push_bit 24 (ucast (m (4 * i + 3)))"

definition lane_ram :: "(nat \<Rightarrow> nat) \<Rightarrow> (nat \<Rightarrow> u8) spram" where
  "lane_ram lane = \<lparr>mem_w = store_w,
     mem_h = \<lambda>i v m. store_lane lane (2 * i + 1) (byte_of v 1) (store_lane lane (2 * i) (byte_of v 0) m),
     mem_b = store_lane lane, rd_w = load_w\<rparr>"

lemma lane_ram_simps [simp]: "rd_w (lane_ram lane) = load_w" "mem_w (lane_ram lane) = store_w"
  by (simp_all add: lane_ram_def)

lemma byte_of_load: "k < 4 \<Longrightarrow> byte_of (load_w i m) k = m (4 * i + k)"
proof -
  assume "k < 4"
  then have k: "k = 0 \<or> k = 1 \<or> k = 2 \<or> k = 3" by auto
  show ?thesis
  proof (rule bit_word_eqI)
    fix n assume "n < LENGTH(8)"
    then show "bit (byte_of (load_w i m) k) n = bit (m (4 * i + k)) n"
      using k by (elim disjE) (auto simp: load_w_def bit_byte_of bit_or_iff bit_push_bit_iff bit_ucast_iff dest: bit_imp_le_length)
  qed
qed

lemma load_eq_iff: "load_w i m = v \<longleftrightarrow> (\<forall>k < 4. m (4 * i + k) = byte_of v k)"
proof
  assume a: "\<forall>k < 4. m (4 * i + k) = byte_of v k"
  have m: "m (4 * i) = byte_of v 0" "m (4 * i + 1) = byte_of v 1" "m (4 * i + 2) = byte_of v 2" "m (4 * i + 3) = byte_of v 3"
    using a [THEN spec [of _ 0]] a [THEN spec [of _ 1]] a [THEN spec [of _ 2]] a [THEN spec [of _ 3]] by simp_all
  show "load_w i m = v"
  proof (rule bit_word_eqI)
    fix n assume "n < LENGTH(32)"
    then have "n < 8 \<or> 8 \<le> n \<and> n < 16 \<or> 16 \<le> n \<and> n < 24 \<or> 24 \<le> n \<and> n < 32" by auto
    then show "bit (load_w i m) n = bit v n"
      unfolding load_w_def m by (auto simp: bit_or_iff bit_push_bit_iff bit_ucast_iff bit_byte_of)
  qed
qed (auto simp: byte_of_load)

lemma load_store_w [simp]: "load_w i (store_w j v m) = (if i = j then v else load_w i m)"
  by (auto simp: load_eq_iff store_w_def byte_of_load)

lemma check_errors: "fst (check s i v r) = (if rd_w s i (snd r) = v then fst r else fst r + 1)" "snd (check s i v r) = snd r"
  by (simp_all add: check_def split_beta Let_def)

lemma put_fst [simp]: "fst (put_w s i v r) = fst r" "fst (put_h s i h r) = fst r" "fst (put_b s i b r) = fst r"
  "snd (put_w s i v r) = mem_w s i v (snd r)" "snd (put_h s i h r) = mem_h s i h (snd r)" "snd (put_b s i b r) = mem_b s i b (snd r)"
  by (simp_all add: put_w_def put_h_def put_b_def)

lemma check_grows: "fst r \<le> fst (check s i v r)"
  by (simp add: check_errors)

lemma foldl_grows:
  assumes "\<And>r i. (fst r :: nat) \<le> fst (f r i)"
  shows "fst r \<le> fst (foldl f r ks)"
proof (induction ks arbitrary: r)
  case (Cons k ks)
  show ?case using assms [of r k] Cons [of "f r k"] by simp
qed simp

lemma fill_keeps: "fst (foldl (\<lambda>r i. put_w s i (g i) r) r ks) = fst r"
  by (induction ks arbitrary: r) simp_all

lemma walking_grows: "fst r \<le> fst (walking_ones s r)"
  unfolding walking_ones_def by (rule foldl_grows) (rule order_trans [OF _ check_grows], simp)

lemma half_grows: "fst r \<le> fst (half_enables s r)"
  unfolding half_enables_def by (rule order_trans [OF _ check_grows]) simp

lemma unique_grows: "fst r \<le> fst (unique_addresses s r)"
  unfolding unique_addresses_def Let_def by (rule order_trans [OF _ foldl_grows]) (simp_all add: fill_keeps check_grows)

lemma check_zero: "fst (check s i v r) = 0 \<longleftrightarrow> fst r = 0 \<and> rd_w s i (snd r) = v"
  by (simp add: check_errors)

text \<open>The four stores of single bytes pass exactly if every lane is the right one.\<close>

lemma store_lane_word: "k < 4 \<Longrightarrow> store_lane lane (64 * 4 + k) b m = m(64 * 4 + lane k mod 4 := b)"
proof -
  assume k: "k < 4"
  have "(64 * 4 + k) div 4 = 64" "(64 * 4 + k) mod 4 = k" using k by presburger+
  then show ?thesis by (simp only: store_lane_def) simp
qed

lemma load_64: "load_w 64 m = v \<longleftrightarrow>
    m 256 = byte_of v 0 \<and> m 257 = byte_of v 1 \<and> m 258 = byte_of v 2 \<and> m 259 = byte_of v 3"
proof -
  have "(\<forall>k < 4. P k) \<longleftrightarrow> P 0 \<and> P 1 \<and> P 2 \<and> P 3" for P :: "nat \<Rightarrow> bool"
    by (auto simp: numeral_eq_Suc less_Suc_eq)
  then show ?thesis by (simp add: load_eq_iff)
qed

lemma byte_enables_lanes:
  "fst (byte_enables (lane_ram lane) r) = 0 \<longleftrightarrow> fst r = 0 \<and> (\<forall>k < 4. lane k mod 4 = k)"
proof -
  define q where "q k = lane k mod 4" for k
  have q: "q k < 4" for k by (simp add: q_def)
  let ?m0 = "store_w 64 0xAABBCCDD (snd r)"
  let ?m1 = "?m0(64 * 4 + q 0 := 0x11)"
  let ?m2 = "?m1(64 * 4 + q 1 := 0x22)"
  let ?m3 = "?m2(64 * 4 + q 2 := 0x33)"
  let ?m4 = "?m3(64 * 4 + q 3 := 0x44)"
  have l: "store_lane lane (64 * 4 + k) b m = m(64 * 4 + q k := b)" if "k < 4" for k b m
    using store_lane_word [OF that] by (simp only: q_def)
  have "store_lane lane (64 * 4 + 0) = (\<lambda>b m. m(64 * 4 + q 0 := b))" "store_lane lane (64 * 4 + 1) = (\<lambda>b m. m(64 * 4 + q 1 := b))"
    "store_lane lane (64 * 4 + 2) = (\<lambda>b m. m(64 * 4 + q 2 := b))" "store_lane lane (64 * 4 + 3) = (\<lambda>b m. m(64 * 4 + q 3 := b))"
    by (intro ext l, simp)+
  then have e: "fst (byte_enables (lane_ram lane) r) = 0 \<longleftrightarrow> fst r = 0 \<and> load_w 64 ?m1 = 0xAABBCC11 \<and>
      load_w 64 ?m2 = 0xAABB2211 \<and> load_w 64 ?m3 = 0xAA332211 \<and> load_w 64 ?m4 = 0x44332211"
    by (simp only: byte_enables_def Let_def check_zero check_errors(2) put_fst lane_ram_def spram.simps conj_assoc)
  have m0: "?m0 256 = 0xDD" "?m0 257 = 0xCC" "?m0 258 = 0xBB" "?m0 259 = 0xAA"
    by (simp_all add: store_w_def byte_of_def)
  have lanes: "(\<forall>k < 4. q k = k) \<longleftrightarrow> q 0 = 0 \<and> q 1 = 1 \<and> q 2 = 2 \<and> q 3 = 3"
    by (auto simp: numeral_eq_Suc less_Suc_eq)
  have "load_w 64 ?m1 = 0xAABBCC11 \<longleftrightarrow> q 0 = 0"
    using q [of 0] m0 by (auto simp: load_64 byte_of_def)
  moreover have "load_w 64 ?m2 = 0xAABB2211 \<longleftrightarrow> q 1 = 1" if "q 0 = 0"
    using q [of 1] m0 that by (auto simp: load_64 byte_of_def)
  moreover have "load_w 64 ?m3 = 0xAA332211 \<longleftrightarrow> q 2 = 2" if "q 0 = 0" "q 1 = 1"
    using q [of 2] m0 that by (auto simp: load_64 byte_of_def)
  moreover have "load_w 64 ?m4 = 0x44332211 \<longleftrightarrow> q 3 = 3" if "q 0 = 0" "q 1 = 1" "q 2 = 2"
    using q [of 3] m0 that by (auto simp: load_64 byte_of_def)
  ultimately show ?thesis unfolding e q_def [symmetric] lanes by blast
qed

lemma foldl_zero:
  assumes "\<And>r i. i \<in> set ks \<Longrightarrow> fst r = (0 :: nat) \<Longrightarrow> P (snd r) \<Longrightarrow> fst (f r i) = 0 \<and> P (snd (f r i))" "fst r = 0" "P (snd r)"
  shows "fst (foldl f r ks) = 0"
  using assms
proof (induction ks arbitrary: r)
  case (Cons k ks)
  then show ?case by (simp add: Cons.IH)
qed simp

lemma filled: "k < n \<Longrightarrow> load_w k (snd (foldl (\<lambda>r i. put_w (lane_ram lane) i (g i) r) r [0..<n])) = g k"
  by (induction n arbitrary: k) (auto simp: lane_ram_def less_Suc_eq)

lemma walking_ok: "fst r = 0 \<Longrightarrow> fst (walking_ones (lane_ram lane) r) = 0"
  unfolding walking_ones_def
  by (rule foldl_zero [where P = "\<lambda>_. True"]) (simp_all add: check_errors lane_ram_def)

lemma unique_ok: "fst r = 0 \<Longrightarrow> fst (unique_addresses (lane_ram lane) r) = 0"
  unfolding unique_addresses_def Let_def
  by (rule foldl_zero [where P = "\<lambda>m. \<forall>k < 256. load_w k m = of_nat k * 0x01010101"])
    (simp_all add: check_errors fill_keeps filled)

lemma half_ok:
  assumes "\<forall>k < 4. lane k mod 4 = k" "fst r = 0"
  shows "fst (half_enables (lane_ram lane) r) = 0"
proof -
  have l: "lane 0 mod 4 = 0" "lane 1 mod 4 = 1" "lane 2 mod 4 = 2" "lane 3 mod 4 = 3" using assms(1) by auto
  have "load_w 65 m = v \<longleftrightarrow> m 260 = byte_of v 0 \<and> m 261 = byte_of v 1 \<and> m 262 = byte_of v 2 \<and> m 263 = byte_of v 3" for m v
  proof -
    have "(\<forall>k < 4. P k) \<longleftrightarrow> P 0 \<and> P 1 \<and> P 2 \<and> P 3" for P :: "nat \<Rightarrow> bool"
      by (auto simp: numeral_eq_Suc less_Suc_eq)
    then show ?thesis by (simp add: load_eq_iff)
  qed
  then show ?thesis
    using l assms(2) by (simp add: half_enables_def check_zero lane_ram_def store_lane_def store_w_def byte_of_def)
qed

text \<open>
  C30: the memory test finds every wrong wiring of the byte enables, and only that: on a memory whose
  enables are wired to the lanes by any mapping the number of errors is 0 exactly if every
  enable drives its own lane.
\<close>

theorem spram_test_lanes:
  "fst (spram_test (lane_ram lane) m) = 0 \<longleftrightarrow> (\<forall>k < 4. lane k mod 4 = k)"
proof
  let ?r = "byte_enables (lane_ram lane) (walking_ones (lane_ram lane) (0, m))"
  assume "fst (spram_test (lane_ram lane) m) = 0"
  then have "fst ?r = 0"
    using order_trans [OF half_grows unique_grows, of ?r "lane_ram lane" "lane_ram lane"] by (simp add: spram_test_def)
  then show "\<forall>k < 4. lane k mod 4 = k" by (simp only: byte_enables_lanes) blast
next
  assume a: "\<forall>k < 4. lane k mod 4 = k"
  have "fst (byte_enables (lane_ram lane) (walking_ones (lane_ram lane) (0, m))) = 0"
    using a by (simp add: byte_enables_lanes walking_ok)
  then show "fst (spram_test (lane_ram lane) m) = 0" by (simp add: spram_test_def half_ok [OF a] unique_ok)
qed

theorem spram_test_lanes_witness: "fst (spram_test (lane_ram (\<lambda>k. 3 - k)) (\<lambda>_. 0)) \<noteq> 0"
proof -
  have "\<not> (\<forall>k < 4. (3 - k) mod 4 = (k :: nat))" by (auto intro!: exI [of _ 0])
  then show ?thesis using spram_test_lanes [of "\<lambda>k. 3 - k" "\<lambda>_. 0"] by simp
qed

end
