(* ===== verification/Jtag_Scan.thy ===== *)
theory Jtag_Scan
  imports Jtag
begin

section \<open>\<open>Jtag\<close> as its clients see it: a sequence of register scans\<close>

text \<open>
  The classes that drive a device (\<open>altera.cpp\<close> and its siblings) and the SVF player use seven methods of \<open>Jtag\<close>.
  Here they are a record, \<open>jtag_user\<close>, filled by \<open>jtag_methods\<close> with the methods of the model of
  \<open>jtag.cpp\<close> and their default arguments.  What such a client achieves is the sequence of
  instructions and data the registers of the chain take over (\<open>scan\<close>), read off the clock edges by
  \<open>obs_step\<close>: bits count while the controllers shift, and a register is updated in the
  update state.  The locale \<open>scan_port\<close> is the contract of the methods in these terms; every
  cable that meets \<open>jtag_cable_clk\<close> gives one.
\<close>

subsection \<open>The methods the clients call\<close>

record 'j jtag_user =
  ju_set_state :: "tapState_t \<Rightarrow> 'j \<Rightarrow> 'j res"
  ju_go_test_logic_reset :: "'j \<Rightarrow> 'j res"
  ju_shiftIR :: "bytes \<Rightarrow> nat \<Rightarrow> tapState_t \<Rightarrow> 'j \<Rightarrow> 'j res"
  ju_shiftDR :: "bytes option \<Rightarrow> bytes option \<Rightarrow> nat \<Rightarrow> tapState_t \<Rightarrow> 'j \<Rightarrow> (bytes option \<times> 'j) res"
  ju_toggleClk :: "nat \<Rightarrow> 'j \<Rightarrow> 'j res"
  ju_shiftIR_tdo :: "bytes \<Rightarrow> bytes \<Rightarrow> nat \<Rightarrow> tapState_t \<Rightarrow> 'j \<Rightarrow> (bytes option \<times> 'j) res"
  ju_flush :: "'j \<Rightarrow> 'j res"

definition jtag_methods :: "'c jtag_ops \<Rightarrow> 'c jtag jtag_user" where
  "jtag_methods ops = \<lparr>
     ju_set_state = (\<lambda>n. set_state ops n 1),
     ju_go_test_logic_reset = go_test_logic_reset ops,
     ju_shiftIR = (\<lambda>tdi irlen e j. bindE (shiftIR ops (Some tdi) None irlen e j) (\<lambda>(_, j). Inr j)),
     ju_shiftDR = shiftDR ops,
     ju_toggleClk = (\<lambda>nb. toggleClk ops nb 0),
     ju_shiftIR_tdo = (\<lambda>tdi tdo. shiftIR ops (Some tdi) (Some tdo)),
     ju_flush = (\<lambda>j. bindE (flushTMS ops False j) (\<lambda>(_, j).
       bindE (flush_ll ops (j_cable j)) (\<lambda>(_, c). Inr (j\<lparr>j_cable := c\<rparr>))))\<rparr>"

subsection \<open>Scans on the wire\<close>

datatype scan = IR_scan "bool list" | DR_scan "bool list" | Tap_reset

record tap_obs =
  ob_state :: tapState_t
  ob_open :: "bool list"
  ob_scans :: "scan list"

definition obs_step :: "tap_obs \<Rightarrow> edge \<Rightarrow> tap_obs" where
  "obs_step ob e = (case e of (tms, tdi) \<Rightarrow>
     let s = ob_state ob; s' = tap_step s tms in
     \<lparr>ob_state = s',
      ob_open = (if s \<in> {CAPTURE_DR, CAPTURE_IR} then [] else if s \<in> {SHIFT_DR, SHIFT_IR} then ob_open ob @ [tdi] else ob_open ob),
      ob_scans = ob_scans ob @
        (if s' = UPDATE_DR then [DR_scan (ob_open ob)] else if s' = UPDATE_IR then [IR_scan (ob_open ob)]
         else if s' = TEST_LOGIC_RESET \<and> s \<noteq> TEST_LOGIC_RESET then [Tap_reset] else [])\<rparr>)"

definition observe :: "tap_obs \<Rightarrow> edge list \<Rightarrow> tap_obs" where
  "observe = foldl obs_step"

text \<open>A scan that is shifted but rests in front of the update state counts as done.\<close>

definition settled :: "tap_obs \<Rightarrow> scan list" where
  "settled ob = ob_scans ob @
     (if ob_state ob \<in> {EXIT1_DR, PAUSE_DR, EXIT2_DR} then [DR_scan (ob_open ob)]
      else if ob_state ob \<in> {EXIT1_IR, PAUSE_IR, EXIT2_IR} then [IR_scan (ob_open ob)] else [])"

definition ir_rest :: "tapState_t set" where
  "ir_rest = {RUN_TEST_IDLE, PAUSE_IR, EXIT1_IR, UPDATE_IR}"

definition dr_rest :: "tapState_t set" where
  "dr_rest = {RUN_TEST_IDLE, PAUSE_DR, EXIT1_DR, UPDATE_DR}"

definition rests :: "tapState_t set" where
  "rests = {TEST_LOGIC_RESET} \<union> ir_rest \<union> dr_rest"

lemmas rest_defs = rests_def ir_rest_def dr_rest_def

lemma observe_Nil [simp]: "observe ob [] = ob"
  and observe_Cons [simp]: "observe ob (e # es) = observe (obs_step ob e) es"
  and observe_append [simp]: "observe ob (es @ fs) = observe (observe ob es) fs"
  by (simp_all add: observe_def)

lemma obs_step_state [simp]: "ob_state (obs_step ob e) = tap_step (ob_state ob) (fst e)"
  by (simp add: obs_step_def Let_def split: prod.split)

lemma observe_state [simp]: "ob_state (observe ob es) = tap_run (ob_state ob) (map fst es)"
  by (induction es arbitrary: ob) auto

lemma observe_quiet:
  "\<not> passes SHIFT_DR (ob_state ob) (map fst es) \<Longrightarrow> \<not> passes SHIFT_IR (ob_state ob) (map fst es) \<Longrightarrow>
   observe ob es = observe ob (map (\<lambda>b. (b, False)) (map fst es))"
proof (induction es arbitrary: ob)
  case (Cons e es)
  have "obs_step ob e = obs_step ob (fst e, False)"
    using Cons.prems by (auto simp: obs_step_def Let_def split: prod.split)
  then show ?case using Cons.IH [of "obs_step ob e"] Cons.prems by auto
qed simp

text \<open>Bits shifted in one stay in a shift state.\<close>

lemma observe_shift:
  assumes "ob_state ob = S" "S \<in> {SHIFT_DR, SHIFT_IR}" "length bs = n" "0 < n"
  shows "observe ob (zip (replicate (n - 1) False @ [l]) bs) =
    ob\<lparr>ob_state := (if l then if S = SHIFT_DR then EXIT1_DR else EXIT1_IR else S), ob_open := ob_open ob @ bs\<rparr>"
  using assms(1,3,4)
proof (induction bs arbitrary: ob n)
  case (Cons b bs)
  show ?case
  proof (cases "bs = []")
    case True
    then show ?thesis using Cons.prems assms(2) by (auto simp: obs_step_def Let_def)
  next
    case False
    then obtain m where m: "n = Suc m" "length bs = m" "0 < m" using Cons.prems by auto
    then have z: "zip (replicate (n - 1) False @ [l]) (b # bs) = (False, b) # zip (replicate (m - 1) False @ [l]) bs"
      by (cases m) auto
    have s: "obs_step ob (False, b) = ob\<lparr>ob_open := ob_open ob @ [b]\<rparr>"
      using Cons.prems(1) assms(2) by (auto simp: obs_step_def Let_def)
    show ?thesis using Cons.IH [of "ob\<lparr>ob_open := ob_open ob @ [b]\<rparr>" m] Cons.prems m z s by simp
  qed
qed simp

text \<open>Clocks in \<open>Run-Test/Idle\<close>.\<close>

lemma tap_run_idle [simp]: "tap_run RUN_TEST_IDLE (replicate n False) = RUN_TEST_IDLE"
  by (induction n) auto

lemma idle_low: "tap_run s bs = RUN_TEST_IDLE \<Longrightarrow> bs \<noteq> [] \<Longrightarrow> \<not> last bs"
proof (induction bs rule: rev_induct)
  case (snoc b bs)
  have "tap_step s b = RUN_TEST_IDLE \<Longrightarrow> \<not> b" for s by (cases s) (auto split: if_splits)
  with snoc.prems show ?case by simp
qed simp

lemma observe_idle: "ob_state ob = RUN_TEST_IDLE \<Longrightarrow> map fst es = replicate n False \<Longrightarrow> observe ob es = ob"
proof (induction es arbitrary: n)
  case (Cons e es)
  then obtain m where "n = Suc m" by (cases n) auto
  moreover have "obs_step ob e = ob" if "fst e = False" using Cons.prems(1) that by (cases e) (simp add: obs_step_def)
  ultimately show ?case using Cons by auto
qed simp

text \<open>
  The moves of \<open>set_state\<close>.  From a rest no bit is shifted on the way; what was scanned before is
  taken over, and a register that is entered starts empty.
\<close>

definition reset_scan :: "tapState_t \<Rightarrow> tapState_t \<Rightarrow> scan list" where
  "reset_scan st n = (if n = TEST_LOGIC_RESET \<and> st \<noteq> TEST_LOGIC_RESET then [Tap_reset] else [])"

definition quiet_move :: "tapState_t \<Rightarrow> tapState_t \<Rightarrow> bool" where
  "quiet_move st n \<longleftrightarrow>
     n \<in> {RUN_TEST_IDLE, TEST_LOGIC_RESET} \<and> st \<in> rests \<or>
     n = SHIFT_IR \<and> st \<in> rests - {PAUSE_IR, EXIT1_IR} \<or> n = SHIFT_DR \<and> st \<in> rests - {PAUSE_DR, EXIT1_DR} \<or>
     st = EXIT1_IR \<and> n \<in> ir_rest \<or> st = EXIT1_DR \<and> n \<in> dr_rest"

definition move_ok :: "tapState_t \<Rightarrow> tapState_t \<Rightarrow> bool" where
  "move_ok st n \<longleftrightarrow> (case tms_path set_state_fuel n st of Inl _ \<Rightarrow> False
     | Inr p \<Rightarrow> \<not> passes SHIFT_DR st p \<and> \<not> passes SHIFT_IR st p \<and>
         (\<forall>ob. ob_state ob = st \<longrightarrow> (let ob' = observe ob (map (\<lambda>b. (b, False)) p) in
            settled ob' = settled ob @ reset_scan st n \<and> (n \<in> {SHIFT_DR, SHIFT_IR} \<longrightarrow> ob_open ob' = []))))"

lemmas path_eval = set_state_fuel_def tms_path.simps numeral_eq_Suc set_state_switch_def

lemma quiet_moves:
  assumes "quiet_move st n"
  shows "move_ok st n"
proof -
  have "move_ok st n" if "n \<in> {RUN_TEST_IDLE, TEST_LOGIC_RESET}" "st \<in> rests" for st n
    using that by (auto simp: rest_defs move_ok_def path_eval obs_step_def Let_def settled_def reset_scan_def)
  moreover have "move_ok st SHIFT_IR" if "st \<in> rests - {PAUSE_IR, EXIT1_IR}" for st
    using that by (auto simp: rest_defs move_ok_def path_eval obs_step_def Let_def settled_def reset_scan_def)
  moreover have "move_ok st SHIFT_DR" if "st \<in> rests - {PAUSE_DR, EXIT1_DR}" for st
    using that by (auto simp: rest_defs move_ok_def path_eval obs_step_def Let_def settled_def reset_scan_def)
  moreover have "move_ok EXIT1_IR n" if "n \<in> ir_rest" for n
    using that by (auto simp: rest_defs move_ok_def path_eval obs_step_def Let_def settled_def reset_scan_def)
  moreover have "move_ok EXIT1_DR n" if "n \<in> dr_rest" for n
    using that by (auto simp: rest_defs move_ok_def path_eval obs_step_def Let_def settled_def reset_scan_def)
  ultimately show ?thesis using assms unfolding quiet_move_def by blast
qed

lemma observe_move:
  assumes "quiet_move (ob_state ob) n" "tms_path set_state_fuel n (ob_state ob) = Inr p" "map fst es = p"
  shows "settled (observe ob es) = settled ob @ reset_scan (ob_state ob) n"
    and "n \<in> {SHIFT_DR, SHIFT_IR} \<Longrightarrow> ob_open (observe ob es) = []"
proof -
  have ok: "move_ok (ob_state ob) n" using quiet_moves [OF assms(1)] .
  then have "observe ob es = observe ob (map (\<lambda>b. (b, False)) p)"
    using assms(2,3) by (simp add: move_ok_def observe_quiet)
  then show "settled (observe ob es) = settled ob @ reset_scan (ob_state ob) n"
    "n \<in> {SHIFT_DR, SHIFT_IR} \<Longrightarrow> ob_open (observe ob es) = []"
    using ok assms(2) by (auto simp: move_ok_def Let_def)
qed

text \<open>Leaving an unfinished data scan shifts one more bit.\<close>

lemma observe_leave:
  assumes "ob_state ob = SHIFT_DR" "tms_path set_state_fuel n SHIFT_DR = Inr p" "map fst es = p"
    and "quiet_move EXIT1_DR n" "n \<noteq> SHIFT_DR"
  shows "\<exists>b. settled (observe ob es) = ob_scans ob @ [DR_scan (ob_open ob @ [b])] @ reset_scan SHIFT_DR n"
    and "n = SHIFT_IR \<Longrightarrow> ob_open (observe ob es) = []"
proof -
  have "set_state_switch n SHIFT_DR = Inr (True, EXIT1_DR)" using assms(5) by (simp add: set_state_switch_def)
  then obtain q where q: "p = True # q" "tms_path 15 n EXIT1_DR = Inr q"
    using assms(2,5) unfolding set_state_fuel_def
    by (auto simp: tms_path_Suc_Inr [of 15, simplified])
  then have path: "tms_path set_state_fuel n EXIT1_DR = Inr q"
    using tms_path_mono [of 15 n EXIT1_DR q 1] by (simp add: set_state_fuel_def)
  obtain b fs where es: "es = (True, b) # fs" "map fst fs = q" using assms(3) q(1) by (auto simp: map_eq_Cons_conv)
  let ?ob = "obs_step ob (True, b)"
  have ob: "ob_state ?ob = EXIT1_DR" "settled ?ob = ob_scans ob @ [DR_scan (ob_open ob @ [b])]"
    using assms(1) by (simp_all add: obs_step_def settled_def)
  have m: "quiet_move (ob_state ?ob) n" "tms_path set_state_fuel n (ob_state ?ob) = Inr q" using assms(4) path ob(1) by simp_all
  have "settled (observe ob es) = ob_scans ob @ [DR_scan (ob_open ob @ [b])] @ reset_scan SHIFT_DR n"
    using observe_move(1) [OF m es(2)] ob es(1) by (simp add: reset_scan_def)
  then show "\<exists>b. settled (observe ob es) = ob_scans ob @ [DR_scan (ob_open ob @ [b])] @ reset_scan SHIFT_DR n" by blast
  show "n = SHIFT_IR \<Longrightarrow> ob_open (observe ob es) = []" using observe_move(2) [OF m es(2)] es(1) by simp
qed

subsection \<open>The contract of the methods\<close>

text \<open>
  \<open>log j\<close> are the scans done so far, \<open>opn j\<close> the bits of a data scan that rests in \<open>SHIFT_DR\<close>;
  the four lists are the bits shifted for the other devices of the chain.  Leaving an
  unfinished data scan takes one more bit, of unspecified value, and skips the padding
  behind it.
\<close>

definition finish :: "tapState_t \<Rightarrow> bool list \<Rightarrow> scan list \<Rightarrow> bool" where
  "finish st bits xs \<longleftrightarrow> (if st = SHIFT_DR then \<exists>b. xs = [DR_scan (bits @ [b])] else xs = [])"

locale scan_port =
  fixes u :: "'j jtag_user"
    and ok :: "'j \<Rightarrow> bool"
    and st :: "'j \<Rightarrow> tapState_t"
    and log :: "'j \<Rightarrow> scan list"
    and opn :: "'j \<Rightarrow> bool list"
    and ir_pre ir_post dr_pre dr_post :: "bool list"
  assumes set_state_port:
    "ok j \<Longrightarrow> n \<in> {RUN_TEST_IDLE, TEST_LOGIC_RESET} \<Longrightarrow> st j \<in> insert SHIFT_DR rests \<Longrightarrow>
       \<exists>j' xs. ju_set_state u n j = Inr j' \<and> ok j' \<and> st j' = n \<and> finish (st j) (opn j) xs \<and>
         log j' = log j @ xs @ reset_scan (st j) n"
    and end_scan_port:
    "ok j \<Longrightarrow> st j = SHIFT_DR \<Longrightarrow> n \<in> dr_rest \<Longrightarrow>
       \<exists>j' b. ju_set_state u n j = Inr j' \<and> ok j' \<and> st j' = n \<and> log j' = log j @ [DR_scan (opn j @ [b])]"
    and shiftIR_port:
    "ok j \<Longrightarrow> st j \<in> insert SHIFT_DR rests - {PAUSE_IR, EXIT1_IR} \<Longrightarrow> e \<in> ir_rest \<Longrightarrow>
       0 < len \<Longrightarrow> len \<le> 8 * length tx \<Longrightarrow>
       \<exists>j' xs. ju_shiftIR u tx len e j = Inr j' \<and> ok j' \<and> st j' = e \<and> finish (st j) (opn j) xs \<and>
         log j' = log j @ xs @ [IR_scan (ir_pre @ bits_of tx len @ ir_post)]"
    and shiftDR_port:
    "ok j \<Longrightarrow> st j \<in> rests - {PAUSE_DR, EXIT1_DR} \<or> st j = SHIFT_DR \<Longrightarrow> e \<in> insert SHIFT_DR dr_rest \<Longrightarrow>
       0 < len \<Longrightarrow> len \<le> 8 * length tx \<Longrightarrow> (\<And>b. rx = Some b \<Longrightarrow> len \<le> 8 * length b) \<Longrightarrow>
       \<exists>rx' j'. ju_shiftDR u (Some tx) rx len e j = Inr (rx', j') \<and> ok j' \<and> st j' = e \<and>
         (let bits = (if st j = SHIFT_DR then opn j else dr_pre) @ bits_of tx len in
          if e = SHIFT_DR then opn j' = bits \<and> log j' = log j else log j' = log j @ [DR_scan (bits @ dr_post)])"
    and toggleClk_port:
    "ok j \<Longrightarrow> st j = RUN_TEST_IDLE \<Longrightarrow>
       \<exists>j'. ju_toggleClk u len j = Inr j' \<and> ok j' \<and> st j' = RUN_TEST_IDLE \<and> log j' = log j"
    and shiftIR_tdo_port:
    "ok j \<Longrightarrow> st j \<in> insert SHIFT_DR rests - {PAUSE_IR, EXIT1_IR} \<Longrightarrow> e \<in> ir_rest \<Longrightarrow>
       0 < len \<Longrightarrow> len \<le> 8 * length tx \<Longrightarrow> len \<le> 8 * length buf \<Longrightarrow>
       \<exists>rx' j' xs. ju_shiftIR_tdo u tx buf len e j = Inr (rx', j') \<and> ok j' \<and> st j' = e \<and> finish (st j) (opn j) xs \<and>
         log j' = log j @ xs @ [IR_scan (ir_pre @ bits_of tx len @ ir_post)]"
    and flush_port:
    "ok j \<Longrightarrow> \<exists>j'. ju_flush u j = Inr j' \<and> ok j' \<and> st j' = st j \<and> opn j' = opn j \<and> log j' = log j"

subsection \<open>Every cable that also clocks gives a scan port\<close>

text \<open>
  \<open>toggleClk\<close> keeps TMS at the level it is asked for; like \<open>writeTDI\<close> it is only specified when
  that is the level of the last edge.
\<close>

locale jtag_cable_clk = jtag_cable ops inv edges
  for ops :: "'c jtag_ops" and inv :: "'c \<Rightarrow> bool" and edges :: "'c \<Rightarrow> edge list" +
  assumes toggleClk_edges:
    "inv c \<Longrightarrow> edges c \<noteq> [] \<Longrightarrow> fst (last (edges c)) = (tms \<noteq> 0) \<Longrightarrow>
       \<exists>ret c' new. toggleClk_ll ops tms tdi n c = Inr (ret, c') \<and> 0 \<le> ret \<and> inv c' \<and>
         edges c' = edges c @ new \<and> map fst new = replicate n (tms \<noteq> 0)"

definition port_view :: "('c \<Rightarrow> edge list) \<Rightarrow> tapState_t \<Rightarrow> 'c jtag \<Rightarrow> tap_obs" where
  "port_view edges s0 j = observe \<lparr>ob_state = s0, ob_open = [], ob_scans = []\<rparr> (edges (j_cable j))"

definition port_in_use :: "('c \<Rightarrow> bool) \<Rightarrow> ('c \<Rightarrow> edge list) \<Rightarrow> tapState_t \<Rightarrow> 'c jtag \<Rightarrow> bool" where
  "port_in_use cinv edges s0 j \<longleftrightarrow> s0 \<noteq> UNKNOWN \<and> cinv (j_cable j) \<and> synced edges s0 j \<and> edges (j_cable j) \<noteq> []"

text \<open>The padding of the object, with room in its buffers.\<close>

definition padding :: "bool list \<Rightarrow> bool list \<Rightarrow> bool list \<Rightarrow> bool list \<Rightarrow> 'c jtag \<Rightarrow> bool" where
  "padding ir_pre ir_post dr_pre dr_post j \<longleftrightarrow>
     max (unat (j_ir_bits_before j)) (unat (j_ir_bits_after j)) \<le> 8 * length (j_ir_bits j) \<and>
     max (unat (j_dr_bits_before j)) (unat (j_dr_bits_after j)) \<le> 8 * length (j_dr_bits j) \<and>
     bits_of (j_ir_bits j) (unat (j_ir_bits_before j)) = ir_pre \<and> bits_of (j_ir_bits j) (unat (j_ir_bits_after j)) = ir_post \<and>
     bits_of (j_dr_bits j) (unat (j_dr_bits_before j)) = dr_pre \<and> bits_of (j_dr_bits j) (unat (j_dr_bits_after j)) = dr_post"

definition port_ok :: "('c \<Rightarrow> bool) \<Rightarrow> ('c \<Rightarrow> edge list) \<Rightarrow> tapState_t \<Rightarrow>
    bool list \<Rightarrow> bool list \<Rightarrow> bool list \<Rightarrow> bool list \<Rightarrow> 'c jtag \<Rightarrow> bool" where
  "port_ok cinv edges s0 ir_pre ir_post dr_pre dr_post j \<longleftrightarrow>
     port_in_use cinv edges s0 j \<and> padding ir_pre ir_post dr_pre dr_post j"

lemma padding_cfg: "same_cfg j j' \<Longrightarrow> padding a b c d j' = padding a b c d j"
  by (simp add: same_cfg_def padding_def)

lemma port_view_state: "synced edges s0 j \<Longrightarrow> ob_state (port_view edges s0 j) = j_state j"
  by (simp add: port_view_def synced_def)

definition exit_of :: "tapState_t \<Rightarrow> tapState_t" where
  "exit_of S = (if S = SHIFT_DR then EXIT1_DR else EXIT1_IR)"

locale scan_cable = jtag_cable ops inv edges
  for ops :: "'c jtag_ops" and inv :: "'c \<Rightarrow> bool" and edges :: "'c \<Rightarrow> edge list" +
  fixes s0 :: tapState_t and ir_pre ir_post dr_pre dr_post :: "bool list"

context scan_cable
begin

lemma goto_port:
  assumes "port_in_use inv edges s0 j"
    and "quiet_move (j_state j) n \<or> j_state j = SHIFT_DR \<and> quiet_move EXIT1_DR n \<and> n \<noteq> SHIFT_DR"
  shows "\<exists>j' xs. set_state ops n tdi j = Inr j' \<and> port_in_use inv edges s0 j' \<and> same_cfg j j' \<and> j_state j' = n \<and>
    finish (j_state j) (ob_open (port_view edges s0 j)) xs \<and>
    settled (port_view edges s0 j') = settled (port_view edges s0 j) @ xs @ reset_scan (j_state j) n \<and>
    (n \<in> {SHIFT_DR, SHIFT_IR} \<longrightarrow> ob_open (port_view edges s0 j') = [])"
proof -
  have sy: "inv (j_cable j)" "synced edges s0 j" "edges (j_cable j) \<noteq> []" and known: "s0 \<noteq> UNKNOWN"
    using assms(1) by (simp_all add: port_in_use_def)
  have n: "n \<noteq> UNKNOWN" using assms(2) by (auto simp: quiet_move_def rest_defs)
  from set_state_synced [OF sy(1,2) n known, of tdi] obtain j' new p where
    s: "set_state ops n tdi j = Inr j'" "inv (j_cable j')" "synced edges s0 j'" "same_cfg j j'" "j_state j' = n"
      "tms_path set_state_fuel n (j_state j) = Inr p" "edges (j_cable j') = edges (j_cable j) @ new" "map fst new = p" by blast
  let ?v = "port_view edges s0 j"
  have v: "port_view edges s0 j' = observe ?v new" using s(7) by (simp add: port_view_def)
  have st: "ob_state ?v = j_state j" using port_view_state [OF sy(2)] .
  have "\<exists>xs. finish (j_state j) (ob_open ?v) xs \<and> settled (observe ?v new) = settled ?v @ xs @ reset_scan (j_state j) n \<and>
      (n \<in> {SHIFT_DR, SHIFT_IR} \<longrightarrow> ob_open (observe ?v new) = [])"
    using assms(2)
  proof
    assume q: "quiet_move (j_state j) n"
    then have "j_state j \<noteq> SHIFT_DR" by (auto simp: quiet_move_def rest_defs)
    then show ?thesis using observe_move [of ?v n p new] q s(6,8) st by (simp add: finish_def)
  next
    assume q: "j_state j = SHIFT_DR \<and> quiet_move EXIT1_DR n \<and> n \<noteq> SHIFT_DR"
    then have "settled ?v = ob_scans ?v" using st by (simp add: settled_def)
    then show ?thesis using observe_leave [of ?v n p new] q s(6,8) st by (auto simp: finish_def)
  qed
  moreover have "port_in_use inv edges s0 j'" using s(2,3,7) sy(3) known by (simp add: port_in_use_def)
  ultimately show ?thesis using s(1,4,5) v by metis
qed

lemma shift_port:
  assumes "port_in_use inv edges s0 j" "j_state j = S" "S \<in> {SHIFT_DR, SHIFT_IR}"
    and "0 < len" "len \<le> 8 * length tx" "\<And>b. rx = Some b \<Longrightarrow> len \<le> 8 * length b"
  shows "\<exists>rx' j'. read_write ops (Some tx) rx len l j = Inr (rx', j') \<and> port_in_use inv edges s0 j' \<and> same_cfg j j' \<and>
    j_state j' = (if l then exit_of S else S) \<and> ob_open (port_view edges s0 j') = ob_open (port_view edges s0 j) @ bits_of tx len \<and>
    ob_scans (port_view edges s0 j') = ob_scans (port_view edges s0 j)"
proof -
  have wf: "inv (j_cable j)" "jtag_wf j" "j_num_tms j = 0" "edges (j_cable j) \<noteq> []" and sy: "synced edges s0 j"
    and run: "tap_run s0 (map fst (edges (j_cable j))) = S"
    using assms(1,2) by (auto simp: port_in_use_def synced_def)
  have low: "\<not> fst (last (edges (j_cable j)))"
    using tap_run_shift_low [of s0 "map fst (edges (j_cable j))"] run assms(3) wf(4) by (auto simp: last_map)
  let ?z = "zip (replicate (len - 1) False @ [l]) (bits_of tx len)"
  from writeTDI_edges [OF wf(1) assms(4,5,6) wf(4) low, where last_bit = l] obtain ret rx' c' where
    w: "writeTDI ops (Some tx) rx len l (j_cable j) = Inr (ret, rx', c')" "inv c'" "edges c' = edges (j_cable j) @ ?z" by blast
  let ?v = "port_view edges s0 j" and ?j = "j\<lparr>j_cable := c', j_state := (if l then exit_of S else S)\<rparr>"
  have st: "ob_state ?v = S" using port_view_state [OF sy] assms(2) by simp
  have v: "port_view edges s0 ?j = ?v\<lparr>ob_state := (if l then exit_of S else S), ob_open := ob_open ?v @ bits_of tx len\<rparr>"
    using observe_shift [where bs = "bits_of tx len" and l = l, OF st assms(3) length_bits_of assms(4)] w(3)
    by (simp add: port_view_def exit_of_def)
  have "ob_state (port_view edges s0 ?j) = (if l then exit_of S else S)" unfolding v by simp
  then have "tap_run s0 (map fst (edges c')) = (if l then exit_of S else S)" by (simp add: port_view_def)
  then have "port_in_use inv edges s0 ?j" using w(2,3) wf assms(1) by (simp add: port_in_use_def synced_def jtag_wf_def)
  moreover have "read_write ops (Some tx) rx len l j = Inr (rx', ?j)"
    using w(1) wf(3) assms(2,3) by (auto simp: read_write_def flushTMS_idle Let_def exit_of_def)
  moreover have "same_cfg j ?j" by (simp add: same_cfg_def)
  ultimately show ?thesis using v by auto
qed

text \<open>The padding, if there is any.\<close>

lemma pad_port:
  assumes "port_in_use inv edges s0 j" "S \<in> {SHIFT_DR, SHIFT_IR}" "len \<le> 8 * length pad"
    and "j_state j = (if l \<and> len = 0 then exit_of S else S)"
  shows "\<exists>j'. (if 0 < len then bindE (read_write ops (Some pad) None len l j) (\<lambda>(_, j). Inr j) else Inr j) = Inr j' \<and>
    port_in_use inv edges s0 j' \<and> same_cfg j j' \<and> j_state j' = (if l then exit_of S else S) \<and>
    ob_open (port_view edges s0 j') = ob_open (port_view edges s0 j) @ bits_of pad len \<and>
    ob_scans (port_view edges s0 j') = ob_scans (port_view edges s0 j)"
proof (cases "0 < len")
  case True
  then have "j_state j = S" using assms(4) by simp
  from shift_port [OF assms(1) this assms(2) True assms(3), of None l] True show ?thesis by auto
next
  case False
  then show ?thesis using assms by auto
qed

text \<open>The rest of a scan: padding behind the data, and the move to the end state.\<close>

lemma close_port:
  assumes "port_in_use inv edges s0 j" "j_state j = exit_of S" "S \<in> {SHIFT_DR, SHIFT_IR}"
    and "e \<in> (if S = SHIFT_DR then dr_rest else ir_rest)"
  shows "\<exists>j'. set_state ops e tdi j = Inr j' \<and> port_in_use inv edges s0 j' \<and> same_cfg j j' \<and> j_state j' = e \<and>
    settled (port_view edges s0 j') = ob_scans (port_view edges s0 j) @
      [(if S = SHIFT_DR then DR_scan else IR_scan) (ob_open (port_view edges s0 j))]"
proof -
  have q: "quiet_move (j_state j) e" "j_state j \<noteq> SHIFT_DR" "e \<noteq> TEST_LOGIC_RESET"
    using assms(2-4) by (auto simp: quiet_move_def exit_of_def rest_defs split: if_splits)
  have "ob_state (port_view edges s0 j) = exit_of S"
    using assms(1,2) port_view_state [of edges s0 j] by (simp add: port_in_use_def)
  then have "settled (port_view edges s0 j) = ob_scans (port_view edges s0 j) @
      [(if S = SHIFT_DR then DR_scan else IR_scan) (ob_open (port_view edges s0 j))]"
    using assms(3) by (auto simp: settled_def exit_of_def)
  with goto_port [OF assms(1), of e tdi] q show ?thesis by (auto simp: finish_def reset_scan_def)
qed

lemma shiftIR_scans:
  assumes "port_in_use inv edges s0 j" "padding ir_pre ir_post dr_pre dr_post j"
    and "j_state j \<in> insert SHIFT_DR rests - {PAUSE_IR, EXIT1_IR}" "e \<in> ir_rest"
    and "0 < len" "len \<le> 8 * length tx" "\<And>b. rx = Some b \<Longrightarrow> len \<le> 8 * length b"
  shows "\<exists>rx' j' xs. shiftIR ops (Some tx) rx len e j = Inr (rx', j') \<and> port_in_use inv edges s0 j' \<and> same_cfg j j' \<and>
    j_state j' = e \<and> finish (j_state j) (ob_open (port_view edges s0 j)) xs \<and>
    settled (port_view edges s0 j') = settled (port_view edges s0 j) @ xs @ [IR_scan (ir_pre @ bits_of tx len @ ir_post)]"
proof -
  let ?S = "SHIFT_IR" and ?a = "j_ir_bits_after j" and ?b = "j_ir_bits_before j" and ?pad = "j_ir_bits j"
  let ?v = "port_view edges s0"
  have pads: "unat ?b \<le> 8 * length ?pad" "unat ?a \<le> 8 * length ?pad" "bits_of ?pad (unat ?b) = ir_pre" "bits_of ?pad (unat ?a) = ir_post"
    using assms(2) by (simp_all add: padding_def)
  have "quiet_move (j_state j) ?S \<or> j_state j = SHIFT_DR \<and> quiet_move EXIT1_DR ?S \<and> ?S \<noteq> SHIFT_DR"
    using assms(3) by (auto simp: quiet_move_def rest_defs)
  from goto_port [OF assms(1) this, of 1] obtain j1 xs where
    m: "set_state ops ?S 1 j = Inr j1" "port_in_use inv edges s0 j1" "same_cfg j j1" "j_state j1 = ?S"
      "finish (j_state j) (ob_open (?v j)) xs" "settled (?v j1) = settled (?v j) @ xs" "ob_open (?v j1) = []"
    by (auto simp: reset_scan_def)
  have scans1: "ob_scans (?v j1) = settled (?v j) @ xs"
    using m(2,4,6) port_view_state [of edges s0 j1] by (simp add: port_in_use_def settled_def)
  from pad_port [OF m(2) _ pads(1), of ?S False] m(4,7) obtain j2 where
    b: "(if 0 < unat ?b then bindE (read_write ops (Some ?pad) None (unat ?b) False j1) (\<lambda>(_, j). Inr j) else Inr j1) = Inr j2"
      "port_in_use inv edges s0 j2" "same_cfg j1 j2" "j_state j2 = ?S" "ob_open (?v j2) = ir_pre"
      "ob_scans (?v j2) = ob_scans (?v j1)" using pads(3) by auto
  from shift_port [OF b(2,4) _ assms(5,6), of rx "?a = 0"] assms(7) obtain rx' j3 where
    d: "read_write ops (Some tx) rx len (?a = 0) j2 = Inr (rx', j3)" "port_in_use inv edges s0 j3" "same_cfg j2 j3"
      "j_state j3 = (if ?a = 0 then exit_of ?S else ?S)" "ob_open (?v j3) = ir_pre @ bits_of tx len"
      "ob_scans (?v j3) = ob_scans (?v j2)" using b(5) by auto
  have "j_state j3 = (if True \<and> unat ?a = 0 then exit_of ?S else ?S)" using d(4) by (simp add: unat_eq_zero)
  from pad_port [OF d(2) _ pads(2) this] obtain j4 where
    a: "(if 0 < unat ?a then bindE (read_write ops (Some ?pad) None (unat ?a) True j3) (\<lambda>(_, j). Inr j) else Inr j3) = Inr j4"
      "port_in_use inv edges s0 j4" "same_cfg j3 j4" "j_state j4 = exit_of ?S" "ob_open (?v j4) = ir_pre @ bits_of tx len @ ir_post"
      "ob_scans (?v j4) = ob_scans (?v j3)" using pads(4) d(5) by auto
  from close_port [OF a(2,4), of e 1] assms(4) obtain j5 where
    l: "set_state ops e 1 j4 = Inr j5" "port_in_use inv edges s0 j5" "same_cfg j4 j5" "j_state j5 = e"
      "settled (?v j5) = ob_scans (?v j4) @ [IR_scan (ob_open (?v j4))]" by auto
  have e: "e \<noteq> ?S" "j_state j \<noteq> ?S" using assms(3,4) by (auto simp: rest_defs)
  have "shiftIR ops (Some tx) rx len e j = Inr (rx', j5)"
    using m(1,3) b(1,3) d(1,3) a(1,3) l(1) e
    by (simp add: shiftIR_def same_cfg_def unat_gt_0 word_gt_0 cong: if_cong split del: if_split)
  moreover have "same_cfg j j5" using m(3) b(3) d(3) a(3) l(3) by (blast intro: same_cfg_trans)
  ultimately show ?thesis using m(5) b(6) d(6) a(5,6) l(2,4,5) scans1 by auto
qed

text \<open>A data scan: how it begins, and the bits that are in the register then.\<close>

lemma open_port:
  assumes "port_in_use inv edges s0 j" "padding ir_pre ir_post dr_pre dr_post j"
    and "j_state j \<in> rests - {PAUSE_DR, EXIT1_DR} \<or> j_state j = SHIFT_DR"
  shows "\<exists>j'. (if j_state j \<noteq> SHIFT_DR then
        bindE (set_state ops SHIFT_DR 1 j) (\<lambda>j. bindE (flushTMS ops False j) (\<lambda>(_, j).
          if j_dr_bits_before j \<noteq> 0 then
            bindE (read_write ops (Some (j_dr_bits j)) None (unat (j_dr_bits_before j)) False j) (\<lambda>(_, j). Inr j)
          else Inr j)) else Inr j) = Inr j' \<and>
    port_in_use inv edges s0 j' \<and> same_cfg j j' \<and> j_state j' = SHIFT_DR \<and>
    ob_open (port_view edges s0 j') = (if j_state j = SHIFT_DR then ob_open (port_view edges s0 j) else dr_pre) \<and>
    ob_scans (port_view edges s0 j') = settled (port_view edges s0 j)"
proof (cases "j_state j = SHIFT_DR")
  case True
  then have "settled (port_view edges s0 j) = ob_scans (port_view edges s0 j)"
    using assms(1) port_view_state [of edges s0 j] by (simp add: port_in_use_def settled_def)
  then show ?thesis using True assms(1) by simp
next
  case False
  let ?S = "SHIFT_DR" and ?b = "j_dr_bits_before j" and ?pad = "j_dr_bits j" and ?v = "port_view edges s0"
  have pads: "unat ?b \<le> 8 * length ?pad" "bits_of ?pad (unat ?b) = dr_pre" using assms(2) by (simp_all add: padding_def)
  have "quiet_move (j_state j) ?S" using assms(3) False by (auto simp: quiet_move_def)
  with goto_port [OF assms(1), of ?S 1] False obtain j1 where
    m: "set_state ops ?S 1 j = Inr j1" "port_in_use inv edges s0 j1" "same_cfg j j1" "j_state j1 = ?S"
      "settled (?v j1) = settled (?v j)" "ob_open (?v j1) = []"
    by (auto simp: reset_scan_def finish_def)
  have scans1: "ob_scans (?v j1) = settled (?v j)"
    using m(2,4,5) port_view_state [of edges s0 j1] by (simp add: port_in_use_def settled_def)
  from pad_port [OF m(2) _ pads(1), of ?S False] m(4,6) obtain j2 where
    b: "(if 0 < unat ?b then bindE (read_write ops (Some ?pad) None (unat ?b) False j1) (\<lambda>(_, j). Inr j) else Inr j1) = Inr j2"
      "port_in_use inv edges s0 j2" "same_cfg j1 j2" "j_state j2 = ?S" "ob_open (?v j2) = dr_pre"
      "ob_scans (?v j2) = ob_scans (?v j1)" using pads(2) by auto
  have "j_num_tms j1 = 0" using m(2) by (simp add: port_in_use_def synced_def)
  then show ?thesis using False m(1,3) b scans1 same_cfg_trans [OF m(3) b(3)]
    by (simp add: flushTMS_idle same_cfg_def unat_gt_0 word_gt_0 cong: if_cong split del: if_split)
qed

lemma shiftDR_scans:
  assumes "port_in_use inv edges s0 j" "padding ir_pre ir_post dr_pre dr_post j"
    and "j_state j \<in> rests - {PAUSE_DR, EXIT1_DR} \<or> j_state j = SHIFT_DR" "e \<in> insert SHIFT_DR dr_rest"
    and "0 < len" "len \<le> 8 * length tx" "\<And>b. rx = Some b \<Longrightarrow> len \<le> 8 * length b"
  shows "\<exists>rx' j'. shiftDR ops (Some tx) rx len e j = Inr (rx', j') \<and> port_in_use inv edges s0 j' \<and> same_cfg j j' \<and>
    j_state j' = e \<and>
    (let bits = (if j_state j = SHIFT_DR then ob_open (port_view edges s0 j) else dr_pre) @ bits_of tx len in
     if e = SHIFT_DR then ob_open (port_view edges s0 j') = bits \<and> settled (port_view edges s0 j') = settled (port_view edges s0 j)
     else settled (port_view edges s0 j') = settled (port_view edges s0 j) @ [DR_scan (bits @ dr_post)])"
proof -
  let ?S = "SHIFT_DR" and ?a = "j_dr_bits_after j" and ?pad = "j_dr_bits j" and ?v = "port_view edges s0"
  let ?bits = "(if j_state j = ?S then ob_open (?v j) else dr_pre) @ bits_of tx len"
  have pads: "unat ?a \<le> 8 * length ?pad" "bits_of ?pad (unat ?a) = dr_post" using assms(2) by (simp_all add: padding_def)
  from open_port [OF assms(1-3)] obtain j2 where
    b: "(if j_state j \<noteq> ?S then bindE (set_state ops ?S 1 j) (\<lambda>j. bindE (flushTMS ops False j) (\<lambda>(_, j).
          if j_dr_bits_before j \<noteq> 0 then
            bindE (read_write ops (Some (j_dr_bits j)) None (unat (j_dr_bits_before j)) False j) (\<lambda>(_, j). Inr j)
          else Inr j)) else Inr j) = Inr j2"
      "port_in_use inv edges s0 j2" "same_cfg j j2" "j_state j2 = ?S"
      "ob_open (?v j2) = (if j_state j = ?S then ob_open (?v j) else dr_pre)" "ob_scans (?v j2) = settled (?v j)" by blast
  define last where "last \<longleftrightarrow> ?a = 0 \<and> e \<noteq> ?S"
  from shift_port [OF b(2,4) _ assms(5,6), of rx last] assms(7) obtain rx' j3 where
    d: "read_write ops (Some tx) rx len last j2 = Inr (rx', j3)" "port_in_use inv edges s0 j3" "same_cfg j2 j3"
      "j_state j3 = (if last then exit_of ?S else ?S)" "ob_open (?v j3) = ?bits" "ob_scans (?v j3) = settled (?v j)"
    using b(5,6) by auto
  have cfg: "same_cfg j j3" using b(3) d(3) by (rule same_cfg_trans)
  show ?thesis
  proof (cases "e = ?S")
    case True
    have "settled (?v j3) = settled (?v j)"
      using d(2,4,6) True port_view_state [of edges s0 j3] by (simp add: port_in_use_def settled_def last_def)
    moreover have "shiftDR ops (Some tx) rx len e j = Inr (rx', j3)"
      unfolding shiftDR_def b(1) bindE.simps using d(1) True b(3) by (simp add: last_def same_cfg_def)
    ultimately show ?thesis using True d cfg by (simp add: last_def)
  next
    case False
    have "j_state j3 = (if True \<and> unat ?a = 0 then exit_of ?S else ?S)" using d(4) False by (simp add: unat_eq_zero last_def)
    from pad_port [OF d(2) _ pads(1) this] obtain j4 where
      a: "(if 0 < unat ?a then bindE (read_write ops (Some ?pad) None (unat ?a) True j3) (\<lambda>(_, j). Inr j) else Inr j3) = Inr j4"
        "port_in_use inv edges s0 j4" "same_cfg j3 j4" "j_state j4 = exit_of ?S" "ob_open (?v j4) = ?bits @ dr_post"
        "ob_scans (?v j4) = settled (?v j)" using pads(2) d(5,6) by auto
    from close_port [OF a(2,4), of e 1] assms(4) False obtain j5 where
      l: "set_state ops e 1 j4 = Inr j5" "port_in_use inv edges s0 j5" "same_cfg j4 j5" "j_state j5 = e"
        "settled (?v j5) = ob_scans (?v j4) @ [DR_scan (ob_open (?v j4))]" by auto
    have "shiftDR ops (Some tx) rx len e j = Inr (rx', j5)"
      unfolding shiftDR_def b(1) bindE.simps using d(1,3) b(3) a(1) l(1) False
      by (simp add: last_def same_cfg_def unat_gt_0 word_gt_0 cong: if_cong split del: if_split)
    moreover have "same_cfg j j5" using cfg a(3) l(3) by (blast intro: same_cfg_trans)
    ultimately show ?thesis using False a(5,6) l by simp
  qed
qed

text \<open>What a data scan receives is what \<open>writeTDI\<close> of the cable received while the controllers were in \<open>Shift-DR\<close>.\<close>

lemma shiftDR_received:
  assumes "port_in_use inv edges s0 j" "padding ir_pre ir_post dr_pre dr_post j"
    and "j_state j \<in> rests - {PAUSE_DR, EXIT1_DR} \<or> j_state j = SHIFT_DR"
    and "shiftDR ops (Some tx) rx len e j = Inr (rx', j')"
  shows "\<exists>j2 ret c'. port_in_use inv edges s0 j2 \<and> j_state j2 = SHIFT_DR \<and>
    ob_open (port_view edges s0 j2) = (if j_state j = SHIFT_DR then ob_open (port_view edges s0 j) else dr_pre) \<and>
    ob_scans (port_view edges s0 j2) = settled (port_view edges s0 j) \<and>
    writeTDI ops (Some tx) rx len (j_dr_bits_after j2 = 0 \<and> e \<noteq> SHIFT_DR) (j_cable j2) = Inr (ret, rx', c')"
proof -
  from open_port [OF assms(1-3)] obtain j2 where
    b: "(if j_state j \<noteq> SHIFT_DR then bindE (set_state ops SHIFT_DR 1 j) (\<lambda>j. bindE (flushTMS ops False j) (\<lambda>(_, j).
          if j_dr_bits_before j \<noteq> 0 then
            bindE (read_write ops (Some (j_dr_bits j)) None (unat (j_dr_bits_before j)) False j) (\<lambda>(_, j). Inr j)
          else Inr j)) else Inr j) = Inr j2"
      "port_in_use inv edges s0 j2" "j_state j2 = SHIFT_DR"
      "ob_open (port_view edges s0 j2) = (if j_state j = SHIFT_DR then ob_open (port_view edges s0 j) else dr_pre)"
      "ob_scans (port_view edges s0 j2) = settled (port_view edges s0 j)" by blast
  let ?last = "j_dr_bits_after j2 = 0 \<and> e \<noteq> SHIFT_DR"
  from assms(4) [unfolded shiftDR_def b(1) bindE.simps bindE_Inr_iff [of "read_write _ _ _ _ _ _"]] obtain rx1 j3 where
    r: "read_write ops (Some tx) rx len ?last j2 = Inr (rx1, j3)" and
    rest: "(if e \<noteq> SHIFT_DR then
        bindE (if j_dr_bits_after j3 \<noteq> 0 then
          bindE (read_write ops (Some (j_dr_bits j3)) None (unat (j_dr_bits_after j3)) True j3) (\<lambda>(_, j). Inr j) else Inr j3)
          (\<lambda>j. bindE (set_state ops e 1 j) (\<lambda>j. Inr (rx1, j)))
      else Inr (rx1, j3)) = Inr (rx', j')"
    by (auto split del: if_split)
  have "rx1 = rx'" using rest by (cases "e = SHIFT_DR") (auto simp: bindE_Inr_iff split del: if_split)
  moreover have "j_num_tms j2 = 0" using b(2) by (simp add: port_in_use_def synced_def)
  then have "\<exists>ret c'. writeTDI ops (Some tx) rx len ?last (j_cable j2) = Inr (ret, rx1, c')"
    using r by (auto simp: read_write_def flushTMS_idle bindE_Inr_iff Let_def)
  ultimately have "\<exists>ret c'. writeTDI ops (Some tx) rx len ?last (j_cable j2) = Inr (ret, rx', c')" by simp
  with b(2-5) show ?thesis by blast
qed

end

locale wired_port = scan_cable ops inv edges s0 ir_pre ir_post dr_pre dr_post + jtag_cable_clk ops inv edges
  for ops :: "'c jtag_ops" and inv :: "'c \<Rightarrow> bool" and edges :: "'c \<Rightarrow> edge list"
    and s0 :: tapState_t and ir_pre ir_post dr_pre dr_post :: "bool list"

context wired_port
begin

lemma toggleClk_scans:
  assumes "port_in_use inv edges s0 j" "j_state j = RUN_TEST_IDLE"
  shows "\<exists>j'. toggleClk ops n tdi j = Inr j' \<and> port_in_use inv edges s0 j' \<and> same_cfg j j' \<and> j_state j' = RUN_TEST_IDLE \<and>
    settled (port_view edges s0 j') = settled (port_view edges s0 j)"
proof -
  have wf: "inv (j_cable j)" "jtag_wf j" "j_num_tms j = 0" "edges (j_cable j) \<noteq> []" and sy: "synced edges s0 j"
    and run: "tap_run s0 (map fst (edges (j_cable j))) = RUN_TEST_IDLE"
    using assms by (auto simp: port_in_use_def synced_def)
  have "\<not> fst (last (edges (j_cable j)))"
    using idle_low [of s0 "map fst (edges (j_cable j))"] run wf(4) by (simp add: last_map)
  then obtain ret c' new where w: "toggleClk_ll ops 0 tdi n (j_cable j) = Inr (ret, c')" "0 \<le> ret" "inv c'"
      "edges c' = edges (j_cable j) @ new" "map fst new = replicate n False"
    using toggleClk_edges [OF wf(1,4), of 0 tdi n] by auto
  let ?j = "j\<lparr>j_cable := c'\<rparr>" and ?v = "port_view edges s0 j"
  have st: "ob_state ?v = RUN_TEST_IDLE" using port_view_state [OF sy] assms(2) by simp
  have v: "port_view edges s0 ?j = ?v" using w(4) observe_idle [OF st w(5)] by (simp add: port_view_def)
  have "toggleClk ops n tdi j = Inr ?j" using w(1,2) wf(3) assms(2) by (simp add: toggleClk_def flushTMS_idle)
  moreover have "port_in_use inv edges s0 ?j"
    using w(3,4,5) wf run assms by (simp add: port_in_use_def synced_def jtag_wf_def tap_run_idle)
  moreover have "same_cfg j ?j" by (simp add: same_cfg_def)
  ultimately show ?thesis using v assms(2) by auto
qed

end

sublocale wired_port \<subseteq> port: scan_port "jtag_methods ops" "port_ok inv edges s0 ir_pre ir_post dr_pre dr_post" j_state
  "\<lambda>j. settled (port_view edges s0 j)" "\<lambda>j. ob_open (port_view edges s0 j)" ir_pre ir_post dr_pre dr_post
proof
  fix j :: "'c jtag" and n
  assume j: "port_ok inv edges s0 ir_pre ir_post dr_pre dr_post j"
    and n: "n \<in> {RUN_TEST_IDLE, TEST_LOGIC_RESET}" "j_state j \<in> insert SHIFT_DR rests"
  then have "quiet_move (j_state j) n \<or> j_state j = SHIFT_DR \<and> quiet_move EXIT1_DR n \<and> n \<noteq> SHIFT_DR"
    by (auto simp: quiet_move_def rest_defs)
  from goto_port [OF _ this, of 1] j
  show "\<exists>j' xs. ju_set_state (jtag_methods ops) n j = Inr j' \<and> port_ok inv edges s0 ir_pre ir_post dr_pre dr_post j' \<and>
      j_state j' = n \<and> finish (j_state j) (ob_open (port_view edges s0 j)) xs \<and>
      settled (port_view edges s0 j') = settled (port_view edges s0 j) @ xs @ reset_scan (j_state j) n"
    by (auto simp: port_ok_def jtag_methods_def padding_cfg)
next
  fix j :: "'c jtag" and n
  assume j: "port_ok inv edges s0 ir_pre ir_post dr_pre dr_post j" and st: "j_state j = SHIFT_DR" and n: "n \<in> dr_rest"
  then have "quiet_move EXIT1_DR n" "n \<noteq> SHIFT_DR" "n \<noteq> TEST_LOGIC_RESET" by (auto simp: quiet_move_def rest_defs)
  with goto_port [of j n 1] j st
  show "\<exists>j' b. ju_set_state (jtag_methods ops) n j = Inr j' \<and> port_ok inv edges s0 ir_pre ir_post dr_pre dr_post j' \<and>
      j_state j' = n \<and> settled (port_view edges s0 j') = settled (port_view edges s0 j) @ [DR_scan (ob_open (port_view edges s0 j) @ [b])]"
    by (auto simp: port_ok_def jtag_methods_def padding_cfg finish_def reset_scan_def)
next
  fix j :: "'c jtag" and e len and tx :: bytes
  assume j: "port_ok inv edges s0 ir_pre ir_post dr_pre dr_post j"
    and a: "j_state j \<in> insert SHIFT_DR rests - {PAUSE_IR, EXIT1_IR}" "e \<in> ir_rest" "0 < len" "len \<le> 8 * length tx"
  from shiftIR_scans [of j e len tx None] j a
  show "\<exists>j' xs. ju_shiftIR (jtag_methods ops) tx len e j = Inr j' \<and> port_ok inv edges s0 ir_pre ir_post dr_pre dr_post j' \<and>
      j_state j' = e \<and> finish (j_state j) (ob_open (port_view edges s0 j)) xs \<and>
      settled (port_view edges s0 j') = settled (port_view edges s0 j) @ xs @ [IR_scan (ir_pre @ bits_of tx len @ ir_post)]"
    by (auto simp: port_ok_def jtag_methods_def padding_cfg)
next
  fix j :: "'c jtag" and e len and tx :: bytes and rx :: "bytes option"
  assume j: "port_ok inv edges s0 ir_pre ir_post dr_pre dr_post j"
    and a: "j_state j \<in> rests - {PAUSE_DR, EXIT1_DR} \<or> j_state j = SHIFT_DR" "e \<in> insert SHIFT_DR dr_rest" "0 < len" "len \<le> 8 * length tx"
      "\<And>b. rx = Some b \<Longrightarrow> len \<le> 8 * length b"
  from shiftDR_scans [of j e len tx rx, OF _ _ a] j obtain rx' j' where
    r: "shiftDR ops (Some tx) rx len e j = Inr (rx', j')" "port_in_use inv edges s0 j'" "same_cfg j j'" "j_state j' = e"
      "let bits = (if j_state j = SHIFT_DR then ob_open (port_view edges s0 j) else dr_pre) @ bits_of tx len in
       if e = SHIFT_DR then ob_open (port_view edges s0 j') = bits \<and> settled (port_view edges s0 j') = settled (port_view edges s0 j)
       else settled (port_view edges s0 j') = settled (port_view edges s0 j) @ [DR_scan (bits @ dr_post)]"
    unfolding port_ok_def by blast
  have "ju_shiftDR (jtag_methods ops) (Some tx) rx len e j = Inr (rx', j')" using r(1) by (simp add: jtag_methods_def)
  moreover have "port_ok inv edges s0 ir_pre ir_post dr_pre dr_post j'" using j r(2,3) by (simp add: port_ok_def padding_cfg)
  ultimately show "\<exists>rx' j'. ju_shiftDR (jtag_methods ops) (Some tx) rx len e j = Inr (rx', j') \<and>
      port_ok inv edges s0 ir_pre ir_post dr_pre dr_post j' \<and> j_state j' = e \<and>
      (let bits = (if j_state j = SHIFT_DR then ob_open (port_view edges s0 j) else dr_pre) @ bits_of tx len in
       if e = SHIFT_DR then ob_open (port_view edges s0 j') = bits \<and> settled (port_view edges s0 j') = settled (port_view edges s0 j)
       else settled (port_view edges s0 j') = settled (port_view edges s0 j) @ [DR_scan (bits @ dr_post)])"
    using r(4,5) by (intro exI conjI)
next
  fix j :: "'c jtag" and n
  assume "port_ok inv edges s0 ir_pre ir_post dr_pre dr_post j" "j_state j = RUN_TEST_IDLE"
  with toggleClk_scans [of j n 0]
  show "\<exists>j'. ju_toggleClk (jtag_methods ops) n j = Inr j' \<and> port_ok inv edges s0 ir_pre ir_post dr_pre dr_post j' \<and>
      j_state j' = RUN_TEST_IDLE \<and> settled (port_view edges s0 j') = settled (port_view edges s0 j)"
    by (auto simp: port_ok_def jtag_methods_def padding_cfg)
next
  fix j :: "'c jtag" and tx rx :: bytes and e len
  assume j: "port_ok inv edges s0 ir_pre ir_post dr_pre dr_post j"
    and a: "j_state j \<in> insert SHIFT_DR rests - {PAUSE_IR, EXIT1_IR}" "e \<in> ir_rest" "0 < len" "len \<le> 8 * length tx"
      "len \<le> 8 * length rx"
  from shiftIR_scans [of j e len tx "Some rx", OF _ _ a(1-4)] j a(5)
  show "\<exists>rx' j' xs. ju_shiftIR_tdo (jtag_methods ops) tx rx len e j = Inr (rx', j') \<and>
      port_ok inv edges s0 ir_pre ir_post dr_pre dr_post j' \<and> j_state j' = e \<and>
      finish (j_state j) (ob_open (port_view edges s0 j)) xs \<and>
      settled (port_view edges s0 j') = settled (port_view edges s0 j) @ xs @ [IR_scan (ir_pre @ bits_of tx len @ ir_post)]"
    by (auto simp: port_ok_def jtag_methods_def padding_cfg)
next
  fix j :: "'c jtag"
  assume j: "port_ok inv edges s0 ir_pre ir_post dr_pre dr_post j"
  then have "inv (j_cable j)" "j_num_tms j = 0" by (simp_all add: port_ok_def port_in_use_def synced_def)
  with flush_edges [of "j_cable j"] obtain ret c where
    c: "flush_ll ops (j_cable j) = Inr (ret, c)" "inv c" "edges c = edges (j_cable j)" by auto
  have "ju_flush (jtag_methods ops) j = Inr (j\<lparr>j_cable := c\<rparr>)"
    using c(1) \<open>j_num_tms j = 0\<close> by (simp add: jtag_methods_def flushTMS_def)
  moreover have "port_ok inv edges s0 ir_pre ir_post dr_pre dr_post (j\<lparr>j_cable := c\<rparr>)"
    using j c(2,3) by (simp add: port_ok_def port_in_use_def padding_def synced_def jtag_wf_def)
  ultimately show "\<exists>j'. ju_flush (jtag_methods ops) j = Inr j' \<and> port_ok inv edges s0 ir_pre ir_post dr_pre dr_post j' \<and>
      j_state j' = j_state j \<and> ob_open (port_view edges s0 j') = ob_open (port_view edges s0 j) \<and>
      settled (port_view edges s0 j') = settled (port_view edges s0 j)"
    using c(3) by (intro exI [of _ "j\<lparr>j_cable := c\<rparr>"]) (simp add: port_view_def)
qed

end
