(* ===== verification/Jtag_Session.thy ===== *)
theory Jtag_Session
  imports Jtag_Scan
begin

section \<open>Sessions on a scan port\<close>

text \<open>
  Whole sequences of calls of the methods of \<open>Jtag\<close>.  In which states a call is permitted, and what it does to
  the scans of the chain, is described apart from the code; a session of permitted calls succeeds, keeps the port
  well formed, and every call has the described effect.  The methods do not say in which states they may be called:
  \<open>permitted\<close> leaves out the calls that start a scan from a state in which a scan of the other kind is halfway
  through, or clock outside \<open>Run-Test/Idle\<close>.
\<close>

datatype call = Goto tapState_t | Send_IR bytes nat tapState_t | Send_DR bytes nat tapState_t | Clocks nat | Flush

fun do_call :: "'j jtag_user \<Rightarrow> call \<Rightarrow> 'j \<Rightarrow> 'j res" where
  "do_call u (Goto n) j = ju_set_state u n j"
| "do_call u (Send_IR tx len e) j = ju_shiftIR u tx len e j"
| "do_call u (Send_DR tx len e) j = bindE (ju_shiftDR u (Some tx) None len e j) (\<lambda>(_, j). Inr j)"
| "do_call u (Clocks n) j = ju_toggleClk u n j"
| "do_call u Flush j = ju_flush u j"

fun do_calls :: "'j jtag_user \<Rightarrow> call list \<Rightarrow> 'j \<Rightarrow> 'j res" where
  "do_calls u [] j = Inr j"
| "do_calls u (c # cs) j = bindE (do_call u c j) (do_calls u cs)"

fun permitted :: "tapState_t \<Rightarrow> call \<Rightarrow> bool" where
  "permitted s (Goto n) \<longleftrightarrow> s = SHIFT_DR \<and> n \<in> dr_rest \<or> s \<in> insert SHIFT_DR rests \<and> n \<in> {RUN_TEST_IDLE, TEST_LOGIC_RESET}"
| "permitted s (Send_IR tx len e) \<longleftrightarrow>
     s \<in> insert SHIFT_DR rests - {PAUSE_IR, EXIT1_IR} \<and> e \<in> ir_rest \<and> 0 < len \<and> len \<le> 8 * length tx"
| "permitted s (Send_DR tx len e) \<longleftrightarrow>
     (s \<in> rests - {PAUSE_DR, EXIT1_DR} \<or> s = SHIFT_DR) \<and> e \<in> insert SHIFT_DR dr_rest \<and> 0 < len \<and> len \<le> 8 * length tx"
| "permitted s (Clocks n) \<longleftrightarrow> s = RUN_TEST_IDLE"
| "permitted s Flush \<longleftrightarrow> True"

fun state_after :: "tapState_t \<Rightarrow> call \<Rightarrow> tapState_t" where
  "state_after s (Goto n) = n"
| "state_after s (Send_IR tx len e) = e"
| "state_after s (Send_DR tx len e) = e"
| "state_after s (Clocks n) = RUN_TEST_IDLE"
| "state_after s Flush = s"

fun all_permitted :: "tapState_t \<Rightarrow> call list \<Rightarrow> bool" where
  "all_permitted s [] \<longleftrightarrow> True"
| "all_permitted s (c # cs) \<longleftrightarrow> permitted s c \<and> all_permitted (state_after s c) cs"

text \<open>
  The effect of a call on the state of the chain, the bits of the data scan that is open, and the scans done
  so far.  Leaving an open scan shifts one more bit, the one on the wire.
\<close>

inductive call_effect :: "bool list \<Rightarrow> bool list \<Rightarrow> bool list \<Rightarrow> bool list \<Rightarrow>
    tapState_t \<times> bool list \<times> scan list \<Rightarrow> call \<Rightarrow> tapState_t \<times> bool list \<times> scan list \<Rightarrow> bool"
  for ir_pre ir_post dr_pre dr_post where
  goto: "finish s opn xs \<Longrightarrow> call_effect ir_pre ir_post dr_pre dr_post (s, opn, log) (Goto n) (n, opn', log @ xs @ reset_scan s n)"
| send_IR: "finish s opn xs \<Longrightarrow> call_effect ir_pre ir_post dr_pre dr_post
    (s, opn, log) (Send_IR tx len e) (e, opn', log @ xs @ [IR_scan (ir_pre @ bits_of tx len @ ir_post)])"
| send_DR: "bits = (if s = SHIFT_DR then opn else dr_pre) @ bits_of tx len \<Longrightarrow> e \<noteq> SHIFT_DR \<Longrightarrow>
    call_effect ir_pre ir_post dr_pre dr_post (s, opn, log) (Send_DR tx len e) (e, opn', log @ [DR_scan (bits @ dr_post)])"
| more_DR: "bits = (if s = SHIFT_DR then opn else dr_pre) @ bits_of tx len \<Longrightarrow>
    call_effect ir_pre ir_post dr_pre dr_post (s, opn, log) (Send_DR tx len SHIFT_DR) (SHIFT_DR, bits, log)"
| clocks: "call_effect ir_pre ir_post dr_pre dr_post (RUN_TEST_IDLE, opn, log) (Clocks n) (RUN_TEST_IDLE, opn', log)"
| flush: "call_effect ir_pre ir_post dr_pre dr_post v Flush v"

inductive calls_effect :: "bool list \<Rightarrow> bool list \<Rightarrow> bool list \<Rightarrow> bool list \<Rightarrow>
    tapState_t \<times> bool list \<times> scan list \<Rightarrow> call list \<Rightarrow> tapState_t \<times> bool list \<times> scan list \<Rightarrow> bool"
  for ir_pre ir_post dr_pre dr_post where
  no_call: "calls_effect ir_pre ir_post dr_pre dr_post v [] v"
| next_call: "call_effect ir_pre ir_post dr_pre dr_post v c v' \<Longrightarrow> calls_effect ir_pre ir_post dr_pre dr_post v' cs v'' \<Longrightarrow>
    calls_effect ir_pre ir_post dr_pre dr_post v (c # cs) v''"

inductive_simps calls_effect_simps [simp]:
  "calls_effect ir_pre ir_post dr_pre dr_post v [] v'"
  "calls_effect ir_pre ir_post dr_pre dr_post v (c # cs) v'"

context scan_port
begin

abbreviation view :: "'j \<Rightarrow> tapState_t \<times> bool list \<times> scan list" where
  "view j \<equiv> (st j, opn j, log j)"

lemma call_ok:
  assumes "ok j" "permitted (st j) c"
  shows "\<exists>j'. do_call u c j = Inr j' \<and> ok j' \<and> st j' = state_after (st j) c \<and>
    call_effect ir_pre ir_post dr_pre dr_post (view j) c (view j')"
proof (cases c)
  case (Goto n)
  show ?thesis
  proof (cases "n \<in> {RUN_TEST_IDLE, TEST_LOGIC_RESET}")
    case True
    then have "st j \<in> insert SHIFT_DR rests" using assms(2) Goto by auto
    from set_state_port [OF assms(1) True this] show ?thesis unfolding Goto by (auto intro: call_effect.intros)
  next
    case False
    then have s: "st j = SHIFT_DR" "n \<in> dr_rest" using assms(2) Goto by auto
    from end_scan_port [OF assms(1) s] obtain j' b where j':
      "ju_set_state u n j = Inr j'" "ok j'" "st j' = n" "log j' = log j @ [DR_scan (opn j @ [b])]" by blast
    moreover have "reset_scan (st j) n = []" using s False by (auto simp: reset_scan_def)
    ultimately show ?thesis using s call_effect.goto [of "st j" "opn j" "[DR_scan (opn j @ [b])]" ir_pre ir_post dr_pre dr_post "log j" n "opn j'"]
      unfolding Goto by (auto simp: finish_def)
  qed
next
  case (Send_IR tx len e)
  with shiftIR_port [OF assms(1), of e len tx] assms(2) show ?thesis by (auto intro: call_effect.intros)
next
  case (Send_DR tx len e)
  with shiftDR_port [OF assms(1), of e len tx None] assms(2) obtain rx' j' where
    j': "ju_shiftDR u (Some tx) None len e j = Inr (rx', j')" "ok j'" "st j' = e" and
    l: "let bits = (if st j = SHIFT_DR then opn j else dr_pre) @ bits_of tx len in
        if e = SHIFT_DR then opn j' = bits \<and> log j' = log j else log j' = log j @ [DR_scan (bits @ dr_post)]"
    by auto
  have "call_effect ir_pre ir_post dr_pre dr_post (view j) c (view j')"
    using l j'(3) call_effect.more_DR [OF refl, of ir_pre ir_post dr_pre dr_post "st j" "opn j" "log j" tx len]
      call_effect.send_DR [OF refl, of e ir_pre ir_post dr_pre dr_post "st j" "opn j" "log j" tx len "opn j'"]
    by (cases "e = SHIFT_DR") (auto simp: Send_DR Let_def)
  then show ?thesis using j' by (auto simp: Send_DR)
next
  case (Clocks n)
  with toggleClk_port [OF assms(1), of n] assms(2) show ?thesis by (auto intro: call_effect.intros)
next
  case Flush
  with flush_port [OF assms(1)] show ?thesis by (auto intro: call_effect.flush)
qed

lemma calls_ok:
  "ok j \<Longrightarrow> all_permitted (st j) cs \<Longrightarrow>
   \<exists>j'. do_calls u cs j = Inr j' \<and> ok j' \<and> calls_effect ir_pre ir_post dr_pre dr_post (view j) cs (view j')"
proof (induction cs arbitrary: j)
  case (Cons c cs)
  from call_ok [of j c] Cons.prems obtain j1 where j1: "do_call u c j = Inr j1" "ok j1" "st j1 = state_after (st j) c"
    "call_effect ir_pre ir_post dr_pre dr_post (view j) c (view j1)" by auto
  with Cons.IH [of j1] Cons.prems(2) obtain j' where
    "do_calls u cs j1 = Inr j'" "ok j'" "calls_effect ir_pre ir_post dr_pre dr_post (view j1) cs (view j')" by auto
  with j1 show ?case by auto
qed auto

end

end
