(* ===== verification/Pof_File.thy ===== *)
theory Pof_File
  imports Hex_Files Bit_Files
begin

unbundle bit_operations_syntax

section \<open>POF files (\<open>pofParser.cpp\<close>)\<close>

text \<open>
  The parser of the files for the internal flash of MAX 10 devices: a sequence of packets of a flag,
  a size and a content, one of which names the sections of the flash data.  The position is a
  32-bit unsigned number, so that the loop need not end: it is a \<open>partial_function\<close>.  Pointers into the
  flash data are positions in it.  What only prints (\<open>displayHeader\<close>, and everything under \<open>_verbose\<close>) is left out.
\<close>

subsection \<open>The object\<close>

record memory_section_t =
  ms_flag :: u8
  ms_section :: string
  ms_offset :: u32
  ms_data :: "nat option"
  ms_len :: u32

record pof =
  pf_base :: cbp
  pf_sections :: "string \<rightharpoonup> memory_section_t"

definition pof_getData :: "pof \<Rightarrow> string \<Rightarrow> nat option" where
  "pof_getData p name = (if name = [] then Some 0
     else case pf_sections p name of None \<Rightarrow> None | Some s \<Rightarrow> ms_data s)"

definition pof_getLength :: "pof \<Rightarrow> string \<Rightarrow> int" where
  "pof_getLength p name = (if name = [] then cb_bit_length (pf_base p)
     else case pf_sections p name of None \<Rightarrow> -1 | Some s \<Rightarrow> sint (ms_len s))"

subsection \<open>What the parser uses of the library\<close>

text \<open>\<open>ARRAY2INT16\<close> and \<open>ARRAY2INT32\<close> of the characters from a position on.\<close>

fun le_chars :: "nat \<Rightarrow> string \<Rightarrow> nat \<Rightarrow> u32 res" where
  "le_chars 0 s p = Inr 0"
| "le_chars (Suc n) s p = bindE (char_at s p) (\<lambda>c. bindE (le_chars n s (p + 1)) (\<lambda>v. Inr (ucast c OR push_bit 8 v)))"

fun show_nat :: "nat \<Rightarrow> string" where
  "show_nat n = (if n < 10 then [char_of (48 + n)] else show_nat (n div 10) @ [char_of (48 + n mod 10)])"

declare show_nat.simps [simp del]

definition to_string :: "int \<Rightarrow> string" where
  "to_string i = (if i < 0 then CHR ''-'' # show_nat (nat (- i)) else show_nat (nat i))"

text \<open>
  The regex_pieces between separators, as \<open>sregex_token_iterator\<close> with -1 delivers them for a pattern of one or
  more separators: an empty piece in front counts, one at the end does not, and a text without
  a separator is one piece.
\<close>

function regex_pieces :: "(char \<Rightarrow> bool) \<Rightarrow> string \<Rightarrow> string list" where
  "regex_pieces sep s =
     (let rest = dropWhile (\<lambda>c. \<not> sep c) s; next_piece = dropWhile sep rest in
      takeWhile (\<lambda>c. \<not> sep c) s # (if rest = [] \<or> next_piece = [] then [] else regex_pieces sep next_piece))"
  by pat_completeness auto
termination
proof (relation "measure (\<lambda>(sep, s). length s)")
  fix sep :: "char \<Rightarrow> bool" and s x y
  assume x: "x = dropWhile (\<lambda>c. \<not> sep c) s" and y: "y = dropWhile sep x" and ne: "\<not> (x = [] \<or> y = [])"
  then have "sep (hd x)" using hd_dropWhile [of "\<lambda>c. \<not> sep c" s] by simp
  then have "length y < length x" using ne y by (cases x) (simp_all add: length_dropWhile_le le_imp_less_Suc)
  moreover have "length x \<le> length s" using x by (simp add: length_dropWhile_le)
  ultimately show "((sep, y), (sep, s)) \<in> measure (\<lambda>(sep, s). length s)" by simp
qed simp

declare regex_pieces.simps [simp del]

text \<open>\<open>stoul(s, nullptr, 16)\<close>, stored in 32 bits.\<close>

definition stoul16 :: "string \<Rightarrow> u32 res" where
  "stoul16 s =
     (let t = dropWhile is_space s;
          (neg, t) = (case t of [] \<Rightarrow> (False, t)
            | c # cs \<Rightarrow> if c = CHR ''-'' then (True, cs) else if c = CHR ''+'' then (False, cs) else (False, t));
          ds = (case t of
              a # b # cs \<Rightarrow> if a = CHR ''0'' \<and> b \<in> {CHR ''x'', CHR ''X''} \<and> hex_digits cs \<noteq> [] then hex_digits cs else hex_digits t
            | _ \<Rightarrow> hex_digits t);
          v = hex_number ds
      in if ds = [] \<or> v \<ge> 2 ^ 64 then Inl Std_exception else Inr (of_int (if neg then - v else v)))"

subsection \<open>The parser\<close>

text \<open>One entry of the list of sections: a byte, the name, offset and length.\<close>

definition pof_section :: "string \<Rightarrow> pof \<Rightarrow> pof res" where
  "pof_section word p = (case regex_pieces is_space word of
     (c # name) # start # len # _ \<Rightarrow>
       bindE (stoul16 start) (\<lambda>start. bindE (stoul16 len) (\<lambda>len.
         Inr (case pf_sections p name of
           Some _ \<Rightarrow> p
         | None \<Rightarrow> p\<lparr>pf_sections := (pf_sections p)(name \<mapsto>
             \<lparr>ms_flag = of_char c, ms_section = name, ms_offset = start, ms_data = None, ms_len = len\<rparr>)\<rparr>)))
   | [] # start # len # _ \<Rightarrow> bindE (stoul16 start) (\<lambda>_. bindE (stoul16 len) (\<lambda>_. Inl Std_exception))
   | _ \<Rightarrow> Inl Out_of_bounds)"

fun pof_section_list :: "string list \<Rightarrow> pof \<Rightarrow> pof res" where
  "pof_section_list [] p = Inr p"
| "pof_section_list (w # ws) p = bindE (pof_section w p) (pof_section_list ws)"

definition parseFlag26 :: "string \<Rightarrow> pof \<Rightarrow> pof res" where
  "parseFlag26 payload p =
     (if length payload < 12 then Inl Out_of_bounds
      else pof_section_list (regex_pieces (\<lambda>c. c = CHR '';'') (drop 12 payload)) p)"

definition pof_header :: "string \<Rightarrow> string \<Rightarrow> pof \<Rightarrow> pof" where
  "pof_header key v p = p\<lparr>pf_base := (pf_base p)\<lparr>cb_hdr := (cb_hdr (pf_base p))(key \<mapsto> v)\<rparr>\<rparr>"

definition parseSection :: "string \<Rightarrow> u16 \<Rightarrow> u32 \<Rightarrow> u32 \<Rightarrow> pof \<Rightarrow> pof res" where
  "parseSection raw flag pos sz p =
     (let text = (\<lambda>n. substr raw (int (unat pos)) (int (unat n))) in
      if flag = 0x01 then bindE (text sz) (\<lambda>v. Inr (pof_header ''tool'' v p))
      else if flag = 0x02 then
        bindE (substr raw (int (unat pos)) (if sz = 0 then int (2 ^ 32 - 1) else int (unat sz) - 1)) (\<lambda>v. Inr (pof_header ''part_name'' v p))
      else if flag = 0x03 then bindE (text sz) (\<lambda>v. Inr (pof_header ''design_name'' v p))
      else if flag = 0x08 then bindE (le_chars 2 raw (unat pos)) (\<lambda>v. Inr (pof_header ''maybeCRC'' (to_string (uint v)) p))
      else if flag = 0x11 then
        (if unat pos + unat sz > length raw then Inl Out_of_bounds
         else Inr (p\<lparr>pf_base := (pf_base p)\<lparr>cb_bit_data := map of_char (take (unat sz) (drop (unat pos) raw)),
           cb_bit_length := sint (sz * 8)\<rparr>\<rparr>))
      else if flag = 0x13 then
        bindE (le_chars 4 raw (unat (pos + sz - 4))) (\<lambda>v. Inr (pof_header ''usercode'' (to_string (sint v)) p))
      else if flag = 0x1a then bindE (text sz) (\<lambda>content. parseFlag26 content p)
      else Inr p)"

text \<open>One pass of the loop: the packet at \<open>pos\<close>, and the position behind it.\<close>

definition pof_packet :: "string \<Rightarrow> u32 \<Rightarrow> pof \<Rightarrow> (u32 \<times> pof) res" where
  "pof_packet raw pos p =
     bindE (le_chars 2 raw (unat pos)) (\<lambda>flag.
     bindE (le_chars 4 raw (unat (pos + 2))) (\<lambda>sz.
     bindE (parseSection raw (ucast flag) (pos + 6) sz p) (\<lambda>p. Inr (pos + 6 + sz, p))))"

partial_function (option) pof_packets :: "string \<Rightarrow> u32 \<Rightarrow> pof \<Rightarrow> pof res option" where
  "pof_packets raw pos p =
     (if \<not> pos < of_nat (length raw) then Some (Inr p)
      else case pof_packet raw pos p of
        Inl e \<Rightarrow> Some (Inl e)
      | Inr (pos, p) \<Rightarrow> pof_packets raw pos p)"

declare pof_packets.simps [code]

text \<open>
  The pointers of the sections.  Looking up \<open>CFM0\<close>, \<open>UFM\<close> and \<open>ICB\<close> with \<open>operator[]\<close> inserts them.
\<close>

definition set_data :: "bool \<Rightarrow> string \<Rightarrow> pof \<Rightarrow> pof" where
  "set_data insert_it name p = (case pf_sections p name of
     Some s \<Rightarrow> p\<lparr>pf_sections := (pf_sections p)(name \<mapsto> s\<lparr>ms_data := Some (unat (ms_offset s + 0x0C))\<rparr>)\<rparr>
   | None \<Rightarrow> if insert_it then p\<lparr>pf_sections := (pf_sections p)(name \<mapsto>
         \<lparr>ms_flag = 0, ms_section = [], ms_offset = 0, ms_data = Some 0x0C, ms_len = 0\<rparr>)\<rparr> else p)"

definition pof_parse :: "string \<Rightarrow> pof res option" where
  "pof_parse raw = map_option (\<lambda>r. bindE r (\<lambda>p. Inr (set_data True ''ICB'' (set_data True ''UFM''
     (set_data False ''CFM2'' (set_data False ''CFM1'' (set_data True ''CFM0'' p)))))))
     (pof_packets raw 12 \<lparr>pf_base = cbp0, pf_sections = Map.empty\<rparr>)"

subsection \<open>The packets of a well-formed file\<close>

text \<open>What a packet does, from its content alone, and the file that holds a list of packets.\<close>

definition packet_effect :: "u16 \<Rightarrow> string \<Rightarrow> pof \<Rightarrow> pof res" where
  "packet_effect flag content p =
     (if flag = 0x01 then Inr (pof_header ''tool'' content p)
      else if flag = 0x02 then Inr (pof_header ''part_name'' (butlast content) p)
      else if flag = 0x03 then Inr (pof_header ''design_name'' content p)
      else if flag = 0x08 then bindE (le_chars 2 content 0) (\<lambda>v. Inr (pof_header ''maybeCRC'' (to_string (uint v)) p))
      else if flag = 0x11 then
        Inr (p\<lparr>pf_base := (pf_base p)\<lparr>cb_bit_data := map of_char content, cb_bit_length := sint (of_nat (length content) * 8 :: u32)\<rparr>\<rparr>)
      else if flag = 0x13 then
        bindE (le_chars 4 content (length content - 4)) (\<lambda>v. Inr (pof_header ''usercode'' (to_string (sint v)) p))
      else if flag = 0x1a then parseFlag26 content p
      else Inr p)"

fun packets_effect :: "(u16 \<times> string) list \<Rightarrow> pof \<Rightarrow> pof res" where
  "packets_effect [] p = Inr p"
| "packets_effect ((flag, content) # ps) p = bindE (packet_effect flag content p) (packets_effect ps)"

definition packet_ok :: "u16 \<times> string \<Rightarrow> bool" where
  "packet_ok fc = (case fc of (flag, content) \<Rightarrow>
     (if flag = 0x02 then 1 else if flag = 0x08 then 2 else if flag = 0x13 then 4 else 0) \<le> length content)"

definition pof_packet_text :: "u16 \<times> string \<Rightarrow> string" where
  "pof_packet_text fc = (case fc of (flag, content) \<Rightarrow>
     chars [byte_of flag 0, byte_of flag 1] @ chars (map (byte_of (of_nat (length content) :: u32)) [0, 1, 2, 3]) @ content)"

lemma le_chars_append:
  "k + n \<le> length cs \<Longrightarrow> le_chars n (pre @ cs @ post) (length pre + k) = le_chars n cs k"
proof (induction n arbitrary: k)
  case (Suc n)
  then show ?case using Suc.IH [of "k + 1"] by (simp add: char_at_def nth_append)
qed simp

lemma parseSection_content:
  assumes "raw = pre @ content @ post" "unat pos = length pre" "length raw < 2 ^ 32" "packet_ok (flag, content)"
  shows "parseSection raw flag pos (of_nat (length content)) p = packet_effect flag content p"
proof -
  define sz :: u32 where "sz = of_nat (length content)"
  have len: "unat sz = length content" using assms(1,3) by (simp add: sz_def unat_of_nat)
  have sub: "substr raw (int (unat pos)) (int n) = Inr (take n content)" if "n \<le> length content" for n
    using that assms(1,2) by (simp add: substr_def)
  have whole: "substr raw (int (unat pos)) (int (unat sz)) = Inr content" using sub [of "length content"] len by simp
  have part: "substr raw (int (unat pos)) (if sz = 0 then int (2 ^ 32 - 1) else int (unat sz) - 1) = Inr (butlast content)"
    if "1 \<le> length content"
  proof -
    have "sz \<noteq> 0" using that len by auto
    moreover have "int (unat sz) - 1 = int (length content - 1)" using that len by simp
    ultimately show ?thesis using sub [of "length content - 1"] by (simp add: butlast_conv_take)
  qed
  have le2: "le_chars 2 raw (unat pos) = le_chars 2 content 0" if "2 \<le> length content"
    using that assms(1,2) le_chars_append [of 0 2 content pre post] by simp
  have le4: "le_chars 4 raw (unat (pos + sz - 4)) = le_chars 4 content (length content - 4)" if "4 \<le> length content"
  proof -
    have "pos + sz - 4 = of_nat (length pre + (length content - 4))"
      using that by (simp add: sz_def of_nat_diff flip: assms(2))
    moreover have "length pre + (length content - 4) < 2 ^ 32" using assms(1,3) by simp
    ultimately have "unat (pos + sz - 4) = length pre + (length content - 4)" by (simp only: unat_of_nat) simp
    then show ?thesis using that assms(1) le_chars_append [of "length content - 4" 4 content pre post] by simp
  qed
  have fits: "\<not> unat pos + unat sz > length raw" "take (unat sz) (drop (unat pos) raw) = content" using len assms(1,2) by simp_all
  show ?thesis
    unfolding parseSection_def Let_def sz_def [symmetric] whole packet_effect_def
    using part le2 le4 fits assms(4) by (simp add: packet_ok_def sz_def split del: if_split split: if_split_asm cong: if_cong)
qed

lemma le_chars_flag: "\<exists>v. le_chars 2 (chars [byte_of f 0, byte_of f 1]) 0 = Inr v \<and> ucast v = (f :: u16)"
proof -
  let ?v = "ucast (byte_of f 0) OR push_bit 8 (ucast (byte_of f 1)) :: u32"
  have "le_chars 2 (chars [byte_of f 0, byte_of f 1]) 0 = Inr ?v"
    by (simp add: chars_def char_at_def numeral_2_eq_2)
  moreover have "ucast ?v = f"
  proof (rule bit_word_eqI)
    fix n assume "n < LENGTH(16)"
    then have "n < 8 \<or> 8 \<le> n \<and> n < 16" by auto
    then show "bit (ucast ?v :: u16) n = bit f n"
      by (auto simp: bit_ucast_iff bit_or_iff bit_push_bit_iff bit_byte_of)
  qed
  ultimately show ?thesis by blast
qed

lemma le_chars_word: "le_chars 4 (chars (map (byte_of w) [0, 1, 2, 3])) 0 = Inr (w :: u32)"
proof -
  let ?v = "ucast (byte_of w 0) OR push_bit 8 (ucast (byte_of w 1) OR push_bit 8 (ucast (byte_of w 2) OR push_bit 8 (ucast (byte_of w 3)))) :: u32"
  have "le_chars (Suc (Suc (Suc (Suc 0)))) (chars (map (byte_of w) [0, 1, 2, 3])) 0 = Inr ?v"
    by (simp add: chars_def char_at_def)
  moreover have "?v = w"
  proof (rule bit_word_eqI)
    fix n assume "n < LENGTH(32)"
    then have "n < 8 \<or> 8 \<le> n \<and> n < 16 \<or> 16 \<le> n \<and> n < 24 \<or> 24 \<le> n \<and> n < 32" by auto
    then show "bit ?v n = bit w n"
      by (elim disjE) (auto simp: bit_ucast_iff bit_or_iff bit_push_bit_iff bit_byte_of)
  qed
  ultimately show ?thesis by (simp add: numeral_eq_Suc)
qed

lemma unat_small: "n < 2 ^ 32 \<Longrightarrow> unat (of_nat n :: u32) = n"
  by (simp add: unat_of_nat)

lemma length_packet_text: "length (pof_packet_text (flag, content)) = 6 + length content"
  by (simp add: pof_packet_text_def chars_def)

lemma pof_packet_first:
  assumes "raw = pre @ pof_packet_text (flag, content) @ post" "length raw < 2 ^ 32" "packet_ok (flag, content)"
  shows "pof_packet raw (of_nat (length pre)) p =
    bindE (packet_effect flag content p) (\<lambda>p. Inr (of_nat (length (pre @ pof_packet_text (flag, content))), p))"
proof -
  let ?f = "chars [byte_of flag 0, byte_of flag 1]" and ?w = "of_nat (length content) :: u32"
  let ?l = "chars (map (byte_of ?w) [0, 1, 2, 3])"
  have raw: "raw = pre @ ?f @ (?l @ content @ post)" "raw = (pre @ ?f) @ ?l @ (content @ post)" "raw = (pre @ ?f @ ?l) @ content @ post"
    using assms(1) by (simp_all add: pof_packet_text_def)
  have lens: "length ?f = 2" "length ?l = 4" by (simp_all add: chars_def)
  have small: "length pre + 6 + length content < 2 ^ 32" using assms(2) raw(3) lens by simp
  have pos: "unat (of_nat (length pre) :: u32) = length pre" "unat (of_nat (length pre) + 2 :: u32) = length pre + 2"
    "unat (of_nat (length pre) + 6 :: u32) = length pre + 6"
  proof -
    have "unat (of_nat (length pre + k) :: u32) = length pre + k" if "k \<le> 6" for k
      using that small unfolding unat_of_nat by simp
    from this [of 0] this [of 2] this [of 6] show "unat (of_nat (length pre) :: u32) = length pre"
      "unat (of_nat (length pre) + 2 :: u32) = length pre + 2" "unat (of_nat (length pre) + 6 :: u32) = length pre + 6"
      by (simp_all add: ac_simps)
  qed
  obtain v where v: "le_chars 2 ?f 0 = Inr v" "ucast v = flag" using le_chars_flag [of flag] by blast
  have 1: "le_chars 2 raw (unat (of_nat (length pre) :: u32)) = Inr v"
    unfolding pos raw(1) using le_chars_append [of 0 2 ?f pre "?l @ content @ post"] lens v by simp
  have 2: "le_chars 4 raw (unat (of_nat (length pre) + 2 :: u32)) = Inr ?w"
    unfolding pos raw(2) using le_chars_append [of 0 4 ?l "pre @ ?f" "content @ post"] lens le_chars_word [of ?w] by simp
  have 3: "parseSection raw flag (of_nat (length pre) + 6) ?w p = packet_effect flag content p"
    by (rule parseSection_content [OF raw(3) _ assms(2,3)]) (use pos lens in simp)
  have 4: "of_nat (length pre) + 6 + ?w = of_nat (length (pre @ pof_packet_text (flag, content)))"
    by (simp add: length_packet_text)
  show ?thesis unfolding pof_packet_def 1 2 bindE.simps v(2) 3 4 ..
qed

text \<open>
  C26: the loop over a well-formed POF file ends, and does to the object what its packets do one after the other,
  each from its own content: the texts of the header, the flash data and its length, the user code, the
  list of sections.
\<close>

theorem pof_packets_in_order:
  assumes "length pre + length (concat (map pof_packet_text ps)) < 2 ^ 32" "list_all packet_ok ps"
  shows "pof_packets (pre @ concat (map pof_packet_text ps)) (of_nat (length pre)) p = Some (packets_effect ps p)"
  using assms
proof (induction ps arbitrary: pre p)
  case Nil
  have "unat (of_nat (length pre) :: u32) = length pre" using Nil by (simp add: unat_of_nat)
  then show ?case by (subst pof_packets.simps) simp
next
  case (Cons fc ps)
  obtain flag content where fc: "fc = (flag, content)" by fastforce
  let ?raw = "pre @ concat (map pof_packet_text (fc # ps))" and ?t = "pof_packet_text (flag, content)"
  have raw: "?raw = pre @ ?t @ concat (map pof_packet_text ps)" "?raw = (pre @ ?t) @ concat (map pof_packet_text ps)" using fc by simp_all
  have len: "length ?raw < 2 ^ 32" using Cons.prems(1) by simp
  have lt: "length pre < length ?raw" unfolding raw(1) by (simp add: length_packet_text)
  then have "length pre < 2 ^ 32" using len by (rule order.strict_trans)
  then have go: "(of_nat (length pre) :: u32) < of_nat (length ?raw)"
    unfolding word_less_nat_alt unat_small [OF len] using lt by (simp only: unat_small)
  have IH: "pof_packets ?raw (of_nat (length (pre @ ?t))) q = Some (packets_effect ps q)" for q
    unfolding raw(2) by (rule Cons.IH) (use Cons.prems fc in simp_all)
  have first: "pof_packet ?raw (of_nat (length pre)) p =
      bindE (packet_effect flag content p) (\<lambda>p. Inr (of_nat (length (pre @ ?t)), p))"
    by (rule pof_packet_first [OF raw(1) len]) (use Cons.prems(2) fc in simp)
  show ?case
  proof (cases "packet_effect flag content p")
    case (Inl e)
    then show ?thesis using go first fc by (subst pof_packets.simps) (simp only: bindE.simps packets_effect.simps simp_thms if_False sum.case)
  next
    case (Inr q)
    have "pof_packets ?raw (of_nat (length pre)) p = pof_packets ?raw (of_nat (length (pre @ ?t))) q"
      using go first Inr by (subst pof_packets.simps) (simp only: bindE.simps simp_thms if_False sum.case prod.case)
    then show ?thesis using IH Inr fc by simp
  qed
qed

definition demo_new_pof :: pof where
  "demo_new_pof = \<lparr>pf_base = cbp0, pf_sections = Map.empty\<rparr>"

theorem pof_packets_in_order_witness:
  "pof_packets (replicate 12 CHR ''x'' @ concat (map pof_packet_text [(0x02, ''10M08'' @ [CHR 0x00]), (0x11, ''data'')]))
     (of_nat (length (replicate 12 CHR ''x''))) demo_new_pof =
   Some (packets_effect [(0x02, ''10M08'' @ [CHR 0x00]), (0x11, ''data'')] demo_new_pof)"
  by (rule pof_packets_in_order) (simp_all add: pof_packet_text_def chars_def packet_ok_def)

text \<open>
  C27: the loop need not end.  The size of a packet is added to the 32-bit position; a packet with an unknown flag whose
  size reads FFFFFFFA (-6) leads back to itself, whatever follows it.
\<close>

theorem pof_parse_diverges:
  assumes "length pre = 12" "flag \<notin> {0x01, 0x02, 0x03, 0x08, 0x11, 0x13, 0x1a :: u16}" "length rest < 2 ^ 31"
  shows "pof_parse (pre @ chars [byte_of flag 0, byte_of flag 1, 0xFA, 0xFF, 0xFF, 0xFF] @ rest) = None"
proof -
  let ?f = "chars [byte_of flag 0, byte_of flag 1]" and ?l = "chars (map (byte_of (0xFFFFFFFA :: u32)) [0, 1, 2, 3])"
  let ?raw = "pre @ chars [byte_of flag 0, byte_of flag 1, 0xFA, 0xFF, 0xFF, 0xFF] @ rest"
  have l: "chars [byte_of flag 0, byte_of flag 1, 0xFA, 0xFF, 0xFF, 0xFF] = ?f @ ?l"
  proof -
    have "map (byte_of (0xFFFFFFFA :: u32)) [0, 1, 2, 3] = [0xFA, 0xFF, 0xFF, 0xFF]" unfolding byte_of_def by code_simp
    then show ?thesis by (simp only: chars_def) simp
  qed
  have raw: "?raw = pre @ ?f @ (?l @ rest)" "?raw = (pre @ ?f) @ ?l @ rest" unfolding l by simp_all
  have lens: "length ?f = 2" "length ?l = 4" by (simp_all add: chars_def)
  obtain v where v: "le_chars 2 ?f 0 = Inr v" "ucast v = flag" using le_chars_flag [of flag] by blast
  have 1: "le_chars 2 ?raw (unat (12 :: u32)) = Inr v"
    unfolding raw(1) using le_chars_append [of 0 2 ?f pre "?l @ rest"] assms(1) lens v by simp
  have 2: "le_chars 4 ?raw (unat (12 + 2 :: u32)) = Inr 0xFFFFFFFA"
    unfolding raw(2) using le_chars_append [of 0 4 ?l "pre @ ?f" rest] assms(1) lens le_chars_word [of "0xFFFFFFFA"] by simp
  have pass: "pof_packet ?raw 12 p = Inr (12, p)" for p
    unfolding pof_packet_def 1 2 bindE.simps v(2) using assms(2) by (simp add: parseSection_def)
  have "length ?raw = 18 + length rest" using assms(1) by (simp add: chars_def)
  then have "unat (of_nat (length ?raw) :: u32) = 18 + length rest" using assms(3) by (simp only: unat_of_nat) simp
  then have go: "(12 :: u32) < of_nat (length ?raw)" unfolding word_less_nat_alt by simp
  have "\<not> (raw' = ?raw \<and> pos' = 12)" if "pof_packets raw' pos' p' = Some r" for raw' pos' p' r
    using _ that
  proof (rule pof_packets.raw_induct)
    fix f :: "string \<Rightarrow> u32 \<Rightarrow> pof \<Rightarrow> pof res option" and raw' pos' p' r
    assume IH: "\<And>raw' pos' p' r. f raw' pos' p' = Some r \<Longrightarrow> \<not> (raw' = ?raw \<and> pos' = 12)"
      and step: "(if \<not> pos' < of_nat (length raw') then Some (Inr p')
        else case pof_packet raw' pos' p' of Inl e \<Rightarrow> Some (Inl e) | Inr (pos, p) \<Rightarrow> f raw' pos p) = Some r"
    show "\<not> (raw' = ?raw \<and> pos' = 12)"
    proof
      assume e: "raw' = ?raw \<and> pos' = 12"
      have "f ?raw 12 p' = Some r" using step go pass [of p'] unfolding conjunct1 [OF e] conjunct2 [OF e] by (simp only: simp_thms if_False sum.case prod.case)
      then show False using IH by blast
    qed
  qed
  then have "pof_packets ?raw 12 p = None" for p by (cases "pof_packets ?raw 12 p") auto
  then show ?thesis unfolding pof_parse_def by simp
qed

theorem pof_parse_diverges_witness:
  "pof_parse (replicate 12 CHR ''x'' @ chars [byte_of (0x24 :: u16) 0, byte_of (0x24 :: u16) 1, 0xFA, 0xFF, 0xFF, 0xFF] @ ''rest'') = None"
  by (rule pof_parse_diverges) simp_all

end
