(* ===== verification/Svf.thy ===== *)
theory Svf
  imports Jtag_Session Pof_File
begin

unbundle bit_operations_syntax

section \<open>The SVF player (\<open>svf_jtag.cpp\<close>)\<close>

text \<open>
  A file in the Serial Vector Format is read line by line, split into words, and every instruction is carried out on
  the JTAG layer at once.  The model keeps the text processing of the code: words are separated by single
  blanks, so that further blanks give empty words, on which the code calls \<open>front\<close> and \<open>back\<close> (\<open>Out_of_bounds\<close>).
  \<open>fsm_state[name]\<close> of an unknown name inserts the value 0, the state \<open>TEST_LOGIC_RESET\<close>.  The uninitialised bytes of the
  buffer that is read into are the argument \<open>junk\<close>, the change of the clock frequency is the argument \<open>setfreq\<close>.
  Waiting times and output on the console are left out.
\<close>

declare show_nat.simps [simp del]

subsection \<open>The object\<close>

record svf_XYR =
  xy_len :: u32
  xy_tdo :: string
  xy_tdi :: string
  xy_mask :: string
  xy_smask :: string

record svf =
  sv_freq_hz :: u32
  sv_enddr :: tapState_t
  sv_endir :: tapState_t
  sv_run_state :: tapState_t
  sv_end_state :: tapState_t
  sv_hdr :: svf_XYR
  sv_hir :: svf_XYR
  sv_sdr :: svf_XYR
  sv_sir :: svf_XYR
  sv_tdr :: svf_XYR
  sv_tir :: svf_XYR

definition fsm_state :: "(string \<times> tapState_t) list" where
  "fsm_state = [(''RESET'', TEST_LOGIC_RESET), (''IDLE'', RUN_TEST_IDLE), (''DRSELECT'', SELECT_DR_SCAN),
     (''DRCAPTURE'', CAPTURE_DR), (''DRSHIFT'', SHIFT_DR), (''DREXIT1'', EXIT1_DR), (''DRPAUSE'', PAUSE_DR),
     (''DREXIT2'', EXIT2_DR), (''DRUPDATE'', UPDATE_DR), (''IRSELECT'', SELECT_IR_SCAN), (''IRCAPTURE'', CAPTURE_IR),
     (''IRSHIFT'', SHIFT_IR), (''IREXIT1'', EXIT1_IR), (''IRPAUSE'', PAUSE_IR), (''IREXIT2'', EXIT2_IR), (''IRUPDATE'', UPDATE_IR)]"

definition state_named :: "string \<Rightarrow> tapState_t" where
  "state_named s = (case map_of fsm_state s of None \<Rightarrow> TEST_LOGIC_RESET | Some st \<Rightarrow> st)"

text \<open>The lengths are not initialised by the constructor.\<close>

definition xyr0 :: "u32 \<Rightarrow> svf_XYR" where
  "xyr0 n = \<lparr>xy_len = n, xy_tdo = [], xy_tdi = [], xy_mask = [], xy_smask = []\<rparr>"

definition svf_ctor :: "'j jtag_user \<Rightarrow> u32 \<Rightarrow> 'j \<Rightarrow> (svf \<times> 'j) res" where
  "svf_ctor u n j = bindE (ju_go_test_logic_reset u j) (\<lambda>j.
     Inr (\<lparr>sv_freq_hz = 0, sv_enddr = RUN_TEST_IDLE, sv_endir = RUN_TEST_IDLE, sv_run_state = RUN_TEST_IDLE,
       sv_end_state = RUN_TEST_IDLE, sv_hdr = xyr0 n, sv_hir = xyr0 n, sv_sdr = xyr0 n, sv_sir = xyr0 n,
       sv_tdr = xyr0 n, sv_tir = xyr0 n\<rparr>, j))"

subsection \<open>Text\<close>

definition word_at_pos :: "string list \<Rightarrow> nat \<Rightarrow> string res" where
  "word_at_pos ws i = (if i < length ws then Inr (ws ! i) else Inl Out_of_bounds)"

definition split_str :: "string \<Rightarrow> string list \<Rightarrow> string list" where
  "split_str s vparse = vparse @ lines_of CHR '' '' s"

definition hex_nibble :: "char \<Rightarrow> u8" where
  "hex_nibble c = (let v = of_char c :: u8 in if sint v \<le> 57 then (v - 48) AND 0x0f else (v - 65 + 10) AND 0x0f)"

text \<open>The digit at a position counted from the end; positions in front of the text have the default.\<close>

definition hex_at :: "string \<Rightarrow> bool \<Rightarrow> nat \<Rightarrow> u8" where
  "hex_at s default_value pos =
     (if pos < length s then hex_nibble (s ! (length s - 1 - pos)) else if default_value then 0x0f else 0)"

definition parse_hex :: "string \<Rightarrow> nat \<Rightarrow> bool \<Rightarrow> bytes" where
  "parse_hex s byte_length default_value =
     map (\<lambda>k. hex_at s default_value (2 * k) OR push_bit 4 (hex_at s default_value (2 * k + 1))) [0..<byte_length]"

text \<open>The numbers of the standard library: \<open>stoul\<close>, \<open>atoi\<close>, and \<open>atof\<close> converted to \<open>uint32_t\<close>.\<close>

definition is_digit :: "char \<Rightarrow> bool" where
  "is_digit c \<longleftrightarrow> 48 \<le> (of_char c :: nat) \<and> (of_char c :: nat) \<le> 57"

definition dec_number :: "string \<Rightarrow> nat" where
  "dec_number = foldl (\<lambda>n c. 10 * n + (of_char c - 48)) 0"

definition sign_of :: "string \<Rightarrow> bool \<times> string" where
  "sign_of t = (case t of [] \<Rightarrow> (False, [])
     | c # cs \<Rightarrow> if c = CHR ''-'' then (True, cs) else if c = CHR ''+'' then (False, cs) else (False, t))"

definition stoul :: "string \<Rightarrow> u32 res" where
  "stoul s =
     (let (neg, t) = sign_of (dropWhile is_space s); ds = takeWhile is_digit t; v = int (dec_number ds)
      in if ds = [] \<or> v \<ge> 2 ^ 64 then Inl Std_exception else Inr (of_int (if neg then - v else v)))"

definition atoi :: "string \<Rightarrow> int res" where
  "atoi s =
     (let (neg, t) = sign_of (dropWhile is_space s); v = int (dec_number (takeWhile is_digit t)); v = (if neg then - v else v)
      in if - (2 ^ 31) \<le> v \<and> v < 2 ^ 31 then Inr v else Inl Undefined)"

text \<open>
  A decimal number with an optional fraction and exponent, rounded towards zero.  (The code goes
  through a \<open>double\<close>; for the frequencies of SVF files, whole numbers below 2 to the 32nd, that is exact.)
\<close>

definition atof_u32 :: "string \<Rightarrow> u32 res" where
  "atof_u32 s =
     (let (neg, t) = sign_of (dropWhile is_space s);
          whole = takeWhile is_digit t; t = dropWhile is_digit t;
          frac = (case t of c # cs \<Rightarrow> if c = CHR ''.'' then takeWhile is_digit cs else [] | [] \<Rightarrow> []);
          t = (case t of c # cs \<Rightarrow> if c = CHR ''.'' then dropWhile is_digit cs else t | [] \<Rightarrow> []);
          expo = (case t of c # cs \<Rightarrow> if c \<in> {CHR ''e'', CHR ''E''}
              then (let (neg, ds) = sign_of cs; e = int (dec_number (takeWhile is_digit ds)) in if neg then - e else e)
              else 0 | [] \<Rightarrow> 0);
          m = dec_number (whole @ frac); k = expo - int (length frac);
          v = (if k \<ge> 0 then m * 10 ^ nat k else m div 10 ^ nat (- k))
      in if neg \<and> v \<noteq> 0 \<or> v \<ge> 2 ^ 32 then Inl Undefined else Inr (of_nat v))"

subsection \<open>Scan instructions\<close>

definition strip_word :: "string \<Rightarrow> string res" where
  "strip_word w =
     (if w = [] then Inl Out_of_bounds
      else let s = (if hd w = CHR ''('' then tl w else w) in
        if s = [] then Inl Out_of_bounds
        else let s = (if hd s = CHR 0x09 then tl s else s) in
          if s = [] then Inl Out_of_bounds else Inr (if last s = CHR '')'' then butlast s else s))"

definition store_field :: "nat \<Rightarrow> string \<Rightarrow> svf_XYR \<Rightarrow> svf_XYR" where
  "store_field mode line t =
     (if mode = 1 then t\<lparr>xy_tdo := line\<rparr> else if mode = 2 then t\<lparr>xy_tdi := line\<rparr>
      else if mode = 3 then t\<lparr>xy_mask := line\<rparr> else if mode = 4 then t\<lparr>xy_smask := line\<rparr> else t)"

definition field_mode :: "string \<Rightarrow> nat option" where
  "field_mode = map_of [(''TDO'', 1), (''TDI'', 2), (''MASK'', 3), (''SMASK'', 4)]"

fun xyr_words :: "string list \<Rightarrow> nat \<Rightarrow> string \<Rightarrow> svf_XYR \<Rightarrow> svf_XYR res" where
  "xyr_words [] mode full_line t = Inr t"
| "xyr_words (w # ws) mode full_line t = (case field_mode w of
     Some m \<Rightarrow> xyr_words ws m full_line t
   | None \<Rightarrow> bindE (strip_word w) (\<lambda>s.
       let full_line = full_line @ s in
       if last w = CHR '')'' then xyr_words ws mode [] (store_field mode full_line t)
       else xyr_words ws mode full_line t))"

definition write_buffer :: "svf_XYR \<Rightarrow> nat \<Rightarrow> bytes" where
  "write_buffer t n =
     (let w = parse_hex (xy_tdi t) n False in
      if xy_smask t \<noteq> [] then map2 (AND) w (parse_hex (xy_smask t) n False) else w)"

definition tdo_differs :: "svf_XYR \<Rightarrow> nat \<Rightarrow> bytes \<Rightarrow> bool" where
  "tdo_differs t n rx =
     list_ex (\<lambda>i. (rx ! i XOR parse_hex (xy_tdo t) n False ! i) AND parse_hex (xy_mask t) n (xy_mask t = []) ! i \<noteq> 0) [0..<n]"

text \<open>The lengths are converted to \<open>int\<close> for the JTAG layer; negative ones are left out (\<open>Undefined\<close>).\<close>

definition scan_XYR :: "'j jtag_user \<Rightarrow> (nat \<Rightarrow> bytes) \<Rightarrow> bool \<Rightarrow> tapState_t \<Rightarrow> svf_XYR \<Rightarrow> 'j \<Rightarrow> 'j res" where
  "scan_XYR u junk ir e t j =
     (let n = unat ((xy_len t + 7) div 8); len = unat (xy_len t) in
      if n = 0 then Inr j
      else if len \<ge> 2 ^ 31 then Inl Undefined
      else
        let tx = write_buffer t n; buf = (junk n)[n - 1 := 0] in
        if xy_tdo t = [] then
          (if ir then ju_shiftIR u tx len e j else bindE (ju_shiftDR u (Some tx) None len e j) (\<lambda>(_, j). Inr j))
        else
          bindE (if ir then ju_shiftIR_tdo u tx buf len e j else ju_shiftDR u (Some tx) (Some buf) len e j) (\<lambda>(rx, j).
            if tdo_differs t n (case rx of None \<Rightarrow> buf | Some rx \<Rightarrow> rx) then Inl Std_exception else Inr j))"

definition parse_XYR :: "'j jtag_user \<Rightarrow> (nat \<Rightarrow> bytes) \<Rightarrow> svf \<Rightarrow> string list \<Rightarrow> svf_XYR \<Rightarrow> 'j \<Rightarrow> (svf_XYR \<times> 'j) res" where
  "parse_XYR u junk sv vstr t j =
     bindE (word_at_pos vstr 0) (\<lambda>name.
     bindE (word_at_pos vstr 1) (\<lambda>w.
     bindE (stoul w) (\<lambda>new_length.
       let t = (if new_length \<noteq> xy_len t then xyr0 new_length else t); t = t\<lparr>xy_tdo := []\<rparr> in
       if new_length = 0 then Inr (t, j)
       else bindE (xyr_words (drop 2 vstr) 0 [] t) (\<lambda>t.
         if name \<noteq> [] \<and> hd name = CHR ''S'' then
           bindE (if length name > 1 \<and> name ! 1 = CHR ''I'' then scan_XYR u junk True (sv_endir sv) t j
             else scan_XYR u junk False (sv_enddr sv) t j) (\<lambda>j. Inr (t, j))
         else Inr (t, j)))))"

subsection \<open>Instructions\<close>

definition is_alpha :: "char \<Rightarrow> bool" where
  "is_alpha c = (let n = (of_char c :: nat) in 65 \<le> n \<and> n \<le> 90 \<or> 97 \<le> n \<and> n \<le> 122)"

text \<open>The state behind \<open>ENDSTATE\<close>, if there is one from a position on.\<close>

fun endstate :: "string list \<Rightarrow> tapState_t option res" where
  "endstate [] = Inr None"
| "endstate (w # ws) =
     (if w = ''ENDSTATE'' then (case ws of [] \<Rightarrow> Inl Out_of_bounds | s # _ \<Rightarrow> Inr (Some (state_named s))) else endstate ws)"

text \<open>The number of clocks is an \<open>int\<close> that the cable takes as \<open>uint32_t\<close>.\<close>

definition parse_runtest :: "'j jtag_user \<Rightarrow> string list \<Rightarrow> svf \<Rightarrow> 'j \<Rightarrow> (svf \<times> 'j) res" where
  "parse_runtest u vstr sv j =
     bindE (word_at_pos vstr 1) (\<lambda>w1.
     let run = (if w1 \<noteq> [] \<and> is_alpha (hd w1) then Some (state_named w1) else None);
         pos = (if run = None then 1 else 2) in
     bindE (word_at_pos vstr (pos + 1)) (\<lambda>w2.
     bindE (if w2 = ''SEC'' then Inr (0, pos + 2)
       else bindE (atoi (vstr ! pos)) (\<lambda>nb.
         let pos = pos + 2 in
         Inr (nb, if pos + 1 < length vstr \<and> vstr ! (pos + 1) = ''SEC'' then pos + 2 else pos))) (\<lambda>(nb_iter, pos).
     bindE (endstate (drop pos vstr)) (\<lambda>end_state.
       let sv = (case run of None \<Rightarrow> sv | Some r \<Rightarrow> sv\<lparr>sv_run_state := r\<rparr>);
           sv = (case end_state of Some e \<Rightarrow> sv\<lparr>sv_end_state := e\<rparr>
             | None \<Rightarrow> (case run of None \<Rightarrow> sv | Some r \<Rightarrow> sv\<lparr>sv_end_state := r\<rparr>)) in
       bindE (ju_set_state u (sv_run_state sv) j) (\<lambda>j.
       bindE (ju_toggleClk u (unat (of_int nb_iter :: u32)) j) (\<lambda>j.
       bindE (ju_flush u j) (\<lambda>j.
       bindE (ju_set_state u (sv_end_state sv) j) (\<lambda>j. Inr (sv, j)))))))))"

definition handle_instruction :: "'j jtag_user \<Rightarrow> (nat \<Rightarrow> bytes) \<Rightarrow> (u32 \<Rightarrow> 'j \<Rightarrow> 'j res) \<Rightarrow> string list \<Rightarrow> svf \<Rightarrow> 'j
    \<Rightarrow> (svf \<times> 'j) res" where
  "handle_instruction u junk setfreq vstr sv j =
     bindE (word_at_pos vstr 0) (\<lambda>name.
     if name = ''FREQUENCY'' then
       bindE (word_at_pos vstr 1) (\<lambda>w. bindE (atof_u32 w) (\<lambda>f.
       bindE (setfreq f j) (\<lambda>j. Inr (sv\<lparr>sv_freq_hz := f\<rparr>, j))))
     else if name = ''TRST'' then Inr (sv, j)
     else if name = ''ENDDR'' then bindE (word_at_pos vstr 1) (\<lambda>w. Inr (sv\<lparr>sv_enddr := state_named w\<rparr>, j))
     else if name = ''ENDIR'' then bindE (word_at_pos vstr 1) (\<lambda>w. Inr (sv\<lparr>sv_endir := state_named w\<rparr>, j))
     else if name = ''STATE'' then
       bindE (word_at_pos vstr 1) (\<lambda>w. bindE (ju_set_state u (state_named w) j) (\<lambda>j. Inr (sv, j)))
     else if name = ''RUNTEST'' then parse_runtest u vstr sv j
     else if name = ''HIR'' then bindE (parse_XYR u junk sv vstr (sv_hir sv) j) (\<lambda>(t, j). Inr (sv\<lparr>sv_hir := t\<rparr>, j))
     else if name = ''HDR'' then bindE (parse_XYR u junk sv vstr (sv_hdr sv) j) (\<lambda>(t, j). Inr (sv\<lparr>sv_hdr := t\<rparr>, j))
     else if name = ''SIR'' then bindE (parse_XYR u junk sv vstr (sv_sir sv) j) (\<lambda>(t, j). Inr (sv\<lparr>sv_sir := t\<rparr>, j))
     else if name = ''SDR'' then bindE (parse_XYR u junk sv vstr (sv_sdr sv) j) (\<lambda>(t, j). Inr (sv\<lparr>sv_sdr := t\<rparr>, j))
     else if name = ''TDR'' then bindE (parse_XYR u junk sv vstr (sv_tdr sv) j) (\<lambda>(t, j). Inr (sv\<lparr>sv_tdr := t\<rparr>, j))
     else if name = ''TIR'' then bindE (parse_XYR u junk sv vstr (sv_tir sv) j) (\<lambda>(t, j). Inr (sv\<lparr>sv_tir := t\<rparr>, j))
     else Inl Std_exception)"

subsection \<open>The file\<close>

text \<open>One line: the words that wait for the rest of their instruction, and what an instruction changes.\<close>

definition svf_line :: "'j jtag_user \<Rightarrow> (nat \<Rightarrow> bytes) \<Rightarrow> (u32 \<Rightarrow> 'j \<Rightarrow> 'j res) \<Rightarrow> string \<Rightarrow> string list \<Rightarrow> svf \<Rightarrow> 'j
    \<Rightarrow> (string list \<times> svf \<times> 'j) res" where
  "svf_line u junk setfreq line vstr sv j =
     bindE (drop_cr line) (\<lambda>str.
       if str \<noteq> [] \<and> hd str = CHR ''!'' then Inr (vstr, sv, j)
       else if str = [] then Inl Out_of_bounds
       else
         let is_complete = (last str = CHR '';''); str = (if is_complete then butlast str else str);
             vstr = split_str (map (\<lambda>c. if is_space c then CHR '' '' else c) str) vstr in
         if is_complete then bindE (handle_instruction u junk setfreq vstr sv j) (\<lambda>(sv, j). Inr ([], sv, j))
         else Inr (vstr, sv, j))"

fun svf_lines :: "'j jtag_user \<Rightarrow> (nat \<Rightarrow> bytes) \<Rightarrow> (u32 \<Rightarrow> 'j \<Rightarrow> 'j res) \<Rightarrow> string list \<Rightarrow> string list \<Rightarrow> svf \<Rightarrow> 'j
    \<Rightarrow> (svf \<times> 'j) res" where
  "svf_lines u junk setfreq [] vstr sv j = Inr (sv, j)"
| "svf_lines u junk setfreq (l # ls) vstr sv j =
     bindE (svf_line u junk setfreq l vstr sv j) (\<lambda>(vstr, sv, j). svf_lines u junk setfreq ls vstr sv j)"

text \<open>A file that cannot be opened is reported on the console only.\<close>

definition svf_parse :: "'j jtag_user \<Rightarrow> (nat \<Rightarrow> bytes) \<Rightarrow> (u32 \<Rightarrow> 'j \<Rightarrow> 'j res) \<Rightarrow> string option \<Rightarrow> svf \<Rightarrow> 'j
    \<Rightarrow> (svf \<times> 'j) res" where
  "svf_parse u junk setfreq file sv j = (case file of
     None \<Rightarrow> Inr (sv, j)
   | Some content \<Rightarrow> svf_lines u junk setfreq (lines_of CHR 0x0A content) [] sv j)"

section \<open>Playing an SVF file\<close>

text \<open>
  The reference for the player: instructions as a data type, their text, and the scans they stand for.
\<close>

subsection \<open>The bits of a hexadecimal text\<close>

definition hex_bits :: "string \<Rightarrow> nat \<Rightarrow> bool list" where
  "hex_bits h n = map (bit (hex_number (hex_digits h))) [0..<n]"

lemma hex_number_snoc: "hex_number (ds @ [d]) = 16 * hex_number ds + int d"
  by (simp add: hex_number_def)

lemma hex_digits_snoc: "list_all (\<lambda>c. hex_val c \<noteq> None) h \<Longrightarrow> hex_val c = Some d \<Longrightarrow> hex_digits (h @ [c]) = hex_digits h @ [d]"
  by (induction h) auto

lemma bit_digit: "d < 16 \<Longrightarrow> 4 \<le> n \<Longrightarrow> \<not> bit (d :: nat) n"
proof -
  assume "d < 16" "4 \<le> n"
  then have "d < 2 ^ n" using power_increasing [of 4 n "2 :: nat"] by simp
  then show ?thesis by (simp add: bit_iff_odd)
qed

lemma bit_shift4:
  assumes "d < 16"
  shows "bit (16 * x + int d) i = (if i < 4 then bit d i else bit x (i - 4))"
proof -
  have "push_bit 4 x AND int d = 0"
    using bit_digit [OF assms] by (intro bit_eqI) (auto simp: bit_simps bit_of_nat_iff_bit)
  then have "push_bit 4 x + int d = push_bit 4 x OR int d" by (rule disjunctive_add_eq_or)
  then have "16 * x + int d = push_bit 4 x OR int d" by (simp add: push_bit_eq_mult mult.commute)
  then show ?thesis using bit_digit [OF assms] by (auto simp: bit_simps bit_of_nat_iff_bit)
qed

lemma hex_nibble_nat:
  "list_all (\<lambda>n. (if sint (of_nat n :: u8) \<le> 57 then (of_nat n - 48 :: u8) AND 0x0f else (of_nat n - 65 + 10) AND 0x0f) =
     of_nat (if n \<le> 57 then n - 48 else if n \<le> 70 then n - 55 else n - 87)) ([48..<58] @ [65..<71] @ [97..<103])"
  by (simp add: upt_rec)

lemma hex_nibble_val:
  assumes "hex_val c = Some d"
  shows "hex_nibble c = of_nat d" "d < 16"
proof -
  let ?n = "of_char c :: nat"
  have d: "?n \<in> set ([48..<58] @ [65..<71] @ [97..<103])" "d = (if ?n \<le> 57 then ?n - 48 else if ?n \<le> 70 then ?n - 55 else ?n - 87)"
    using assms unfolding hex_val_def Let_def set_append set_upt Un_iff atLeastLessThan_iff by (auto split: if_splits)
  then show "hex_nibble c = of_nat d"
    using hex_nibble_nat unfolding list_all_iff by (simp only: hex_nibble_def of_char_u8 Let_def)
  show "d < 16" using d by auto
qed

lemma hex_at_snoc: "hex_at (h @ [c]) d pos = (if pos = 0 then hex_nibble c else hex_at h d (pos - 1))"
  by (cases pos) (auto simp: hex_at_def nth_append)

lemma hex_at_bit:
  "list_all (\<lambda>c. hex_val c \<noteq> None) h \<Longrightarrow> k < 4 \<Longrightarrow> bit (hex_at h False pos) k = bit (hex_number (hex_digits h)) (4 * pos + k)"
proof (induction h arbitrary: pos rule: rev_induct)
  case (snoc c h)
  then obtain d where d: "hex_val c = Some d" by auto
  have n: "hex_number (hex_digits (h @ [c])) = 16 * hex_number (hex_digits h) + int d"
    using snoc.prems(1) d by (simp add: hex_digits_snoc hex_number_snoc)
  show ?case
  proof (cases pos)
    case 0
    then show ?thesis using snoc.prems(2) hex_nibble_val [OF d]
      by (simp add: hex_at_snoc n bit_shift4 bit_of_nat_iff)
  next
    case (Suc p)
    then show ?thesis using snoc.IH [of p] snoc.prems hex_nibble_val(2) [OF d]
      by (simp add: hex_at_snoc n bit_shift4)
  qed
qed (simp add: hex_at_def hex_number_def)

lemma hex_at_high: "list_all (\<lambda>c. hex_val c \<noteq> None) h \<Longrightarrow> 4 \<le> k \<Longrightarrow> \<not> bit (hex_at h False pos) k"
proof -
  assume h: "list_all (\<lambda>c. hex_val c \<noteq> None) h" "4 \<le> k"
  show ?thesis
  proof (cases "pos < length h")
    case True
    then have "hex_val (h ! (length h - 1 - pos)) \<noteq> None" using h(1) by (simp add: list_all_length)
    then obtain d where "hex_val (h ! (length h - 1 - pos)) = Some d" by auto
    from hex_nibble_val [OF this] show ?thesis using True h(2) bit_digit
      by (auto simp: hex_at_def bit_of_nat_iff)
  qed (simp add: hex_at_def)
qed

lemma nth_bit_parse_hex:
  assumes "list_all (\<lambda>c. hex_val c \<noteq> None) h" "i < 8 * n"
  shows "nth_bit (parse_hex h n False) i = bit (hex_number (hex_digits h)) i"
proof -
  have "i div 8 < n" using assms(2) by auto
  then have b: "nth_bit (parse_hex h n False) i = bit (hex_at h False (2 * (i div 8)) OR push_bit 4 (hex_at h False (2 * (i div 8) + 1))) (i mod 8)"
    by (simp add: nth_bit_def parse_hex_def)
  show ?thesis
  proof (cases "i mod 8 < 4")
    case True
    have "4 * (2 * (i div 8)) + i mod 8 = i" by simp
    then show ?thesis using True hex_at_bit [OF assms(1) True, of "2 * (i div 8)"] unfolding b by (simp add: bit_simps)
  next
    case False
    then have k: "i mod 8 - 4 < 4" by linarith
    have "4 * (2 * (i div 8) + 1) + (i mod 8 - 4) = i" using False by presburger
    then show ?thesis using False hex_at_bit [OF assms(1) k, of "2 * (i div 8) + 1"] hex_at_high [OF assms(1), of "i mod 8"]
      unfolding b by (simp add: bit_simps)
  qed
qed

lemma bits_of_parse_hex:
  "list_all (\<lambda>c. hex_val c \<noteq> None) h \<Longrightarrow> n \<le> 8 * k \<Longrightarrow> bits_of (parse_hex h k False) n = hex_bits h n"
  by (simp add: bits_of_def hex_bits_def nth_bit_parse_hex)

subsection \<open>Numbers and words\<close>

lemma dec_number_snoc: "dec_number (s @ [c]) = 10 * dec_number s + (of_char c - 48)"
  by (simp add: dec_number_def)

lemma show_nat_digits: "list_all is_digit (show_nat n) \<and> show_nat n \<noteq> [] \<and> dec_number (show_nat n) = n"
proof (induction n rule: show_nat.induct)
  case (1 n)
  have d: "is_digit (char_of (48 + k)) \<and> (of_char (char_of (48 + k)) :: nat) = 48 + k" if "k < 10" for k
    using that by (simp add: is_digit_def)
  show ?case
  proof (cases "n < 10")
    case True
    then have "show_nat n = [char_of (48 + n)]" by (subst show_nat.simps) simp
    then show ?thesis using d [OF True] by (simp add: dec_number_def)
  next
    case False
    then have "show_nat n = show_nat (n div 10) @ [char_of (48 + n mod 10)]" by (subst show_nat.simps) simp
    then show ?thesis using 1 [OF False] d [of "n mod 10"] by (simp add: dec_number_snoc)
  qed
qed

lemma not_space_digit: "is_digit c \<Longrightarrow> \<not> is_space c"
  by (auto simp: is_digit_def is_space_def)

lemma takeWhile_all: "list_all P s \<Longrightarrow> takeWhile P s = s"
  by (simp add: list_all_iff takeWhile_eq_all_conv)

lemma scan_number:
  "sign_of (dropWhile is_space (show_nat n)) = (False, show_nat n)" "takeWhile is_digit (show_nat n) = show_nat n"
proof -
  obtain c cs where c: "show_nat n = c # cs" "is_digit c" using show_nat_digits [of n] by (cases "show_nat n") auto
  then have "c \<noteq> CHR ''-''" "c \<noteq> CHR ''+''" by (auto simp: is_digit_def)
  then show "sign_of (dropWhile is_space (show_nat n)) = (False, show_nat n)"
    using c not_space_digit [OF c(2)] by (simp add: sign_of_def)
  show "takeWhile is_digit (show_nat n) = show_nat n" using show_nat_digits takeWhile_all by blast
qed

lemma stoul_show_nat: "n < 2 ^ 32 \<Longrightarrow> stoul (show_nat n) = Inr (of_nat n)"
  using show_nat_digits [of n] by (simp add: stoul_def scan_number)

lemma atoi_show_nat: "n < 2 ^ 31 \<Longrightarrow> atoi (show_nat n) = Inr (int n)"
  using show_nat_digits [of n] by (simp add: atoi_def scan_number Let_def)

definition word_ok :: "string \<Rightarrow> bool" where
  "word_ok w \<longleftrightarrow> w \<noteq> [] \<and> list_all (\<lambda>c. \<not> is_space c) w"

fun unwords :: "string list \<Rightarrow> string" where
  "unwords [] = []"
| "unwords [w] = w"
| "unwords (w # ws) = w @ CHR '' '' # unwords ws"

lemma blank: "is_space CHR '' ''"
  by (simp add: is_space_def)

lemma lines_of_word: "d \<notin> set w \<Longrightarrow> lines_of d (w @ d # rest) = w # lines_of d rest"
proof -
  assume "d \<notin> set w"
  then have "takeWhile (\<lambda>c. c \<noteq> d) (w @ d # rest) = w" by (auto simp: takeWhile_append)
  then show ?thesis by (subst lines_of.simps) (simp add: Let_def)
qed

lemma lines_of_last: "d \<notin> set w \<Longrightarrow> w \<noteq> [] \<Longrightarrow> lines_of d w = [w]"
proof -
  assume "d \<notin> set w" "w \<noteq> []"
  have t: "takeWhile (\<lambda>c. c \<noteq> d) w = w" using \<open>d \<notin> set w\<close> by (auto simp: takeWhile_eq_all_conv)
  show ?thesis using \<open>w \<noteq> []\<close> by (subst lines_of.simps, simp only: t Let_def) (simp add: lines_of.simps [of d "[]"])
qed

lemma split_unwords: "list_all word_ok ws \<Longrightarrow> lines_of CHR '' '' (unwords ws) = ws"
proof (induction ws rule: unwords.induct)
  case (2 w)
  then show ?case using blank by (auto simp: word_ok_def list_all_iff intro!: lines_of_last)
next
  case (3 w v vs)
  then have "CHR '' '' \<notin> set w" using blank by (auto simp: word_ok_def list_all_iff)
  then show ?case using 3 by (simp add: lines_of_word)
qed (simp add: lines_of.simps)

lemma map_unwords:
  "list_all word_ok ws \<Longrightarrow> map (\<lambda>c. if is_space c then CHR '' '' else c) (unwords ws) = unwords ws"
proof (induction ws rule: unwords.induct)
  case (2 w)
  then show ?case by (auto simp: word_ok_def list_all_iff intro!: map_idI)
next
  case (3 w v vs)
  then have "map (\<lambda>c. if is_space c then CHR '' '' else c) w = w" by (auto simp: word_ok_def list_all_iff intro!: map_idI)
  then show ?case using 3 by (simp add: blank)
qed simp

lemma unwords_hd: "list_all word_ok (w # ws) \<Longrightarrow> unwords (w # ws) \<noteq> [] \<and> hd (unwords (w # ws)) = hd w"
  by (cases ws) (auto simp: word_ok_def)

text \<open>A line with all words of an instruction executes it.\<close>

lemma svf_line_complete:
  assumes "list_all word_ok (w # ws)" "hd w \<noteq> CHR ''!''"
  shows "svf_line u junk setfreq (unwords (w # ws) @ '';'') [] sv j =
    bindE (handle_instruction u junk setfreq (w # ws) sv j) (\<lambda>(sv, j). Inr ([], sv, j))"
proof -
  have "drop_cr (unwords (w # ws) @ '';'') = Inr (unwords (w # ws) @ '';'')" by (simp add: drop_cr_def)
  moreover have "hd (unwords (w # ws) @ '';'') = hd w" using unwords_hd [OF assms(1)] by (simp add: hd_append)
  ultimately show ?thesis
    using assms split_unwords [OF assms(1)] map_unwords [OF assms(1)] by (simp add: svf_line_def split_str_def del: unwords.simps)
qed

subsection \<open>Instructions and their scans\<close>

datatype svf_cmd = C_SIR nat string | C_SDR nat string | C_RUNTEST nat | C_ENDIR string | C_ENDDR string | C_STATE string

definition paren :: "string \<Rightarrow> string" where
  "paren h = CHR ''('' # h @ '')''"

fun cmd_words :: "svf_cmd \<Rightarrow> string list" where
  "cmd_words (C_SIR n h) = [''SIR'', show_nat n, ''TDI'', paren h]"
| "cmd_words (C_SDR n h) = [''SDR'', show_nat n, ''TDI'', paren h]"
| "cmd_words (C_RUNTEST n) = [''RUNTEST'', show_nat n, ''TCK'']"
| "cmd_words (C_ENDIR s) = [''ENDIR'', s]"
| "cmd_words (C_ENDDR s) = [''ENDDR'', s]"
| "cmd_words (C_STATE s) = [''STATE'', s]"

definition svf_text :: "svf_cmd list \<Rightarrow> string" where
  "svf_text cs = text_file (map (\<lambda>c. unwords (cmd_words c) @ '';'') cs)"

text \<open>
  What may follow in a state of the chain \<open>s\<close> with the final states \<open>ei\<close> and \<open>ed\<close> of the scans, and what
  is scanned.
\<close>

fun playable :: "tapState_t \<Rightarrow> tapState_t \<Rightarrow> tapState_t \<Rightarrow> svf_cmd list \<Rightarrow> bool" where
  "playable s ei ed [] \<longleftrightarrow> True"
| "playable s ei ed (C_SIR n h # cs) \<longleftrightarrow> 0 < n \<and> n < 2 ^ 31 \<and> h \<noteq> [] \<and> list_all (\<lambda>c. hex_val c \<noteq> None) h \<and>
     s \<in> rests - {PAUSE_IR, EXIT1_IR} \<and> ei \<in> ir_rest \<and> playable ei ei ed cs"
| "playable s ei ed (C_SDR n h # cs) \<longleftrightarrow> 0 < n \<and> n < 2 ^ 31 \<and> h \<noteq> [] \<and> list_all (\<lambda>c. hex_val c \<noteq> None) h \<and>
     s \<in> rests - {PAUSE_DR, EXIT1_DR} \<and> ed \<in> dr_rest \<and> playable ed ei ed cs"
| "playable s ei ed (C_RUNTEST n # cs) \<longleftrightarrow> n < 2 ^ 31 \<and> s \<in> rests \<and> playable RUN_TEST_IDLE ei ed cs"
| "playable s ei ed (C_ENDIR e # cs) \<longleftrightarrow> e \<in> fst ` set fsm_state \<and> playable s (state_named e) ed cs"
| "playable s ei ed (C_ENDDR e # cs) \<longleftrightarrow> e \<in> fst ` set fsm_state \<and> playable s ei (state_named e) cs"
| "playable s ei ed (C_STATE n # cs) \<longleftrightarrow> n \<in> {''IDLE'', ''RESET''} \<and> s \<in> rests \<and> playable (state_named n) ei ed cs"

fun svf_scans :: "bool list \<Rightarrow> bool list \<Rightarrow> bool list \<Rightarrow> bool list \<Rightarrow> tapState_t \<Rightarrow> tapState_t \<Rightarrow> tapState_t \<Rightarrow> svf_cmd list \<Rightarrow> scan list" where
  "svf_scans ir_pre ir_post dr_pre dr_post s ei ed [] = []"
| "svf_scans ir_pre ir_post dr_pre dr_post s ei ed (c # cs) = (case c of
     C_SIR n h \<Rightarrow> IR_scan (ir_pre @ hex_bits h n @ ir_post) # svf_scans ir_pre ir_post dr_pre dr_post ei ei ed cs
   | C_SDR n h \<Rightarrow> DR_scan (dr_pre @ hex_bits h n @ dr_post) # svf_scans ir_pre ir_post dr_pre dr_post ed ei ed cs
   | C_RUNTEST n \<Rightarrow> svf_scans ir_pre ir_post dr_pre dr_post RUN_TEST_IDLE ei ed cs
   | C_ENDIR e \<Rightarrow> svf_scans ir_pre ir_post dr_pre dr_post s (state_named e) ed cs
   | C_ENDDR e \<Rightarrow> svf_scans ir_pre ir_post dr_pre dr_post s ei (state_named e) cs
   | C_STATE n \<Rightarrow> reset_scan s (state_named n) @ svf_scans ir_pre ir_post dr_pre dr_post (state_named n) ei ed cs)"

subsection \<open>The player on the text of instructions\<close>

lemma hex_char_facts:
  assumes "hex_val c \<noteq> None"
  shows "c \<noteq> CHR 0x09" "\<not> is_space c" "c \<noteq> CHR 0x0A"
proof -
  have "(of_char c :: nat) > 32" using assms by (auto simp: hex_val_def Let_def split: if_splits)
  then show "c \<noteq> CHR 0x09" "\<not> is_space c" "c \<noteq> CHR 0x0A" by (auto simp: is_space_def)
qed

lemma xyr_words_tdi:
  assumes "h \<noteq> []" "list_all (\<lambda>c. hex_val c \<noteq> None) h"
  shows "xyr_words [''TDI'', paren h] m [] t = Inr (t\<lparr>xy_tdi := h\<rparr>)"
proof -
  obtain c cs where "h = c # cs" "c \<noteq> CHR 0x09" using assms hex_char_facts(1) by (cases h) auto
  then have "strip_word (paren h) = Inr h" by (simp add: strip_word_def Let_def paren_def)
  then show ?thesis by (simp add: field_mode_def store_field_def paren_def)
qed

definition player_ok :: "tapState_t \<Rightarrow> tapState_t \<Rightarrow> svf \<Rightarrow> bool" where
  "player_ok ei ed sv \<longleftrightarrow> sv_endir sv = ei \<and> sv_enddr sv = ed \<and> sv_run_state sv = RUN_TEST_IDLE \<and>
     sv_end_state sv = RUN_TEST_IDLE \<and> xy_smask (sv_sir sv) = [] \<and> xy_smask (sv_sdr sv) = []"

lemma bytes_of_len: "n < 2 ^ 31 \<Longrightarrow> unat (((of_nat n :: u32) + 7) div 8) = (n + 7) div 8"
proof -
  assume n: "n < 2 ^ 31"
  then have "(of_nat n :: u32) + 7 = of_nat (n + 7)" by simp
  moreover have "unat (of_nat (n + 7) :: u32) = n + 7" using n by (intro unat_small) simp
  ultimately show ?thesis by (simp only: unat_div) simp
qed

lemma parse_XYR_scan:
  assumes "h \<noteq> []" "list_all (\<lambda>c. hex_val c \<noteq> None) h" "0 < n" "n < 2 ^ 31" "xy_smask t = []" "hd name = CHR ''S''" "length name = 3"
  shows "\<exists>t'. xy_smask t' = [] \<and> (\<forall>j. parse_XYR u junk sv [name, show_nat n, ''TDI'', paren h] t j =
    bindE (if name ! 1 = CHR ''I'' then ju_shiftIR u (parse_hex h ((n + 7) div 8) False) n (sv_endir sv) j
      else bindE (ju_shiftDR u (Some (parse_hex h ((n + 7) div 8) False)) None n (sv_enddr sv) j) (\<lambda>(_, j). Inr j)) (\<lambda>j. Inr (t', j)))"
proof -
  define t' where "t' = (if (of_nat n :: u32) \<noteq> xy_len t then xyr0 (of_nat n) else t)\<lparr>xy_tdo := [], xy_tdi := h\<rparr>"
  have n2: "unat (of_nat n :: u32) = n" using assms(4) by (intro unat_small) simp
  then have "(of_nat n :: u32) \<noteq> 0" using assms(3) by (metis neq0_conv unat_0)
  note n = this n2
  have f: "xy_len t' = of_nat n" "xy_tdo t' = []" "xy_tdi t' = h" "xy_smask t' = []" using assms(5) by (auto simp: xyr0_def t'_def)
  have sc: "scan_XYR u junk ir e t' j =
      (if ir then ju_shiftIR u (parse_hex h ((n + 7) div 8) False) n e j
       else bindE (ju_shiftDR u (Some (parse_hex h ((n + 7) div 8) False)) None n e j) (\<lambda>(_, j). Inr j))" for ir e j
  proof -
    have "(n + 7) div 8 \<noteq> 0" using assms(3) by simp
    then show ?thesis unfolding scan_XYR_def f write_buffer_def Let_def n(2) bytes_of_len [OF assms(4)] using assms(4) by simp
  qed
  have "parse_XYR u junk sv [name, show_nat n, ''TDI'', paren h] t j =
      bindE (if name ! 1 = CHR ''I'' then scan_XYR u junk True (sv_endir sv) t' j else scan_XYR u junk False (sv_enddr sv) t' j)
        (\<lambda>j. Inr (t', j))" for j
    using assms(3,4,6,7) n(1) stoul_show_nat [of n] xyr_words_tdi [OF assms(1,2)]
    by (auto simp: parse_XYR_def word_at_pos_def Let_def t'_def simp del: xyr_words.simps)
  then show ?thesis using f(4) sc by (intro exI [of _ t']) simp
qed

lemma handle_SIR:
  assumes "h \<noteq> []" "list_all (\<lambda>c. hex_val c \<noteq> None) h" "0 < n" "n < 2 ^ 31" "player_ok ei ed sv"
  shows "\<exists>sv'. player_ok ei ed sv' \<and> (\<forall>j. handle_instruction u junk setfreq (cmd_words (C_SIR n h)) sv j =
    bindE (ju_shiftIR u (parse_hex h ((n + 7) div 8) False) n ei j) (\<lambda>j. Inr (sv', j)))"
proof -
  obtain t where t: "xy_smask t = []" "\<And>j. parse_XYR u junk sv [''SIR'', show_nat n, ''TDI'', paren h] (sv_sir sv) j =
      bindE (ju_shiftIR u (parse_hex h ((n + 7) div 8) False) n ei j) (\<lambda>j. Inr (t, j))"
    using parse_XYR_scan [OF assms(1-4), of "sv_sir sv" "''SIR''" u junk sv] assms(5) by (auto simp: player_ok_def)
  show ?thesis
    using t(1) assms(5) by (intro exI [of _ "sv\<lparr>sv_sir := t\<rparr>"])
      (simp add: handle_instruction_def word_at_pos_def t(2) player_ok_def bindE_assoc)
qed

lemma handle_SDR:
  assumes "h \<noteq> []" "list_all (\<lambda>c. hex_val c \<noteq> None) h" "0 < n" "n < 2 ^ 31" "player_ok ei ed sv"
  shows "\<exists>sv'. player_ok ei ed sv' \<and> (\<forall>j. handle_instruction u junk setfreq (cmd_words (C_SDR n h)) sv j =
    bindE (ju_shiftDR u (Some (parse_hex h ((n + 7) div 8) False)) None n ed j) (\<lambda>(_, j). Inr (sv', j)))"
proof -
  obtain t where t: "xy_smask t = []" "\<And>j. parse_XYR u junk sv [''SDR'', show_nat n, ''TDI'', paren h] (sv_sdr sv) j =
      bindE (bindE (ju_shiftDR u (Some (parse_hex h ((n + 7) div 8) False)) None n ed j) (\<lambda>(_, j). Inr j)) (\<lambda>j. Inr (t, j))"
    using parse_XYR_scan [OF assms(1-4), of "sv_sdr sv" "''SDR''" u junk sv] assms(5) by (auto simp: player_ok_def)
  show ?thesis
    using t(1) assms(5) by (intro exI [of _ "sv\<lparr>sv_sdr := t\<rparr>"])
      (auto simp: handle_instruction_def word_at_pos_def t(2) player_ok_def bindE_assoc split_def intro!: bindE_cong)
qed

lemma handle_RUNTEST:
  assumes "n < 2 ^ 31" "player_ok ei ed sv"
  shows "handle_instruction u junk setfreq (cmd_words (C_RUNTEST n)) sv j =
    bindE (ju_set_state u RUN_TEST_IDLE j) (\<lambda>j. bindE (ju_toggleClk u n j) (\<lambda>j. bindE (ju_flush u j) (\<lambda>j.
    bindE (ju_set_state u RUN_TEST_IDLE j) (\<lambda>j. Inr (sv, j)))))"
proof -
  obtain c cs where c: "show_nat n = c # cs" "is_digit c" using show_nat_digits [of n] by (cases "show_nat n") auto
  then have "\<not> is_alpha c" by (auto simp: is_digit_def is_alpha_def Let_def)
  moreover have "unat (of_nat n :: u32) = n" using assms(1) by (intro unat_small) simp
  ultimately show ?thesis
    using assms c atoi_show_nat [OF assms(1)]
    by (auto simp: handle_instruction_def parse_runtest_def word_at_pos_def player_ok_def Let_def)
qed

lemma word_ok_literals [simp]:
  "word_ok ''SIR''" "word_ok ''SDR''" "word_ok ''TDI''" "word_ok ''RUNTEST''" "word_ok ''TCK''" "word_ok ''ENDIR''"
  "word_ok ''ENDDR''" "word_ok ''STATE''" "word_ok ''IDLE''" "word_ok ''RESET''"
  by (simp_all add: word_ok_def is_space_def)

lemma word_ok_show_nat [simp]: "word_ok (show_nat n)"
  using show_nat_digits [of n] not_space_digit by (auto simp: word_ok_def list_all_iff)

lemma word_ok_paren: "list_all (\<lambda>c. hex_val c \<noteq> None) h \<Longrightarrow> word_ok (paren h)"
  using hex_char_facts(2) by (auto simp: word_ok_def paren_def list_all_iff is_space_def)

lemma word_ok_state: "s \<in> fst ` set fsm_state \<Longrightarrow> word_ok s"
  by (auto simp: fsm_state_def word_ok_def is_space_def)

lemma cmd_words_ok:
  assumes "playable s ei ed (c # cs)"
  shows "list_all word_ok (cmd_words c)" "\<exists>w ws. cmd_words c = w # ws \<and> hd w \<noteq> CHR ''!''"
  using assms word_ok_paren word_ok_state
  by (cases c; auto)+

lemma unwords_newline: "list_all word_ok ws \<Longrightarrow> CHR 0x0A \<notin> set (unwords ws)"
  by (induction ws rule: unwords.induct) (auto simp: word_ok_def list_all_iff is_space_def)

lemma cmd_line:
  assumes "playable s ei ed (c # cs)"
  shows "svf_line u junk setfreq (unwords (cmd_words c) @ '';'') [] sv j =
    bindE (handle_instruction u junk setfreq (cmd_words c) sv j) (\<lambda>(sv, j). Inr ([], sv, j))"
proof -
  obtain w ws where w: "cmd_words c = w # ws" "hd w \<noteq> CHR ''!''" using cmd_words_ok(2) [OF assms] by blast
  show ?thesis unfolding w(1) by (rule svf_line_complete [OF _ w(2)]) (use cmd_words_ok(1) [OF assms] w(1) in simp)
qed

lemma playable_text: "playable s ei ed cs \<Longrightarrow> lines_of CHR 0x0A (svf_text cs) = map (\<lambda>c. unwords (cmd_words c) @ '';'') cs"
proof -
  assume "playable s ei ed cs"
  then have "list_all (\<lambda>c. CHR 0x0A \<notin> set (unwords (cmd_words c) @ '';'')) cs"
  proof (induction cs arbitrary: s ei ed)
    case (Cons c cs)
    have "CHR 0x0A \<notin> set (unwords (cmd_words c) @ '';'')" using unwords_newline [OF cmd_words_ok(1) [OF Cons.prems]] by simp
    moreover have "\<exists>s ei ed. playable s ei ed cs" using Cons.prems by (cases c) auto
    ultimately show ?case using Cons.IH by auto
  qed simp
  then show ?thesis unfolding svf_text_def by (intro lines_of_text) (simp add: list_all_iff)
qed

context scan_port
begin

lemma scans_SIR:
  assumes "ok j" "player_ok ei ed sv" "playable (st j) ei ed (C_SIR n h # cs)"
  shows "\<exists>sv' j' ei' ed'. handle_instruction u junk setfreq (cmd_words (C_SIR n h)) sv j = Inr (sv', j') \<and> ok j' \<and> player_ok ei' ed' sv' \<and>
    playable (st j') ei' ed' cs \<and> log j' @ svf_scans ir_pre ir_post dr_pre dr_post (st j') ei' ed' cs =
      log j @ svf_scans ir_pre ir_post dr_pre dr_post (st j) ei ed (C_SIR n h # cs)"
proof -
  have h: "h \<noteq> []" "list_all (\<lambda>c. hex_val c \<noteq> None) h" "0 < n" "n < 2 ^ 31" "st j \<in> rests - {PAUSE_IR, EXIT1_IR}" "ei \<in> ir_rest"
    using assms(3) by auto
  have s: "st j \<in> insert SHIFT_DR rests - {PAUSE_IR, EXIT1_IR}" "st j \<noteq> SHIFT_DR" using h(5) by (auto simp: rest_defs)
  have l: "n \<le> 8 * length (parse_hex h ((n + 7) div 8) False)" by (simp add: parse_hex_def)
  from shiftIR_port [OF assms(1) s(1) h(6,3) l] s(2) obtain j' where
    j': "ju_shiftIR u (parse_hex h ((n + 7) div 8) False) n ei j = Inr j'" "ok j'" "st j' = ei"
      "log j' = log j @ [IR_scan (ir_pre @ hex_bits h n @ ir_post)]"
    using bits_of_parse_hex [OF h(2), of n "(n + 7) div 8"] by (auto simp: finish_def)
  from handle_SIR [OF h(1-4) assms(2), of u junk setfreq] j' obtain sv' where
    "player_ok ei ed sv'" "handle_instruction u junk setfreq (cmd_words (C_SIR n h)) sv j = Inr (sv', j')" by auto
  then show ?thesis using j'(2-4) assms(3)
    by (intro exI [of _ sv'] exI [of _ j'] exI [of _ ei] exI [of _ ed]) (simp del: cmd_words.simps)
qed

lemma scans_SDR:
  assumes "ok j" "player_ok ei ed sv" "playable (st j) ei ed (C_SDR n h # cs)"
  shows "\<exists>sv' j' ei' ed'. handle_instruction u junk setfreq (cmd_words (C_SDR n h)) sv j = Inr (sv', j') \<and> ok j' \<and> player_ok ei' ed' sv' \<and>
    playable (st j') ei' ed' cs \<and> log j' @ svf_scans ir_pre ir_post dr_pre dr_post (st j') ei' ed' cs =
      log j @ svf_scans ir_pre ir_post dr_pre dr_post (st j) ei ed (C_SDR n h # cs)"
proof -
  have h: "h \<noteq> []" "list_all (\<lambda>c. hex_val c \<noteq> None) h" "0 < n" "n < 2 ^ 31" "st j \<in> rests - {PAUSE_DR, EXIT1_DR}" "ed \<in> dr_rest"
    using assms(3) by auto
  have s: "st j \<in> rests - {PAUSE_DR, EXIT1_DR} \<or> st j = SHIFT_DR" "ed \<in> insert SHIFT_DR dr_rest" "st j \<noteq> SHIFT_DR" "ed \<noteq> SHIFT_DR"
    using h(5,6) by (auto simp: rest_defs)
  have l: "n \<le> 8 * length (parse_hex h ((n + 7) div 8) False)" by (simp add: parse_hex_def)
  from shiftDR_port [OF assms(1) s(1,2) h(3) l, of None] s(3,4) obtain rx j' where
    j': "ju_shiftDR u (Some (parse_hex h ((n + 7) div 8) False)) None n ed j = Inr (rx, j')" "ok j'" "st j' = ed"
      "log j' = log j @ [DR_scan (dr_pre @ hex_bits h n @ dr_post)]"
    using bits_of_parse_hex [OF h(2), of n "(n + 7) div 8"] by auto
  from handle_SDR [OF h(1-4) assms(2), of u junk setfreq] j' obtain sv' where
    "player_ok ei ed sv'" "handle_instruction u junk setfreq (cmd_words (C_SDR n h)) sv j = Inr (sv', j')" by auto
  then show ?thesis using j'(2-4) assms(3)
    by (intro exI [of _ sv'] exI [of _ j'] exI [of _ ei] exI [of _ ed]) (simp del: cmd_words.simps)
qed

lemma scans_RUNTEST:
  assumes "ok j" "player_ok ei ed sv" "playable (st j) ei ed (C_RUNTEST n # cs)"
  shows "\<exists>sv' j' ei' ed'. handle_instruction u junk setfreq (cmd_words (C_RUNTEST n)) sv j = Inr (sv', j') \<and> ok j' \<and> player_ok ei' ed' sv' \<and>
    playable (st j') ei' ed' cs \<and> log j' @ svf_scans ir_pre ir_post dr_pre dr_post (st j') ei' ed' cs =
      log j @ svf_scans ir_pre ir_post dr_pre dr_post (st j) ei ed (C_RUNTEST n # cs)"
proof -
  have n: "n < 2 ^ 31" "st j \<in> insert SHIFT_DR rests" "st j \<noteq> SHIFT_DR" using assms(3) by (auto simp: rest_defs)
  from set_state_port [OF assms(1) _ n(2), of RUN_TEST_IDLE] n(3) obtain j1 where
    j1: "ju_set_state u RUN_TEST_IDLE j = Inr j1" "ok j1" "st j1 = RUN_TEST_IDLE" "log j1 = log j"
    by (auto simp: finish_def reset_scan_def)
  from toggleClk_port [OF j1(2,3), of n] obtain j2 where
    j2: "ju_toggleClk u n j1 = Inr j2" "ok j2" "st j2 = RUN_TEST_IDLE" "log j2 = log j1" by blast
  from flush_port [OF j2(2)] obtain j3 where j3: "ju_flush u j2 = Inr j3" "ok j3" "st j3 = st j2" "log j3 = log j2" by blast
  from set_state_port [OF j3(2), of RUN_TEST_IDLE] j2(3) j3(3) obtain j4 where
    j4: "ju_set_state u RUN_TEST_IDLE j3 = Inr j4" "ok j4" "st j4 = RUN_TEST_IDLE" "log j4 = log j3"
    by (auto simp: finish_def reset_scan_def rest_defs)
  show ?thesis using handle_RUNTEST [OF n(1) assms(2), of u junk setfreq j] j1 j2 j3 j4 assms(2,3)
    by (intro exI [of _ sv] exI [of _ j4] exI [of _ ei] exI [of _ ed]) (simp del: cmd_words.simps)
qed

lemma scans_ENDIR:
  assumes "ok j" "player_ok ei ed sv" "playable (st j) ei ed (C_ENDIR e # cs)"
  shows "\<exists>sv' j' ei' ed'. handle_instruction u junk setfreq (cmd_words (C_ENDIR e)) sv j = Inr (sv', j') \<and> ok j' \<and> player_ok ei' ed' sv' \<and>
    playable (st j') ei' ed' cs \<and> log j' @ svf_scans ir_pre ir_post dr_pre dr_post (st j') ei' ed' cs =
      log j @ svf_scans ir_pre ir_post dr_pre dr_post (st j) ei ed (C_ENDIR e # cs)"
proof -
  show ?thesis using assms
    by (intro exI [of _ "sv\<lparr>sv_endir := state_named e\<rparr>"] exI [of _ j] exI [of _ "state_named e"] exI [of _ ed])
      (simp add: handle_instruction_def word_at_pos_def player_ok_def)
qed

lemma scans_ENDDR:
  assumes "ok j" "player_ok ei ed sv" "playable (st j) ei ed (C_ENDDR e # cs)"
  shows "\<exists>sv' j' ei' ed'. handle_instruction u junk setfreq (cmd_words (C_ENDDR e)) sv j = Inr (sv', j') \<and> ok j' \<and> player_ok ei' ed' sv' \<and>
    playable (st j') ei' ed' cs \<and> log j' @ svf_scans ir_pre ir_post dr_pre dr_post (st j') ei' ed' cs =
      log j @ svf_scans ir_pre ir_post dr_pre dr_post (st j) ei ed (C_ENDDR e # cs)"
proof -
  show ?thesis using assms
    by (intro exI [of _ "sv\<lparr>sv_enddr := state_named e\<rparr>"] exI [of _ j] exI [of _ ei] exI [of _ "state_named e"])
      (simp add: handle_instruction_def word_at_pos_def player_ok_def)
qed

lemma scans_STATE:
  assumes "ok j" "player_ok ei ed sv" "playable (st j) ei ed (C_STATE n # cs)"
  shows "\<exists>sv' j' ei' ed'. handle_instruction u junk setfreq (cmd_words (C_STATE n)) sv j = Inr (sv', j') \<and> ok j' \<and> player_ok ei' ed' sv' \<and>
    playable (st j') ei' ed' cs \<and> log j' @ svf_scans ir_pre ir_post dr_pre dr_post (st j') ei' ed' cs =
      log j @ svf_scans ir_pre ir_post dr_pre dr_post (st j) ei ed (C_STATE n # cs)"
proof -
  have n: "n = ''IDLE'' \<or> n = ''RESET''" "st j \<in> rests" using assms(3) by auto
  from n(1) have s: "state_named n \<in> {RUN_TEST_IDLE, TEST_LOGIC_RESET}"
    by (elim disjE) (simp_all add: state_named_def fsm_state_def)
  have "SHIFT_DR \<notin> rests" by (simp add: rest_defs)
  with n(2) have s': "st j \<in> insert SHIFT_DR rests" "st j \<noteq> SHIFT_DR" by auto
  from set_state_port [OF assms(1) s s'(1)] s'(2) obtain j' where
    j': "ju_set_state u (state_named n) j = Inr j'" "ok j'" "st j' = state_named n" "log j' = log j @ reset_scan (st j) (state_named n)"
    unfolding finish_def by auto
  have "handle_instruction u junk setfreq (cmd_words (C_STATE n)) sv j = Inr (sv, j')"
    by (simp add: handle_instruction_def word_at_pos_def j'(1))
  moreover have "playable (st j') ei ed cs" using assms(3) j'(3) by simp
  moreover have "log j' @ svf_scans ir_pre ir_post dr_pre dr_post (st j') ei ed cs =
      log j @ svf_scans ir_pre ir_post dr_pre dr_post (st j) ei ed (C_STATE n # cs)" using j'(3,4) by simp
  ultimately show ?thesis using j'(2) assms(2) by blast
qed

lemma svf_cmd_scans:
  assumes "ok j" "player_ok ei ed sv" "playable (st j) ei ed (c # cs)"
  shows "\<exists>sv' j' ei' ed'. handle_instruction u junk setfreq (cmd_words c) sv j = Inr (sv', j') \<and> ok j' \<and> player_ok ei' ed' sv' \<and>
    playable (st j') ei' ed' cs \<and> log j' @ svf_scans ir_pre ir_post dr_pre dr_post (st j') ei' ed' cs =
      log j @ svf_scans ir_pre ir_post dr_pre dr_post (st j) ei ed (c # cs)"
  using assms by (cases c) (blast intro: scans_SIR scans_SDR scans_RUNTEST scans_ENDIR scans_ENDDR scans_STATE)+

lemma svf_lines_scans:
  assumes "ok j" "player_ok ei ed sv" "playable (st j) ei ed cs"
  shows "\<exists>sv' j'. svf_lines u junk setfreq (map (\<lambda>c. unwords (cmd_words c) @ '';'') cs) [] sv j = Inr (sv', j') \<and> ok j' \<and>
    log j' = log j @ svf_scans ir_pre ir_post dr_pre dr_post (st j) ei ed cs"
  using assms
proof (induction cs arbitrary: j ei ed sv)
  case (Cons c cs)
  from svf_cmd_scans [OF Cons.prems, of junk setfreq] obtain sv1 j1 ei' ed' where
    c: "handle_instruction u junk setfreq (cmd_words c) sv j = Inr (sv1, j1)" "ok j1" "player_ok ei' ed' sv1" "playable (st j1) ei' ed' cs"
      "log j1 @ svf_scans ir_pre ir_post dr_pre dr_post (st j1) ei' ed' cs =
        log j @ svf_scans ir_pre ir_post dr_pre dr_post (st j) ei ed (c # cs)" by blast
  from Cons.IH [OF c(2-4)] c(1,5) cmd_line [OF Cons.prems(3), of u junk setfreq sv j] show ?case
    by (auto simp del: svf_scans.simps cmd_words.simps)
qed simp

lemma svf_parse_scans:
  assumes "ok j" "player_ok ei ed sv" "playable (st j) ei ed cs"
  shows "\<exists>sv' j'. svf_parse u junk setfreq (Some (svf_text cs)) sv j = Inr (sv', j') \<and> ok j' \<and>
    log j' = log j @ svf_scans ir_pre ir_post dr_pre dr_post (st j) ei ed cs"
  using svf_lines_scans [OF assms] playable_text [OF assms(3)] by (simp add: svf_parse_def)

end

subsection \<open>The check of what comes back\<close>

lemma byte_zero_iff: "(w :: u8) = 0 \<longleftrightarrow> (\<forall>b < 8. \<not> bit w b)"
  by (auto intro!: bit_word_eqI)

lemma all_bits_iff: "(\<forall>i < k. \<forall>b < 8. P (8 * i + b)) \<longleftrightarrow> (\<forall>i < 8 * k. P (i :: nat))"
proof
  assume a: "\<forall>i < k. \<forall>b < 8. P (8 * i + b)"
  show "\<forall>i < 8 * k. P i"
  proof (intro allI impI)
    fix i assume "i < 8 * k"
    then have "i div 8 < k" "i mod 8 < 8" by auto
    with a have "P (8 * (i div 8) + i mod 8)" by blast
    then show "P i" by simp
  qed
next
  assume a: "\<forall>i < 8 * k. P i"
  show "\<forall>i < k. \<forall>b < 8. P (8 * i + b)" using a by auto
qed

lemma tdo_differs_iff:
  assumes "list_all (\<lambda>c. hex_val c \<noteq> None) (xy_tdo t)" "list_all (\<lambda>c. hex_val c \<noteq> None) (xy_mask t)" "xy_mask t \<noteq> []"
  shows "tdo_differs t k rx \<longleftrightarrow> \<not> (\<forall>i < 8 * k. bit (hex_number (hex_digits (xy_mask t))) i \<longrightarrow>
    nth_bit rx i = bit (hex_number (hex_digits (xy_tdo t))) i)"
proof -
  have b: "bit (parse_hex h k False ! i) b = bit (hex_number (hex_digits h)) (8 * i + b)"
    if "list_all (\<lambda>c. hex_val c \<noteq> None) h" "i < k" "b < 8" for h i b
    using nth_bit_parse_hex [OF that(1), of "8 * i + b" k] that(2,3) by (simp add: nth_bit_def)
  have "tdo_differs t k rx \<longleftrightarrow> \<not> (\<forall>i < k. \<forall>b < 8. bit (hex_number (hex_digits (xy_mask t))) (8 * i + b) \<longrightarrow>
      nth_bit rx (8 * i + b) = bit (hex_number (hex_digits (xy_tdo t))) (8 * i + b))"
    unfolding tdo_differs_def list_ex_iff byte_zero_iff using assms(3)
    by (auto simp: bit_and_iff bit_xor_iff b [OF assms(1)] b [OF assms(2)] nth_bit_def)
  also have "\<dots> \<longleftrightarrow> \<not> (\<forall>i < 8 * k. bit (hex_number (hex_digits (xy_mask t))) i \<longrightarrow>
      nth_bit rx i = bit (hex_number (hex_digits (xy_tdo t))) i)"
    by (simp only: all_bits_iff [of k "\<lambda>i. bit (hex_number (hex_digits (xy_mask t))) i \<longrightarrow>
      nth_bit rx i = bit (hex_number (hex_digits (xy_tdo t))) i"])
  finally show ?thesis .
qed

lemma bits_of_write_buffer:
  assumes "list_all (\<lambda>c. hex_val c \<noteq> None) (xy_tdi t)" "list_all (\<lambda>c. hex_val c \<noteq> None) (xy_smask t)" "xy_smask t \<noteq> []" "n \<le> 8 * k"
  shows "bits_of (write_buffer t k) n = map2 (\<and>) (hex_bits (xy_tdi t) n) (hex_bits (xy_smask t) n)"
proof (rule nth_equalityI)
  fix i assume "i < length (bits_of (write_buffer t k) n)"
  then have i: "i < n" by simp
  then have "i < 8 * k" "i div 8 < k" using assms(4) by auto
  then have "nth_bit (write_buffer t k) i = (nth_bit (parse_hex (xy_tdi t) k False) i \<and> nth_bit (parse_hex (xy_smask t) k False) i)"
    using assms(3) by (simp add: write_buffer_def nth_bit_def parse_hex_def bit_and_iff)
  then show "bits_of (write_buffer t k) n ! i = map2 (\<and>) (hex_bits (xy_tdi t) n) (hex_bits (xy_smask t) n) ! i"
    using i \<open>i < 8 * k\<close> nth_bit_parse_hex [OF assms(1)] nth_bit_parse_hex [OF assms(2)] by (simp add: hex_bits_def)
qed (simp add: hex_bits_def)

text \<open>
  C20: a scan instruction with all its fields.  The bits that are shifted are those of the number \<open>TDI\<close> where \<open>SMASK\<close> has
  ones, and zeros elsewhere; the instruction fails exactly if what comes back differs from the number \<open>TDO\<close> in a bit in
  which \<open>MASK\<close> has a one.
\<close>

theorem svf_scan_checked:
  assumes "unat (xy_len t) = n" "0 < n" "n < 2 ^ 31" "k = (n + 7) div 8"
    and "\<forall>h \<in> {xy_tdi t, xy_smask t, xy_tdo t, xy_mask t}. h \<noteq> [] \<and> list_all (\<lambda>c. hex_val c \<noteq> None) h"
    and "ju_shiftDR u (Some (write_buffer t k)) (Some ((junk k)[k - 1 := 0])) n e j = Inr (Some rx, j')"
  shows "bits_of (write_buffer t k) n = map2 (\<and>) (hex_bits (xy_tdi t) n) (hex_bits (xy_smask t) n) \<and>
    scan_XYR u junk False e t j =
      (if \<forall>i < 8 * k. bit (hex_number (hex_digits (xy_mask t))) i \<longrightarrow> nth_bit rx i = bit (hex_number (hex_digits (xy_tdo t))) i
       then Inr j' else Inl Std_exception)"
proof
  show "bits_of (write_buffer t k) n = map2 (\<and>) (hex_bits (xy_tdi t) n) (hex_bits (xy_smask t) n)"
    using assms(4,5) by (intro bits_of_write_buffer) auto
  have "xy_len t = of_nat n" unfolding assms(1) [symmetric] by simp
  then have k: "unat ((xy_len t + 7) div 8) = k" using bytes_of_len [OF assms(3)] assms(4) by simp
  have "k \<noteq> 0" "\<not> 2 ^ 31 \<le> n" using assms(2-4) by simp_all
  then show "scan_XYR u junk False e t j =
      (if \<forall>i < 8 * k. bit (hex_number (hex_digits (xy_mask t))) i \<longrightarrow> nth_bit rx i = bit (hex_number (hex_digits (xy_tdo t))) i
       then Inr j' else Inl Std_exception)"
    using assms(5,6) tdo_differs_iff [of t k rx] by (simp add: scan_XYR_def Let_def k assms(1))
qed

definition demo_xyr :: svf_XYR where
  "demo_xyr = \<lparr>xy_len = 10, xy_tdo = ''155'', xy_tdi = ''2A5'', xy_mask = ''0F0'', xy_smask = ''3FF''\<rparr>"

definition loop_user :: "bytes \<Rightarrow> unit jtag_user" where
  "loop_user r = \<lparr>ju_set_state = (\<lambda>_. Inr), ju_go_test_logic_reset = Inr, ju_shiftIR = (\<lambda>_ _ _. Inr),
     ju_shiftDR = (\<lambda>_ _ _ _ j. Inr (Some r, j)), ju_toggleClk = (\<lambda>_. Inr),
     ju_shiftIR_tdo = (\<lambda>_ _ _ _ j. Inr (Some r, j)), ju_flush = Inr\<rparr>"

lemma demo_loop: "\<forall>i < 8 * 2. bit (hex_number (hex_digits ''0F0'')) i \<longrightarrow>
    nth_bit [0x5A, 0x01] i = bit (hex_number (hex_digits ''155'')) i"
proof -
  have "list_all (\<lambda>i. bit (hex_number (hex_digits ''0F0'')) i \<longrightarrow>
      nth_bit [0x5A, 0x01] i = bit (hex_number (hex_digits ''155'')) i) [0..<16]" by code_simp
  then have a: "\<forall>i \<in> {0..<16}. bit (hex_number (hex_digits ''0F0'')) i \<longrightarrow>
      nth_bit [0x5A, 0x01] i = bit (hex_number (hex_digits ''155'')) i" unfolding list_all_iff set_upt .
  show ?thesis
  proof (intro allI)
    fix i :: nat
    have "i < 8 * 2 \<Longrightarrow> i \<in> {0..<16}" by simp
    with a show "i < 8 * 2 \<longrightarrow> bit (hex_number (hex_digits ''0F0'')) i \<longrightarrow>
        nth_bit [0x5A, 0x01] i = bit (hex_number (hex_digits ''155'')) i" by blast
  qed
qed

theorem svf_scan_checked_witness:
  "scan_XYR (loop_user [0x5A, 0x01]) (\<lambda>n. replicate n 0) False RUN_TEST_IDLE demo_xyr () = Inr ()"
proof -
  have h: "\<forall>h \<in> {xy_tdi demo_xyr, xy_smask demo_xyr, xy_tdo demo_xyr, xy_mask demo_xyr}.
      h \<noteq> [] \<and> list_all (\<lambda>c. hex_val c \<noteq> None) h"
    by (simp add: demo_xyr_def hex_val_def)
  have f: "xy_tdo demo_xyr = ''155''" "xy_mask demo_xyr = ''0F0''" "unat (xy_len demo_xyr) = 10" by (simp_all add: demo_xyr_def)
  have "ju_shiftDR (loop_user [0x5A, 0x01]) (Some (write_buffer demo_xyr 2)) (Some ((replicate 2 0)[2 - 1 := 0])) 10 RUN_TEST_IDLE () =
      Inr (Some [0x5A, 0x01], ())" (is ?run) by (simp only: loop_user_def jtag_user.select_convs)
  have n: "0 < (10 :: nat)" "(10 :: nat) < 2 ^ 31" "(2 :: nat) = (10 + 7) div 8" by simp_all
  from svf_scan_checked [of demo_xyr 10 2 "loop_user [0x5A, 0x01]" "\<lambda>n. replicate n 0", OF f(3) n h \<open>?run\<close>, THEN conjunct2]
  show ?thesis unfolding f if_P [OF demo_loop] .
qed

end
