(* ===== verification/Altera.thy ===== *)
theory Altera
  imports Jtag_Scan Bitstream_Base Part_Db
begin

unbundle bit_operations_syntax

section \<open>Intel/Altera devices (\<open>altera.cpp\<close>, \<open>device.cpp\<close>)\<close>

text \<open>
  The base class \<open>Device\<close> (choice of the file type) and the class \<open>Altera\<close> as far as it concerns
  the Cyclone devices: loading a bitstream into the configuration memory, the bridge to
  the SPI flash and the transfers over it.  The methods run on the methods of \<open>Jtag\<close> in
  \<open>jtag_user\<close>.  Parameters are the file system and the environment (\<open>host\<close>), the content of
  uninitialised arrays (\<open>junk\<close>), the period of the clock that \<open>program\<close> computes in floating
  point from the frequency of the cable, and \<open>FlashInterface::write\<close>, which \<open>program\<close> calls on
  the object itself.  The operations of the MAX 10 family are in \<open>Max10\<close>.
\<close>

subsection \<open>\<open>Device\<close>\<close>

text \<open>\<open>SPI_MODE\<close> and \<open>FLASH_MODE\<close> are the same value of the enumeration.\<close>

datatype prog_mode = NONE_MODE | SPI_MODE | MEM_MODE | READ_MODE

abbreviation FLASH_MODE :: prog_mode where "FLASH_MODE \<equiv> SPI_MODE"

datatype prog_type_t = WR_SRAM | WR_FLASH | RD_FLASH | PRG_NONE

text \<open>
  The file type: given by the user, or the extension, or what stands before \<open>.gz\<close>.  For a name
  that begins with its only dot, the position before that dot is the last position of the
  string, so that the second search finds the dot again.
\<close>

definition device_extension :: "string \<Rightarrow> string \<Rightarrow> string res" where
  "device_extension filename file_type =
     (if file_type \<noteq> [] then Inr file_type
      else if filename \<noteq> [] then
        (case last_dot filename of
           None \<Rightarrow> Inr ''raw''
         | Some k \<Rightarrow>
             let ext = drop (k + 1) filename in
             if take 2 ext = ''gz'' then
               (case (if k = 0 then Some 0 else last_dot (take k filename)) of
                  None \<Rightarrow> Inl (Runtime_error (take 255 ([CHR 0x0A] @ ''file '' @ filename @ '' is compressed'' @ [CHR 0x0A] @
                    ''but can'' @ [CHR 0x27] @ ''t determine real type'' @ [CHR 0x0A] @
                    ''please add correct extension or use --file-type'')))
                | Some k2 \<Rightarrow> substr filename (int (k2 + 1)) (int k - int k2 - 1))
             else Inr ext)
      else Inr [])"

subsection \<open>The object\<close>

datatype altera_family_t = MAX2_FAMILY | MAX10_FAMILY | CYCLONE5_FAMILY | CYCLONE10_FAMILY | CYCLONE_MISC | UNKNOWN_FAMILY

record altera =
  al_filename :: string
  al_file_extension :: string
  al_mode :: prog_mode
  al_verify :: bool
  al_skip_load_bridge :: bool
  al_skip_reset :: bool
  al_device_package :: string
  al_spiOverJtagPath :: string
  al_vir_addr :: u32
  al_vir_length :: nat
  al_clk_period :: nat
  al_fpga_family :: altera_family_t
  al_idcode :: u32
  al_flash_sectors :: string

definition altera_mode :: "prog_type_t \<Rightarrow> altera_family_t \<Rightarrow> string \<Rightarrow> prog_mode res" where
  "altera_mode prg_type family ext =
     (if prg_type = RD_FLASH then Inr READ_MODE
      else if ext = [] then Inr NONE_MODE
      else if ext = ''svf'' then Inr MEM_MODE
      else if ext \<in> {''rpd'', ''rbf''} then Inr (if prg_type = WR_SRAM then MEM_MODE else SPI_MODE)
      else if ext = ''pof'' then Inr FLASH_MODE
      else if family = MAX10_FAMILY then Inr FLASH_MODE
      else if prg_type = WR_SRAM then Inl (Runtime_error ''Error: wrong file'')
      else Inr SPI_MODE)"

text \<open>\<open>idcode\<close> is what \<open>get_target_device_id\<close> returns; an unknown one has the empty family.\<close>

definition altera_ctor :: "u32 \<Rightarrow> string \<Rightarrow> string \<Rightarrow> prog_type_t \<Rightarrow> string \<Rightarrow> string \<Rightarrow> bool \<Rightarrow> string \<Rightarrow> bool \<Rightarrow> bool \<Rightarrow> altera res" where
  "altera_ctor idcode filename file_type prg_type package soj_path vfy sectors skip_load_bridge skip_reset =
     bindE (device_extension filename file_type) (\<lambda>ext.
       let family = (case map_of fpga_list idcode of None \<Rightarrow> [] | Some f \<Rightarrow> fm_family f);
           fam = (if family = ''MAX 10'' then MAX10_FAMILY else CYCLONE_MISC) in
       bindE (altera_mode prg_type fam ext) (\<lambda>mode.
         Inr \<lparr>al_filename = filename, al_file_extension = ext, al_mode = mode, al_verify = vfy,
           al_skip_load_bridge = skip_load_bridge, al_skip_reset = skip_reset,
           al_device_package = package, al_spiOverJtagPath = soj_path, al_vir_addr = 0x1000, al_vir_length = 14,
           al_clk_period = 1, al_fpga_family = fam, al_idcode = idcode, al_flash_sectors = sectors\<rparr>))"

abbreviation IRLENGTH :: nat where "IRLENGTH \<equiv> 10"

text \<open>\<open>ns / _clk_period\<close>\<close>

definition clocks :: "nat \<Rightarrow> altera \<Rightarrow> nat res" where
  "clocks ns al = (if al_clk_period al = 0 then Inl Undefined else Inr (ns div al_clk_period al))"

text \<open>\<open>toggleClk(ns / _clk_period)\<close>\<close>

definition toggle_ns :: "'j jtag_user \<Rightarrow> nat \<Rightarrow> altera \<Rightarrow> 'j \<Rightarrow> 'j res" where
  "toggle_ns u ns al j = bindE (clocks ns al) (\<lambda>n. ju_toggleClk u n j)"

definition altera_reset :: "'j jtag_user \<Rightarrow> 'j \<Rightarrow> 'j res" where
  "altera_reset u j =
     bindE (ju_set_state u TEST_LOGIC_RESET j) (\<lambda>j.
     bindE (ju_shiftIR u [0x01, 0x00] IRLENGTH RUN_TEST_IDLE j) (\<lambda>j.
     bindE (ju_toggleClk u 1 j) (ju_set_state u TEST_LOGIC_RESET)))"

subsection \<open>The configuration memory\<close>

text \<open>
  The bitstream in blocks of 512 bytes.  Only a block that is not complete ends the scan; the
  test for the last block is \<open>i + xfer_len > byte_length\<close>.
\<close>

function mem_blocks :: "'j jtag_user \<Rightarrow> bytes \<Rightarrow> nat \<Rightarrow> nat \<Rightarrow> 'j \<Rightarrow> 'j res" where
  "mem_blocks u data byte_length i j =
     (if i < byte_length then
        let (tx_len, tx_end) = (if i + 512 > byte_length then ((byte_length - i) * 8, EXIT1_DR) else (512 * 8, SHIFT_DR)) in
        bindE (ju_shiftDR u (Some (drop i data)) None tx_len tx_end j) (\<lambda>(_, j). mem_blocks u data byte_length (i + 512) j)
      else Inr j)"
  by pat_completeness auto
termination
  by (relation "measure (\<lambda>(u, data, n, i, j). n - i)") auto

declare mem_blocks.simps [simp del]

text \<open>An instruction, then a wait in \<open>Run-Test/Idle\<close>.\<close>

definition sir_wait :: "'j jtag_user \<Rightarrow> u16 \<Rightarrow> nat \<Rightarrow> altera \<Rightarrow> 'j \<Rightarrow> 'j res" where
  "sir_wait u ircode ns al j =
     bindE (ju_shiftIR u [byte_of ircode 0, byte_of ircode 1] IRLENGTH PAUSE_IR j) (\<lambda>j.
     bindE (ju_set_state u RUN_TEST_IDLE j) (toggle_ns u ns al))"

definition programMem :: "'j jtag_user \<Rightarrow> cbp \<Rightarrow> altera \<Rightarrow> 'j \<Rightarrow> 'j res" where
  "programMem u bs al j =
     (let byte_length = nat (cb_bit_length bs div 8) in
      bindE (sir_wait u 0x02 1000000 al j) (\<lambda>j.
      bindE (mem_blocks u (cb_bit_data bs) byte_length 0 j) (\<lambda>j.
      bindE (sir_wait u 0x04 5000 al j) (\<lambda>j.
      bindE (ju_shiftDR u (Some (replicate (864 div 8) 0)) (Some (replicate (864 div 8) 0)) 864 RUN_TEST_IDLE j) (\<lambda>(_, j).
      bindE (sir_wait u 0x03 4099645 al j) (\<lambda>j.
      bindE (ju_set_state u RUN_TEST_IDLE j) (\<lambda>j.
      bindE (ju_toggleClk u 512 j) (\<lambda>j.
      bindE (sir_wait u 0x3FF 1000000 al j) (ju_set_state u RUN_TEST_IDLE)))))))))"

subsection \<open>The bridge to the SPI flash\<close>

record host =
  h_getenv :: "string \<Rightarrow> string option"
  h_data_dir :: string
  h_has_zlib :: bool
  h_fs :: "string \<Rightarrow> string option"
  h_decompress :: "string \<Rightarrow> string option"
  h_stdin :: "string option"

text \<open>\<open>get_shell_env_var\<close> of \<open>common.cpp\<close>\<close>

definition get_shell_env_var :: "host \<Rightarrow> string \<Rightarrow> string \<Rightarrow> string" where
  "get_shell_env_var h key def_val = (case h_getenv h key of None \<Rightarrow> def_val | Some v \<Rightarrow> v)"

text \<open>\<open>RawParser bit(name, reverseOrder); bit.parse();\<close>\<close>

definition open_raw :: "host \<Rightarrow> string \<Rightarrow> bool \<Rightarrow> cbp res" where
  "open_raw h name rv = bindE (cbp_open (h_fs h) (h_decompress h) (h_stdin h) name) (\<lambda>raw. Inr (raw_parse rv raw))"

text \<open>\<open>catch (std::exception &e) { throw std::runtime_error(e.what()); }\<close>\<close>

definition rethrow :: "'a res \<Rightarrow> 'a res" where
  "rethrow m = (case m of Inl Std_exception \<Rightarrow> Inl (Runtime_error ''std::exception'') | _ \<Rightarrow> m)"

definition bridge_name :: "host \<Rightarrow> altera \<Rightarrow> string option" where
  "bridge_name h al =
     (if al_spiOverJtagPath al \<noteq> [] then Some (al_spiOverJtagPath al)
      else if al_device_package al = [] then None
      else Some (get_shell_env_var h ''OPENFPGALOADER_SOJ_DIR'' (h_data_dir h @ ''/openFPGALoader'') @
        ''/spiOverJtag_'' @ al_device_package al @ (if h_has_zlib h then ''.rbf.gz'' else ''.rbf'')))"

definition load_bridge :: "'j jtag_user \<Rightarrow> host \<Rightarrow> altera \<Rightarrow> 'j \<Rightarrow> (bool \<times> 'j) res" where
  "load_bridge u h al j = (case bridge_name h al of
     None \<Rightarrow> Inr (False, j)
   | Some name \<Rightarrow> bindE (rethrow (bindE (open_raw h name False) (\<lambda>bridge. programMem u bridge al j))) (\<lambda>j. Inr (True, j)))"

definition altera_prepare_flash_access :: "'j jtag_user \<Rightarrow> host \<Rightarrow> altera \<Rightarrow> 'j \<Rightarrow> (bool \<times> 'j) res" where
  "altera_prepare_flash_access u h al j = (if al_skip_load_bridge al then Inr (True, j) else load_bridge u h al j)"

definition altera_post_flash_access :: "'j jtag_user \<Rightarrow> altera \<Rightarrow> 'j \<Rightarrow> (bool \<times> 'j) res" where
  "altera_post_flash_access u al j =
     (if al_skip_reset al then Inr (True, j) else bindE (altera_reset u j) (\<lambda>j. Inr (True, j)))"

text \<open>The virtual JTAG registers of the bridge.\<close>

definition shiftVIR :: "'j jtag_user \<Rightarrow> u32 \<Rightarrow> altera \<Rightarrow> 'j \<Rightarrow> 'j res" where
  "shiftVIR u reg al j =
     (let len = al_vir_length al; tmp = (reg AND (push_bit len 1 - 1)) OR al_vir_addr al in
      bindE (ju_set_state u RUN_TEST_IDLE j) (\<lambda>j.
      bindE (ju_shiftIR u [0x0E, 0] IRLENGTH UPDATE_IR j) (\<lambda>j.
      bindE (ju_shiftDR u (Some (map (byte_of tmp) [0, 1, 2, 3])) None len UPDATE_DR j) (\<lambda>(_, j). Inr j))))"

definition shiftVDR :: "'j jtag_user \<Rightarrow> bytes option \<Rightarrow> bytes option \<Rightarrow> nat \<Rightarrow> tapState_t \<Rightarrow> 'j \<Rightarrow> (bytes option \<times> 'j) res" where
  "shiftVDR u tx rx len end_state j =
     bindE (ju_shiftIR u [0x0C, 0] IRLENGTH UPDATE_IR j) (ju_shiftDR u tx rx len end_state)"

text \<open>The byte that comes back one clock late, in the bits of two bytes.\<close>

definition late_byte :: "u8 \<Rightarrow> u8 \<Rightarrow> u8" where
  "late_byte a b = reverseByte (drop_bit 1 a) OR (b AND 0x01)"

definition altera_spi_put :: "'j jtag_user \<Rightarrow> (nat \<Rightarrow> bytes) \<Rightarrow> u8 \<Rightarrow> bytes option \<Rightarrow> bool \<Rightarrow> nat \<Rightarrow> altera \<Rightarrow> 'j
    \<Rightarrow> (int \<times> bytes \<times> 'j) res" where
  "altera_spi_put u junk cmd tx rx len al j =
     (let xfer_len = len + 1 + (if rx then 1 else 0) in
      if (case tx of None \<Rightarrow> False | Some t \<Rightarrow> length t < len) then Inl Out_of_bounds
      else
        let jtx = (case tx of None \<Rightarrow> junk xfer_len | Some t \<Rightarrow> map reverseByte (take len t) @ drop len (junk xfer_len)) in
        bindE (shiftVIR u (ucast (reverseByte cmd)) al j) (\<lambda>j.
        bindE (shiftVDR u (Some jtx) (if rx then Some (junk xfer_len) else None) (8 * xfer_len) UPDATE_DR j) (\<lambda>(jrx, j).
          Inr (0, case jrx of None \<Rightarrow> [] | Some r \<Rightarrow> map (\<lambda>i. late_byte (r ! (i + 1)) (r ! (i + 2))) [0..<len], j))))"

text \<open>The overload whose first byte is the command.\<close>

definition altera_spi_put_raw :: "'j jtag_user \<Rightarrow> (nat \<Rightarrow> bytes) \<Rightarrow> bytes \<Rightarrow> bool \<Rightarrow> nat \<Rightarrow> altera \<Rightarrow> 'j \<Rightarrow> (int \<times> bytes \<times> 'j) res" where
  "altera_spi_put_raw u junk tx rx len al j = (case tx of
     [] \<Rightarrow> Inl Out_of_bounds | c # t \<Rightarrow> altera_spi_put u junk c (Some t) rx (len - 1) al j)"

text \<open>
  The polling loop; \<open>left\<close> counts down to the pass at which \<open>count == timeout\<close>.  The condition is not
  looked at in that pass.
\<close>

fun wait_loop :: "'j jtag_user \<Rightarrow> nat \<Rightarrow> bool \<Rightarrow> bytes \<Rightarrow> u8 \<Rightarrow> u8 \<Rightarrow> 'j \<Rightarrow> (bool \<times> 'j) res" where
  "wait_loop u 0 first rx msk cond j = Inr (True, j)"
| "wait_loop u (Suc left) first rx msk cond j =
     bindE (if first then shiftVDR u None (Some rx) 24 SHIFT_DR j else ju_shiftDR u None (Some rx) 16 SHIFT_DR j) (\<lambda>(rx, j).
       let r = (case rx of None \<Rightarrow> [] | Some r \<Rightarrow> r);
           tmp = (if first then late_byte (r ! 1) (r ! 2) else late_byte (r ! 0) (r ! 1)) in
       if left = 0 then Inr (True, j)
       else if tmp AND msk \<noteq> cond then wait_loop u left False r msk cond j
       else Inr (False, j))"

definition altera_spi_wait :: "'j jtag_user \<Rightarrow> (nat \<Rightarrow> bytes) \<Rightarrow> u8 \<Rightarrow> u8 \<Rightarrow> u8 \<Rightarrow> nat \<Rightarrow> altera \<Rightarrow> 'j \<Rightarrow> (int \<times> 'j) res" where
  "altera_spi_wait u junk cmd msk cond timeout al j =
     bindE (shiftVIR u (ucast (reverseByte cmd)) al j) (\<lambda>j.
     bindE (wait_loop u (if timeout = 0 then 2 ^ 32 else timeout) True (junk 3) msk cond j) (\<lambda>(late, j).
     bindE (ju_set_state u UPDATE_DR j) (\<lambda>j. Inr (if late then -1 else 0, j))))"

subsection \<open>The entry points\<close>

definition altera_idCode :: "'j jtag_user \<Rightarrow> 'j \<Rightarrow> (u32 \<times> 'j) res" where
  "altera_idCode u j =
     bindE (ju_go_test_logic_reset u j) (\<lambda>j.
     bindE (ju_shiftIR u [6, 0, 0, 0] IRLENGTH RUN_TEST_IDLE j) (\<lambda>j.
     bindE (ju_shiftDR u (Some [0, 0, 0, 0]) (Some [0, 0, 0, 0]) 32 RUN_TEST_IDLE j) (\<lambda>(rx, j).
       let r = (case rx of None \<Rightarrow> [] | Some r \<Rightarrow> r) in
       Inr (ucast (r ! 0) OR push_bit 8 (ucast (r ! 1)) OR push_bit 16 (ucast (r ! 2)) OR push_bit 24 (ucast (r ! 3)), j))))"

text \<open>
  \<open>program\<close> for the families other than MAX 10; \<open>max10\<close> stands for the call of \<open>max10_program\<close>, and
  \<open>flash_write\<close> for \<open>FlashInterface::write\<close> on this object.  The object is returned with its
  clock period.
\<close>

definition altera_program :: "'j jtag_user \<Rightarrow> host \<Rightarrow> (altera \<Rightarrow> 'j \<Rightarrow> 'j res) \<Rightarrow> (nat \<Rightarrow> bytes \<Rightarrow> nat \<Rightarrow> bool \<Rightarrow> 'j \<Rightarrow> (bool \<times> 'j) res) \<Rightarrow>
    nat \<Rightarrow> nat \<Rightarrow> bool \<Rightarrow> altera \<Rightarrow> 'j \<Rightarrow> (altera \<times> 'j) res" where
  "altera_program u h max10 flash_write period offset unprotect al j =
     (if al_mode al = NONE_MODE then Inr (al, j)
      else
        let al = al\<lparr>al_clk_period := period\<rparr> in
        if al_fpga_family al = MAX10_FAMILY then bindE (max10 al j) (\<lambda>j. Inr (al, j))
        else if al_mode al = MEM_MODE then
          bindE (open_raw h (al_filename al) False) (\<lambda>bs. bindE (programMem u bs al j) (\<lambda>j. Inr (al, j)))
        else if al_mode al = SPI_MODE then
          bindE (open_raw h (al_filename al) (al_file_extension al \<in> {''rbf'', ''rpd''})) (\<lambda>bs.
          bindE (flash_write offset (cb_bit_data bs) (nat (cb_bit_length bs div 8)) unprotect j) (\<lambda>(ok, j).
            if ok then Inr (al, j) else Inl (Runtime_error ''Fail to write data'')))
        else Inr (al, j))"

subsection \<open>What the methods scan\<close>

lemma rest_facts [simp]:
  "RUN_TEST_IDLE \<in> rests" "PAUSE_IR \<in> rests" "UPDATE_IR \<in> rests" "UPDATE_DR \<in> rests" "EXIT1_DR \<in> rests" "TEST_LOGIC_RESET \<in> rests"
  "RUN_TEST_IDLE \<in> ir_rest" "PAUSE_IR \<in> ir_rest" "UPDATE_IR \<in> ir_rest"
  "RUN_TEST_IDLE \<in> dr_rest" "EXIT1_DR \<in> dr_rest" "UPDATE_DR \<in> dr_rest" "SHIFT_DR \<notin> rests"
  by (simp_all add: rest_defs)

lemma finish_rest [simp]: "s \<noteq> SHIFT_DR \<Longrightarrow> finish s bits xs \<longleftrightarrow> xs = []"
  by (simp add: finish_def)

text \<open>The ten bits of an instruction.\<close>

definition ir_code :: "u16 \<Rightarrow> bool list" where
  "ir_code c = map (bit c) [0..<IRLENGTH]"

lemma bits_of_ir_code: "bits_of [byte_of c 0, byte_of c 1] IRLENGTH = ir_code c"
proof (rule nth_equalityI)
  fix i assume "i < length (bits_of [byte_of c 0, byte_of c 1] IRLENGTH)"
  then have i: "i < 10" and "i div 8 = 0 \<or> i div 8 = 1" by auto
  then have "nth_bit [byte_of c 0, byte_of c 1] i = bit (byte_of c (i div 8)) (i mod 8)" by (auto simp: nth_bit_def)
  then show "bits_of [byte_of c 0, byte_of c 1] IRLENGTH ! i = ir_code c ! i"
    using i by (simp add: ir_code_def bit_byte_of)
qed (simp add: ir_code_def)

lemma bits_of_drop: "i + k \<le> length data \<Longrightarrow> bits_of data (8 * i) @ bits_of (drop i data) (8 * k) = bits_of data (8 * (i + k))"
proof (rule nth_equalityI)
  fix x assume k: "i + k \<le> length data" and x: "x < length (bits_of data (8 * i) @ bits_of (drop i data) (8 * k))"
  show "(bits_of data (8 * i) @ bits_of (drop i data) (8 * k)) ! x = bits_of data (8 * (i + k)) ! x"
  proof (cases "x < 8 * i")
    case False
    then obtain y where y: "x = y + i * 8" using le_Suc_ex by (metis add.commute linorder_not_le mult.commute)
    then have "x div 8 = y div 8 + i" "x mod 8 = y mod 8" "y < 8 * k" using x by simp_all
    moreover have "drop i data ! (y div 8) = data ! (i + y div 8)" using k calculation(3) by (intro nth_drop) auto
    ultimately show ?thesis using y x by (simp add: nth_append nth_bit_def add.commute)
  qed (use x in \<open>simp add: nth_append\<close>)
qed simp

text \<open>
  The scan of the whole bitstream between the bits for the other devices, as it is once the next
  instruction has been shifted: a length that is a multiple of the block leaves the scan
  open, so that one more bit is shifted in place of the bits behind it.
\<close>

definition bitstream_scan :: "bool list \<Rightarrow> bool list \<Rightarrow> bytes \<Rightarrow> bool list \<Rightarrow> bool" where
  "bitstream_scan pre post data bits \<longleftrightarrow>
     (if length data mod 512 = 0 then \<exists>b. bits = pre @ bits_of data (8 * length data) @ [b]
      else bits = pre @ bits_of data (8 * length data) @ post)"

text \<open>A byte on the SPI bus: most significant bit first.\<close>

definition msb_first :: "bytes \<Rightarrow> bool list" where
  "msb_first bs = concat (map (\<lambda>b. map (\<lambda>i. bit b (7 - i)) [0..<8]) bs)"

lemma length_msb_first [simp]: "length (msb_first bs) = 8 * length bs"
  by (induction bs) (simp_all add: msb_first_def)

lemma msb_first_nth: "i < length bs \<Longrightarrow> k < 8 \<Longrightarrow> msb_first bs ! (8 * i + k) = bit (bs ! i) (7 - k)"
proof (induction bs arbitrary: i)
  case (Cons b bs)
  have c: "msb_first (b # bs) = map (\<lambda>i. bit b (7 - i)) [0..<8] @ msb_first bs" by (simp add: msb_first_def)
  show ?case
  proof (cases i)
    case 0
    then show ?thesis using Cons.prems(2) unfolding c by (simp add: nth_append)
  next
    case (Suc i')
    then show ?thesis using Cons.IH [of i'] Cons.prems unfolding c by (simp add: nth_append)
  qed
qed simp

lemma bits_of_Cons: "bits_of (b # bs) (8 + n) = map (bit b) [0..<8] @ bits_of bs n"
proof (rule nth_equalityI)
  fix i assume i: "i < length (bits_of (b # bs) (8 + n))"
  show "bits_of (b # bs) (8 + n) ! i = (map (bit b) [0..<8] @ bits_of bs n) ! i"
  proof (cases "i < 8")
    case False
    then obtain k where "i = k + 8" using le_Suc_ex by (metis add.commute linorder_not_le)
    moreover have "(k + 8) div 8 = Suc (k div 8)" by simp
    ultimately show ?thesis using i by (simp add: nth_append nth_bit_def)
  qed (simp add: nth_append nth_bit_def)
qed simp

lemma bits_of_mirrored: "bits_of (map reverseByte bs @ cs) (8 * length bs + n) = msb_first bs @ bits_of cs n"
proof (induction bs)
  case (Cons b bs)
  have "map (bit (reverseByte b)) [0..<8] = map (\<lambda>i. bit b (7 - i)) [0..<8]" by (simp add: bit_reverseByte)
  then show ?case using Cons bits_of_Cons [of "reverseByte b" "map reverseByte bs @ cs" "8 * length bs + n"]
    by (simp add: msb_first_def add.assoc)
qed (simp add: msb_first_def)

lemma bits_of_word:
  fixes w :: u32
  assumes "n \<le> 32"
  shows "bits_of (map (byte_of w) [0, 1, 2, 3]) n = map (bit w) [0..<n]"
proof (rule nth_equalityI)
  fix i assume "i < length (bits_of (map (byte_of w) [0, 1, 2, 3]) n)"
  then have i: "i < n" "i div 8 < 4" using assms by auto
  have "map (byte_of w) [0, 1, 2, 3] ! k = byte_of w k" if "k < 4" for k
    using that by (auto simp: numeral_eq_Suc less_Suc_eq)
  then show "bits_of (map (byte_of w) [0, 1, 2, 3]) n ! i = map (bit w) [0..<n] ! i"
    using i by (simp add: nth_bit_def bit_byte_of)
qed simp

text \<open>The virtual instruction: the command, most significant bit first, and the address 0x1000.\<close>

definition vir_bits :: "u8 \<Rightarrow> bool list" where
  "vir_bits cmd = msb_first [cmd] @ [False, False, False, False, True, False]"

lemma vir_word:
  "map (bit ((ucast (reverseByte cmd) AND (push_bit 14 1 - 1)) OR 0x1000 :: u32)) [0..<14] = vir_bits cmd"
proof (rule nth_equalityI)
  let ?w = "(ucast (reverseByte cmd) AND (push_bit 14 1 - 1)) OR 0x1000 :: u32"
  fix i assume "i < length (map (bit ?w) [0..<14])"
  then have i: "i < 14" by simp
  have w: "(0x1000 :: u32) = push_bit 12 1" by simp
  have c: "bit (0x1000 :: u32) i \<longleftrightarrow> i = 12" unfolding w bit_push_bit_iff bit_1_iff using i by auto
  have "push_bit 14 1 - 1 = (mask 14 :: u32)" by (simp add: mask_eq_exp_minus_1)
  then have "bit ?w i \<longleftrightarrow> i < 8 \<and> bit cmd (7 - i) \<or> i = 12"
    using i c by (simp only: bit_or_iff bit_and_iff bit_mask_iff bit_ucast_iff bit_reverseByte) auto
  moreover have "vir_bits cmd ! i \<longleftrightarrow> i < 8 \<and> bit cmd (7 - i) \<or> i = 12"
  proof (cases "i < 8")
    case False
    then have "i \<in> {8, 9, 10, 11, 12, 13}" using i by auto
    then show ?thesis using False by (auto simp: vir_bits_def msb_first_def nth_append)
  qed (auto simp: vir_bits_def msb_first_def nth_append)
  ultimately show "map (bit ?w) [0..<14] ! i = vir_bits cmd ! i" using i by simp
qed (simp add: vir_bits_def msb_first_def)

lemma user_codes: "bits_of [0x0E, 0] IRLENGTH = ir_code 0x0E" "bits_of [0x0C, 0] IRLENGTH = ir_code 0x0C"
  using bits_of_ir_code [of "0x0E"] bits_of_ir_code [of "0x0C"] by (simp_all add: byte_of_def)

context scan_port
begin

lemma sir_wait_scans:
  assumes "ok j" "st j \<in> insert SHIFT_DR rests - {PAUSE_IR, EXIT1_IR}" "0 < al_clk_period al"
  shows "\<exists>j' xs. sir_wait u c ns al j = Inr j' \<and> ok j' \<and> st j' = RUN_TEST_IDLE \<and> finish (st j) (opn j) xs \<and>
    log j' = log j @ xs @ [IR_scan (ir_pre @ ir_code c @ ir_post)]"
proof -
  from shiftIR_port [OF assms(1,2), of PAUSE_IR IRLENGTH "[byte_of c 0, byte_of c 1]"] obtain j1 xs where
    1: "ju_shiftIR u [byte_of c 0, byte_of c 1] IRLENGTH PAUSE_IR j = Inr j1" "ok j1" "st j1 = PAUSE_IR"
      "finish (st j) (opn j) xs" "log j1 = log j @ xs @ [IR_scan (ir_pre @ ir_code c @ ir_post)]"
    unfolding bits_of_ir_code by auto
  from set_state_port [OF 1(2), of RUN_TEST_IDLE] 1(3) obtain j2 where
    2: "ju_set_state u RUN_TEST_IDLE j1 = Inr j2" "ok j2" "st j2 = RUN_TEST_IDLE" "log j2 = log j1"
    by (auto simp: reset_scan_def)
  from toggleClk_port [OF 2(2,3), of "ns div al_clk_period al"] obtain j3 where
    3: "ju_toggleClk u (ns div al_clk_period al) j2 = Inr j3" "ok j3" "st j3 = RUN_TEST_IDLE" "log j3 = log j2" by blast
  show ?thesis using 1 2 3 assms(3) by (auto simp: sir_wait_def toggle_ns_def clocks_def)
qed

text \<open>The blocks of the bitstream make one data scan, which a last complete block leaves open.\<close>

lemma mem_blocks_scans:
  assumes "ok j" "n \<le> length data" "i \<le> n"
    and "i = 0 \<and> i < n \<and> st j = RUN_TEST_IDLE \<or> st j = SHIFT_DR \<and> opn j = dr_pre @ bits_of data (8 * i)"
  shows "\<exists>j'. mem_blocks u data n i j = Inr j' \<and> ok j' \<and>
    (if (n - i) mod 512 = 0 then st j' = SHIFT_DR \<and> opn j' = dr_pre @ bits_of data (8 * n) \<and> log j' = log j
     else st j' = EXIT1_DR \<and> log j' = log j @ [DR_scan (dr_pre @ bits_of data (8 * n) @ dr_post)])"
  using assms
proof (induction "n - i" arbitrary: i j rule: less_induct)
  case less
  show ?case
  proof (cases "i < n")
    case False
    then show ?thesis using less.prems by (subst mem_blocks.simps) auto
  next
    case True
    have bits: "(if st j = SHIFT_DR then opn j else dr_pre) = dr_pre @ bits_of data (8 * i)" using less.prems(4) by auto
    have st: "st j \<in> rests - {PAUSE_DR, EXIT1_DR} \<or> st j = SHIFT_DR" using less.prems(4) by auto
    show ?thesis
    proof (cases "i + 512 > n")
      case last: True
      have fits: "n - i \<le> length data - i" using less.prems(2) by (rule diff_le_mono)
      from shiftDR_port [OF less.prems(1) st, of EXIT1_DR "(n - i) * 8" "drop i data" None] True fits obtain rx j1 where
        d: "ju_shiftDR u (Some (drop i data)) None ((n - i) * 8) EXIT1_DR j = Inr (rx, j1)" "ok j1" "st j1 = EXIT1_DR"
          "log j1 = log j @ [DR_scan (((dr_pre @ bits_of data (8 * i)) @ bits_of (drop i data) ((n - i) * 8)) @ dr_post)]"
        unfolding bits by auto
      have "bits_of data (8 * i) @ bits_of (drop i data) ((n - i) * 8) = bits_of data (8 * n)"
        using bits_of_drop [of i "n - i" data] True less.prems(2) by (simp add: mult.commute)
      then have "log j1 = log j @ [DR_scan (dr_pre @ bits_of data (8 * n) @ dr_post)]" using d(4) by simp
      moreover have "mem_blocks u data n (i + 512) j1 = Inr j1" using last by (subst mem_blocks.simps) simp
      then have "mem_blocks u data n i j = Inr j1" using True last d(1) by (subst mem_blocks.simps) simp
      moreover have "(n - i) mod 512 \<noteq> 0" using True last by simp
      ultimately show ?thesis using d(2,3) by auto
    next
      case False
      have fits: "512 \<le> length data - i" using False less.prems(2) by simp
      from shiftDR_port [OF less.prems(1) st, of SHIFT_DR "512 * 8" "drop i data" None] fits obtain rx j1 where
        d: "ju_shiftDR u (Some (drop i data)) None (512 * 8) SHIFT_DR j = Inr (rx, j1)" "ok j1" "st j1 = SHIFT_DR"
          "opn j1 = (dr_pre @ bits_of data (8 * i)) @ bits_of (drop i data) (8 * 512)" "log j1 = log j"
        unfolding bits by auto
      have o: "opn j1 = dr_pre @ bits_of data (8 * (i + 512))"
        using d(4) bits_of_drop [of i 512 data] False less.prems(2) by simp
      have "mem_blocks u data n i j = mem_blocks u data n (i + 512) j1"
        using True False d(1) by (subst mem_blocks.simps) simp
      moreover have "(n - (i + 512)) mod 512 = (n - i) mod 512"
        using False mod_add_self2 [of "n - (i + 512)" 512] by simp
      moreover have "n - (i + 512) < n - i" using True by simp
      from less.hyps [OF this d(2) less.prems(2)] False d(3,5) o
      have "\<exists>j'. mem_blocks u data n (i + 512) j1 = Inr j' \<and> ok j' \<and>
          (if (n - (i + 512)) mod 512 = 0 then st j' = SHIFT_DR \<and> opn j' = dr_pre @ bits_of data (8 * n) \<and> log j' = log j1
           else st j' = EXIT1_DR \<and> log j' = log j1 @ [DR_scan (dr_pre @ bits_of data (8 * n) @ dr_post)])"
        by (simp split del: if_split)
      note this [unfolded d(5)]
      ultimately show ?thesis by (simp split del: if_split)
    qed
  qed
qed

abbreviation ir :: "u16 \<Rightarrow> scan" where
  "ir c \<equiv> IR_scan (ir_pre @ ir_code c @ ir_post)"

lemma programMem_scans:
  assumes "ok j" "st j \<in> insert SHIFT_DR rests - {PAUSE_IR, EXIT1_IR, SHIFT_DR}" "0 < al_clk_period al"
    and "cb_bit_length bs = 8 * int (length (cb_bit_data bs))" "cb_bit_data bs \<noteq> []"
  shows "\<exists>j' bits. programMem u bs al j = Inr j' \<and> ok j' \<and> st j' = RUN_TEST_IDLE \<and> bitstream_scan dr_pre dr_post (cb_bit_data bs) bits \<and>
    log j' = log j @ [ir 0x002, DR_scan bits, ir 0x004, DR_scan (dr_pre @ replicate 864 False @ dr_post), ir 0x003, ir 0x3FF]"
proof -
  let ?d = "cb_bit_data bs" and ?n = "length (cb_bit_data bs)"
  have len: "nat (cb_bit_length bs div 8) = ?n" using assms(4) by simp
  from sir_wait_scans [OF assms(1) _ assms(3), of 2 1000000] assms(2) obtain j1 where
    1: "sir_wait u 2 1000000 al j = Inr j1" "ok j1" "st j1 = RUN_TEST_IDLE" "log j1 = log j @ [ir 2]" by auto
  from mem_blocks_scans [OF 1(2), of ?n ?d 0] 1(3) assms(5) obtain j2 where
    2: "mem_blocks u ?d ?n 0 j1 = Inr j2" "ok j2"
      "if ?n mod 512 = 0 then st j2 = SHIFT_DR \<and> opn j2 = dr_pre @ bits_of ?d (8 * ?n) \<and> log j2 = log j1
       else st j2 = EXIT1_DR \<and> log j2 = log j1 @ [DR_scan (dr_pre @ bits_of ?d (8 * ?n) @ dr_post)]" by auto
  have "st j2 \<in> insert SHIFT_DR rests - {PAUSE_IR, EXIT1_IR}" using 2(3) by (auto split: if_splits)
  from sir_wait_scans [OF 2(2) this assms(3), of 4 5000] obtain j3 xs where
    3: "sir_wait u 4 5000 al j2 = Inr j3" "ok j3" "st j3 = RUN_TEST_IDLE" "finish (st j2) (opn j2) xs" "log j3 = log j2 @ xs @ [ir 4]" by blast
  obtain bits where bits: "bitstream_scan dr_pre dr_post ?d bits" "log j2 @ xs = log j1 @ [DR_scan bits]"
    using 2(3) 3(4) by (auto simp: bitstream_scan_def finish_def split: if_splits)
  from shiftDR_port [OF 3(2), of RUN_TEST_IDLE 864 "replicate 108 0" "Some (replicate 108 0)"] 3(3) obtain rx j4 where
    4: "ju_shiftDR u (Some (replicate 108 0)) (Some (replicate 108 0)) 864 RUN_TEST_IDLE j3 = Inr (rx, j4)" "ok j4"
      "st j4 = RUN_TEST_IDLE" "log j4 = log j3 @ [DR_scan (dr_pre @ replicate 864 False @ dr_post)]"
    by (auto simp: bits_of_replicate_0)
  from sir_wait_scans [OF 4(2) _ assms(3), of 3 4099645] 4(3) obtain j5 where
    5: "sir_wait u 3 4099645 al j4 = Inr j5" "ok j5" "st j5 = RUN_TEST_IDLE" "log j5 = log j4 @ [ir 3]" by auto
  from set_state_port [OF 5(2), of RUN_TEST_IDLE] 5(3) obtain j6 where
    6: "ju_set_state u RUN_TEST_IDLE j5 = Inr j6" "ok j6" "st j6 = RUN_TEST_IDLE" "log j6 = log j5" by (auto simp: reset_scan_def)
  from toggleClk_port [OF 6(2,3), of 512] obtain j7 where
    7: "ju_toggleClk u 512 j6 = Inr j7" "ok j7" "st j7 = RUN_TEST_IDLE" "log j7 = log j6" by blast
  from sir_wait_scans [OF 7(2) _ assms(3), of "0x3FF" 1000000] 7(3) obtain j8 where
    8: "sir_wait u 0x3FF 1000000 al j7 = Inr j8" "ok j8" "st j8 = RUN_TEST_IDLE" "log j8 = log j7 @ [ir 0x3FF]" by auto
  from set_state_port [OF 8(2), of RUN_TEST_IDLE] 8(3) obtain j9 where
    9: "ju_set_state u RUN_TEST_IDLE j8 = Inr j9" "ok j9" "st j9 = RUN_TEST_IDLE" "log j9 = log j8" by (auto simp: reset_scan_def)
  have "programMem u bs al j = Inr j9"
    unfolding programMem_def Let_def len using 1(1) 2(1) 3(1) 4(1) 5(1) 6(1) 7(1) 8(1) 9(1) by simp
  moreover have "log j9 = log j @ [ir 2, DR_scan bits, ir 4, DR_scan (dr_pre @ replicate 864 False @ dr_post), ir 3, ir 0x3FF]"
    using bits(2) by (simp add: 9(4) 8(4) 7(4) 6(4) 5(4) 4(4) 3(5) 1(4))
  ultimately show ?thesis using 9(2,3) bits(1) by blast
qed

lemma shiftVIR_scans:
  assumes "ok j" "st j \<in> rests" "al_vir_length al = 14" "al_vir_addr al = 0x1000"
  shows "\<exists>j'. shiftVIR u (ucast (reverseByte cmd)) al j = Inr j' \<and> ok j' \<and> st j' = UPDATE_DR \<and>
    log j' = log j @ [ir 0x00E, DR_scan (dr_pre @ vir_bits cmd @ dr_post)]"
proof -
  let ?tx = "map (byte_of ((ucast (reverseByte cmd) AND (push_bit 14 1 - 1)) OR 0x1000 :: u32)) [0, 1, 2, 3]"
  have "st j \<noteq> SHIFT_DR" using assms(2) by (auto simp: rest_defs)
  with set_state_port [OF assms(1), of RUN_TEST_IDLE] assms(2) obtain j1 where
    1: "ju_set_state u RUN_TEST_IDLE j = Inr j1" "ok j1" "st j1 = RUN_TEST_IDLE" "log j1 = log j"
    by (auto simp: reset_scan_def)
  from shiftIR_port [OF 1(2), of UPDATE_IR IRLENGTH "[0x0E, 0]"] 1(3) obtain j2 where
    2: "ju_shiftIR u [0x0E, 0] IRLENGTH UPDATE_IR j1 = Inr j2" "ok j2" "st j2 = UPDATE_IR" "log j2 = log j1 @ [ir 0x0E]"
    unfolding user_codes by auto
  have "bits_of ?tx 14 = vir_bits cmd" unfolding vir_word [symmetric] by (rule bits_of_word) simp
  with shiftDR_port [OF 2(2), of UPDATE_DR 14 ?tx None] 2(3) obtain rx j3 where
    3: "ju_shiftDR u (Some ?tx) None 14 UPDATE_DR j2 = Inr (rx, j3)" "ok j3" "st j3 = UPDATE_DR"
      "log j3 = log j2 @ [DR_scan (dr_pre @ vir_bits cmd @ dr_post)]" by (auto simp: rest_defs)
  have "shiftVIR u (ucast (reverseByte cmd)) al j = Inr j3"
    unfolding shiftVIR_def Let_def assms(3,4) using 1(1) 2(1) 3(1) by simp
  then show ?thesis using 1 2 3 by simp
qed

lemma spi_put_scans:
  assumes "ok j" "st j \<in> rests" "al_vir_length al = 14" "al_vir_addr al = 0x1000"
    and "len \<le> length t" "n = len + 1 + (if rx then 1 else 0)" "length (junk n) = n"
  shows "\<exists>got j'. altera_spi_put u junk cmd (Some t) rx len al j = Inr (0, got, j') \<and> ok j' \<and> st j' = UPDATE_DR \<and>
    log j' = log j @ [ir 0x00E, DR_scan (dr_pre @ vir_bits cmd @ dr_post), ir 0x00C,
      DR_scan (dr_pre @ msb_first (take len t) @ bits_of (drop len (junk n)) (8 * (n - len)) @ dr_post)]"
proof -
  let ?jtx = "map reverseByte (take len t) @ drop len (junk n)" and ?rx = "if rx then Some (junk n) else None"
  from shiftVIR_scans [OF assms(1-4), of cmd] obtain j1 where
    1: "shiftVIR u (ucast (reverseByte cmd)) al j = Inr j1" "ok j1" "st j1 = UPDATE_DR"
      "log j1 = log j @ [ir 0x00E, DR_scan (dr_pre @ vir_bits cmd @ dr_post)]" by blast
  from shiftIR_port [OF 1(2), of UPDATE_IR IRLENGTH "[0x0C, 0]"] 1(3) obtain j2 where
    2: "ju_shiftIR u [0x0C, 0] IRLENGTH UPDATE_IR j1 = Inr j2" "ok j2" "st j2 = UPDATE_IR" "log j2 = log j1 @ [ir 0x0C]"
    unfolding user_codes by auto
  have n: "8 * n = 8 * length (take len t) + 8 * (n - len)" using assms(5,6) by auto
  have bits: "bits_of ?jtx (8 * n) = msb_first (take len t) @ bits_of (drop len (junk n)) (8 * (n - len))"
    unfolding n by (rule bits_of_mirrored)
  have "st j2 \<in> rests - {PAUSE_DR, EXIT1_DR} \<or> st j2 = SHIFT_DR" "UPDATE_DR \<in> insert SHIFT_DR dr_rest" "0 < 8 * n"
    "8 * n \<le> 8 * length ?jtx" using 2(3) assms(5,6,7) by auto
  moreover have "8 * n \<le> 8 * length b" if "?rx = Some b" for b using that assms(7) by (auto split: if_splits)
  ultimately obtain r j3 where
    3: "ju_shiftDR u (Some ?jtx) ?rx (8 * n) UPDATE_DR j2 = Inr (r, j3)" "ok j3" "st j3 = UPDATE_DR"
      "log j3 = log j2 @ [DR_scan (dr_pre @ bits_of ?jtx (8 * n) @ dr_post)]"
    using shiftDR_port [OF 2(2), of UPDATE_DR "8 * n" ?jtx ?rx] 2(3) by auto
  have "\<exists>got. altera_spi_put u junk cmd (Some t) rx len al j = Inr (0, got, j3)"
    unfolding altera_spi_put_def Let_def assms(6) [symmetric] using assms(5) 1(1) 2(1) 3(1) by (simp add: shiftVDR_def)
  then show ?thesis using 1 2 3 bits by auto
qed

end

text \<open>What comes back one clock late is put together again.\<close>

lemma late_byte_bits:
  assumes "\<And>k. k < 7 \<Longrightarrow> bit a (k + 1) = bit m (7 - k)" "bit b 0 = bit m 0"
  shows "late_byte a b = (m :: u8)"
proof (rule bit_word_eqI)
  fix n assume "n < LENGTH(8)"
  then have n: "n < 8" by simp
  show "bit (late_byte a b) n = bit m n"
  proof (cases n)
    case 0
    moreover have "\<not> bit a 8" by (auto dest: bit_imp_le_length)
    ultimately show ?thesis using assms(2) by (simp add: late_byte_def bit_or_iff bit_and_iff bit_reverseByte bit_drop_bit_eq bit_1_iff)
  next
    case (Suc k)
    then show ?thesis using n assms(1) [of "7 - n"]
      by (simp add: late_byte_def bit_or_iff bit_and_iff bit_reverseByte bit_drop_bit_eq bit_1_iff)
  qed
qed

text \<open>
  Reading the SPI flash through the bridge.  The bits of the flash come back one clock late; if behind the eight clocks of
  the command and that one clock the register returns the bits of \<open>m\<close>, each byte with its most significant bit
  first, \<open>spi_put\<close> delivers exactly \<open>m\<close>.
\<close>

theorem altera_spi_put_receives:
  assumes "shiftVIR u (ucast (reverseByte cmd)) al j = Inr j1"
    and "shiftVDR u (Some (junk (length m + 2))) (Some (junk (length m + 2))) (8 * (length m + 2)) UPDATE_DR j1 = Inr (Some r, j2)"
    and "\<forall>i < 8 * length m. nth_bit r (9 + i) = msb_first m ! i"
  shows "altera_spi_put u junk cmd None True (length m) al j = Inr (0, m, j2)"
proof -
  have "late_byte (r ! (i + 1)) (r ! (i + 2)) = m ! i" if "i < length m" for i
  proof (rule late_byte_bits)
    have m: "nth_bit r (9 + (8 * i + k)) = bit (m ! i) (7 - k)" if "k < 8" for k
      using assms(3) \<open>i < length m\<close> that msb_first_nth [OF \<open>i < length m\<close> that] by simp
    show "bit (r ! (i + 1)) (k + 1) = bit (m ! i) (7 - k)" if "k < 7" for k
    proof -
      have "9 + (8 * i + k) = (k + 1) + (i + 1) * 8" by simp
      then have "(9 + (8 * i + k)) div 8 = i + 1" "(9 + (8 * i + k)) mod 8 = k + 1" using that by (simp_all only: div_mult_self1 mod_mult_self1) simp_all
      then show ?thesis using m [of k] that by (simp add: nth_bit_def)
    qed
    have "9 + (8 * i + 7) = (i + 2) * 8" by simp
    then have "(9 + (8 * i + 7)) div 8 = i + 2" "(9 + (8 * i + 7)) mod 8 = 0" by simp_all
    then show "bit (r ! (i + 2)) 0 = bit (m ! i) 0" using m [of 7] by (simp add: nth_bit_def)
  qed
  then have "map (\<lambda>i. late_byte (r ! (i + 1)) (r ! (i + 2))) [0..<length m] = m"
    by (intro nth_equalityI) simp_all
  then show ?thesis using assms(1,2) by (simp add: altera_spi_put_def)
qed

definition demo_al :: altera where
  "demo_al = \<lparr>al_filename = [], al_file_extension = [], al_mode = NONE_MODE, al_verify = False,
     al_skip_load_bridge = False, al_skip_reset = False, al_device_package = [], al_spiOverJtagPath = [],
     al_vir_addr = 0x1000, al_vir_length = 14, al_clk_period = 1, al_fpga_family = CYCLONE_MISC, al_idcode = 0,
     al_flash_sectors = []\<rparr>"

text \<open>Methods that answer every scan with the same bytes.\<close>

definition echo_user :: "bytes \<Rightarrow> unit jtag_user" where
  "echo_user r = \<lparr>ju_set_state = (\<lambda>_. Inr), ju_go_test_logic_reset = Inr, ju_shiftIR = (\<lambda>_ _ _. Inr),
     ju_shiftDR = (\<lambda>_ _ _ _ j. Inr (Some r, j)), ju_toggleClk = (\<lambda>_. Inr),
     ju_shiftIR_tdo = (\<lambda>_ _ _ _ j. Inr (Some r, j)), ju_flush = Inr\<rparr>"

theorem altera_spi_put_receives_witness:
  "altera_spi_put (echo_user [0, 0x08, 0x01]) (\<lambda>n. replicate n 0) 0x9F None True (length [0x21 :: u8]) demo_al () = Inr (0, [0x21], ())"
proof (rule altera_spi_put_receives)
  show "shiftVIR (echo_user [0, 0x08, 0x01]) (ucast (reverseByte 0x9F)) demo_al () = Inr ()"
    by (simp add: shiftVIR_def echo_user_def)
  show "shiftVDR (echo_user [0, 0x08, 0x01]) (Some (replicate (length [0x21 :: u8] + 2) 0)) (Some (replicate (length [0x21 :: u8] + 2) 0))
      (8 * (length [0x21 :: u8] + 2)) UPDATE_DR () = Inr (Some [0, 0x08, 0x01], ())"
    by (simp add: shiftVDR_def echo_user_def)
  have "\<forall>i \<in> set [0..<8]. nth_bit [0, 0x08, 0x01] (9 + i) = msb_first [0x21] ! i"
    by (simp add: upt_rec nth_bit_def msb_first_def)
  then show "\<forall>i < 8 * length [0x21 :: u8]. nth_bit [0, 0x08, 0x01] (9 + i) = msb_first [0x21] ! i" by simp
qed

end
