(* ===== verification/Max10.thy ===== *)
theory Max10
  imports Altera Pof_File Jtag_Chain
begin

unbundle bit_operations_syntax

section \<open>The internal flash of MAX 10 devices (\<open>altera.cpp\<close>)\<close>

text \<open>
  The \<open>max10_\<close> methods of \<open>Altera\<close>: sectors and addresses, erasing, writing, verifying, reading and the
  sequence of \<open>max10_program\<close>.  Data behind a pointer is the list of the bytes from there on.  Arrays of
  lengths are lists.  Loop counters are natural numbers, since the regions have far fewer than
  \<open>2 ^ 32\<close> words.
\<close>

subsection \<open>The memory map\<close>

record max10_mem_t =
  check_addr0 :: u32
  dsm_addr :: u32
  dsm_len :: u32
  ufm_addr :: u32
  ufm_len :: "nat list"
  cfm_addr :: u32
  cfm_len :: "nat list"
  sectors_erase_addr :: "u32 list"
  done_bit_addr :: u32
  pgm_success_addr :: u32

definition max10_memory_map :: "(u32 \<times> max10_mem_t) list" where
  "max10_memory_map = [
    (0x031820dd, \<lparr>check_addr0 = 0x80005, dsm_addr = 0x0000, dsm_len = 512, ufm_addr = 0x0200, ufm_len = [4096, 4096],
      cfm_addr = 0x2200, cfm_len = [35840, 14848, 20992], sectors_erase_addr = [0x17ffff, 0x27ffff, 0x37ffff, 0x47ffff, 0x57ffff],
      done_bit_addr = 0x0009, pgm_success_addr = 0x000b\<rparr>),
    (0x031830dd, \<lparr>check_addr0 = 0x80009, dsm_addr = 0x0000, dsm_len = 1024, ufm_addr = 0x0400, ufm_len = [4096, 4096],
      cfm_addr = 0x2400, cfm_len = [67584, 28672, 38912], sectors_erase_addr = [0x17ffff, 0x27ffff, 0x37ffff, 0x47ffff, 0x57ffff],
      done_bit_addr = 0x0011, pgm_success_addr = 0x0015\<rparr>),
    (0x031840dd, \<lparr>check_addr0 = 0x80009, dsm_addr = 0x0000, dsm_len = 1024, ufm_addr = 0x0400, ufm_len = [4096, 4096],
      cfm_addr = 0x2400, cfm_len = [94208, 40960, 53248], sectors_erase_addr = [0x17ffff, 0x27ffff, 0x37ffff, 0x47ffff, 0x57ffff],
      done_bit_addr = 0x0015, pgm_success_addr = 0x0015\<rparr>)]"

text \<open>\<open>splitString\<close> of \<open>common.cpp\<close>\<close>

function splitString :: "string \<Rightarrow> char \<Rightarrow> string list" where
  "splitString s delim =
     (if delim \<in> set s then takeWhile (\<lambda>c. c \<noteq> delim) s # splitString (tl (dropWhile (\<lambda>c. c \<noteq> delim) s)) delim else [s])"
  by pat_completeness auto
termination
proof (relation "measure (\<lambda>(s, d). length s)")
  fix s :: string and delim assume "delim \<in> set s"
  then have "dropWhile (\<lambda>c. c \<noteq> delim) s \<noteq> []" by (auto simp: dropWhile_eq_Nil_conv)
  moreover have "length (dropWhile (\<lambda>c. c \<noteq> delim) s) \<le> length s" by (rule length_dropWhile_le)
  ultimately show "((tl (dropWhile (\<lambda>c. c \<noteq> delim) s), delim), (s, delim)) \<in> measure (\<lambda>(s, d). length s)"
    by (cases "dropWhile (\<lambda>c. c \<noteq> delim) s") auto
qed simp

declare splitString.simps [simp del]

definition sector_bit :: "string \<Rightarrow> u8 res" where
  "sector_bit name =
     (if name = ''UFM1'' then Inr 1 else if name = ''UFM0'' then Inr 2 else if name = ''CFM2'' then Inr 4
      else if name = ''CFM1'' then Inr 8 else if name = ''CFM0'' then Inr 16
      else Inl (Runtime_error (''Unknown sector '' @ name)))"

fun sector_bits :: "string list \<Rightarrow> u8 \<Rightarrow> u8 res" where
  "sector_bits [] m = Inr m"
| "sector_bits (n # ns) m = bindE (sector_bit n) (\<lambda>b. sector_bits ns (m OR b))"

definition max10_flash_sectors_to_mask :: "string \<Rightarrow> u8 res" where
  "max10_flash_sectors_to_mask sectors =
     (if sectors = [] then Inr 0x1F else sector_bits (splitString sectors CHR '','') 0)"

text \<open>
  The addresses of the first and behind the last word of the selected sectors, and the sectors in
  between.  \<open>skip_low\<close> and \<open>skip_high\<close> are the two search loops, with the address and the bit they end at.
\<close>

fun skip_low :: "u8 \<Rightarrow> nat list \<Rightarrow> nat \<Rightarrow> u32 \<Rightarrow> u32 \<times> nat" where
  "skip_low sel [] i addr = (addr, 0)"
| "skip_low sel (l # ls) i addr = (if bit sel i then (addr, i) else skip_low sel ls (i + 1) (addr + of_nat l))"

fun skip_high :: "u8 \<Rightarrow> nat list \<Rightarrow> u32 \<Rightarrow> u32 \<times> nat" where
  "skip_high sel [] addr = (addr, 0)"
| "skip_high sel (l # ls) addr = (if bit sel (length ls) then (addr, length ls + 1) else skip_high sel ls (addr - of_nat l))"

definition mem_map_length :: "max10_mem_t \<Rightarrow> nat list" where
  "mem_map_length mem = [ufm_len mem ! 1, ufm_len mem ! 0, cfm_len mem ! 2, cfm_len mem ! 1]"

definition sectors_mask_start_end_addr :: "max10_mem_t \<Rightarrow> u8 \<Rightarrow> u32 \<times> u32 \<times> u8" where
  "sectors_mask_start_end_addr mem sel =
     (if sel = 0 then (ufm_addr mem, ufm_addr mem + of_nat (ufm_len mem ! 0 + ufm_len mem ! 1), 0x3)
      else
        let lens = mem_map_length mem;
            (saddr, start_bit) = skip_low sel lens 0 (ufm_addr mem);
            (eaddr, end_bit) = skip_high sel (rev lens) (ufm_addr mem + of_nat (sum_list lens))
        in (saddr, eaddr, (push_bit end_bit 1 - 1) - (push_bit start_bit 1 - 1)))"

subsection \<open>Elementary sequences\<close>

definition word_to_array :: "u32 \<Rightarrow> bytes" where
  "word_to_array w = map (byte_of w) [0, 1, 2, 3]"

definition max10_addr_shift :: "'j jtag_user \<Rightarrow> u32 \<Rightarrow> altera \<Rightarrow> 'j \<Rightarrow> 'j res" where
  "max10_addr_shift u addr al j =
     bindE (ju_shiftIR u [0x03, 0x02] IRLENGTH PAUSE_IR j) (\<lambda>j.
     bindE (ju_set_state u RUN_TEST_IDLE j) (\<lambda>j.
     bindE (toggle_ns u 5120 al j) (\<lambda>j.
     bindE (ju_shiftDR u (Some (word_to_array (drop_bit 9 (reverse_32 addr)))) None 23 RUN_TEST_IDLE j) (\<lambda>(_, j). Inr j))))"

text \<open>An instruction, \<open>Run-Test/Idle\<close>, and clocks.\<close>

definition ir_and_clocks :: "'j jtag_user \<Rightarrow> bytes \<Rightarrow> tapState_t \<Rightarrow> nat \<Rightarrow> 'j \<Rightarrow> 'j res" where
  "ir_and_clocks u cmd e n j =
     bindE (ju_shiftIR u cmd IRLENGTH e j) (\<lambda>j. bindE (ju_set_state u RUN_TEST_IDLE j) (ju_toggleClk u n))"

definition max10_flow_enable :: "'j jtag_user \<Rightarrow> altera \<Rightarrow> 'j \<Rightarrow> 'j res" where
  "max10_flow_enable u al j = bindE (clocks 350000120 al) (\<lambda>n. ir_and_clocks u [0xcc, 0x02] RUN_TEST_IDLE n j)"

text \<open>The two delays are quotients in floating point, exact in this range.\<close>

definition max10_flow_disable :: "'j jtag_user \<Rightarrow> altera \<Rightarrow> 'j \<Rightarrow> 'j res" where
  "max10_flow_disable u al j =
     bindE (clocks 350000000 al) (\<lambda>disable_len. bindE (clocks 1000000 al) (\<lambda>n.
     bindE (ir_and_clocks u [0x01, 0x02] RUN_TEST_IDLE disable_len j) (ir_and_clocks u [0xFF, 0x03] RUN_TEST_IDLE (3 + n))))"

fun erase_sectors :: "'j jtag_user \<Rightarrow> u8 \<Rightarrow> nat \<Rightarrow> u32 list \<Rightarrow> nat \<Rightarrow> altera \<Rightarrow> 'j \<Rightarrow> 'j res" where
  "erase_sectors u sel n [] i al j = Inr j"
| "erase_sectors u sel n (a # as) i al j =
     bindE (if bit sel i then bindE (max10_addr_shift u a al j) (ir_and_clocks u [0xf2, 0x02] RUN_TEST_IDLE n) else Inr j)
       (erase_sectors u sel n as (i + 1) al)"

definition max10_flow_erase :: "'j jtag_user \<Rightarrow> max10_mem_t \<Rightarrow> u8 \<Rightarrow> altera \<Rightarrow> 'j \<Rightarrow> 'j res" where
  "max10_flow_erase u mem sel al j =
     bindE (clocks 350000120 al) (\<lambda>n.
       if sel = 0x1f then bindE (max10_addr_shift u 0 al j) (ir_and_clocks u [0xf2, 0x03] RUN_TEST_IDLE n)
       else erase_sectors u sel n (sectors_erase_addr mem) 0 al j)"

subsection \<open>Words of the flash\<close>

text \<open>
  \<open>writeXFM\<close> skips words of ones.  After a skipped word, and at the beginning of each 512 words,
  the address and the instruction are sent again.  The result is what is left behind the pointer.
\<close>

fun xfm_words :: "'j jtag_user \<Rightarrow> nat \<Rightarrow> altera \<Rightarrow> nat \<Rightarrow> bytes \<Rightarrow> u32 \<Rightarrow> bool \<Rightarrow> 'j \<Rightarrow> (bytes \<times> 'j) res" where
  "xfm_words u del al 0 ptr addr must_send_sir j = Inr (ptr, j)"
| "xfm_words u del al (Suc n) ptr addr must_send_sir j = (case ptr of
     a # b # c # d # rest \<Rightarrow>
       if le32 [a, b, c, d] = 0xffffffff then xfm_words u del al n rest (addr + 1) True j
       else
         bindE (if must_send_sir then bindE (max10_addr_shift u addr al j) (ju_shiftIR u [0xf4, 0x02] IRLENGTH PAUSE_IR)
           else Inr j) (\<lambda>j.
         bindE (ju_shiftDR u (Some ptr) None 32 RUN_TEST_IDLE j) (\<lambda>(_, j).
         bindE (ju_toggleClk u del j) (xfm_words u del al n rest (addr + 1) False)))
   | _ \<Rightarrow> Inl Out_of_bounds)"

function xfm_blocks :: "'j jtag_user \<Rightarrow> nat \<Rightarrow> altera \<Rightarrow> u32 \<Rightarrow> nat \<Rightarrow> nat \<Rightarrow> bytes \<Rightarrow> 'j \<Rightarrow> 'j res" where
  "xfm_blocks u del al base_addr len i ptr j =
     (if i < len then
        bindE (xfm_words u del al (if i + 512 \<le> len then 512 else len - i) ptr (base_addr + of_nat i) True j) (\<lambda>(ptr, j).
          xfm_blocks u del al base_addr len (i + 512) ptr j)
      else Inr j)"
  by pat_completeness auto
termination
  by (relation "measure (\<lambda>(u, del, al, b, n, i, p, j). n - i)") auto

declare xfm_blocks.simps [simp del]

definition writeXFM :: "'j jtag_user \<Rightarrow> bytes \<Rightarrow> u32 \<Rightarrow> nat \<Rightarrow> nat \<Rightarrow> altera \<Rightarrow> 'j \<Rightarrow> 'j res" where
  "writeXFM u cfg_data base_addr offset len al j =
     bindE (clocks 320000 al) (\<lambda>del. xfm_blocks u del al base_addr len 0 (drop offset cfg_data) j)"

text \<open>Reading words; \<open>junk\<close> is the content of the uninitialised array.\<close>

fun read_words :: "'j jtag_user \<Rightarrow> bytes \<Rightarrow> nat \<Rightarrow> 'j \<Rightarrow> (bytes list \<times> 'j) res" where
  "read_words u junk 0 j = Inr ([], j)"
| "read_words u junk (Suc n) j =
     bindE (ju_shiftDR u None (Some junk) 32 RUN_TEST_IDLE j) (\<lambda>(rx, j).
     bindE (read_words u junk n j) (\<lambda>(ws, j). Inr ((case rx of None \<Rightarrow> [] | Some r \<Rightarrow> r) # ws, j)))"

function read_blocks :: "'j jtag_user \<Rightarrow> bytes \<Rightarrow> altera \<Rightarrow> u32 \<Rightarrow> nat \<Rightarrow> nat \<Rightarrow> 'j \<Rightarrow> (bytes list \<times> 'j) res" where
  "read_blocks u junk al base_addr len i j =
     (if i < len then
        bindE (max10_addr_shift u (base_addr + of_nat i) al j) (\<lambda>j.
        bindE (ju_shiftIR u [0x05, 0x02] IRLENGTH PAUSE_IR j) (\<lambda>j.
        bindE (read_words u junk (if i + 512 \<le> len then 512 else len - i) j) (\<lambda>(ws, j).
        bindE (read_blocks u junk al base_addr len (i + 512) j) (\<lambda>(ws', j). Inr (ws @ ws', j)))))
      else Inr ([], j))"
  by pat_completeness auto
termination
  by (relation "measure (\<lambda>(u, jk, al, b, n, i, j). n - i)") auto

declare read_blocks.simps [simp del]

text \<open>The number of words that differ from \<open>cfg_data\<close>.\<close>

fun word_errors :: "bytes list \<Rightarrow> bytes \<Rightarrow> nat res" where
  "word_errors [] ptr = Inr 0"
| "word_errors (w # ws) ptr =
     (if length ptr < 4 then Inl Out_of_bounds
      else bindE (word_errors ws (drop 4 ptr)) (\<lambda>n. Inr ((if take 4 w \<noteq> take 4 ptr then 1 else 0) + n)))"

definition verifyxFM :: "'j jtag_user \<Rightarrow> bytes \<Rightarrow> bytes \<Rightarrow> u32 \<Rightarrow> nat \<Rightarrow> nat \<Rightarrow> altera \<Rightarrow> 'j \<Rightarrow> (nat \<times> 'j) res" where
  "verifyxFM u junk cfg_data base_addr offset len al j =
     bindE (read_blocks u junk al base_addr len 0 j) (\<lambda>(ws, j).
     bindE (word_errors ws (drop offset cfg_data)) (\<lambda>n. Inr (n, j)))"

subsection \<open>The device settings (DSM, ICB)\<close>

definition word_at :: "bytes \<Rightarrow> nat \<Rightarrow> u32 res" where
  "word_at data i = (if 4 * i + 4 \<le> length data then Inr (le32 (take 4 (drop (4 * i) data))) else Inl Out_of_bounds)"

fun dsm_words :: "'j jtag_user \<Rightarrow> nat \<Rightarrow> nat \<Rightarrow> bytes \<Rightarrow> nat \<Rightarrow> nat \<Rightarrow> altera \<Rightarrow> 'j \<Rightarrow> 'j res" where
  "dsm_words u program_del write_del data i 0 al j = Inr j"
| "dsm_words u program_del write_del data i (Suc n) al j =
     bindE (word_at data i) (\<lambda>w.
     bindE (if w \<noteq> 0xffffffff then
         bindE (max10_addr_shift u (of_nat i) al j) (\<lambda>j.
         bindE (ir_and_clocks u [0xF4, 0x03] RUN_TEST_IDLE program_del j) (\<lambda>j.
         bindE (ju_shiftDR u (Some (word_to_array w)) None 32 RUN_TEST_IDLE j) (\<lambda>(_, j). ju_toggleClk u write_del j)))
       else Inr j) (dsm_words u program_del write_del data (i + 1) n al))"

text \<open>The parameter is divided by 32 here, too; the caller has divided the number of bits by 32 already.\<close>

definition max10_dsm_program :: "'j jtag_user \<Rightarrow> bytes \<Rightarrow> u32 \<Rightarrow> altera \<Rightarrow> 'j \<Rightarrow> 'j res" where
  "max10_dsm_program u data len al j =
     bindE (clocks 5120 al) (\<lambda>program_del. bindE (clocks 320000 al) (\<lambda>write_del.
       dsm_words u program_del write_del data 0 (unat (len div 32)) al j))"

definition max10_dsm_verify :: "'j jtag_user \<Rightarrow> altera \<Rightarrow> 'j \<Rightarrow> (bool \<times> 'j) res" where
  "max10_dsm_verify u al j =
     bindE (clocks 5120 al) (\<lambda>n.
     bindE (ir_and_clocks u [0x07, 0x03] RUN_TEST_IDLE n j) (\<lambda>j.
     bindE (ju_shiftDR u (Some [0]) (Some [0]) 1 RUN_TEST_IDLE j) (\<lambda>(rx, j).
       Inr (case rx of Some (b # _) \<Rightarrow> bit b 0 | _ \<Rightarrow> False, j))))"

text \<open>The success code and the done bit: the same magic word at an address of the settings.\<close>

definition program_magic :: "'j jtag_user \<Rightarrow> u32 \<Rightarrow> altera \<Rightarrow> 'j \<Rightarrow> 'j res" where
  "program_magic u addr al j =
     bindE (clocks 5120 al) (\<lambda>prog_len. bindE (clocks 320000 al) (\<lambda>prog2_len.
     bindE (max10_addr_shift u addr al j) (\<lambda>j.
     bindE (ir_and_clocks u [0xF4, 0x03] PAUSE_IR prog_len j) (\<lambda>j.
     bindE (ju_shiftDR u (Some (word_to_array 0x6C48A50F)) None 32 RUN_TEST_IDLE j) (\<lambda>(_, j).
       ju_toggleClk u prog2_len j)))))"

definition max10_dsm_program_success :: "'j jtag_user \<Rightarrow> u32 \<Rightarrow> altera \<Rightarrow> 'j \<Rightarrow> 'j res" where
  "max10_dsm_program_success = program_magic"

definition max10_flow_program_donebit :: "'j jtag_user \<Rightarrow> u32 \<Rightarrow> altera \<Rightarrow> 'j \<Rightarrow> 'j res" where
  "max10_flow_program_donebit = program_magic"

subsection \<open>Reading the flash into a file\<close>

definition max10_read_section :: "'j jtag_user \<Rightarrow> bytes \<Rightarrow> altera \<Rightarrow> u32 \<Rightarrow> nat \<Rightarrow> 'j \<Rightarrow> (bytes \<times> 'j) res" where
  "max10_read_section u junk al base_addr len j =
     bindE (read_blocks u junk al base_addr len 0 j) (\<lambda>(ws, j). Inr (concat (map (take 4) ws), j))"

fun read_sections :: "'j jtag_user \<Rightarrow> bytes \<Rightarrow> altera \<Rightarrow> u32 \<Rightarrow> nat list \<Rightarrow> 'j \<Rightarrow> (bytes \<times> 'j) res" where
  "read_sections u junk al addr [] j = Inr ([], j)"
| "read_sections u junk al addr (l # ls) j =
     bindE (max10_read_section u junk al addr l j) (\<lambda>(bs, j).
     bindE (read_sections u junk al (addr + of_nat l) ls j) (\<lambda>(bs', j). Inr (bs @ bs', j)))"

text \<open>\<open>opens\<close> tells whether the file can be opened; the result holds what is written to it.\<close>

definition max10_dump :: "'j jtag_user \<Rightarrow> bytes \<Rightarrow> bool \<Rightarrow> nat \<Rightarrow> altera \<Rightarrow> 'j \<Rightarrow> (bool \<times> bytes \<times> altera \<times> 'j) res" where
  "max10_dump u junk opens period al j = (case map_of max10_memory_map (al_idcode al) of
     None \<Rightarrow> Inr (False, [], al, j)
   | Some mem \<Rightarrow>
       let al = al\<lparr>al_clk_period := period\<rparr> in
       if \<not> opens then Inr (False, [], al, j)
       else
         bindE (max10_flow_enable u al j) (\<lambda>j.
         bindE (read_sections u junk al (ufm_addr mem) [ufm_len mem ! 1, ufm_len mem ! 0] j) (\<lambda>(ufm, j).
         bindE (read_sections u junk al (cfm_addr mem) [cfm_len mem ! 2, cfm_len mem ! 1, cfm_len mem ! 0] j) (\<lambda>(cfm, j).
         bindE (max10_flow_disable u al j) (\<lambda>j. Inr (True, ufm @ cfm, al, j))))))"

subsection \<open>Programming\<close>

text \<open>The bytes of every word in reverse order.  A length that is not a multiple of four runs past the buffers.\<close>

fun reorder :: "bytes \<Rightarrow> bytes res" where
  "reorder [] = Inr []"
| "reorder (a # b # c # d # rest) = bindE (reorder rest) (\<lambda>bs. Inr (d # c # b # a # bs))"
| "reorder _ = Inl Out_of_bounds"

definition max10_program_ufm :: "'j jtag_user \<Rightarrow> bytes \<Rightarrow> host \<Rightarrow> max10_mem_t \<Rightarrow> u32 \<Rightarrow> u8 \<Rightarrow> altera \<Rightarrow> 'j \<Rightarrow> (bool \<times> 'j) res" where
  "max10_program_ufm u junk h mem offset sel al j =
     (let (start_addr, end_addr, sectors_mask) = sectors_mask_start_end_addr mem sel in
      bindE (open_raw h (al_filename al) True) (\<lambda>bs.
        let len = of_int (cb_bit_length bs div 8);
            base_addr = start_addr + offset div 4;
            flash_len = (end_addr - base_addr) * 4 in
        if base_addr > end_addr then Inr (False, j)
        else if flash_len < len then Inr (False, j)
        else if base_addr + len div 4 > end_addr then Inr (False, j)
        else
          bindE (reorder (take (unat len) (cb_bit_data bs))) (\<lambda>buff.
          bindE (max10_flow_enable u al j) (\<lambda>j.
          bindE (max10_flow_erase u mem sectors_mask al j) (\<lambda>j.
          bindE (writeXFM u buff base_addr 0 (unat (len div 4)) al j) (\<lambda>j.
          bindE (if al_verify al then bindE (verifyxFM u junk buff base_addr 0 (unat (len div 4)) al j) (\<lambda>(_, j). Inr j) else Inr j) (\<lambda>j.
          bindE (max10_flow_disable u al j) (\<lambda>j. Inr (True, j)))))))))"

text \<open>
  A loop over sections of the flash in the order of their addresses: each has the bit that selects it and its
  position in the data; \<open>f\<close> writes or verifies one.  The bits are those of the loops, \<open>1 << i\<close> for \<open>UFM1\<close> and
  \<open>UFM0\<close> and \<open>1 << ((2 - i) + 2)\<close> for \<open>CFM2\<close>, \<open>CFM1\<close>, \<open>CFM0\<close>; in the masks \<open>UFM1\<close> has bit 0 and
  \<open>UFM0\<close> bit 1.
\<close>

fun each_section :: "(nat \<Rightarrow> u32 \<Rightarrow> nat \<Rightarrow> 'j \<Rightarrow> 'j res) \<Rightarrow> u8 \<Rightarrow> (nat \<times> nat \<times> nat) list \<Rightarrow> u32 \<Rightarrow> 'j \<Rightarrow> 'j res" where
  "each_section f sel [] addr j = Inr j"
| "each_section f sel ((i, p, l) # ss) addr j =
     bindE (if bit sel i then f p addr l j else Inr j) (each_section f sel ss (addr + of_nat l))"

definition all_sections :: "(nat \<Rightarrow> u32 \<Rightarrow> nat \<Rightarrow> 'j \<Rightarrow> 'j res) \<Rightarrow> max10_mem_t \<Rightarrow> u8 \<Rightarrow> nat \<Rightarrow> 'j \<Rightarrow> 'j res" where
  "all_sections f mem sel ufm1 j =
     (let ufm0 = ufm1 + ufm_len mem ! 1 * 4; cfm2 = ufm0 + ufm_len mem ! 0 * 4;
          cfm1 = cfm2 + cfm_len mem ! 2 * 4; cfm0 = cfm1 + cfm_len mem ! 1 * 4 in
      bindE (each_section f sel [(1, ufm1, ufm_len mem ! 1), (0, ufm0, ufm_len mem ! 0)] (ufm_addr mem) j)
        (each_section f sel [(2, cfm2, cfm_len mem ! 2), (3, cfm1, cfm_len mem ! 1), (4, cfm0, cfm_len mem ! 0)] (cfm_addr mem)))"

text \<open>Division of \<open>int\<close> rounds towards zero.\<close>

definition int_div :: "int \<Rightarrow> int \<Rightarrow> int" where
  "int_div a b = (if a < 0 then - ((- a) div b) else a div b)"

text \<open>\<open>POFParser _bit(_filename); _bit.parse();\<close>, which need not end.\<close>

definition open_pof :: "host \<Rightarrow> string \<Rightarrow> pof res option" where
  "open_pof h name = (case cbp_open (h_fs h) (h_decompress h) (h_stdin h) name of Inl e \<Rightarrow> Some (Inl e) | Inr raw \<Rightarrow> pof_parse raw)"

text \<open>The writing of a POF file.  \<open>parse\<close> always leaves a pointer for \<open>UFM\<close> and \<open>ICB\<close>.\<close>

definition max10_program_pof :: "'j jtag_user \<Rightarrow> bytes \<Rightarrow> max10_mem_t \<Rightarrow> u8 \<Rightarrow> pof \<Rightarrow> altera \<Rightarrow> 'j \<Rightarrow> 'j res" where
  "max10_program_pof u junk mem sel p al j = (case (pof_getData p ''UFM'', pof_getData p ''ICB'') of
     (Some ufm, Some icb) \<Rightarrow>
       let data = cb_bit_data (pf_base p);
           dsm_verify = (\<lambda>j. bindE (max10_dsm_verify u al j) (\<lambda>(_, j). Inr j)) in
       bindE (max10_flow_enable u al j) (\<lambda>j.
       bindE (max10_flow_erase u mem sel al j) (\<lambda>j.
       bindE (if sel = 0x1f then dsm_verify j else Inr j) (\<lambda>j.
       bindE (all_sections (\<lambda>p addr l. writeXFM u (drop p data) addr 0 l al) mem sel ufm j) (\<lambda>j.
       bindE (if al_verify al then
           all_sections (\<lambda>p addr l j. bindE (verifyxFM u junk (drop p data) addr 0 l al j) (\<lambda>(_, j). Inr j)) mem sel ufm j
         else Inr j) (\<lambda>j.
       bindE (if sel = 0x1F then
           bindE (max10_dsm_program u (drop icb data) (of_int (int_div (pof_getLength p ''ICB'') 32)) al j) (\<lambda>j.
           bindE (dsm_verify j) (\<lambda>j.
           bindE (max10_flow_program_donebit u (done_bit_addr mem) al j) (\<lambda>j.
           bindE (dsm_verify j) (\<lambda>j.
           bindE (max10_dsm_program_success u (pgm_success_addr mem) al j) dsm_verify))))
         else Inr j) (\<lambda>j.
       bindE (max10_flow_disable u al j) (ju_set_state u RUN_TEST_IDLE)))))))
   | _ \<Rightarrow> Inl Null_deref)"

definition max10_program :: "'j jtag_user \<Rightarrow> bytes \<Rightarrow> host \<Rightarrow> u32 \<Rightarrow> altera \<Rightarrow> 'j \<Rightarrow> 'j res option" where
  "max10_program u junk h offset al j = (case map_of max10_memory_map (al_idcode al) of
     None \<Rightarrow> Some (Inl (Runtime_error ''Model not supported. Please update max10_memory_map.''))
   | Some mem \<Rightarrow> (case max10_flash_sectors_to_mask (al_flash_sectors al) of
       Inl e \<Rightarrow> Some (Inl e)
     | Inr sel \<Rightarrow>
         if al_file_extension al \<noteq> ''pof'' then
           Some (bindE (max10_program_ufm u junk h mem offset (if al_flash_sectors al = [] then 0 else sel) al j) (\<lambda>(_, j). Inr j))
         else (case open_pof h (al_filename al) of
           None \<Rightarrow> None
         | Some r \<Rightarrow> Some (bindE r (\<lambda>p. max10_program_pof u junk mem sel p al j)))))"

text \<open>The call in \<open>Altera::program\<close>.\<close>

definition max10_call :: "'j jtag_user \<Rightarrow> bytes \<Rightarrow> host \<Rightarrow> u32 \<Rightarrow> altera \<Rightarrow> 'j \<Rightarrow> 'j res" where
  "max10_call u junk h offset al j = (case max10_program u junk h offset al j of None \<Rightarrow> Inl Diverges | Some r \<Rightarrow> r)"

subsection \<open>The flash as the scans change it\<close>

text \<open>
  What the device does with the scans: \<open>ISC_ADDRESS_SHIFT\<close> takes the 23 bits of an address, most
  significant first; under \<open>ISC_PROGRAM\<close> every data scan clears the bits of the word at the address that are zero in
  the data, and the address moves on.
\<close>

record m10_dev =
  md_ir :: "bool list"
  md_addr :: u32
  md_flash :: "u32 \<Rightarrow> u32"

definition m10_scan :: "m10_dev \<Rightarrow> scan \<Rightarrow> m10_dev" where
  "m10_scan d x = (case x of
     IR_scan c \<Rightarrow> d\<lparr>md_ir := c\<rparr>
   | DR_scan bits \<Rightarrow>
       if md_ir d = ir_code 0x203 then d\<lparr>md_addr := horner_sum of_bool 2 (rev bits)\<rparr>
       else if md_ir d = ir_code 0x2f4 then
         d\<lparr>md_flash := (md_flash d)(md_addr d := md_flash d (md_addr d) AND horner_sum of_bool 2 bits), md_addr := md_addr d + 1\<rparr>
       else d
   | Tap_reset \<Rightarrow> d\<lparr>md_ir := []\<rparr>)"

definition m10_after :: "m10_dev \<Rightarrow> scan list \<Rightarrow> m10_dev" where
  "m10_after = foldl m10_scan"

lemma m10_after_simps [simp]:
  "m10_after d [] = d" "m10_after d (x # xs) = m10_after (m10_scan d x) xs" "m10_after d (xs @ ys) = m10_after (m10_after d xs) ys"
  by (simp_all add: m10_after_def)

text \<open>The reference: every word of the data is programmed.\<close>

definition programmed :: "(u32 \<Rightarrow> u32) \<Rightarrow> u32 \<Rightarrow> bytes \<Rightarrow> nat \<Rightarrow> u32 \<Rightarrow> u32" where
  "programmed flash addr data n a =
     (if unat addr \<le> unat a \<and> unat a < unat addr + n
      then flash a AND le32 (take 4 (drop (4 * (unat a - unat addr)) data)) else flash a)"

lemma programmed_0: "programmed flash addr data 0 = flash"
  by (rule ext) (auto simp: programmed_def)

lemma drop_word: "drop (4 * Suc k) (a # b # c # d # rest) = drop (4 * k) rest"
proof -
  have "4 * Suc k = Suc (Suc (Suc (Suc (4 * k))))" by simp
  then show ?thesis by (simp only: drop_Suc_Cons)
qed

lemma programmed_Suc:
  assumes "unat (addr + 1) = unat addr + 1"
  shows "programmed flash addr (a # b # c # d # rest) (Suc n) =
    programmed (flash(addr := flash addr AND le32 [a, b, c, d])) (addr + 1) rest n"
proof
  fix x
  let ?l = "programmed flash addr (a # b # c # d # rest) (Suc n) x"
  let ?r = "programmed (flash(addr := flash addr AND le32 [a, b, c, d])) (addr + 1) rest n x"
  consider (at) "x = addr" | (behind) k where "unat x - unat addr = Suc k" "unat addr < unat x" | (before) "unat x < unat addr"
    by (metis Suc_diff_Suc linorder_neqE_nat word_unat_eq_iff)
  then show "?l = ?r"
  proof cases
    case at
    then show ?thesis unfolding programmed_def assms by simp
  next
    case behind
    note d = drop_word [of k a b c d rest]
    have "x \<noteq> addr" "unat x - (unat addr + 1) = k" using behind by auto
    then show ?thesis unfolding programmed_def assms behind(1) d using behind(2) by auto
  next
    case before
    then have "x \<noteq> addr" by auto
    then show ?thesis using before unfolding programmed_def assms by simp
  qed
qed

lemma programmed_add:
  assumes "unat (addr + of_nat m) = unat addr + m"
  shows "programmed (programmed flash addr data m) (addr + of_nat m) (drop (4 * m) data) n = programmed flash addr data (m + n)"
proof
  fix x :: u32
  have d: "4 * (unat x - (unat addr + m)) + 4 * m = 4 * (unat x - unat addr)" if "unat addr + m \<le> unat x"
    using that by (simp add: diff_mult_distrib2)
  consider "unat x < unat addr" | "unat addr \<le> unat x" "unat x < unat addr + m" | "unat addr + m \<le> unat x" by linarith
  then show "programmed (programmed flash addr data m) (addr + of_nat m) (drop (4 * m) data) n x = programmed flash addr data (m + n) x"
  proof cases
    case 3
    then show ?thesis unfolding programmed_def assms drop_drop d [OF 3] by auto
  qed (auto simp: programmed_def assms)
qed

lemma four_bytes: "4 \<le> length (ptr :: bytes) \<Longrightarrow> \<exists>a b c d rest. ptr = a # b # c # d # rest"
  by (cases ptr rule: reorder.cases) auto

lemma take_bit_small: "unat (w :: u32) < 2 ^ n \<Longrightarrow> take_bit n w = w"
  by (intro word_unat_eq_iff [THEN iffD2]) (simp add: unsigned_take_bit_eq take_bit_nat_eq_self)

lemma ir_codes_differ: "ir_code 0x203 \<noteq> ir_code 0x2f4"
proof
  assume "ir_code 0x203 = ir_code 0x2f4"
  then have "ir_code 0x203 ! 0 = ir_code 0x2f4 ! 0" by simp
  then show False by (simp add: ir_code_def)
qed

lemma max10_codes: "bits_of [0x03, 0x02] IRLENGTH = ir_code 0x203" "bits_of [0xf4, 0x02] IRLENGTH = ir_code 0x2f4"
proof -
  have "byte_of (0x203 :: u16) 0 = 0x03" "byte_of (0x203 :: u16) 1 = 0x02" "byte_of (0x2f4 :: u16) 0 = 0xf4" "byte_of (0x2f4 :: u16) 1 = 0x02"
    unfolding byte_of_def by code_simp+
  then show "bits_of [0x03, 0x02] IRLENGTH = ir_code 0x203" "bits_of [0xf4, 0x02] IRLENGTH = ir_code 0x2f4"
    using bits_of_ir_code [of "0x203"] bits_of_ir_code [of "0x2f4"] by (simp_all only:)
qed

lemma addr_bits: "bits_of (word_to_array (drop_bit 9 (reverse_32 a))) 23 = rev (map (bit a) [0..<23])"
proof (rule nth_equalityI)
  fix i assume "i < length (bits_of (word_to_array (drop_bit 9 (reverse_32 a))) 23)"
  then have i: "i < 23" by simp
  have "bits_of (word_to_array (drop_bit 9 (reverse_32 a))) 23 = map (bit (drop_bit 9 (reverse_32 a))) [0..<23]"
    unfolding word_to_array_def by (rule bits_of_word) simp
  then show "bits_of (word_to_array (drop_bit 9 (reverse_32 a))) 23 ! i = rev (map (bit a) [0..<23]) ! i"
    using i bit_reverse_32 [of "9 + i" a] by (simp add: bit_drop_bit_eq rev_nth)
qed simp

lemma le32_bytes: "map (byte_of (le32 [a, b, c, d])) [0, 1, 2, 3] = [a, b, c, d]"
proof -
  have le: "le32 [a, b, c, d] = ucast a OR push_bit 8 (ucast b) OR push_bit 16 (ucast c) OR push_bit 24 (ucast d)"
    by (simp add: le32_def upt_rec or.assoc)
  have "byte_of (le32 [a, b, c, d]) 0 = a" "byte_of (le32 [a, b, c, d]) 1 = b"
    "byte_of (le32 [a, b, c, d]) 2 = c" "byte_of (le32 [a, b, c, d]) 3 = d"
    unfolding le by (rule bit_word_eqI; auto simp: bit_byte_of bit_or_iff bit_push_bit_iff bit_ucast_iff dest: bit_imp_le_length)+
  then show ?thesis by simp
qed

lemma word_bits: "bits_of (a # b # c # d # rest) 32 = map (bit (le32 [a, b, c, d])) [0..<32]"
proof -
  have "bits_of (a # b # c # d # rest) 32 = bits_of [a, b, c, d] 32"
  proof (rule bits_of_cong)
    fix i :: nat assume "i < 32"
    then have "i div 8 < 4" by auto
    then have "(a # b # c # d # rest) ! (i div 8) = [a, b, c, d] ! (i div 8)"
      using nth_append [of "[a, b, c, d]" rest "i div 8"] by simp
    then show "nth_bit (a # b # c # d # rest) i = nth_bit [a, b, c, d] i" by (simp add: nth_bit_def)
  qed
  then show ?thesis using bits_of_word [of 32 "le32 [a, b, c, d]"] le32_bytes [of a b c d] by simp
qed

lemma word_of_bits: "horner_sum of_bool 2 (map (bit w) [0..<32]) = (w :: u32)"
  by (simp add: horner_sum_bit_eq_take_bit take_bit_word_eq_self)

context scan_port
begin

lemma addr_shift_scans:
  assumes "ok j" "st j = RUN_TEST_IDLE" "0 < al_clk_period al"
  shows "\<exists>j'. max10_addr_shift u a al j = Inr j' \<and> ok j' \<and> st j' = RUN_TEST_IDLE \<and>
    log j' = log j @ [ir 0x203, DR_scan (dr_pre @ rev (map (bit a) [0..<23]) @ dr_post)]"
proof -
  let ?tx = "word_to_array (drop_bit 9 (reverse_32 a))"
  from shiftIR_port [OF assms(1), of PAUSE_IR IRLENGTH "[0x03, 0x02]"] assms(2) obtain j1 where
    1: "ju_shiftIR u [0x03, 0x02] IRLENGTH PAUSE_IR j = Inr j1" "ok j1" "st j1 = PAUSE_IR" "log j1 = log j @ [ir 0x203]"
    unfolding max10_codes by auto
  from set_state_port [OF 1(2), of RUN_TEST_IDLE] 1(3) obtain j2 where
    2: "ju_set_state u RUN_TEST_IDLE j1 = Inr j2" "ok j2" "st j2 = RUN_TEST_IDLE" "log j2 = log j1" by (auto simp: reset_scan_def)
  from toggleClk_port [OF 2(2,3), of "5120 div al_clk_period al"] obtain j3 where
    3: "ju_toggleClk u (5120 div al_clk_period al) j2 = Inr j3" "ok j3" "st j3 = RUN_TEST_IDLE" "log j3 = log j2" by blast
  have "23 \<le> 8 * length ?tx" by (simp add: word_to_array_def)
  with shiftDR_port [OF 3(2), of RUN_TEST_IDLE 23 ?tx None] 3(3) obtain rx j4 where
    4: "ju_shiftDR u (Some ?tx) None 23 RUN_TEST_IDLE j3 = Inr (rx, j4)" "ok j4" "st j4 = RUN_TEST_IDLE"
      "log j4 = log j3 @ [DR_scan (dr_pre @ rev (map (bit a) [0..<23]) @ dr_post)]"
    unfolding addr_bits by auto
  show ?thesis using 1 2 3 4 assms(3) by (simp add: max10_addr_shift_def toggle_ns_def clocks_def)
qed

text \<open>
  The loop over words: where \<open>must_send_sir\<close> is off, the device still has the programming instruction
  and the right address.
\<close>

lemma write_words_scans:
  assumes "dr_pre = []" "dr_post = []" "ir_pre = []" "ir_post = []" "0 < al_clk_period al"
    and "ok j" "st j = RUN_TEST_IDLE" "4 * n \<le> length ptr" "unat addr + n \<le> 2 ^ 23"
    and "\<not> must \<Longrightarrow> md_ir (m10_after d (log j)) = ir_code 0x2f4 \<and> md_addr (m10_after d (log j)) = addr"
  shows "\<exists>j'. xfm_words u del al n ptr addr must j = Inr (drop (4 * n) ptr, j') \<and> ok j' \<and> st j' = RUN_TEST_IDLE \<and>
    md_flash (m10_after d (log j')) = programmed (md_flash (m10_after d (log j))) addr ptr n"
  using assms(6-10)
proof (induction n arbitrary: ptr addr must j)
  case 0
  then show ?case by (simp add: programmed_0)
next
  case (Suc n)
  obtain a b c e rest where ptr: "ptr = a # b # c # e # rest" using four_bytes [of ptr] Suc.prems(3) by auto
  let ?w = "le32 [a, b, c, e]" and ?D = "\<lambda>j. m10_after d (log j)"
  have next_addr: "unat (addr + 1) = unat addr + 1"
    using Suc.prems(4) by (simp add: unat_word_ariths)
  have fits: "4 * n \<le> length rest" "unat (addr + 1) + n \<le> 2 ^ 23" using Suc.prems(3,4) ptr next_addr by simp_all
  have dropped: "drop (4 * Suc n) ptr = drop (4 * n) rest" unfolding ptr by (rule drop_word)
  have addr23: "horner_sum of_bool 2 (rev (rev (map (bit addr) [0..<23]))) = addr"
    using Suc.prems(4) by (simp add: horner_sum_bit_eq_take_bit take_bit_small)
  show ?case
  proof (cases "?w = 0xffffffff")
    case True
    have ones: "(0xffffffff :: u32) = -1" by simp
    have "xfm_words u del al (Suc n) ptr addr must j = xfm_words u del al n rest (addr + 1) True j"
      using ptr True by simp
    moreover have "programmed (md_flash (?D j)) addr ptr (Suc n) = programmed (md_flash (?D j)) (addr + 1) rest n"
      unfolding ptr programmed_Suc [OF next_addr] True ones by simp
    ultimately show ?thesis unfolding dropped using Suc.IH [OF Suc.prems(1,2) fits, of True] by auto
  next
    case False
    have "\<exists>j1. (if must then bindE (max10_addr_shift u addr al j) (ju_shiftIR u [0xf4, 0x02] IRLENGTH PAUSE_IR) else Inr j) = Inr j1 \<and>
        ok j1 \<and> st j1 \<in> {PAUSE_IR, RUN_TEST_IDLE} \<and> md_ir (?D j1) = ir_code 0x2f4 \<and> md_addr (?D j1) = addr \<and>
        md_flash (?D j1) = md_flash (?D j)"
    proof (cases must)
      case True
      from addr_shift_scans [OF Suc.prems(1,2) assms(5), of addr] obtain j0 where
        0: "max10_addr_shift u addr al j = Inr j0" "ok j0" "st j0 = RUN_TEST_IDLE"
          "log j0 = log j @ [ir 0x203, DR_scan (dr_pre @ rev (map (bit addr) [0..<23]) @ dr_post)]" by blast
      from shiftIR_port [OF 0(2), of PAUSE_IR IRLENGTH "[0xf4, 0x02]"] 0(3) obtain j1 where
        1: "ju_shiftIR u [0xf4, 0x02] IRLENGTH PAUSE_IR j0 = Inr j1" "ok j1" "st j1 = PAUSE_IR" "log j1 = log j0 @ [ir 0x2f4]"
        unfolding max10_codes by auto
      have "?D j1 = (?D j)\<lparr>md_ir := ir_code 0x2f4, md_addr := addr\<rparr>"
        unfolding 1(4) 0(4) using assms(1-4) addr23 by (simp add: m10_scan_def)
      then show ?thesis using True 0 1 by simp
    next
      case False
      then show ?thesis using Suc.prems(1,2,5) by auto
    qed
    then obtain j1 where 1: "(if must then bindE (max10_addr_shift u addr al j) (ju_shiftIR u [0xf4, 0x02] IRLENGTH PAUSE_IR) else Inr j) = Inr j1"
        "ok j1" "st j1 \<in> {PAUSE_IR, RUN_TEST_IDLE}" "md_ir (?D j1) = ir_code 0x2f4" "md_addr (?D j1) = addr"
        "md_flash (?D j1) = md_flash (?D j)" by blast
    have "st j1 \<in> rests - {PAUSE_DR, EXIT1_DR} \<or> st j1 = SHIFT_DR" "32 \<le> 8 * length ptr" "st j1 \<noteq> SHIFT_DR"
      using 1(3) Suc.prems(3) by auto
    with shiftDR_port [OF 1(2), of RUN_TEST_IDLE 32 ptr None] obtain rx j2 where
      2: "ju_shiftDR u (Some ptr) None 32 RUN_TEST_IDLE j1 = Inr (rx, j2)" "ok j2" "st j2 = RUN_TEST_IDLE"
        "log j2 = log j1 @ [DR_scan (dr_pre @ map (bit ?w) [0..<32] @ dr_post)]"
      unfolding ptr word_bits by auto
    have D2: "?D j2 = (?D j1)\<lparr>md_flash := (md_flash (?D j))(addr := md_flash (?D j) addr AND ?w), md_addr := addr + 1\<rparr>"
      unfolding 2(4) using assms(1,2) 1(4-6) ir_codes_differ by (simp add: m10_scan_def word_of_bits del: map_map)
    from toggleClk_port [OF 2(2,3), of del] obtain j3 where
      3: "ju_toggleClk u del j2 = Inr j3" "ok j3" "st j3 = RUN_TEST_IDLE" "log j3 = log j2" by blast
    have D3: "md_ir (?D j3) = ir_code 0x2f4 \<and> md_addr (?D j3) = addr + 1" unfolding 3(4) D2 using 1(4) by simp
    from Suc.IH [OF 3(2,3) fits, of False] D3 obtain j4 where
      4: "xfm_words u del al n rest (addr + 1) False j3 = Inr (drop (4 * n) rest, j4)" "ok j4" "st j4 = RUN_TEST_IDLE"
        "md_flash (?D j4) = programmed (md_flash (?D j3)) (addr + 1) rest n" by blast
    have "xfm_words u del al (Suc n) ptr addr must j = Inr (drop (4 * Suc n) ptr, j4)"
      unfolding dropped using ptr False 1(1) 2(1) 3(1) 4(1) by (simp split del: if_split)
    moreover have "md_flash (?D j4) = programmed (md_flash (?D j)) addr ptr (Suc n)"
      unfolding 4(4) 3(4) D2 ptr programmed_Suc [OF next_addr] by simp
    ultimately show ?thesis using 4(2,3) by blast
  qed
qed

lemma xfm_blocks_scans:
  assumes "dr_pre = []" "dr_post = []" "ir_pre = []" "ir_post = []" "0 < al_clk_period al"
    and "ok j" "st j = RUN_TEST_IDLE" "i \<le> len" "4 * (len - i) \<le> length ptr" "unat base_addr + len \<le> 2 ^ 23"
  shows "\<exists>j'. xfm_blocks u del al base_addr len i ptr j = Inr j' \<and> ok j' \<and> st j' = RUN_TEST_IDLE \<and>
    md_flash (m10_after d (log j')) = programmed (md_flash (m10_after d (log j))) (base_addr + of_nat i) ptr (len - i)"
  using assms(6-9)
proof (induction "len - i" arbitrary: i ptr j rule: less_induct)
  case less
  show ?case
  proof (cases "i < len")
    case False
    then show ?thesis using less.prems by (subst xfm_blocks.simps) (simp add: programmed_0)
  next
    case True
    define m where "m = (if i + 512 \<le> len then 512 else len - i)"
    have m: "0 < m" "m \<le> len - i" using True by (auto simp: m_def)
    have addr: "unat (base_addr + of_nat k) = unat base_addr + k" if "k \<le> len" for k
      using assms(10) that by (simp add: unat_word_ariths unat_of_nat)
    have "4 * m \<le> length ptr" using m(2) less.prems(4) by linarith
    moreover have "unat (base_addr + of_nat i) + m \<le> 2 ^ 23" using addr [of i] True m(2) assms(10) by simp
    ultimately obtain j1 where
      w: "xfm_words u del al m ptr (base_addr + of_nat i) True j = Inr (drop (4 * m) ptr, j1)" "ok j1" "st j1 = RUN_TEST_IDLE"
        "md_flash (m10_after d (log j1)) = programmed (md_flash (m10_after d (log j))) (base_addr + of_nat i) ptr m"
      using write_words_scans [OF assms(1-5) less.prems(1,2), of m ptr "base_addr + of_nat i" True d del] by blast
    have step: "xfm_blocks u del al base_addr len i ptr j = xfm_blocks u del al base_addr len (i + 512) (drop (4 * m) ptr) j1"
      using True w(1) by (subst xfm_blocks.simps) (simp add: m_def [symmetric])
    show ?thesis
    proof (cases "i + 512 \<le> len")
      case False
      then have "m = len - i" "\<not> i + 512 < len" by (simp_all add: m_def)
      then show ?thesis using step w(2-4) by (simp add: xfm_blocks.simps [of u del al base_addr len "i + 512"])
    next
      case fits: True
      then have m512: "m = 512" by (simp add: m_def)
      have "len - (i + 512) < len - i" "4 * (len - (i + 512)) \<le> length (drop (4 * m) ptr)" using fits less.prems(4) m512 by auto
      from less.hyps [OF this(1) w(2,3) fits this(2)] obtain j2 where
        r: "xfm_blocks u del al base_addr len (i + 512) (drop (4 * m) ptr) j1 = Inr j2" "ok j2" "st j2 = RUN_TEST_IDLE"
          "md_flash (m10_after d (log j2)) = programmed (md_flash (m10_after d (log j1))) (base_addr + of_nat (i + 512)) (drop (4 * m) ptr) (len - (i + 512))"
        by blast
      have a: "base_addr + of_nat (i + 512) = (base_addr + of_nat i) + of_nat m" by (simp add: m512)
      have "unat ((base_addr + of_nat i) + of_nat m) = unat (base_addr + of_nat i) + m"
        unfolding a [symmetric] using addr [of "i + 512"] addr [of i] fits m512 by simp
      then have "md_flash (m10_after d (log j2)) = programmed (md_flash (m10_after d (log j))) (base_addr + of_nat i) ptr (m + (len - (i + 512)))"
        unfolding r(4) w(4) a by (rule programmed_add)
      moreover have "m + (len - (i + 512)) = len - i" using fits m512 by simp
      ultimately show ?thesis using step r(1-3) by simp
    qed
  qed
qed

lemma writeXFM_scans:
  assumes "dr_pre = []" "dr_post = []" "ir_pre = []" "ir_post = []" "0 < al_clk_period al"
    and "ok j" "st j = RUN_TEST_IDLE" "offset + 4 * len \<le> length cfg_data" "unat base_addr + len \<le> 2 ^ 23"
  shows "\<exists>j'. writeXFM u cfg_data base_addr offset len al j = Inr j' \<and> ok j' \<and> st j' = RUN_TEST_IDLE \<and>
    md_flash (m10_after d (log j')) = programmed (md_flash (m10_after d (log j))) base_addr (drop offset cfg_data) len"
  using xfm_blocks_scans [OF assms(1-7), of 0 len "drop offset cfg_data" base_addr "320000 div al_clk_period al" d] assms(5,8,9)
  by (simp add: writeXFM_def clocks_def)

end

subsection \<open>Properties\<close>

lemma skip_low_at:
  "n < length ls \<Longrightarrow> bit sel (i + n) \<Longrightarrow> \<forall>k < n. \<not> bit sel (i + k) \<Longrightarrow>
   skip_low sel ls i a = (a + of_nat (sum_list (take n ls)), i + n)"
proof (induction ls arbitrary: n i a)
  case (Cons l ls)
  show ?case
  proof (cases n)
    case (Suc m)
    have "\<not> bit sel i" using Cons.prems(3) Suc by auto
    moreover have "\<forall>k < m. \<not> bit sel (i + 1 + k)" using Cons.prems(3) Suc by auto
    ultimately show ?thesis using Cons.IH [of m "i + 1" "a + of_nat l"] Cons.prems(1,2) Suc by (simp add: add.assoc)
  qed (use Cons.prems in simp)
qed simp

lemma skip_high_at:
  "n < length ls \<Longrightarrow> bit sel n \<Longrightarrow> \<forall>k. n < k \<and> k < length ls \<longrightarrow> \<not> bit sel k \<Longrightarrow>
   skip_high sel (rev ls) a = (a - of_nat (sum_list (drop (n + 1) ls)), n + 1)"
proof (induction ls arbitrary: a rule: rev_induct)
  case (snoc l ls)
  show ?case
  proof (cases "n = length ls")
    case False
    then have "n < length ls" "\<not> bit sel (length ls)" using snoc.prems by auto
    then show ?thesis using snoc.IH [of "a - of_nat l"] snoc.prems by (simp add: diff_diff_add add.commute)
  qed (use snoc.prems in simp)
qed simp

lemma region_mask:
  assumes "lo \<le> hi" "hi < 4" "i < 8"
  shows "bit ((push_bit (hi + 1) 1 - 1) - (push_bit lo 1 - 1) :: u8) i \<longleftrightarrow> lo \<le> i \<and> i \<le> hi"
proof -
  have "\<forall>lo \<in> set [0..<4]. \<forall>hi \<in> set [0..<4]. \<forall>i \<in> set [0..<8]. lo \<le> hi \<longrightarrow>
      (bit ((push_bit (hi + 1) 1 - 1) - (push_bit lo 1 - 1) :: u8) i \<longleftrightarrow> lo \<le> i \<and> i \<le> hi)"
    by code_simp
  then show ?thesis using assms by simp
qed

text \<open>
  C24: the region for a user binary.  With the lowest and the highest selected sector below CFM0,
  \<open>sectors_mask_start_end_addr\<close> gives the address at which the lowest begins and the one at which the highest
  ends, and the mask of every sector from the one to the other; the sectors follow each other in
  the order UFM1, UFM0, CFM2, CFM1.
\<close>

theorem sectors_region:
  assumes "bit sel lo" "bit sel hi" "lo \<le> hi" "hi < 4" "\<forall>i < 4. bit sel i \<longrightarrow> lo \<le> i \<and> i \<le> hi"
  shows "case sectors_mask_start_end_addr mem sel of (s, e, m) \<Rightarrow>
    s = ufm_addr mem + of_nat (sum_list (take lo (mem_map_length mem))) \<and>
    e = ufm_addr mem + of_nat (sum_list (take (hi + 1) (mem_map_length mem))) \<and>
    (\<forall>i < 8. bit m i \<longleftrightarrow> lo \<le> i \<and> i \<le> hi)"
proof -
  let ?lens = "mem_map_length mem"
  have sel: "sel \<noteq> 0" using assms(1) by auto
  have len: "length ?lens = 4" by (simp add: mem_map_length_def)
  have no: "\<not> bit sel k" if "k < 4" "k < lo \<or> hi < k" for k using assms(5) that by auto
  have low: "skip_low sel ?lens 0 (ufm_addr mem) = (ufm_addr mem + of_nat (sum_list (take lo ?lens)), lo)"
    using skip_low_at [of lo ?lens sel 0] assms(1,3,4) len no by simp
  have "sum_list ?lens = sum_list (take (hi + 1) ?lens) + sum_list (drop (hi + 1) ?lens)"
    by (metis append_take_drop_id sum_list.append)
  then have "ufm_addr mem + of_nat (sum_list ?lens) - of_nat (sum_list (drop (hi + 1) ?lens)) =
      ufm_addr mem + of_nat (sum_list (take (hi + 1) ?lens))" by simp
  then have high: "skip_high sel (rev ?lens) (ufm_addr mem + of_nat (sum_list ?lens)) =
      (ufm_addr mem + of_nat (sum_list (take (hi + 1) ?lens)), hi + 1)"
    using skip_high_at [of hi ?lens sel] assms(2,4) len no by simp
  show ?thesis
    unfolding sectors_mask_start_end_addr_def Let_def low high
    using sel region_mask [OF assms(3,4)] by simp
qed

definition demo_mem :: max10_mem_t where
  "demo_mem = snd (max10_memory_map ! 0)"

theorem sectors_region_witness:
  "case sectors_mask_start_end_addr demo_mem 0x0A of (s, e, m) \<Rightarrow> s = 0x1200 \<and> e = 0xAE00 \<and> bit m 2"
proof -
  have lens: "mem_map_length demo_mem = [4096, 4096, 20992, 14848]" "ufm_addr demo_mem = 0x200"
    by (simp_all add: demo_mem_def max10_memory_map_def mem_map_length_def)
  have "\<forall>i \<in> set [0..<4]. bit (0x0A :: u8) i \<longrightarrow> 1 \<le> i \<and> i \<le> 3" by code_simp
  then have "\<forall>i < 4. bit (0x0A :: u8) i \<longrightarrow> 1 \<le> i \<and> i \<le> 3" by simp
  moreover have "bit (0x0A :: u8) 1" "bit (0x0A :: u8) 3" by code_simp+
  ultimately show ?thesis using sectors_region [of "0x0A" 1 3 demo_mem] unfolding lens by (auto split: prod.splits)
qed

lemma dsm_words_cong:
  assumes "take (4 * (i + n)) data = take (4 * (i + n)) data'" "4 * (i + n) \<le> length data" "4 * (i + n) \<le> length data'"
  shows "dsm_words u pd wd data i n al j = dsm_words u pd wd data' i n al j"
  using assms
proof (induction n arbitrary: i j)
  case (Suc n)
  have "take 4 (drop (4 * i) data) = take 4 (drop (4 * i) (take (4 * (i + Suc n)) data))" by (simp add: drop_take)
  also have "\<dots> = take 4 (drop (4 * i) (take (4 * (i + Suc n)) data'))" using Suc.prems(1) by simp
  also have "\<dots> = take 4 (drop (4 * i) data')" by (simp add: drop_take)
  finally have "word_at data i = word_at data' i" using Suc.prems(2,3) by (simp add: word_at_def)
  moreover have "dsm_words u pd wd data (i + 1) n al j = dsm_words u pd wd data' (i + 1) n al j" for j
    using Suc.IH [of "i + 1" j] Suc.prems by simp
  ultimately show ?case by (simp cong: bindE_cong)
qed simp

text \<open>
  The settings are written only in part.  \<open>max10_program\<close> hands \<open>max10_dsm_program\<close> the number of 32-bit words, which
  divides it by 32 again: words from one thirty-second of the section on are never looked at, so that whatever they
  hold, the same scans are made, and a section of fewer than 32 words is not written at all.
\<close>

theorem icb_mostly_unwritten:
  assumes "k = 4 * unat (len div 32)" "take k data = take k data'" "k \<le> length data" "k \<le> length data'"
  shows "max10_dsm_program u data len al j = max10_dsm_program u data' len al j \<and>
    (len < 32 \<and> 0 < al_clk_period al \<longrightarrow> max10_dsm_program u data len al j = Inr j)"
proof
  show "max10_dsm_program u data len al j = max10_dsm_program u data' len al j"
  proof -
    have "dsm_words u pd wd data 0 (unat (len div 32)) al = dsm_words u pd wd data' 0 (unat (len div 32)) al" for pd wd
      using dsm_words_cong [of 0 "unat (len div 32)" data data'] assms by (intro ext) simp
    then show ?thesis by (simp only: max10_dsm_program_def)
  qed
  show "len < 32 \<and> 0 < al_clk_period al \<longrightarrow> max10_dsm_program u data len al j = Inr j"
  proof
    assume a: "len < 32 \<and> 0 < al_clk_period al"
    then have "unat len < 32" by (simp add: word_less_nat_alt)
    then have "unat (len div 32) = 0" by (simp add: unat_div)
    then show "max10_dsm_program u data len al j = Inr j" using a by (simp add: max10_dsm_program_def clocks_def)
  qed
qed

theorem icb_mostly_unwritten_witness:
  "max10_dsm_program (echo_user []) (replicate 4 1 @ replicate 124 0) 32 demo_al () =
     max10_dsm_program (echo_user []) (replicate 4 1 @ replicate 124 0xFF) 32 demo_al ()"
  by (rule icb_mostly_unwritten [of 4 32 "replicate 4 1 @ replicate 124 0" "replicate 4 1 @ replicate 124 0xFF", THEN conjunct1])
    simp_all

lemma bindE_Inr_right [simp]: "bindE m Inr = m"
  by (cases m) auto

lemma each_section_none: "\<forall>(i, x) \<in> set ss. \<not> bit sel i \<Longrightarrow> each_section f sel ss addr = Inr"
proof (rule ext)
  show "\<forall>(i, x) \<in> set ss. \<not> bit sel i \<Longrightarrow> each_section f sel ss addr j = Inr j" for j
    by (induction ss arbitrary: addr j) auto
qed

lemma only_ufm0:
  "all_sections f mem 1 ufm j = f (ufm + ufm_len mem ! 1 * 4) (ufm_addr mem + of_nat (ufm_len mem ! 1)) (ufm_len mem ! 0) j"
  by (simp add: all_sections_def Let_def bit_1_iff each_section_none)

lemma word_1_neq: "(1 :: u8) \<noteq> 0x1f"
  by simp

text \<open>
  C25: selecting \<open>UFM1\<close> for a POF file erases one section and writes the other.  With the mask that
  \<open>max10_flash_sectors_to_mask\<close> gives for it, \<open>max10_program\<close> erases at the first erase address, which is that of
  \<open>UFM1\<close>, but writes the data of \<open>UFM0\<close> at the address of \<open>UFM0\<close>, which has not been erased.
\<close>

theorem ufm1_writes_ufm0:
  assumes "pof_getData p ''UFM'' = Some ufm" "pof_getData p ''ICB'' \<noteq> None" "\<not> al_verify al"
    and "max10_flash_sectors_to_mask ''UFM1'' = Inr sel" "sectors_erase_addr mem = ufm1_erase # rest"
  shows "max10_program_pof u junk mem sel p al j =
    bindE (max10_flow_enable u al j) (\<lambda>j.
    bindE (clocks 350000120 al) (\<lambda>n.
    bindE (bindE (max10_addr_shift u ufm1_erase al j) (ir_and_clocks u [0xf2, 0x02] RUN_TEST_IDLE n)) (\<lambda>j.
    bindE (writeXFM u (drop (ufm + ufm_len mem ! 1 * 4) (cb_bit_data (pf_base p)))
      (ufm_addr mem + of_nat (ufm_len mem ! 1)) 0 (ufm_len mem ! 0) al j) (\<lambda>j.
    bindE (max10_flow_disable u al j) (ju_set_state u RUN_TEST_IDLE)))))"
proof -
  have sel: "sel = 1" using assms(4) by (simp add: max10_flash_sectors_to_mask_def splitString.simps sector_bit_def)
  have erase: "erase_sectors u 1 n as i al j = Inr j" if "0 < i" for n as i j
    using that by (induction as arbitrary: i j) (simp_all add: bit_1_iff)
  have erase': "erase_sectors u 1 n as (Suc 0) al = Inr" for n as
    by (rule ext) (simp add: erase)
  have "max10_flow_erase u mem 1 al j =
      bindE (clocks 350000120 al) (\<lambda>n. bindE (max10_addr_shift u ufm1_erase al j) (ir_and_clocks u [0xf2, 0x02] RUN_TEST_IDLE n))" for j
    by (simp add: max10_flow_erase_def assms(5) erase')
  then show ?thesis
    using assms(1-3) unfolding sel by (auto simp only: max10_program_pof_def Let_def bindE_assoc bindE.simps option.case prod.case if_False simp_thms word_1_neq only_ufm0)
qed

definition demo_pof :: pof where
  "demo_pof = \<lparr>pf_base = cbp0, pf_sections =
     [''UFM'' \<mapsto> \<lparr>ms_flag = 1, ms_section = ''UFM'', ms_offset = 0, ms_data = Some 12, ms_len = 262144\<rparr>,
      ''ICB'' \<mapsto> \<lparr>ms_flag = 1, ms_section = ''ICB'', ms_offset = 0, ms_data = Some 12, ms_len = 16384\<rparr>]\<rparr>"

theorem ufm1_writes_ufm0_witness:
  "max10_program_pof (echo_user []) [] demo_mem 1 demo_pof demo_al () =
    bindE (max10_flow_enable (echo_user []) demo_al ()) (\<lambda>j.
    bindE (clocks 350000120 demo_al) (\<lambda>n.
    bindE (bindE (max10_addr_shift (echo_user []) 0x17ffff demo_al j) (ir_and_clocks (echo_user []) [0xf2, 0x02] RUN_TEST_IDLE n)) (\<lambda>j.
    bindE (writeXFM (echo_user []) (drop (12 + ufm_len demo_mem ! 1 * 4) (cb_bit_data (pf_base demo_pof)))
      (ufm_addr demo_mem + of_nat (ufm_len demo_mem ! 1)) 0 (ufm_len demo_mem ! 0) demo_al j) (\<lambda>j.
    bindE (max10_flow_disable (echo_user []) demo_al j) (ju_set_state (echo_user []) RUN_TEST_IDLE)))))"
  by (rule ufm1_writes_ufm0)
    (simp_all add: demo_pof_def pof_getData_def demo_al_def demo_mem_def max10_memory_map_def
      max10_flash_sectors_to_mask_def splitString.simps sector_bit_def)

end
