(* ===== verification/Anlogic.thy ===== *)
theory Anlogic
  imports Altera Bit_Files
begin

unbundle bit_operations_syntax

section \<open>Anlogic devices (\<open>anlogic.cpp\<close>)\<close>

text \<open>
  The class \<open>Anlogic\<close> on the methods of \<open>Jtag\<close>: the mode from the file type, loading of the configuration memory, and the transfers to the
  SPI flash, which the device passes on from its data register.  Parameters are the file (\<open>host\<close>), the content of
  uninitialised arrays (\<open>junk\<close>), the clock frequency of the cable and \<open>FlashInterface::write\<close>.
\<close>

record anlogic =
  an_filename :: string
  an_mode :: prog_mode
  an_target_freq :: u32

definition anlogic_ctor :: "string \<Rightarrow> string \<Rightarrow> prog_type_t \<Rightarrow> anlogic res" where
  "anlogic_ctor filename file_type prg_type =
     bindE (device_extension filename file_type) (\<lambda>ext.
     bindE (if prg_type = RD_FLASH then Inr READ_MODE
       else if ext = [] then Inr NONE_MODE
       else if ext = ''svf'' then Inr MEM_MODE
       else if ext = ''bit'' then Inr (if prg_type = WR_SRAM then MEM_MODE else SPI_MODE)
       else if prg_type = WR_FLASH then Inr SPI_MODE
       else Inl (Runtime_error ''incompatible file format'')) (\<lambda>mode.
     Inr \<lparr>an_filename = filename, an_mode = mode, an_target_freq = 0\<rparr>))"

subsection \<open>Loading the configuration memory\<close>

text \<open>Calls of \<open>shiftIR(code, IRLENGTH)\<close> and of \<open>toggleClk\<close>.\<close>

datatype an_step = Instr u8 | Ticks nat

fun an_steps :: "'j jtag_user \<Rightarrow> an_step list \<Rightarrow> 'j \<Rightarrow> 'j res" where
  "an_steps u [] j = Inr j"
| "an_steps u (Instr c # xs) j = bindE (ju_shiftIR u [c] 8 RUN_TEST_IDLE j) (an_steps u xs)"
| "an_steps u (Ticks n # xs) j = bindE (ju_toggleClk u n j) (an_steps u xs)"

abbreviation AN_REFRESH :: u8 where "AN_REFRESH \<equiv> 0x01"
abbreviation AN_JTAG_PROGRAM :: u8 where "AN_JTAG_PROGRAM \<equiv> 0x30"
abbreviation AN_SPI_PROGRAM :: u8 where "AN_SPI_PROGRAM \<equiv> 0x39"
abbreviation AN_CFG_IN :: u8 where "AN_CFG_IN \<equiv> 0x3b"
abbreviation AN_JTAG_START :: u8 where "AN_JTAG_START \<equiv> 0x3d"
abbreviation AN_BYPASS :: u8 where "AN_BYPASS \<equiv> 0xFF"

definition anlogic_reset :: "'j jtag_user \<Rightarrow> 'j \<Rightarrow> 'j res" where
  "anlogic_reset u = an_steps u [Instr AN_BYPASS, Instr AN_REFRESH, Ticks 15, Instr AN_BYPASS, Ticks 200000]"

function an_blocks :: "'j jtag_user \<Rightarrow> bytes \<Rightarrow> nat \<Rightarrow> 'j \<Rightarrow> 'j res" where
  "an_blocks u ptr len j =
     (if len = 0 then Inr j
      else
        let xfer_len = (if len > 512 then 512 else len); tx_end = (if len - xfer_len \<noteq> 0 then SHIFT_DR else RUN_TEST_IDLE) in
        bindE (ju_shiftDR u (Some ptr) None (xfer_len * 8) tx_end j) (\<lambda>(_, j). an_blocks u (drop xfer_len ptr) (len - xfer_len) j))"
  by pat_completeness auto
termination
  by (relation "measure (\<lambda>(u, p, n, j). n)") auto

declare an_blocks.simps [simp del]

definition an_before :: "an_step list" where
  "an_before = [Instr AN_BYPASS, Instr AN_BYPASS, Instr AN_REFRESH, Instr AN_BYPASS, Instr AN_SPI_PROGRAM, Ticks 50000,
     Instr AN_JTAG_PROGRAM, Ticks 15, Instr AN_CFG_IN, Ticks 15]"

definition an_after :: "an_step list" where
  "an_after = [Ticks 100, Instr AN_JTAG_START, Ticks 15, Instr AN_BYPASS, Ticks 1000, Instr 0x31, Ticks 100,
     Instr AN_JTAG_START, Ticks 15, Instr AN_BYPASS, Ticks 15]"

text \<open>\<open>AnlogicBitParser bit(_filename, reverseOrder); bit.parse();\<close>\<close>

definition open_anlogic :: "host \<Rightarrow> string \<Rightarrow> bool \<Rightarrow> (int \<times> cbp) res" where
  "open_anlogic h name rv = bindE (cbp_open (h_fs h) (h_decompress h) (h_stdin h) name) (anlogic_parse rv)"

text \<open>The result of the write to the flash is ignored, and so is a file that cannot be parsed.\<close>

definition anlogic_program :: "'j jtag_user \<Rightarrow> host \<Rightarrow> (nat \<Rightarrow> bytes \<Rightarrow> nat \<Rightarrow> bool \<Rightarrow> 'j \<Rightarrow> (bool \<times> 'j) res) \<Rightarrow>
    nat \<Rightarrow> bool \<Rightarrow> anlogic \<Rightarrow> 'j \<Rightarrow> 'j res" where
  "anlogic_program u h flash_write offset unprotect an j =
     (if an_mode an = NONE_MODE then Inr j
      else bindE (open_anlogic h (an_filename an) (an_mode an = MEM_MODE)) (\<lambda>(ret, bs).
        if ret = 1 then Inr j
        else
          let data = cb_bit_data bs; len = nat (cb_bit_length bs div 8) in
          if an_mode an = SPI_MODE then bindE (flash_write offset data len unprotect j) (\<lambda>(_, j). Inr j)
          else if an_mode an = MEM_MODE then
            bindE (an_steps u an_before j) (\<lambda>j. bindE (an_blocks u data len j) (an_steps u an_after))
          else Inr j))"

definition anlogic_idCode :: "'j jtag_user \<Rightarrow> (nat \<Rightarrow> bytes) \<Rightarrow> 'j \<Rightarrow> (u32 \<times> 'j) res" where
  "anlogic_idCode u junk j =
     bindE (ju_go_test_logic_reset u j) (\<lambda>j.
     bindE (ju_shiftIR u (6 # drop 1 (junk 4)) 8 RUN_TEST_IDLE j) (\<lambda>j.
     bindE (ju_shiftDR u (Some [0, 0, 0, 0]) (Some (junk 4)) 32 RUN_TEST_IDLE j) (\<lambda>(rx, j).
       let r = (case rx of None \<Rightarrow> [] | Some r \<Rightarrow> r) in
       Inr (ucast (r ! 0) OR push_bit 8 (ucast (r ! 1)) OR push_bit 16 (ucast (r ! 2)) OR push_bit 24 (ucast (r ! 3)), j))))"

subsection \<open>The SPI flash\<close>

definition anlogic_prepare_flash_access :: "'j jtag_user \<Rightarrow> ('j \<Rightarrow> u32) \<Rightarrow> (u32 \<Rightarrow> 'j \<Rightarrow> 'j res) \<Rightarrow> anlogic \<Rightarrow> 'j
    \<Rightarrow> (bool \<times> anlogic \<times> 'j) res" where
  "anlogic_prepare_flash_access u getfreq setfreq an j =
     (let an = an\<lparr>an_target_freq := getfreq j\<rparr> in
      bindE (if an_target_freq an > 6000000 then setfreq 6000000 j else Inr j) (\<lambda>j.
      bindE (an_steps u (replicate 5 (Instr AN_BYPASS) @ [Instr AN_REFRESH, Instr AN_BYPASS, Instr AN_SPI_PROGRAM] @ replicate 4 (Ticks 50000)) j)
        (\<lambda>j. Inr (True, an, j))))"

definition anlogic_restore_flash_access_frequency :: "(u32 \<Rightarrow> 'j \<Rightarrow> 'j res) \<Rightarrow> anlogic \<Rightarrow> 'j \<Rightarrow> 'j res" where
  "anlogic_restore_flash_access_frequency setfreq an j =
     (if an_target_freq an > 6000000 then setfreq (an_target_freq an) j else Inr j)"

definition anlogic_post_flash_access :: "'j jtag_user \<Rightarrow> 'j \<Rightarrow> (bool \<times> 'j) res" where
  "anlogic_post_flash_access u j = bindE (anlogic_reset u j) (\<lambda>j. Inr (True, j))"

text \<open>
  A transfer: an operation code in a scan of its own, then the bytes, mirrored, in another; \<open>pos\<close> is the place of the
  first byte that is received.
\<close>

definition an_transfer :: "'j jtag_user \<Rightarrow> bytes \<Rightarrow> bytes option \<Rightarrow> nat \<Rightarrow> nat \<Rightarrow> nat \<Rightarrow> 'j \<Rightarrow> (int \<times> bytes \<times> 'j) res" where
  "an_transfer u jtx jrx xfer_len pos len j =
     bindE (ju_shiftDR u (Some [0x60]) None 8 RUN_TEST_IDLE j) (\<lambda>(_, j).
     bindE (ju_shiftDR u (Some jtx) jrx (8 * xfer_len) RUN_TEST_IDLE j) (\<lambda>(jrx, j).
       Inr (0, case jrx of None \<Rightarrow> [] | Some r \<Rightarrow> map (\<lambda>i. late_byte (r ! (i + pos)) (r ! (i + pos + 1))) [0..<len], j)))"

definition anlogic_spi_put :: "'j jtag_user \<Rightarrow> (nat \<Rightarrow> bytes) \<Rightarrow> u8 \<Rightarrow> bytes option \<Rightarrow> bool \<Rightarrow> nat \<Rightarrow> 'j \<Rightarrow> (int \<times> bytes \<times> 'j) res" where
  "anlogic_spi_put u junk cmd tx rx len j =
     (let xfer_len = len + 1 + (if rx then 1 else 0) in
      if (case tx of None \<Rightarrow> False | Some t \<Rightarrow> length t < len) then Inl Out_of_bounds
      else
        let jtx = reverseByte cmd # (case tx of None \<Rightarrow> drop 1 (junk xfer_len) | Some t \<Rightarrow> map reverseByte (take len t) @ drop (len + 1) (junk xfer_len)) in
        an_transfer u jtx (if rx then Some (junk xfer_len) else None) xfer_len 1 len j)"

definition anlogic_spi_put_raw :: "'j jtag_user \<Rightarrow> (nat \<Rightarrow> bytes) \<Rightarrow> bytes option \<Rightarrow> bool \<Rightarrow> nat \<Rightarrow> 'j \<Rightarrow> (int \<times> bytes \<times> 'j) res" where
  "anlogic_spi_put_raw u junk tx rx len j =
     (let xfer_len = len + (if rx then 1 else 0) in
      if (case tx of None \<Rightarrow> False | Some t \<Rightarrow> length t < len) then Inl Out_of_bounds
      else
        let jtx = (case tx of None \<Rightarrow> junk xfer_len | Some t \<Rightarrow> map reverseByte (take len t) @ drop len (junk xfer_len)) in
        an_transfer u jtx (if rx then Some (junk xfer_len) else None) xfer_len 0 len j)"

text \<open>
  The polling loop; \<open>left\<close> counts down to the pass at which \<open>count == timeout\<close>, in which the condition is not looked at.  The
  buffer that is received into keeps its content from pass to pass.
\<close>

fun an_wait_loop :: "'j jtag_user \<Rightarrow> nat \<Rightarrow> bytes \<Rightarrow> bytes \<Rightarrow> u8 \<Rightarrow> u8 \<Rightarrow> 'j \<Rightarrow> (bool \<times> 'j) res" where
  "an_wait_loop u 0 tx rx msk cond j = Inr (True, j)"
| "an_wait_loop u (Suc left) tx rx msk cond j =
     bindE (ju_shiftDR u (Some [0x60]) None 8 RUN_TEST_IDLE j) (\<lambda>(_, j).
     bindE (ju_shiftDR u (Some tx) (Some rx) 24 RUN_TEST_IDLE j) (\<lambda>(r, j).
       let rx = (case r of None \<Rightarrow> rx | Some r \<Rightarrow> r) in
       if left = 0 then Inr (True, j)
       else if late_byte (rx ! 1) (rx ! 2) AND msk \<noteq> cond then an_wait_loop u left tx rx msk cond j
       else Inr (False, j)))"

definition ETIME :: int where "ETIME = 62"

definition anlogic_spi_wait :: "'j jtag_user \<Rightarrow> (nat \<Rightarrow> bytes) \<Rightarrow> u8 \<Rightarrow> u8 \<Rightarrow> u8 \<Rightarrow> nat \<Rightarrow> 'j \<Rightarrow> (int \<times> 'j) res" where
  "anlogic_spi_wait u junk cmd msk cond timeout j =
     bindE (an_wait_loop u (if timeout = 0 then 2 ^ 32 else timeout) (reverseByte cmd # drop 1 (junk 3)) (junk 3) msk cond j)
       (\<lambda>(late, j). Inr (if late then - ETIME else 0, j))"

subsection \<open>What the methods scan\<close>

fun step_scans :: "bool list \<Rightarrow> bool list \<Rightarrow> an_step list \<Rightarrow> scan list" where
  "step_scans ir_pre ir_post [] = []"
| "step_scans ir_pre ir_post (Instr c # xs) = IR_scan (ir_pre @ map (bit c) [0..<8] @ ir_post) # step_scans ir_pre ir_post xs"
| "step_scans ir_pre ir_post (Ticks n # xs) = step_scans ir_pre ir_post xs"

lemma bits_of_byte: "bits_of [c] 8 = map (bit c) [0..<8]"
  by (simp add: bits_of_def nth_bit_def)

context scan_port
begin

lemma an_steps_scans:
  assumes "ok j" "st j = RUN_TEST_IDLE"
  shows "\<exists>j'. an_steps u xs j = Inr j' \<and> ok j' \<and> st j' = RUN_TEST_IDLE \<and> log j' = log j @ step_scans ir_pre ir_post xs"
  using assms
proof (induction xs arbitrary: j)
  case (Cons x xs)
  show ?case
  proof (cases x)
    case (Instr c)
    from shiftIR_port [OF Cons.prems(1), of RUN_TEST_IDLE 8 "[c]"] Cons.prems(2) obtain j1 where
      1: "ju_shiftIR u [c] 8 RUN_TEST_IDLE j = Inr j1" "ok j1" "st j1 = RUN_TEST_IDLE"
        "log j1 = log j @ [IR_scan (ir_pre @ map (bit c) [0..<8] @ ir_post)]"
      unfolding bits_of_byte by auto
    with Cons.IH [OF 1(2,3)] show ?thesis unfolding Instr by auto
  next
    case (Ticks n)
    from toggleClk_port [OF Cons.prems, of n] obtain j1 where
      1: "ju_toggleClk u n j = Inr j1" "ok j1" "st j1 = RUN_TEST_IDLE" "log j1 = log j" by blast
    with Cons.IH [OF 1(2,3)] show ?thesis unfolding Ticks by auto
  qed
qed simp

lemma an_blocks_scans:
  assumes "ok j" "st j = RUN_TEST_IDLE \<and> bits = dr_pre \<or> st j = SHIFT_DR \<and> bits = opn j" "0 < len" "len \<le> length ptr"
  shows "\<exists>j'. an_blocks u ptr len j = Inr j' \<and> ok j' \<and> st j' = RUN_TEST_IDLE \<and>
    log j' = log j @ [DR_scan (bits @ bits_of ptr (8 * len) @ dr_post)]"
  using assms
proof (induction len arbitrary: j bits ptr rule: less_induct)
  case (less len)
  have s: "st j \<in> rests - {PAUSE_DR, EXIT1_DR} \<or> st j = SHIFT_DR" using less.prems(2) by auto
  show ?case
  proof (cases "len > 512")
    case True
    have l: "(0 :: nat) < 512 * 8" "512 * 8 \<le> 8 * length ptr" using True less.prems(4) by auto
    from shiftDR_port [OF less.prems(1) s, of SHIFT_DR "512 * 8" ptr None] l less.prems(2) obtain r j1 where
      1: "ju_shiftDR u (Some ptr) None (512 * 8) SHIFT_DR j = Inr (r, j1)" "ok j1" "st j1 = SHIFT_DR"
        "opn j1 = bits @ bits_of ptr (512 * 8)" "log j1 = log j" by auto
    from less.IH [of "len - 512" j1 "opn j1" "drop 512 ptr"] 1(2,3) True diff_le_mono [OF less.prems(4), of 512] obtain j' where
      2: "an_blocks u (drop 512 ptr) (len - 512) j1 = Inr j'" "ok j'" "st j' = RUN_TEST_IDLE"
        "log j' = log j1 @ [DR_scan (opn j1 @ bits_of (drop 512 ptr) (8 * (len - 512)) @ dr_post)]" by auto
    have "bits_of ptr (8 * 512) @ bits_of (drop 512 ptr) (8 * (len - 512)) = bits_of ptr (8 * len)"
      using bits_of_drop [of 512 "len - 512" ptr] True less.prems(4) by simp
    then show ?thesis using 1 2 True by (subst an_blocks.simps) (simp add: Let_def mult.commute)
  next
    case False
    have l: "0 < len * 8" "len * 8 \<le> 8 * length ptr" using less.prems(3,4) by auto
    from shiftDR_port [OF less.prems(1) s, of RUN_TEST_IDLE "len * 8" ptr None] l less.prems(2) obtain r j1 where
      "ju_shiftDR u (Some ptr) None (len * 8) RUN_TEST_IDLE j = Inr (r, j1)" "ok j1" "st j1 = RUN_TEST_IDLE"
        "log j1 = log j @ [DR_scan (bits @ bits_of ptr (8 * len) @ dr_post)]" by (auto simp: mult.commute)
    moreover have "an_blocks u (drop len ptr) 0 j1 = Inr j1" by (simp add: an_blocks.simps)
    ultimately show ?thesis using False less.prems(3) by (subst an_blocks.simps) (simp add: Let_def)
  qed
qed

lemma anlogic_program_scans:
  assumes "ok j" "st j \<in> rests - {PAUSE_IR, EXIT1_IR}" "an_mode an = MEM_MODE"
    and "open_anlogic h (an_filename an) True = Inr (0, bs)" "cb_bit_data bs \<noteq> []" "cb_bit_length bs = 8 * int (length (cb_bit_data bs))"
  shows "\<exists>j'. anlogic_program u h flash_write offset unprotect an j = Inr j' \<and> ok j' \<and> st j' = RUN_TEST_IDLE \<and>
    log j' = log j @ step_scans ir_pre ir_post an_before @
      [DR_scan (dr_pre @ bits_of (cb_bit_data bs) (8 * length (cb_bit_data bs)) @ dr_post)] @ step_scans ir_pre ir_post an_after"
proof -
  have s: "st j \<in> insert SHIFT_DR rests - {PAUSE_IR, EXIT1_IR}" using assms(2) by auto
  from shiftIR_port [OF assms(1) s, of RUN_TEST_IDLE 8 "[AN_BYPASS]"] assms(2) obtain j0 where
    0: "ju_shiftIR u [AN_BYPASS] 8 RUN_TEST_IDLE j = Inr j0" "ok j0" "st j0 = RUN_TEST_IDLE"
      "log j0 = log j @ [IR_scan (ir_pre @ map (bit AN_BYPASS) [0..<8] @ ir_post)]"
    unfolding bits_of_byte by (auto simp: finish_def rest_defs)
  from an_steps_scans [OF 0(2,3), of "tl an_before"] obtain j1 where
    1: "an_steps u (tl an_before) j0 = Inr j1" "ok j1" "st j1 = RUN_TEST_IDLE" "log j1 = log j0 @ step_scans ir_pre ir_post (tl an_before)"
    by blast
  have b: "an_before = Instr AN_BYPASS # tl an_before" by (simp add: an_before_def)
  have before: "an_steps u an_before j = Inr j1" "log j1 = log j @ step_scans ir_pre ir_post an_before"
    using 0 1 by (subst b, simp)+
  from an_blocks_scans [OF 1(2), of dr_pre "length (cb_bit_data bs)" "cb_bit_data bs"] 1(3) assms(5) obtain j2 where
    2: "an_blocks u (cb_bit_data bs) (length (cb_bit_data bs)) j1 = Inr j2" "ok j2" "st j2 = RUN_TEST_IDLE"
      "log j2 = log j1 @ [DR_scan (dr_pre @ bits_of (cb_bit_data bs) (8 * length (cb_bit_data bs)) @ dr_post)]" by auto
  from an_steps_scans [OF 2(2,3), of an_after] obtain j3 where
    3: "an_steps u an_after j2 = Inr j3" "ok j3" "st j3 = RUN_TEST_IDLE" "log j3 = log j2 @ step_scans ir_pre ir_post an_after" by blast
  have "anlogic_program u h flash_write offset unprotect an j = Inr j3"
    using assms(3,4,6) before(1) 2(1) 3(1) by (simp add: anlogic_program_def)
  then show ?thesis using 3 2(4) before(2) by auto
qed

end

lemma mirror_bits: "bits_of (map reverseByte bs) (8 * length bs) = msb_first bs"
  using bits_of_mirrored [of bs "[]" 0] by simp

end
