(* ===== verification/Usb_Scan.thy ===== *)
theory Usb_Scan
  imports Usb_Blaster Jtag_Scan
begin

unbundle bit_operations_syntax

section \<open>Clocks over the USB-Blaster\<close>

text \<open>
  \<open>UsbBlaster::toggleClk\<close> produces the requested number of clock periods, by bursts of up to 63
  bytes and single periods.  With this the adapter meets the contract \<open>jtag_cable_clk\<close>.
\<close>

lemma burst_header: "n \<le> 63 \<Longrightarrow> (of_nat n :: u8) AND 0x3f = of_nat n"
proof -
  assume n: "n \<le> 63"
  have "(of_nat n :: u8) AND 0x3f = take_bit 6 (of_nat n)" by (simp add: take_bit_eq_mask mask_eq_exp_minus_1)
  also have "\<dots> = of_nat n" using n by (intro word_unat_eq_iff [THEN iffD2]) (simp add: unsigned_take_bit_eq unat_of_nat take_bit_nat_eq_self)
  finally show ?thesis .
qed

lemma ub_flush_if:
  assumes "ub_idle c"
  obtains ret c' where "(if P then ub_flush c else (0, c)) = (ret, c')" "\<not> ret < 0" "ub_idle c'" "ub_edges c' = ub_edges c"
    "ub_curr_tms c' = ub_curr_tms c" "ub_pin_state c' = ub_pin_state c" "ub_buf c' = (if P then [] else ub_buf c)"
proof -
  obtain ret where "ub_flush c = (ret, flushed c)" "ret \<ge> 0" using ub_flush_eq [OF assms] by blast
  then show ?thesis using that [of "if P then ret else 0" "if P then flushed c else c"] assms by simp
qed

lemma ub_clk_bits_ok:
  assumes "ub_idle c" "length (ub_buf c) \<le> 64" "t \<in> {0, ub_tms_pin}" "d \<in> {0, ub_tdi_pin}"
  shows "\<exists>c' new. ub_clk_bits (DEFAULT_PINS OR DO_WRITE OR t OR d) n c = Inr (True, c') \<and> ub_idle c' \<and>
    length (ub_buf c') \<le> 64 \<and> ub_curr_tms c' = ub_curr_tms c \<and>
    ub_edges c' = ub_edges c @ new \<and> map fst new = replicate n (t \<noteq> 0)"
  using assms(1,2)
proof (induction n arbitrary: c)
  case (Suc n)
  let ?p = "DEFAULT_PINS OR DO_WRITE OR t OR d"
  let ?v = "DEFAULT_PINS OR t OR d" and ?w = "DEFAULT_PINS OR 0 OR t OR d OR ub_tck_pin"
  from ub_flush_if [OF Suc.prems(1), of "length (ub_buf c) + 2 > 64"] obtain ret c1 where
    f: "(if length (ub_buf c) + 2 > 64 then ub_flush c else (0, c)) = (ret, c1)" "\<not> ret < 0" "ub_idle c1"
      "ub_edges c1 = ub_edges c" "ub_curr_tms c1 = ub_curr_tms c" "ub_pin_state c1 = ub_pin_state c"
      "ub_buf c1 = (if length (ub_buf c) + 2 > 64 then [] else ub_buf c)" by blast
  have p: "p_left (ub_pin_state c1) = 0" using f(3) by (simp add: ub_idle_def)
  note per = period_pins [OF assms(3,4) _ p, of 0]
  let ?c2 = "queued [?v, ?w] c1"
  have c2: "ub_idle ?c2" using f(3) per(2) by (simp add: ub_idle_def)
  have e2: "ub_edges ?c2 = ub_edges c @ [(t \<noteq> 0, d \<noteq> 0)]" using per(1) f(4) by simp
  have push: "ub_pushes [?p, ?p OR ub_tck_pin] c1 = Inr ?c2"
    by (rule trans [OF _ ub_pushes_eq [of c1 "[?v, ?w]"]]) (use f(7) in \<open>auto simp: or.assoc\<close>)
  have "length (ub_buf ?c2) \<le> 64" using f(7) by simp
  from Suc.IH [OF c2 this] obtain c' new where
    r: "ub_clk_bits ?p n ?c2 = Inr (True, c')" "ub_idle c'" "length (ub_buf c') \<le> 64" "ub_curr_tms c' = ub_curr_tms ?c2"
      "ub_edges c' = ub_edges ?c2 @ new" "map fst new = replicate n (t \<noteq> 0)" by blast
  have "ub_clk_bits ?p (Suc n) c = Inr (True, c')" using f(1,2) push r(1) by simp
  moreover have "ub_edges c' = ub_edges c @ (t \<noteq> 0, d \<noteq> 0) # new" using r(5) e2 by simp
  ultimately show ?case using r(2,3,4,6) f(5)
    by (intro exI [of _ c'] exI [of _ "(t \<noteq> 0, d \<noteq> 0) # new"]) simp
qed simp

lemma ub_clk_bytes_ok:
  assumes "ub_idle c" "length (ub_buf c) \<le> 64" "\<not> p_tms (ub_pin_state c)"
  shows "\<exists>c' new m. ub_clk_bytes content n c = Inr (True, m, c') \<and> ub_idle c' \<and> length (ub_buf c') \<le> 64 \<and>
    ub_curr_tms c' = ub_curr_tms c \<and> m \<le> n \<and> ub_edges c' = ub_edges c @ new \<and> map fst new = replicate (n - m) False"
  using assms
proof (induction content n c rule: ub_clk_bytes.induct)
  case (1 content n c)
  show ?case
  proof (cases "n < 8")
    case True
    then show ?thesis using "1.prems" by (subst ub_clk_bytes.simps) simp
  next
    case False
    let ?k = "burst (n div 8)"
    have k: "0 < ?k" "?k \<le> 63" "8 * ?k \<le> n" using False by (auto simp: burst_def min_def)
    from ub_flush_if [OF "1.prems"(1), of "length (ub_buf c) + ?k + 1 > 64"] obtain ret c1 where
      f: "(if length (ub_buf c) + ?k + 1 > 64 then ub_flush c else (0, c)) = (ret, c1)" "\<not> ret < 0" "ub_idle c1"
        "ub_edges c1 = ub_edges c" "ub_curr_tms c1 = ub_curr_tms c" "ub_pin_state c1 = ub_pin_state c"
        "ub_buf c1 = (if length (ub_buf c) + ?k + 1 > 64 then [] else ub_buf c)" by blast
    let ?bs = "replicate ?k content"
    let ?h = "DO_SHIFT OR DO_WRITE OR (of_nat (length ?bs) AND 0x3f) :: u8"
    have p: "p_left (ub_pin_state c1) = 0" using f(3) by (simp add: ub_idle_def)
    note burst = decode_burst [of ?bs DO_WRITE, OF _ _ _ p]
    let ?c2 = "queued (?h # ?bs) c1"
    have c2: "ub_idle ?c2" "\<not> p_tms (ub_pin_state ?c2)" using f(3,6) burst(2) k "1.prems"(3) by (simp_all add: ub_idle_def)
    have e2: "ub_edges ?c2 = ub_edges c @ map (\<lambda>i. (False, nth_bit ?bs i)) [0..<8 * ?k]"
      using burst(1) k f(4,6) "1.prems"(3) by simp
    have push: "ub_pushes ((DO_SHIFT OR DO_WRITE OR of_nat ?k) # ?bs) c1 = Inr ?c2"
      by (rule trans [OF _ ub_pushes_eq [of c1 "?h # ?bs"]]) (use f(7) k in \<open>auto simp: burst_header\<close>)
    have "length (ub_buf ?c2) \<le> 64" using f(7) k by simp
    from "1.IH" [OF False refl f(1) [symmetric] refl f(2) _ c2(1) this c2(2)] obtain c' new m where
      r: "ub_clk_bytes content (n - 8 * ?k) ?c2 = Inr (True, m, c')" "ub_idle c'" "length (ub_buf c') \<le> 64"
        "ub_curr_tms c' = ub_curr_tms ?c2" "m \<le> n - 8 * ?k" "ub_edges c' = ub_edges ?c2 @ new"
        "map fst new = replicate (n - 8 * ?k - m) False" using push by blast
    let ?new = "map (\<lambda>i. (False, nth_bit ?bs i)) [0..<8 * ?k] @ new"
    have "ub_clk_bytes content n c = Inr (True, m, c')"
      using False f(1,2) push r(1) by (subst ub_clk_bytes.simps) (simp add: Let_def)
    moreover have "map fst ?new = replicate (n - m) False"
    proof -
      have "n - m = 8 * ?k + (n - 8 * ?k - m)" using r(5) k(3) by linarith
      then show ?thesis using r(7) by (simp add: replicate_add comp_def map_replicate_const)
    qed
    moreover have "ub_edges c' = ub_edges c @ ?new" using r(6) e2 by simp
    ultimately show ?thesis using r(2,3,4,5) f(5) by (intro exI [of _ c'] exI [of _ ?new] exI [of _ m]) auto
  qed
qed

text \<open>The pins after the clocks are set once more, and everything is sent.\<close>

lemma ub_rest_flush:
  assumes "ub_idle c" "length (ub_buf c) \<le> 64" "t \<in> {0, ub_tms_pin}" "d \<in> {0, ub_tdi_pin}"
  shows "\<exists>c'. bindE (ub_push (DEFAULT_PINS OR DO_WRITE OR t OR d) (ub_make_room c)) (\<lambda>c. Inr (snd (ub_flush c))) = Inr c' \<and>
    ub_idle c' \<and> ub_buf c' = [] \<and> ub_curr_tms c' = ub_curr_tms c \<and> ub_edges c' = ub_edges c \<and> p_tms (ub_pin_state c') = (t \<noteq> 0)"
proof -
  let ?c = "ub_make_room c" and ?v = "DEFAULT_PINS OR t OR d"
  obtain r0 where r0: "ub_flush c = (r0, flushed c)" using ub_flush_eq [OF assms(1)] by blast
  have c: "ub_idle ?c" "length (ub_buf ?c) < 64" "ub_edges ?c = ub_edges c" "ub_curr_tms ?c = ub_curr_tms c"
    using assms(1,2) r0 by (auto simp: ub_make_room_def)
  have p: "p_left (ub_pin_state ?c) = 0" using c(1) by (simp add: ub_idle_def)
  note rest = rest_pins [OF assms(3,4) p]
  have q: "ub_idle (queued [?v] ?c)" "ub_edges (queued [?v] ?c) = ub_edges c" "p_tms (ub_pin_state (queued [?v] ?c)) = (t \<noteq> 0)"
    using c rest by (simp_all add: ub_idle_def)
  obtain r1 where r1: "ub_flush (queued [?v] ?c) = (r1, flushed (queued [?v] ?c))" using ub_flush_eq [OF q(1)] by blast
  have push: "ub_push (DEFAULT_PINS OR DO_WRITE OR t OR d) ?c = Inr (queued [?v] ?c)"
    using ub_push_eq [OF c(2), of ?v] by (simp add: or.assoc)
  show ?thesis unfolding push bindE.simps r1 snd_conv using q c(4) by (simp del: queued_simps(4,5))
qed

lemma ub_toggleClk_ok:
  assumes "ub_inv c" "ub_edges c \<noteq> []" "fst (last (ub_edges c)) = (tms \<noteq> 0)"
  shows "\<exists>ret c' new. ub_toggleClk tms tdi n c = Inr (ret, c') \<and> 0 \<le> ret \<and> ub_inv c' \<and>
    ub_edges c' = ub_edges c @ new \<and> map fst new = replicate n (tms \<noteq> 0)"
proof -
  define t where "t = (if tms \<noteq> 0 then ub_tms_pin else 0 :: u8)"
  define d where "d = (if tdi \<noteq> 0 then ub_tdi_pin else 0 :: u8)"
  have td: "t \<in> {0, ub_tms_pin}" "d \<in> {0, ub_tdi_pin}" "(t \<noteq> 0) = (tms \<noteq> 0)" by (auto simp: t_def d_def)
  have idle: "ub_idle c" "length (ub_buf c) \<le> 64" and cur: "(ub_curr_tms c \<noteq> 0) = (tms \<noteq> 0)"
    using assms by (auto simp: ub_inv_def)
  have first: "\<exists>c1 new m. (if tms = 0 \<and> n \<ge> 8 then bindE (ub_push (DEFAULT_PINS OR DO_WRITE) (ub_make_room c)) (\<lambda>c.
        ub_clk_bytes (if tdi \<noteq> 0 then 0xff else 0) n (snd (ub_flush c))) else Inr (True, n, c)) = Inr (True, m, c1) \<and>
      ub_idle c1 \<and> length (ub_buf c1) \<le> 64 \<and> ub_curr_tms c1 = ub_curr_tms c \<and> m \<le> n \<and>
      ub_edges c1 = ub_edges c @ new \<and> map fst new = replicate (n - m) (tms \<noteq> 0)"
  proof (cases "tms = 0 \<and> n \<ge> 8")
    case True
    from ub_rest_flush [OF idle, of 0 0] obtain c0 where
      r: "bindE (ub_push (DEFAULT_PINS OR DO_WRITE) (ub_make_room c)) (\<lambda>c. Inr (snd (ub_flush c))) = Inr c0" "ub_idle c0"
        "ub_buf c0 = []" "ub_curr_tms c0 = ub_curr_tms c" "ub_edges c0 = ub_edges c" "\<not> p_tms (ub_pin_state c0)" by auto
    then have eq: "bindE (ub_push (DEFAULT_PINS OR DO_WRITE) (ub_make_room c)) (\<lambda>c. f (snd (ub_flush c))) = f c0"
      for f :: "ub \<Rightarrow> (bool \<times> nat \<times> ub) res"
      by (cases "ub_push (DEFAULT_PINS OR DO_WRITE) (ub_make_room c)") auto
    show ?thesis using True ub_clk_bytes_ok [OF r(2) _ r(6), of "if tdi \<noteq> 0 then 0xff else 0" n] r(3,4,5) unfolding eq by auto
  next
    case False
    then show ?thesis using idle by auto
  qed
  then obtain c1 new m where a: "(if tms = 0 \<and> n \<ge> 8 then bindE (ub_push (DEFAULT_PINS OR DO_WRITE) (ub_make_room c)) (\<lambda>c.
        ub_clk_bytes (if tdi \<noteq> 0 then 0xff else 0) n (snd (ub_flush c))) else Inr (True, n, c)) = Inr (True, m, c1)"
      "ub_idle c1" "length (ub_buf c1) \<le> 64" "ub_curr_tms c1 = ub_curr_tms c" "m \<le> n"
      "ub_edges c1 = ub_edges c @ new" "map fst new = replicate (n - m) (tms \<noteq> 0)" by blast
  from ub_clk_bits_ok [OF a(2,3) td(1,2), of m] obtain c2 new2 where
    b: "ub_clk_bits (DEFAULT_PINS OR DO_WRITE OR t OR d) m c1 = Inr (True, c2)" "ub_idle c2" "length (ub_buf c2) \<le> 64"
      "ub_curr_tms c2 = ub_curr_tms c1" "ub_edges c2 = ub_edges c1 @ new2" "map fst new2 = replicate m (tms \<noteq> 0)" using td(3) by auto
  from ub_rest_flush [OF b(2,3) td(1,2)] obtain c3 where
    r: "bindE (ub_push (DEFAULT_PINS OR DO_WRITE OR t OR d) (ub_make_room c2)) (\<lambda>c. Inr (snd (ub_flush c))) = Inr c3"
      "ub_idle c3" "ub_buf c3 = []" "ub_curr_tms c3 = ub_curr_tms c2" "ub_edges c3 = ub_edges c2" by blast
  have fin: "bindE (ub_push (DEFAULT_PINS OR DO_WRITE OR t OR d) (ub_make_room c2)) (\<lambda>c. Inr (int n, snd (ub_flush c))) = Inr (int n, c3)"
    using r(1) by (cases "ub_push (DEFAULT_PINS OR DO_WRITE OR t OR d) (ub_make_room c2)") auto
  have run: "ub_toggleClk tms tdi n c = Inr (int n, c3)"
    unfolding ub_toggleClk_def a(1) bindE.simps prod.case Let_def t_def [symmetric] d_def [symmetric] b(1) using fin by simp
  have e: "ub_edges c3 = ub_edges c @ (new @ new2)" using r(5) b(5) a(6) by simp
  have m: "map fst (new @ new2) = replicate n (tms \<noteq> 0)" using a(5,7) b(6) by (simp flip: replicate_add)
  have "ub_inv c3"
  proof (cases "new @ new2 = []")
    case True
    then show ?thesis using r(2,3,4) b(4) a(4) e assms by (simp add: ub_inv_def)
  next
    case False
    then have "fst (last (new @ new2)) = (tms \<noteq> 0)" using last_map [OF False, of fst] m by (cases n) (auto split: if_splits)
    then show ?thesis using r(2,3,4) b(4) a(4) e False cur by (simp add: ub_inv_def)
  qed
  then show ?thesis using run e m by (intro exI [of _ "int n"] exI [of _ c3] exI [of _ "new @ new2"]) simp
qed

interpretation ubc: jtag_cable_clk ub_ops ub_inv ub_edges
  by unfold_locales (unfold ub_ops_def jtag_ops.select_convs, rule ub_toggleClk_ok)

end
