(* ===== verification/Usb_Port.thy ===== *)
theory Usb_Port
  imports Jtag_Session Svf Altera Max10 Anlogic Usb_Scan
begin

unbundle bit_operations_syntax

section \<open>The scan port over the USB-Blaster\<close>

text \<open>
  The interpretation of the scan port on \<open>jtag.cpp\<close> over \<open>usbBlaster.cpp\<close>, in which the lemmas of the devices and of the
  SVF player become statements on the clock edges of the adapter, and the property of whole sessions.
\<close>

interpretation ubp: wired_port ub_ops ub_inv ub_edges s0 ir_pre ir_post dr_pre dr_post
  for s0 ir_pre ir_post dr_pre dr_post
  by unfold_locales

text \<open>A port over an adapter that has just been reset.\<close>

lemma demo_port: "\<exists>j. port_ok ub_inv ub_edges RUN_TEST_IDLE [] [] [] [] j \<and> j_state j = TEST_LOGIC_RESET"
proof -
  have c: "j_cable (jtag_init demo_ub) = demo_ub" by (simp add: jtag_init_def)
  from ub.go_test_logic_reset_ok [of "jtag_init demo_ub"] demo_ub_ok(1) demo_ub_wf obtain j where
    j: "ub_inv (j_cable j)" "same_cfg (jtag_init demo_ub) j" "j_state j = TEST_LOGIC_RESET" "synced ub_edges RUN_TEST_IDLE j"
    unfolding c by auto
  have "ub_edges (j_cable j) \<noteq> []" using j(3,4) by (auto simp: synced_def)
  then have "port_in_use ub_inv ub_edges RUN_TEST_IDLE j" using j(1,4) by (simp add: port_in_use_def)
  moreover have "padding [] [] [] [] j"
    unfolding padding_cfg [OF j(2)] by (simp add: padding_def jtag_init_def)
  ultimately show ?thesis using j(3) by (auto simp: port_ok_def)
qed

lemma demo_port_idle: "\<exists>j. port_ok ub_inv ub_edges RUN_TEST_IDLE [] [] [] [] j \<and> j_state j = RUN_TEST_IDLE"
proof -
  obtain j where j: "port_ok ub_inv ub_edges RUN_TEST_IDLE [] [] [] [] j" "j_state j = TEST_LOGIC_RESET" using demo_port by blast
  from ubp.port.set_state_port [OF j(1), of RUN_TEST_IDLE] j(2) show ?thesis by auto
qed

text \<open>
  C16: well-formed sessions do not go wrong.  Whatever permitted calls of \<open>set_state\<close>, \<open>shiftIR\<close>, \<open>shiftDR\<close> and
  \<open>toggleClk\<close> are made on a port over the USB-Blaster in use, all succeed, the port stays well formed (the buffers of
  object and cable within their bounds, the recorded state that of the chain), and each call
  has exactly its effect on the scans of the chain, data scans kept open over several calls included.
\<close>

theorem session_well_formed:
  assumes "port_ok ub_inv ub_edges s0 ir_pre ir_post dr_pre dr_post j" "all_permitted (j_state j) cs"
  shows "\<exists>j'. do_calls (jtag_methods ub_ops) cs j = Inr j' \<and> port_ok ub_inv ub_edges s0 ir_pre ir_post dr_pre dr_post j' \<and>
    calls_effect ir_pre ir_post dr_pre dr_post
      (j_state j, ob_open (port_view ub_edges s0 j), settled (port_view ub_edges s0 j)) cs
      (j_state j', ob_open (port_view ub_edges s0 j'), settled (port_view ub_edges s0 j'))"
  using ubp.port.calls_ok [OF assms] .

lemma closing_effect:
  "call_effect ir_pre ir_post dr_pre dr_post (SHIFT_DR, opn, xs) (Send_DR tx len RUN_TEST_IDLE) v \<Longrightarrow>
     snd (snd v) = xs @ [DR_scan (opn @ bits_of tx len @ dr_post)]"
  "call_effect ir_pre ir_post dr_pre dr_post (s, opn, xs) (Send_DR tx len SHIFT_DR) v \<Longrightarrow> s \<noteq> SHIFT_DR \<Longrightarrow>
     v = (SHIFT_DR, dr_pre @ bits_of tx len, xs)"
  by (auto elim: call_effect.cases)

theorem session_well_formed_witness:
  "\<exists>j j'. port_ok ub_inv ub_edges RUN_TEST_IDLE [] [] [] [] j \<and>
    do_calls (jtag_methods ub_ops) [Send_DR [0x5A] 8 SHIFT_DR, Send_DR [0x01] 3 RUN_TEST_IDLE] j = Inr j' \<and>
    settled (port_view ub_edges RUN_TEST_IDLE j') = settled (port_view ub_edges RUN_TEST_IDLE j) @
      [DR_scan (bits_of [0x5A] 8 @ bits_of [0x01] 3)]"
proof -
  obtain j where j: "port_ok ub_inv ub_edges RUN_TEST_IDLE [] [] [] [] j" "j_state j = RUN_TEST_IDLE" using demo_port_idle by blast
  have "all_permitted (j_state j) [Send_DR [0x5A] 8 SHIFT_DR, Send_DR [0x01] 3 RUN_TEST_IDLE]"
    by (simp add: j(2) rest_defs)
  from session_well_formed [OF j(1) this] j show ?thesis by (fastforce dest: closing_effect)
qed

end
