(* ===== verification/Altera_Usb.thy ===== *)
theory Altera_Usb
  imports Usb_Port
begin

unbundle bit_operations_syntax

section \<open>Loading a device through the USB-Blaster\<close>

text \<open>
  The path of the project from a bitstream file to the wire: the constructor and \<open>program\<close> of
  \<open>altera.cpp\<close>, on \<open>jtag.cpp\<close>, on \<open>usbBlaster.cpp\<close>.  The statements are on the clock edges the adapter produces.
\<close>

lemma altera_ctor_mem:
  assumes "altera_ctor idcode filename file_type WR_SRAM package soj_path vfy sectors skip_bridge skip_reset = Inr al"
    and "al_file_extension al \<in> {''rbf'', ''rpd''}" "map_of fpga_list idcode = Some f" "fm_family f \<noteq> ''MAX 10''"
  shows "al_mode al = MEM_MODE" "al_fpga_family al = CYCLONE_MISC" "al_filename al = filename"
  using assms by (auto simp: altera_ctor_def altera_mode_def bindE_Inr_iff Let_def split: if_splits)

lemma open_raw_length: "open_raw h name rv = Inr bs \<Longrightarrow> cb_bit_length bs = 8 * int (length (cb_bit_data bs))"
  by (auto simp: open_raw_def raw_parse_def bindE_Inr_iff Let_def)

text \<open>
  C17: writing a bitstream to a Cyclone device through the USB-Blaster.  For a file in raw binary format and a
  device that is not a MAX 10, constructor and \<open>program\<close> succeed, and what the adapter's clock edges
  make the chain take over is, in this order: the instruction 002 and the bits of the file, least
  significant bit first, as one data scan; the instruction 004 and 864 zero bits; 003; and BYPASS.  If the
  length of the file is a multiple of 512 bytes, the data scan has one more bit, and the bits for the devices
  behind are missing.
\<close>

theorem altera_loads_bitstream:
  assumes "altera_ctor idcode filename file_type WR_SRAM package soj_path vfy sectors skip_bridge skip_reset = Inr al"
    and "al_file_extension al \<in> {''rbf'', ''rpd''}" "map_of fpga_list idcode = Some f" "fm_family f \<noteq> ''MAX 10''"
    and "open_raw h filename False = Inr bs" "cb_bit_data bs \<noteq> []" "0 < period"
    and "port_ok ub_inv ub_edges s0 ir_pre ir_post dr_pre dr_post j" "j_state j \<in> rests - {PAUSE_IR, EXIT1_IR}"
  shows "\<exists>al' j' bits. altera_program (jtag_methods ub_ops) h max10 flash_write period offset unprotect al j = Inr (al', j') \<and>
    j_state j' = RUN_TEST_IDLE \<and> bitstream_scan dr_pre dr_post (cb_bit_data bs) bits \<and>
    settled (port_view ub_edges s0 j') = settled (port_view ub_edges s0 j) @
      [IR_scan (ir_pre @ ir_code 0x002 @ ir_post), DR_scan bits, IR_scan (ir_pre @ ir_code 0x004 @ ir_post),
       DR_scan (dr_pre @ replicate 864 False @ dr_post), IR_scan (ir_pre @ ir_code 0x003 @ ir_post),
       IR_scan (ir_pre @ ir_code 0x3FF @ ir_post)]"
proof -
  note m = altera_ctor_mem [OF assms(1-4)]
  let ?al = "al\<lparr>al_clk_period := period\<rparr>"
  have st: "j_state j \<in> insert SHIFT_DR rests - {PAUSE_IR, EXIT1_IR, SHIFT_DR}" using assms(9) by auto
  have "0 < al_clk_period ?al" using assms(7) by simp
  from ubp.port.programMem_scans [OF assms(8) st this open_raw_length [OF assms(5)] assms(6)]
  show ?thesis using m assms(5) by (auto simp: altera_program_def)
qed

definition demo_host :: host where
  "demo_host = \<lparr>h_getenv = (\<lambda>_. None), h_data_dir = ''/usr/local/share'', h_has_zlib = True,
     h_fs = [''top.rbf'' \<mapsto> [CHR 0xFF, CHR 0x6A]], h_decompress = (\<lambda>_. None), h_stdin = None\<rparr>"

definition demo_altera :: altera where
  "demo_altera = \<lparr>al_filename = ''top.rbf'', al_file_extension = ''rbf'', al_mode = MEM_MODE, al_verify = False,
     al_skip_load_bridge = False, al_skip_reset = False, al_device_package = [], al_spiOverJtagPath = [],
     al_vir_addr = 0x1000, al_vir_length = 14, al_clk_period = 1, al_fpga_family = CYCLONE_MISC, al_idcode = 0x020f30dd,
     al_flash_sectors = []\<rparr>"

lemma demo_part: "map_of fpga_list 0x020f30dd = Some (fpga ''altera'' ''cyclone III/IV/10 LP'' ''EP3C25/EP4CE22/10CL025'' 10)"
  by code_simp

lemma demo_ctor: "altera_ctor 0x020f30dd ''top.rbf'' [] WR_SRAM [] [] False [] False False = Inr demo_altera"
  by (simp add: altera_ctor_def demo_part device_extension_def last_dot_def altera_mode_def demo_altera_def Let_def)

lemma demo_open: "open_raw demo_host ''top.rbf'' False = Inr (cbp0\<lparr>cb_bit_data := [0xFF, 0x6A], cb_bit_length := 16\<rparr>)"
  by (simp add: open_raw_def cbp_open_def demo_host_def last_dot_def extension_of_def raw_parse_def mirror_def of_char_def)

theorem altera_loads_bitstream_witness:
  "\<exists>j al' j' bits. port_ok ub_inv ub_edges RUN_TEST_IDLE [] [] [] [] j \<and>
    altera_program (jtag_methods ub_ops) demo_host (\<lambda>_. Inr) (\<lambda>_ _ _ _ j. Inr (True, j)) 166 0 False demo_altera j = Inr (al', j') \<and>
    bitstream_scan [] [] [0xFF, 0x6A] bits \<and>
    settled (port_view ub_edges RUN_TEST_IDLE j') = settled (port_view ub_edges RUN_TEST_IDLE j) @
      [IR_scan (ir_code 0x002), DR_scan bits, IR_scan (ir_code 0x004), DR_scan (replicate 864 False),
       IR_scan (ir_code 0x003), IR_scan (ir_code 0x3FF)]"
proof -
  obtain j where j: "port_ok ub_inv ub_edges RUN_TEST_IDLE [] [] [] [] j" "j_state j = TEST_LOGIC_RESET" using demo_port by blast
  have "j_state j \<in> rests - {PAUSE_IR, EXIT1_IR}" using j(2) by simp
  from altera_loads_bitstream [OF demo_ctor _ demo_part _ demo_open _ _ j(1) this, of 166 "\<lambda>_. Inr" "\<lambda>_ _ _ _ j. Inr (True, j)" 0 False]
  show ?thesis using j(1) by (auto simp: demo_altera_def)
qed

text \<open>
  C23: sending to the SPI flash through the bridge over the USB-Blaster.  \<open>spi_put\<close> selects the virtual instruction register
  and shifts the command with its most significant bit first and the address of the bridge, then
  selects the virtual data register and shifts the data, again with the most significant bit of each byte first,
  which is the order of the SPI bus; behind the data come the bits of an uninitialised byte.
\<close>

theorem altera_spi_put_sends:
  assumes "port_ok ub_inv ub_edges s0 ir_pre ir_post dr_pre dr_post j" "j_state j \<in> rests"
    and "al_vir_length al = 14" "al_vir_addr al = 0x1000" "len \<le> length t" "length (junk (len + 1)) = len + 1"
  shows "\<exists>got j'. altera_spi_put (jtag_methods ub_ops) junk cmd (Some t) False len al j = Inr (0, got, j') \<and> j_state j' = UPDATE_DR \<and>
    settled (port_view ub_edges s0 j') = settled (port_view ub_edges s0 j) @
      [IR_scan (ir_pre @ ir_code 0x00E @ ir_post), DR_scan (dr_pre @ vir_bits cmd @ dr_post),
       IR_scan (ir_pre @ ir_code 0x00C @ ir_post),
       DR_scan (dr_pre @ msb_first (take len t) @ bits_of (drop len (junk (len + 1))) 8 @ dr_post)]"
  using ubp.port.spi_put_scans [of s0 ir_pre ir_post dr_pre dr_post j al len t "len + 1" False junk cmd] assms by auto

theorem altera_spi_put_sends_witness:
  "\<exists>j got j'. altera_spi_put (jtag_methods ub_ops) (\<lambda>n. replicate n 0) 0x9F (Some [0x12]) False 1 demo_altera j = Inr (0, got, j') \<and>
    settled (port_view ub_edges RUN_TEST_IDLE j') = settled (port_view ub_edges RUN_TEST_IDLE j) @
      [IR_scan (ir_code 0x00E), DR_scan (vir_bits 0x9F), IR_scan (ir_code 0x00C), DR_scan (msb_first [0x12] @ bits_of [0] 8)]"
proof -
  obtain j where j: "port_ok ub_inv ub_edges RUN_TEST_IDLE [] [] [] [] j" "j_state j = TEST_LOGIC_RESET" using demo_port by blast
  have "j_state j \<in> rests" using j(2) by simp
  from altera_spi_put_sends [OF j(1) this, of demo_altera 1 "[0x12]" "\<lambda>n. replicate n 0" "0x9F"]
  show ?thesis by (auto simp: demo_altera_def)
qed

text \<open>
  C18: programming the flash of a MAX 10 through the USB-Blaster.  \<open>writeXFM\<close> finishes in Run-Test/Idle, and what
  the adapter's clock edges make a device that follows the in-system programming instructions
  (\<open>m10_scan\<close>) take over, clears in its flash, from the given address on, the bits that are zero in the data, word
  by word, also across the blocks of 4096 bits after which the address is set again, and leaves every other
  word as it was.
\<close>

theorem max10_write_programs:
  assumes "port_ok ub_inv ub_edges s0 [] [] [] [] j" "j_state j = RUN_TEST_IDLE" "0 < al_clk_period al"
    and "offset + 4 * len \<le> length cfg" "unat addr + len \<le> 2 ^ 23"
  shows "\<exists>j'. writeXFM (jtag_methods ub_ops) cfg addr offset len al j = Inr j' \<and> j_state j' = RUN_TEST_IDLE \<and>
    md_flash (m10_after d (settled (port_view ub_edges s0 j'))) =
      programmed (md_flash (m10_after d (settled (port_view ub_edges s0 j)))) addr (drop offset cfg) len"
  using ubp.port.writeXFM_scans [of "[]" "[]" "[]" "[]", OF refl refl refl refl assms(3,1,2,4,5)] by blast

lemma demo_word: "le32 [0x12, 0x34, 0x56, 0x78] = 0x78563412"
  by code_simp

definition demo_max10 :: m10_dev where
  "demo_max10 = \<lparr>md_ir = [], md_addr = 0, md_flash = (\<lambda>_. 0xFFFFFFFF)\<rparr>"

theorem max10_write_programs_witness:
  "\<exists>j j'. port_ok ub_inv ub_edges RUN_TEST_IDLE [] [] [] [] j \<and>
    writeXFM (jtag_methods ub_ops) (replicate 4 0xAA @ [0x12, 0x34, 0x56, 0x78]) 0x100 4 1 demo_altera j = Inr j' \<and>
    md_flash (m10_after demo_max10 (settled (port_view ub_edges RUN_TEST_IDLE j'))) 0x100 =
      md_flash (m10_after demo_max10 (settled (port_view ub_edges RUN_TEST_IDLE j))) 0x100 AND 0x78563412"
proof -
  obtain j where j: "port_ok ub_inv ub_edges RUN_TEST_IDLE [] [] [] [] j" "j_state j = RUN_TEST_IDLE" using demo_port_idle by blast
  define cfg :: bytes where "cfg = replicate 4 0xAA @ [0x12, 0x34, 0x56, 0x78]"
  have "4 + 4 * 1 \<le> length cfg" "drop 4 cfg = [0x12, 0x34, 0x56, 0x78]" by (simp_all add: cfg_def)
  with max10_write_programs [OF j, of demo_altera 4 1 cfg "0x100" demo_max10] obtain j' where
    w: "writeXFM (jtag_methods ub_ops) cfg 0x100 4 1 demo_altera j = Inr j'" and
    f: "md_flash (m10_after demo_max10 (settled (port_view ub_edges RUN_TEST_IDLE j'))) =
      programmed (md_flash (m10_after demo_max10 (settled (port_view ub_edges RUN_TEST_IDLE j)))) 0x100 [0x12, 0x34, 0x56, 0x78] 1"
    by (auto simp: demo_altera_def)
  have "programmed f 0x100 [0x12, 0x34, 0x56, 0x78] 1 0x100 = f 0x100 AND 0x78563412" for f
    unfolding programmed_def by (simp add: demo_word)
  then show ?thesis using j(1) w unfolding cfg_def f [symmetric] by (metis f)
qed

end
