(* ===== verification/Svf_Usb.thy ===== *)
theory Svf_Usb
  imports Usb_Port
begin

section \<open>Playing an SVF file through the USB-Blaster\<close>

text \<open>
  The SVF player on \<open>jtag.cpp\<close> on \<open>usbBlaster.cpp\<close>: what the clock edges of the adapter make the chain take over.
\<close>

text \<open>
  C19: a file of SVF instructions is played as written.  For every list of \<open>SIR\<close>, \<open>SDR\<close>, \<open>RUNTEST\<close>, \<open>STATE\<close>,
  \<open>ENDIR\<close> and \<open>ENDDR\<close> instructions whose states fit together, reading its text succeeds, and the scans of the chain behind
  the USB-Blaster are those of the instructions, in order: the digits of \<open>TDI\<close> as a number, its lowest bit
  first, cut or filled with zeros to the length of the scan, between the padding for the other devices.
\<close>

theorem svf_file_played:
  assumes "port_ok ub_inv ub_edges s0 ir_pre ir_post dr_pre dr_post j" "player_ok ei ed sv" "playable (j_state j) ei ed cs"
  shows "\<exists>sv' j'. svf_parse (jtag_methods ub_ops) junk setfreq (Some (svf_text cs)) sv j = Inr (sv', j') \<and>
    port_ok ub_inv ub_edges s0 ir_pre ir_post dr_pre dr_post j' \<and>
    settled (port_view ub_edges s0 j') =
      settled (port_view ub_edges s0 j) @ svf_scans ir_pre ir_post dr_pre dr_post (j_state j) ei ed cs"
  by (rule ubp.port.svf_parse_scans [OF assms])

definition demo_svf :: svf where
  "demo_svf = \<lparr>sv_freq_hz = 0, sv_enddr = RUN_TEST_IDLE, sv_endir = RUN_TEST_IDLE, sv_run_state = RUN_TEST_IDLE,
     sv_end_state = RUN_TEST_IDLE, sv_hdr = xyr0 0, sv_hir = xyr0 0, sv_sdr = xyr0 0, sv_sir = xyr0 0, sv_tdr = xyr0 0, sv_tir = xyr0 0\<rparr>"

lemma demo_svf_text:
  "svf_text [C_ENDDR ''DRPAUSE'', C_SIR 10 ''006'', C_SDR 9 ''1A5'', C_RUNTEST 8] =
     ''ENDDR DRPAUSE;'' @ [CHR 0x0A] @ ''SIR 10 TDI (006);'' @ [CHR 0x0A] @ ''SDR 9 TDI (1A5);'' @ [CHR 0x0A] @
     ''RUNTEST 8 TCK;'' @ [CHR 0x0A]"
  by code_simp

theorem svf_file_played_witness:
  "\<exists>j sv' j'. svf_parse (jtag_methods ub_ops) (\<lambda>n. replicate n 0) (\<lambda>_. Inr) (Some
      (''ENDDR DRPAUSE;'' @ [CHR 0x0A] @ ''SIR 10 TDI (006);'' @ [CHR 0x0A] @ ''SDR 9 TDI (1A5);'' @ [CHR 0x0A] @
       ''RUNTEST 8 TCK;'' @ [CHR 0x0A])) demo_svf j = Inr (sv', j') \<and>
    settled (port_view ub_edges RUN_TEST_IDLE j') = settled (port_view ub_edges RUN_TEST_IDLE j) @
      [IR_scan (hex_bits ''006'' 10), DR_scan (hex_bits ''1A5'' 9)]"
proof -
  obtain j where j: "port_ok ub_inv ub_edges RUN_TEST_IDLE [] [] [] [] j" "j_state j = RUN_TEST_IDLE" using demo_port_idle by blast
  have sv: "player_ok RUN_TEST_IDLE RUN_TEST_IDLE demo_svf" by (simp add: player_ok_def demo_svf_def xyr0_def)
  have ed: "state_named ''DRPAUSE'' = PAUSE_DR" by (simp add: state_named_def fsm_state_def)
  let ?cs = "[C_ENDDR ''DRPAUSE'', C_SIR 10 ''006'', C_SDR 9 ''1A5'', C_RUNTEST 8]"
  have "''DRPAUSE'' \<in> fst ` set fsm_state" by (simp add: fsm_state_def)
  then have "playable (j_state j) RUN_TEST_IDLE RUN_TEST_IDLE ?cs"
    by (simp add: j(2) ed rest_defs hex_val_def)
  from svf_file_played [OF j(1) sv this, of "\<lambda>n. replicate n 0" "\<lambda>_. Inr", unfolded demo_svf_text]
  show ?thesis by (auto simp: ed)
qed

end
