(* ===== verification/Anlogic_Usb.thy ===== *)
theory Anlogic_Usb
  imports Usb_Port
begin

unbundle bit_operations_syntax

section \<open>Loading an Anlogic device through the USB-Blaster\<close>

text \<open>
  From a bitstream file of Anlogic to the clock edges of the adapter: \<open>anlogic.cpp\<close> on \<open>anlogicBitParser.cpp\<close>, \<open>jtag.cpp\<close> and
  \<open>usbBlaster.cpp\<close>.
\<close>

lemma open_anlogic_length: "open_anlogic h name rv = Inr (0, bs) \<Longrightarrow> cb_bit_length bs = 8 * int (length (cb_bit_data bs))"
  by (auto simp: open_anlogic_def anlogic_parse_def bindE_Inr_iff mirror_def split: option.splits prod.splits)

text \<open>The instructions of the two fixed sequences of \<open>program\<close>, by their opcodes.\<close>

lemma an_before_scans:
  "step_scans ir_pre ir_post an_before =
     map (\<lambda>c. IR_scan (ir_pre @ map (bit (c :: u8)) [0..<8] @ ir_post)) [0xFF, 0xFF, 0x01, 0xFF, 0x39, 0x30, 0x3B]"
  by (simp add: an_before_def del: upt_rec_numeral)

lemma an_after_scans:
  "step_scans ir_pre ir_post an_after =
     map (\<lambda>c. IR_scan (ir_pre @ map (bit (c :: u8)) [0..<8] @ ir_post)) [0x3D, 0xFF, 0x31, 0x3D, 0xFF]"
  by (simp add: an_after_def del: upt_rec_numeral)

text \<open>
  C21: writing a bitstream to an Anlogic device through the USB-Blaster.  For a file the parser accepts, \<open>program\<close> succeeds in
  \<open>Run-Test/Idle\<close>, and what the adapter's clock edges make the chain take over is, in this order, the instructions \<open>BYPASS\<close> (0xFF)
  twice, \<open>REFRESH\<close> (0x01), \<open>BYPASS\<close>, \<open>SPI_PROGRAM\<close> (0x39), \<open>JTAG_PROGRAM\<close> (0x30) and \<open>CFG_IN\<close> (0x3B), then the bits of the blocks of
  the file as one data scan, whatever its length, then \<open>JTAG_START\<close> (0x3D), \<open>BYPASS\<close>, 0x31, \<open>JTAG_START\<close> and \<open>BYPASS\<close>; each
  instruction is 8 bits, least significant first, and every scan has the padding of the other devices of the chain.
\<close>

theorem anlogic_loads_bitstream:
  assumes "port_ok ub_inv ub_edges s0 ir_pre ir_post dr_pre dr_post j" "j_state j \<in> rests - {PAUSE_IR, EXIT1_IR}"
    and "an_mode an = MEM_MODE" "open_anlogic h (an_filename an) True = Inr (0, bs)" "cb_bit_data bs \<noteq> []"
  shows "\<exists>j'. anlogic_program (jtag_methods ub_ops) h flash_write offset unprotect an j = Inr j' \<and> j_state j' = RUN_TEST_IDLE \<and>
    settled (port_view ub_edges s0 j') = settled (port_view ub_edges s0 j) @
      map (\<lambda>c. IR_scan (ir_pre @ map (bit (c :: u8)) [0..<8] @ ir_post)) [0xFF, 0xFF, 0x01, 0xFF, 0x39, 0x30, 0x3B] @
      [DR_scan (dr_pre @ bits_of (cb_bit_data bs) (8 * length (cb_bit_data bs)) @ dr_post)] @
      map (\<lambda>c. IR_scan (ir_pre @ map (bit (c :: u8)) [0..<8] @ ir_post)) [0x3D, 0xFF, 0x31, 0x3D, 0xFF]"
  using ubp.port.anlogic_program_scans [OF assms open_anlogic_length [OF assms(4)]]
  unfolding an_before_scans an_after_scans by blast

text \<open>A file of one header line and one block of two bytes.\<close>

definition demo_al_file :: string where
  "demo_al_file = ''# t'' @ [CHR 0x0A, CHR 0x0A, CHR 0x00, CHR 0x10, CHR 0x0F, CHR 0x03]"

definition demo_al_host :: host where
  "demo_al_host = \<lparr>h_getenv = (\<lambda>_. None), h_data_dir = ''/usr/local/share'', h_has_zlib = True,
     h_fs = [''top.bit'' \<mapsto> demo_al_file], h_decompress = (\<lambda>_. None), h_stdin = None\<rparr>"

lemma demo_al_parse: "\<exists>bs. anlogic_parse True demo_al_file = Inr (0, bs) \<and> cb_bit_data bs = [0xF0, 0xC0]"
proof -
  have "case anlogic_parse True demo_al_file of Inl _ \<Rightarrow> False | Inr (r, bs) \<Rightarrow> r = 0 \<and> cb_bit_data bs = [0xF0, 0xC0]" by code_simp
  then show ?thesis by (auto split: sum.splits)
qed

lemma demo_al_open: "\<exists>bs. open_anlogic demo_al_host ''top.bit'' True = Inr (0, bs) \<and> cb_bit_data bs = [0xF0, 0xC0]"
  using demo_al_parse by (simp add: open_anlogic_def cbp_open_def demo_al_host_def last_dot_def extension_of_def)

definition demo_anlogic :: anlogic where
  "demo_anlogic = \<lparr>an_filename = ''top.bit'', an_mode = MEM_MODE, an_target_freq = 0\<rparr>"

theorem anlogic_loads_bitstream_witness:
  "\<exists>j j'. port_ok ub_inv ub_edges RUN_TEST_IDLE [] [] [] [] j \<and>
    anlogic_program (jtag_methods ub_ops) demo_al_host (\<lambda>_ _ _ _ j. Inr (True, j)) 0 False demo_anlogic j = Inr j' \<and>
    settled (port_view ub_edges RUN_TEST_IDLE j') = settled (port_view ub_edges RUN_TEST_IDLE j) @
      map (\<lambda>c. IR_scan (map (bit (c :: u8)) [0..<8])) [0xFF, 0xFF, 0x01, 0xFF, 0x39, 0x30, 0x3B] @
      [DR_scan (bits_of [0xF0, 0xC0] 16)] @
      map (\<lambda>c. IR_scan (map (bit (c :: u8)) [0..<8])) [0x3D, 0xFF, 0x31, 0x3D, 0xFF]"
proof -
  obtain j where j: "port_ok ub_inv ub_edges RUN_TEST_IDLE [] [] [] [] j" "j_state j = RUN_TEST_IDLE" using demo_port_idle by blast
  obtain bs where bs: "open_anlogic demo_al_host (an_filename demo_anlogic) True = Inr (0, bs)" "cb_bit_data bs = [0xF0, 0xC0]"
    using demo_al_open by (auto simp: demo_anlogic_def)
  have m: "an_mode demo_anlogic = MEM_MODE" by (simp add: demo_anlogic_def)
  have r: "j_state j \<in> rests - {PAUSE_IR, EXIT1_IR}" "cb_bit_data bs \<noteq> []" using j bs by (auto simp: rest_defs)
  show ?thesis
    using anlogic_loads_bitstream [OF j(1) r(1) m bs(1) r(2), of "\<lambda>_ _ _ _ j. Inr (True, j)" 0 False] j(1)
    by (simp add: bs(2)) blast
qed

end
