(* ===== verification/Ice40.thy ===== *)
theory Ice40
  imports Altera Flash_Interface
begin

unbundle bit_operations_syntax

section \<open>iCE40 devices (\<open>ice40.cpp\<close>)\<close>

text \<open>
  The class \<open>Ice40\<close> on the SPI cable \<open>FtdiSpi\<close>, whose methods are a record of functions on the state of the
  cable: the transfers \<open>SPIFlash\<close> uses, the transfer of plain bytes, and the pins.  Waiting times are left out.
\<close>

record 'd ice_spi =
  is_flash :: "'d spi_ops"
  is_put :: "bytes \<Rightarrow> 'd \<Rightarrow> int \<times> 'd"
  is_setMode :: "u8 \<Rightarrow> 'd \<Rightarrow> 'd"
  is_setCSmode :: "u8 \<Rightarrow> 'd \<Rightarrow> 'd"
  is_setCs :: "'d \<Rightarrow> 'd"
  is_clearCs :: "'d \<Rightarrow> 'd"
  is_gpio_get :: "'d \<Rightarrow> u8 \<times> 'd"
  is_gpio_set :: "u16 \<Rightarrow> 'd \<Rightarrow> 'd"
  is_gpio_clear :: "u16 \<Rightarrow> 'd \<Rightarrow> 'd"
  is_gpio_set_input :: "u16 \<Rightarrow> 'd \<Rightarrow> 'd"
  is_gpio_set_output :: "u16 \<Rightarrow> 'd \<Rightarrow> 'd"

record ice40 =
  ic_filename :: string
  ic_file_extension :: string
  ic_mode :: prog_mode
  ic_verify :: bool
  ic_verbose :: int
  ic_rst_pin :: u16
  ic_done_pin :: u16

definition ice40_ctor :: "'d ice_spi \<Rightarrow> string \<Rightarrow> string \<Rightarrow> prog_type_t \<Rightarrow> u16 \<Rightarrow> u16 \<Rightarrow> bool \<Rightarrow> int \<Rightarrow> 'd \<Rightarrow> (ice40 \<times> 'd) res" where
  "ice40_ctor sp filename file_type prg_type rst_pin done_pin vfy verbose d =
     bindE (device_extension filename file_type) (\<lambda>ext.
       let d = is_gpio_set_input sp done_pin d; d = is_gpio_set_output sp rst_pin d in
       Inr (\<lparr>ic_filename = filename, ic_file_extension = ext, ic_mode = (if prg_type = WR_FLASH then SPI_MODE else MEM_MODE),
         ic_verify = vfy, ic_verbose = verbose, ic_rst_pin = rst_pin, ic_done_pin = done_pin\<rparr>, d))"

definition is_done :: "'d ice_spi \<Rightarrow> ice40 \<Rightarrow> 'd \<Rightarrow> bool \<times> 'd" where
  "is_done sp ic d = (let (v, d) = is_gpio_get sp d in (ucast v AND ic_done_pin ic \<noteq> 0, d))"

text \<open>
  \<open>do { timeout--; ... } while (not done && timeout > 0)\<close>; the result is the final value of \<open>timeout\<close>, which is also 0 when
  the pin goes high in the last pass.
\<close>

fun wait_cdone :: "'d ice_spi \<Rightarrow> ice40 \<Rightarrow> nat \<Rightarrow> 'd \<Rightarrow> nat \<times> 'd" where
  "wait_cdone sp ic 0 d = (0, d)"
| "wait_cdone sp ic (Suc timeout) d =
     (let (up, d) = is_done sp ic d in if \<not> up \<and> timeout > 0 then wait_cdone sp ic timeout d else (timeout, d))"

definition ice40_reset :: "'d ice_spi \<Rightarrow> ice40 \<Rightarrow> 'd \<Rightarrow> 'd" where
  "ice40_reset sp ic d =
     (let d = is_gpio_clear sp (ic_rst_pin ic) d; d = is_gpio_set sp (ic_rst_pin ic) d; (_, d) = wait_cdone sp ic 1000 d in d)"

subsection \<open>Loading the configuration memory\<close>

text \<open>Pieces of 256 bytes; a transfer that fails stops the loop.\<close>

function cram_loop :: "'d ice_spi \<Rightarrow> bytes \<Rightarrow> 'd \<Rightarrow> bool \<times> 'd" where
  "cram_loop sp ptr d =
     (if ptr = [] then (True, d)
      else let (r, d) = is_put sp (take 256 ptr) d in
        if r = -1 then (False, d) else cram_loop sp (drop 256 ptr) d)"
  by pat_completeness auto
termination
  by (relation "measure (\<lambda>(sp, p, d). length p)") auto

declare cram_loop.simps [simp del]

text \<open>\<open>return -1\<close> in a function of type \<open>bool\<close> is \<open>true\<close>.\<close>

definition program_cram :: "'d ice_spi \<Rightarrow> ice40 \<Rightarrow> bytes \<Rightarrow> 'd \<Rightarrow> bool \<times> 'd" where
  "program_cram sp ic data d =
     (let d = is_setMode sp 3 d; d = is_setCSmode sp 1 d; d = is_clearCs sp d;
          d = is_gpio_clear sp (ic_rst_pin ic) d; d = is_gpio_set sp (ic_rst_pin ic) d;
          (ok, d) = cram_loop sp data d in
      if \<not> ok then (True, d)
      else
        let (_, d) = is_put sp (replicate 12 0xff) d; (timeout, d) = wait_cdone sp ic 1000 d; d = is_setCs sp d in
        (timeout \<noteq> 0, d))"

subsection \<open>Access to the flash\<close>

definition ice40_prepare_flash_access :: "'d ice_spi \<Rightarrow> ice40 \<Rightarrow> 'd \<Rightarrow> bool \<times> 'd" where
  "ice40_prepare_flash_access sp ic d = (True, is_gpio_clear sp (ic_rst_pin ic) d)"

definition ice40_post_flash_access :: "'d ice_spi \<Rightarrow> ice40 \<Rightarrow> 'd \<Rightarrow> bool \<times> 'd" where
  "ice40_post_flash_access sp ic d = is_done sp ic (ice40_reset sp ic d)"

text \<open>
  \<open>SPIFlash flash(_spi, unprotect, _verbose_level)\<close> in a \<open>try\<close> block: an exception of the constructor or of the method ends the
  call with \<open>false\<close>, as does a result of \<open>-1\<close>, without the reset that ends the access.
\<close>

definition with_spiflash :: "'d ice_spi \<Rightarrow> ice40 \<Rightarrow> (spiflash \<Rightarrow> 'd \<Rightarrow> (bool \<times> 'd) res) \<Rightarrow> 'd \<Rightarrow> (bool \<times> 'd) res" where
  "with_spiflash sp ic body d =
     (let (_, d) = ice40_prepare_flash_access sp ic d; (sf, d) = spiflash_ctor (is_flash sp) False (ic_verbose ic) d in
      case sf of Inl e \<Rightarrow> Inr (False, d)
      | Inr sf \<Rightarrow> bindE (body sf d) (\<lambda>(ok, d). Inr (if ok then ice40_post_flash_access sp ic d else (False, d))))"

definition ice40_detect_flash :: "'d ice_spi \<Rightarrow> ice40 \<Rightarrow> 'd \<Rightarrow> (bool \<times> 'd) res" where
  "ice40_detect_flash sp ic = with_spiflash sp ic (\<lambda>sf d.
     let (e, sf, d) = read_id (is_flash sp) sf d in
     case e of Some _ \<Rightarrow> Inr (False, d)
     | None \<Rightarrow>
         let (status, d) = read_status_reg (is_flash sp) d in
         bindE (display_status_reg (is_flash sp) sf status d) (\<lambda>d. Inr (True, d)))"

definition ice40_dumpFlash :: "'d ice_spi \<Rightarrow> ice40 \<Rightarrow> (nat \<Rightarrow> u8) \<Rightarrow> bool \<Rightarrow> u32 \<Rightarrow> nat \<Rightarrow> 'd \<Rightarrow> (bool \<times> bytes \<times> 'd) res" where
  "ice40_dumpFlash sp ic stk fopen_ok base_addr len d =
     (let (_, d) = ice40_prepare_flash_access sp ic d; (sf, d) = spiflash_ctor (is_flash sp) False (ic_verbose ic) d in
      case sf of Inl e \<Rightarrow> Inr (False, [], d)
      | Inr sf \<Rightarrow>
          let d = reset (is_flash sp) d; d = power_up (is_flash sp) d in
          bindE (dump (is_flash sp) stk fopen_ok (sint base_addr) len 0 d) (\<lambda>(_, out, d).
            let (r, d) = ice40_post_flash_access sp ic d in Inr (r, out, d)))"

definition ice40_protect_flash :: "'d ice_spi \<Rightarrow> ice40 \<Rightarrow> string \<Rightarrow> u32 \<Rightarrow> 'd \<Rightarrow> (bool \<times> 'd) res" where
  "ice40_protect_flash sp ic confirm len = with_spiflash sp ic (\<lambda>sf d.
     bindE (enable_protection_len (is_flash sp) sf confirm len d) (\<lambda>(r, d). Inr (r \<noteq> -1, d)))"

definition ice40_unprotect_flash :: "'d ice_spi \<Rightarrow> ice40 \<Rightarrow> 'd \<Rightarrow> (bool \<times> 'd) res" where
  "ice40_unprotect_flash sp ic = with_spiflash sp ic (\<lambda>sf d.
     bindE (disable_protection (is_flash sp) sf d) (\<lambda>(r, d). Inr (r \<noteq> -1, d)))"

definition ice40_bulk_erase_flash :: "'d ice_spi \<Rightarrow> ice40 \<Rightarrow> 'd \<Rightarrow> (bool \<times> 'd) res" where
  "ice40_bulk_erase_flash sp ic = with_spiflash sp ic (\<lambda>sf d.
     bindE (bulk_erase (is_flash sp) sf False d) (\<lambda>(r, d). Inr (r \<noteq> -1, d)))"

subsection \<open>Programming\<close>

text \<open>The results of \<open>program_cram\<close>, \<open>erase_and_prog\<close> and \<open>verify\<close> are not looked at.\<close>

definition ice40_program :: "'d ice_spi \<Rightarrow> host \<Rightarrow> (nat \<Rightarrow> u8) \<Rightarrow> u32 \<Rightarrow> bool \<Rightarrow> ice40 \<Rightarrow> 'd \<Rightarrow> 'd res" where
  "ice40_program sp h stk offset unprotect ic d =
     (if ic_file_extension ic = [] then Inr d
      else bindE (open_raw h (ic_filename ic) False) (\<lambda>bs.
        let data = take (nat (cb_bit_length bs div 8)) (cb_bit_data bs) in
        if ic_mode ic = MEM_MODE then Inr (snd (program_cram sp ic data d))
        else
          let d = is_gpio_clear sp (ic_rst_pin ic) d; (sf, d) = spiflash_ctor (is_flash sp) unprotect (ic_verbose ic) d in
          bindE sf (\<lambda>sf.
          bindE (erase_and_prog (is_flash sp) sf (sint offset) data d) (\<lambda>(_, sf, d).
          bindE (if ic_verify ic then verify (is_flash sp) stk (sint offset) data 0 d else Inr (True, d)) (\<lambda>(_, d).
            Inr (snd (ice40_post_flash_access sp ic d)))))))"

subsection \<open>Properties\<close>

text \<open>
  What is assumed of the cable: \<open>sent\<close> is the list of the plain bytes that went out, transfers of plain bytes
  succeed and append to it, and the other operations leave it.
\<close>

definition ice_cable :: "'d ice_spi \<Rightarrow> ('d \<Rightarrow> bytes) \<Rightarrow> bool" where
  "ice_cable sp sent \<longleftrightarrow>
     (\<forall>bs d. fst (is_put sp bs d) \<noteq> -1 \<and> sent (snd (is_put sp bs d)) = sent d @ bs) \<and>
     (\<forall>m d. sent (is_setMode sp m d) = sent d) \<and> (\<forall>m d. sent (is_setCSmode sp m d) = sent d) \<and>
     (\<forall>d. sent (is_setCs sp d) = sent d) \<and> (\<forall>d. sent (is_clearCs sp d) = sent d) \<and>
     (\<forall>d. sent (snd (is_gpio_get sp d)) = sent d) \<and>
     (\<forall>p d. sent (is_gpio_set sp p d) = sent d) \<and> (\<forall>p d. sent (is_gpio_clear sp p d) = sent d)"

lemma wait_cdone_sent:
  assumes "ice_cable sp sent"
  shows "sent (snd (wait_cdone sp ic n d)) = sent d"
proof (induction n arbitrary: d)
  case (Suc n)
  obtain up d1 where 1: "is_done sp ic d = (up, d1)" by fastforce
  then have "d1 = snd (is_gpio_get sp d)" by (auto simp: is_done_def split_def Let_def)
  then have "sent d1 = sent d" using assms by (simp add: ice_cable_def)
  then show ?case using Suc.IH [of d1] by (simp add: 1)
qed simp

lemma cram_loop_sent:
  assumes "ice_cable sp sent"
  shows "\<exists>d'. cram_loop sp data d = (True, d') \<and> sent d' = sent d @ data"
proof (induction "length data" arbitrary: data d rule: less_induct)
  case less
  show ?case
  proof (cases "data = []")
    case False
    obtain r d1 where put: "is_put sp (take 256 data) d = (r, d1)" by fastforce
    then have "r \<noteq> -1" "sent d1 = sent d @ take 256 data" using assms unfolding ice_cable_def by (metis fst_conv, metis snd_conv)
    moreover from less [of "drop 256 data" d1] False obtain d' where
      "cram_loop sp (drop 256 data) d1 = (True, d')" "sent d' = sent d1 @ drop 256 data" by auto
    ultimately show ?thesis using False put by (subst cram_loop.simps) simp
  qed (simp add: cram_loop.simps)
qed

text \<open>
  C22: loading the configuration memory of an iCE40 sends the file as it is.  Over a cable whose transfers succeed,
  \<open>program\<close> sends exactly the bytes of the file, cut into pieces of at most 256 and put together again, and 12 bytes of ones
  behind them.
\<close>

theorem ice40_program_sends:
  assumes "ice_cable sp sent" "ic_mode ic = MEM_MODE" "ic_file_extension ic \<noteq> []"
    and "open_raw h (ic_filename ic) False = Inr bs"
  shows "\<exists>d'. ice40_program sp h stk offset unprotect ic d = Inr d' \<and> sent d' = sent d @ cb_bit_data bs @ replicate 12 0xff"
proof -
  let ?data = "take (nat (cb_bit_length bs div 8)) (cb_bit_data bs)"
  have "cb_bit_length bs = 8 * int (length (cb_bit_data bs))"
    using assms(4) by (auto simp: open_raw_def raw_parse_def bindE_Inr_iff Let_def)
  then have len: "?data = cb_bit_data bs" by simp
  let ?d = "is_gpio_set sp (ic_rst_pin ic) (is_gpio_clear sp (ic_rst_pin ic) (is_clearCs sp (is_setCSmode sp 1 (is_setMode sp 3 d))))"
  from cram_loop_sent [OF assms(1), of "cb_bit_data bs" ?d] obtain d1 where
    1: "cram_loop sp (cb_bit_data bs) ?d = (True, d1)" "sent d1 = sent ?d @ cb_bit_data bs" by blast
  have k: "sent ?d = sent d" using assms(1) by (simp add: ice_cable_def)
  obtain r d2 where 2: "is_put sp (replicate 12 0xff) d1 = (r, d2)" by fastforce
  then have "sent d2 = sent d1 @ replicate 12 0xff" using assms(1) unfolding ice_cable_def by (metis snd_conv)
  moreover obtain t d3 where 3: "wait_cdone sp ic 1000 d2 = (t, d3)" by fastforce
  then have "sent d3 = sent d2" using wait_cdone_sent [OF assms(1), of ic 1000 d2] by simp
  moreover have "sent (is_setCs sp d3) = sent d3" using assms(1) by (simp add: ice_cable_def)
  moreover have "snd (program_cram sp ic (cb_bit_data bs) d) = is_setCs sp d3"
    unfolding program_cram_def Let_def 1(1) prod.case 2 3 by simp
  ultimately show ?thesis using assms(2-4) 1(2) k len by (simp add: ice40_program_def)
qed

definition demo_ice_spi :: "bytes ice_spi" where
  "demo_ice_spi = \<lparr>is_flash = \<lparr>spi_put = (\<lambda>_ _ _ _ d. (0, [], d)), spi_wait = (\<lambda>_ _ _ _ _ d. (0, d))\<rparr>,
     is_put = (\<lambda>bs d. (0, d @ bs)), is_setMode = (\<lambda>_ d. d), is_setCSmode = (\<lambda>_ d. d), is_setCs = (\<lambda>d. d), is_clearCs = (\<lambda>d. d),
     is_gpio_get = (\<lambda>d. (0, d)), is_gpio_set = (\<lambda>_ d. d), is_gpio_clear = (\<lambda>_ d. d),
     is_gpio_set_input = (\<lambda>_ d. d), is_gpio_set_output = (\<lambda>_ d. d)\<rparr>"

definition demo_ice40 :: ice40 where
  "demo_ice40 = \<lparr>ic_filename = ''top.bin'', ic_file_extension = ''bin'', ic_mode = MEM_MODE, ic_verify = False, ic_verbose = 0,
     ic_rst_pin = 0x80, ic_done_pin = 0x40\<rparr>"

definition demo_ice_host :: host where
  "demo_ice_host = \<lparr>h_getenv = (\<lambda>_. None), h_data_dir = ''/usr/local/share'', h_has_zlib = True,
     h_fs = [''top.bin'' \<mapsto> [CHR 0x7E, CHR 0xAA]], h_decompress = (\<lambda>_. None), h_stdin = None\<rparr>"

theorem ice40_program_sends_witness:
  "ice40_program demo_ice_spi demo_ice_host (\<lambda>_. 0) 0 False demo_ice40 [] = Inr ([0x7E, 0xAA] @ replicate 12 0xff)"
proof -
  have "ice_cable demo_ice_spi (\<lambda>d. d)" by (simp add: ice_cable_def demo_ice_spi_def)
  moreover have "open_raw demo_ice_host (ic_filename demo_ice40) False = Inr (cbp0\<lparr>cb_bit_data := [0x7E, 0xAA], cb_bit_length := 16\<rparr>)"
    by (simp add: open_raw_def cbp_open_def demo_ice_host_def demo_ice40_def last_dot_def extension_of_def raw_parse_def mirror_def of_char_def)
  moreover have "ic_mode demo_ice40 = MEM_MODE" "ic_file_extension demo_ice40 \<noteq> []" by (simp_all add: demo_ice40_def)
  ultimately show ?thesis
    using ice40_program_sends [of demo_ice_spi "\<lambda>d. d" demo_ice40 demo_ice_host _ "\<lambda>_. 0" 0 False "[]"] by fastforce
qed

end
