(* ===== verification/Bpi_Bridge.thy ===== *)
theory Bpi_Bridge
  imports Prelude
begin

unbundle bit_operations_syntax

section \<open>The bridge to a parallel flash (\<open>bpiOverJtag_core.v\<close>)\<close>

text \<open>
  The Verilog core that is loaded into the FPGA to reach a parallel flash over JTAG, as a step function: one call of \<open>core_clock\<close>
  is one rising edge of \<open>drck\<close> while the user register is shifted (\<open>sel\<close> and \<open>shift\<close> high).  Behind the core sits a
  flash chip, which is a parameter: what it puts on the data bus, and what a write cycle does to it.
\<close>

subsection \<open>Registers and pins\<close>

datatype core_state = Idle | Recv_cmd | Recv_addr | Recv_data | Exec | Send_data | Done_state | Burst_recv_cnt | Burst_data | Burst_exec

record core =
  k_state :: core_state
  bit_cnt :: "6 word"
  cmd_reg :: "4 word"
  addr_reg :: "25 word"
  wr_data_reg :: u16
  rd_data_reg :: u16
  wait_cnt :: u8
  burst_cnt :: u16
  bpi_addr :: "25 word"
  bpi_ce_n :: bool
  bpi_oe_n :: bool
  bpi_we_n :: bool
  bpi_adv_n :: bool
  dq_oe :: bool
  dq_out :: u16

text \<open>\<open>{tdi, r[n-1:1]}\<close>\<close>

definition shift_reg :: "bool \<Rightarrow> 'a::len word \<Rightarrow> 'a word" where
  "shift_reg b r = (if b then push_bit (LENGTH('a) - 1) 1 else 0) OR drop_bit 1 r"

text \<open>The values the registers take at the next edge (the combinational block).\<close>

definition core_next :: "bool \<Rightarrow> u16 \<Rightarrow> core \<Rightarrow> core" where
  "core_next tdi dq c = (case k_state c of
     Idle \<Rightarrow> let c' = c\<lparr>bit_cnt := 3\<rparr> in if tdi then c'\<lparr>k_state := Recv_cmd\<rparr> else c'
   | Recv_cmd \<Rightarrow>
       let c' = c\<lparr>cmd_reg := shift_reg tdi (cmd_reg c), bit_cnt := bit_cnt c - 1\<rparr> in
       if bit_cnt c = 0 then c'\<lparr>bit_cnt := 24, k_state := Recv_addr\<rparr> else c'
   | Recv_addr \<Rightarrow>
       let c' = c\<lparr>addr_reg := shift_reg tdi (addr_reg c), bit_cnt := bit_cnt c - 1\<rparr> in
       if bit_cnt c = 0 then
         if cmd_reg c = 1 then c'\<lparr>bit_cnt := 15, k_state := Recv_data\<rparr>
         else if cmd_reg c = 4 then c'\<lparr>bit_cnt := 15, k_state := Burst_recv_cnt\<rparr>
         else c'\<lparr>wait_cnt := 20, k_state := Exec\<rparr>
       else c'
   | Recv_data \<Rightarrow>
       let c' = c\<lparr>wr_data_reg := shift_reg tdi (wr_data_reg c), bit_cnt := bit_cnt c - 1\<rparr> in
       if bit_cnt c = 0 then c'\<lparr>wait_cnt := 20, k_state := Exec\<rparr> else c'
   | Exec \<Rightarrow>
       let c' = c\<lparr>wait_cnt := wait_cnt c - 1\<rparr>;
           c' = (if wait_cnt c = 10 \<and> cmd_reg c = 2 then c'\<lparr>rd_data_reg := dq\<rparr> else c') in
       if wait_cnt c = 0 then c'\<lparr>bit_cnt := 15, k_state := Send_data\<rparr> else c'
   | Send_data \<Rightarrow>
       let c' = c\<lparr>rd_data_reg := shift_reg True (rd_data_reg c), bit_cnt := bit_cnt c - 1\<rparr> in
       if bit_cnt c = 0 then c'\<lparr>k_state := Done_state\<rparr> else c'
   | Burst_recv_cnt \<Rightarrow>
       let c' = c\<lparr>burst_cnt := shift_reg tdi (burst_cnt c), bit_cnt := bit_cnt c - 1\<rparr> in
       if bit_cnt c = 0 then c'\<lparr>bit_cnt := 15, k_state := Burst_data\<rparr> else c'
   | Burst_data \<Rightarrow>
       let c' = c\<lparr>wr_data_reg := shift_reg tdi (wr_data_reg c), bit_cnt := bit_cnt c - 1\<rparr> in
       if bit_cnt c = 0 then c'\<lparr>wait_cnt := 20, k_state := Burst_exec\<rparr> else c'
   | Burst_exec \<Rightarrow>
       let c' = c\<lparr>wait_cnt := wait_cnt c - 1\<rparr> in
       if wait_cnt c = 0 then
         let c' = c'\<lparr>burst_cnt := burst_cnt c - 1\<rparr> in
         if burst_cnt c = 1 then c'\<lparr>k_state := Done_state\<rparr>
         else c'\<lparr>addr_reg := addr_reg c + 1, bit_cnt := 15, k_state := Burst_data\<rparr>
       else c'
   | Done_state \<Rightarrow> c)"

text \<open>The address and the control signals, which look at the old registers and at the next state.\<close>

definition addr_pins :: "bool \<Rightarrow> core \<Rightarrow> 25 word" where
  "addr_pins tdi c =
     (if k_state c = Recv_addr \<and> bit_cnt c = 0 then shift_reg tdi (addr_reg c)
      else if k_state c = Burst_data \<and> bit_cnt c = 0 then addr_reg c
      else bpi_addr c)"

definition control_pins :: "core_state \<Rightarrow> core \<Rightarrow> core \<Rightarrow> core" where
  "control_pins next c c' =
     (let we = \<not> (wait_cnt c > 5 \<and> wait_cnt c < 15) in
      case next of
        Exec \<Rightarrow>
          let c' = c'\<lparr>bpi_ce_n := False, bpi_adv_n := False\<rparr> in
          if cmd_reg c = 2 then c'\<lparr>bpi_oe_n := False, bpi_we_n := True, dq_oe := False\<rparr>
          else if cmd_reg c = 1 then c'\<lparr>bpi_oe_n := True, bpi_we_n := we, dq_oe := True, dq_out := wr_data_reg c\<rparr>
          else c'
      | Burst_exec \<Rightarrow>
          c'\<lparr>bpi_ce_n := False, bpi_adv_n := False, bpi_oe_n := True, bpi_we_n := we, dq_oe := True, dq_out := wr_data_reg c\<rparr>
      | _ \<Rightarrow> c'\<lparr>bpi_ce_n := True, bpi_oe_n := True, bpi_we_n := True, bpi_adv_n := True, dq_oe := False\<rparr>)"

definition core_clock :: "bool \<Rightarrow> u16 \<Rightarrow> core \<Rightarrow> core" where
  "core_clock tdi dq c =
     (let n = core_next tdi dq c in control_pins (k_state n) c (n\<lparr>bpi_addr := addr_pins tdi c\<rparr>))"

text \<open>The asynchronous reset, \<open>capture & sel\<close>.\<close>

definition core_reset :: "core \<Rightarrow> core" where
  "core_reset c = c\<lparr>k_state := Idle, bpi_addr := 0, bpi_ce_n := True, bpi_oe_n := True, bpi_we_n := True, bpi_adv_n := True,
     dq_oe := False, dq_out := 0\<rparr>"

subsection \<open>The core with a chip behind it\<close>

text \<open>
  The chip: the word it drives for an address, the effect of a write cycle, the time that passes between two accesses,
  and the level of the bus that nobody drives.
\<close>

record 'f nor16 =
  nf_rd :: "25 word \<Rightarrow> 'f \<Rightarrow> u16"
  nf_wr :: "25 word \<Rightarrow> u16 \<Rightarrow> 'f \<Rightarrow> 'f"
  nf_tick :: "'f \<Rightarrow> 'f"
  nf_float :: u16

definition bus_dq :: "'f nor16 \<Rightarrow> core \<Rightarrow> 'f \<Rightarrow> u16" where
  "bus_dq fb c f =
     (if dq_oe c then dq_out c else if \<not> bpi_ce_n c \<and> \<not> bpi_oe_n c then nf_rd fb (bpi_addr c) f else nf_float fb)"

text \<open>The chip takes address and data over when write enable rises.\<close>

definition bridge_clock :: "'f nor16 \<Rightarrow> bool \<Rightarrow> core \<times> 'f \<Rightarrow> core \<times> 'f" where
  "bridge_clock fb tdi cf = (case cf of (c, f) \<Rightarrow>
     let c' = core_clock tdi (bus_dq fb c f) c in
     (c', if \<not> bpi_we_n c \<and> bpi_we_n c' \<and> \<not> bpi_ce_n c then nf_wr fb (bpi_addr c) (bus_dq fb c f) f else f))"

text \<open>The bits shifted through, with what appears on \<open>tdo\<close> before each edge.\<close>

fun bridge_run :: "'f nor16 \<Rightarrow> bool list \<Rightarrow> core \<times> 'f \<Rightarrow> bool list \<times> core \<times> 'f" where
  "bridge_run fb [] cf = ([], cf)"
| "bridge_run fb (b # bs) cf =
     (let (out, cf') = bridge_run fb bs (bridge_clock fb b cf) in (bit (rd_data_reg (fst cf)) 0 # out, cf'))"

definition bridge_capture :: "'f nor16 \<Rightarrow> core \<times> 'f \<Rightarrow> core \<times> 'f" where
  "bridge_capture fb cf = (core_reset (fst cf), nf_tick fb (snd cf))"

definition bridge_scan :: "'f nor16 \<Rightarrow> bool list \<Rightarrow> core \<times> 'f \<Rightarrow> bool list \<times> core \<times> 'f" where
  "bridge_scan fb bs cf = bridge_run fb bs (bridge_capture fb cf)"

subsection \<open>Shifting a word into a register\<close>

definition word_bits :: "'a::len word \<Rightarrow> bool list" where
  "word_bits w = map (bit w) [0..<LENGTH('a)]"

lemma length_word_bits [simp]: "length (word_bits (w :: 'a::len word)) = LENGTH('a)"
  by (simp add: word_bits_def)

lemma bit_shift_reg:
  "bit (shift_reg b (r :: 'a::len word)) n \<longleftrightarrow> n < LENGTH('a) \<and> (if n = LENGTH('a) - 1 then b else bit r (n + 1))"
  by (auto simp: shift_reg_def bit_or_iff bit_drop_bit_eq bit_exp_iff dest: bit_imp_le_length)

abbreviation shift_all :: "bool list \<Rightarrow> 'a::len word \<Rightarrow> 'a word" where
  "shift_all bs r \<equiv> foldl (\<lambda>r b. shift_reg b r) r bs"

lemma bit_shift_all:
  "length bs \<le> LENGTH('a) \<Longrightarrow> bit (shift_all bs (r :: 'a::len word)) n \<longleftrightarrow> n < LENGTH('a) \<and>
     (if n + length bs < LENGTH('a) then bit r (n + length bs) else bs ! (n + length bs - LENGTH('a)))"
proof (induction bs arbitrary: n rule: rev_induct)
  case Nil
  then show ?case by (auto dest: bit_imp_le_length)
next
  case (snoc b bs)
  then have len: "length bs < LENGTH('a)" by simp
  have IH: "bit (shift_all bs r) m \<longleftrightarrow> m < LENGTH('a) \<and>
      (if m + length bs < LENGTH('a) then bit r (m + length bs) else bs ! (m + length bs - LENGTH('a)))" for m
    using snoc.IH len by simp
  consider "n \<ge> LENGTH('a)" | "n = LENGTH('a) - 1" | "Suc n < LENGTH('a)" by linarith
  then show ?case
  proof cases
    case 1
    then show ?thesis by (simp add: bit_shift_reg)
  next
    case 2
    moreover have "0 < LENGTH('a)" by simp
    ultimately have L: "LENGTH('a) = Suc n" by linarith
    show ?thesis by (simp add: bit_shift_reg L)
  next
    case 3
    have "(bs @ [b]) ! (n + Suc (length bs) - LENGTH('a)) = bs ! (Suc n + length bs - LENGTH('a))" if "\<not> Suc (n + length bs) < LENGTH('a)"
    proof -
      have "n + Suc (length bs) - LENGTH('a) < length bs" using that 3 by linarith
      then show ?thesis by (simp add: nth_append)
    qed
    moreover have "n \<noteq> LENGTH('a) - 1" using 3 by linarith
    ultimately show ?thesis using 3 by (simp add: bit_shift_reg IH)
  qed
qed

lemma shift_all_word [simp]: "shift_all (word_bits w) (r :: 'a::len word) = w"
  by (rule bit_word_eqI) (simp add: bit_shift_all word_bits_def)

subsection \<open>The core, phase by phase\<close>

lemma bridge_run_append:
  "bridge_run fb (xs @ ys) cf =
     (let (o1, cf1) = bridge_run fb xs cf; (o2, cf2) = bridge_run fb ys cf1 in (o1 @ o2, cf2))"
  by (induction xs arbitrary: cf) (auto simp: Let_def split: prod.splits)

lemma length_bridge_run [simp]: "length (fst (bridge_run fb bs cf)) = length bs"
proof (induction bs arbitrary: cf)
  case (Cons b bs)
  show ?case using Cons [of "bridge_clock fb b cf"] by (auto simp: Let_def split: prod.splits)
qed simp

text \<open>Pins at rest.\<close>

definition pins_quiet :: "core \<Rightarrow> bool" where
  "pins_quiet c \<longleftrightarrow> bpi_ce_n c \<and> bpi_oe_n c \<and> bpi_we_n c \<and> bpi_adv_n c \<and> \<not> dq_oe c"

lemma pins_quiet_update [simp]:
  "pins_quiet (c\<lparr>k_state := s\<rparr>) = pins_quiet c" "pins_quiet (c\<lparr>bit_cnt := n\<rparr>) = pins_quiet c" "pins_quiet (c\<lparr>cmd_reg := x\<rparr>) = pins_quiet c"
  "pins_quiet (c\<lparr>addr_reg := y\<rparr>) = pins_quiet c" "pins_quiet (c\<lparr>wr_data_reg := z\<rparr>) = pins_quiet c" "pins_quiet (c\<lparr>wait_cnt := t\<rparr>) = pins_quiet c"
  "pins_quiet (c\<lparr>burst_cnt := z\<rparr>) = pins_quiet c" "pins_quiet (c\<lparr>bpi_addr := y\<rparr>) = pins_quiet c" "pins_quiet (c\<lparr>rd_data_reg := z\<rparr>) = pins_quiet c"
  "pins_quiet (core_reset c)"
  by (simp_all add: pins_quiet_def core_reset_def)

lemmas clock_defs = bridge_clock_def core_clock_def core_next_def control_pins_def addr_pins_def Let_def

lemma cmd_step:
  "k_state c = Recv_cmd \<Longrightarrow> pins_quiet c \<Longrightarrow> bridge_clock fb b (c, f) =
     (c\<lparr>cmd_reg := shift_reg b (cmd_reg c), bit_cnt := (if bit_cnt c = 0 then 24 else bit_cnt c - 1),
        k_state := (if bit_cnt c = 0 then Recv_addr else Recv_cmd)\<rparr>, f)"
  by (cases c) (simp add: clock_defs pins_quiet_def)

lemma addr_step:
  "k_state c = Recv_addr \<Longrightarrow> pins_quiet c \<Longrightarrow> bit_cnt c \<noteq> 0 \<Longrightarrow> bridge_clock fb b (c, f) =
     (c\<lparr>addr_reg := shift_reg b (addr_reg c), bit_cnt := bit_cnt c - 1\<rparr>, f)"
  by (cases c) (simp add: clock_defs pins_quiet_def)

lemma cnt_step:
  "k_state c = Burst_recv_cnt \<Longrightarrow> pins_quiet c \<Longrightarrow> bridge_clock fb b (c, f) =
     (c\<lparr>burst_cnt := shift_reg b (burst_cnt c), bit_cnt := (if bit_cnt c = 0 then 15 else bit_cnt c - 1),
        k_state := (if bit_cnt c = 0 then Burst_data else Burst_recv_cnt)\<rparr>, f)"
  by (cases c) (simp add: clock_defs pins_quiet_def)

lemma data_step:
  "k_state c = S \<Longrightarrow> S \<in> {Recv_data, Burst_data} \<Longrightarrow> pins_quiet c \<Longrightarrow> bit_cnt c \<noteq> 0 \<Longrightarrow> bridge_clock fb b (c, f) =
     (c\<lparr>wr_data_reg := shift_reg b (wr_data_reg c), bit_cnt := bit_cnt c - 1\<rparr>, f)"
  by (cases c) (auto simp: clock_defs pins_quiet_def)

lemma word_pred: "unat (w :: 'a::len word) = Suc k \<Longrightarrow> w \<noteq> 0 \<and> unat (w - 1) = k"
  by (metis diff_Suc_1 nat.distinct(1) unat_eq_zero unat_minus_one)

text \<open>Bits received while a counter runs down, the last one apart.\<close>

lemma addr_run:
  "k_state c = Recv_addr \<Longrightarrow> pins_quiet c \<Longrightarrow> unat (bit_cnt c) = length bs \<Longrightarrow>
   snd (bridge_run fb bs (c, f)) = (c\<lparr>addr_reg := shift_all bs (addr_reg c), bit_cnt := 0\<rparr>, f)"
proof (induction bs arbitrary: c)
  case Nil
  then show ?case by (cases c) (simp add: unat_eq_zero)
next
  case (Cons b bs)
  then have k: "bit_cnt c \<noteq> 0" "unat (bit_cnt c - 1) = length bs" using word_pred [of "bit_cnt c" "length bs"] by simp_all
  let ?c = "c\<lparr>addr_reg := shift_reg b (addr_reg c), bit_cnt := bit_cnt c - 1\<rparr>"
  have "snd (bridge_run fb (b # bs) (c, f)) = snd (bridge_run fb bs (?c, f))"
    using addr_step [OF Cons.prems(1,2) k(1), of fb b f] by (simp add: split_def Let_def)
  then show ?case using Cons.IH [of ?c] Cons.prems(1,2) k(2) by simp
qed

lemma data_run:
  "k_state c = S \<Longrightarrow> S \<in> {Recv_data, Burst_data} \<Longrightarrow> pins_quiet c \<Longrightarrow> unat (bit_cnt c) = length bs \<Longrightarrow>
   snd (bridge_run fb bs (c, f)) = (c\<lparr>wr_data_reg := shift_all bs (wr_data_reg c), bit_cnt := 0\<rparr>, f)"
proof (induction bs arbitrary: c)
  case Nil
  then show ?case by (cases c) (simp add: unat_eq_zero)
next
  case (Cons b bs)
  then have k: "bit_cnt c \<noteq> 0" "unat (bit_cnt c - 1) = length bs" using word_pred [of "bit_cnt c" "length bs"] by simp_all
  let ?c = "c\<lparr>wr_data_reg := shift_reg b (wr_data_reg c), bit_cnt := bit_cnt c - 1\<rparr>"
  have "snd (bridge_run fb (b # bs) (c, f)) = snd (bridge_run fb bs (?c, f))"
    using data_step [OF Cons.prems(1-3) k(1), of fb b f] by (simp add: split_def Let_def)
  then show ?case using Cons.IH [of ?c] Cons.prems(1-3) k(2) by simp
qed

lemma cmd_run:
  "k_state c = Recv_cmd \<Longrightarrow> pins_quiet c \<Longrightarrow> length bs = Suc (unat (bit_cnt c)) \<Longrightarrow>
   snd (bridge_run fb bs (c, f)) = (c\<lparr>cmd_reg := shift_all bs (cmd_reg c), bit_cnt := 24, k_state := Recv_addr\<rparr>, f)"
proof (induction bs arbitrary: c)
  case (Cons b bs)
  show ?case
  proof (cases "bit_cnt c = 0")
    case True
    then have "bs = []" using Cons.prems(3) by simp
    then show ?thesis using True cmd_step [OF Cons.prems(1,2), of fb b f] by (cases c) (simp add: split_def Let_def)
  next
    case False
    then obtain k where "unat (bit_cnt c) = Suc k" by (metis not0_implies_Suc unat_eq_zero)
    then have k: "unat (bit_cnt c - 1) = k" "length bs = Suc k" using word_pred Cons.prems(3) by auto
    let ?c = "c\<lparr>cmd_reg := shift_reg b (cmd_reg c), bit_cnt := bit_cnt c - 1, k_state := Recv_cmd\<rparr>"
    have "snd (bridge_run fb (b # bs) (c, f)) = snd (bridge_run fb bs (?c, f))"
      using cmd_step [OF Cons.prems(1,2), of fb b f] False by (simp add: split_def Let_def)
    then show ?thesis using Cons.IH [of ?c] Cons.prems(1,2) k by simp
  qed
qed simp

lemma cnt_run:
  "k_state c = Burst_recv_cnt \<Longrightarrow> pins_quiet c \<Longrightarrow> length bs = Suc (unat (bit_cnt c)) \<Longrightarrow>
   snd (bridge_run fb bs (c, f)) = (c\<lparr>burst_cnt := shift_all bs (burst_cnt c), bit_cnt := 15, k_state := Burst_data\<rparr>, f)"
proof (induction bs arbitrary: c)
  case (Cons b bs)
  show ?case
  proof (cases "bit_cnt c = 0")
    case True
    then have "bs = []" using Cons.prems(3) by simp
    then show ?thesis using True cnt_step [OF Cons.prems(1,2), of fb b f] by (cases c) (simp add: split_def Let_def)
  next
    case False
    then obtain k where "unat (bit_cnt c) = Suc k" by (metis not0_implies_Suc unat_eq_zero)
    then have k: "unat (bit_cnt c - 1) = k" "length bs = Suc k" using word_pred Cons.prems(3) by auto
    let ?c = "c\<lparr>burst_cnt := shift_reg b (burst_cnt c), bit_cnt := bit_cnt c - 1, k_state := Burst_recv_cnt\<rparr>"
    have "snd (bridge_run fb (b # bs) (c, f)) = snd (bridge_run fb bs (?c, f))"
      using cnt_step [OF Cons.prems(1,2), of fb b f] False by (simp add: split_def Let_def)
    then show ?thesis using Cons.IH [of ?c] Cons.prems(1,2) k by simp
  qed
qed simp

subsection \<open>The execution of a write cycle\<close>

text \<open>
  While the wait counter runs down, \<open>t\<close> edges before its end: write enable is low for nine edges, and the chip has taken the
  word over once it has risen again.
\<close>

definition writing :: "'f nor16 \<Rightarrow> core_state \<Rightarrow> 25 word \<times> u16 \<Rightarrow> 25 word \<Rightarrow> u16 \<Rightarrow> 'f \<Rightarrow> nat \<Rightarrow> core \<times> 'f \<Rightarrow> bool" where
  "writing fb S x a d f0 t cf = (case cf of (c, f) \<Rightarrow>
     (addr_reg c, burst_cnt c) = x \<and> k_state c = S \<and> (S = Exec \<longrightarrow> cmd_reg c = 1) \<and> unat (wait_cnt c) = t \<and> bpi_addr c = a \<and> wr_data_reg c = d \<and>
     \<not> bpi_ce_n c \<and> bpi_we_n c = (\<not> (5 \<le> t \<and> t < 14)) \<and> (t < 20 \<longrightarrow> dq_oe c \<and> dq_out c = d) \<and>
     f = (if t < 5 then nf_wr fb a d f0 else f0))"

lemma exec_step:
  assumes "k_state c = S" "S = Exec \<and> cmd_reg c = 1 \<or> S = Burst_exec" "wait_cnt c \<noteq> 0"
  shows "bridge_clock fb b (c, f) =
    (let we = \<not> (wait_cnt c > 5 \<and> wait_cnt c < 15) in
     (c\<lparr>wait_cnt := wait_cnt c - 1, bpi_ce_n := False, bpi_oe_n := True, bpi_we_n := we, bpi_adv_n := False, dq_oe := True,
        dq_out := wr_data_reg c\<rparr>,
      if \<not> bpi_we_n c \<and> we \<and> \<not> bpi_ce_n c then nf_wr fb (bpi_addr c) (bus_dq fb c f) f else f))"
  using assms(2)
proof
  assume "S = Exec \<and> cmd_reg c = 1"
  then show ?thesis using assms(1,3) by (cases c) (simp add: clock_defs)
next
  assume "S = Burst_exec"
  then show ?thesis using assms(1,3) by (cases c) (simp add: clock_defs)
qed

lemma writing_step:
  assumes "writing fb S x a d f0 (Suc t) cf" "S \<in> {Exec, Burst_exec}" "t < 20"
  shows "writing fb S x a d f0 t (bridge_clock fb b cf)"
proof -
  obtain c f where cf: "cf = (c, f)" by fastforce
  note W = assms(1) [unfolded writing_def cf prod.case]
  have w: "unat (wait_cnt c) = Suc t" using W by simp
  then have w0: "wait_cnt c \<noteq> 0" "unat (wait_cnt c - 1) = t" using word_pred by auto
  have lim: "wait_cnt c > 5 \<longleftrightarrow> 5 \<le> t" "wait_cnt c < 15 \<longleftrightarrow> t < 14" by (auto simp: word_less_nat_alt w)
  have "S = Exec \<and> cmd_reg c = 1 \<or> S = Burst_exec" using W assms(2) by auto
  note step = exec_step [of c S fb b f, OF _ this w0(1), unfolded lim Let_def]
  have "bus_dq fb c f = d" if "t = 4" using W that by (simp add: bus_dq_def)
  moreover have "\<not> bpi_we_n c \<and> \<not> (5 \<le> t \<and> t < 14) \<and> \<not> bpi_ce_n c \<longleftrightarrow> t = 4" using W by auto
  ultimately have "snd (bridge_clock fb b cf) = (if t < 5 then nf_wr fb a d f0 else f0)"
    using step W cf by auto
  moreover have "fst (bridge_clock fb b cf) = c\<lparr>wait_cnt := wait_cnt c - 1, bpi_ce_n := False, bpi_oe_n := True,
      bpi_we_n := (\<not> (5 \<le> t \<and> t < 14)), bpi_adv_n := False, dq_oe := True, dq_out := wr_data_reg c\<rparr>"
    using step W cf by simp
  ultimately show ?thesis using W w0(2) by (simp add: writing_def split_def)
qed

lemma writing_run:
  "writing fb S x a d f0 (length bs) cf \<Longrightarrow> S \<in> {Exec, Burst_exec} \<Longrightarrow> length bs \<le> 20 \<Longrightarrow>
   writing fb S x a d f0 0 (snd (bridge_run fb bs cf))"
proof (induction bs arbitrary: cf)
  case (Cons b bs)
  then have "writing fb S x a d f0 (length bs) (bridge_clock fb b cf)" by (intro writing_step) auto
  then show ?case using Cons.IH [of "bridge_clock fb b cf"] Cons.prems by (simp add: split_def Let_def)
qed simp

subsection \<open>Whole packets\<close>

text \<open>
  Between two packets the wait counter has run down and write enable is high; then the edge that enters
  the execution does not start a write cycle of its own.
\<close>

definition rested :: "core \<Rightarrow> bool" where
  "rested c \<longleftrightarrow> bpi_we_n c \<and> wait_cnt c \<in> {0, 255}"

definition packet_head :: "4 word \<Rightarrow> 25 word \<Rightarrow> bool list" where
  "packet_head cmd a = True # word_bits cmd @ word_bits a"

definition write_packet :: "25 word \<Rightarrow> u16 \<Rightarrow> bool list" where
  "write_packet a d = packet_head 1 a @ word_bits d @ replicate 20 False"

definition read_packet :: "25 word \<Rightarrow> bool list" where
  "read_packet a = packet_head 2 a @ replicate 37 False"

definition burst_packet :: "25 word \<Rightarrow> u16 list \<Rightarrow> bool list" where
  "burst_packet a ds = packet_head 4 a @ word_bits (of_nat (length ds) :: u16) @ concat (map (\<lambda>d. word_bits d @ replicate 21 False) ds)"

fun bus_writes :: "'f nor16 \<Rightarrow> 25 word \<Rightarrow> u16 list \<Rightarrow> 'f \<Rightarrow> 'f" where
  "bus_writes fb a [] f = f"
| "bus_writes fb a (d # ds) f = bus_writes fb (a + 1) ds (nf_wr fb a d f)"

lemma snd_run_append: "snd (bridge_run fb (xs @ ys) cf) = snd (bridge_run fb ys (snd (bridge_run fb xs cf)))"
  by (simp add: bridge_run_append split_def Let_def)

lemma snd_run_Cons: "snd (bridge_run fb (b # bs) cf) = snd (bridge_run fb bs (bridge_clock fb b cf))"
  by (simp add: split_def Let_def)

text \<open>Start bit, command and all bits of the address but the last.\<close>

lemma head_run:
  assumes "word_bits a = as @ [b]"
  shows "\<exists>c'. snd (bridge_run fb (True # word_bits cmd @ as) (core_reset c, f)) = (c', f) \<and> k_state c' = Recv_addr \<and> pins_quiet c' \<and>
    bit_cnt c' = 0 \<and> cmd_reg c' = cmd \<and> shift_reg b (addr_reg c') = a \<and> wait_cnt c' = wait_cnt c \<and> bpi_we_n c'"
proof -
  let ?c1 = "(core_reset c)\<lparr>bit_cnt := 3, k_state := Recv_cmd\<rparr>"
  have 1: "bridge_clock fb True (core_reset c, f) = (?c1, f)"
    by (cases c) (simp add: clock_defs core_reset_def)
  let ?c2 = "?c1\<lparr>cmd_reg := cmd, bit_cnt := 24, k_state := Recv_addr\<rparr>"
  have 2: "snd (bridge_run fb (word_bits cmd) (?c1, f)) = (?c2, f)"
    using cmd_run [of ?c1 "word_bits cmd" fb f] by simp
  have len: "length as = 24" using arg_cong [OF assms, of length] by simp
  let ?c3 = "?c2\<lparr>addr_reg := shift_all as (addr_reg ?c2), bit_cnt := 0\<rparr>"
  have 3: "snd (bridge_run fb as (?c2, f)) = (?c3, f)"
    using addr_run [of ?c2 as fb f] len by simp
  have all: "shift_all (as @ [b]) r = a" for r using shift_all_word [of r a] unfolding assms .
  have "snd (bridge_run fb (True # word_bits cmd @ as) (core_reset c, f)) = (?c3, f)"
    unfolding snd_run_Cons 1 snd_run_append 2 3 ..
  moreover have "shift_reg b (addr_reg ?c3) = a"
    using all [of "addr_reg ?c2"] by simp
  moreover have "wait_cnt ?c3 = wait_cnt c" "bpi_we_n ?c3" "cmd_reg ?c3 = cmd" by (simp_all add: core_reset_def)
  ultimately show ?thesis by (intro exI [of _ ?c3]) simp
qed

lemma word_bits_snoc: "\<exists>bs b. word_bits (w :: 'a::len word) = bs @ [b]"
  by (cases "word_bits w" rule: rev_cases) (auto simp: word_bits_def)

text \<open>The last bit of the address, into the execution of a read, into the data of a write, or into the count of a burst.\<close>

lemma addr_last:
  assumes "k_state c = Recv_addr" "pins_quiet c" "bit_cnt c = 0" "shift_reg b (addr_reg c) = a" "rested c"
  shows "cmd_reg c = 1 \<Longrightarrow> \<exists>c'. bridge_clock fb b (c, f) = (c', f) \<and> k_state c' = Recv_data \<and> pins_quiet c' \<and> bit_cnt c' = 15 \<and>
      cmd_reg c' = 1 \<and> bpi_addr c' = a \<and> rested c'"
    and "cmd_reg c = 4 \<Longrightarrow> \<exists>c'. bridge_clock fb b (c, f) = (c', f) \<and> k_state c' = Burst_recv_cnt \<and> pins_quiet c' \<and> bit_cnt c' = 15 \<and>
      addr_reg c' = a \<and> rested c'"
    and "cmd_reg c = 2 \<Longrightarrow> \<exists>c'. bridge_clock fb b (c, f) = (c', f) \<and> k_state c' = Exec \<and> cmd_reg c' = 2 \<and> wait_cnt c' = 20 \<and>
      bpi_addr c' = a \<and> \<not> bpi_ce_n c' \<and> \<not> bpi_oe_n c' \<and> bpi_we_n c' \<and> \<not> dq_oe c'"
  using assms by (auto simp: clock_defs pins_quiet_def rested_def)

text \<open>The last bit of the data: the write cycle begins.\<close>

lemma data_last:
  assumes "k_state c = S" "S = Recv_data \<and> cmd_reg c = 1 \<or> S = Burst_data" "pins_quiet c" "bit_cnt c = 0"
    and "shift_reg b (wr_data_reg c) = d" "rested c" "S = Recv_data \<Longrightarrow> bpi_addr c = a" "S = Burst_data \<Longrightarrow> addr_reg c = a"
  shows "\<exists>c'. bridge_clock fb b (c, f) = (c', f) \<and>
    writing fb (if S = Recv_data then Exec else Burst_exec) (addr_reg c, burst_cnt c) a d f 20 (c', f)"
  using assms(2)
proof
  assume "S = Recv_data \<and> cmd_reg c = 1"
  then show ?thesis using assms by (auto simp: clock_defs pins_quiet_def rested_def writing_def)
next
  assume "S = Burst_data"
  then show ?thesis using assms by (auto simp: clock_defs pins_quiet_def rested_def writing_def)
qed

lemma written:
  assumes "writing fb S x a d f0 0 cf"
  shows "snd cf = nf_wr fb a d f0" "rested (fst cf)" "k_state (fst cf) = S" "(addr_reg (fst cf), burst_cnt (fst cf)) = x" "wait_cnt (fst cf) = 0"
  using assms by (auto simp: writing_def rested_def unat_eq_zero)

lemma write_packet_run:
  assumes "rested c"
  shows "\<exists>c'. snd (bridge_run fb (write_packet a d) (core_reset c, f)) = (c', nf_wr fb a d f) \<and> rested c'"
proof -
  obtain as b where a: "word_bits a = as @ [b]" using word_bits_snoc by blast
  obtain ds e where d: "word_bits d = ds @ [e]" using word_bits_snoc by blast
  have len: "length ds = 15" using arg_cong [OF d, of length] by simp
  have all: "shift_all (ds @ [e]) r = d" for r using shift_all_word [of r d] unfolding d .
  obtain c1 where 1: "snd (bridge_run fb (True # word_bits (1 :: 4 word) @ as) (core_reset c, f)) = (c1, f)" "k_state c1 = Recv_addr" "pins_quiet c1"
    "bit_cnt c1 = 0" "cmd_reg c1 = 1" "shift_reg b (addr_reg c1) = a" "wait_cnt c1 = wait_cnt c" "bpi_we_n c1"
    using head_run [OF a] by metis
  have "rested c1" using 1(7,8) assms by (simp add: rested_def)
  from addr_last(1) [OF 1(2,3,4,6) this 1(5)] obtain c2 where
    2: "bridge_clock fb b (c1, f) = (c2, f)" "k_state c2 = Recv_data" "pins_quiet c2" "bit_cnt c2 = 15" "cmd_reg c2 = 1" "bpi_addr c2 = a" "rested c2"
    by metis
  let ?c3 = "c2\<lparr>wr_data_reg := shift_all ds (wr_data_reg c2), bit_cnt := 0\<rparr>"
  have 3: "snd (bridge_run fb ds (c2, f)) = (?c3, f)" using data_run [OF 2(2) _ 2(3)] 2(4) len by simp
  have sh: "shift_reg e (wr_data_reg ?c3) = d" using all [of "wr_data_reg c2"] by simp
  have "rested ?c3" using 2(7) by (simp add: rested_def)
  from data_last [where S = Recv_data and a = a and fb = fb and f = f, OF _ _ _ _ sh this] 2 obtain c4 where
    4: "bridge_clock fb e (?c3, f) = (c4, f)" "writing fb Exec (addr_reg ?c3, burst_cnt ?c3) a d f 20 (c4, f)" by auto
  have "writing fb Exec (addr_reg ?c3, burst_cnt ?c3) a d f 0 (snd (bridge_run fb (replicate 20 False) (c4, f)))"
    using 4(2) by (intro writing_run) simp_all
  note w = written [OF this]
  have "write_packet a d = (True # word_bits (1 :: 4 word) @ as) @ b # ds @ e # replicate 20 False"
    by (simp add: write_packet_def packet_head_def a d)
  then have "snd (bridge_run fb (write_packet a d) (core_reset c, f)) = snd (bridge_run fb (replicate 20 False) (c4, f))"
    by (simp only: snd_run_append snd_run_Cons 1(1) [unfolded snd_run_append snd_run_Cons] 2(1) 3 4(1))
  then show ?thesis using w(1,2) by (metis prod.collapse)
qed

text \<open>One word of a burst.\<close>

lemma burst_word_run:
  assumes "k_state c = Burst_data" "pins_quiet c" "bit_cnt c = 15" "addr_reg c = a" "rested c"
  shows "\<exists>c'. snd (bridge_run fb (word_bits d @ replicate 21 False) (c, f)) = (c', nf_wr fb a d f) \<and> rested c' \<and>
    (if burst_cnt c = 1 then k_state c' = Done_state else k_state c' = Burst_data \<and> pins_quiet c' \<and> bit_cnt c' = 15 \<and> addr_reg c' = a + 1 \<and>
       burst_cnt c' = burst_cnt c - 1)"
proof -
  obtain ds e where d: "word_bits d = ds @ [e]" using word_bits_snoc by blast
  have len: "length ds = 15" using arg_cong [OF d, of length] by simp
  have all: "shift_all (ds @ [e]) r = d" for r using shift_all_word [of r d] unfolding d .
  let ?c3 = "c\<lparr>wr_data_reg := shift_all ds (wr_data_reg c), bit_cnt := 0\<rparr>"
  have 3: "snd (bridge_run fb ds (c, f)) = (?c3, f)" using data_run [OF assms(1) _ assms(2)] assms(3) len by simp
  have sh: "shift_reg e (wr_data_reg ?c3) = d" using all [of "wr_data_reg c"] by simp
  have "rested ?c3" using assms(5) by (simp add: rested_def)
  from data_last [where S = Burst_data and a = a and fb = fb and f = f, OF _ _ _ _ sh this] assms obtain c4 where
    4: "bridge_clock fb e (?c3, f) = (c4, f)" "writing fb Burst_exec (a, burst_cnt c) a d f 20 (c4, f)" by auto
  obtain c5 where 5: "snd (bridge_run fb (replicate 20 False) (c4, f)) = (c5, nf_wr fb a d f)"
    "k_state c5 = Burst_exec" "(addr_reg c5, burst_cnt c5) = (a, burst_cnt c)" "wait_cnt c5 = 0" "rested c5"
    using written [OF writing_run [of fb Burst_exec "(a, burst_cnt c)" a d f "replicate 20 False" "(c4, f)"]] 4(2)
    by (cases "snd (bridge_run fb (replicate 20 False) (c4, f))") simp
  have "replicate 21 False = replicate 20 False @ [False]" by (simp add: replicate_append_same flip: replicate_Suc)
  then have split: "word_bits d @ replicate 21 False = ds @ e # replicate 20 False @ [False]" by (simp add: d)
  have "snd (bridge_run fb (word_bits d @ replicate 21 False) (c, f)) = bridge_clock fb False (c5, nf_wr fb a d f)"
    unfolding split snd_run_append snd_run_Cons 3 4(1) 5(1) by simp
  moreover have "\<exists>c'. bridge_clock fb False (c5, nf_wr fb a d f) = (c', nf_wr fb a d f) \<and> rested c' \<and>
    (if burst_cnt c = 1 then k_state c' = Done_state else k_state c' = Burst_data \<and> pins_quiet c' \<and> bit_cnt c' = 15 \<and> addr_reg c' = a + 1 \<and>
       burst_cnt c' = burst_cnt c - 1)"
    using 5(2-5) by (auto simp: clock_defs rested_def pins_quiet_def)
  ultimately show ?thesis by simp
qed

lemma done_run: "k_state c = Done_state \<Longrightarrow> rested c \<Longrightarrow> \<exists>c'. snd (bridge_run fb bs (c, f)) = (c', f) \<and> rested c'"
proof (induction bs arbitrary: c)
  case (Cons b bs)
  have "\<exists>c1. bridge_clock fb b (c, f) = (c1, f) \<and> k_state c1 = Done_state \<and> rested c1"
    using Cons.prems by (auto simp: clock_defs rested_def)
  then obtain c1 where "bridge_clock fb b (c, f) = (c1, f)" "k_state c1 = Done_state" "rested c1" by blast
  with Cons.IH [of c1] show ?case unfolding snd_run_Cons by simp
qed simp

lemma burst_words_run:
  assumes "k_state c = Burst_data" "pins_quiet c" "bit_cnt c = 15" "addr_reg c = a" "rested c"
    and "unat (burst_cnt c) = length ds" "ds \<noteq> []"
  shows "\<exists>c'. snd (bridge_run fb (concat (map (\<lambda>d. word_bits d @ replicate 21 False) ds)) (c, f)) = (c', bus_writes fb a ds f) \<and> rested c'"
  using assms
proof (induction ds arbitrary: c a f)
  case (Cons d ds)
  from burst_word_run [OF Cons.prems(1-5), of fb d f] obtain c1 where
    1: "snd (bridge_run fb (word_bits d @ replicate 21 False) (c, f)) = (c1, nf_wr fb a d f)" "rested c1"
      "if burst_cnt c = 1 then k_state c1 = Done_state else k_state c1 = Burst_data \<and> pins_quiet c1 \<and> bit_cnt c1 = 15 \<and> addr_reg c1 = a + 1 \<and>
         burst_cnt c1 = burst_cnt c - 1" by blast
  have "concat (map (\<lambda>d. word_bits d @ replicate 21 False) (d # ds)) =
      (word_bits d @ replicate 21 False) @ concat (map (\<lambda>d. word_bits d @ replicate 21 False) ds)" by simp
  then have run: "snd (bridge_run fb (concat (map (\<lambda>d. word_bits d @ replicate 21 False) (d # ds))) (c, f)) =
      snd (bridge_run fb (concat (map (\<lambda>d. word_bits d @ replicate 21 False) ds)) (c1, nf_wr fb a d f))"
    by (simp only: snd_run_append 1(1) [unfolded snd_run_append])
  show ?case
  proof (cases "ds = []")
    case True
    then show ?thesis using run 1(2) by simp
  next
    case False
    then have "burst_cnt c \<noteq> 1" using Cons.prems(6) by auto
    with 1(3) have c1: "k_state c1 = Burst_data" "pins_quiet c1" "bit_cnt c1 = 15" "addr_reg c1 = a + 1" "burst_cnt c1 = burst_cnt c - 1"
      by simp_all
    have "unat (burst_cnt c1) = length ds" using word_pred [of "burst_cnt c" "length ds"] Cons.prems(6) c1(5) by simp
    from Cons.IH [OF c1(1-4) 1(2) this False, of "nf_wr fb a d f"] run show ?thesis by simp
  qed
qed simp

lemma burst_packet_run:
  assumes "rested c" "ds \<noteq> []" "length ds < 2 ^ 16"
  shows "\<exists>c'. snd (bridge_run fb (burst_packet a ds) (core_reset c, f)) = (c', bus_writes fb a ds f) \<and> rested c'"
proof -
  obtain as b where a: "word_bits a = as @ [b]" using word_bits_snoc by blast
  obtain c1 where 1: "snd (bridge_run fb (True # word_bits (4 :: 4 word) @ as) (core_reset c, f)) = (c1, f)" "k_state c1 = Recv_addr" "pins_quiet c1"
    "bit_cnt c1 = 0" "cmd_reg c1 = 4" "shift_reg b (addr_reg c1) = a" "wait_cnt c1 = wait_cnt c" "bpi_we_n c1"
    using head_run [OF a] by metis
  have "rested c1" using 1(7,8) assms(1) by (simp add: rested_def)
  from addr_last(2) [OF 1(2,3,4,6) this 1(5)] obtain c2 where
    2: "bridge_clock fb b (c1, f) = (c2, f)" "k_state c2 = Burst_recv_cnt" "pins_quiet c2" "bit_cnt c2 = 15" "addr_reg c2 = a" "rested c2"
    by metis
  let ?n = "of_nat (length ds) :: u16"
  let ?c3 = "c2\<lparr>burst_cnt := ?n, bit_cnt := 15, k_state := Burst_data\<rparr>"
  have 3: "snd (bridge_run fb (word_bits ?n) (c2, f)) = (?c3, f)"
    using cnt_run [of c2 "word_bits ?n" fb f] 2(2-4) by simp
  have "unat ?n = length ds" using assms(3) by (simp add: unat_of_nat)
  from burst_words_run [of ?c3 a ds fb f] this 2(3,5,6) assms(2) obtain c4 where
    4: "snd (bridge_run fb (concat (map (\<lambda>d. word_bits d @ replicate 21 False) ds)) (?c3, f)) = (c4, bus_writes fb a ds f)" "rested c4"
    by (auto simp: rested_def)
  have "burst_packet a ds = (True # word_bits (4 :: 4 word) @ as) @ b # word_bits ?n @ concat (map (\<lambda>d. word_bits d @ replicate 21 False) ds)"
    by (simp add: burst_packet_def packet_head_def a)
  then have "snd (bridge_run fb (burst_packet a ds) (core_reset c, f)) = (c4, bus_writes fb a ds f)"
    by (simp only: snd_run_append snd_run_Cons 1(1) [unfolded snd_run_append snd_run_Cons] 2(1) 3 4(1))
  then show ?thesis using 4(2) by blast
qed

subsection \<open>The execution of a read cycle\<close>

definition reading :: "25 word \<Rightarrow> u16 \<Rightarrow> nat \<Rightarrow> core \<Rightarrow> bool" where
  "reading a v t c \<longleftrightarrow>
     k_state c = Exec \<and> cmd_reg c = 2 \<and> unat (wait_cnt c) = t \<and> bpi_addr c = a \<and> \<not> bpi_ce_n c \<and> \<not> bpi_oe_n c \<and> bpi_we_n c \<and>
     \<not> dq_oe c \<and> (t < 10 \<longrightarrow> rd_data_reg c = v)"

lemma reading_step:
  assumes "reading a (nf_rd fb a f) (Suc t) c" "t < 20"
  shows "\<exists>c'. bridge_clock fb b (c, f) = (c', f) \<and> reading a (nf_rd fb a f) t c'"
proof -
  have R: "k_state c = Exec" "cmd_reg c = 2" "unat (wait_cnt c) = Suc t" "bpi_addr c = a" "\<not> bpi_ce_n c" "\<not> bpi_oe_n c" "bpi_we_n c" "\<not> dq_oe c"
    using assms(1) by (simp_all add: reading_def)
  have w0: "wait_cnt c \<noteq> 0" "unat (wait_cnt c - 1) = t" using R(3) word_pred by auto
  have "wait_cnt c = 10 \<longleftrightarrow> t = 9" using R(3) by (auto simp: word_unat_eq_iff)
  moreover have "bus_dq fb c f = nf_rd fb a f" using R by (simp add: bus_dq_def)
  moreover have "t < 9 \<Longrightarrow> rd_data_reg c = nf_rd fb a f" using assms(1) by (simp add: reading_def)
  ultimately show ?thesis using R w0 by (auto simp: clock_defs reading_def)
qed

lemma reading_run:
  "reading a (nf_rd fb a f) (length bs) c \<Longrightarrow> length bs \<le> 20 \<Longrightarrow>
   \<exists>c'. snd (bridge_run fb bs (c, f)) = (c', f) \<and> reading a (nf_rd fb a f) 0 c'"
proof (induction bs arbitrary: c)
  case (Cons b bs)
  then obtain c1 where "bridge_clock fb b (c, f) = (c1, f)" "reading a (nf_rd fb a f) (length bs) c1"
    using reading_step [of a fb f "length bs" c b] by auto
  with Cons.IH [of c1] Cons.prems(2) show ?case unfolding snd_run_Cons by simp
qed auto

text \<open>The word comes out with its lowest bit first.\<close>

lemma send_run:
  "k_state c = Send_data \<Longrightarrow> pins_quiet c \<Longrightarrow> rested c \<Longrightarrow> unat (bit_cnt c) + 1 = length bs \<Longrightarrow> length bs \<le> 16 \<Longrightarrow>
   \<exists>c'. bridge_run fb bs (c, f) = (map (bit (rd_data_reg c)) [0..<length bs], c', f) \<and> rested c'"
proof (induction bs arbitrary: c)
  case (Cons b bs)
  show ?case
  proof (cases "bs = []")
    case True
    then have "bit_cnt c = 0" using Cons.prems(4) by (simp add: unat_eq_zero)
    then show ?thesis using Cons.prems True by (auto simp: clock_defs pins_quiet_def rested_def)
  next
    case False
    then obtain k where k: "unat (bit_cnt c) = Suc k" "length bs = Suc k" using Cons.prems(4) by (cases bs) auto
    note w = word_pred [OF k(1)]
    let ?c = "c\<lparr>rd_data_reg := shift_reg True (rd_data_reg c), bit_cnt := bit_cnt c - 1\<rparr>"
    have 1: "bridge_clock fb b (c, f) = (?c, f)" using Cons.prems(1,2) w by (cases c) (simp add: clock_defs pins_quiet_def)
    have "rested ?c" using Cons.prems(3) by (simp add: rested_def)
    with Cons.IH [of ?c] Cons.prems w k obtain c' where
      2: "bridge_run fb bs (?c, f) = (map (bit (shift_reg True (rd_data_reg c))) [0..<length bs], c', f)" "rested c'" by auto
    have "bit (shift_reg True (rd_data_reg c)) i = bit (rd_data_reg c) (Suc i)" if "i < length bs" for i
      using Cons.prems(5) that by (simp add: bit_shift_reg)
    then have "bit (rd_data_reg c) 0 # map (bit (shift_reg True (rd_data_reg c))) [0..<length bs] =
        map (bit (rd_data_reg c)) [0..<length (b # bs)]"
      by (simp add: upt_conv_Cons map_Suc_upt [symmetric] del: upt_Suc)
    then show ?thesis using 1 2 by simp
  qed
qed simp

lemma fst_run_append: "fst (bridge_run fb (xs @ ys) cf) = fst (bridge_run fb xs cf) @ fst (bridge_run fb ys (snd (bridge_run fb xs cf)))"
  by (simp add: bridge_run_append split_def Let_def)

lemma read_packet_run:
  assumes "rested c"
  shows "\<exists>out c'. bridge_run fb (read_packet a) (core_reset c, f) = (out, c', f) \<and> rested c' \<and> length out = 67 \<and>
    drop 51 out = word_bits (nf_rd fb a f)"
proof -
  obtain as b where a: "word_bits a = as @ [b]" using word_bits_snoc by blast
  have len: "length as = 24" using arg_cong [OF a, of length] by simp
  obtain c1 where 1: "snd (bridge_run fb (True # word_bits (2 :: 4 word) @ as) (core_reset c, f)) = (c1, f)" "k_state c1 = Recv_addr" "pins_quiet c1"
    "bit_cnt c1 = 0" "cmd_reg c1 = 2" "shift_reg b (addr_reg c1) = a" "wait_cnt c1 = wait_cnt c" "bpi_we_n c1"
    using head_run [OF a] by metis
  have "rested c1" using 1(7,8) assms by (simp add: rested_def)
  from addr_last(3) [OF 1(2,3,4,6) this 1(5), of fb f] obtain c2 where
    2: "bridge_clock fb b (c1, f) = (c2, f)" "reading a (nf_rd fb a f) 20 c2"
    by (auto simp: reading_def)
  from reading_run [of a fb f "replicate 20 False" c2] 2(2) obtain c3 where
    3: "snd (bridge_run fb (replicate 20 False) (c2, f)) = (c3, f)" "reading a (nf_rd fb a f) 0 c3" by auto
  then have "wait_cnt c3 = 0" by (simp add: reading_def unat_eq_zero)
  with 3(2) have "\<exists>c4. bridge_clock fb False (c3, f) = (c4, f) \<and> k_state c4 = Send_data \<and> pins_quiet c4 \<and> rested c4 \<and> bit_cnt c4 = 15 \<and>
      rd_data_reg c4 = nf_rd fb a f"
    by (auto simp: reading_def clock_defs pins_quiet_def rested_def)
  then obtain c4 where 4: "bridge_clock fb False (c3, f) = (c4, f)" "k_state c4 = Send_data" "pins_quiet c4" "rested c4" "bit_cnt c4 = 15"
      "rd_data_reg c4 = nf_rd fb a f" by blast
  from send_run [OF 4(2-4), of "replicate 16 False" fb f] 4(5,6) obtain c5 where
    5: "bridge_run fb (replicate 16 False) (c4, f) = (word_bits (nf_rd fb a f), c5, f)" "rested c5" by (auto simp: word_bits_def)
  let ?pre = "(True # word_bits (2 :: 4 word) @ as) @ b # replicate 20 False @ [False]"
  have pre: "snd (bridge_run fb ?pre (core_reset c, f)) = (c4, f)"
    by (simp only: snd_run_append snd_run_Cons 1(1) [unfolded snd_run_append snd_run_Cons] 2(1) 3(1) 4(1)) simp
  have "replicate 37 False = replicate 20 False @ [False] @ replicate 16 False" by (simp add: numeral_eq_Suc)
  then have p: "read_packet a = ?pre @ replicate 16 False" by (simp add: read_packet_def packet_head_def a)
  have "fst (bridge_run fb (read_packet a) (core_reset c, f)) = fst (bridge_run fb ?pre (core_reset c, f)) @ word_bits (nf_rd fb a f)"
    unfolding p fst_run_append pre 5(1) by simp
  moreover have "length (fst (bridge_run fb ?pre (core_reset c, f))) = 51" by (simp only: length_bridge_run) (simp add: len)
  moreover have "snd (bridge_run fb (read_packet a) (core_reset c, f)) = (c5, f)" unfolding p snd_run_append [of fb ?pre] pre 5(1) by simp
  ultimately show ?thesis using 5(2) by (cases "bridge_run fb (read_packet a) (core_reset c, f)") auto
qed

subsection \<open>The three packets on the bus\<close>

text \<open>
  C7: whatever state the core rests in, a data scan with a packet has exactly its effect on the flash behind the bridge: a write packet is one
  write cycle with its address and word, a burst packet one cycle per word at consecutive addresses, and a read packet writes nothing and
  returns the word of its address as the last 16 of its 67 bits; the core rests again afterwards.
\<close>

theorem bridge_executes_packets:
  assumes "rested c" "ds \<noteq> []" "length ds < 2 ^ 16"
  shows "snd (snd (bridge_scan fb (write_packet a d) (c, f))) = nf_wr fb a d (nf_tick fb f) \<and>
    snd (snd (bridge_scan fb (burst_packet a ds) (c, f))) = bus_writes fb a ds (nf_tick fb f) \<and>
    snd (snd (bridge_scan fb (read_packet a) (c, f))) = nf_tick fb f \<and>
    drop 51 (fst (bridge_scan fb (read_packet a) (c, f))) = word_bits (nf_rd fb a (nf_tick fb f)) \<and>
    list_all (\<lambda>p. rested (fst (snd (bridge_scan fb p (c, f))))) [write_packet a d, burst_packet a ds, read_packet a]"
  using write_packet_run [OF assms(1), of fb a d "nf_tick fb f"] burst_packet_run [OF assms, of fb a "nf_tick fb f"]
    read_packet_run [OF assms(1), of fb a "nf_tick fb f"]
  by (auto simp: bridge_scan_def bridge_capture_def)

text \<open>A chip that keeps a record of its write cycles.\<close>

definition demo_nor :: "(25 word \<times> u16) list nor16" where
  "demo_nor = \<lparr>nf_rd = (\<lambda>a ws. case map_of (rev ws) a of None \<Rightarrow> 0xFFFF | Some d \<Rightarrow> d), nf_wr = (\<lambda>a d ws. ws @ [(a, d)]),
     nf_tick = (\<lambda>ws. ws), nf_float = 0\<rparr>"

definition reset_core :: core where
  "reset_core = core_reset \<lparr>k_state = Idle, bit_cnt = 0, cmd_reg = 0, addr_reg = 0, wr_data_reg = 0, rd_data_reg = 0, wait_cnt = 0, burst_cnt = 0,
     bpi_addr = 0, bpi_ce_n = True, bpi_oe_n = True, bpi_we_n = True, bpi_adv_n = True, dq_oe = False, dq_out = 0\<rparr>"

theorem bridge_executes_packets_witness:
  "snd (snd (bridge_scan demo_nor (burst_packet 0x1FFFFFF [0x1234, 0xABCD]) (reset_core, []))) = [(0x1FFFFFF, 0x1234), (0, 0xABCD)] \<and>
   drop 51 (fst (bridge_scan demo_nor (read_packet 5) (reset_core, [(5, 0xCAFE)]))) = word_bits (0xCAFE :: u16)"
proof -
  have r: "rested reset_core" by (simp add: reset_core_def core_reset_def rested_def)
  show ?thesis
    using bridge_executes_packets [OF r, of "[0x1234, 0xABCD]" demo_nor "0x1FFFFFF" 0 "[]"]
      bridge_executes_packets [OF r, of "[0]" demo_nor 5 0 "[(5, 0xCAFE)]"]
    by (simp add: demo_nor_def)
qed

end
