(* ===== verification/Bpi_Flash.thy ===== *)
theory Bpi_Flash
  imports Jtag_Scan Bpi_Bridge
begin

unbundle bit_operations_syntax

section \<open>Parallel flash behind the bridge (\<open>bpiFlash.cpp\<close>)\<close>

text \<open>
  The class \<open>BPIFlash\<close> on the methods of \<open>Jtag\<close>: the packets it shifts into the user register, and on top of them the
  commands of the flash.  Waiting times and messages are left out; the words that are read only to be printed are read.
\<close>

record bpi =
  bp_verbose :: int
  bp_irlen :: nat
  bp_capacity :: u32
  bp_block_size :: u32
  bp_manufacturer_id :: u16
  bp_device_id :: u16
  bp_has_burst :: bool

definition bpi_ctor :: "int \<Rightarrow> bpi" where
  "bpi_ctor verbose = \<lparr>bp_verbose = verbose, bp_irlen = 6, bp_capacity = 0, bp_block_size = 256 * 1024,
     bp_manufacturer_id = 0, bp_device_id = 0, bp_has_burst = False\<rparr>"

text \<open>The swaps of nibbles, pairs and bits; not the table of \<open>configBitstreamParser.cpp\<close>.\<close>

definition bpi_reverseByte :: "u8 \<Rightarrow> u8" where
  "bpi_reverseByte b =
     (let b = drop_bit 4 (b AND 0xF0) OR push_bit 4 (b AND 0x0F);
          b = drop_bit 2 (b AND 0xCC) OR push_bit 2 (b AND 0x33);
          b = drop_bit 1 (b AND 0xAA) OR push_bit 1 (b AND 0x55)
      in b)"

abbreviation CMD_WRITE :: "64 word" where "CMD_WRITE \<equiv> 1"
abbreviation CMD_READ :: "64 word" where "CMD_READ \<equiv> 2"
abbreviation CMD_BURST_WRITE :: "4 word" where "CMD_BURST_WRITE \<equiv> 4"
abbreviation FLASH_CMD_READ_ARRAY :: u16 where "FLASH_CMD_READ_ARRAY \<equiv> 0xFF"
abbreviation FLASH_CMD_READ_ID :: u16 where "FLASH_CMD_READ_ID \<equiv> 0x90"
abbreviation FLASH_CMD_READ_STATUS :: u16 where "FLASH_CMD_READ_STATUS \<equiv> 0x70"
abbreviation FLASH_CMD_CLEAR_STATUS :: u16 where "FLASH_CMD_CLEAR_STATUS \<equiv> 0x50"
abbreviation FLASH_CMD_BUFFERED_PRG :: u16 where "FLASH_CMD_BUFFERED_PRG \<equiv> 0xE9"
abbreviation FLASH_CMD_CONFIRM :: u16 where "FLASH_CMD_CONFIRM \<equiv> 0xD0"
abbreviation FLASH_CMD_BLOCK_ERASE :: u16 where "FLASH_CMD_BLOCK_ERASE \<equiv> 0x20"
abbreviation FLASH_CMD_UNLOCK_BLOCK :: u16 where "FLASH_CMD_UNLOCK_BLOCK \<equiv> 0x60"
abbreviation FLASH_CMD_UNLOCK_CONF :: u16 where "FLASH_CMD_UNLOCK_CONF \<equiv> 0xD0"
abbreviation SR_READY :: u8 where "SR_READY \<equiv> 0x80"
abbreviation SR_ERRORS :: u8 where "SR_ERRORS \<equiv> 0x20 OR 0x10 OR 0x08"

subsection \<open>Packets\<close>

definition user1 :: bytes where "user1 = [0x02]"

definition packet_bytes :: "64 word \<Rightarrow> nat \<Rightarrow> nat \<Rightarrow> bytes" where
  "packet_bytes packet n total_bytes = map (byte_of packet) [0..<n] @ replicate (total_bytes - n) 0"

definition read_tx :: "u32 \<Rightarrow> bytes" where
  "read_tx word_addr = packet_bytes (1 OR push_bit 1 CMD_READ OR push_bit 5 (ucast (word_addr AND 0x1FFFFFF))) 5 9"

definition write_tx :: "u32 \<Rightarrow> u16 \<Rightarrow> bytes" where
  "write_tx word_addr data =
     packet_bytes (1 OR push_bit 1 CMD_WRITE OR push_bit 5 (ucast (word_addr AND 0x1FFFFFF)) OR push_bit 30 (ucast data)) 8 9"

definition bpi_read :: "'j jtag_user \<Rightarrow> bpi \<Rightarrow> u32 \<Rightarrow> 'j \<Rightarrow> (u16 \<times> 'j) res" where
  "bpi_read u bp word_addr j =
     bindE (ju_shiftIR u user1 (bp_irlen bp) RUN_TEST_IDLE j) (\<lambda>j.
     bindE (ju_shiftDR u (Some (read_tx word_addr)) (Some (replicate 9 0)) 67 RUN_TEST_IDLE j) (\<lambda>(rx, j).
     bindE (ju_flush u j) (\<lambda>j.
       let rx = (case rx of None \<Rightarrow> replicate 9 0 | Some r \<Rightarrow> r) in
       Inr (foldl (\<lambda>data i. if nth_bit rx (51 + i) then data OR push_bit i 1 else data) 0 [0..<16], j))))"

definition bpi_write :: "'j jtag_user \<Rightarrow> bpi \<Rightarrow> u32 \<Rightarrow> u16 \<Rightarrow> 'j \<Rightarrow> 'j res" where
  "bpi_write u bp word_addr data j =
     bindE (ju_shiftIR u user1 (bp_irlen bp) RUN_TEST_IDLE j) (\<lambda>j.
     bindE (ju_shiftDR u (Some (write_tx word_addr data)) None 66 RUN_TEST_IDLE j) (\<lambda>(_, j). ju_flush u j))"

definition bpi_write_no_flush :: "'j jtag_user \<Rightarrow> u32 \<Rightarrow> u16 \<Rightarrow> 'j \<Rightarrow> 'j res" where
  "bpi_write_no_flush u word_addr data j =
     bindE (ju_shiftDR u (Some (write_tx word_addr data)) None 66 RUN_TEST_IDLE j) (\<lambda>(_, j). Inr j)"

text \<open>\<open>set_bit\<close> and the loops around it; the state is \<open>pos\<close> and \<open>tx\<close>.\<close>

fun put_bits :: "bool list \<Rightarrow> nat \<times> bytes \<Rightarrow> nat \<times> bytes" where
  "put_bits [] pt = pt"
| "put_bits (b # bs) (pos, tx) = put_bits bs (pos + 1, if b then set_bit_at tx pos else tx)"

fun put_words :: "u16 list \<Rightarrow> nat \<times> bytes \<Rightarrow> nat \<times> bytes" where
  "put_words [] pt = pt"
| "put_words (d # ds) pt = (let (pos, tx) = put_bits (map (bit d) [0..<16]) pt in put_words ds (pos + 21, tx))"

definition burst_tx :: "u32 \<Rightarrow> u16 list \<Rightarrow> bytes" where
  "burst_tx word_addr data =
     (let count = length data; total_bytes = (46 + count * 37 + 7) div 8;
          pt = put_bits [True] (0, replicate total_bytes 0);
          pt = put_bits (map (bit CMD_BURST_WRITE) [0..<4]) pt;
          pt = put_bits (map (bit word_addr) [0..<25]) pt;
          pt = put_bits (map (bit (of_nat count :: u32)) [0..<16]) pt
      in snd (put_words data pt))"

definition bpi_burst_write :: "'j jtag_user \<Rightarrow> bpi \<Rightarrow> u32 \<Rightarrow> u16 list \<Rightarrow> 'j \<Rightarrow> 'j res" where
  "bpi_burst_write u bp word_addr data j =
     (if data = [] then Inr j
      else
        bindE (ju_shiftIR u user1 (bp_irlen bp) RUN_TEST_IDLE j) (\<lambda>j.
        bindE (ju_shiftDR u (Some (burst_tx word_addr data)) None (46 + length data * 37) RUN_TEST_IDLE j) (\<lambda>(_, j). ju_flush u j)))"

subsection \<open>Commands of the flash\<close>

text \<open>Calls of \<open>bpi_write\<close> in a row.\<close>

fun bpi_writes :: "'j jtag_user \<Rightarrow> bpi \<Rightarrow> (u32 \<times> u16) list \<Rightarrow> 'j \<Rightarrow> 'j res" where
  "bpi_writes u bp [] j = Inr j"
| "bpi_writes u bp ((a, d) # xs) j = bindE (bpi_write u bp a d j) (bpi_writes u bp xs)"

definition bpi_detect :: "'j jtag_user \<Rightarrow> bpi \<Rightarrow> 'j \<Rightarrow> (bool \<times> bpi \<times> 'j) res" where
  "bpi_detect u bp j =
     bindE (bpi_write u bp 0 FLASH_CMD_READ_ID j) (\<lambda>j.
     bindE (bpi_read u bp 0 j) (\<lambda>(man, j).
     bindE (bpi_read u bp 1 j) (\<lambda>(dev, j).
     bindE (bpi_write u bp 0 FLASH_CMD_READ_ARRAY j) (\<lambda>j.
       let bp = bp\<lparr>bp_manufacturer_id := man, bp_device_id := dev\<rparr> in
       if man = 0xFFFF \<or> man = 0 then Inr (False, bp, j)
       else Inr (True, bp\<lparr>bp_capacity := 64 * 1024 * 1024, bp_block_size := 256 * 1024, bp_has_burst := True\<rparr>, j)))))"

function wait_ready_loop :: "'j jtag_user \<Rightarrow> bpi \<Rightarrow> nat \<Rightarrow> nat \<Rightarrow> 'j \<Rightarrow> (bool \<times> 'j) res" where
  "wait_ready_loop u bp timeout_ms elapsed j =
     (if elapsed < timeout_ms then
        bindE (bpi_read u bp 0 j) (\<lambda>(status, j).
          let sr = ucast status :: u8 in
          if sr AND SR_READY \<noteq> 0 then
            if sr AND SR_ERRORS \<noteq> 0 then bindE (bpi_write u bp 0 FLASH_CMD_CLEAR_STATUS j) (\<lambda>j. Inr (False, j))
            else bindE (bpi_write u bp 0 FLASH_CMD_READ_ARRAY j) (\<lambda>j. Inr (True, j))
          else wait_ready_loop u bp timeout_ms (elapsed + 10) j)
      else Inr (False, j))"
  by pat_completeness auto
termination
  by (relation "measure (\<lambda>(u, bp, t, e, j). t - e)") auto

declare wait_ready_loop.simps [simp del]

definition wait_ready :: "'j jtag_user \<Rightarrow> bpi \<Rightarrow> nat \<Rightarrow> 'j \<Rightarrow> (bool \<times> 'j) res" where
  "wait_ready u bp timeout_ms j = bindE (bpi_write u bp 0 FLASH_CMD_READ_STATUS j) (wait_ready_loop u bp timeout_ms 0)"

definition unlock_block :: "'j jtag_user \<Rightarrow> bpi \<Rightarrow> u32 \<Rightarrow> 'j \<Rightarrow> (bool \<times> 'j) res" where
  "unlock_block u bp word_addr j =
     bindE (bpi_writes u bp [(word_addr, FLASH_CMD_UNLOCK_BLOCK), (word_addr, FLASH_CMD_UNLOCK_CONF)] j) (\<lambda>j. Inr (True, j))"

fun read_each :: "'j jtag_user \<Rightarrow> bpi \<Rightarrow> u32 list \<Rightarrow> 'j \<Rightarrow> (u16 list \<times> 'j) res" where
  "read_each u bp [] j = Inr ([], j)"
| "read_each u bp (a # as) j = bindE (bpi_read u bp a j) (\<lambda>(w, j). bindE (read_each u bp as j) (\<lambda>(ws, j). Inr (w # ws, j)))"

definition erase_block :: "'j jtag_user \<Rightarrow> bpi \<Rightarrow> u32 \<Rightarrow> 'j \<Rightarrow> (bool \<times> 'j) res" where
  "erase_block u bp addr j =
     (let word_addr = drop_bit 1 addr in
      bindE (unlock_block u bp word_addr j) (\<lambda>(_, j).
      bindE (bpi_writes u bp [(word_addr, FLASH_CMD_BLOCK_ERASE), (word_addr, FLASH_CMD_CONFIRM)] j) (\<lambda>j.
      bindE (wait_ready u bp 30000 j) (\<lambda>(ok, j).
        if \<not> ok then Inr (False, j)
        else if bp_verbose bp \<noteq> 0 then
          bindE (bpi_write u bp word_addr FLASH_CMD_READ_ARRAY j) (\<lambda>j.
          bindE (read_each u bp (map (\<lambda>i. word_addr + i) [0, 1, 2, 3]) j) (\<lambda>(_, j). Inr (True, j)))
        else Inr (True, j)))))"

fun erase_blocks :: "'j jtag_user \<Rightarrow> bpi \<Rightarrow> u32 list \<Rightarrow> 'j \<Rightarrow> (bool \<times> 'j) res" where
  "erase_blocks u bp [] j = Inr (True, j)"
| "erase_blocks u bp (b # bs) j =
     bindE (erase_block u bp (b * bp_block_size bp) j) (\<lambda>(ok, j). if ok then erase_blocks u bp bs j else Inr (False, j))"

definition block_range :: "u32 \<Rightarrow> u32 \<Rightarrow> u32 list" where
  "block_range lo hi = map of_nat [unat lo..<Suc (unat hi)]"

definition bpi_bulk_erase :: "'j jtag_user \<Rightarrow> bpi \<Rightarrow> 'j \<Rightarrow> (bool \<times> 'j) res" where
  "bpi_bulk_erase u bp j =
     (if bp_block_size bp = 0 then Inl Undefined
      else erase_blocks u bp (map of_nat [0..<unat (bp_capacity bp div bp_block_size bp)]) j)"

text \<open>The high byte of a word comes first, and each byte is mirrored.\<close>

definition word_bytes :: "u16 \<Rightarrow> bytes" where
  "word_bytes w = [bpi_reverseByte (ucast (drop_bit 8 w)), bpi_reverseByte (ucast w)]"

definition bpi_read_bytes :: "'j jtag_user \<Rightarrow> bpi \<Rightarrow> u32 \<Rightarrow> nat \<Rightarrow> 'j \<Rightarrow> (bool \<times> bytes \<times> 'j) res" where
  "bpi_read_bytes u bp addr len j =
     bindE (bpi_write u bp 0 FLASH_CMD_READ_ARRAY j) (\<lambda>j.
     bindE (read_each u bp (map (\<lambda>k. drop_bit 1 (addr + of_nat (2 * k))) [0..<(len + 1) div 2]) j) (\<lambda>(ws, j).
       Inr (True, take len (concat (map word_bytes ws)), j)))"

subsection \<open>Writing\<close>

definition data_word :: "bytes \<Rightarrow> nat \<Rightarrow> u16" where
  "data_word data k =
     push_bit 8 (ucast (bpi_reverseByte (data ! k))) OR ucast (bpi_reverseByte (if k + 1 < length data then data ! (k + 1) else 0xFF))"

definition chunk_words :: "nat \<Rightarrow> nat \<Rightarrow> nat \<Rightarrow> nat" where
  "chunk_words block_size byte_addr remaining =
     (let chunk_bytes = (if remaining > 1024 then 1024 else remaining);
          to_end = block_size - byte_addr mod block_size;
          chunk_bytes = (if chunk_bytes > to_end then to_end else chunk_bytes)
      in (chunk_bytes + 1) div 2)"

fun writes_no_flush :: "'j jtag_user \<Rightarrow> u32 \<Rightarrow> u16 list \<Rightarrow> 'j \<Rightarrow> 'j res" where
  "writes_no_flush u a [] j = Inr j"
| "writes_no_flush u a (w # ws) j = bindE (bpi_write_no_flush u a w j) (writes_no_flush u (a + 1) ws)"

text \<open>One buffer: set up, count, the words, confirmation, and the wait.\<close>

definition bpi_write_buffer :: "'j jtag_user \<Rightarrow> bpi \<Rightarrow> u32 \<Rightarrow> u32 \<Rightarrow> u16 list \<Rightarrow> 'j \<Rightarrow> (bool \<times> 'j) res" where
  "bpi_write_buffer u bp block_word_addr word_addr word_buf j =
     bindE (bpi_writes u bp [(0, FLASH_CMD_CLEAR_STATUS), (block_word_addr, FLASH_CMD_BUFFERED_PRG),
       (block_word_addr, of_nat (length word_buf) - 1)] j) (\<lambda>j.
     bindE (if bp_has_burst bp then bpi_burst_write u bp word_addr word_buf j
            else bindE (ju_shiftIR u user1 (bp_irlen bp) RUN_TEST_IDLE j) (\<lambda>j.
                 bindE (writes_no_flush u word_addr word_buf j) (ju_flush u))) (\<lambda>j.
     bindE (bpi_write u bp block_word_addr FLASH_CMD_CONFIRM j) (wait_ready u bp 5000)))"

text \<open>The loop over the buffers; a block is unlocked when it is entered.\<close>

function write_loop :: "'j jtag_user \<Rightarrow> bpi \<Rightarrow> u32 \<Rightarrow> bytes \<Rightarrow> nat \<Rightarrow> u32 \<Rightarrow> 'j \<Rightarrow> (bool \<times> 'j) res" where
  "write_loop u bp addr data offset last_block j =
     (if bp_block_size bp = 0 then Inl Undefined
      else if offset < length data then
        let byte_addr = addr + of_nat offset;
            current_block = byte_addr div bp_block_size bp;
            block_word_addr = current_block * drop_bit 1 (bp_block_size bp);
            n = chunk_words (unat (bp_block_size bp)) (unat byte_addr) (length data - offset)
        in bindE (if current_block \<noteq> last_block then unlock_block u bp block_word_addr j else Inr (True, j)) (\<lambda>(_, j).
           bindE (bpi_write_buffer u bp block_word_addr (drop_bit 1 byte_addr) (map (\<lambda>w. data_word data (offset + w * 2)) [0..<n]) j)
             (\<lambda>(ok, j). if \<not> ok then Inr (False, j) else write_loop u bp addr data (offset + n * 2) current_block j))
      else Inr (True, j))"
  by pat_completeness auto
termination
proof (relation "measure (\<lambda>(u, bp, a, d, off, l, j). length d - off)", goal_cases)
  case (2 u bp addr data offset)
  have "0 < chunk_words (unat (bp_block_size bp)) b (length data - offset)" for b
    using 2(1,2) by (simp add: chunk_words_def Let_def unat_gt_0)
  then show ?case using 2(2,3-6) by (simp add: diff_less_mono2)
qed simp

declare write_loop.simps [simp del]

text \<open>
  The erasure of the blocks from the first to the last byte, the loop, and the comparison of the first 32 words, whose
  outcome is only printed.
\<close>

definition bpi_write_bytes :: "'j jtag_user \<Rightarrow> bpi \<Rightarrow> u32 \<Rightarrow> bytes \<Rightarrow> 'j \<Rightarrow> (bool \<times> 'j) res" where
  "bpi_write_bytes u bp addr data j =
     (if bp_block_size bp = 0 then Inl Undefined
      else
        let len = of_nat (length data) :: u32 in
        bindE (erase_blocks u bp (block_range (addr div bp_block_size bp) ((addr + len - 1) div bp_block_size bp)) j) (\<lambda>(ok, j).
        if \<not> ok then Inr (False, j)
        else bindE (write_loop u bp addr data 0 0xFFFFFFFF j) (\<lambda>(ok, j).
          if \<not> ok then Inr (False, j)
          else
            bindE (bpi_writes u bp [(0, FLASH_CMD_READ_ARRAY), (0, FLASH_CMD_READ_ARRAY)] j) (\<lambda>j.
            bindE (read_each u bp (map of_nat [0..<(min 64 (length data) + 1) div 2]) j) (\<lambda>(_, j). Inr (True, j))))))"

subsection \<open>The bytes of a packet are the packet\<close>

lemma bit_twice: "bit (x * 2 :: u8) (Suc n) \<longleftrightarrow> n < 7 \<and> bit x n"
  using bit_double_iff [of x "Suc n"] by (auto simp: mult.commute)

lemma bit_bpi_reverseByte: "bit (bpi_reverseByte b) n \<longleftrightarrow> n < 8 \<and> bit b (7 - n)"
proof (cases "n < 8")
  case True
  then have "n \<in> set [0..<8]" by simp
  moreover have "\<forall>n \<in> set [0..<8]. bit (bpi_reverseByte b) n \<longleftrightarrow> bit b (7 - n)"
    by (simp add: bpi_reverseByte_def Let_def upt_rec bit_simps bit_twice numeral_3_eq_3)
  ultimately show ?thesis using True by blast
qed (auto dest: bit_imp_le_length)

lemma bpi_reverseByte_inverse [simp]: "bpi_reverseByte (bpi_reverseByte b) = b"
  by (rule bit_word_eqI) (auto simp: bit_bpi_reverseByte)

lemma bits_segment: "map f [0..<m + n] = map f [0..<m] @ map (\<lambda>i. f (m + i)) [0..<n]"
  by (rule nth_equalityI) (auto simp: nth_append)

lemma nth_bit_packet_bytes:
  "n \<le> m \<Longrightarrow> i < 8 * m \<Longrightarrow> nth_bit (packet_bytes p n m) i \<longleftrightarrow> i < 8 * n \<and> bit p i"
proof -
  assume "n \<le> m" "i < 8 * m"
  then have "i div 8 < m" by (simp add: less_mult_imp_div_less mult.commute)
  moreover have "i div 8 < n \<longleftrightarrow> i < 8 * n" by (simp add: div_less_iff_less_mult mult.commute)
  moreover have "8 * (i div 8) + i mod 8 = i" by simp
  ultimately show ?thesis using \<open>n \<le> m\<close> by (auto simp: packet_bytes_def nth_bit_def nth_append bit_byte_of)
qed

lemma word_bits_eval [simp]:
  "word_bits (1 :: 4 word) = [True, False, False, False]" "word_bits (2 :: 4 word) = [False, True, False, False]"
  "word_bits (4 :: 4 word) = [False, False, True, False]"
  by (simp_all add: word_bits_def upt_rec)

lemma word_bits_ucast: "LENGTH('b) \<le> LENGTH('a) \<Longrightarrow> word_bits (ucast (a :: 'a::len word) :: 'b::len word) = map (bit a) [0..<LENGTH('b)]"
  by (simp add: word_bits_def bit_ucast_iff)

lemma bit_address: "bit ((w :: u32) AND 0x1FFFFFF) i \<longleftrightarrow> i < 25 \<and> bit w i"
proof -
  have "(0x1FFFFFF :: u32) = mask 25" by (simp add: mask_eq_exp_minus_1)
  then show ?thesis by (simp only: bit_and_iff bit_mask_iff) auto
qed

lemma bit_four: "bit (4 :: int) i \<longleftrightarrow> i = 2"
proof -
  have "(4 :: int) = 2 ^ 2" by simp
  then show ?thesis by (simp only: bit_exp_iff) auto
qed

lemma read_tx_bits: "bits_of (read_tx a) 67 = read_packet (ucast a)"
proof -
  define w where "w = a AND 0x1FFFFFF"
  have w: "bit w i \<longleftrightarrow> i < 25 \<and> bit a i" for i unfolding w_def by (rule bit_address)
  let ?p = "1 OR push_bit 1 CMD_READ OR push_bit 5 (ucast w)"
  have nb: "nth_bit (read_tx a) i \<longleftrightarrow> i < 40 \<and> bit ?p i" if "i < 72" for i
    using that nth_bit_packet_bytes [of 5 9 i ?p] by (simp add: read_tx_def w_def)
  have "bits_of (read_tx a) 67 = map (nth_bit (read_tx a)) [0..<5 + (25 + 37)]" by (simp add: bits_of_def)
  also have "\<dots> = map (nth_bit (read_tx a)) [0..<5] @ map (\<lambda>i. nth_bit (read_tx a) (5 + i)) [0..<25] @
      map (\<lambda>i. nth_bit (read_tx a) (5 + (25 + i))) [0..<37]"
    unfolding bits_segment ..
  also have "map (nth_bit (read_tx a)) [0..<5] = True # word_bits (2 :: 4 word)"
    by (simp add: upt_rec nb bit_or_iff bit_push_bit_iff bit_1_iff w bit_four bit_simps)
  also have "map (\<lambda>i. nth_bit (read_tx a) (5 + i)) [0..<25] = word_bits (ucast a :: 25 word)"
    by (simp add: word_bits_ucast nb bit_or_iff bit_push_bit_iff bit_1_iff bit_ucast_iff w bit_four bit_simps)
  also have "map (\<lambda>i. nth_bit (read_tx a) (5 + (25 + i))) [0..<37] = replicate 37 False"
    by (rule nth_equalityI) (auto simp: nb bit_or_iff bit_push_bit_iff bit_1_iff bit_ucast_iff w bit_four bit_simps)
  finally show ?thesis by (simp add: read_packet_def packet_head_def)
qed

lemma write_tx_bits: "bits_of (write_tx a d) 66 = write_packet (ucast a) d"
proof -
  define w where "w = a AND 0x1FFFFFF"
  have w: "bit w i \<longleftrightarrow> i < 25 \<and> bit a i" for i unfolding w_def by (rule bit_address)
  let ?p = "1 OR push_bit 1 CMD_WRITE OR push_bit 5 (ucast w) OR push_bit 30 (ucast d)"
  have nb: "nth_bit (write_tx a d) i \<longleftrightarrow> i < 64 \<and> bit ?p i" if "i < 72" for i
    using that nth_bit_packet_bytes [of 8 9 i ?p] by (simp add: write_tx_def w_def)
  have "bits_of (write_tx a d) 66 = map (nth_bit (write_tx a d)) [0..<5 + (25 + (16 + 20))]" by (simp add: bits_of_def)
  also have "\<dots> = map (nth_bit (write_tx a d)) [0..<5] @ map (\<lambda>i. nth_bit (write_tx a d) (5 + i)) [0..<25] @
      map (\<lambda>i. nth_bit (write_tx a d) (5 + (25 + i))) [0..<16] @ map (\<lambda>i. nth_bit (write_tx a d) (5 + (25 + (16 + i)))) [0..<20]"
    unfolding bits_segment ..
  also have "map (nth_bit (write_tx a d)) [0..<5] = True # word_bits (1 :: 4 word)"
    by (simp add: upt_rec nb bit_or_iff bit_push_bit_iff bit_1_iff w bit_four bit_simps)
  also have "map (\<lambda>i. nth_bit (write_tx a d) (5 + i)) [0..<25] = word_bits (ucast a :: 25 word)"
    by (simp add: word_bits_ucast nb bit_or_iff bit_push_bit_iff bit_1_iff bit_ucast_iff w bit_four bit_simps)
  also have "map (\<lambda>i. nth_bit (write_tx a d) (5 + (25 + i))) [0..<16] = word_bits d"
    by (simp add: word_bits_def nb bit_or_iff bit_push_bit_iff bit_1_iff bit_ucast_iff w bit_four bit_simps)
  also have "map (\<lambda>i. nth_bit (write_tx a d) (5 + (25 + (16 + i)))) [0..<20] = replicate 20 False"
    by (rule nth_equalityI) (auto simp: nb bit_or_iff bit_push_bit_iff bit_1_iff bit_ucast_iff w bit_four bit_simps dest: bit_imp_le_length)
  finally show ?thesis by (simp add: write_packet_def packet_head_def)
qed

text \<open>A burst: setting the bits one by one gives the packet.\<close>

definition holds_bits :: "nat \<Rightarrow> bool list \<Rightarrow> nat \<times> bytes \<Rightarrow> bool" where
  "holds_bits m bs pt \<longleftrightarrow> fst pt = length bs \<and> length (snd pt) = m \<and>
     (\<forall>i < 8 * m. nth_bit (snd pt) i \<longleftrightarrow> i < length bs \<and> bs ! i)"

lemma put_bits_holds:
  "holds_bits m xs pt \<Longrightarrow> length xs + length bs \<le> 8 * m \<Longrightarrow> holds_bits m (xs @ bs) (put_bits bs pt)"
proof (induction bs arbitrary: xs pt)
  case (Cons b bs)
  obtain pos tx where pt: "pt = (pos, tx)" by fastforce
  have h: "pos = length xs" "length tx = m" "\<forall>i < 8 * m. nth_bit tx i \<longleftrightarrow> i < length xs \<and> xs ! i"
    using Cons.prems(1) by (simp_all add: holds_bits_def pt)
  have "length xs < 8 * m" using Cons.prems(2) by simp
  then have "holds_bits m (xs @ [b]) (pos + 1, if b then set_bit_at tx pos else tx)"
    using h by (auto simp: holds_bits_def buf_simps nth_append)
  from Cons.IH [OF this] Cons.prems(2) show ?case by (simp add: pt)
qed simp

lemma skip_holds: "holds_bits m xs (pos, tx) \<Longrightarrow> holds_bits m (xs @ replicate n False) (pos + n, tx)"
  by (auto simp: holds_bits_def nth_append)

lemma put_words_holds:
  "holds_bits m xs pt \<Longrightarrow> length xs + 37 * length ds \<le> 8 * m \<Longrightarrow>
   holds_bits m (xs @ concat (map (\<lambda>d. word_bits d @ replicate 21 False) ds)) (put_words ds pt)"
proof (induction ds arbitrary: xs pt)
  case (Cons d ds)
  have "holds_bits m (xs @ word_bits d) (put_bits (map (bit d) [0..<16]) pt)"
    using put_bits_holds [OF Cons.prems(1), of "word_bits d"] Cons.prems(2) by (simp add: word_bits_def)
  from skip_holds [of m "xs @ word_bits d" "fst (put_bits (map (bit d) [0..<16]) pt)" "snd (put_bits (map (bit d) [0..<16]) pt)" 21] this
    have "holds_bits m (xs @ word_bits d @ replicate 21 False) (case put_bits (map (bit d) [0..<16]) pt of (pos, tx) \<Rightarrow> (pos + 21, tx))"
    by (simp add: split_def)
  from Cons.IH [OF this] Cons.prems(2) show ?case by (simp add: split_def Let_def)
qed simp

lemma burst_tx_bits:
  assumes "length ds < 2 ^ 16"
  shows "bits_of (burst_tx a ds) (46 + length ds * 37) = burst_packet (ucast a) ds"
    and "46 + length ds * 37 \<le> 8 * length (burst_tx a ds)"
proof -
  let ?m = "(46 + length ds * 37 + 7) div 8" and ?n = "of_nat (length ds) :: u16"
  have room: "46 + 37 * length ds \<le> 8 * ?m" by linarith
  have cnt: "map (bit (of_nat (length ds) :: u32)) [0..<16] = word_bits ?n"
    using assms by (simp add: word_bits_def bit_simps)
  have 0: "holds_bits ?m [] (0, replicate ?m 0)" by (simp add: holds_bits_def nth_bit_replicate)
  have 1: "holds_bits ?m [True] (put_bits [True] (0, replicate ?m 0))"
    using put_bits_holds [OF 0, of "[True]"] room by simp
  have 2: "holds_bits ?m (True # word_bits (4 :: 4 word)) (put_bits (map (bit CMD_BURST_WRITE) [0..<4]) (put_bits [True] (0, replicate ?m 0)))"
    using put_bits_holds [OF 1, of "word_bits (4 :: 4 word)"] room by (simp add: word_bits_def)
  note 3 = put_bits_holds [OF 2, of "word_bits (ucast a :: 25 word)", unfolded length_word_bits]
  note 4 = put_bits_holds [OF 3, of "word_bits ?n"]
  note 5 = put_words_holds [OF 4, of ds]
  have "holds_bits ?m (burst_packet (ucast a) ds) (put_words ds (put_bits (map (bit (of_nat (length ds) :: u32)) [0..<16])
      (put_bits (map (bit a) [0..<25]) (put_bits (map (bit CMD_BURST_WRITE) [0..<4]) (put_bits [True] (0, replicate ?m 0))))))"
    using 5 room by (simp add: cnt burst_packet_def packet_head_def word_bits_ucast)
  then have H: "holds_bits ?m (burst_packet (ucast a) ds) (0 + fst (put_words ds (put_bits (map (bit (of_nat (length ds) :: u32)) [0..<16])
      (put_bits (map (bit a) [0..<25]) (put_bits (map (bit CMD_BURST_WRITE) [0..<4]) (put_bits [True] (0, replicate ?m 0)))))), burst_tx a ds)"
    by (simp add: burst_tx_def Let_def)
  have "length (burst_packet (ucast a) ds) = 46 + length ds * 37"
    by (simp add: burst_packet_def packet_head_def length_concat comp_def sum_list_triv)
  then show "bits_of (burst_tx a ds) (46 + length ds * 37) = burst_packet (ucast a) ds" "46 + length ds * 37 \<le> 8 * length (burst_tx a ds)"
    using H room by (auto simp: holds_bits_def intro!: nth_equalityI)
qed

end
