(* ===== verification/Cfi_Chip.thy ===== *)
theory Cfi_Chip
  imports Bpi_Bridge
begin

unbundle bit_operations_syntax

section \<open>What the parallel flash promises\<close>

text \<open>
  The command set of the chip, as the data sheet states it, for the commands \<open>bpiFlash.cpp\<close> gives: a view \<open>cfi\<close> of the
  chip and the effect of a write cycle on it.  Where the data sheet leaves open what a write does, \<open>cfi_cmd\<close> is
  \<open>None\<close>, and nothing is assumed.  \<open>cfi_ok\<close> says that a chip behaves in this way.  The array is divided into banks:
  \<open>bk\<close> gives the bank of a block, and what a read returns is set for each bank on its own, by the commands that are given at
  an address in it.
\<close>

text \<open>Blocks of 128K words, and regions of 512 words that are programmed at once.\<close>

definition block_of :: "25 word \<Rightarrow> 25 word" where "block_of a = drop_bit 17 a"

definition region_of :: "25 word \<Rightarrow> 25 word" where "region_of a = drop_bit 9 a"

datatype cfi_mode = Command | Unlock_setup | Erase_setup "25 word" | Count_wait "25 word" | Buffer "25 word" nat "(25 word \<times> u16) list"

datatype read_mode = Read_array | Read_status | Read_id

record cfi =
  c_mode :: cfi_mode
  c_read :: "nat \<Rightarrow> read_mode"
  c_mem :: "25 word \<Rightarrow> u16"
  c_open :: "25 word \<Rightarrow> bool"
  c_busy :: nat

definition erase_mem :: "25 word \<Rightarrow> (25 word \<Rightarrow> u16) \<Rightarrow> 25 word \<Rightarrow> u16" where
  "erase_mem b m = (\<lambda>x. if block_of x = b then 0xFFFF else m x)"

text \<open>Programming clears bits.\<close>

fun program_mem :: "(25 word \<times> u16) list \<Rightarrow> (25 word \<Rightarrow> u16) \<Rightarrow> 25 word \<Rightarrow> u16" where
  "program_mem [] m = m"
| "program_mem ((a, d) # ws) m = program_mem ws (m(a := m a AND d))"

definition show_bank :: "nat \<Rightarrow> read_mode \<Rightarrow> cfi \<Rightarrow> cfi" where
  "show_bank b r c = c\<lparr>c_mode := Command, c_read := (c_read c)(b := r)\<rparr>"

definition cfi_command :: "(25 word \<Rightarrow> nat) \<Rightarrow> 25 word \<Rightarrow> u16 \<Rightarrow> cfi \<Rightarrow> cfi option" where
  "cfi_command bk a d c =
     (if d = 0xFF then Some (show_bank (bk (block_of a)) Read_array c)
      else if d = 0x70 then Some (show_bank (bk (block_of a)) Read_status c)
      else if d = 0x90 then Some (show_bank (bk (block_of a)) Read_id c)
      else if d = 0x50 then Some c
      else if d = 0x60 then Some (c\<lparr>c_mode := Unlock_setup\<rparr>)
      else if d = 0x20 then Some (c\<lparr>c_mode := Erase_setup (block_of a)\<rparr>)
      else if d = 0xE9 then Some (c\<lparr>c_mode := Count_wait (block_of a)\<rparr>)
      else None)"

text \<open>
  \<open>te\<close> and \<open>tp\<close> are the times an erasure and the programming of a buffer take, in accesses.  The confirmation of an
  operation sets the bank of its block to the status register.
\<close>

definition cfi_cmd :: "(25 word \<Rightarrow> nat) \<Rightarrow> nat \<Rightarrow> nat \<Rightarrow> 25 word \<Rightarrow> u16 \<Rightarrow> cfi \<Rightarrow> cfi option" where
  "cfi_cmd bk te tp a d c =
     (if c_busy c > 0 then (if d = 0x70 \<and> c_mode c = Command then Some (show_bank (bk (block_of a)) Read_status c) else None)
      else case c_mode c of
        Command \<Rightarrow> cfi_command bk a d c
      | Unlock_setup \<Rightarrow>
          if d = 0xD0 then Some (show_bank (bk (block_of a)) Read_status (c\<lparr>c_open := (c_open c)(block_of a := True)\<rparr>)) else None
      | Erase_setup b \<Rightarrow>
          if d = 0xD0 \<and> block_of a = b \<and> c_open c b
          then Some (show_bank (bk b) Read_status (c\<lparr>c_busy := te, c_mem := erase_mem b (c_mem c)\<rparr>)) else None
      | Count_wait b \<Rightarrow>
          if block_of a = b \<and> d < 512 then Some (c\<lparr>c_mode := Buffer b (Suc (unat d)) []\<rparr>) else None
      | Buffer b 0 ws \<Rightarrow>
          if d = 0xD0 \<and> block_of a = b \<and> c_open c b
          then Some (show_bank (bk b) Read_status (c\<lparr>c_busy := tp, c_mem := program_mem ws (c_mem c)\<rparr>)) else None
      | Buffer b (Suc n) ws \<Rightarrow>
          if block_of a = b \<and> list_all (\<lambda>(x, _). region_of x = region_of a) ws
          then Some (c\<lparr>c_mode := Buffer b n (ws @ [(a, d)])\<rparr>) else None)"

definition cfi_tick :: "cfi \<Rightarrow> cfi" where
  "cfi_tick c = c\<lparr>c_busy := c_busy c - 1\<rparr>"

text \<open>
  Reading between commands, by the mode of the bank: the array, or the status register, whose bit 7 is set when no bank is
  busy, with no error bits after an operation that was permitted; the upper byte is undefined.
\<close>

definition reads_as :: "(25 word \<Rightarrow> nat) \<Rightarrow> cfi \<Rightarrow> 25 word \<Rightarrow> u16 \<Rightarrow> bool" where
  "reads_as bk c a v \<longleftrightarrow> (c_mode c = Command \<longrightarrow> (case c_read c (bk (block_of a)) of
     Read_array \<Rightarrow> c_busy c = 0 \<longrightarrow> v = c_mem c a
   | Read_status \<Rightarrow> (bit v 7 \<longleftrightarrow> c_busy c = 0) \<and> (c_busy c = 0 \<longrightarrow> v AND 0x38 = 0)
   | Read_id \<Rightarrow> True))"

definition cfi_ok :: "'f nor16 \<Rightarrow> ('f \<Rightarrow> bool) \<Rightarrow> ('f \<Rightarrow> cfi) \<Rightarrow> (25 word \<Rightarrow> nat) \<Rightarrow> nat \<Rightarrow> nat \<Rightarrow> bool" where
  "cfi_ok fb ci cv bk te tp \<longleftrightarrow> te \<le> 3000 \<and> tp \<le> 500 \<and> (\<forall>f. ci f \<longrightarrow>
     ci (nf_tick fb f) \<and> cv (nf_tick fb f) = cfi_tick (cv f) \<and>
     (\<forall>a. reads_as bk (cv f) a (nf_rd fb a f)) \<and>
     (\<forall>a d c. cfi_cmd bk te tp a d (cv f) = Some c \<longrightarrow> ci (nf_wr fb a d f) \<and> cv (nf_wr fb a d f) = c))"

text \<open>A chip that does exactly this, and ignores what is not specified.\<close>

definition cfi_nor :: "(25 word \<Rightarrow> nat) \<Rightarrow> nat \<Rightarrow> nat \<Rightarrow> cfi nor16" where
  "cfi_nor bk te tp = \<lparr>
     nf_rd = (\<lambda>a c. case c_read c (bk (block_of a)) of
       Read_array \<Rightarrow> c_mem c a | Read_status \<Rightarrow> (if c_busy c = 0 then 0x80 else 0) | Read_id \<Rightarrow> 0x89),
     nf_wr = (\<lambda>a d c. case cfi_cmd bk te tp a d c of None \<Rightarrow> c | Some c \<Rightarrow> c),
     nf_tick = cfi_tick, nf_float = 0xFFFF\<rparr>"

lemma cfi_nor_ok: "te \<le> 3000 \<Longrightarrow> tp \<le> 500 \<Longrightarrow> cfi_ok (cfi_nor bk te tp) (\<lambda>_. True) (\<lambda>c. c) bk te tp"
  by (auto simp: cfi_ok_def cfi_nor_def reads_as_def bit_simps split: read_mode.splits)

lemma show_bank_simps [simp]:
  "c_mode (show_bank b r c) = Command" "c_read (show_bank b r c) = (c_read c)(b := r)" "c_mem (show_bank b r c) = c_mem c"
  "c_open (show_bank b r c) = c_open c" "c_busy (show_bank b r c) = c_busy c" "show_bank b r (show_bank b r' c) = show_bank b r c"
  by (simp_all add: show_bank_def)

lemma cfi_tick_simps [simp]:
  "c_mode (cfi_tick c) = c_mode c" "c_read (cfi_tick c) = c_read c" "c_mem (cfi_tick c) = c_mem c"
  "c_open (cfi_tick c) = c_open c" "c_busy (cfi_tick c) = c_busy c - 1" "cfi_tick (show_bank b r c) = show_bank b r (cfi_tick c)"
  by (simp_all add: cfi_tick_def show_bank_def)

lemma cfi_tick_idle [simp]: "c_busy c = 0 \<Longrightarrow> cfi_tick c = c"
  by (cases c) (simp add: cfi_tick_def)

text \<open>A row of write cycles, with the passing of time before each or only before the first.\<close>

fun cfi_cmds :: "(25 word \<Rightarrow> nat) \<Rightarrow> nat \<Rightarrow> nat \<Rightarrow> (25 word \<times> u16) list \<Rightarrow> cfi \<Rightarrow> cfi option" where
  "cfi_cmds bk te tp [] c = Some c"
| "cfi_cmds bk te tp ((a, d) # xs) c = (case cfi_cmd bk te tp a d (cfi_tick c) of None \<Rightarrow> None | Some c \<Rightarrow> cfi_cmds bk te tp xs c)"

subsection \<open>The buffer\<close>

fun addressed :: "25 word \<Rightarrow> u16 list \<Rightarrow> (25 word \<times> u16) list" where
  "addressed a [] = []"
| "addressed a (d # ds) = (a, d) # addressed (a + 1) ds"

lemma block_of_0 [simp]: "block_of 0 = 0"
  by (simp add: block_of_def)

lemma bus_writes_fill:
  assumes "cfi_ok fb ci cv bk te tp"
  shows "ci f \<Longrightarrow> cv f = c\<lparr>c_mode := Buffer b (length ds) ws\<rparr> \<Longrightarrow> c_busy c = 0 \<Longrightarrow>
    \<forall>(x, _) \<in> set ws \<union> set (addressed a ds). block_of x = b \<and> region_of x = r \<Longrightarrow>
    ci (bus_writes fb a ds f) \<and> cv (bus_writes fb a ds f) = c\<lparr>c_mode := Buffer b 0 (ws @ addressed a ds)\<rparr>"
proof (induction ds arbitrary: a f ws)
  case (Cons d ds)
  have "cfi_cmd bk te tp a d (cv f) = Some (c\<lparr>c_mode := Buffer b (length ds) (ws @ [(a, d)])\<rparr>)"
    using Cons.prems(2-4) by (auto simp: cfi_cmd_def list_all_iff)
  then have "ci (nf_wr fb a d f)" "cv (nf_wr fb a d f) = c\<lparr>c_mode := Buffer b (length ds) (ws @ [(a, d)])\<rparr>"
    using assms Cons.prems(1) by (auto simp: cfi_ok_def)
  from Cons.IH [OF this Cons.prems(3), of "a + 1"] Cons.prems(4) show ?case by auto
qed simp

end
