(* ===== verification/Bpi_Write.thy ===== *)
theory Bpi_Write
  imports Bpi_Flash Cfi_Chip
begin

unbundle bit_operations_syntax

section \<open>\<open>BPIFlash\<close> on the bridge and the chip\<close>

text \<open>
  The contract \<open>bridge_port\<close> of a JTAG port whose user register is the bridge: a scan runs the core over the bits, and what is received
  are the bits that come out.  On it the methods of \<open>BPIFlash\<close> are proved to do their work on a
  chip that keeps \<open>cfi_ok\<close>.
\<close>

locale bridge_port =
  fixes u :: "'j jtag_user"
    and fb :: "'f nor16"
    and ok :: "'j \<Rightarrow> bool"
    and selected :: "'j \<Rightarrow> bool"
    and dev :: "'j \<Rightarrow> core \<times> 'f"
  assumes shiftIR_bridge:
    "ok j \<Longrightarrow> \<exists>j'. ju_shiftIR u user1 6 RUN_TEST_IDLE j = Inr j' \<and> ok j' \<and> selected j' \<and> dev j' = dev j"
    and shiftDR_bridge:
    "ok j \<Longrightarrow> selected j \<Longrightarrow> 0 < n \<Longrightarrow> n \<le> 8 * length tx \<Longrightarrow> (\<And>b. rx = Some b \<Longrightarrow> n \<le> 8 * length b) \<Longrightarrow>
       \<exists>rx' j'. ju_shiftDR u (Some tx) rx n RUN_TEST_IDLE j = Inr (rx', j') \<and> ok j' \<and> selected j' \<and>
         dev j' = snd (bridge_scan fb (bits_of tx n) (dev j)) \<and>
         (rx \<noteq> None \<longrightarrow> (\<exists>r. rx' = Some r \<and> bits_of r n = fst (bridge_scan fb (bits_of tx n) (dev j))))"
    and flush_bridge:
    "ok j \<Longrightarrow> \<exists>j'. ju_flush u j = Inr j' \<and> ok j' \<and> (selected j \<longrightarrow> selected j') \<and> dev j' = dev j"

lemma ucast_25: "(ucast (w :: u32) :: 25 word) = of_nat (unat w)"
  by simp

lemma of_nat_mod_25: "(of_nat (n mod 2 ^ 32) :: 25 word) = of_nat n"
  by (simp only: word_of_nat_eq_iff take_bit_eq_mod) (simp add: mod_mod_cancel)

lemma ucast_25_add: "ucast (a + 1 :: u32) = (ucast a + 1 :: 25 word)"
proof -
  have "unat (a + 1) = (unat a + 1) mod 2 ^ 32" by (simp add: unat_word_ariths)
  then have "ucast (a + 1) = (of_nat (unat a + 1) :: 25 word)" by (simp only: ucast_25 of_nat_mod_25)
  then show ?thesis by simp
qed

text \<open>The word \<open>bpi_read\<close> puts together.\<close>

lemma gather_bits:
  "(\<And>i. i < 16 \<Longrightarrow> P i = bit (v :: u16) i) \<Longrightarrow> foldl (\<lambda>data i. if P i then data OR push_bit i 1 else data) 0 [0..<16] = v"
proof -
  assume P: "\<And>i. i < 16 \<Longrightarrow> P i = bit v i"
  have "n \<le> 16 \<Longrightarrow> bit (foldl (\<lambda>data i. if P i then data OR push_bit i 1 else data) 0 [0..<n] :: u16) k \<longleftrightarrow> k < n \<and> bit v k" for n k
  proof (induction n)
    case (Suc n)
    then show ?case using P [of n] by (auto simp: bit_or_iff bit_push_bit_iff bit_1_iff less_Suc_eq bit_exp_iff)
  qed simp
  then show ?thesis by (intro bit_word_eqI) simp
qed

context bridge_port
begin

definition good :: "'j \<Rightarrow> bool" where
  "good j \<longleftrightarrow> ok j \<and> rested (fst (dev j))"

definition chip :: "'j \<Rightarrow> 'f" where
  "chip j = snd (dev j)"

lemma scan_core:
  assumes "good j" "\<And>c f. rested c \<Longrightarrow> \<exists>c'. snd (bridge_run fb bs (core_reset c, f)) = (c', h f) \<and> rested c'"
  shows "rested (fst (snd (bridge_scan fb bs (dev j))))" "snd (snd (bridge_scan fb bs (dev j))) = h (nf_tick fb (chip j))"
proof -
  obtain c' where "snd (bridge_run fb bs (core_reset (fst (dev j)), nf_tick fb (chip j))) = (c', h (nf_tick fb (chip j)))" "rested c'"
    using assms by (auto simp: good_def)
  then show "rested (fst (snd (bridge_scan fb bs (dev j))))" "snd (snd (bridge_scan fb bs (dev j))) = h (nf_tick fb (chip j))"
    by (simp_all add: bridge_scan_def bridge_capture_def chip_def)
qed

lemma write_scan:
  assumes "good j" "selected j"
  shows "\<exists>rx j'. ju_shiftDR u (Some (write_tx a d)) None 66 RUN_TEST_IDLE j = Inr (rx, j') \<and> good j' \<and> selected j' \<and>
    chip j' = nf_wr fb (ucast a) d (nf_tick fb (chip j))"
proof -
  have "66 \<le> 8 * length (write_tx a d)" by (simp add: write_tx_def packet_bytes_def)
  from shiftDR_bridge [of j 66 "write_tx a d" None, unfolded write_tx_bits] this assms obtain rx j' where
    s: "ju_shiftDR u (Some (write_tx a d)) None 66 RUN_TEST_IDLE j = Inr (rx, j')" "ok j'" "selected j'"
      "dev j' = snd (bridge_scan fb (write_packet (ucast a) d) (dev j))" by (auto simp: good_def)
  have "\<exists>c'. snd (bridge_run fb (write_packet (ucast a) d) (core_reset c, f)) = (c', nf_wr fb (ucast a) d f) \<and> rested c'"
    if "rested c" for c f using write_packet_run [OF that] .
  from scan_core [OF assms(1) this] s show ?thesis by (auto simp: good_def chip_def)
qed

lemma flush_good:
  assumes "good j"
  shows "\<exists>j'. ju_flush u j = Inr j' \<and> good j' \<and> chip j' = chip j"
  using flush_bridge [of j] assms by (auto simp: good_def chip_def)

lemma select_good:
  assumes "good j"
  shows "\<exists>j'. ju_shiftIR u user1 6 RUN_TEST_IDLE j = Inr j' \<and> good j' \<and> selected j' \<and> chip j' = chip j"
  using shiftIR_bridge [of j] assms by (auto simp: good_def chip_def)

lemma bpi_write_good:
  assumes "bp_irlen bp = 6" "good j"
  shows "\<exists>j'. bpi_write u bp a d j = Inr j' \<and> good j' \<and> chip j' = nf_wr fb (ucast a) d (nf_tick fb (chip j))"
proof -
  obtain j1 where 1: "ju_shiftIR u user1 6 RUN_TEST_IDLE j = Inr j1" "good j1" "selected j1" "chip j1 = chip j"
    using select_good [OF assms(2)] by blast
  obtain rx j2 where 2: "ju_shiftDR u (Some (write_tx a d)) None 66 RUN_TEST_IDLE j1 = Inr (rx, j2)" "good j2"
      "chip j2 = nf_wr fb (ucast a) d (nf_tick fb (chip j1))"
    using write_scan [OF 1(2,3)] by blast
  from flush_good [OF 2(2)] 1 2 assms(1) show ?thesis by (auto simp: bpi_write_def)
qed

lemma bpi_read_good:
  assumes "bp_irlen bp = 6" "good j"
  shows "\<exists>j'. bpi_read u bp a j = Inr (nf_rd fb (ucast a) (nf_tick fb (chip j)), j') \<and> good j' \<and> chip j' = nf_tick fb (chip j)"
proof -
  obtain j1 where 1: "ju_shiftIR u user1 6 RUN_TEST_IDLE j = Inr j1" "good j1" "selected j1" "chip j1 = chip j"
    using select_good [OF assms(2)] by blast
  let ?p = "read_packet (ucast a)" and ?f = "nf_tick fb (chip j)"
  obtain out c' where r: "bridge_scan fb ?p (dev j1) = (out, c', ?f)" "rested c'" "length out = 67" "drop 51 out = word_bits (nf_rd fb (ucast a) ?f)"
    using read_packet_run [of "fst (dev j1)" fb "ucast a" "nf_tick fb (chip j1)"] 1(2,4)
    by (auto simp: bridge_scan_def bridge_capture_def good_def chip_def)
  have "67 \<le> 8 * length (read_tx a)" by (simp add: read_tx_def packet_bytes_def)
  from shiftDR_bridge [of j1 67 "read_tx a" "Some (replicate 9 0)", unfolded read_tx_bits] this 1 obtain rx j2 where
    2: "ju_shiftDR u (Some (read_tx a)) (Some (replicate 9 0)) 67 RUN_TEST_IDLE j1 = Inr (Some rx, j2)" "ok j2"
      "dev j2 = (c', ?f)" "bits_of rx 67 = out" by (auto simp: good_def r(1))
  have "nth_bit rx (51 + i) = bit (nf_rd fb (ucast a) ?f) i" if "i < 16" for i
  proof -
    have "nth_bit rx (51 + i) = drop 51 out ! i" using that 2(4) [symmetric] by simp
    then show ?thesis using that r(4) by (simp add: word_bits_def)
  qed
  then have "foldl (\<lambda>data i. if nth_bit rx (51 + i) then data OR push_bit i 1 else data) 0 [0..<16] = nf_rd fb (ucast a) ?f"
    by (rule gather_bits)
  moreover obtain j3 where "ju_flush u j2 = Inr j3" "good j3" "chip j3 = ?f"
    using flush_good [of j2] 2(2,3) r(2) by (auto simp: good_def chip_def)
  ultimately show ?thesis using 1(1) 2(1) assms(1) by (simp add: bpi_read_def)
qed

lemma bpi_burst_good:
  assumes "bp_irlen bp = 6" "good j" "ds \<noteq> []" "length ds < 2 ^ 16"
  shows "\<exists>j'. bpi_burst_write u bp a ds j = Inr j' \<and> good j' \<and> chip j' = bus_writes fb (ucast a) ds (nf_tick fb (chip j))"
proof -
  obtain j1 where 1: "ju_shiftIR u user1 6 RUN_TEST_IDLE j = Inr j1" "good j1" "selected j1" "chip j1 = chip j"
    using select_good [OF assms(2)] by blast
  note bt = burst_tx_bits [OF assms(4), of a]
  from shiftDR_bridge [of j1 "46 + length ds * 37" "burst_tx a ds" None, unfolded bt(1)] bt(2) 1 obtain rx j2 where
    2: "ju_shiftDR u (Some (burst_tx a ds)) None (46 + length ds * 37) RUN_TEST_IDLE j1 = Inr (rx, j2)" "ok j2"
      "dev j2 = snd (bridge_scan fb (burst_packet (ucast a) ds) (dev j1))" by (auto simp: good_def)
  have "\<exists>c'. snd (bridge_run fb (burst_packet (ucast a) ds) (core_reset c, f)) = (c', bus_writes fb (ucast a) ds f) \<and> rested c'"
    if "rested c" for c f using burst_packet_run [OF that assms(3,4)] .
  from scan_core [OF 1(2) this] 2 have "good j2" "chip j2 = bus_writes fb (ucast a) ds (nf_tick fb (chip j1))"
    by (auto simp: good_def chip_def)
  with flush_good [of j2] 1 2(1) assms(1,3) show ?thesis by (auto simp: bpi_burst_write_def)
qed

end

subsection \<open>Commands on the chip\<close>

locale bpi_chip = bridge_port u fb ok selected dev
  for u :: "'j jtag_user" and fb :: "'f nor16" and ok :: "'j \<Rightarrow> bool" and selected :: "'j \<Rightarrow> bool" and dev :: "'j \<Rightarrow> core \<times> 'f" +
  fixes ci :: "'f \<Rightarrow> bool" and cv :: "'f \<Rightarrow> cfi" and bk :: "25 word \<Rightarrow> nat" and te tp :: nat
  assumes chip_ok: "cfi_ok fb ci cv bk te tp"

context bpi_chip
begin

definition at :: "'j \<Rightarrow> cfi \<Rightarrow> bool" where
  "at j c \<longleftrightarrow> good j \<and> ci (chip j) \<and> cv (chip j) = c"

lemma chip_step:
  "ci f \<Longrightarrow> ci (nf_tick fb f) \<and> cv (nf_tick fb f) = cfi_tick (cv f)"
  "ci f \<Longrightarrow> reads_as bk (cv f) a (nf_rd fb a f)"
  "ci f \<Longrightarrow> cfi_cmd bk te tp a d (cv f) = Some c \<Longrightarrow> ci (nf_wr fb a d f) \<and> cv (nf_wr fb a d f) = c"
  using chip_ok by (simp_all add: cfi_ok_def)

lemma bpi_write_at:
  assumes "bp_irlen bp = 6" "at j c" "cfi_cmd bk te tp (ucast a) d (cfi_tick c) = Some c'"
  shows "\<exists>j'. bpi_write u bp a d j = Inr j' \<and> at j' c'"
  using bpi_write_good [OF assms(1), of j a d] assms(2,3) chip_step by (auto simp: at_def)

lemma bpi_writes_at:
  "bp_irlen bp = 6 \<Longrightarrow> at j c \<Longrightarrow> cfi_cmds bk te tp (map (\<lambda>(a, d). (ucast a, d)) xs) c = Some c' \<Longrightarrow>
   \<exists>j'. bpi_writes u bp xs j = Inr j' \<and> at j' c'"
proof (induction xs arbitrary: j c)
  case (Cons x xs)
  obtain a d where x: "x = (a, d)" by fastforce
  with Cons.prems(3) obtain c1 where "cfi_cmd bk te tp (ucast a) d (cfi_tick c) = Some c1"
      "cfi_cmds bk te tp (map (\<lambda>(a, d). (ucast a, d)) xs) c1 = Some c'" by (auto split: option.splits)
  with bpi_write_at [OF Cons.prems(1,2)] Cons.IH [OF Cons.prems(1)] show ?case by (fastforce simp: x)
qed simp

lemma bpi_read_at:
  assumes "bp_irlen bp = 6" "at j c"
  shows "\<exists>v j'. bpi_read u bp a j = Inr (v, j') \<and> at j' (cfi_tick c) \<and> reads_as bk (cfi_tick c) (ucast a) v"
proof -
  obtain j' where "bpi_read u bp a j = Inr (nf_rd fb (ucast a) (nf_tick fb (chip j)), j')" "good j'" "chip j' = nf_tick fb (chip j)"
    using bpi_read_good [OF assms(1), of j a] assms(2) by (auto simp: at_def)
  moreover have "ci (nf_tick fb (chip j))" "cv (nf_tick fb (chip j)) = cfi_tick c" using assms(2) chip_step(1) by (simp_all add: at_def)
  moreover from this have "reads_as bk (cfi_tick c) (ucast a) (nf_rd fb (ucast a) (nf_tick fb (chip j)))" using chip_step(2) by metis
  ultimately show ?thesis by (auto simp: at_def)
qed

lemma read_each_at:
  "bp_irlen bp = 6 \<Longrightarrow> at j c \<Longrightarrow> c_busy c = 0 \<Longrightarrow>
   \<exists>ws j'. read_each u bp as j = Inr (ws, j') \<and> at j' c \<and> list_all2 (\<lambda>a v. reads_as bk c (ucast a) v) as ws"
proof (induction as arbitrary: j)
  case (Cons a as)
  from bpi_read_at [OF Cons.prems(1,2), of a] Cons.prems(3) obtain v j1 where
    1: "bpi_read u bp a j = Inr (v, j1)" "at j1 c" "reads_as bk c (ucast a) v" by auto
  from Cons.IH [OF Cons.prems(1) 1(2) Cons.prems(3)] 1 show ?case by auto
qed simp

text \<open>Waiting until the chip is ready.\<close>

lemma status_bits: "ucast (v :: u16) AND SR_READY \<noteq> 0 \<longleftrightarrow> bit v 7" "v AND 0x38 = 0 \<Longrightarrow> ucast v AND SR_ERRORS = (0 :: u8)"
proof -
  have "SR_READY = 2 ^ 7" by simp
  then show "ucast v AND SR_READY \<noteq> 0 \<longleftrightarrow> bit v 7"
    by (simp only: and_exp_eq_0_iff_not_bit bit_ucast_iff) simp
  assume v: "v AND 0x38 = 0"
  have "ucast v AND SR_ERRORS = (ucast (v AND 0x38) :: u8)"
    by (rule bit_word_eqI) (simp add: bit_simps)
  then show "ucast v AND SR_ERRORS = (0 :: u8)" using v by simp
qed

lemma wait_loop_at:
  assumes "bp_irlen bp = 6"
  shows "at j c \<Longrightarrow> c_mode c = Command \<Longrightarrow> c_read c (bk 0) = Read_status \<Longrightarrow> elapsed + 10 * (c_busy c - 1) < timeout \<Longrightarrow>
    \<exists>j'. wait_ready_loop u bp timeout elapsed j = Inr (True, j') \<and> at j' (show_bank (bk 0) Read_array (c\<lparr>c_busy := 0\<rparr>))"
proof (induction "c_busy c" arbitrary: c elapsed j rule: less_induct)
  case less
  from bpi_read_at [OF assms less.prems(1), of 0] obtain v j1 where
    1: "bpi_read u bp 0 j = Inr (v, j1)" "at j1 (cfi_tick c)" "reads_as bk (cfi_tick c) 0 v" by auto
  have el: "elapsed < timeout" using less.prems(4) by simp
  have v: "bit v 7 \<longleftrightarrow> c_busy c \<le> 1" "c_busy c \<le> 1 \<Longrightarrow> v AND 0x38 = 0" using 1(3) less.prems(2,3) by (simp_all add: reads_as_def)
  show ?case
  proof (cases "c_busy c \<le> 1")
    case True
    then have t: "c_busy (cfi_tick c) = 0" "cfi_tick c = c\<lparr>c_busy := 0\<rparr>" by (simp_all add: cfi_tick_def)
    have "cfi_cmd bk te tp (ucast (0 :: u32)) FLASH_CMD_READ_ARRAY (cfi_tick (cfi_tick c)) = Some (show_bank (bk 0) Read_array (c\<lparr>c_busy := 0\<rparr>))"
      using t less.prems(2) by (simp add: cfi_cmd_def cfi_command_def)
    from bpi_write_at [OF assms 1(2) this] 1(1) v True el status_bits [of v] show ?thesis
      by (subst wait_ready_loop.simps) (auto simp: Let_def)
  next
    case False
    then have "wait_ready_loop u bp timeout elapsed j = wait_ready_loop u bp timeout (elapsed + 10) j1"
      using 1(1) el v(1) status_bits(1) [of v] by (subst wait_ready_loop.simps) (auto simp: Let_def)
    moreover have eq: "(cfi_tick c)\<lparr>c_busy := 0\<rparr> = c\<lparr>c_busy := 0\<rparr>" by (simp add: cfi_tick_def)
    moreover have "c_busy (cfi_tick c) < c_busy c" "elapsed + 10 + 10 * (c_busy (cfi_tick c) - 1) < timeout"
      using False less.prems(4) by simp_all
    ultimately show ?thesis using less.hyps [of "cfi_tick c" j1 "elapsed + 10", unfolded eq] 1(2) less.prems(2,3) by simp
  qed
qed

lemma wait_ready_at:
  assumes "bp_irlen bp = 6" "at j c" "c_mode c = Command" "10 * c_busy c \<le> timeout" "0 < timeout"
  shows "\<exists>j'. wait_ready u bp timeout j = Inr (True, j') \<and> at j' (show_bank (bk 0) Read_array (c\<lparr>c_busy := 0\<rparr>))"
proof -
  let ?c = "show_bank (bk 0) Read_status (cfi_tick c)"
  have "cfi_cmd bk te tp (ucast (0 :: u32)) FLASH_CMD_READ_STATUS (cfi_tick c) = Some ?c"
    using assms(3) by (simp add: cfi_cmd_def cfi_command_def)
  from bpi_write_at [OF assms(1,2) this] obtain j1 where 1: "bpi_write u bp 0 FLASH_CMD_READ_STATUS j = Inr j1" "at j1 ?c" by blast
  have "0 + 10 * (c_busy ?c - 1) < timeout" using assms(4,5) by (cases "c_busy c") simp_all
  from wait_loop_at [OF assms(1) 1(2) _ _ this] obtain j2 where
    2: "wait_ready_loop u bp timeout 0 j1 = Inr (True, j2)" "at j2 (show_bank (bk 0) Read_array (?c\<lparr>c_busy := 0\<rparr>))" by auto
  have "show_bank (bk 0) Read_array (?c\<lparr>c_busy := 0\<rparr>) = show_bank (bk 0) Read_array (c\<lparr>c_busy := 0\<rparr>)"
    by (simp add: show_bank_def cfi_tick_def)
  with 1(1) 2 show ?thesis by (simp add: wait_ready_def)
qed

text \<open>Erasure.\<close>

lemma unlock_at:
  assumes "bp_irlen bp = 6" "at j c" "c_busy c = 0" "c_mode c = Command" "block_of (ucast a) = b"
  shows "\<exists>j'. unlock_block u bp a j = Inr (True, j') \<and> at j' (show_bank (bk b) Read_status (c\<lparr>c_open := (c_open c)(b := True)\<rparr>))"
proof -
  have "cfi_cmds bk te tp (map (\<lambda>(a, d). (ucast a, d)) [(a, FLASH_CMD_UNLOCK_BLOCK), (a, FLASH_CMD_UNLOCK_CONF)]) c =
      Some (show_bank (bk b) Read_status (c\<lparr>c_open := (c_open c)(b := True)\<rparr>))"
    using assms(3-5) by (simp add: cfi_cmd_def cfi_command_def show_bank_def)
  from bpi_writes_at [OF assms(1,2) this] show ?thesis by (auto simp: unlock_block_def)
qed

lemma erase_block_at:
  assumes "bp_irlen bp = 6" "at j c" "c_busy c = 0" "c_mode c = Command" "block_of (ucast (drop_bit 1 addr)) = b"
  shows "\<exists>j' c'. erase_block u bp addr j = Inr (True, j') \<and> at j' c' \<and> c_busy c' = 0 \<and> c_mode c' = Command \<and> c_mem c' = erase_mem b (c_mem c)"
proof -
  let ?w = "drop_bit 1 addr" and ?c1 = "show_bank (bk b) Read_status (c\<lparr>c_open := (c_open c)(b := True)\<rparr>)"
  from unlock_at [OF assms(1-4), of ?w] assms(5) obtain j1 where
    1: "unlock_block u bp ?w j = Inr (True, j1)" "at j1 ?c1" by auto
  let ?c2 = "show_bank (bk b) Read_status (?c1\<lparr>c_busy := te, c_mem := erase_mem b (c_mem c)\<rparr>)"
  have "cfi_cmds bk te tp (map (\<lambda>(a, d). (ucast a, d)) [(?w, FLASH_CMD_BLOCK_ERASE), (?w, FLASH_CMD_CONFIRM)]) ?c1 = Some ?c2"
    using assms(3,5) by (simp add: cfi_cmd_def cfi_command_def show_bank_def)
  from bpi_writes_at [OF assms(1) 1(2) this] obtain j2 where
    2: "bpi_writes u bp [(?w, FLASH_CMD_BLOCK_ERASE), (?w, FLASH_CMD_CONFIRM)] j1 = Inr j2" "at j2 ?c2" by blast
  have te: "10 * c_busy ?c2 \<le> 30000" using chip_ok by (simp add: cfi_ok_def)
  let ?c3 = "show_bank (bk 0) Read_array (?c2\<lparr>c_busy := 0\<rparr>)"
  from wait_ready_at [OF assms(1) 2(2) _ te] obtain j3 where 3: "wait_ready u bp 30000 j2 = Inr (True, j3)" "at j3 ?c3" by auto
  show ?thesis
  proof (cases "bp_verbose bp = 0")
    case True
    have "erase_block u bp addr j = Inr (True, j3)" using 1(1) 2(1) 3(1) True by (simp add: erase_block_def Let_def)
    then show ?thesis using 3(2) by (intro exI [of _ j3] exI [of _ ?c3]) simp
  next
    case False
    let ?c4 = "show_bank (bk b) Read_array ?c3"
    have "cfi_cmd bk te tp (ucast ?w) FLASH_CMD_READ_ARRAY (cfi_tick ?c3) = Some ?c4"
      using assms(5) by (simp add: cfi_cmd_def cfi_command_def)
    from bpi_write_at [OF assms(1) 3(2) this] obtain j4 where 4: "bpi_write u bp ?w FLASH_CMD_READ_ARRAY j3 = Inr j4" "at j4 ?c4" by blast
    from read_each_at [OF assms(1) 4(2), of "map (\<lambda>i. ?w + i) [0, 1, 2, 3]"] obtain ws j5 where
      5: "read_each u bp (map (\<lambda>i. ?w + i) [0, 1, 2, 3]) j4 = Inr (ws, j5)" "at j5 ?c4" by auto
    have "erase_block u bp addr j = Inr (True, j5)" using 1(1) 2(1) 3(1) 4(1) 5(1) False by (simp add: erase_block_def Let_def del: list.map)
    then show ?thesis using 5(2) by (intro exI [of _ j5] exI [of _ ?c4]) simp
  qed
qed

lemma erase_blocks_at:
  "bp_irlen bp = 6 \<Longrightarrow> at j c \<Longrightarrow> c_busy c = 0 \<Longrightarrow> c_mode c = Command \<Longrightarrow>
   \<exists>j' c'. erase_blocks u bp bs j = Inr (True, j') \<and> at j' c' \<and> c_busy c' = 0 \<and> c_mode c' = Command \<and>
     c_mem c' = fold erase_mem (map (\<lambda>b. block_of (ucast (drop_bit 1 (b * bp_block_size bp)))) bs) (c_mem c)"
proof (induction bs arbitrary: j c)
  case (Cons b bs)
  from erase_block_at [OF Cons.prems refl, of "b * bp_block_size bp"] obtain j1 c1 where
    1: "erase_block u bp (b * bp_block_size bp) j = Inr (True, j1)" "at j1 c1" "c_busy c1 = 0" "c_mode c1 = Command"
      "c_mem c1 = erase_mem (block_of (ucast (drop_bit 1 (b * bp_block_size bp)))) (c_mem c)" by blast
  from Cons.IH [OF Cons.prems(1) 1(2-4)] 1(1,5) show ?case by auto
qed auto

text \<open>A buffer.\<close>

lemma no_flush_fill:
  "bp_irlen bp = 6 \<Longrightarrow> good j \<Longrightarrow> selected j \<Longrightarrow> ci (chip j) \<Longrightarrow> cv (chip j) = c\<lparr>c_mode := Buffer b (length ds) ws\<rparr> \<Longrightarrow> c_busy c = 0 \<Longrightarrow>
   \<forall>(x, _) \<in> set ws \<union> set (addressed (ucast a) ds). block_of x = b \<and> region_of x = r \<Longrightarrow>
   \<exists>j'. writes_no_flush u a ds j = Inr j' \<and> at j' (c\<lparr>c_mode := Buffer b 0 (ws @ addressed (ucast a) ds)\<rparr>)"
proof (induction ds arbitrary: a j ws)
  case (Cons d ds)
  from write_scan [OF Cons.prems(2,3), of a d] obtain rx j1 where
    1: "ju_shiftDR u (Some (write_tx a d)) None 66 RUN_TEST_IDLE j = Inr (rx, j1)" "good j1" "selected j1"
      "chip j1 = nf_wr fb (ucast a) d (nf_tick fb (chip j))" by blast
  have idle: "cfi_tick (cv (chip j)) = cv (chip j)" using Cons.prems(5,6) by simp
  have "cfi_cmd bk te tp (ucast a) d (cv (nf_tick fb (chip j))) = Some (c\<lparr>c_mode := Buffer b (length ds) (ws @ [(ucast a, d)])\<rparr>)"
    using Cons.prems(4-7) chip_step(1) [OF Cons.prems(4)] idle by (auto simp: cfi_cmd_def list_all_iff)
  then have "ci (chip j1)" "cv (chip j1) = c\<lparr>c_mode := Buffer b (length ds) (ws @ [(ucast a, d)])\<rparr>"
    using chip_step(1) [OF Cons.prems(4)] chip_step(3) unfolding 1(4) by blast+
  moreover have "ucast (a + 1) = (ucast a + 1 :: 25 word)" by (rule ucast_25_add)
  ultimately show ?case using Cons.IH [OF Cons.prems(1) 1(2,3), of "ws @ [(ucast a, d)]" "a + 1"] Cons.prems(6,7) 1(1)
    by (auto simp: bpi_write_no_flush_def)
qed (auto simp: at_def)

lemma buffer_at:
  assumes "bp_irlen bp = 6" "at j c" "c_busy c = 0" "c_mode c = Command" "ws \<noteq> []" "length ws \<le> 512"
    and "block_of (ucast bw) = b" "c_open c b"
    and "\<forall>(x, _) \<in> set (addressed (ucast a) ws). block_of x = b \<and> region_of x = r"
  shows "\<exists>j'. bpi_write_buffer u bp bw a ws j = Inr (True, j') \<and>
    at j' (show_bank (bk 0) Read_array (show_bank (bk b) Read_status (c\<lparr>c_mem := program_mem (addressed (ucast a) ws) (c_mem c)\<rparr>)))"
proof -
  let ?n = "of_nat (length ws) - 1 :: u16"
  have len: "of_nat (length ws) \<noteq> (0 :: u16)" "unat (of_nat (length ws) :: u16) = length ws"
    using assms(5,6) by (auto simp: unat_of_nat word_of_nat_eq_0_iff dest!: dvd_imp_le)
  have n: "Suc (unat ?n) = length ws" "?n < 512"
    using assms(5,6) len by (simp_all add: unat_minus_one word_less_nat_alt)
  let ?c1 = "c\<lparr>c_mode := Buffer b (length ws) []\<rparr>"
  have "cfi_cmds bk te tp (map (\<lambda>(a, d). (ucast a, d)) [(0, FLASH_CMD_CLEAR_STATUS), (bw, FLASH_CMD_BUFFERED_PRG), (bw, ?n)]) c = Some ?c1"
    using assms(3,4,7) n by (simp add: cfi_cmd_def cfi_command_def)
  from bpi_writes_at [OF assms(1,2) this] obtain j1 where
    1: "bpi_writes u bp [(0, FLASH_CMD_CLEAR_STATUS), (bw, FLASH_CMD_BUFFERED_PRG), (bw, ?n)] j = Inr j1" "at j1 ?c1" by blast
  let ?c2 = "c\<lparr>c_mode := Buffer b 0 (addressed (ucast a) ws)\<rparr>"
  let ?send = "if bp_has_burst bp then bpi_burst_write u bp a ws j1
    else bindE (ju_shiftIR u user1 (bp_irlen bp) RUN_TEST_IDLE j1) (\<lambda>j. bindE (writes_no_flush u a ws j) (ju_flush u))"
  have "\<exists>j2. ?send = Inr j2 \<and> at j2 ?c2"
  proof (cases "bp_has_burst bp")
    case True
    have g: "good j1" "ci (nf_tick fb (chip j1))" "cv (nf_tick fb (chip j1)) = ?c1"
      using 1(2) chip_step(1) assms(3) by (simp_all add: at_def)
    from bpi_burst_good [OF assms(1) g(1) assms(5), of a] assms(6) obtain j2 where
      2: "bpi_burst_write u bp a ws j1 = Inr j2" "good j2" "chip j2 = bus_writes fb (ucast a) ws (nf_tick fb (chip j1))" by auto
    have "\<forall>(x, _) \<in> set [] \<union> set (addressed (ucast a) ws). block_of x = b \<and> region_of x = r" using assms(9) by simp
    from bus_writes_fill [OF chip_ok g(2,3) assms(3) this] 2 True show ?thesis by (simp add: at_def)
  next
    case False
    have g: "good j1" "ci (chip j1)" "cv (chip j1) = ?c1" using 1(2) by (simp_all add: at_def)
    obtain j2 where 2: "ju_shiftIR u user1 6 RUN_TEST_IDLE j1 = Inr j2" "good j2" "selected j2" "chip j2 = chip j1"
      using select_good [OF g(1)] by blast
    have "\<forall>(x, _) \<in> set [] \<union> set (addressed (ucast a) ws). block_of x = b \<and> region_of x = r" using assms(9) by simp
    from no_flush_fill [OF assms(1) 2(2,3) _ _ assms(3) this] g(2,3) obtain j3 where
      3: "writes_no_flush u a ws j2 = Inr j3" "at j3 ?c2" unfolding 2(4) by auto
    from flush_good [of j3] 3(2) obtain j4 where "ju_flush u j3 = Inr j4" "at j4 ?c2" by (auto simp: at_def)
    then show ?thesis using False 2(1) 3(1) assms(1) by simp
  qed
  then obtain j2 where 2: "?send = Inr j2" "at j2 ?c2" by blast
  let ?c3 = "show_bank (bk b) Read_status (c\<lparr>c_busy := tp, c_mem := program_mem (addressed (ucast a) ws) (c_mem c)\<rparr>)"
  have "cfi_cmd bk te tp (ucast bw) FLASH_CMD_CONFIRM (cfi_tick ?c2) = Some ?c3"
    using assms(3,7,8) by (simp add: cfi_cmd_def show_bank_def)
  from bpi_write_at [OF assms(1) 2(2) this] obtain j3 where 3: "bpi_write u bp bw FLASH_CMD_CONFIRM j2 = Inr j3" "at j3 ?c3" by blast
  have tp: "10 * c_busy ?c3 \<le> 5000" using chip_ok by (simp add: cfi_ok_def)
  let ?c4 = "show_bank (bk 0) Read_array (show_bank (bk b) Read_status (c\<lparr>c_mem := program_mem (addressed (ucast a) ws) (c_mem c)\<rparr>))"
  have "show_bank (bk 0) Read_array (?c3\<lparr>c_busy := 0\<rparr>) = ?c4"
    using assms(3) by (cases c) (simp add: show_bank_def)
  with wait_ready_at [OF assms(1) 3(2) _ tp] obtain j4 where "wait_ready u bp 5000 j3 = Inr (True, j4)" "at j4 ?c4" by auto
  then show ?thesis using 1(1) 2(1) 3(1) by (simp add: bpi_write_buffer_def del: bpi_writes.simps)
qed

end

subsection \<open>The loop over the buffers\<close>

lemma unat_block_of: "unat (block_of x) = unat x div 131072"
  by (simp only: block_of_def unat_drop_bit_eq) (simp add: drop_bit_eq_div)

lemma unat_region_of: "unat (region_of x) = unat x div 512"
  by (simp only: region_of_def unat_drop_bit_eq) (simp add: drop_bit_eq_div)

lemma unat_25: "k < 2 ^ 25 \<Longrightarrow> unat (of_nat k :: 25 word) = k"
  by (simp add: unat_of_nat)

lemma addressed_range:
  "(x, d) \<in> set (addressed (of_nat w) ws) \<Longrightarrow> w + length ws \<le> 2 ^ 25 \<Longrightarrow> w \<le> unat x \<and> unat x < w + length ws"
proof (induction ws arbitrary: w)
  case (Cons e ws)
  show ?case
  proof (cases "(x, d) = (of_nat w, e)")
    case True
    then show ?thesis using Cons.prems(2) unat_25 [of w] by simp
  next
    case False
    then have "(x, d) \<in> set (addressed (of_nat (w + 1)) ws)" using Cons.prems(1) by (auto simp: add.commute)
    from Cons.IH [OF this] Cons.prems(2) show ?thesis by auto
  qed
qed simp

lemma program_addressed:
  "w + length ws \<le> 2 ^ 25 \<Longrightarrow>
   program_mem (addressed (of_nat w) ws) m x = (if w \<le> unat x \<and> unat x < w + length ws then m x AND ws ! (unat x - w) else m x)"
proof (induction ws arbitrary: w m)
  case (Cons d ws)
  have w: "unat (of_nat w :: 25 word) = w" using Cons.prems by (intro unat_25) simp
  have x: "x = of_nat w \<longleftrightarrow> unat x = w" using w by (metis word_unat_eq_iff)
  have "program_mem (addressed (of_nat w) (d # ws)) m x =
      program_mem (addressed (of_nat (w + 1)) ws) (m(of_nat w := m (of_nat w) AND d)) x" by (simp add: add.commute)
  also have "\<dots> = (let m' = m(of_nat w := m (of_nat w) AND d) in
      if w + 1 \<le> unat x \<and> unat x < w + 1 + length ws then m' x AND ws ! (unat x - (w + 1)) else m' x)"
    using Cons.IH [of "w + 1"] Cons.prems by (simp add: Let_def)
  finally show ?case using x by (auto simp: Let_def nth_Cons' Suc_diff_Suc)
qed auto

text \<open>The first \<open>k\<close> words of the data in the array, from word \<open>w\<close> on.\<close>

definition placed :: "nat \<Rightarrow> bytes \<Rightarrow> nat \<Rightarrow> (25 word \<Rightarrow> u16) \<Rightarrow> 25 word \<Rightarrow> u16" where
  "placed w data k m x = (if w \<le> unat x \<and> unat x < w + k then data_word data (2 * (unat x - w)) else m x)"

lemma placed_0: "placed w data 0 m = m"
  by (rule ext) (auto simp: placed_def)

lemma placed_more:
  assumes "w + k + n \<le> 2 ^ 25" "\<And>x. w \<le> unat x \<Longrightarrow> unat x < w + k + n \<Longrightarrow> m x = 0xFFFF"
  shows "program_mem (addressed (of_nat (w + k)) (map (\<lambda>i. data_word data (2 * k + i * 2)) [0..<n])) (placed w data k m) = placed w data (k + n) m"
proof
  fix x
  have ff: "0xFFFF AND d = d" for d :: u16
  proof -
    have "(0xFFFF :: u16) = - 1" by simp
    then show ?thesis by (simp only: and_minus_numerals and.left_neutral)
  qed
  show "program_mem (addressed (of_nat (w + k)) (map (\<lambda>i. data_word data (2 * k + i * 2)) [0..<n])) (placed w data k m) x = placed w data (k + n) m x"
  proof (cases "w + k \<le> unat x \<and> unat x < w + k + n")
    case True
    then have "m x = 0xFFFF" "2 * k + (unat x - (w + k)) * 2 = 2 * (unat x - w)" "unat x - (w + k) < n" using assms(2) by auto
    then show ?thesis using True assms(1) ff by (simp add: program_addressed placed_def del: of_nat_add)
  next
    case False
    then show ?thesis using assms(1) by (auto simp: program_addressed placed_def simp del: of_nat_add)
  qed
qed

text \<open>Where a buffer at a region boundary goes.\<close>

lemma chunk_words_aligned:
  assumes "ba mod 1024 = 0"
  shows "chunk_words 262144 ba rest = (min 1024 rest + 1) div 2"
proof -
  have "ba mod 262144 mod 1024 = 0" using assms by (simp add: mod_mod_cancel)
  then obtain q where q: "ba mod 262144 = 1024 * q" by auto
  then have "1024 * q < 262144" using mod_less_divisor [of 262144 ba] by simp
  then have "262144 - ba mod 262144 \<ge> 1024" using q by simp
  then show ?thesis by (simp add: chunk_words_def Let_def)
qed

lemma buffer_word:
  assumes "ba mod 1024 = 0" "ba + 2 * n \<le> 2 ^ 26" "n \<le> 512" and x: "ba div 2 \<le> unat x" "unat x < ba div 2 + n"
  shows "block_of x = of_nat (ba div 262144)" "region_of x = of_nat (ba div 1024)"
proof -
  obtain q where "ba = 1024 * q" using assms(1) by auto
  then have "ba div 2 = 512 * (ba div 1024)" by simp
  then have "unat x div 512 = ba div 1024" using x assms(3) by (intro div_nat_eqI) auto
  moreover have "unat x div 131072 = unat x div 512 div 256" "ba div 262144 = ba div 1024 div 256"
    by (simp_all add: div_mult2_eq [symmetric])
  moreover have "ba div 1024 < 2 ^ 25" "ba div 262144 < 2 ^ 25" using assms(2) by auto
  ultimately have "unat (block_of x) = unat (of_nat (ba div 262144) :: 25 word)" "unat (region_of x) = unat (of_nat (ba div 1024) :: 25 word)"
    by (simp_all only: unat_25 unat_block_of unat_region_of)
  then show "block_of x = of_nat (ba div 262144)" "region_of x = of_nat (ba div 1024)" by (simp_all only: word_unat_eq_iff)
qed

lemma buffer_place:
  assumes "ba mod 1024 = 0" "ba + 2 * n \<le> 2 ^ 26" "n \<le> 512"
    and "(x, d) \<in> set (addressed (of_nat (ba div 2)) ws)" "length ws = n"
  shows "block_of x = of_nat (ba div 262144)" "region_of x = of_nat (ba div 1024)"
proof -
  have "ba div 2 + n \<le> 2 ^ 25" using assms(2) by simp
  then have "ba div 2 \<le> unat x" "unat x < ba div 2 + n" using addressed_range [OF assms(4)] assms(5) by auto
  from buffer_word [OF assms(1-3) this] show "block_of x = of_nat (ba div 262144)" "region_of x = of_nat (ba div 1024)" .
qed

lemma block_base:
  assumes "cb < 256"
  shows "block_of (ucast (of_nat cb * 131072 :: u32)) = of_nat cb"
proof -
  have "unat (of_nat cb * 131072 :: u32) = cb * 131072" using assms by (simp add: unat_word_ariths unat_of_nat)
  then have "ucast (of_nat cb * 131072 :: u32) = (of_nat (cb * 131072) :: 25 word)" by (simp only: ucast_25)
  moreover have "unat (of_nat (cb * 131072) :: 25 word) = cb * 131072" using assms by (intro unat_25) simp
  ultimately have "unat (block_of (ucast (of_nat cb * 131072 :: u32))) = cb" by (simp only: unat_block_of nonzero_mult_div_cancel_right)
  then show ?thesis using assms unat_25 [of cb] by (simp add: word_unat_eq_iff)
qed

lemma buffer_bounds:
  assumes "a mod 1024 = (0 :: nat)" "2 * k mod 1024 = 0" "a + len \<le> 2 ^ 26" "2 * k < len" "n = (min 1024 (len - 2 * k) + 1) div 2"
  shows "a + 2 * k < 2 ^ 26" "(a + 2 * k) mod 1024 = 0" "a + 2 * k + 2 * n \<le> 2 ^ 26" "(a + 2 * k) div 2 = a div 2 + k" "n \<le> 512" "0 < n"
    "a div 2 + k + n \<le> 2 ^ 25" "k + n \<le> (len + 1) div 2" "2 * (k + n) < len \<Longrightarrow> 2 * (k + n) mod 1024 = 0" "\<not> 2 * (k + n) < len \<Longrightarrow> k + n = (len + 1) div 2"
proof -
  obtain q where q: "a = 1024 * q" using assms(1) by auto
  show "(a + 2 * k) mod 1024 = 0" using assms(1,2) by auto
  show "a + 2 * k < 2 ^ 26" "n \<le> 512" "0 < n" "(a + 2 * k) div 2 = a div 2 + k" using assms(3-5) q by simp_all
  have "2 * n \<le> len - 2 * k + 1" using assms(5) by simp
  moreover have "2 * n \<le> len - 2 * k" if even: "even (len - 2 * k)"
  proof -
    obtain t where t: "len - 2 * k = 2 * t" using even by blast
    have "min 1024 (2 * t) = 2 * min 512 t" by simp
    then show ?thesis using assms(5) unfolding t by simp
  qed
  moreover have "odd (len - 2 * k) \<Longrightarrow> a + len \<noteq> 2 ^ 26" using q by (metis assms(4) dvd_add_right_iff even_diff_nat even_mult_iff even_numeral even_power less_imp_le_nat odd_numeral zero_less_numeral)
  ultimately show le: "a + 2 * k + 2 * n \<le> 2 ^ 26" using assms(3,4) by (cases "even (len - 2 * k)") auto
  show "a div 2 + k + n \<le> 2 ^ 25" using le q by simp
  show "k + n \<le> (len + 1) div 2" using assms(4,5) by simp
  show "2 * (k + n) mod 1024 = 0" if "2 * (k + n) < len"
  proof -
    have "n = 512" using that assms(5) by simp
    then show ?thesis using assms(2) by (simp add: distrib_left mod_add_self2)
  qed
  show "k + n = (len + 1) div 2" if "\<not> 2 * (k + n) < len"
  proof -
    obtain r where r: "len = 2 * k + r" using assms(4) less_imp_add_positive by blast
    have "n = 512" if "1024 < r" using that assms(5) r by simp
    then have "r \<le> 1024" using that r by fastforce
    then have "n = (r + 1) div 2" using assms(5) r by simp
    then show ?thesis using r by simp
  qed
qed


context bpi_chip
begin

definition in_status :: "cfi \<Rightarrow> nat \<Rightarrow> nat \<Rightarrow> bool" where
  "in_status c lo hi \<longleftrightarrow> (\<forall>x. lo \<le> unat x \<and> unat x < hi \<longrightarrow> bk (block_of x) = bk 0 \<or> c_read c (bk (block_of x)) = Read_status)"

definition ready :: "'j \<Rightarrow> nat \<Rightarrow> nat \<Rightarrow> (25 word \<Rightarrow> u16) \<Rightarrow> (25 word \<Rightarrow> bool) \<Rightarrow> bool" where
  "ready j lo hi m op \<longleftrightarrow>
     (\<exists>c. at j c \<and> c_busy c = 0 \<and> c_mode c = Command \<and> c_mem c = m \<and> c_open c = op \<and> in_status c lo hi)"

text \<open>
  One pass of the loop.  \<open>in_status\<close>: the banks of the words written so far, except the one of address 0, are left showing the
  status register.
\<close>

lemma write_pass:
  assumes "bp_irlen bp = 6" "bp_block_size bp = 262144" "ready j w (w + k) (placed w data k m) op"
    and "w = unat addr div 2" "unat addr mod 1024 = 0" "unat addr + length data \<le> 2 ^ 26" "2 * k mod 1024 = 0" "2 * k < length data"
    and "\<And>x. w \<le> unat x \<Longrightarrow> unat x < w + (length data + 1) div 2 \<Longrightarrow> m x = 0xFFFF"
    and "unat lb < 256 \<Longrightarrow> op (of_nat (unat lb))"
    and n: "n = (min 1024 (length data - 2 * k) + 1) div 2" and cb: "cb = of_nat ((unat addr + 2 * k) div 262144)"
  shows "\<exists>j' op'. write_loop u bp addr data (2 * k) lb j = write_loop u bp addr data (2 * (k + n)) cb j' \<and>
    ready j' w (w + (k + n)) (placed w data (k + n) m) op' \<and> unat cb < 256 \<and> op' (of_nat (unat cb))"
proof -
  let ?ba = "unat addr + 2 * k" and ?a = "addr + of_nat (2 * k)"
  let ?b = "of_nat (?ba div 262144) :: 25 word"
  note B = buffer_bounds [OF assms(5,7,6,8) n]
  have ua: "unat ?a = ?ba" using B(1) by (simp add: unat_word_ariths unat_of_nat)
  have cb256: "?ba div 262144 < 256" using B(1) by simp
  then have ucb: "unat cb = ?ba div 262144" unfolding cb by (simp add: unat_of_nat)
  have cur: "?a div bp_block_size bp = cb" using ua ucb assms(2) by (simp add: word_unat_eq_iff unat_div)
  have half: "drop_bit 1 (bp_block_size bp) = 131072" using assms(2) by simp
  have blk: "block_of (ucast (cb * 131072)) = ?b" unfolding cb using block_base [OF cb256] .
  have cw: "chunk_words (unat (bp_block_size bp)) (unat ?a) (length data - 2 * k) = n"
    using chunk_words_aligned [OF B(2), of "length data - 2 * k"] assms(2) ua n by simp
  obtain c where c: "at j c" "c_busy c = 0" "c_mode c = Command" "c_mem c = placed w data k m" "c_open c = op" "in_status c w (w + k)"
    using assms(3) by (auto simp: ready_def)
  let ?unlock = "if cb \<noteq> lb then unlock_block u bp (cb * 131072) j else Inr (True, j)"
  have "\<exists>j1 c1. ?unlock = Inr (True, j1) \<and> at j1 c1 \<and> c_busy c1 = 0 \<and> c_mode c1 = Command \<and> c_mem c1 = c_mem c \<and> c_open c1 ?b \<and>
      in_status c1 w (w + k)"
  proof (cases "cb = lb")
    case True
    have "op ?b" using assms(10) [folded True, unfolded ucb] cb256 by blast
    then show ?thesis using True c by auto
  next
    case False
    have "in_status (show_bank (bk ?b) Read_status (c\<lparr>c_open := (c_open c)(?b := True)\<rparr>)) w (w + k)" using c(6) by (auto simp: in_status_def)
    with unlock_at [OF assms(1) c(1-3) blk] False c(2) show ?thesis by fastforce
  qed
  then obtain j1 c1 where 1: "?unlock = Inr (True, j1)" "at j1 c1" "c_busy c1 = 0" "c_mode c1 = Command" "c_mem c1 = placed w data k m" "c_open c1 ?b"
      "in_status c1 w (w + k)"
    using c(4) by metis
  let ?ws = "map (\<lambda>i. data_word data (2 * k + i * 2)) [0..<n]" and ?wa = "drop_bit 1 ?a"
  have wa: "ucast ?wa = (of_nat (?ba div 2) :: 25 word)"
    unfolding ucast_25 by (simp only: unat_drop_bit_eq ua) (simp add: drop_bit_eq_div)
  have len: "?ws \<noteq> []" "length ?ws \<le> 512" "length ?ws = n" using B(5,6) by simp_all
  have place: "\<forall>(x, _) \<in> set (addressed (ucast ?wa) ?ws). block_of x = ?b \<and> region_of x = of_nat (?ba div 1024)"
    unfolding wa using buffer_place [OF B(2,3,5) _ len(3)] by blast
  from buffer_at [OF assms(1) 1(2-4) len(1,2) blk 1(6) place] obtain j2 where
    2: "bpi_write_buffer u bp (cb * 131072) ?wa ?ws j1 = Inr (True, j2)"
      "at j2 (show_bank (bk 0) Read_array (show_bank (bk ?b) Read_status (c1\<lparr>c_mem := program_mem (addressed (ucast ?wa) ?ws) (c_mem c1)\<rparr>)))"
    by blast
  have "ucast ?wa = (of_nat (w + k) :: 25 word)" using wa B(4) assms(4) by simp
  moreover have "m x = 0xFFFF" if "w \<le> unat x" "unat x < w + k + n" for x using assms(9) that B(8) by simp
  ultimately have "program_mem (addressed (ucast ?wa) ?ws) (c_mem c1) = placed w data (k + n) m"
    using placed_more [of w k n m data] B(7) assms(4) 1(5) by metis
  moreover have "block_of x = ?b" if "w + k \<le> unat x" "unat x < w + k + n" for x
    using buffer_word(1) [OF B(2,3,5), of x] that B(4) assms(4) by simp
  moreover have "bk (block_of x) = bk 0 \<or> bk (block_of x) = bk ?b \<or> c_read c1 (bk (block_of x)) = Read_status"
    if "w \<le> unat x" "unat x < w + (k + n)" for x
    using 1(7) that calculation(2) [of x] by (cases "unat x < w + k") (auto simp: in_status_def)
  then have "in_status (show_bank (bk 0) Read_array (show_bank (bk ?b) Read_status (c1\<lparr>c_mem := m'\<rparr>))) w (w + (k + n))" for m'
    by (auto simp: in_status_def)
  ultimately have "ready j2 w (w + (k + n)) (placed w data (k + n) m) (c_open c1)" using 2(2) 1(3) unfolding ready_def by fastforce
  moreover have "write_loop u bp addr data (2 * k) lb j = write_loop u bp addr data (2 * (k + n)) cb j2"
  proof -
    have "bp_block_size bp \<noteq> 0" using assms(2) by simp
    then have "write_loop u bp addr data (2 * k) lb j = bindE ?unlock (\<lambda>(_, j).
        bindE (bpi_write_buffer u bp (cb * 131072) ?wa ?ws j) (\<lambda>(ok, j). if \<not> ok then Inr (False, j)
          else write_loop u bp addr data (2 * k + n * 2) cb j))"
      by (subst write_loop.simps) (simp only: Let_def cur half cw assms(8) if_True if_False simp_thms)
    also have "\<dots> = write_loop u bp addr data (2 * k + n * 2) cb j2" by (simp only: 1(1) 2(1) bindE.simps prod.case simp_thms if_False)
    also have "2 * k + n * 2 = 2 * (k + n)" by simp
    finally show ?thesis .
  qed
  moreover have "unat cb < 256" "c_open c1 (of_nat (unat cb))" using ucb cb256 1(6) by simp_all
  ultimately show ?thesis by blast
qed

lemma write_loop_end: "bp_block_size bp \<noteq> 0 \<Longrightarrow> \<not> offset < length data \<Longrightarrow> write_loop u bp addr data offset lb j = Inr (True, j)"
  by (subst write_loop.simps) simp

lemma write_loop_ready:
  assumes "bp_irlen bp = 6" "bp_block_size bp = 262144" "w = unat addr div 2" "unat addr mod 1024 = 0" "unat addr + length data \<le> 2 ^ 26"
    and "\<And>x. w \<le> unat x \<Longrightarrow> unat x < w + (length data + 1) div 2 \<Longrightarrow> m x = 0xFFFF"
  shows "ready j w (w + k) (placed w data k m) op \<Longrightarrow> 2 * k mod 1024 = 0 \<Longrightarrow> 2 * k < length data \<Longrightarrow> (unat lb < 256 \<Longrightarrow> op (of_nat (unat lb))) \<Longrightarrow>
    \<exists>j' op'. write_loop u bp addr data (2 * k) lb j = Inr (True, j') \<and>
      ready j' w (w + (length data + 1) div 2) (placed w data ((length data + 1) div 2) m) op'"
proof (induction "length data - 2 * k" arbitrary: k lb j op rule: less_induct)
  case less
  define n where "n = (min 1024 (length data - 2 * k) + 1) div 2"
  define cb :: u32 where "cb = of_nat ((unat addr + 2 * k) div 262144)"
  note B = buffer_bounds [OF assms(4) less.prems(2) assms(5) less.prems(3) n_def]
  from write_pass [OF assms(1,2) less.prems(1) assms(3-5) less.prems(2,3) assms(6) less.prems(4) n_def cb_def] obtain j1 op1 where
    1: "write_loop u bp addr data (2 * k) lb j = write_loop u bp addr data (2 * (k + n)) cb j1" "ready j1 w (w + (k + n)) (placed w data (k + n) m) op1"
      "op1 (of_nat (unat cb))" by blast
  show ?case
  proof (cases "2 * (k + n) < length data")
    case True
    have "length data - 2 * (k + n) < length data - 2 * k" using B(6) less.prems(3) by simp
    from less.hyps [OF this 1(2) B(9) [OF True] True] 1(1,3) show ?thesis by simp
  next
    case False
    then show ?thesis using 1(1,2) B(10) write_loop_end assms(2) by fastforce
  qed
qed

end

subsection \<open>The erased blocks\<close>

lemma fold_erase: "fold erase_mem bs m x = (if block_of x \<in> set bs then 0xFFFF else m x)"
  by (induction bs arbitrary: m) (auto simp: erase_mem_def)

lemma block_range_25:
  assumes "hi < 256" "x \<in> set (block_range (of_nat lo) (of_nat hi))" "lo \<le> hi"
  shows "block_of (ucast (drop_bit 1 (x * 262144))) = of_nat (unat x)"
proof -
  have x: "unat x \<le> hi" using assms by (auto simp: block_range_def unat_of_nat)
  then have "unat (x * 262144) = unat x * 262144" using assms(1) by (simp add: unat_word_ariths)
  then have "unat (drop_bit 1 (x * 262144)) = unat x * 131072" by (simp only: unat_drop_bit_eq) (simp add: drop_bit_eq_div)
  then have "ucast (drop_bit 1 (x * 262144)) = (of_nat (unat x * 131072) :: 25 word)" by (simp only: ucast_25)
  moreover have "unat (of_nat (unat x * 131072) :: 25 word) = unat x * 131072" using x assms(1) by (intro unat_25) simp
  ultimately have "unat (block_of (ucast (drop_bit 1 (x * 262144)))) = unat x" by (simp only: unat_block_of nonzero_mult_div_cancel_right)
  moreover have "unat (of_nat (unat x) :: 25 word) = unat x" using x assms(1) by (intro unat_25) simp
  ultimately show ?thesis by (metis word_unat_eq_iff)
qed

lemma erased_blocks:
  assumes "lo \<le> hi" "hi < 256"
  shows "fold erase_mem (map (\<lambda>b. block_of (ucast (drop_bit 1 (b * 262144)))) (block_range (of_nat lo) (of_nat hi))) m x =
    (if lo \<le> unat x div 131072 \<and> unat x div 131072 \<le> hi then 0xFFFF else m x)"
proof -
  have u: "unat (of_nat lo :: u32) = lo" "unat (of_nat hi :: u32) = hi" using assms by (simp_all add: unat_of_nat)
  let ?bs = "set (block_range (of_nat lo) (of_nat hi))"
  have bs: "?bs = of_nat ` {lo..hi}" by (simp add: block_range_def u atLeastLessThanSuc_atLeastAtMost del: upt_Suc)
  have 1: "(\<lambda>b. block_of (ucast (drop_bit 1 (b * 262144)))) ` ?bs = (\<lambda>b. of_nat (unat b)) ` ?bs"
    using block_range_25 [OF assms(2) _ assms(1)] by (intro image_cong refl)
  have 2: "(\<lambda>b :: u32. of_nat (unat b)) ` of_nat ` {lo..hi} = (of_nat ` {lo..hi} :: 25 word set)"
    unfolding image_image using assms(2) by (intro image_cong refl) (simp add: unat_of_nat del: of_nat_unat)
  have "block_of x \<in> (\<lambda>b. block_of (ucast (drop_bit 1 (b * 262144)))) ` ?bs \<longleftrightarrow> block_of x \<in> of_nat ` {lo..hi}"
    unfolding 1 unfolding bs 2 ..
  also have "\<dots> \<longleftrightarrow> lo \<le> unat x div 131072 \<and> unat x div 131072 \<le> hi"
  proof
    assume "block_of x \<in> of_nat ` {lo..hi}"
    then obtain b where b: "block_of x = of_nat b" "lo \<le> b" "b \<le> hi" by auto
    then have "unat (block_of x) = b" using assms(2) unat_25 [of b] by simp
    then show "lo \<le> unat x div 131072 \<and> unat x div 131072 \<le> hi" using b(2,3) by (simp add: unat_block_of)
  next
    assume "lo \<le> unat x div 131072 \<and> unat x div 131072 \<le> hi"
    moreover have "block_of x = of_nat (unat x div 131072)" by (simp only: unat_block_of [symmetric] of_nat_unat ucast_id)
    ultimately show "block_of x \<in> of_nat ` {lo..hi}" by simp
  qed
  finally show ?thesis by (simp add: fold_erase)
qed

text \<open>What \<open>write\<close> is to leave in the array: the data, its blocks erased around it, and the rest as it was.\<close>

definition flash_after :: "nat \<Rightarrow> bytes \<Rightarrow> (25 word \<Rightarrow> u16) \<Rightarrow> 25 word \<Rightarrow> u16" where
  "flash_after a data m x =
     (let w = a div 2; k = unat x in
      if w \<le> k \<and> k < w + (length data + 1) div 2 then data_word data (2 * (k - w))
      else if a div 262144 \<le> k div 131072 \<and> k div 131072 \<le> (a + length data - 1) div 262144 then 0xFFFF
      else m x)"

context bpi_chip
begin

lemma write_bytes_at:
  assumes "bp_irlen bp = 6" "bp_block_size bp = 262144" "at j c" "c_busy c = 0" "c_mode c = Command"
    and "unat addr mod 1024 = 0" "data \<noteq> []" "unat addr + length data \<le> 2 ^ 26"
  shows "\<exists>j' c'. bpi_write_bytes u bp addr data j = Inr (True, j') \<and> at j' c' \<and> c_busy c' = 0 \<and> c_mode c' = Command \<and>
    c_read c' (bk 0) = Read_array \<and> in_status c' (unat addr div 2) (unat addr div 2 + (length data + 1) div 2) \<and>
    c_mem c' = flash_after (unat addr) data (c_mem c)"
proof -
  let ?n = "length data" and ?lo = "unat addr div 262144" and ?hi = "(unat addr + length data - 1) div 262144"
  let ?w = "unat addr div 2"
  have n: "0 < ?n" using assms(7) by simp
  have "unat (addr + of_nat ?n - 1) = unat addr + ?n - 1"
  proof -
    obtain l where "?n = Suc l" using n by (cases ?n) auto
    then have "addr + of_nat ?n - 1 = addr + of_nat (?n - 1)" "?n - 1 < 2 ^ 32" "unat addr + (?n - 1) < 2 ^ 32" using assms(8) by simp_all
    moreover have "unat addr + (?n - 1) = unat addr + ?n - 1" using n by linarith
    moreover have "unat (addr + of_nat k) = unat addr + k" if "k < 2 ^ 32" "unat addr + k < 2 ^ 32" for k
      using that by (simp add: unat_word_ariths unat_of_nat)
    ultimately show ?thesis by metis
  qed
  then have lohi: "addr div 262144 = of_nat ?lo" "(addr + of_nat ?n - 1) div 262144 = of_nat ?hi"
    using assms(8) by (simp_all add: word_unat_eq_iff unat_div unat_of_nat)
  have "?lo \<le> ?hi" using n by (intro div_le_mono) linarith
  moreover have "?hi < 256" using assms(8) by simp
  ultimately have hi: "?lo \<le> ?hi" "?hi < 256" .
  let ?m = "fold erase_mem (map (\<lambda>b. block_of (ucast (drop_bit 1 (b * 262144)))) (block_range (of_nat ?lo) (of_nat ?hi))) (c_mem c)"
  have m: "?m x = (if ?lo \<le> unat x div 131072 \<and> unat x div 131072 \<le> ?hi then 0xFFFF else c_mem c x)" for x
    using erased_blocks [OF hi] .
  from erase_blocks_at [OF assms(1,3,4,5), of "block_range (of_nat ?lo) (of_nat ?hi)"] assms(2) obtain j1 c1 where
    1: "erase_blocks u bp (block_range (of_nat ?lo) (of_nat ?hi)) j = Inr (True, j1)" "at j1 c1" "c_busy c1 = 0" "c_mode c1 = Command"
      "c_mem c1 = ?m" by auto
  have blank: "?m x = 0xFFFF" if "?w \<le> unat x" "unat x < ?w + (?n + 1) div 2" for x
  proof -
    obtain q where q: "unat addr = 1024 * q" using assms(6) by auto
    have "unat x \<le> (unat addr + ?n - 1) div 2" using that q n by simp
    then have "unat x div 131072 \<le> (unat addr + ?n - 1) div 2 div 131072" by (rule div_le_mono)
    moreover have "unat addr div 2 div 131072 \<le> unat x div 131072" using that(1) by (rule div_le_mono)
    ultimately show ?thesis unfolding m by (simp add: div_mult2_eq [symmetric])
  qed
  have "placed ?w data 0 ?m = ?m" by (rule placed_0)
  then have "ready j1 ?w (?w + 0) (placed ?w data 0 ?m) (c_open c1)" using 1(2-5) by (auto simp: ready_def in_status_def)
  from write_loop_ready [OF assms(1,2) refl assms(6,8) blank this, where lb = "0xFFFFFFFF"] n obtain j2 op where
    2: "write_loop u bp addr data 0 0xFFFFFFFF j1 = Inr (True, j2)" "ready j2 ?w (?w + (?n + 1) div 2) (placed ?w data ((?n + 1) div 2) ?m) op" by auto
  then obtain c2 where c2: "at j2 c2" "c_busy c2 = 0" "c_mode c2 = Command" "c_mem c2 = placed ?w data ((?n + 1) div 2) ?m"
      "in_status c2 ?w (?w + (?n + 1) div 2)"
    by (auto simp: ready_def)
  let ?c3 = "show_bank (bk 0) Read_array c2"
  have "cfi_cmds bk te tp (map (\<lambda>(a, d). (ucast a, d)) [(0, FLASH_CMD_READ_ARRAY), (0, FLASH_CMD_READ_ARRAY)]) c2 = Some ?c3"
    using c2(2,3) by (simp add: cfi_cmd_def cfi_command_def)
  from bpi_writes_at [OF assms(1) c2(1) this] obtain j3 where
    3: "bpi_writes u bp [(0, FLASH_CMD_READ_ARRAY), (0, FLASH_CMD_READ_ARRAY)] j2 = Inr j3" "at j3 ?c3" by blast
  from read_each_at [OF assms(1) 3(2), of "map of_nat [0..<(min 64 ?n + 1) div 2]"] c2(2) obtain ws j4 where
    4: "read_each u bp (map of_nat [0..<(min 64 ?n + 1) div 2]) j3 = Inr (ws, j4)" "at j4 ?c3" by auto
  have "c_mem c2 = flash_after (unat addr) data (c_mem c)"
    unfolding c2(4) by (rule ext) (simp only: placed_def flash_after_def m Let_def)
  moreover have "bpi_write_bytes u bp addr data j = Inr (True, j4)"
  proof -
    have "bp_block_size bp \<noteq> 0" using assms(2) by simp
    then show ?thesis
      unfolding bpi_write_bytes_def Let_def assms(2) lohi
      by (simp only: 1(1) 2(1) 3(1) 4(1) bindE.simps prod.case if_False if_True simp_thms)
  qed
  moreover have "in_status ?c3 ?w (?w + (?n + 1) div 2)" using c2(5) by (auto simp: in_status_def)
  ultimately show ?thesis using 4(2) c2(2) by (intro exI [of _ j4] exI [of _ ?c3]) simp
qed

text \<open>Reading.\<close>

lemma read_bytes_at:
  assumes "bp_irlen bp = 6" "at j c" "c_busy c = 0" "c_mode c = Command" "even (unat addr)" "unat addr + len \<le> 2 ^ 26"
  shows "\<exists>ws j'. bpi_read_bytes u bp addr len j = Inr (True, take len (concat (map word_bytes ws)), j') \<and>
    at j' (show_bank (bk 0) Read_array c) \<and> length ws = (len + 1) div 2 \<and>
    (\<forall>k < (len + 1) div 2. reads_as bk (show_bank (bk 0) Read_array c) (of_nat (unat addr div 2 + k)) (ws ! k))"
proof -
  let ?c = "show_bank (bk 0) Read_array c"
  have "cfi_cmd bk te tp (ucast (0 :: u32)) FLASH_CMD_READ_ARRAY (cfi_tick c) = Some ?c"
    using assms(3,4) by (simp add: cfi_cmd_def cfi_command_def)
  from bpi_write_at [OF assms(1,2) this] obtain j1 where 1: "bpi_write u bp 0 FLASH_CMD_READ_ARRAY j = Inr j1" "at j1 ?c" by blast
  let ?as = "map (\<lambda>k. drop_bit 1 (addr + of_nat (2 * k))) [0..<(len + 1) div 2]"
  from read_each_at [OF assms(1) 1(2), of ?as] assms(3) obtain ws j2 where
    2: "read_each u bp ?as j1 = Inr (ws, j2)" "at j2 ?c" "list_all2 (\<lambda>a v. reads_as bk ?c (ucast a) v) ?as ws" by auto
  have ad: "ucast (drop_bit 1 (addr + of_nat (2 * k))) = (of_nat (unat addr div 2 + k) :: 25 word)" if "k < (len + 1) div 2" for k
  proof -
    have "unat addr + 2 * k < 2 ^ 32" using that assms(6) by simp
    then have "unat (addr + of_nat (2 * k)) = unat addr + 2 * k" by (simp add: unat_word_ariths unat_of_nat)
    then have "unat (drop_bit 1 (addr + of_nat (2 * k))) = unat addr div 2 + k" by (simp only: unat_drop_bit_eq) (simp add: drop_bit_eq_div)
    then show ?thesis by (simp only: ucast_25)
  qed
  have len: "length ws = (len + 1) div 2" using list_all2_lengthD [OF 2(3)] by simp
  moreover have "reads_as bk ?c (of_nat (unat addr div 2 + k)) (ws ! k)" if "k < (len + 1) div 2" for k
  proof -
    have "reads_as bk ?c (ucast (?as ! k)) (ws ! k)" by (rule list_all2_nthD [OF 2(3)]) (use that in simp)
    then show ?thesis using that ad [OF that] by (simp del: of_nat_add of_nat_mult)
  qed
  moreover have "bpi_read_bytes u bp addr len j = Inr (True, take len (concat (map word_bytes ws)), j2)"
    by (simp only: bpi_read_bytes_def 1(1) 2(1) bindE.simps prod.case)
  ultimately show ?thesis using 2(2) by blast
qed

end

subsection \<open>The words of the data\<close>

lemma word_bytes_data:
  "word_bytes (data_word data k) = [data ! k, if k + 1 < length data then data ! (k + 1) else 0xFF]"
proof -
  have "ucast (drop_bit 8 (push_bit 8 (ucast (a :: u8)) OR ucast (b :: u8) :: u16)) = a" for a b
    by (rule bit_word_eqI) (auto simp: bit_simps dest: bit_imp_le_length)
  moreover have "ucast (push_bit 8 (ucast (a :: u8)) OR ucast (b :: u8) :: u16) = b" for a b
    by (rule bit_word_eqI) (auto simp: bit_simps)
  ultimately show ?thesis by (simp only: word_bytes_def data_word_def bpi_reverseByte_inverse)
qed

lemma words_bytes_nth: "i < 2 * length ws \<Longrightarrow> concat (map word_bytes ws) ! i = word_bytes (ws ! (i div 2)) ! (i mod 2)"
proof (induction ws arbitrary: i)
  case (Cons w ws)
  have len: "length (word_bytes w) = 2" by (simp add: word_bytes_def)
  show ?case
  proof (cases "i < 2")
    case True
    then show ?thesis using len by (simp add: nth_append)
  next
    case False
    then obtain k where k: "i = k + 2" by (metis add.commute le_Suc_ex not_less)
    then have "k < 2 * length ws" using Cons.prems by simp
    from Cons.IH [OF this] show ?thesis unfolding k using len by (simp add: nth_append)
  qed
qed simp

lemma length_words_bytes [simp]: "length (concat (map word_bytes ws)) = 2 * length ws"
  by (induction ws) (simp_all add: word_bytes_def)

lemma data_word_byte: "i < length data \<Longrightarrow> word_bytes (data_word data (2 * (i div 2))) ! (i mod 2) = data ! i"
  by (cases "even i") (auto simp: word_bytes_data elim!: evenE oddE)

lemma flash_after_data:
  assumes "even a" "a + length data \<le> 2 ^ 26" "k < (length data + 1) div 2"
  shows "flash_after a data m (of_nat (a div 2 + k)) = data_word data (2 * k)"
proof -
  have "a div 2 + k < 2 ^ 25" using assms by auto
  then have "unat (of_nat (a div 2 + k) :: 25 word) = a div 2 + k" by (rule unat_25)
  then show ?thesis using assms(3) by (simp add: flash_after_def Let_def del: of_nat_add)
qed

text \<open>Both directions together, with the contract written out.\<close>

context bpi_chip
begin

lemma write_then_read:
  assumes "bp_irlen bp = 6" "bp_block_size bp = 262144" "ok j" "rested (fst (dev j))" "ci (snd (dev j))"
    and "c_busy (cv (snd (dev j))) = 0" "c_mode (cv (snd (dev j))) = Command"
    and "unat addr mod 1024 = 0" "data \<noteq> []" "unat addr + length data \<le> 2 ^ 26"
  shows "\<exists>j1 ws j2. bpi_write_bytes u bp addr data j = Inr (True, j1) \<and>
    c_mem (cv (snd (dev j1))) = flash_after (unat addr) data (c_mem (cv (snd (dev j)))) \<and>
    bpi_read_bytes u bp addr (length data) j1 = Inr (True, take (length data) (concat (map word_bytes ws)), j2) \<and>
    cv (snd (dev j2)) = cv (snd (dev j1)) \<and> length ws = (length data + 1) div 2 \<and>
    (\<forall>k < (length data + 1) div 2. if bk (block_of (of_nat (unat addr div 2 + k))) = bk 0 then ws ! k = data_word data (2 * k) else bit (ws ! k) 7)"
proof -
  let ?c = "cv (snd (dev j))" and ?a = "unat addr"
  have "at j ?c" using assms(3-5) by (simp add: at_def good_def chip_def)
  from write_bytes_at [OF assms(1,2) this assms(6-10)] obtain j1 c1 where
    w: "bpi_write_bytes u bp addr data j = Inr (True, j1)" "at j1 c1" "c_busy c1 = 0" "c_mode c1 = Command" "c_read c1 (bk 0) = Read_array"
      "in_status c1 (?a div 2) (?a div 2 + (length data + 1) div 2)" "c_mem c1 = flash_after ?a data (c_mem ?c)" by blast
  have same: "show_bank (bk 0) Read_array c1 = c1" using w(4,5) by (cases c1) (auto simp: show_bank_def)
  have "1024 dvd ?a" using assms(8) by (simp add: mod_eq_0_iff_dvd)
  then have ev: "even ?a" by (rule dvd_trans [rotated]) simp
  from read_bytes_at [OF assms(1) w(2-4) ev assms(10)] obtain ws j2 where
    r: "bpi_read_bytes u bp addr (length data) j1 = Inr (True, take (length data) (concat (map word_bytes ws)), j2)" "at j2 c1"
      "length ws = (length data + 1) div 2" "\<And>k. k < (length data + 1) div 2 \<Longrightarrow> reads_as bk c1 (of_nat (?a div 2 + k)) (ws ! k)"
    unfolding same by blast
  have "if bk (block_of (of_nat (?a div 2 + k))) = bk 0 then ws ! k = data_word data (2 * k) else bit (ws ! k) 7"
    if k: "k < (length data + 1) div 2" for k
  proof -
    let ?x = "of_nat (?a div 2 + k) :: 25 word"
    have "?a div 2 + k < 2 ^ 25" using k ev assms(10) by auto
    then have x: "unat ?x = ?a div 2 + k" by (rule unat_25)
    have "bk (block_of ?x) = bk 0 \<or> c_read c1 (bk (block_of ?x)) = Read_status"
      using w(6) x k unfolding in_status_def by (metis le_add1 nat_add_left_cancel_less)
    then show ?thesis using r(4) [OF k] w(3-5,7) flash_after_data [OF ev assms(10) k, of "c_mem ?c"]
      by (auto simp: reads_as_def simp del: of_nat_add)
  qed
  moreover have "cv (snd (dev j1)) = c1" "cv (snd (dev j2)) = c1" using w(2) r(2) by (simp_all add: at_def chip_def)
  ultimately show ?thesis using w(1,7) r(1,3) 
    by - (rule exI [of _ j1], rule exI [of _ ws], rule exI [of _ j2], simp only: simp_thms, blast)
qed

end

end
