(* ===== verification/Bpi_Wire.thy ===== *)
theory Bpi_Wire
  imports Bpi_Write Remote_Bitbang
begin

unbundle bit_operations_syntax

section \<open>From \<open>BPIFlash\<close> to the array of the flash\<close>

text \<open>
  The contract \<open>bridge_port\<close> on \<open>jtag.cpp\<close> over \<open>remoteBitbang_client.cpp\<close>: the server is connected to a single FPGA in which the
  bridge runs, and answers with the level of its TDO.  With it the lemmas on \<open>BPIFlash\<close> become a statement on
  the array of the chip: through the packets, the scans, the characters on the socket, the clock edges and the Verilog core.
\<close>

subsection \<open>The FPGA on the wire\<close>

text \<open>The instruction register selects the bridge; a data scan then runs it.\<close>

fun device_scan :: "'f nor16 \<Rightarrow> scan \<Rightarrow> bool \<times> core \<times> 'f \<Rightarrow> bool \<times> core \<times> 'f" where
  "device_scan fb (IR_scan bs) (sel, cf) = (bs = bits_of user1 6, cf)"
| "device_scan fb (DR_scan bs) (sel, cf) = (sel, if sel then snd (bridge_scan fb bs cf) else cf)"
| "device_scan fb Tap_reset (sel, cf) = (False, cf)"

definition device_after :: "'f nor16 \<Rightarrow> bool \<times> core \<times> 'f \<Rightarrow> scan list \<Rightarrow> bool \<times> core \<times> 'f" where
  "device_after fb d xs = fold (device_scan fb) xs d"

text \<open>TDO while TCK is high: it changes when TCK falls, so it shows the register before the last edge.\<close>

definition wire_tdo :: "'f nor16 \<Rightarrow> tapState_t \<Rightarrow> bool \<times> core \<times> 'f \<Rightarrow> edge list \<Rightarrow> bool" where
  "wire_tdo fb s0 d es =
     (let ob = observe \<lparr>ob_state = s0, ob_open = [], ob_scans = []\<rparr> (butlast es);
          (sel, cf) = device_after fb d (ob_scans ob)
      in ob_state ob = SHIFT_DR \<and> sel \<and> bit (rd_data_reg (fst (snd (bridge_scan fb (ob_open ob) cf)))) 0)"

lemma bridge_run_nth:
  "i < length bs \<Longrightarrow> fst (bridge_run fb bs cf) ! i = bit (rd_data_reg (fst (snd (bridge_run fb (take i bs) cf)))) 0"
proof (induction bs arbitrary: i cf)
  case (Cons b bs)
  show ?case
  proof (cases i)
    case 0
    then show ?thesis by (simp add: split_def Let_def)
  next
    case (Suc k)
    then show ?thesis using Cons.IH [of k "bridge_clock fb b cf"] Cons.prems by (simp add: split_def Let_def)
  qed
qed simp

subsection \<open>The client keeps its server\<close>

lemma rbb_room_srv [simp]: "rb_srv (rbb_room c) = rb_srv c"
proof -
  obtain ok v c' where w: "ll_write False c = (ok, v, c')" by (cases "ll_write False c") auto
  from ll_write_srv(1) [OF w] w show ?thesis by (simp add: rbb_room_def)
qed

lemma rbb_push_srv: "rbb_push v c = Inr c' \<Longrightarrow> rb_srv c' = rb_srv c"
  by (auto simp: rbb_push_def split: if_splits)

lemma rbb_tms_loop_srv: "rbb_tms_loop tms v pos n c = Inr c' \<Longrightarrow> rb_srv c' = rb_srv c"
proof (induction n arbitrary: pos c)
  case (Suc n)
  let ?c = "(rbb_room c)\<lparr>rb_last_tms := (if nth_bit tms pos then TMS_BIT else 0)\<rparr>"
  from Suc.prems obtain c1 c2 where p: "rbb_push (v + rb_last_tms ?c) ?c = Inr c1" "rbb_push (v + rb_last_tms c1 + TCK_BIT) c1 = Inr c2"
    "rbb_tms_loop tms v (pos + 1) n c2 = Inr c'" by (auto simp: bindE_Inr_iff Let_def)
  have "rb_srv c' = rb_srv c2" using Suc.IH [OF p(3)] .
  also have "\<dots> = rb_srv c1" using rbb_push_srv [OF p(2)] .
  also have "\<dots> = rb_srv ?c" using rbb_push_srv [OF p(1)] .
  also have "\<dots> = rb_srv c" by simp
  finally show ?case .
qed simp

lemma rbb_flush_srv: "rbb_flush c = Inr (r, c') \<Longrightarrow> rb_srv c' = rb_srv c"
  by (cases "ll_write False c") (auto simp: rbb_flush_def dest: ll_write_srv(1))

lemma rbb_writeTMS_srv: "rbb_writeTMS tms len fl tdi c = Inr (r, c') \<Longrightarrow> rb_srv c' = rb_srv c"
  by (auto simp: rbb_writeTMS_def bindE_Inr_iff split: if_splits dest!: rbb_flush_srv rbb_tms_loop_srv)

definition wire_inv :: "(edge list \<Rightarrow> bool) \<Rightarrow> rbb \<Rightarrow> bool" where
  "wire_inv lvl c \<longleftrightarrow> rbb_inv c \<and> served lvl c"

lemma served_same: "rb_srv c' = rb_srv c \<Longrightarrow> served lvl c' = served lvl c"
  by (simp add: served_def)

lemma wire_tdi_loop:
  assumes "rbb_core c" "rb_last_tms c = 0" "served lvl c" "\<forall>b. rx = Some b \<longrightarrow> len \<le> 8 * length b"
  shows "\<exists>rx' c'. rbb_tdi_loop tx rx e len 48 0 len c = Inr (rx', c') \<and> rb_srv c' = rb_srv c \<and>
    (rx \<noteq> None \<longrightarrow> (\<exists>r. rx' = Some r \<and> (\<forall>i < len. nth_bit r i =
       lvl (rbb_edges c @ map (\<lambda>i. (e \<and> i = len - 1, nth_bit tx i)) [0..<Suc i]))))"
proof -
  have "0 + len = len" by simp
  note R = rbb_tdi_loop_ok [OF assms(1) this assms(2), of tx rx e]
  show ?thesis
  proof (cases rx)
    case None
    with R show ?thesis by (elim exE conjE) (intro exI conjI, assumption+, simp)
  next
    case (Some b)
    obtain rx1 c1 where
      l: "rbb_tdi_loop tx rx e len 48 0 len c = Inr (rx1, c1)" "rb_srv c1 = rb_srv c"
      and got: "\<forall>buf lvl. rx = Some buf \<longrightarrow> served lvl c \<longrightarrow> len \<le> 8 * length buf \<longrightarrow>
        (\<exists>buf'. rx1 = Some buf' \<and> length buf' = length buf \<and> (\<forall>i < 8 * length buf. nth_bit buf' i =
           (if 0 \<le> i \<and> i < len then lvl (rbb_edges c @ map (\<lambda>i. (e \<and> i = len - 1, nth_bit tx i)) [0..<Suc i]) else nth_bit buf i)))"
      using R by (elim exE conjE) (rule that)
    from got [rule_format, OF Some assms(3) assms(4) [rule_format, OF Some]] obtain r where
      r: "rx1 = Some r" "\<forall>i < 8 * length b. nth_bit r i =
        (if 0 \<le> i \<and> i < len then lvl (rbb_edges c @ map (\<lambda>i. (e \<and> i = len - 1, nth_bit tx i)) [0..<Suc i]) else nth_bit b i)"
      by (elim exE conjE) (rule that)
    have "nth_bit r i = lvl (rbb_edges c @ map (\<lambda>i. (e \<and> i = len - 1, nth_bit tx i)) [0..<Suc i])" if "i < len" for i
      using r(2) [rule_format, of i] that assms(4) [rule_format, OF Some] by (simp del: upt_Suc)
    with l r(1) show ?thesis by (intro exI conjI impI allI)
  qed
qed

lemma wire_writeTDI:
  assumes "wire_inv lvl c" "0 < len" "len \<le> 8 * length tx" "\<forall>b. rx = Some b \<longrightarrow> len \<le> 8 * length b"
    and "rbb_edges c \<noteq> []" "\<not> fst (last (rbb_edges c))"
  shows "\<exists>ret rx' c'. rbb_writeTDI (Some tx) rx len e c = Inr (ret, rx', c') \<and> wire_inv lvl c' \<and>
    rbb_edges c' = rbb_edges c @ zip (replicate (len - 1) False @ [e]) (bits_of tx len) \<and>
    (rx \<noteq> None \<longrightarrow> (\<exists>r. rx' = Some r \<and> (\<forall>i < len. nth_bit r i =
       lvl (rbb_edges c @ map (\<lambda>i. (e \<and> i = len - 1, nth_bit tx i)) [0..<Suc i]))))"
proof -
  have inv: "rbb_inv c" and srv: "served lvl c" using assms(1) by (simp_all add: wire_inv_def)
  have core: "rbb_core c" and low: "rb_last_tms c = 0" using inv assms(5,6) by (auto simp: rbb_inv_def)
  from rbb_writeTDI_ok [where tx = tx and rx = rx and e = e, OF inv assms(2,5,6)] obtain ret rx' c' where
    w: "rbb_writeTDI (Some tx) rx len e c = Inr (ret, rx', c')" "rbb_inv c'"
      "rbb_edges c' = rbb_edges c @ zip (replicate (len - 1) False @ [e]) (bits_of tx len)" by (elim exE conjE) (rule that)
  from wire_tdi_loop [where tx = tx and e = e and rx = rx, OF core low srv assms(4)] obtain rx1 c1 where
    l: "rbb_tdi_loop tx rx e len 48 0 len c = Inr (rx1, c1)" "rb_srv c1 = rb_srv c"
    and got: "rx \<noteq> None \<longrightarrow> (\<exists>r. rx1 = Some r \<and> (\<forall>i < len. nth_bit r i =
       lvl (rbb_edges c @ map (\<lambda>i. (e \<and> i = len - 1, nth_bit tx i)) [0..<Suc i])))" by (elim exE conjE) (rule that)
  have "len \<noteq> 0" using assms(2) by simp
  then have "rbb_writeTDI (Some tx) rx len e c = Inr (int len, rx1, c1)"
    by (simp only: rbb_writeTDI_def if_False option.case low add_0_right l(1) bindE.simps prod.case)
  from trans [OF this [symmetric] w(1)] have same: "rx1 = rx'" "c1 = c'" by (simp_all only: sum.inject prod.inject)
  have "served lvl c'" using served_same [OF l(2)] srv same(2) by (simp only:)
  then have inv': "wire_inv lvl c'" using w(2) by (simp only: wire_inv_def)
  show ?thesis by (rule exI [of _ ret], rule exI [of _ rx'], rule exI [of _ c'], intro conjI w inv' got [unfolded same])
qed

interpretation rbs: scan_cable rbb_ops "wire_inv lvl" rbb_edges s0 "[]" "[]" "[]" "[]" for lvl s0
proof (unfold_locales, unfold rbb_ops_def jtag_ops.select_convs)
  fix c :: rbb and len :: nat and tms fl tdi
  assume "wire_inv lvl c" "0 < len"
  then show "\<exists>ret c' new. rbb_writeTMS tms len fl tdi c = Inr (ret, c') \<and> wire_inv lvl c' \<and>
      rbb_edges c' = rbb_edges c @ new \<and> map fst new = bits_of tms len"
    using rbb_writeTMS_ok [of c len tms fl tdi] by (auto simp: wire_inv_def dest: rbb_writeTMS_srv served_same)
next
  fix c :: rbb and len :: nat and tx :: bytes and rx :: "bytes option" and e
  assume a: "wire_inv lvl c" "0 < len" "len \<le> 8 * length tx" "\<And>b. rx = Some b \<Longrightarrow> len \<le> 8 * length b"
    "rbb_edges c \<noteq> []" "\<not> fst (last (rbb_edges c))"
  then have "\<forall>b. rx = Some b \<longrightarrow> len \<le> 8 * length b" by blast
  from wire_writeTDI [OF a(1-3) this a(5,6)]
  show "\<exists>ret rx' c'. rbb_writeTDI (Some tx) rx len e c = Inr (ret, rx', c') \<and> wire_inv lvl c' \<and>
      rbb_edges c' = rbb_edges c @ zip (replicate (len - 1) False @ [e]) (bits_of tx len)" by blast
next
  fix c
  assume "wire_inv lvl c"
  then show "\<exists>ret c'. rbb_flush c = Inr (ret, c') \<and> wire_inv lvl c' \<and> rbb_edges c' = rbb_edges c"
    using rbb_flush_ok [of c] by (auto simp: wire_inv_def dest: rbb_flush_srv served_same)
qed

subsection \<open>The bits that come back\<close>

lemma shift_low_edges:
  assumes "i < n"
  shows "map (\<lambda>k. (e \<and> k = n - 1, nth_bit tx k)) [0..<i] = map (Pair False) (bits_of tx i)"
proof -
  have "map (\<lambda>k. (e \<and> k = n - 1, nth_bit tx k)) [0..<i] = map (\<lambda>k. (False, nth_bit tx k)) [0..<i]"
    using assms by (intro map_cong refl) auto
  then show ?thesis by (simp add: bits_of_def)
qed

lemma observe_low:
  "ob_state ob = SHIFT_DR \<Longrightarrow> observe ob (map (Pair False) bs) = ob\<lparr>ob_open := ob_open ob @ bs\<rparr>"
proof (induction bs arbitrary: ob)
  case (Cons b bs)
  have "obs_step ob (False, b) = ob\<lparr>ob_open := ob_open ob @ [b]\<rparr>" using Cons.prems by (auto simp: obs_step_def Let_def)
  then show ?case using Cons.IH [of "ob\<lparr>ob_open := ob_open ob @ [b]\<rparr>"] Cons.prems by simp
qed simp

lemma take_bits_of: "i \<le> n \<Longrightarrow> take i (bits_of tx n) = bits_of tx i"
  by (simp add: bits_of_def take_map)

lemma wire_tdo_shift:
  assumes v: "v = observe \<lparr>ob_state = s0, ob_open = [], ob_scans = []\<rparr> es" "ob_state v = SHIFT_DR" "ob_open v = []"
    and d: "device_after fb d (ob_scans v) = (True, cf)" and "i < n"
  shows "wire_tdo fb s0 d (es @ map (\<lambda>k. (e \<and> k = n - 1, nth_bit tx k)) [0..<Suc i]) = fst (bridge_scan fb (bits_of tx n) cf) ! i"
proof -
  let ?ed = "\<lambda>k. (e \<and> k = n - 1, nth_bit tx k)"
  have "butlast (es @ map ?ed [0..<Suc i]) = es @ map (Pair False) (bits_of tx i)"
    using shift_low_edges [OF assms(5), of e tx] by (simp add: butlast_append)
  moreover have "observe v (map (Pair False) (bits_of tx i)) = v\<lparr>ob_open := bits_of tx i\<rparr>"
    using observe_low [OF v(2), of "bits_of tx i"] v(3) by simp
  ultimately have "wire_tdo fb s0 d (es @ map ?ed [0..<Suc i]) = bit (rd_data_reg (fst (snd (bridge_scan fb (bits_of tx i) cf)))) 0"
    using v(2) d by (simp add: wire_tdo_def v(1) [symmetric] del: upt_Suc)
  also have "\<dots> = fst (bridge_scan fb (bits_of tx n) cf) ! i"
    using bridge_run_nth [of i "bits_of tx n" fb "bridge_capture fb cf"] assms(5) by (simp add: bridge_scan_def take_bits_of)
  finally show ?thesis .
qed

lemma wire_received:
  assumes "port_ok (wire_inv (wire_tdo fb s0 d)) rbb_edges s0 [] [] [] [] j" "j_state j = RUN_TEST_IDLE"
    and sel: "device_after fb d (settled (port_view rbb_edges s0 j)) = (True, cf)"
    and n: "0 < n" "n \<le> 8 * length tx" "n \<le> 8 * length b"
    and s: "shiftDR rbb_ops (Some tx) (Some b) n RUN_TEST_IDLE j = Inr (rx', j')"
  shows "\<exists>r. rx' = Some r \<and> bits_of r n = fst (bridge_scan fb (bits_of tx n) cf)"
proof -
  let ?lvl = "wire_tdo fb s0 d" and ?ed = "\<lambda>e k. (e \<and> k = n - 1, nth_bit tx k)"
  have p: "port_in_use (wire_inv ?lvl) rbb_edges s0 j" "padding [] [] [] [] j" using assms(1) by (simp_all add: port_ok_def)
  have "j_state j \<in> rests - {PAUSE_DR, EXIT1_DR} \<or> j_state j = SHIFT_DR" using assms(2) by (simp add: rest_defs)
  from rbs.shiftDR_received [OF p this s] assms(2) obtain j2 ret c' where
    j2: "port_in_use (wire_inv ?lvl) rbb_edges s0 j2" "j_state j2 = SHIFT_DR" "ob_open (port_view rbb_edges s0 j2) = []"
      "ob_scans (port_view rbb_edges s0 j2) = settled (port_view rbb_edges s0 j)"
      "writeTDI rbb_ops (Some tx) (Some b) n (j_dr_bits_after j2 = 0) (j_cable j2) = Inr (ret, rx', c')" by auto
  let ?e = "j_dr_bits_after j2 = 0" and ?c = "j_cable j2"
  have c: "wire_inv ?lvl ?c" "rbb_edges ?c \<noteq> []" "tap_run s0 (map fst (rbb_edges ?c)) = SHIFT_DR" "synced rbb_edges s0 j2"
    using j2(1,2) by (auto simp: port_in_use_def synced_def)
  have low: "\<not> fst (last (rbb_edges ?c))"
    using tap_run_shift_low [of s0 "map fst (rbb_edges ?c)"] c(2,3) by (auto simp: last_map)
  have w: "rbb_writeTDI (Some tx) (Some b) n ?e ?c = Inr (ret, rx', c')" using j2(5) by (simp add: rbb_ops_def)
  have "\<forall>b'. Some b = Some b' \<longrightarrow> n \<le> 8 * length b'" using n(3) by simp
  from wire_writeTDI [where e = "?e", OF c(1) n(1,2) this c(2) low] w obtain r where
    r: "rx' = Some r" "\<And>i. i < n \<Longrightarrow> nth_bit r i = ?lvl (rbb_edges ?c @ map (?ed ?e) [0..<Suc i])" by (auto simp del: upt_Suc)
  have v: "port_view rbb_edges s0 j2 = observe \<lparr>ob_state = s0, ob_open = [], ob_scans = []\<rparr> (rbb_edges ?c)" by (simp add: port_view_def)
  have st: "ob_state (port_view rbb_edges s0 j2) = SHIFT_DR" using port_view_state [OF c(4)] j2(2) by simp
  have "nth_bit r i = fst (bridge_scan fb (bits_of tx n) cf) ! i" if "i < n" for i
    using r(2) [OF that] wire_tdo_shift [OF v st j2(3) _ that] sel j2(4) by (simp del: upt_Suc)
  then have "bits_of r n = fst (bridge_scan fb (bits_of tx n) cf)"
    by (intro nth_equalityI) (simp_all add: bridge_scan_def)
  with r(1) show ?thesis by blast
qed

subsection \<open>The contract of the bridge\<close>

definition wire_ok :: "'f nor16 \<Rightarrow> tapState_t \<Rightarrow> bool \<times> core \<times> 'f \<Rightarrow> rbb jtag \<Rightarrow> bool" where
  "wire_ok fb s0 d j \<longleftrightarrow> port_ok (wire_inv (wire_tdo fb s0 d)) rbb_edges s0 [] [] [] [] j \<and> j_state j = RUN_TEST_IDLE"

definition wire_dev :: "'f nor16 \<Rightarrow> tapState_t \<Rightarrow> bool \<times> core \<times> 'f \<Rightarrow> rbb jtag \<Rightarrow> bool \<times> core \<times> 'f" where
  "wire_dev fb s0 d j = device_after fb d (settled (port_view rbb_edges s0 j))"

lemma device_after_snoc: "device_after fb d (xs @ [x]) = device_scan fb x (device_after fb d xs)"
  by (simp add: device_after_def)

lemma wire_shiftIR:
  assumes "wire_ok fb s0 d j"
  shows "\<exists>j'. ju_shiftIR (jtag_methods rbb_ops) user1 6 RUN_TEST_IDLE j = Inr j' \<and> wire_ok fb s0 d j' \<and> fst (wire_dev fb s0 d j') \<and>
    snd (wire_dev fb s0 d j') = snd (wire_dev fb s0 d j)"
proof -
  let ?inv = "wire_inv (wire_tdo fb s0 d)"
  have p: "port_in_use ?inv rbb_edges s0 j" "padding [] [] [] [] j" "j_state j = RUN_TEST_IDLE"
    using assms by (simp_all add: wire_ok_def port_ok_def)
  have rest: "j_state j \<in> insert SHIFT_DR rests - {PAUSE_IR, EXIT1_IR}" "RUN_TEST_IDLE \<in> ir_rest" using p(3) by (simp_all add: rest_defs)
  have len: "(0::nat) < 6" "6 \<le> 8 * length user1" by (simp_all add: user1_def)
  from rbs.shiftIR_scans [OF p(1,2) rest len, of None] obtain rx j' xs where
    r: "shiftIR rbb_ops (Some user1) None 6 RUN_TEST_IDLE j = Inr (rx, j')" "port_in_use ?inv rbb_edges s0 j'" "same_cfg j j'"
      "j_state j' = RUN_TEST_IDLE" "finish (j_state j) (ob_open (port_view rbb_edges s0 j)) xs"
      "settled (port_view rbb_edges s0 j') = settled (port_view rbb_edges s0 j) @ xs @ [IR_scan ([] @ bits_of user1 6 @ [])]" by auto
  have "wire_ok fb s0 d j'" using r(2-4) p(2) by (simp add: wire_ok_def port_ok_def padding_cfg)
  moreover have "wire_dev fb s0 d j' = device_scan fb (IR_scan (bits_of user1 6)) (wire_dev fb s0 d j)"
    using r(5,6) p(3) by (simp add: wire_dev_def finish_def device_after_snoc)
  then have "fst (wire_dev fb s0 d j') \<and> snd (wire_dev fb s0 d j') = snd (wire_dev fb s0 d j)"
    by (cases "wire_dev fb s0 d j") simp
  ultimately show ?thesis using r(1) by (simp add: jtag_methods_def)
qed

lemma wire_shiftDR:
  assumes ok: "wire_ok fb s0 d j" and sel: "fst (wire_dev fb s0 d j)"
    and n: "0 < n" "n \<le> 8 * length tx" "\<And>b. rx = Some b \<Longrightarrow> n \<le> 8 * length b"
  shows "\<exists>rx' j'. ju_shiftDR (jtag_methods rbb_ops) (Some tx) rx n RUN_TEST_IDLE j = Inr (rx', j') \<and> wire_ok fb s0 d j' \<and>
    fst (wire_dev fb s0 d j') \<and> snd (wire_dev fb s0 d j') = snd (bridge_scan fb (bits_of tx n) (snd (wire_dev fb s0 d j))) \<and>
    (rx \<noteq> None \<longrightarrow> (\<exists>r. rx' = Some r \<and> bits_of r n = fst (bridge_scan fb (bits_of tx n) (snd (wire_dev fb s0 d j)))))"
proof -
  let ?inv = "wire_inv (wire_tdo fb s0 d)"
  have p: "port_in_use ?inv rbb_edges s0 j" "padding [] [] [] [] j" "j_state j = RUN_TEST_IDLE"
    and port: "port_ok ?inv rbb_edges s0 [] [] [] [] j"
    using ok by (simp_all add: wire_ok_def port_ok_def)
  obtain cf where cf: "wire_dev fb s0 d j = (True, cf)" using sel by (cases "wire_dev fb s0 d j") auto
  have rest: "j_state j \<in> rests - {PAUSE_DR, EXIT1_DR} \<or> j_state j = SHIFT_DR" "RUN_TEST_IDLE \<in> insert SHIFT_DR dr_rest"
    using p(3) by (simp_all add: rest_defs)
  from rbs.shiftDR_scans [where rx = rx, OF p(1,2) rest n] p(3) obtain rx' j' where
    r: "shiftDR rbb_ops (Some tx) rx n RUN_TEST_IDLE j = Inr (rx', j')" "port_in_use ?inv rbb_edges s0 j'" "same_cfg j j'"
      "j_state j' = RUN_TEST_IDLE" "settled (port_view rbb_edges s0 j') = settled (port_view rbb_edges s0 j) @ [DR_scan (bits_of tx n)]" by auto
  have "wire_ok fb s0 d j'" using r(2-4) p(2) by (simp add: wire_ok_def port_ok_def padding_cfg)
  moreover have "wire_dev fb s0 d j' = (True, snd (bridge_scan fb (bits_of tx n) cf))"
    using r(5) cf by (simp add: wire_dev_def device_after_snoc)
  moreover have "\<exists>r. rx' = Some r \<and> bits_of r n = fst (bridge_scan fb (bits_of tx n) cf)" if "rx = Some b" for b
    using wire_received [OF port p(3) cf [unfolded wire_dev_def] n(1,2) n(3) [OF that]] r(1) that by blast
  ultimately show ?thesis using r(1) cf by (cases rx) (simp_all add: jtag_methods_def)
qed

lemma wire_flush:
  assumes "wire_ok fb s0 d j"
  shows "\<exists>j'. ju_flush (jtag_methods rbb_ops) j = Inr j' \<and> wire_ok fb s0 d j' \<and> wire_dev fb s0 d j' = wire_dev fb s0 d j"
proof -
  let ?inv = "wire_inv (wire_tdo fb s0 d)"
  have "?inv (j_cable j)" "j_num_tms j = 0" using assms by (simp_all add: wire_ok_def port_ok_def port_in_use_def synced_def)
  with rbs.flush_edges [of _ "j_cable j"] obtain ret c where
    c: "flush_ll rbb_ops (j_cable j) = Inr (ret, c)" "?inv c" "rbb_edges c = rbb_edges (j_cable j)" by blast
  have "ju_flush (jtag_methods rbb_ops) j = Inr (j\<lparr>j_cable := c\<rparr>)"
    using c(1) \<open>j_num_tms j = 0\<close> by (simp add: jtag_methods_def flushTMS_def)
  moreover have "wire_ok fb s0 d (j\<lparr>j_cable := c\<rparr>)"
    using assms c(2,3) by (simp add: wire_ok_def port_ok_def port_in_use_def padding_def synced_def jtag_wf_def)
  ultimately show ?thesis using c(3) by (intro exI [of _ "j\<lparr>j_cable := c\<rparr>"]) (simp add: wire_dev_def port_view_def)
qed

interpretation bpw: bridge_port "jtag_methods rbb_ops" fb "wire_ok fb s0 d" "\<lambda>j. fst (wire_dev fb s0 d j)" "\<lambda>j. snd (wire_dev fb s0 d j)"
  for fb :: "'f nor16" and s0 d
proof
  fix j
  assume "wire_ok fb s0 d j"
  from wire_shiftIR [OF this]
  show "\<exists>j'. ju_shiftIR (jtag_methods rbb_ops) user1 6 RUN_TEST_IDLE j = Inr j' \<and> wire_ok fb s0 d j' \<and> fst (wire_dev fb s0 d j') \<and>
    snd (wire_dev fb s0 d j') = snd (wire_dev fb s0 d j)" .
next
  fix j n and tx :: bytes and rx :: "bytes option"
  assume "wire_ok fb s0 d j" "fst (wire_dev fb s0 d j)" "0 < n" "n \<le> 8 * length tx" "\<And>b. rx = Some b \<Longrightarrow> n \<le> 8 * length b"
  from wire_shiftDR [OF this]
  show "\<exists>rx' j'. ju_shiftDR (jtag_methods rbb_ops) (Some tx) rx n RUN_TEST_IDLE j = Inr (rx', j') \<and> wire_ok fb s0 d j' \<and>
    fst (wire_dev fb s0 d j') \<and> snd (wire_dev fb s0 d j') = snd (bridge_scan fb (bits_of tx n) (snd (wire_dev fb s0 d j))) \<and>
    (rx \<noteq> None \<longrightarrow> (\<exists>r. rx' = Some r \<and> bits_of r n = fst (bridge_scan fb (bits_of tx n) (snd (wire_dev fb s0 d j)))))" .
next
  fix j
  assume "wire_ok fb s0 d j"
  from wire_flush [OF this]
  show "\<exists>j'. ju_flush (jtag_methods rbb_ops) j = Inr j' \<and> wire_ok fb s0 d j' \<and>
    (fst (wire_dev fb s0 d j) \<longrightarrow> fst (wire_dev fb s0 d j')) \<and> snd (wire_dev fb s0 d j') = snd (wire_dev fb s0 d j)" by auto
qed

text \<open>The chip behind it: any that keeps \<open>cfi_ok\<close>, for example \<open>cfi_nor\<close>.\<close>

lemma wire_chip:
  "cfi_ok fb ci cv bk te tp \<Longrightarrow>
   bpi_chip (jtag_methods rbb_ops) fb (wire_ok fb s0 d) (\<lambda>j. fst (wire_dev fb s0 d j)) (\<lambda>j. snd (wire_dev fb s0 d j)) ci cv bk te tp"
  by (intro bpi_chip.intro bpi_chip_axioms.intro bpw.bridge_port_axioms)

interpretation bpn: bpi_chip "jtag_methods rbb_ops" "cfi_nor bk (min te 3000) (min tp 500)" "wire_ok (cfi_nor bk (min te 3000) (min tp 500)) s0 d"
  "\<lambda>j. fst (wire_dev (cfi_nor bk (min te 3000) (min tp 500)) s0 d j)" "\<lambda>j. snd (wire_dev (cfi_nor bk (min te 3000) (min tp 500)) s0 d j)"
  "\<lambda>_. True" "\<lambda>c. c" bk "min te 3000" "min tp 500" for bk te tp s0 d
  by (rule wire_chip) (simp add: cfi_nor_ok)

subsection \<open>Write and read back\<close>

text \<open>The flash on the wire: its view, when the bridge rests and the chip is idle and takes commands, whatever its banks show.\<close>

definition wire_flash :: "'f nor16 \<Rightarrow> ('f \<Rightarrow> cfi) \<Rightarrow> tapState_t \<Rightarrow> bool \<times> core \<times> 'f \<Rightarrow> rbb jtag \<Rightarrow> cfi" where
  "wire_flash fb cv s0 d j = cv (snd (snd (wire_dev fb s0 d j)))"

definition wire_idle :: "'f nor16 \<Rightarrow> ('f \<Rightarrow> bool) \<Rightarrow> ('f \<Rightarrow> cfi) \<Rightarrow> tapState_t \<Rightarrow> bool \<times> core \<times> 'f \<Rightarrow> rbb jtag \<Rightarrow> bool" where
  "wire_idle fb ci cv s0 d j \<longleftrightarrow> wire_ok fb s0 d j \<and> rested (fst (snd (wire_dev fb s0 d j))) \<and> ci (snd (snd (wire_dev fb s0 d j))) \<and>
     c_busy (wire_flash fb cv s0 d j) = 0 \<and> c_mode (wire_flash fb cv s0 d j) = Command"

text \<open>The bank of the word that holds a byte.\<close>

definition byte_bank :: "(25 word \<Rightarrow> nat) \<Rightarrow> nat \<Rightarrow> nat" where
  "byte_bank bk a = bk (block_of (of_nat (a div 2)))"

text \<open>
  What is read back, byte by byte: in the bank of address 0 the data; in any other bank the status register, whose bit 7
  arrives mirrored in the second byte of each word.
\<close>

lemma bpi_write_read_bytes:
  assumes "cfi_ok fb ci cv bk te tp" "wire_idle fb ci cv s0 d j"
    and "bp_irlen bp = bp_irlen (bpi_ctor vb)" "bp_block_size bp = bp_block_size (bpi_ctor vb)"
    and "unat addr mod 1024 = 0" "data \<noteq> []" "unat addr + length data \<le> 2 ^ 26"
  shows "\<exists>j1 got j2. bpi_write_bytes (jtag_methods rbb_ops) bp addr data j = Inr (True, j1) \<and>
    c_mem (wire_flash fb cv s0 d j1) = flash_after (unat addr) data (c_mem (wire_flash fb cv s0 d j)) \<and>
    bpi_read_bytes (jtag_methods rbb_ops) bp addr (length data) j1 = Inr (True, got, j2) \<and>
    wire_flash fb cv s0 d j2 = wire_flash fb cv s0 d j1 \<and> length got = length data \<and>
    (\<forall>i < length data. if byte_bank bk (unat addr + i) = bk 0 then got ! i = data ! i else odd i \<longrightarrow> bit (got ! i) 0)"
proof -
  have bp: "bp_irlen bp = 6" "bp_block_size bp = 262144" using assms(3,4) by (simp_all add: bpi_ctor_def)
  from bpi_chip.write_then_read [OF wire_chip [OF assms(1), of s0 d] bp, of j addr data] assms(2,5-7) obtain j1 ws j2 where
    r: "bpi_write_bytes (jtag_methods rbb_ops) bp addr data j = Inr (True, j1)"
      "c_mem (wire_flash fb cv s0 d j1) = flash_after (unat addr) data (c_mem (wire_flash fb cv s0 d j))"
      "bpi_read_bytes (jtag_methods rbb_ops) bp addr (length data) j1 = Inr (True, take (length data) (concat (map word_bytes ws)), j2)"
      "wire_flash fb cv s0 d j2 = wire_flash fb cv s0 d j1" "length ws = (length data + 1) div 2"
    and ws: "\<And>k. k < (length data + 1) div 2 \<Longrightarrow>
      if bk (block_of (of_nat (unat addr div 2 + k))) = bk 0 then ws ! k = data_word data (2 * k) else bit (ws ! k) 7"
    by (auto simp: wire_flash_def wire_idle_def)
  let ?got = "take (length data) (concat (map word_bytes ws))"
  have len: "length data \<le> 2 * length ws" using r(5) by simp
  have "1024 dvd unat addr" using assms(5) by (simp add: mod_eq_0_iff_dvd)
  then have ev: "even (unat addr)" by (rule dvd_trans [rotated]) simp
  have "if byte_bank bk (unat addr + i) = bk 0 then ?got ! i = data ! i else odd i \<longrightarrow> bit (?got ! i) 0" if i: "i < length data" for i
  proof -
    have k: "i div 2 < (length data + 1) div 2" using i by linarith
    have "(unat addr + i) div 2 = unat addr div 2 + i div 2" by (rule div_plus_div_distrib_dvd_left [OF ev])
    moreover have "?got ! i = word_bytes (ws ! (i div 2)) ! (i mod 2)" using i words_bytes_nth [of i ws] len by simp
    ultimately show ?thesis
      using ws [OF k] data_word_byte [OF i] by (auto simp: byte_bank_def word_bytes_def bit_bpi_reverseByte bit_simps odd_iff_mod_2_eq_one split: if_splits)
  qed
  then have "\<forall>i < length data. if byte_bank bk (unat addr + i) = bk 0 then ?got ! i = data ! i else odd i \<longrightarrow> bit (?got ! i) 0"
    by blast
  moreover have "length ?got = length data" using len by simp
  ultimately show ?thesis using r(1-4) by blast
qed

text \<open>
  C6: through jtag.cpp, the characters on the socket of the remote bitbang server, the clock edges, the Verilog core of the bridge and a chip that
  keeps its data sheet, BPIFlash::write returns true and leaves in the array exactly the data, the rest of its blocks erased and every other
  word as it was, however the chip is divided into banks; BPIFlash::read then changes nothing and returns, for every byte in the bank of
  address 0, the byte that was written.  It holds with bursts and without, for an object with the instruction length and block size that the
  constructor and detect set, and data that starts on a boundary of 1 KB and ends within the 64 MB of the chip.
\<close>

theorem bpi_write_read_wire:
  assumes "cfi_ok fb ci cv bk te tp" "wire_idle fb ci cv s0 d j"
    and "bp_irlen bp = bp_irlen (bpi_ctor vb)" "bp_block_size bp = bp_block_size (bpi_ctor vb)"
    and "unat addr mod 1024 = 0" "data \<noteq> []" "unat addr + length data \<le> 2 ^ 26"
  shows "\<exists>j1 got j2. bpi_write_bytes (jtag_methods rbb_ops) bp addr data j = Inr (True, j1) \<and>
    c_mem (wire_flash fb cv s0 d j1) = flash_after (unat addr) data (c_mem (wire_flash fb cv s0 d j)) \<and>
    bpi_read_bytes (jtag_methods rbb_ops) bp addr (length data) j1 = Inr (True, got, j2) \<and>
    wire_flash fb cv s0 d j2 = wire_flash fb cv s0 d j1 \<and> length got = length data \<and>
    (\<forall>i < length data. byte_bank bk (unat addr + i) = bk 0 \<longrightarrow> got ! i = data ! i) \<and>
    ((\<forall>b b'. bk b = bk b') \<longrightarrow> got = data)"
proof -
  obtain j1 got j2 where r: "bpi_write_bytes (jtag_methods rbb_ops) bp addr data j = Inr (True, j1)"
    "c_mem (wire_flash fb cv s0 d j1) = flash_after (unat addr) data (c_mem (wire_flash fb cv s0 d j))"
    "bpi_read_bytes (jtag_methods rbb_ops) bp addr (length data) j1 = Inr (True, got, j2)"
    "wire_flash fb cv s0 d j2 = wire_flash fb cv s0 d j1" "length got = length data"
    and b: "\<forall>i < length data. if byte_bank bk (unat addr + i) = bk 0 then got ! i = data ! i else odd i \<longrightarrow> bit (got ! i) 0"
    using bpi_write_read_bytes [OF assms] by blast
  then have same: "\<forall>i < length data. byte_bank bk (unat addr + i) = bk 0 \<longrightarrow> got ! i = data ! i" by auto
  have "got = data" if "\<forall>b b'. bk b = bk b'"
    using that same unfolding byte_bank_def by (intro nth_equalityI) (metis r(5))+
  then show ?thesis using r same by blast
qed

text \<open>
  Why no more is promised: the commands that return a chip to its array are given at address 0 alone, so that in any other bank
  \<open>read\<close> returns the status register, and every odd byte of the data whose lowest bit is clear comes back wrong.
\<close>

theorem bpi_read_other_bank_fails:
  assumes "cfi_ok fb ci cv bk te tp" "wire_idle fb ci cv s0 d j"
    and "bp_irlen bp = bp_irlen (bpi_ctor vb)" "bp_block_size bp = bp_block_size (bpi_ctor vb)"
    and "unat addr mod 1024 = 0" "unat addr + length data \<le> 2 ^ 26"
    and "i < length data" "odd i" "byte_bank bk (unat addr + i) \<noteq> bk 0" "\<not> bit (data ! i) 0"
  shows "\<exists>j1 got j2. bpi_write_bytes (jtag_methods rbb_ops) bp addr data j = Inr (True, j1) \<and>
    bpi_read_bytes (jtag_methods rbb_ops) bp addr (length data) j1 = Inr (True, got, j2) \<and> got ! i \<noteq> data ! i"
proof -
  have "data \<noteq> []" using assms(7) by auto
  from bpi_write_read_bytes [OF assms(1-5) this assms(6)] obtain j1 got j2 where
    r: "bpi_write_bytes (jtag_methods rbb_ops) bp addr data j = Inr (True, j1)"
      "bpi_read_bytes (jtag_methods rbb_ops) bp addr (length data) j1 = Inr (True, got, j2)"
    and b: "\<forall>i < length data. if byte_bank bk (unat addr + i) = bk 0 then got ! i = data ! i else odd i \<longrightarrow> bit (got ! i) 0"
    by blast
  have "bit (got ! i) 0" using b assms(7-9) by auto
  then have "got ! i \<noteq> data ! i" using assms(10) by metis
  with r show ?thesis by blast
qed

definition demo_bpi_dev :: "bool \<times> core \<times> cfi" where
  "demo_bpi_dev = (False, reset_core, \<lparr>c_mode = Command, c_read = (\<lambda>_. Read_id), c_mem = (\<lambda>_. 0x1234), c_open = (\<lambda>_. False), c_busy = 0\<rparr>)"

definition demo_bpi_jtag :: "rbb jtag" where
  "demo_bpi_jtag = (jtag_init (demo_rbb\<lparr>rb_last_tms := 0, rb_sent := [98, 48, 52],
     rb_srv := \<lambda>h. Some (if wire_tdo (cfi_nor (\<lambda>b. unat b div 32) 3 2) RUN_TEST_IDLE demo_bpi_dev (rbb_decode False h) then 49 else 48)\<rparr>))\<lparr>j_state := RUN_TEST_IDLE\<rparr>"

lemma demo_bpi_wire: "wire_dev (cfi_nor (\<lambda>b. unat b div 32) 3 2) RUN_TEST_IDLE demo_bpi_dev demo_bpi_jtag = demo_bpi_dev"
  by (simp add: wire_dev_def port_view_def demo_bpi_jtag_def jtag_init_def demo_rbb_def rbb_edges_def obs_step_def settled_def device_after_def)

lemma demo_bpi_mem: "c_mem (wire_flash (cfi_nor (\<lambda>b. unat b div 32) 3 2) (\<lambda>c. c) RUN_TEST_IDLE demo_bpi_dev demo_bpi_jtag) = (\<lambda>_. 0x1234)"
  by (simp only: wire_flash_def demo_bpi_wire) (simp add: demo_bpi_dev_def)

lemma demo_bpi_idle: "wire_idle (cfi_nor (\<lambda>b. unat b div 32) 3 2) (\<lambda>_. True) (\<lambda>c. c) RUN_TEST_IDLE demo_bpi_dev demo_bpi_jtag"
proof -
  have "wire_ok (cfi_nor (\<lambda>b. unat b div 32) 3 2) RUN_TEST_IDLE demo_bpi_dev demo_bpi_jtag"
    by (simp add: wire_ok_def port_ok_def port_in_use_def padding_def synced_def jtag_wf_def wire_inv_def served_def rbb_inv_def rbb_core_def
        rbb_edges_def demo_bpi_jtag_def jtag_init_def demo_rbb_def buf_simps)
  then show ?thesis
    by (simp add: wire_idle_def wire_flash_def demo_bpi_wire) (simp add: demo_bpi_dev_def reset_core_def core_reset_def rested_def)
qed

text \<open>A chip of eight banks, and data in the first of them.\<close>

theorem bpi_write_read_wire_witness:
  "\<exists>j1 j2. bpi_write_bytes (jtag_methods rbb_ops) (bpi_ctor 0\<lparr>bp_has_burst := True\<rparr>) 0x40400 [0xDE, 0xAD, 0xBE] demo_bpi_jtag = Inr (True, j1) \<and>
    c_mem (wire_flash (cfi_nor (\<lambda>b. unat b div 32) 3 2) (\<lambda>c. c) RUN_TEST_IDLE demo_bpi_dev j1) = flash_after 0x40400 [0xDE, 0xAD, 0xBE] (\<lambda>_. 0x1234) \<and>
    bpi_read_bytes (jtag_methods rbb_ops) (bpi_ctor 0\<lparr>bp_has_burst := True\<rparr>) 0x40400 3 j1 = Inr (True, [0xDE, 0xAD, 0xBE], j2)"
proof -
  let ?bp = "bpi_ctor 0\<lparr>bp_has_burst := True\<rparr>" and ?bk = "\<lambda>b :: 25 word. unat b div 32" and ?data = "[0xDE, 0xAD, 0xBE :: u8]"
  have le: "(3 :: nat) \<le> 3000" "(2 :: nat) \<le> 500" by simp_all
  have bp: "bp_irlen ?bp = bp_irlen (bpi_ctor 0)" "bp_block_size ?bp = bp_block_size (bpi_ctor 0)" by simp_all
  have "unat (0x40400 :: u32) mod 1024 = 0" "?data \<noteq> []" "unat (0x40400 :: u32) + length ?data \<le> 2 ^ 26"
    and n: "unat (0x40400 :: u32) = 0x40400" "length ?data = 3" by simp_all
  from bpi_write_read_wire [OF cfi_nor_ok [OF le] demo_bpi_idle bp this(1-3)] obtain j1 got j2 where
    r: "bpi_write_bytes (jtag_methods rbb_ops) ?bp 0x40400 ?data demo_bpi_jtag = Inr (True, j1)"
      "c_mem (wire_flash (cfi_nor ?bk 3 2) (\<lambda>c. c) RUN_TEST_IDLE demo_bpi_dev j1) = flash_after 0x40400 ?data (\<lambda>_. 0x1234)"
      "bpi_read_bytes (jtag_methods rbb_ops) ?bp 0x40400 3 j1 = Inr (True, got, j2)" "length got = 3"
      "\<forall>i < 3. byte_bank ?bk (0x40400 + i) = ?bk 0 \<longrightarrow> got ! i = ?data ! i"
    unfolding n demo_bpi_mem by blast
  have "byte_bank ?bk (0x40400 + i) = ?bk 0" if "i < 3" for i
  proof -
    have "(0x40400 + i) div 2 < 2 ^ 25" using that by simp
    then show ?thesis using that by (simp add: byte_bank_def unat_block_of unat_25 del: of_nat_add of_nat_div)
  qed
  then have "got = ?data" using r(4,5) by (intro nth_equalityI) auto
  then show ?thesis using r(1-3) by blast
qed

text \<open>The same two bytes in the second bank, eight megabytes further up, do not come back.\<close>

lemma bpi_read_other_bank_demo:
  "\<exists>j1 got j2. bpi_write_bytes (jtag_methods rbb_ops) (bpi_ctor 0) 0x800000 [0xDE, 0xAC] demo_bpi_jtag = Inr (True, j1) \<and>
    bpi_read_bytes (jtag_methods rbb_ops) (bpi_ctor 0) 0x800000 2 j1 = Inr (True, got, j2) \<and> got \<noteq> [0xDE, 0xAC]"
proof -
  let ?bk = "\<lambda>b :: 25 word. unat b div 32" and ?data = "[0xDE, 0xAC :: u8]"
  have le: "(3 :: nat) \<le> 3000" "(2 :: nat) \<le> 500" by simp_all
  have hyps: "unat (0x800000 :: u32) mod 1024 = 0" "unat (0x800000 :: u32) + length ?data \<le> 2 ^ 26" "(1 :: nat) < length ?data"
    "odd (1 :: nat)" by simp_all
  have bank: "byte_bank ?bk (unat (0x800000 :: u32) + 1) \<noteq> ?bk 0" by (simp add: byte_bank_def unat_block_of)
  have low: "\<not> bit (?data ! 1) 0" by simp
  have n: "length ?data = 2" by simp
  from bpi_read_other_bank_fails [OF cfi_nor_ok [OF le] demo_bpi_idle refl refl hyps bank low] show ?thesis unfolding n by blast
qed

end
