(* ===== verification/Spec2Isabelle.thy ===== *)
theory Spec2Isabelle
  imports Remote_Bitbang Usb_Blaster Flash_Interface Stage2_Sdboot Hex_Files Bit_Files Init_Shell Linux_Uart Icesugar_Demo
    Altera_Usb Svf_Usb Anlogic_Usb Ice40 Bpi_Wire
begin

text \<open>
  \<^bold>\<open>A verification development of the repository that boots Linux on a NEORV32.\<close>

  \<^bold>\<open>The program.\<close>  A bitstream is loaded into the FPGA through a USB-Blaster or a remote bitbang server by
  openFPGALoader (\<open>tools/openFPGALoader\<close>); the soft processor starts a second stage loader
  (\<open>sw/stage2_loader\<close>), which fetches kernel, device tree and initramfs over the serial line with XMODEM or from an SD
  card, patches the tree and enters the kernel; the kernel has a UART driver of the project
  (\<open>board/neorv32_uart.c\<close>) and starts the shell of the initramfs (\<open>sw/initramfs/init.c\<close>) as its first process.  Beside
  that stands a demo for the iCESugar board (\<open>icesugar/sw/hello\<close>).  Below, file names without a
  directory are those of \<open>tools/openFPGALoader/src\<close>.

  \<^bold>\<open>Parts, theories and source files.\<close>
  \<^item> \<open>Prelude\<close>: machine words, byte buffers as bit strings, the sum type \<open>res\<close> of exceptions and undefined behaviour.
  \<^item> \<open>Jtag_Tap\<close>, \<open>Jtag\<close>, \<open>Jtag_Chain\<close>, \<open>Part_Db\<close>: \<open>jtag.cpp\<close>, \<open>jtag.hpp\<close>, \<open>jtagInterface.hpp\<close>, \<open>part.hpp\<close>.  The record \<open>jtag\<close>
    is the object \<open>Jtag\<close>; the cable below it is a record of functions, \<open>jtag_ops\<close>, with the locale \<open>jtag_cable\<close> as contract: which
    clock edges each call produces.
  \<^item> \<open>Remote_Bitbang\<close>, \<open>Usb_Blaster\<close>, \<open>Usb_Scan\<close>: the cables of \<open>remoteBitbang_client.cpp\<close> and \<open>usbBlaster.cpp\<close>, with the
    interpretations of the contract.
  \<^item> \<open>Jtag_Scan\<close>, \<open>Jtag_Session\<close>: the methods a client of \<open>Jtag\<close> calls, and the contract \<open>scan_port\<close> in terms of the scans
    that reach the registers of the chain.  \<open>wired_port\<close> is a sublocale of it for every cable that also
    meets \<open>jtag_cable_clk\<close>.
  \<^item> \<open>Usb_Port\<close>: the interpretation of that contract on \<open>jtag.cpp\<close> over \<open>usbBlaster.cpp\<close>, from which the theories
    with names in \<open>_Usb\<close> draw their statements on the wire.
  \<^item> \<open>Altera\<close>, \<open>Max10\<close>, \<open>Altera_Usb\<close>: \<open>device.cpp\<close>, \<open>altera.cpp\<close>.
  \<^item> \<open>Anlogic\<close>, \<open>Anlogic_Usb\<close>, \<open>Ice40\<close>: \<open>anlogic.cpp\<close>, \<open>ice40.cpp\<close>.
  \<^item> \<open>Svf\<close>, \<open>Svf_Usb\<close>: the player of \<open>svf_jtag.cpp\<close>.
  \<^item> \<open>Bpi_Bridge\<close>, \<open>Bpi_Flash\<close>: the Verilog core \<open>bpiOverJtag/bpiOverJtag_core.v\<close> that gives access to a parallel flash, and the
    class of \<open>bpiFlash.cpp\<close> that talks to it.  \<open>Cfi_Chip\<close> states what the chip promises, for any division into banks, each
    with a read mode of its own; \<open>Bpi_Write\<close> proves the
    methods on any port that keeps the contract \<open>bridge_port\<close>, and \<open>Bpi_Wire\<close> interprets it on \<open>jtag.cpp\<close> over
    \<open>remoteBitbang_client.cpp\<close> with a server that is connected to the FPGA.
  \<^item> \<open>SpiFlash_Db\<close>, \<open>Spi_Flash\<close>, \<open>Spi_Flash_Ops\<close>, \<open>Flash_Interface\<close>: \<open>spiFlashdb.hpp\<close>, \<open>spiFlash.cpp\<close>,
    \<open>flashInterface.cpp\<close>; \<open>Nor_Flash\<close> states what the chips promise, \<open>Nor_Chip\<close> is an executable chip that keeps it.
  \<^item> \<open>Bitstream_Base\<close>, \<open>Hex_Files\<close>, \<open>Bit_Files\<close>, \<open>Pof_File\<close>: \<open>configBitstreamParser.cpp\<close> and the parsers \<open>rawParser.cpp\<close>,
    \<open>mcsParser.cpp\<close>, \<open>ihexParser.cpp\<close>, \<open>bitparser.cpp\<close>, \<open>anlogicBitParser.cpp\<close>, \<open>latticeBitParser.cpp\<close>,
    \<open>pofParser.cpp\<close>.
  \<^item> \<open>Stage2_Machine\<close>, \<open>Stage2_Xmodem\<close>, \<open>Stage2_Sd\<close>, \<open>Sd_Card\<close>, \<open>Stage2_Boot\<close>, \<open>Stage2_Linux\<close>, \<open>Stage2_Sdboot\<close>:
    \<open>sw/stage2_loader/main.c\<close> and \<open>sd.c\<close>.  One record holds memory, UART, the SD bus with its card and the bytes that are still to come.
    The card is a function of the history of the bus; \<open>Sd_Card\<close> states the specification of a high capacity card and has an
    executable one that keeps it.
  \<^item> \<open>Linux_Uart\<close>, \<open>Init_Shell\<close>, \<open>Icesugar_Demo\<close>: the driver, the shell and the demo.

  \<^bold>\<open>Conventions.\<close>  A method of C++ is a function from the object (and the state below it) to a result in \<open>res\<close> with the
  new object.  Exceptions, and undefined behaviour such as an access outside a buffer, are values on the left of the
  sum.  Machine integers are words where they can wrap; positions of C type \<open>int\<close> that the code keeps small are
  integers.  Messages on the terminal, progress bars and waiting times are left out.

  \<^bold>\<open>What the groups of lemmas show.\<close>
  \<^item> The moves of \<open>set_state\<close> follow the TAP diagram and end; over every cable that keeps the contract the controllers of the chain
    are in the state the object records, and scans shift exactly padding, data, padding (locale \<open>jtag_cable\<close>); sessions
    of permitted calls keep the port well formed (locale \<open>scan_port\<close>).
  \<^item> The devices and the SVF player are related, down to the edges on the wire, to the scans they are meant to make: a
    bitstream, the words of a flash, the transfers over a bridge, the instructions of an SVF file.
  \<^item> Writing the parallel flash and reading it back is followed from the method down to the registers of the Verilog core and the
    array of the chip; what is read back is the data in the bank of address 0, to which the code gives its commands.
  \<^item> The flash code erases, programs, verifies and protects exactly the areas it is asked for, with the
    exceptions listed as findings.
  \<^item> The parsers read back what a printer after the format's specification writes; where a loop need not end, that is shown too.
  \<^item> XMODEM delivers the data under every finite pattern of disturbances; the driver of the SD card brings up and reads
    every high capacity card that keeps its specification; from reset to the entry of the kernel the images arrive in memory, and the
    kernel is entered from the card exactly with the magic number and one sentinel.
  \<^item> The UART driver keeps the order of the received characters in every interleaving and loses none that the line
    discipline takes; the shell ends and stays in its
    buffers, if the UART becomes ready; its test of the atomic instructions passes on every processor with an exact reservation, and can fail on
    a conforming one without.

  \<^bold>\<open>Bounds and fuel.\<close>  The loop of \<open>set_state\<close> has fuel 16, enough for every pair of states
  (\<open>set_state_path_correct\<close>).  The dispatcher of the loader, the loops over the fields of \<open>.bit\<close> files and over the
  packets of \<open>.pof\<close> files, the patch of the device tree, the waits for a transmitter, the loop of the shell and the polling thread are
  \<open>partial_function\<close>s or relations; that they
  end is proved where they do.  Everything else ends by structural recursion or a measure.  What the outside delivers
  (serial line, standard input) is a finite list with a fixed behaviour after its end.  UART and SPI controller of the loader complete
  every transfer.

  \<^bold>\<open>Parameters.\<close>  The socket and the server, libftdi and the firmware of the adapters, the file system, the environment, the standard
  input and zlib, the services of the Linux kernel, the processor's atomic instructions, the memory under test, the answers
  of devices, the flash chips (by the contracts \<open>Nor_Flash\<close> and \<open>cfi_ok\<close>), the SD card (by the contract \<open>sdhc_card\<close>), the status of the UART, uninitialised memory, and the period of the JTAG clock, which is computed in floating point.  \<open>Altera\<close> and \<open>Anlogic\<close>
  call \<open>FlashInterface::write\<close> on itself; that is a parameter there and modelled in \<open>Flash_Interface\<close>.

  \<^bold>\<open>Not modelled.\<close>
  \<^item> The other cables (FTDI, MPSSE, XVC, J-Link, CMSIS-DAP, DirtyJTAG, CH552, CH347, GWU2X, ESP USB, Anlogic, GPIO): each is the encoding of
    the same interface into the packets of a vendor's protocol, with most of the code in calls of libusb or libftdi.
  \<^item> The drivers of other device families (Xilinx, Lattice, Gowin, Efinix, CologneChip) and parsers only they use (\<open>fsparser.cpp\<close>, \<open>jedParser.cpp\<close>, \<open>feaparser.cpp\<close>, \<open>dfuFileParser.cpp\<close>, \<open>xilinxMapParser.cpp\<close>, \<open>efinixHexParser.cpp\<close>,
    \<open>colognechipCfgParser.cpp\<close>): they are sequences of vendor
    instructions over the same JTAG layer, each as large as the drivers here together, and were left out for their size.
  \<^item> DFU (\<open>dfu.cpp\<close>), the command line (\<open>main.cpp\<close>, \<open>cxxopts.hpp\<close>), the
    tables of boards and cables, and output (\<open>display.cpp\<close>, \<open>progressBar.cpp\<close>).
  \<^item> Other Verilog (the boards, and the endpoint with the version number of the bridge), assembly, device trees and build scripts, which are not programs of the modelled languages.
\<close>

end
